(* ===== verification/Prelude.thy ===== *)
theory Prelude
  imports Main "HOL-Library.AList" "HOL-Library.Multiset" "HOL-Library.Char_ord"
    "HOL-Library.List_Lexorder" "HOL-Library.Product_Lexorder"
begin

text \<open>
  The prelude: what every component of the development shares.

  \<^item> Python's \<open>str\<close> is \<open>string\<close>, a list of \<open>char\<close>: the code points below 256. Its
    order is Python's code point order (\<open>Char_ord\<close> and \<open>List_Lexorder\<close>), tuples
    compare lexicographically (\<open>Product_Lexorder\<close>).
  \<^item> Python's \<open>dict\<close> is an association list with distinct keys in insertion order;
    assignment replaces in place or appends (\<open>AList.update\<close>). The locale \<open>py_dict\<close>
    states what the clients of a dict rely on.
  \<^item> \<open>sorted(xs, key=f)\<close> is \<open>sort_key f xs\<close>, which is stable as Python's sort is.
  \<^item> A call that may raise returns \<open>'e + 'a\<close>, the exception on the left.
\<close>

named_theorems dict_simps \<open>lookups after dict operations\<close>
named_theorems str_simps \<open>string helpers\<close>
named_theorems res_simps \<open>results that may be errors\<close>

section \<open>Results that may be errors\<close>

type_synonym ('e, 'a) result = "'e + 'a"

definition res_bind :: "('e, 'a) result \<Rightarrow> ('a \<Rightarrow> ('e, 'b) result) \<Rightarrow> ('e, 'b) result" where
  "res_bind r f = (case r of Inl e \<Rightarrow> Inl e | Inr a \<Rightarrow> f a)"

lemma res_bind_simps [simp, res_simps]:
  "res_bind (Inl e) f = Inl e"
  "res_bind (Inr a) f = f a"
  by (simp_all add: res_bind_def)

lemma res_bind_Inr_iff [res_simps]:
  "res_bind r f = Inr b \<longleftrightarrow> (\<exists>a. r = Inr a \<and> f a = Inr b)"
  by (cases r) simp_all

text \<open>A loop whose body may raise: the first error ends it.\<close>

fun res_fold :: "('s \<Rightarrow> 'x \<Rightarrow> ('e, 's) result) \<Rightarrow> 's \<Rightarrow> 'x list \<Rightarrow> ('e, 's) result" where
  "res_fold f s [] = Inr s"
| "res_fold f s (x # xs) = res_bind (f s x) (\<lambda>s'. res_fold f s' xs)"

fun res_map :: "('x \<Rightarrow> ('e, 'y) result) \<Rightarrow> 'x list \<Rightarrow> ('e, 'y list) result" where
  "res_map f [] = Inr []"
| "res_map f (x # xs) = res_bind (f x) (\<lambda>y. res_bind (res_map f xs) (\<lambda>ys. Inr (y # ys)))"

lemma res_fold_invariant:
  assumes "res_fold f s xs = Inr t" and "P s"
    and "\<And>s x s'. P s \<Longrightarrow> x \<in> set xs \<Longrightarrow> f s x = Inr s' \<Longrightarrow> P s'"
  shows "P t"
  using assms
proof (induction xs arbitrary: s)
  case Nil
  then show ?case by simp
next
  case (Cons x xs)
  from Cons.prems(1) obtain s' where s': "f s x = Inr s'" and t: "res_fold f s' xs = Inr t"
    by (auto simp: res_bind_Inr_iff)
  have "P s'" by (rule Cons.prems(3) [OF Cons.prems(2) _ s']) simp
  with t show ?case
    by (rule Cons.IH) (rule Cons.prems(3), simp_all)
qed

lemma res_map_Inr_length: "res_map f xs = Inr ys \<Longrightarrow> length ys = length xs"
  by (induction xs arbitrary: ys) (auto simp: res_bind_Inr_iff)

lemma res_map_Inr_set:
  "res_map f xs = Inr ys \<Longrightarrow> y \<in> set ys \<Longrightarrow> \<exists>x\<in>set xs. f x = Inr y"
  by (induction xs arbitrary: ys) (auto simp: res_bind_Inr_iff)

text \<open>A loop that checks each element before a step that cannot fail.\<close>

lemma res_fold_guard:
  assumes "\<And>s x. f s x = (case chk x of Some e \<Rightarrow> Inl e | None \<Rightarrow> Inr (g x s))"
  shows "res_fold f s xs =
    (case List.find (\<lambda>x. chk x \<noteq> None) xs of Some x \<Rightarrow> Inl (the (chk x)) | None \<Rightarrow> Inr (fold g xs s))"
  by (induction xs arbitrary: s) (auto simp: assms split: option.splits)

lemma fold_pair:
  "fold (\<lambda>x (a, b). (f x a, g x b)) xs (a, b) = (fold f xs a, fold g xs b)"
  by (induction xs arbitrary: a b) simp_all

section \<open>Dicts\<close>


type_synonym ('k, 'v) dict = "('k \<times> 'v) list"

abbreviation dict_set :: "'k \<Rightarrow> 'v \<Rightarrow> ('k, 'v) dict \<Rightarrow> ('k, 'v) dict" where
  "dict_set \<equiv> AList.update"

abbreviation dict_get :: "('k, 'v) dict \<Rightarrow> 'k \<Rightarrow> 'v option" where
  "dict_get \<equiv> map_of"

abbreviation dict_pop :: "'k \<Rightarrow> ('k, 'v) dict \<Rightarrow> ('k, 'v) dict" where
  "dict_pop \<equiv> AList.delete"

definition dict_keys :: "('k, 'v) dict \<Rightarrow> 'k list" where
  "dict_keys d = map fst d"

definition dict_wf :: "('k, 'v) dict \<Rightarrow> bool" where
  "dict_wf d \<longleftrightarrow> distinct (map fst d)"

definition dict_has :: "('k, 'v) dict \<Rightarrow> 'k \<Rightarrow> bool" where
  "dict_has d k \<longleftrightarrow> map_of d k \<noteq> None"

definition dict_of :: "('k \<times> 'v) list \<Rightarrow> ('k, 'v) dict" where
  "dict_of kvs = fold (\<lambda>(k, v). dict_set k v) kvs []"

text \<open>\<open>d.setdefault(k, []).append(x)\<close>, the grouping idiom of the sources.\<close>

definition dict_append :: "'k \<Rightarrow> 'x \<Rightarrow> ('k, 'x list) dict \<Rightarrow> ('k, 'x list) dict" where
  "dict_append k x d = dict_set k (case map_of d k of None \<Rightarrow> [x] | Some xs \<Rightarrow> xs @ [x]) d"

definition dict_group :: "('a \<Rightarrow> 'k) \<Rightarrow> 'a list \<Rightarrow> ('k, 'a list) dict" where
  "dict_group f xs = fold (\<lambda>x. dict_append (f x) x) xs []"

text \<open>What a client of a dict relies on: the laws of a finite map with an insertion order.\<close>

locale py_dict =
  fixes empty :: "'d"
    and put :: "'k \<Rightarrow> 'v \<Rightarrow> 'd \<Rightarrow> 'd"
    and get :: "'d \<Rightarrow> 'k \<Rightarrow> 'v option"
    and keys :: "'d \<Rightarrow> 'k list"
    and wf :: "'d \<Rightarrow> bool"
  assumes get_empty: "get empty k = None"
    and get_put: "get (put k v d) k' = (if k' = k then Some v else get d k')"
    and keys_empty: "keys empty = []"
    and keys_put: "keys (put k v d) = (if k \<in> set (keys d) then keys d else keys d @ [k])"
    and in_keys: "k \<in> set (keys d) \<longleftrightarrow> get d k \<noteq> None"
    and wf_empty: "wf empty"
    and wf_put: "wf d \<Longrightarrow> wf (put k v d)"
    and wf_distinct: "wf d \<Longrightarrow> distinct (keys d)"
begin

lemma keys_put_set: "set (keys (put k v d)) = insert k (set (keys d))"
  by (auto simp: keys_put)

lemma get_puts:
  "get (fold (\<lambda>(k, v). put k v) kvs d) k =
     (case map_of (rev kvs) k of None \<Rightarrow> get d k | Some v \<Rightarrow> Some v)"
  by (induction kvs arbitrary: d)
     (auto simp: get_put map_add_def map_of_append split: option.splits)

lemma wf_puts: "wf d \<Longrightarrow> wf (fold (\<lambda>(k, v). put k v) kvs d)"
  by (induction kvs arbitrary: d) (auto simp: wf_put)

lemma keys_puts_set:
  "set (keys (fold (\<lambda>(k, v). put k v) kvs d)) = set (keys d) \<union> fst ` set kvs"
  by (induction kvs arbitrary: d) (auto simp: keys_put_set)

lemma keys_puts_fresh:
  "distinct (map fst kvs) \<Longrightarrow> fst ` set kvs \<inter> set (keys d) = {} \<Longrightarrow>
   keys (fold (\<lambda>(k, v). put k v) kvs d) = keys d @ map fst kvs"
  by (induction kvs arbitrary: d) (auto simp: keys_put)

end

lemma update_keys_list: "map fst (AList.update k v d) =
    (if k \<in> fst ` set d then map fst d else map fst d @ [k])"
  by (induction d) auto

interpretation alist: py_dict "[]" dict_set dict_get dict_keys dict_wf
proof
  show "map_of (AList.update k v d) k' = (if k' = k then Some v else map_of d k')"
    for k k' :: 'a and v :: 'b and d
    by (simp add: update_conv)
  show "dict_keys (AList.update k v d) =
      (if k \<in> set (dict_keys d) then dict_keys d else dict_keys d @ [k])"
    for k :: 'a and v :: 'b and d
    by (simp add: dict_keys_def update_keys_list)
  show "k \<in> set (dict_keys d) \<longleftrightarrow> map_of d k \<noteq> None" for k :: 'a and d :: "('a \<times> 'b) list"
    by (simp add: dict_keys_def map_of_eq_None_iff)
qed (auto simp: dict_keys_def dict_wf_def distinct_update)

declare alist.get_put [dict_simps] alist.keys_put_set [dict_simps]

lemma dict_of_get [dict_simps]: "map_of (dict_of kvs) k = map_of (rev kvs) k"
  by (simp add: dict_of_def alist.get_puts split: option.splits)

lemma dict_of_wf [simp]: "dict_wf (dict_of kvs)"
  by (simp add: dict_of_def alist.wf_puts alist.wf_empty)

lemma dict_of_keys_set [dict_simps]: "set (dict_keys (dict_of kvs)) = fst ` set kvs"
  by (simp add: dict_of_def alist.keys_puts_set alist.keys_empty)

lemma dict_of_keys_distinct:
  "distinct (map fst kvs) \<Longrightarrow> dict_keys (dict_of kvs) = map fst kvs"
  by (simp add: dict_of_def alist.keys_puts_fresh alist.keys_empty)

lemma map_of_rev_distinct: "distinct (map fst kvs) \<Longrightarrow> map_of (rev kvs) = map_of kvs"
  by (rule map_of_inject_set [THEN iffD2]) (simp_all flip: rev_map)

lemma dict_of_get_distinct:
  "distinct (map fst kvs) \<Longrightarrow> map_of (dict_of kvs) k = map_of kvs k"
  by (simp add: dict_of_get map_of_rev_distinct)

lemma dict_of_get_Some_in:
  "map_of (dict_of kvs) k = Some v \<Longrightarrow> (k, v) \<in> set kvs"
  by (metis dict_of_get map_of_SomeD set_rev)

lemma dict_wf_pop [simp]: "dict_wf d \<Longrightarrow> dict_wf (dict_pop k d)"
  by (simp add: dict_wf_def distinct_delete)

lemma dict_wf_get: "dict_wf d \<Longrightarrow> (k, v) \<in> set d \<Longrightarrow> map_of d k = Some v"
  by (simp add: dict_wf_def)

lemma dict_append_get:
  "map_of (dict_append k x d) k' =
     (if k' = k then Some ((case map_of d k of None \<Rightarrow> [] | Some xs \<Rightarrow> xs) @ [x])
      else map_of d k')"
  by (simp add: dict_append_def update_conv split: option.splits)

text \<open>Accumulating into a dict, one entry per key: each entry is the fold over its own elements.\<close>

lemma dict_accumulate_get:
  "map_of (fold (\<lambda>x d. dict_set (k x) (f x (case map_of d (k x) of None \<Rightarrow> z x | Some v \<Rightarrow> v)) d) xs d) j =
     (let ys = filter (\<lambda>x. k x = j) xs in
      case map_of d j of None \<Rightarrow> if ys = [] then None else Some (fold f ys (z (hd ys)))
      | Some v \<Rightarrow> Some (fold f ys v))"
  by (induction xs arbitrary: d) (auto simp: update_conv Let_def split: option.splits)

lemma dict_accumulate_wf:
  "dict_wf d \<Longrightarrow> dict_wf (fold (\<lambda>x d. dict_set (k x) (f x d) d) xs d)"
  by (induction xs arbitrary: d) (auto simp: dict_wf_def distinct_update)

lemma dict_accumulate_keys:
  "set (dict_keys (fold (\<lambda>x d. dict_set (k x) (f x d) d) xs d)) = set (dict_keys d) \<union> k ` set xs"
  by (induction xs arbitrary: d) (auto simp: alist.keys_put_set)

lemma dict_group_get_aux:
  "map_of (fold (\<lambda>x. dict_append (f x) x) xs d) k =
     (let ys = filter (\<lambda>x. f x = k) xs in
      case map_of d k of None \<Rightarrow> if ys = [] then None else Some ys
      | Some zs \<Rightarrow> Some (zs @ ys))"
  by (induction xs arbitrary: d) (auto simp: dict_append_get Let_def split: option.splits)

lemma dict_group_get [dict_simps]:
  "map_of (dict_group f xs) k =
     (let ys = filter (\<lambda>x. f x = k) xs in if ys = [] then None else Some ys)"
  by (simp add: dict_group_def dict_group_get_aux)

lemma dict_group_wf [simp]: "dict_wf (dict_group f xs)"
proof -
  have "dict_wf (fold (\<lambda>x. dict_append (f x) x) xs d)" if "dict_wf d" for d
    using that by (induction xs arbitrary: d) (auto simp: dict_append_def dict_wf_def distinct_update)
  then show ?thesis by (simp add: dict_group_def dict_wf_def)
qed

lemma dict_group_keys: "set (dict_keys (dict_group f xs)) = f ` set xs"
  by (auto simp: set_eq_iff alist.in_keys dict_group_get Let_def filter_empty_conv)

section \<open>Sorting\<close>

lemma map_insort_key:
  assumes "\<And>x. h (f x) = g x"
  shows "map f (insort_key g x xs) = insort_key h (f x) (map f xs)"
  by (induction xs) (auto simp: assms)

lemma map_sort_key:
  assumes "\<And>x. h (f x) = g x"
  shows "map f (sort_key g xs) = sort_key h (map f xs)"
  by (induction xs) (simp_all add: map_insort_key [where h = h and f = f and g = g] assms)

lemma sorted_dict_keys:
  assumes "dict_wf d"
  shows "map fst (sort_key fst d) = sorted_list_of_set (set (dict_keys d))"
proof -
  have "map fst (sort_key fst d) = sort (map fst d)"
    by (rule map_sort_key) simp
  also have "\<dots> = sorted_list_of_set (set (map fst d))"
    using assms by (simp only: dict_wf_def sorted_list_of_set_sort_remdups distinct_remdups_id)
  finally show ?thesis by (simp only: dict_keys_def)
qed

lemma sorted_dict_items:
  assumes "dict_wf d"
  shows "sort_key fst d = map (\<lambda>k. (k, the (map_of d k))) (sorted_list_of_set (set (dict_keys d)))"
proof -
  have "map (\<lambda>k. (k, the (map_of d k))) (map fst (sort_key fst d)) = sort_key fst d"
    unfolding map_map
    by (rule map_idI) (use assms in \<open>auto simp: dict_wf_get\<close>)
  then show ?thesis by (simp only: sorted_dict_keys [OF assms])
qed

text \<open>Sorting by a key that tells the elements apart forgets the order of the input.\<close>

lemma filter_key_inj:
  assumes "inj_on f (set zs)" and "v \<in> set zs"
  shows "filter (\<lambda>x. f x = f v) zs = replicate (count (mset zs) v) v"
proof -
  have "filter (\<lambda>x. f x = f v) zs = filter (\<lambda>x. x = v) zs"
    using assms by (intro filter_cong) (auto simp: inj_on_def)
  also have "\<dots> = replicate (count (mset zs) v) v"
    by (induction zs) auto
  finally show ?thesis .
qed

lemma sort_key_perm:
  assumes "mset xs = mset ys" and "inj_on f (set xs)"
  shows "sort_key f xs = sort_key f ys"
proof (rule properties_for_sort_key)
  show "mset (sort_key f ys) = mset xs" using assms(1) by simp
  show "sorted (map f (sort_key f ys))" by simp
  have eq: "set xs = set ys" using assms(1) by (metis set_mset_mset)
  fix v
  assume "v \<in> set (sort_key f ys)"
  then have "v \<in> set ys" by simp
  with eq assms have "filter (\<lambda>x. f x = f v) (sort_key f ys) = replicate (count (mset ys) v) v"
    by (subst filter_key_inj) auto
  with \<open>v \<in> set ys\<close> eq assms show "filter (\<lambda>x. f v = f x) (sort_key f ys) = filter (\<lambda>x. f v = f x) xs"
    using filter_key_inj [of f xs v] by (simp add: eq_commute)
qed

lemma map_eq_by_iff:
  assumes "\<And>x y. f x = f y \<longleftrightarrow> g x = g y"
  shows "map f xs = map f ys \<longleftrightarrow> map g xs = map g ys"
proof (induction xs arbitrary: ys)
  case Nil
  then show ?case by simp
next
  case (Cons x xs)
  then show ?case by (cases ys) (simp_all add: assms)
qed

section \<open>Strings\<close>

text \<open>\<open>sep.join(xs)\<close>\<close>

fun join :: "string \<Rightarrow> string list \<Rightarrow> string" where
  "join sep [] = []"
| "join sep [x] = x"
| "join sep (x # y # xs) = x @ sep @ join sep (y # xs)"

text \<open>\<open>s.startswith(p)\<close>, \<open>s.endswith(p)\<close>, \<open>s.removesuffix(p)\<close>\<close>

definition startswith :: "string \<Rightarrow> string \<Rightarrow> bool" where
  "startswith s p \<longleftrightarrow> take (length p) s = p"

definition endswith :: "string \<Rightarrow> string \<Rightarrow> bool" where
  "endswith s p \<longleftrightarrow> length p \<le> length s \<and> drop (length s - length p) s = p"

definition removesuffix :: "string \<Rightarrow> string \<Rightarrow> string" where
  "removesuffix s p = (if endswith s p then take (length s - length p) s else s)"

text \<open>\<open>s.partition(c)\<close>: what precedes the first \<open>c\<close>, whether there is one, what follows.\<close>

fun partition_at :: "char \<Rightarrow> string \<Rightarrow> string \<times> bool \<times> string" where
  "partition_at c [] = ([], False, [])"
| "partition_at c (x # xs) =
     (if x = c then ([], True, xs)
      else case partition_at c xs of (a, b, r) \<Rightarrow> (x # a, b, r))"

text \<open>\<open>s.split(c)\<close>\<close>

fun split_on :: "char \<Rightarrow> string \<Rightarrow> string list" where
  "split_on c [] = [[]]"
| "split_on c (x # xs) =
     (if x = c then [] # split_on c xs
      else case split_on c xs of [] \<Rightarrow> [[x]] | y # ys \<Rightarrow> (x # y) # ys)"

text \<open>\<open>str(n)\<close> for integers\<close>

definition digit_char :: "nat \<Rightarrow> char" where
  "digit_char d = char_of (48 + d)"

fun show_nat :: "nat \<Rightarrow> string" where
  "show_nat n = (if n < 10 then [digit_char n] else show_nat (n div 10) @ [digit_char (n mod 10)])"

declare show_nat.simps [simp del]

definition show_int :: "int \<Rightarrow> string" where
  "show_int i = (if i < 0 then CHR ''-'' # show_nat (nat (- i)) else show_nat (nat i))"

text \<open>ASCII letters and digits; \<open>str.lower()\<close> below 128 (the letters above 127 are mapped
  to letters above 127, see \<open>mangle\<close>).\<close>

definition is_upper :: "char \<Rightarrow> bool" where
  "is_upper c \<longleftrightarrow> CHR ''A'' \<le> c \<and> c \<le> CHR ''Z''"

definition is_lower :: "char \<Rightarrow> bool" where
  "is_lower c \<longleftrightarrow> CHR ''a'' \<le> c \<and> c \<le> CHR ''z''"

definition is_digit :: "char \<Rightarrow> bool" where
  "is_digit c \<longleftrightarrow> CHR ''0'' \<le> c \<and> c \<le> CHR ''9''"

lemma startswith_append [simp]: "startswith (p @ s) p"
  by (simp add: startswith_def)

lemma startswith_iff: "startswith s p \<longleftrightarrow> (\<exists>r. s = p @ r)"
  by (metis append_take_drop_id startswith_append startswith_def)

lemma endswith_iff: "endswith s p \<longleftrightarrow> (\<exists>r. s = r @ p)"
proof
  assume "endswith s p"
  then show "\<exists>r. s = r @ p"
    by (metis append_take_drop_id endswith_def)
next
  assume "\<exists>r. s = r @ p"
  then show "endswith s p" by (auto simp: endswith_def)
qed

lemma removesuffix_append [simp]: "removesuffix (s @ p) p = s"
  by (simp add: removesuffix_def endswith_def)

lemma partition_at_found:
  "partition_at c s = (a, True, r) \<Longrightarrow> s = a @ c # r \<and> c \<notin> set a"
  by (induction s arbitrary: a) (auto split: if_splits prod.splits)

lemma partition_at_none: "partition_at c s = (a, False, r) \<Longrightarrow> s = a \<and> c \<notin> set s \<and> r = []"
  by (induction s arbitrary: a) (auto split: if_splits prod.splits)

lemma partition_at_append: "c \<notin> set a \<Longrightarrow> partition_at c (a @ c # r) = (a, True, r)"
  by (induction a) auto

lemma partition_at_absent: "c \<notin> set a \<Longrightarrow> partition_at c a = (a, False, [])"
  by (induction a) auto

lemma digit_char_inj: "d < 10 \<Longrightarrow> e < 10 \<Longrightarrow> digit_char d = digit_char e \<Longrightarrow> d = e"
proof -
  assume *: "d < 10" "e < 10" and eq: "digit_char d = digit_char e"
  have "of_char (digit_char d) = (of_char (digit_char e) :: nat)" using eq by simp
  with * show "d = e" by (simp add: digit_char_def)
qed

lemma is_digit_digit_char: "d < 10 \<Longrightarrow> is_digit (digit_char d)"
  by (simp add: is_digit_def digit_char_def less_eq_char_def)

lemma show_nat_nonempty [simp]: "show_nat n \<noteq> []"
  by (subst show_nat.simps) simp

lemma show_nat_digits: "c \<in> set (show_nat n) \<Longrightarrow> is_digit c"
proof (induction n rule: show_nat.induct)
  case (1 n)
  then show ?case
    by (cases "n < 10") (auto simp: show_nat.simps [of n] is_digit_digit_char)
qed

lemma show_nat_inj: "show_nat m = show_nat n \<Longrightarrow> m = n"
proof (induction m arbitrary: n rule: show_nat.induct)
  case (1 m)
  show ?case
  proof (cases "m < 10 \<or> n < 10")
    case True
    with "1.prems" show ?thesis
      by (auto simp: show_nat.simps [of m] show_nat.simps [of n] append_eq_Cons_conv
          Cons_eq_append_conv split: if_splits intro: digit_char_inj)
  next
    case False
    with "1.prems" have "show_nat (m div 10) = show_nat (n div 10)"
      and "digit_char (m mod 10) = digit_char (n mod 10)"
      by (auto simp: show_nat.simps [of m] show_nat.simps [of n])
    with False "1.IH" have "m div 10 = n div 10" and "m mod 10 = n mod 10"
      by (auto intro: digit_char_inj)
    then show ?thesis by (metis div_mult_mod_eq)
  qed
qed

lemma minus_not_in_show_nat: "CHR ''-'' \<notin> set (show_nat n)"
proof
  assume "CHR ''-'' \<in> set (show_nat n)"
  then have "is_digit (CHR ''-'')" by (rule show_nat_digits)
  then show False by (simp add: is_digit_def less_eq_char_def)
qed

lemma show_int_inj: "show_int i = show_int j \<Longrightarrow> i = j"
proof -
  assume eq: "show_int i = show_int j"
  have no: "show_nat n \<noteq> CHR ''-'' # xs" for n xs
    using minus_not_in_show_nat [of n] by (metis list.set_intros(1))
  from eq show "i = j"
    by (auto simp: show_int_def no no [symmetric] split: if_splits dest!: show_nat_inj)
qed

end
