(* ===== verification/Json.thy ===== *)
theory Json
  imports Prelude
begin

text \<open>
  JSON values and the canonical serialization of \<open>src/snapshot/canonical.py\<close>.

  A JSON object is a dict: an association list from keys to values. Numbers are the
  integers; Python's floats do not occur in the snapshot fields whose bytes matter here
  and are not modelled. \<open>canonical_json\<close> is \<open>json.dumps(v, sort_keys=True,
  separators=(",", ":"), ensure_ascii=False)\<close>, written out: the escapes of
  \<open>json.encoder\<close>, keys sorted at every level, no blanks.

  The main result of the theory is that the serialization loses nothing but the order of
  the keys: two values have the same canonical bytes exactly if they agree after
  their keys are sorted (\<open>canonical_json_eq_iff\<close>).
\<close>

datatype json =
    JNull
  | JBool bool
  | JInt int
  | JStr string
  | JList "json list"
  | JObj "(string \<times> json) list"

text \<open>Python's truth value of a JSON value, and of \<open>d.get(k)\<close>\<close>

fun truthy :: "json \<Rightarrow> bool" where
  "truthy JNull = False"
| "truthy (JBool b) = b"
| "truthy (JInt i) = (i \<noteq> 0)"
| "truthy (JStr s) = (s \<noteq> [])"
| "truthy (JList xs) = (xs \<noteq> [])"
| "truthy (JObj kvs) = (kvs \<noteq> [])"

definition truthy_opt :: "json option \<Rightarrow> bool" where
  "truthy_opt v = (case v of None \<Rightarrow> False | Some j \<Rightarrow> truthy j)"

section \<open>String escapes\<close>

definition hex_digit :: "nat \<Rightarrow> char" where
  "hex_digit d = (if d < 10 then char_of (48 + d) else char_of (87 + d))"

definition hex_value :: "char \<Rightarrow> nat" where
  "hex_value c = (let n = of_char c in if n < 58 then n - 48 else n - 87)"

text \<open>\<open>json.encoder.ESCAPE_DCT\<close>: the two-character escapes, and \<open>\u00XX\<close> for the other
  control characters.\<close>

definition esc_char :: "char \<Rightarrow> string" where
  "esc_char c =
     (if c = CHR 0x22 then [CHR 0x5C, CHR 0x22]
      else if c = CHR 0x5C then [CHR 0x5C, CHR 0x5C]
      else if c = CHR 0x0A then [CHR 0x5C, CHR ''n'']
      else if c = CHR 0x0D then [CHR 0x5C, CHR ''r'']
      else if c = CHR 0x09 then [CHR 0x5C, CHR ''t'']
      else if c = CHR 0x0C then [CHR 0x5C, CHR ''f'']
      else if c = CHR 0x08 then [CHR 0x5C, CHR ''b'']
      else if of_char c < (32 :: nat)
      then [CHR 0x5C, CHR ''u'', CHR ''0'', CHR ''0'',
            hex_digit (of_char c div 16), hex_digit (of_char c mod 16)]
      else [c])"

definition json_str :: "string \<Rightarrow> string" where
  "json_str s = CHR 0x22 # concat (map esc_char s) @ [CHR 0x22]"

text \<open>The decoder of one escape, used only to prove the encoding unambiguous.\<close>

fun unesc_char :: "string \<Rightarrow> (char \<times> string) option" where
  "unesc_char [] = None"
| "unesc_char (c # s) =
     (if c \<noteq> CHR 0x5C then Some (c, s)
      else case s of
        [] \<Rightarrow> None
      | d # s' \<Rightarrow>
          if d = CHR ''n'' then Some (CHR 0x0A, s')
          else if d = CHR ''r'' then Some (CHR 0x0D, s')
          else if d = CHR ''t'' then Some (CHR 0x09, s')
          else if d = CHR ''f'' then Some (CHR 0x0C, s')
          else if d = CHR ''b'' then Some (CHR 0x08, s')
          else if d = CHR ''u'' then
            (case s' of
               _ # _ # x # y # s'' \<Rightarrow> Some (char_of (16 * hex_value x + hex_value y), s'')
             | _ \<Rightarrow> None)
          else Some (d, s'))"

lemma hex_value_digit: "d < 16 \<Longrightarrow> hex_value (hex_digit d) = d"
  by (auto simp: hex_value_def hex_digit_def)

lemma unesc_esc: "unesc_char (esc_char c @ r) = Some (c, r)"
proof (cases "of_char c < (32 :: nat)")
  case True
  then have "of_char c div 16 < (16 :: nat)" by simp
  then show ?thesis
    by (auto simp: esc_char_def hex_value_digit)
next
  case False
  then show ?thesis by (auto simp: esc_char_def)
qed

lemma esc_char_unique: "esc_char c @ r = esc_char d @ s \<Longrightarrow> c = d \<and> r = s"
  by (metis unesc_esc option.inject prod.inject)

lemma esc_char_not_quote: "esc_char c @ r \<noteq> CHR 0x22 # s"
  by (auto simp: esc_char_def)

lemma esc_string_unique:
  "concat (map esc_char s) @ CHR 0x22 # r = concat (map esc_char t) @ CHR 0x22 # r'
   \<Longrightarrow> s = t \<and> r = r'"
proof (induction s arbitrary: t)
  case Nil
  then show ?case
    by (cases t) (auto simp: esc_char_not_quote [symmetric])
next
  case (Cons c s)
  show ?case
  proof (cases t)
    case Nil
    with Cons.prems show ?thesis by (auto simp: esc_char_not_quote)
  next
    case (Cons d t')
    with Cons.prems have "esc_char c @ (concat (map esc_char s) @ CHR 0x22 # r) =
        esc_char d @ (concat (map esc_char t') @ CHR 0x22 # r')"
      by simp
    from esc_char_unique [OF this] Cons.IH Cons show ?thesis by auto
  qed
qed

lemma json_str_unique: "json_str s @ r = json_str t @ r' \<Longrightarrow> s = t \<and> r = r'"
  by (auto simp: json_str_def dest: esc_string_unique)

section \<open>Printing\<close>

fun canonical_json :: "json \<Rightarrow> string" where
  "canonical_json JNull = ''null''"
| "canonical_json (JBool b) = (if b then ''true'' else ''false'')"
| "canonical_json (JInt i) = show_int i"
| "canonical_json (JStr s) = json_str s"
| "canonical_json (JList vs) = ''['' @ join '','' (map canonical_json vs) @ '']''"
| "canonical_json (JObj kvs) =
     ''{'' @ join '',''
       (map (\<lambda>(k, t). json_str k @ '':'' @ t)
         (sort_key fst (map (\<lambda>(k, v). (k, canonical_json v)) kvs))) @ ''}''"

text \<open>The value with the keys of every object sorted, and the plain printer.\<close>

fun sort_json :: "json \<Rightarrow> json" where
  "sort_json (JList vs) = JList (map sort_json vs)"
| "sort_json (JObj kvs) = JObj (sort_key fst (map (\<lambda>(k, v). (k, sort_json v)) kvs))"
| "sort_json v = v"

fun print_json :: "json \<Rightarrow> string" where
  "print_json JNull = ''null''"
| "print_json (JBool b) = (if b then ''true'' else ''false'')"
| "print_json (JInt i) = show_int i"
| "print_json (JStr s) = json_str s"
| "print_json (JList vs) = ''['' @ join '','' (map print_json vs) @ '']''"
| "print_json (JObj kvs) =
     ''{'' @ join '','' (map (\<lambda>(k, v). json_str k @ '':'' @ print_json v) kvs) @ ''}''"

lemma canonical_json_print: "canonical_json v = print_json (sort_json v)"
proof (induction v)
  case (JList vs)
  then show ?case by (simp add: o_def cong: map_cong)
next
  case (JObj kvs)
  let ?s = "map (\<lambda>(k, v). (k, sort_json v)) kvs"
  have *: "map (\<lambda>(k, v). (k, canonical_json v)) kvs = map (\<lambda>(k, v). (k, print_json v)) ?s"
    using JObj by (force simp: snds.simps)
  have "sort_key fst (map (\<lambda>(k, v). (k, print_json v)) ?s)
      = map (\<lambda>(k, v). (k, print_json v)) (sort_key fst ?s)"
    by (rule map_sort_key [symmetric]) auto
  then have "sort_key fst (map (\<lambda>(k, v). (k, canonical_json v)) kvs)
      = map (\<lambda>(k, v). (k, print_json v)) (sort_key fst ?s)"
    by (simp only: *)
  then show ?case
    by (simp only: canonical_json.simps sort_json.simps print_json.simps map_map o_def
        case_prod_unfold fst_conv snd_conv)
qed simp_all

section \<open>The printer is injective\<close>

text \<open>A printed value is followed by nothing or by one of these characters.\<close>

definition delim :: "string \<Rightarrow> bool" where
  "delim r \<longleftrightarrow> (case r of [] \<Rightarrow> True | c # _ \<Rightarrow> c = CHR '','' \<or> c = CHR '']'' \<or> c = CHR ''}'')"

definition unique_print :: "json \<Rightarrow> bool" where
  "unique_print v \<longleftrightarrow>
     (\<forall>w r r'. print_json v @ r = print_json w @ r' \<longrightarrow> delim r \<longrightarrow> delim r' \<longrightarrow> v = w \<and> r = r')"

lemma num_char_not_delim:
  "c \<in> set (show_int i) \<Longrightarrow> c \<noteq> CHR '','' \<and> c \<noteq> CHR '']'' \<and> c \<noteq> CHR ''}''"
proof -
  assume "c \<in> set (show_int i)"
  then have "c = CHR ''-'' \<or> is_digit c"
    by (auto simp: show_int_def split: if_splits dest: show_nat_digits)
  then show ?thesis by (auto simp: is_digit_def less_eq_char_def)
qed

lemma delim_takeWhile:
  assumes "delim r" and "\<And>c. c \<in> set s \<Longrightarrow> c \<noteq> CHR '','' \<and> c \<noteq> CHR '']'' \<and> c \<noteq> CHR ''}''"
  shows "takeWhile (\<lambda>c. c \<noteq> CHR '','' \<and> c \<noteq> CHR '']'' \<and> c \<noteq> CHR ''}'') (s @ r) = s"
  using assms by (induction s) (auto simp: delim_def split: list.splits)

lemma show_int_unique:
  assumes "show_int i @ r = show_int j @ r'" and "delim r" and "delim r'"
  shows "i = j \<and> r = r'"
proof -
  have i: "takeWhile (\<lambda>c. c \<noteq> CHR '','' \<and> c \<noteq> CHR '']'' \<and> c \<noteq> CHR ''}'') (show_int i @ r) = show_int i"
    by (rule delim_takeWhile [OF assms(2) num_char_not_delim])
  have j: "takeWhile (\<lambda>c. c \<noteq> CHR '','' \<and> c \<noteq> CHR '']'' \<and> c \<noteq> CHR ''}'') (show_int j @ r') = show_int j"
    by (rule delim_takeWhile [OF assms(3) num_char_not_delim])
  have "show_int i = show_int j" using i j assms(1) by simp
  with assms(1) show ?thesis by (auto dest: show_int_inj)
qed

lemma show_nat_head: "show_nat n = c # cs \<Longrightarrow> is_digit c"
  using show_nat_digits [of c n] by simp

lemma show_int_head: "show_int i = c # cs \<Longrightarrow> c = CHR ''-'' \<or> is_digit c"
  by (auto simp: show_int_def split: if_splits dest: show_nat_head)

lemma show_int_nonempty [simp]: "show_int i \<noteq> []"
  by (simp add: show_int_def)

text \<open>The first character tells the constructor.\<close>

fun head_ok :: "json \<Rightarrow> char \<Rightarrow> bool" where
  "head_ok JNull c = (c = CHR ''n'')"
| "head_ok (JBool b) c = (c = (if b then CHR ''t'' else CHR ''f''))"
| "head_ok (JInt i) c = (c = CHR ''-'' \<or> is_digit c)"
| "head_ok (JStr s) c = (c = CHR 0x22)"
| "head_ok (JList vs) c = (c = CHR ''['')"
| "head_ok (JObj kvs) c = (c = CHR ''{'')"

lemma print_json_head: "\<exists>c cs. print_json v = c # cs \<and> head_ok v c"
proof (cases v)
  case (JInt i)
  then show ?thesis by (cases "show_int i") (auto dest: show_int_head)
qed (auto simp: json_str_def)

lemma not_digit_heads:
  "\<not> is_digit (CHR ''n'')" "\<not> is_digit (CHR ''t'')" "\<not> is_digit (CHR ''f'')"
  "\<not> is_digit (CHR 0x22)" "\<not> is_digit (CHR ''['')" "\<not> is_digit (CHR ''{'')"
  by (simp_all add: is_digit_def less_eq_char_def)

lemma print_json_same_head:
  assumes "print_json v @ r = print_json w @ r'"
  obtains c where "head_ok v c" and "head_ok w c"
  using assms print_json_head [of v] print_json_head [of w] by auto

text \<open>A comma-separated sequence closed by a bracket is read back item by item, if its
  items are: the step shared by arrays and objects.\<close>

lemma print_item_not_close: "head_ok v c \<Longrightarrow> c \<noteq> CHR '']'' \<and> c \<noteq> CHR ''}''"
  by (cases v) (auto simp: is_digit_def less_eq_char_def split: if_splits)

lemma join_Cons: "join sep (x # xs) = x @ (if xs = [] then [] else sep @ join sep xs)"
  by (cases xs) simp_all

lemma join_unique:
  assumes unique: "\<And>x y r r'. x \<in> set xs \<Longrightarrow> p x @ r = p y @ r' \<Longrightarrow> delim r \<Longrightarrow> delim r' \<Longrightarrow> x = y \<and> r = r'"
    and open_x: "\<And>x r s. p x @ r \<noteq> close # s"
    and close: "close = CHR '']'' \<or> close = CHR ''}''"
    and eq: "join '','' (map p xs) @ close # r = join '','' (map p ys) @ close # r'"
  shows "xs = ys \<and> r = r'"
  using unique eq
proof (induction xs arbitrary: ys)
  case Nil
  then show ?case
    by (cases ys) (auto simp: join_Cons open_x [symmetric] split: if_splits)
next
  case (Cons x xs)
  show ?case
  proof (cases ys)
    case Nil
    with Cons.prems(2) show ?thesis by (auto simp: join_Cons open_x split: if_splits)
  next
    case (Cons y ys')
    let ?t = "\<lambda>zs q. (if zs = [] then [] else '','' @ join '','' (map p zs)) @ close # q"
    have "p x @ ?t xs r = p y @ ?t ys' r'"
      using Cons.prems(2) Cons by (simp add: join_Cons)
    moreover have "delim (?t xs r)" and "delim (?t ys' r')"
      using close by (auto simp: delim_def)
    ultimately have "x = y \<and> ?t xs r = ?t ys' r'"
      by (intro Cons.prems(1)) simp_all
    then have x: "x = y" and t: "?t xs r = ?t ys' r'" by simp_all
    show ?thesis
    proof (cases "xs = [] \<or> ys' = []")
      case True
      with t close have "xs = [] \<and> ys' = [] \<and> r = r'" by (auto split: if_splits)
      with x Cons show ?thesis by simp
    next
      case False
      with t have "join '','' (map p xs) @ close # r = join '','' (map p ys') @ close # r'"
        by simp
      then have "xs = ys' \<and> r = r'"
        by (intro Cons.IH) (rule Cons.prems(1), simp_all)
      with x Cons show ?thesis by simp
    qed
  qed
qed

lemma print_json_unique: "unique_print v"
proof (induction v)
  case (JList vs)
  show ?case
    unfolding unique_print_def
  proof (intro allI impI)
    fix w r r'
    assume eq: "print_json (JList vs) @ r = print_json w @ r'" and "delim r" "delim r'"
    obtain c where "head_ok (JList vs) c" and "head_ok w c"
      by (rule print_json_same_head [OF eq])
    then obtain ws where w: "w = JList ws"
      by (cases w) (auto simp: not_digit_heads split: if_splits)
    have "vs = ws \<and> r = r'"
    proof (rule join_unique [where p = print_json and close = "CHR '']''"])
      show "join '','' (map print_json vs) @ CHR '']'' # r = join '','' (map print_json ws) @ CHR '']'' # r'"
        using eq w by simp
      show "print_json x @ s \<noteq> CHR '']'' # t" for x s t
        using print_json_head [of x] print_item_not_close by fastforce
      show "x = y \<and> s = s'" if "x \<in> set vs" "print_json x @ s = print_json y @ s'" "delim s" "delim s'"
        for x y s s'
        using JList [OF that(1)] that by (auto simp: unique_print_def)
    qed simp
    with w show "JList vs = w \<and> r = r'" by simp
  qed
next
  case (JObj kvs)
  let ?p = "\<lambda>(k, v). json_str k @ '':'' @ print_json v"
  show ?case
    unfolding unique_print_def
  proof (intro allI impI)
    fix w r r'
    assume eq: "print_json (JObj kvs) @ r = print_json w @ r'" and "delim r" "delim r'"
    obtain c where "head_ok (JObj kvs) c" and "head_ok w c"
      by (rule print_json_same_head [OF eq])
    then obtain ws where w: "w = JObj ws"
      by (cases w) (auto simp: not_digit_heads split: if_splits)
    have "kvs = ws \<and> r = r'"
    proof (rule join_unique [where p = ?p and close = "CHR ''}''"])
      show "join '','' (map ?p kvs) @ CHR ''}'' # r = join '','' (map ?p ws) @ CHR ''}'' # r'"
        using eq w by simp
      show "?p x @ s \<noteq> CHR ''}'' # t" for x s t
        by (auto simp: json_str_def split: prod.splits)
      show "x = y \<and> s = s'" if "x \<in> set kvs" "?p x @ s = ?p y @ s'" "delim s" "delim s'"
        for x y s s'
      proof -
        obtain k v k' v' where xy: "x = (k, v)" "y = (k', v')" by fastforce
        from that(2) xy have "json_str k @ ('':'' @ print_json v @ s) = json_str k' @ ('':'' @ print_json v' @ s')"
          by simp
        from json_str_unique [OF this] have "k = k'" and "print_json v @ s = print_json v' @ s'"
          by auto
        moreover have "unique_print v" by (rule JObj [OF that(1)]) (simp add: xy)
        ultimately show ?thesis using that xy by (auto simp: unique_print_def)
      qed
    qed simp
    with w show "JObj kvs = w \<and> r = r'" by simp
  qed
next
  case (JInt i)
  show ?case
    unfolding unique_print_def
  proof (intro allI impI)
    fix w r r'
    assume eq: "print_json (JInt i) @ r = print_json w @ r'" and d: "delim r" "delim r'"
    obtain c where "head_ok (JInt i) c" and "head_ok w c"
      by (rule print_json_same_head [OF eq])
    then obtain j where w: "w = JInt j"
      by (cases w) (auto simp: not_digit_heads split: if_splits)
    with eq d show "JInt i = w \<and> r = r'" by (auto dest: show_int_unique)
  qed
next
  case (JStr s)
  show ?case
    unfolding unique_print_def
  proof (intro allI impI)
    fix w r r'
    assume eq: "print_json (JStr s) @ r = print_json w @ r'"
    obtain c where "head_ok (JStr s) c" and "head_ok w c"
      by (rule print_json_same_head [OF eq])
    then obtain t where w: "w = JStr t"
      by (cases w) (auto simp: not_digit_heads split: if_splits)
    with eq show "JStr s = w \<and> r = r'" by (auto dest: json_str_unique)
  qed
next
  case (JBool b)
  show ?case
    unfolding unique_print_def
  proof (intro allI impI)
    fix w r r'
    assume eq: "print_json (JBool b) @ r = print_json w @ r'"
    obtain c where "head_ok (JBool b) c" and "head_ok w c"
      by (rule print_json_same_head [OF eq])
    then have "w = JBool b"
      by (cases w) (auto simp: not_digit_heads split: if_splits)
    with eq show "JBool b = w \<and> r = r'" by simp
  qed
next
  case JNull
  show ?case
    unfolding unique_print_def
  proof (intro allI impI)
    fix w r r'
    assume eq: "print_json JNull @ r = print_json w @ r'"
    obtain c where "head_ok JNull c" and "head_ok w c"
      by (rule print_json_same_head [OF eq])
    then have "w = JNull"
      by (cases w) (auto simp: not_digit_heads split: if_splits)
    with eq show "JNull = w \<and> r = r'" by simp
  qed
qed

lemma print_json_inj: "print_json v = print_json w \<longleftrightarrow> v = w"
  using print_json_unique [of v] by (fastforce simp: unique_print_def delim_def)

section \<open>Python equality\<close>

text \<open>\<open>==\<close> on JSON values: dicts compare as maps, lists item by item, and a bool equals
  the integer it is (\<open>True == 1\<close>). Reading bools as integers and sorting the keys makes it
  an equation.\<close>

fun unbool :: "json \<Rightarrow> json" where
  "unbool (JBool b) = JInt (if b then 1 else 0)"
| "unbool (JList vs) = JList (map unbool vs)"
| "unbool (JObj kvs) = JObj (map (\<lambda>(k, v). (k, unbool v)) kvs)"
| "unbool v = v"

definition py_eq :: "json \<Rightarrow> json \<Rightarrow> bool" where
  "py_eq v w \<longleftrightarrow> sort_json (unbool v) = sort_json (unbool w)"

text \<open>The dicts inside a value have distinct keys, as every Python dict has.\<close>

fun json_wf :: "json \<Rightarrow> bool" where
  "json_wf (JList vs) = list_all json_wf vs"
| "json_wf (JObj kvs) = (distinct (map fst kvs) \<and> list_all (\<lambda>(k, v). json_wf v) kvs)"
| "json_wf v = True"

section \<open>Equality of JSON values\<close>

text \<open>The specification the serialization is measured against: objects are finite maps, so
  they agree if they have the same keys and agree at each; arrays agree item by item.\<close>

inductive same_value :: "json \<Rightarrow> json \<Rightarrow> bool" where
  same_null: "same_value JNull JNull"
| same_bool: "same_value (JBool b) (JBool b)"
| same_int: "same_value (JInt i) (JInt i)"
| same_str: "same_value (JStr s) (JStr s)"
| same_list: "list_all2 same_value vs ws \<Longrightarrow> same_value (JList vs) (JList ws)"
| same_obj: "set (map fst kvs) = set (map fst kws) \<Longrightarrow>
    (\<And>k v w. map_of kvs k = Some v \<Longrightarrow> map_of kws k = Some w \<Longrightarrow> same_value v w) \<Longrightarrow>
    same_value (JObj kvs) (JObj kws)"

lemma distinct_sort_key_fst_iff:
  fixes xs ys :: "('k::linorder \<times> 'v) list"
  assumes "distinct (map fst xs)" and "distinct (map fst ys)"
  shows "sort_key fst xs = sort_key fst ys \<longleftrightarrow> map_of xs = map_of ys"
proof
  assume "sort_key fst xs = sort_key fst ys"
  then have "set xs = set ys" by (metis set_sort)
  then show "map_of xs = map_of ys" using assms by (simp add: map_of_inject_set)
next
  assume "map_of xs = map_of ys"
  then have "set xs = set ys" using assms by (simp add: map_of_inject_set)
  moreover have "distinct xs" "distinct ys" using assms by (simp_all add: distinct_map)
  ultimately have "mset xs = mset ys" by (simp add: set_eq_iff_mset_eq_distinct)
  moreover have "inj_on fst (set xs)" using assms by (simp add: distinct_map)
  ultimately show "sort_key fst xs = sort_key fst ys" by (rule sort_key_perm)
qed

lemma map_of_map_snd: "map_of (map (\<lambda>(k, v). (k, f v)) kvs) k = map_option f (map_of kvs k)"
  by (induction kvs) auto

lemma map_fst_map_snd [simp]: "map fst (map (\<lambda>(k, v). (k, f v)) kvs) = map fst kvs"
  by (simp add: case_prod_beta comp_def)

lemma sort_json_obj_iff:
  assumes "distinct (map fst kvs)" and "distinct (map fst kws)"
  shows "sort_json (JObj kvs) = sort_json (JObj kws) \<longleftrightarrow>
    (\<forall>k. map_option sort_json (map_of kvs k) = map_option sort_json (map_of kws k))"
proof -
  have "sort_json (JObj kvs) = sort_json (JObj kws) \<longleftrightarrow>
      map_of (map (\<lambda>(k, v). (k, sort_json v)) kvs) = map_of (map (\<lambda>(k, v). (k, sort_json v)) kws)"
    using distinct_sort_key_fst_iff [of "map (\<lambda>(k, v). (k, sort_json v)) kvs"
        "map (\<lambda>(k, v). (k, sort_json v)) kws"] assms by (simp only: sort_json.simps map_fst_map_snd json.inject)
  then show ?thesis by (simp add: fun_eq_iff map_of_map_snd)
qed

lemma same_value_sort: "same_value v w \<Longrightarrow> json_wf v \<Longrightarrow> json_wf w \<Longrightarrow> sort_json v = sort_json w"
proof (induction rule: same_value.induct)
  case (same_list vs ws)
  then have "map sort_json vs = map sort_json ws"
    by (auto simp: list_all2_conv_all_nth list_all_length intro!: nth_equalityI)
  then show ?case by simp
next
  case (same_obj kvs kws)
  have d: "distinct (map fst kvs)" "distinct (map fst kws)"
    using same_obj.prems by auto
  have "map_option sort_json (map_of kvs k) = map_option sort_json (map_of kws k)" for k
  proof (cases "map_of kvs k")
    case None
    then have "map_of kws k = None"
      using same_obj.hyps(1) by (simp add: map_of_eq_None_iff)
    with None show ?thesis by simp
  next
    case (Some v)
    then obtain w where w: "map_of kws k = Some w"
      using same_obj.hyps(1) by (metis list.set_map map_of_eq_None_iff option.exhaust_sel option.simps(3))
    have "json_wf v" "json_wf w"
      using same_obj.prems map_of_SomeD [OF Some] map_of_SomeD [OF w] by (auto simp: list_all_iff)
    with same_obj.hyps(2) [OF Some w] same_obj.IH [OF Some w] Some w show ?thesis by simp
  qed
  then show ?case using d by (simp add: sort_json_obj_iff del: sort_json.simps)
qed simp_all

lemma sort_same_value: "sort_json v = sort_json w \<Longrightarrow> json_wf v \<Longrightarrow> json_wf w \<Longrightarrow> same_value v w"
proof (induction v arbitrary: w)
  case (JList vs)
  from JList.prems(1) obtain ws where w: "w = JList ws" and eq: "map sort_json vs = map sort_json ws"
    by (cases w) auto
  from eq have len: "length vs = length ws" by (metis length_map)
  moreover have "same_value (vs ! i) (ws ! i)" if "i < length vs" for i
    using that JList.IH [of "vs ! i" "ws ! i"] JList.prems w eq len
    by (metis json_wf.simps(1) list_all_length nth_map nth_mem)
  ultimately show ?case using w by (auto intro!: same_value.same_list list_all2_all_nthI)
next
  case (JObj kvs)
  from JObj.prems(1) obtain kws where w: "w = JObj kws" by (cases w) auto
  have d: "distinct (map fst kvs)" "distinct (map fst kws)"
    using JObj.prems w by auto
  have eq: "map_option sort_json (map_of kvs k) = map_option sort_json (map_of kws k)" for k
    using JObj.prems(1) d w by (simp add: sort_json_obj_iff del: sort_json.simps)
  have "set (map fst kvs) = set (map fst kws)"
    using eq by (metis (no_types, lifting) list.set_map map_of_eq_None_iff map_option_is_None set_eqI)
  moreover have "same_value v u" if v: "map_of kvs k = Some v" and u: "map_of kws k = Some u" for k v u
  proof -
    have "json_wf v" "json_wf u"
      using JObj.prems w map_of_SomeD [OF v] map_of_SomeD [OF u] by (auto simp: list_all_iff)
    moreover have "sort_json v = sort_json u" using eq [of k] v u by simp
    ultimately show ?thesis
      using JObj.IH [OF map_of_SomeD [OF v], of v] by simp
  qed
  ultimately show ?case using w by (auto intro: same_value.same_obj)
next
  case JNull
  then show ?case by (cases w) (auto intro: same_value.intros)
next
  case (JBool b)
  then show ?case by (cases w) (auto intro: same_value.intros)
next
  case (JInt i)
  then show ?case by (cases w) (auto intro: same_value.intros)
next
  case (JStr s)
  then show ?case by (cases w) (auto intro: same_value.intros)
qed

lemma canonical_json_inj: "canonical_json v = canonical_json w \<longleftrightarrow> sort_json v = sort_json w"
  by (simp add: canonical_json_print print_json_inj)

text \<open>
  C29. The canonical serialization (\<open>canonical_json\<close> of snapshot/canonical.py) is
  unambiguous and ignores key order: two JSON values whose dicts have distinct keys have the same
  canonical text if and only if they are the same value, objects read as finite maps.
  So equality of canonical bytes, which the diff engine and the hashes compare, is
  equality of JSON values.\<close>

theorem canonical_json_faithful:
  assumes "json_wf v" and "json_wf w"
  shows "canonical_json v = canonical_json w \<longleftrightarrow> same_value v w"
  using same_value_sort [of v w] sort_same_value [of v w] assms
  by (auto simp: canonical_json_inj)

theorem canonical_json_faithful_witness:
  "canonical_json (JObj [(''b'', JInt 1), (''a'', JStr ''x'')])
     = canonical_json (JObj [(''a'', JStr ''x''), (''b'', JInt 1)])
   \<longleftrightarrow> same_value (JObj [(''b'', JInt 1), (''a'', JStr ''x'')])
         (JObj [(''a'', JStr ''x''), (''b'', JInt 1)])"
  by (rule canonical_json_faithful) simp_all

end
