(* ===== verification/Snapshot.thy ===== *)
theory Snapshot
  imports Json
begin

text \<open>
  The normalized metadata snapshot: the data model of
  \<open>src/snapshot/schema/snapshot.v1.schema.json\<close>, the kind registry
  (\<open>snapshot/registry.py\<close>), canonical ordering (\<open>snapshot/canonical.py\<close>) and the
  structural hash (\<open>snapshot/hashing.py\<close>).

  A document that passed the JSON Schema has every field of the records below; an optional
  member is an \<open>option\<close>. The registered kinds and their stats fields are the source's table.
  SHA-256 of the standard library is the parameter \<open>sha\<close>, from text to hex digits:
  the theorems that need it to tell two texts apart say so for these two texts.
\<close>

section \<open>Data model\<close>

record column =
  c_name :: string
  c_type :: string
  c_nullable :: bool
  c_default :: "string option"
  c_ordinal :: int
  c_description :: "string option"

record fkey =
  fk_columns :: "string list"
  fk_ref :: string
  fk_ref_columns :: "string list"

record obj_keys =
  k_primary :: "string list option"
  k_foreign :: "fkey list option"
  k_unique :: "string list list option"

record obj =
  o_kind :: string
  o_schema :: string
  o_name :: string
  o_description :: "string option"
  o_schema_hash :: string
  o_columns :: "column list"
  o_keys :: obj_keys
  o_stats :: "(string, json) dict"

record snapshot =
  s_version :: string
  s_system :: string
  s_system_class :: string
  s_source_mode :: string
  s_captured_at :: string
  s_connector :: "string \<times> string"
  s_source_properties :: "(string, json) dict option"
  s_objects :: "obj list"

type_synonym identity = "string \<times> string \<times> string"

definition identity_of :: "obj \<Rightarrow> identity" where
  "identity_of ob = (o_kind ob, o_schema ob, o_name ob)"

section \<open>Documents as JSON\<close>

definition opt_str :: "string option \<Rightarrow> json" where
  "opt_str x = (case x of None \<Rightarrow> JNull | Some s \<Rightarrow> JStr s)"

definition str_list :: "string list \<Rightarrow> json" where
  "str_list xs = JList (map JStr xs)"

definition column_json :: "column \<Rightarrow> json" where
  "column_json c = JObj
     [(''name'', JStr (c_name c)), (''type'', JStr (c_type c)),
      (''nullable'', JBool (c_nullable c)), (''default'', opt_str (c_default c)),
      (''ordinal'', JInt (c_ordinal c)), (''description'', opt_str (c_description c))]"

definition fk_json :: "fkey \<Rightarrow> json" where
  "fk_json fk = JObj
     [(''columns'', str_list (fk_columns fk)), (''ref'', JStr (fk_ref fk)),
      (''ref_columns'', str_list (fk_ref_columns fk))]"

definition member :: "string \<Rightarrow> ('a \<Rightarrow> json) \<Rightarrow> 'a option \<Rightarrow> (string, json) dict" where
  "member key f x = (case x of None \<Rightarrow> [] | Some v \<Rightarrow> [(key, f v)])"

definition keys_json :: "obj_keys \<Rightarrow> json" where
  "keys_json ks = JObj
     (member ''primary'' str_list (k_primary ks)
      @ member ''foreign'' (\<lambda>fks. JList (map fk_json fks)) (k_foreign ks)
      @ member ''unique'' (\<lambda>us. JList (map str_list us)) (k_unique ks))"

definition obj_json :: "obj \<Rightarrow> json" where
  "obj_json ob = JObj
     [(''kind'', JStr (o_kind ob)), (''schema'', JStr (o_schema ob)), (''name'', JStr (o_name ob)),
      (''description'', opt_str (o_description ob)), (''schema_hash'', JStr (o_schema_hash ob)),
      (''columns'', JList (map column_json (o_columns ob))), (''keys'', keys_json (o_keys ob)),
      (''stats'', JObj (o_stats ob))]"

definition snapshot_fields :: "snapshot \<Rightarrow> (string, json) dict" where
  "snapshot_fields s =
     [(''snapshot_version'', JStr (s_version s)), (''system'', JStr (s_system s)),
      (''system_class'', JStr (s_system_class s)), (''source_mode'', JStr (s_source_mode s)),
      (''captured_at'', JStr (s_captured_at s)),
      (''connector'', JObj [(''name'', JStr (fst (s_connector s))), (''version'', JStr (snd (s_connector s)))]),
      (''objects'', JList (map obj_json (s_objects s)))]
     @ member ''source_properties'' JObj (s_source_properties s)"

section \<open>Registry (registry.py)\<close>

record kind_spec =
  system_class :: string
  hash_included_stats :: "string list"
  hash_excluded_stats :: "string list"

definition kind_spec_of :: "string \<Rightarrow> string list \<Rightarrow> string list \<Rightarrow> kind_spec" where
  "kind_spec_of c i e = \<lparr>system_class = c, hash_included_stats = i, hash_excluded_stats = e\<rparr>"

definition KIND_REGISTRY :: "(string, kind_spec) dict" where
  "KIND_REGISTRY =
     [(''table'', kind_spec_of ''sql'' [''checks''] [''row_estimate'', ''indexes'']),
      (''view'', kind_spec_of ''sql'' [''definition''] []),
      (''materialized_view'', kind_spec_of ''sql'' [''definition''] [''row_estimate'', ''indexes'']),
      (''api_dimension'', kind_spec_of ''api'' [''data_type''] []),
      (''api_metric'', kind_spec_of ''api'' [''data_type'', ''scope'', ''formula''] []),
      (''api_event'', kind_spec_of ''api'' [''is_key_event''] [])]"

definition known_kind :: "string \<Rightarrow> bool" where
  "known_kind k \<longleftrightarrow> dict_has KIND_REGISTRY k"

definition included_stats :: "string \<Rightarrow> string list" where
  "included_stats k = (case dict_get KIND_REGISTRY k of None \<Rightarrow> [] | Some sp \<Rightarrow> hash_included_stats sp)"

definition excluded_stats :: "string \<Rightarrow> string list" where
  "excluded_stats k = (case dict_get KIND_REGISTRY k of None \<Rightarrow> [] | Some sp \<Rightarrow> hash_excluded_stats sp)"

text \<open>\<open>registered_stats_fields\<close> raises \<open>KeyError\<close> on an unknown kind.\<close>

definition registered_stats_fields :: "string \<Rightarrow> string list option" where
  "registered_stats_fields k =
     map_option (\<lambda>sp. hash_included_stats sp @ hash_excluded_stats sp) (dict_get KIND_REGISTRY k)"

section \<open>Canonical ordering (canonical.py)\<close>

definition CANONICAL_BODY_EXCLUDED :: "string list" where
  "CANONICAL_BODY_EXCLUDED = [''captured_at'', ''connector'', ''source_mode'']"

definition fk_sort_key :: "fkey \<Rightarrow> string \<times> string" where
  "fk_sort_key fk = (join '','' (fk_columns fk), fk_ref fk)"

definition ordered_keys :: "obj_keys \<Rightarrow> obj_keys" where
  "ordered_keys ks = ks\<lparr>k_foreign := map_option (sort_key fk_sort_key) (k_foreign ks),
                        k_unique := map_option sort (k_unique ks)\<rparr>"

definition ordered_object :: "obj \<Rightarrow> obj" where
  "ordered_object ob = ob\<lparr>o_columns := sort_key c_ordinal (o_columns ob),
                          o_keys := ordered_keys (o_keys ob)\<rparr>"

definition canonical_object_bytes :: "obj \<Rightarrow> string" where
  "canonical_object_bytes ob = canonical_json (obj_json (ordered_object ob))"

definition canonical_body :: "snapshot \<Rightarrow> (string, json) dict" where
  "canonical_body s =
     dict_set ''objects''
       (JList (map (\<lambda>ob. obj_json (ordered_object ob)) (sort_key identity_of (s_objects s))))
       (filter (\<lambda>(k, v). k \<notin> set CANONICAL_BODY_EXCLUDED) (snapshot_fields s))"

definition canonical_body_bytes :: "snapshot \<Rightarrow> string" where
  "canonical_body_bytes s = canonical_json (JObj (canonical_body s))"

section \<open>Structural hash (hashing.py)\<close>

datatype hash_error = UnknownKindError string

definition structural_column :: "column \<Rightarrow> json" where
  "structural_column c = JObj
     [(''name'', JStr (c_name c)), (''type'', JStr (c_type c)),
      (''nullable'', JBool (c_nullable c)), (''default'', opt_str (c_default c)),
      (''ordinal'', JInt (c_ordinal c))]"

definition structural_projection :: "obj \<Rightarrow> (hash_error, json) result" where
  "structural_projection ob =
     (case dict_get KIND_REGISTRY (o_kind ob) of
        None \<Rightarrow> Inl (UnknownKindError (o_kind ob))
      | Some spec \<Rightarrow> Inr (JObj
          [(''kind'', JStr (o_kind ob)), (''schema'', JStr (o_schema ob)), (''name'', JStr (o_name ob)),
           (''columns'', JList (map structural_column (sort_key c_ordinal (o_columns ob)))),
           (''keys'', keys_json (ordered_keys (o_keys ob))),
           (''stats'', JObj (filter (\<lambda>(k, v). k \<in> set (hash_included_stats spec)) (o_stats ob)))]))"

definition schema_hash :: "(string \<Rightarrow> string) \<Rightarrow> obj \<Rightarrow> (hash_error, string) result" where
  "schema_hash sha ob =
     res_bind (structural_projection ob) (\<lambda>p. Inr (''sha256:'' @ sha (canonical_json p)))"

section \<open>The JSON forms determine the records\<close>

lemma opt_str_simps [simp]:
  "sort_json (opt_str x) = opt_str x"
  "opt_str x = opt_str y \<longleftrightarrow> x = y"
  by (auto simp: opt_str_def split: option.splits)

lemma map_JStr_inj [simp]: "map JStr xs = map JStr ys \<longleftrightarrow> xs = ys"
  by (rule inj_map_eq_map) (simp add: inj_def)

lemma str_list_simps [simp]:
  "sort_json (str_list xs) = str_list xs"
  "str_list xs = str_list ys \<longleftrightarrow> xs = ys"
  by (simp_all add: str_list_def o_def)

lemma map_eq_map_inj: "(\<And>x y. f x = f y \<longleftrightarrow> x = y) \<Longrightarrow> map f xs = map f ys \<longleftrightarrow> xs = ys"
  by (metis (no_types, lifting) injI inj_map_eq_map)

lemma column_json_inj: "sort_json (column_json c) = sort_json (column_json d) \<longleftrightarrow> c = d"
  by (cases c, cases d) (auto simp: column_json_def)

lemma structural_column_inj:
  "sort_json (structural_column c) = sort_json (structural_column d) \<longleftrightarrow>
     c\<lparr>c_description := None\<rparr> = d\<lparr>c_description := None\<rparr>"
  by (cases c, cases d) (auto simp: structural_column_def)

lemma fk_json_inj: "sort_json (fk_json a) = sort_json (fk_json b) \<longleftrightarrow> a = b"
  by (cases a, cases b) (auto simp: fk_json_def)

lemma fk_list_inj:
  "map (sort_json \<circ> fk_json) xs = map (sort_json \<circ> fk_json) ys \<longleftrightarrow> xs = ys"
  by (rule map_eq_map_inj) (simp add: fk_json_inj)

lemma str_list_list_inj: "map str_list xs = map str_list ys \<longleftrightarrow> xs = ys"
  by (rule map_eq_map_inj) simp

lemma keys_json_inj: "sort_json (keys_json a) = sort_json (keys_json b) \<longleftrightarrow> a = b"
  by (cases a, cases b)
     (auto simp: keys_json_def member_def o_def fk_list_inj [unfolded o_def] str_list_list_inj
       split: option.splits)

lemma map_of_filter_key:
  "map_of (filter (\<lambda>(k, v). P k) kvs) k = (if P k then map_of kvs k else None)"
  by (induction kvs) auto

lemma distinct_filter_key: "distinct (map fst kvs) \<Longrightarrow> distinct (map fst (filter P kvs))"
  by (induction kvs) auto

section \<open>What the hash sees\<close>

text \<open>The structure of an object: identity, the columns without their descriptions in
  ordinal order, the ordered keys and the hash-included stats.\<close>

definition structural_columns :: "obj \<Rightarrow> column list" where
  "structural_columns ob = map (\<lambda>c. c\<lparr>c_description := None\<rparr>) (sort_key c_ordinal (o_columns ob))"

definition same_structure :: "obj \<Rightarrow> obj \<Rightarrow> bool" where
  "same_structure a b \<longleftrightarrow>
     identity_of a = identity_of b
     \<and> structural_columns a = structural_columns b
     \<and> ordered_keys (o_keys a) = ordered_keys (o_keys b)
     \<and> (\<forall>k \<in> set (included_stats (o_kind a)).
          map_option sort_json (dict_get (o_stats a) k) = map_option sort_json (dict_get (o_stats b) k))"

text \<open>The JSON text that is hashed, defined for a registered kind.\<close>

definition hash_text :: "obj \<Rightarrow> string" where
  "hash_text ob = (case structural_projection ob of Inl _ \<Rightarrow> [] | Inr p \<Rightarrow> canonical_json p)"

lemma known_kind_registry: "known_kind k \<longleftrightarrow> (\<exists>sp. dict_get KIND_REGISTRY k = Some sp)"
  by (simp add: known_kind_def dict_has_def)

lemma schema_hash_known:
  "known_kind (o_kind ob) \<Longrightarrow> schema_hash sha ob = Inr (''sha256:'' @ sha (hash_text ob))"
  by (auto simp: schema_hash_def hash_text_def known_kind_registry structural_projection_def)

lemma schema_hash_unknown:
  "\<not> known_kind (o_kind ob) \<Longrightarrow> schema_hash sha ob = Inl (UnknownKindError (o_kind ob))"
  by (auto simp: schema_hash_def known_kind_registry structural_projection_def split: option.splits)

lemma structural_columns_json:
  "map (sort_json \<circ> structural_column) (sort_key c_ordinal (o_columns a)) =
   map (sort_json \<circ> structural_column) (sort_key c_ordinal (o_columns b))
   \<longleftrightarrow> structural_columns a = structural_columns b"
  unfolding structural_columns_def
  by (simp add: list_eq_iff_nth_eq structural_column_inj cong: conj_cong)

lemma sort_projection:
  "sort_json (JObj [(''kind'', a), (''schema'', b), (''name'', c), (''columns'', d), (''keys'', e), (''stats'', f)])
   = JObj [(''columns'', sort_json d), (''keys'', sort_json e), (''kind'', sort_json a),
           (''name'', sort_json c), (''schema'', sort_json b), (''stats'', sort_json f)]"
  by simp

lemma hash_text_known:
  assumes "known_kind (o_kind ob)"
  shows "hash_text ob = canonical_json (JObj
     [(''kind'', JStr (o_kind ob)), (''schema'', JStr (o_schema ob)), (''name'', JStr (o_name ob)),
      (''columns'', JList (map structural_column (sort_key c_ordinal (o_columns ob)))),
      (''keys'', keys_json (ordered_keys (o_keys ob))),
      (''stats'', JObj (filter (\<lambda>(k, v). k \<in> set (included_stats (o_kind ob))) (o_stats ob)))])"
  using assms
  by (auto simp: hash_text_def structural_projection_def known_kind_registry included_stats_def
      simp del: canonical_json.simps)

lemma sort_json_JList_eq:
  "sort_json (JList (map f xs)) = sort_json (JList (map f ys)) \<longleftrightarrow>
     map (sort_json \<circ> f) xs = map (sort_json \<circ> f) ys"
  by (simp add: o_def)

lemma hash_text_eq_iff:
  assumes "known_kind (o_kind a)" and "known_kind (o_kind b)"
    and "dict_wf (o_stats a)" and "dict_wf (o_stats b)"
  shows "hash_text a = hash_text b \<longleftrightarrow> same_structure a b"
proof -
  let ?st = "\<lambda>x k. JObj (filter (\<lambda>(j, v). j \<in> set (included_stats k)) (o_stats x))"
  have st: "sort_json (?st a k) = sort_json (?st b k) \<longleftrightarrow>
      (\<forall>j \<in> set (included_stats k).
         map_option sort_json (map_of (o_stats a) j) = map_option sort_json (map_of (o_stats b) j))" for k
    using assms(3,4)
    by (subst sort_json_obj_iff) (auto simp: distinct_filter_key dict_wf_def map_of_filter_key)
  have cols: "map (sort_json \<circ> structural_column) (sort_key c_ordinal (o_columns a)) =
      map (sort_json \<circ> structural_column) (sort_key c_ordinal (o_columns b))
      \<longleftrightarrow> structural_columns a = structural_columns b"
    by (rule structural_columns_json)
  show ?thesis
    unfolding hash_text_known [OF assms(1)] hash_text_known [OF assms(2)] canonical_json_inj
      sort_projection json.inject list.inject prod.inject sort_json_JList_eq cols keys_json_inj
    using st [of "o_kind b"]
    by (auto simp: same_structure_def identity_of_def simp del: sort_json.simps(2))
qed

section \<open>What canonical ordering forgets\<close>

definition reordered_keys :: "obj_keys \<Rightarrow> obj_keys \<Rightarrow> bool" where
  "reordered_keys a b \<longleftrightarrow>
     k_primary a = k_primary b
     \<and> map_option mset (k_foreign a) = map_option mset (k_foreign b)
     \<and> map_option mset (k_unique a) = map_option mset (k_unique b)"

definition keys_wf :: "obj_keys \<Rightarrow> bool" where
  "keys_wf ks \<longleftrightarrow> (case k_foreign ks of None \<Rightarrow> True | Some fks \<Rightarrow> distinct (map fk_sort_key fks))"

text \<open>A well-formed object numbers its columns distinctly, its foreign keys have distinct
  sort keys, and its stats are a dict.\<close>

definition obj_wf :: "obj \<Rightarrow> bool" where
  "obj_wf ob \<longleftrightarrow> distinct (map c_ordinal (o_columns ob)) \<and> keys_wf (o_keys ob) \<and> dict_wf (o_stats ob)"

definition reordered :: "obj \<Rightarrow> obj \<Rightarrow> bool" where
  "reordered a b \<longleftrightarrow>
     b = a\<lparr>o_columns := o_columns b, o_keys := o_keys b\<rparr>
     \<and> mset (o_columns a) = mset (o_columns b) \<and> reordered_keys (o_keys a) (o_keys b)"

lemma sort_perm: "mset xs = mset ys \<Longrightarrow> sort xs = sort (ys :: 'a::linorder list)"
  by (metis properties_for_sort mset_sort sorted_sort)

lemma sort_key_perm_distinct:
  "mset xs = mset ys \<Longrightarrow> distinct (map f xs) \<Longrightarrow> sort_key f xs = sort_key f ys"
  by (rule sort_key_perm) (simp_all add: distinct_map)

lemma ordered_keys_reordered:
  assumes "keys_wf a" and "reordered_keys a b"
  shows "ordered_keys a = ordered_keys b"
proof -
  have "map_option (sort_key fk_sort_key) (k_foreign a) = map_option (sort_key fk_sort_key) (k_foreign b)"
    using assms
    by (cases "k_foreign a"; cases "k_foreign b")
       (auto simp: keys_wf_def reordered_keys_def intro: sort_key_perm_distinct)
  moreover have "map_option sort (k_unique a) = map_option sort (k_unique b)"
    using assms(2)
    by (cases "k_unique a"; cases "k_unique b") (auto simp: reordered_keys_def intro: sort_perm)
  ultimately show ?thesis
    using assms(2) by (cases a, cases b) (simp add: ordered_keys_def reordered_keys_def)
qed

lemma ordered_object_reordered:
  assumes "obj_wf a" and "reordered a b"
  shows "ordered_object a = ordered_object b"
proof -
  have cols: "sort_key c_ordinal (o_columns a) = sort_key c_ordinal (o_columns b)"
    using assms by (intro sort_key_perm_distinct) (simp_all add: obj_wf_def reordered_def)
  have keys: "ordered_keys (o_keys a) = ordered_keys (o_keys b)"
    using assms by (intro ordered_keys_reordered) (simp_all add: obj_wf_def reordered_def)
  have b: "b = a\<lparr>o_columns := o_columns b, o_keys := o_keys b\<rparr>"
    using assms by (simp add: reordered_def)
  have "ordered_object b = (a\<lparr>o_columns := sort_key c_ordinal (o_columns b), o_keys := ordered_keys (o_keys b)\<rparr>)"
    unfolding ordered_object_def by (subst b) simp
  then show ?thesis by (simp add: ordered_object_def cols keys)
qed

lemma sort_key_idem [simp]: "sort_key f (sort_key f xs) = sort_key f xs"
  by (rule properties_for_sort_key) simp_all

lemma ordered_keys_idem [simp]: "ordered_keys (ordered_keys ks) = ordered_keys ks"
  by (cases ks) (simp add: ordered_keys_def option.map_comp o_def)

lemma ordered_object_idem [simp]: "ordered_object (ordered_object ob) = ordered_object ob"
  by (simp add: ordered_object_def)

lemma ordered_object_fields [simp]:
  "o_kind (ordered_object ob) = o_kind ob" "o_schema (ordered_object ob) = o_schema ob"
  "o_name (ordered_object ob) = o_name ob" "o_description (ordered_object ob) = o_description ob"
  "o_schema_hash (ordered_object ob) = o_schema_hash ob" "o_stats (ordered_object ob) = o_stats ob"
  by (simp_all add: ordered_object_def)

lemma identity_ordered [simp]: "identity_of (ordered_object ob) = identity_of ob"
  by (simp add: identity_of_def)

lemma hash_text_ordered [simp]: "hash_text (ordered_object ob) = hash_text ob"
  by (simp add: hash_text_def structural_projection_def ordered_object_def split: option.splits)

lemma schema_hash_ordered [simp]: "schema_hash sha (ordered_object ob) = schema_hash sha ob"
  by (simp add: schema_hash_def structural_projection_def ordered_object_def split: option.splits)

text \<open>The sorted, ordered objects of a snapshot: what its canonical body lists.\<close>

definition canonical_objects :: "snapshot \<Rightarrow> obj list" where
  "canonical_objects s = map ordered_object (sort_key identity_of (s_objects s))"

lemma canonical_objects_alt:
  "canonical_objects s = sort_key identity_of (map ordered_object (s_objects s))"
  unfolding canonical_objects_def by (rule map_sort_key) simp

lemma canonical_body_fields:
  "canonical_body s =
     [(''snapshot_version'', JStr (s_version s)), (''system'', JStr (s_system s)),
      (''system_class'', JStr (s_system_class s)), (''objects'', JList (map obj_json (canonical_objects s)))]
     @ member ''source_properties'' JObj (s_source_properties s)"
  by (simp add: canonical_body_def snapshot_fields_def CANONICAL_BODY_EXCLUDED_def member_def
      canonical_objects_def split: option.splits)

lemma canonical_objects_reordered:
  assumes "list_all2 reordered (s_objects s) os" and "mset (s_objects t) = mset os"
    and "distinct (map identity_of (s_objects s))" and "list_all obj_wf (s_objects s)"
  shows "canonical_objects s = canonical_objects t"
proof -
  have "map ordered_object (s_objects s) = map ordered_object os"
    using assms(1,4)
    by (auto simp: list_all2_conv_all_nth list_all_length intro!: nth_equalityI ordered_object_reordered)
  moreover have "mset (map ordered_object (s_objects t)) = mset (map ordered_object os)"
    using assms(2) by simp
  moreover have "distinct (map identity_of (map ordered_object (s_objects s)))"
    using assms(3) by (simp add: o_def)
  ultimately show ?thesis
    unfolding canonical_objects_alt by (metis sort_key_perm_distinct)
qed

section \<open>Example objects\<close>

text \<open>A table with two columns and one foreign key, and the same table listed the other
  way round, under another connector run; they instantiate the properties.\<close>

definition ex_col :: "string \<Rightarrow> int \<Rightarrow> string option \<Rightarrow> column" where
  "ex_col n i d = \<lparr>c_name = n, c_type = ''text'', c_nullable = True, c_default = None,
     c_ordinal = i, c_description = d\<rparr>"

definition ex_keys :: obj_keys where
  "ex_keys = \<lparr>k_primary = Some [''id''],
     k_foreign = Some [\<lparr>fk_columns = [''owner''], fk_ref = ''public.users'', fk_ref_columns = [''id'']\<rparr>],
     k_unique = None\<rparr>"

definition ex_table :: "column list \<Rightarrow> obj" where
  "ex_table cs = \<lparr>o_kind = ''table'', o_schema = ''public'', o_name = ''orders'', o_description = None,
     o_schema_hash = ''h'', o_columns = cs, o_keys = ex_keys, o_stats = [(''row_estimate'', JInt 5)]\<rparr>"

definition ex_snapshot :: "string \<Rightarrow> obj list \<Rightarrow> snapshot" where
  "ex_snapshot at os = \<lparr>s_version = ''1'', s_system = ''shop'', s_system_class = ''sql'',
     s_source_mode = ''live'', s_captured_at = at, s_connector = (''pg'', ''1''),
     s_source_properties = None, s_objects = os\<rparr>"

lemmas ex_defs = ex_col_def ex_keys_def ex_table_def ex_snapshot_def

section \<open>Properties\<close>

text \<open>
  C30. Canonical form (spec S-3, S-4; canonical.py \<open>canonical_body_bytes\<close>): a snapshot whose
  objects, columns, foreign keys and unique keys are listed in another order, and whose
  \<open>captured_at\<close>, \<open>connector\<close> and \<open>source_mode\<close> are arbitrary, has byte-identical canonical body,
  provided identities and ordinals are distinct and no two foreign keys of an object have the same sort
  key.\<close>

theorem canonical_body_order_invariant:
  assumes "list_all2 reordered (s_objects s) os" and "mset (s_objects t) = mset os"
    and "distinct (map identity_of (s_objects s))" and "list_all obj_wf (s_objects s)"
    and "s_version t = s_version s" and "s_system t = s_system s"
    and "s_system_class t = s_system_class s" and "s_source_properties t = s_source_properties s"
  shows "canonical_body_bytes t = canonical_body_bytes s"
  using canonical_objects_reordered [OF assms(1-4)] assms(5-8)
  by (simp add: canonical_body_bytes_def canonical_body_fields)

theorem canonical_body_order_invariant_witness:
  "canonical_body_bytes (ex_snapshot ''2026'' [ex_table [ex_col ''owner'' 2 None, ex_col ''id'' 1 None]])
   = canonical_body_bytes (ex_snapshot ''2025'' [ex_table [ex_col ''id'' 1 None, ex_col ''owner'' 2 None]])"
  by (rule canonical_body_order_invariant
        [where os = "[ex_table [ex_col ''owner'' 2 None, ex_col ''id'' 1 None]]"])
     (simp_all add: ex_defs reordered_def reordered_keys_def obj_wf_def keys_wf_def dict_wf_def)

text \<open>
  C22. The structural hash (hashing.py \<open>schema_hash\<close>) is exact: for objects of registered kinds
  whose stats are dicts, and provided SHA-256 does not collide on the two hashed texts, two objects
  have the same hash if and only if they have the same identity, the same columns up to descriptions in
  ordinal order, the same keys in canonical order and equal hash-included stats.\<close>

theorem schema_hash_exact:
  assumes "known_kind (o_kind a)" and "known_kind (o_kind b)"
    and "dict_wf (o_stats a)" and "dict_wf (o_stats b)"
    and no_collision: "sha (hash_text a) = sha (hash_text b) \<Longrightarrow> hash_text a = hash_text b"
  shows "schema_hash sha a = schema_hash sha b \<longleftrightarrow> same_structure a b"
  using hash_text_eq_iff [OF assms(1-4)] no_collision assms(1,2)
  by (auto simp: schema_hash_known)

theorem schema_hash_exact_witness:
  "\<not> (schema_hash (\<lambda>t. t) (ex_table [ex_col ''id'' 1 None]) = schema_hash (\<lambda>t. t) (ex_table [ex_col ''id'' 2 None]))"
  using schema_hash_exact
    [of "ex_table [ex_col ''id'' 1 None]" "ex_table [ex_col ''id'' 2 None]" "\<lambda>t. t"]
  by (simp add: ex_defs known_kind_def dict_has_def KIND_REGISTRY_def dict_wf_def same_structure_def
      structural_columns_def)

text \<open>
  The structural hash does not see metadata (spec section 5): descriptions of the object
  and of its columns, the stored hash, hash-excluded stats, and the listing order of columns,
  foreign keys, unique keys and stats do not change it, whatever SHA-256 computes; on an unregistered
  kind both raise the same error.\<close>

theorem schema_hash_ignores_metadata:
  assumes "identity_of a = identity_of b" and "obj_wf a" and "obj_wf b"
    and "mset (map (\<lambda>c. c\<lparr>c_description := None\<rparr>) (o_columns a)) =
         mset (map (\<lambda>c. c\<lparr>c_description := None\<rparr>) (o_columns b))"
    and "reordered_keys (o_keys a) (o_keys b)"
    and "\<forall>k \<in> set (included_stats (o_kind a)). dict_get (o_stats a) k = dict_get (o_stats b) k"
  shows "schema_hash sha a = schema_hash sha b"
proof (cases "known_kind (o_kind a)")
  case True
  let ?strip = "\<lambda>c. c\<lparr>c_description := None\<rparr>"
  have kind: "o_kind b = o_kind a" using assms(1) by (simp add: identity_of_def)
  have "sort_key c_ordinal (map ?strip (o_columns a)) = sort_key c_ordinal (map ?strip (o_columns b))"
    using assms(2,4) by (intro sort_key_perm_distinct) (simp_all add: obj_wf_def o_def)
  then have "structural_columns a = structural_columns b"
    unfolding structural_columns_def by (simp add: map_sort_key [where h = c_ordinal])
  moreover have "ordered_keys (o_keys a) = ordered_keys (o_keys b)"
    using assms(2,5) by (intro ordered_keys_reordered) (simp_all add: obj_wf_def)
  ultimately have "same_structure a b" using assms(1,6) by (simp add: same_structure_def)
  then have "hash_text a = hash_text b"
    using True kind assms(2,3) by (subst hash_text_eq_iff) (simp_all add: obj_wf_def)
  with True kind show ?thesis by (simp add: schema_hash_known)
next
  case False
  with assms(1) show ?thesis by (simp add: schema_hash_unknown identity_of_def)
qed

theorem schema_hash_ignores_metadata_witness:
  "schema_hash (take 3) (ex_table [ex_col ''id'' 1 (Some ''key''), ex_col ''owner'' 2 None])
   = schema_hash (take 3) ((ex_table [ex_col ''owner'' 2 None, ex_col ''id'' 1 None])\<lparr>o_stats := []\<rparr>)"
  by (rule schema_hash_ignores_metadata)
     (simp_all add: ex_defs identity_of_def reordered_keys_def obj_wf_def keys_wf_def dict_wf_def
       included_stats_def KIND_REGISTRY_def kind_spec_of_def)

end
