(* ===== verification/Delivery.thy ===== *)
theory Delivery
  imports Snapshot
begin

text \<open>
  The snapshot validator (\<open>src/snapshot/validate.py\<close>) and the delivery gate
  (\<open>src/snapshot/accept.py\<close>).

  The JSON Schema check is the package \<open>jsonschema\<close>: the parameter \<open>schema_errors\<close> maps a
  document to its messages. A message of the source is the constructor that names it with the values it
  prints. A delivered value that is no JSON object is \<open>NotObject\<close> with its type's name.
\<close>

section \<open>Validation (validate.py)\<close>

datatype problem =
    SchemaError string
  | DuplicateIdentity identity
  | HashMismatch (hm_identity: identity) (hm_stored: string) (hm_recomputed: string)

datatype warning = UnknownKind identity

fun validate_objects ::
  "(string \<Rightarrow> string) \<Rightarrow> bool \<Rightarrow> identity list \<Rightarrow> obj list \<Rightarrow> problem list \<times> warning list" where
  "validate_objects sha check_hashes seen [] = ([], [])"
| "validate_objects sha check_hashes seen (ob # obs) =
     (let identity = identity_of ob;
          dup = (if identity \<in> set seen then [DuplicateIdentity identity] else []);
          rest = validate_objects sha check_hashes (identity # seen) obs
      in if \<not> known_kind (o_kind ob) then (dup @ fst rest, UnknownKind identity # snd rest)
         else if check_hashes then
           (case schema_hash sha ob of
              Inr h \<Rightarrow>
                (dup @ (if h \<noteq> o_schema_hash ob then [HashMismatch identity (o_schema_hash ob) h] else [])
                   @ fst rest, snd rest)
            | Inl _ \<Rightarrow> (dup @ fst rest, snd rest))
         else (dup @ fst rest, snd rest))"

definition validate_snapshot ::
  "(snapshot \<Rightarrow> string list) \<Rightarrow> (string \<Rightarrow> string) \<Rightarrow> bool \<Rightarrow> snapshot \<Rightarrow> problem list \<times> warning list" where
  "validate_snapshot schema_errors sha check_hashes s =
     (let errors = map SchemaError (schema_errors s)
      in if errors \<noteq> [] then (errors, [])
         else validate_objects sha check_hashes [] (s_objects s))"

text \<open>The command line: each file is a load error or a document; what is printed and the
  exit status.\<close>

datatype validate_line =
    LoadInvalid string string
  | PrintWarning string warning
  | PrintInvalid string "problem list"
  | PrintOk string

fun validate_files ::
  "(snapshot \<Rightarrow> string list) \<Rightarrow> (string \<Rightarrow> string) \<Rightarrow> bool \<Rightarrow> (string \<times> (string + snapshot)) list
     \<Rightarrow> validate_line list \<times> bool" where
  "validate_files sch sha chk [] = ([], False)"
| "validate_files sch sha chk ((path, loaded) # files) =
     (let rest = validate_files sch sha chk files
      in case loaded of
           Inl exc \<Rightarrow> (LoadInvalid path exc # fst rest, True)
         | Inr snapshot \<Rightarrow>
             (let (errors, warnings) = validate_snapshot sch sha chk snapshot
              in (map (PrintWarning path) warnings
                    @ (if errors \<noteq> [] then [PrintInvalid path errors] else [PrintOk path]) @ fst rest,
                  errors \<noteq> [] \<or> snd rest)))"

definition validate_main ::
  "(snapshot \<Rightarrow> string list) \<Rightarrow> (string \<Rightarrow> string) \<Rightarrow> bool \<Rightarrow> (string \<times> (string + snapshot)) list
     \<Rightarrow> validate_line list \<times> int" where
  "validate_main sch sha chk files =
     (let (out, failed) = validate_files sch sha chk files in (out, if failed then 1 else 0))"

section \<open>The delivery gate (accept.py)\<close>

definition canonical_document :: "snapshot \<Rightarrow> (string, json) dict" where
  "canonical_document s =
     fold (\<lambda>k. dict_set k (the (dict_get (snapshot_fields s) k))) CANONICAL_BODY_EXCLUDED (canonical_body s)"

definition canonical_document_bytes :: "snapshot \<Rightarrow> string" where
  "canonical_document_bytes s = canonical_json (JObj (canonical_document s)) @ [CHR 0x0A]"

datatype delivered = NotObject string | Document snapshot

record verdict_ok =
  v_warnings :: "warning list"
  v_system :: string
  v_snapshot_version :: string
  v_source_mode :: string
  v_captured_at :: string
  v_connector :: "string \<times> string"
  v_object_count :: nat
  v_sha256 :: string
  v_canonical_body_sha256 :: string

datatype reject = NotAnObject string | Problems "problem list" "warning list"

type_synonym acceptance = "(reject, verdict_ok \<times> string) result"

definition accept ::
  "(snapshot \<Rightarrow> string list) \<Rightarrow> (string \<Rightarrow> string) \<Rightarrow> delivered \<Rightarrow> acceptance" where
  "accept schema_errors sha document =
     (case document of
        NotObject ty \<Rightarrow> Inl (NotAnObject ty)
      | Document s \<Rightarrow>
          (let (errors, warnings) = validate_snapshot schema_errors sha True s
           in if errors \<noteq> [] then Inl (Problems errors warnings)
              else let serialized = canonical_document_bytes s
                   in Inr (\<lparr>v_warnings = warnings, v_system = s_system s,
                            v_snapshot_version = s_version s, v_source_mode = s_source_mode s,
                            v_captured_at = s_captured_at s, v_connector = s_connector s,
                            v_object_count = length (s_objects s), v_sha256 = sha serialized,
                            v_canonical_body_sha256 = sha (canonical_body_bytes s)\<rparr>, serialized)))"

text \<open>The command line: the body that was read, as an object with its members or another value.\<close>

datatype body = BodyObject delivered "(string, delivered) dict" | BodyOther string

datatype body_read = Unreadable | NotJson string | Body body

record accept_result =
  exit_code :: int
  written :: "string option"
  printed :: "(reject option, verdict_ok) result option"

definition EXIT_VALID :: int where "EXIT_VALID = 0"
definition EXIT_INVALID :: int where "EXIT_INVALID = 1"
definition EXIT_USAGE :: int where "EXIT_USAGE = 2"

definition whole_body :: "body \<Rightarrow> delivered" where
  "whole_body b = (case b of BodyObject d _ \<Rightarrow> d | BodyOther ty \<Rightarrow> NotObject ty)"

definition body_member :: "string \<Rightarrow> body \<Rightarrow> delivered option" where
  "body_member key b = (case b of BodyObject _ ms \<Rightarrow> dict_get ms key | BodyOther _ \<Rightarrow> None)"

definition accept_main ::
  "(snapshot \<Rightarrow> string list) \<Rightarrow> (string \<Rightarrow> string) \<Rightarrow> body_read \<Rightarrow> string option \<Rightarrow> bool \<Rightarrow> accept_result" where
  "accept_main schema_errors sha file key out =
     (case file of
        Unreadable \<Rightarrow> \<lparr>exit_code = EXIT_USAGE, written = None, printed = None\<rparr>
      | NotJson _ \<Rightarrow> \<lparr>exit_code = EXIT_INVALID, written = None, printed = Some (Inl None)\<rparr>
      | Body b \<Rightarrow>
          (case (case key of None \<Rightarrow> Some (whole_body b) | Some k \<Rightarrow> body_member k b) of
             None \<Rightarrow> \<lparr>exit_code = EXIT_INVALID, written = None, printed = Some (Inl None)\<rparr>
           | Some data \<Rightarrow>
               (case accept schema_errors sha data of
                  Inl r \<Rightarrow> \<lparr>exit_code = EXIT_INVALID, written = None, printed = Some (Inl (Some r))\<rparr>
                | Inr (v, serialized) \<Rightarrow>
                    \<lparr>exit_code = EXIT_VALID, written = (if out then Some serialized else None),
                     printed = Some (Inr v)\<rparr>)))"

section \<open>What the validator accepts\<close>

text \<open>The specification: S-1 (unique identities) and C-4 (stored hashes are the recomputed ones).\<close>

definition hash_ok :: "(string \<Rightarrow> string) \<Rightarrow> obj \<Rightarrow> bool" where
  "hash_ok sha ob \<longleftrightarrow> schema_hash sha ob = Inr (o_schema_hash ob)"

lemma hash_ok_unknown: "hash_ok sha ob \<Longrightarrow> known_kind (o_kind ob)"
  using schema_hash_unknown [of ob sha] by (auto simp: hash_ok_def)

lemma validate_objects_errors:
  "fst (validate_objects sha chk seen obs) = [] \<longleftrightarrow>
     distinct (map identity_of obs) \<and> set (map identity_of obs) \<inter> set seen = {}
     \<and> (chk \<longrightarrow> (\<forall>ob \<in> set obs. known_kind (o_kind ob) \<longrightarrow> hash_ok sha ob))"
proof (induction obs arbitrary: seen)
  case Nil
  then show ?case by simp
next
  case (Cons ob obs)
  show ?case
  proof (cases "known_kind (o_kind ob)")
    case True
    then show ?thesis
      using Cons.IH [of "identity_of ob # seen"]
      by (auto simp: Let_def schema_hash_known hash_ok_def)
  next
    case False
    then show ?thesis
      using Cons.IH [of "identity_of ob # seen"] by (auto simp: Let_def)
  qed
qed

lemma validate_objects_warnings:
  "snd (validate_objects sha chk seen obs) =
     map (\<lambda>ob. UnknownKind (identity_of ob)) (filter (\<lambda>ob. \<not> known_kind (o_kind ob)) obs)"
  by (induction obs arbitrary: seen) (auto simp: Let_def schema_hash_known split: sum.splits)

lemma validate_snapshot_clean_iff:
  "fst (validate_snapshot sch sha chk s) = [] \<longleftrightarrow>
     sch s = [] \<and> distinct (map identity_of (s_objects s))
     \<and> (chk \<longrightarrow> (\<forall>ob \<in> set (s_objects s). known_kind (o_kind ob) \<longrightarrow> hash_ok sha ob))"
  by (auto simp: validate_snapshot_def Let_def validate_objects_errors)

lemma accept_Inr_iff:
  "(\<exists>v. accept sch sha (Document s) = Inr (v, b)) \<longleftrightarrow>
     fst (validate_snapshot sch sha True s) = [] \<and> b = canonical_document_bytes s"
  by (auto simp: accept_def Let_def split: prod.splits)

text \<open>The document as the gate stores it: objects sorted and ordered.\<close>

definition canonical_snapshot :: "snapshot \<Rightarrow> snapshot" where
  "canonical_snapshot s = s\<lparr>s_objects := canonical_objects s\<rparr>"

lemma canonical_objects_idem: "canonical_objects (canonical_snapshot s) = canonical_objects s"
proof -
  have "sort_key identity_of (canonical_objects s) = canonical_objects s"
    by (simp add: canonical_objects_alt)
  then show ?thesis
    by (simp add: canonical_objects_def canonical_snapshot_def)
qed

lemma canonical_document_fields:
  "canonical_document s = canonical_body s @
     [(''captured_at'', JStr (s_captured_at s)),
      (''connector'', JObj [(''name'', JStr (fst (s_connector s))), (''version'', JStr (snd (s_connector s)))]),
      (''source_mode'', JStr (s_source_mode s))]"
  by (simp add: canonical_document_def canonical_body_fields CANONICAL_BODY_EXCLUDED_def
      snapshot_fields_def member_def split: option.splits)

lemma canonical_snapshot_body [simp]: "canonical_body (canonical_snapshot s) = canonical_body s"
  by (simp add: canonical_body_fields canonical_objects_idem) (simp add: canonical_snapshot_def)

lemma canonical_snapshot_document [simp]:
  "canonical_document_bytes (canonical_snapshot s) = canonical_document_bytes s"
  by (simp add: canonical_document_bytes_def canonical_document_fields)
     (simp add: canonical_snapshot_def)

lemma hash_ok_ordered [simp]: "hash_ok sha (ordered_object ob) = hash_ok sha ob"
  by (simp add: hash_ok_def)

lemma canonical_objects_identities:
  "mset (map identity_of (canonical_objects s)) = mset (map identity_of (s_objects s))"
  by (simp add: canonical_objects_def o_def)

lemma set_canonical_objects: "set (canonical_objects s) = ordered_object ` set (s_objects s)"
  by (simp add: canonical_objects_def)

lemma validate_canonical_snapshot:
  assumes "sch s = [] \<Longrightarrow> sch (canonical_snapshot s) = []"
    and "fst (validate_snapshot sch sha True s) = []"
  shows "fst (validate_snapshot sch sha True (canonical_snapshot s)) = []"
proof -
  have "distinct (map identity_of (canonical_objects s))"
    using assms(2) canonical_objects_identities [of s]
    by (metis validate_snapshot_clean_iff mset_eq_imp_distinct_iff)
  with assms show ?thesis
    by (auto simp: validate_snapshot_clean_iff canonical_snapshot_def set_canonical_objects)
qed

section \<open>Properties\<close>

text \<open>A table whose stored hash is the recomputed one, for the identity as digest.\<close>

definition ex_hashed :: "column list \<Rightarrow> obj" where
  "ex_hashed cs = (ex_table cs)\<lparr>o_schema_hash := ''sha256:'' @ hash_text (ex_table cs)\<rparr>"

lemma hash_text_hash [simp]: "hash_text (ob\<lparr>o_schema_hash := h\<rparr>) = hash_text ob"
  by (simp add: hash_text_def structural_projection_def split: option.splits)

lemma ex_hashed_ok: "hash_ok (\<lambda>t. t) (ex_hashed cs)"
proof -
  have "known_kind (o_kind (ex_hashed cs))"
    by (simp add: ex_hashed_def ex_table_def known_kind_def dict_has_def KIND_REGISTRY_def)
  then show ?thesis by (simp add: hash_ok_def schema_hash_known) (simp add: ex_hashed_def)
qed

text \<open>
  C26. The validator (validate.py \<open>validate_snapshot\<close>) is exact: it reports no error if and only if the
  JSON Schema check reports none, no two objects share an identity (S-1) and, with \<open>check_hashes\<close>,
  every object of a registered kind stores the hash that recomputation gives (C-4).\<close>

theorem validate_snapshot_exact:
  "fst (validate_snapshot schema_errors sha check_hashes s) = [] \<longleftrightarrow>
     schema_errors s = [] \<and> distinct (map identity_of (s_objects s))
     \<and> (check_hashes \<longrightarrow> (\<forall>ob \<in> set (s_objects s). known_kind (o_kind ob) \<longrightarrow> hash_ok sha ob))"
  by (rule validate_snapshot_clean_iff)

theorem validate_snapshot_exact_witness:
  "fst (validate_snapshot (\<lambda>_. []) (\<lambda>t. t) True (ex_snapshot ''t'' [ex_hashed []])) = []"
  using validate_snapshot_exact [of "\<lambda>_. []" "\<lambda>t. t" True "ex_snapshot ''t'' [ex_hashed []]"]
  by (simp add: ex_snapshot_def ex_hashed_ok)

text \<open>
  C31. What the delivery gate stores is stable (accept.py, J-6): if a document is accepted, the canonical
  document that was written for it is accepted again and is written with the very same bytes
  and digests. It relies on the schema check accepting a document whose arrays are reordered.\<close>

theorem accept_canonical_stable:
  assumes "accept schema_errors sha (Document s) = Inr (v, b)"
    and "schema_errors s = [] \<Longrightarrow> schema_errors (canonical_snapshot s) = []"
  shows "\<exists>v'. accept schema_errors sha (Document (canonical_snapshot s)) = Inr (v', b)
    \<and> v_sha256 v' = v_sha256 v \<and> v_canonical_body_sha256 v' = v_canonical_body_sha256 v"
proof -
  have "fst (validate_snapshot schema_errors sha True s) = []" and b: "b = canonical_document_bytes s"
    using accept_Inr_iff [of schema_errors sha s b] assms(1) by blast+
  then have "fst (validate_snapshot schema_errors sha True (canonical_snapshot s)) = []"
    using assms(2) by (intro validate_canonical_snapshot) simp_all
  then obtain v' where v': "accept schema_errors sha (Document (canonical_snapshot s)) = Inr (v', b)"
    using accept_Inr_iff [of schema_errors sha "canonical_snapshot s" b] b by auto
  from v' assms(1) show ?thesis
    by (auto simp: accept_def Let_def canonical_body_bytes_def split: prod.splits if_splits)
qed

theorem accept_canonical_stable_witness:
  "\<exists>v'. accept (\<lambda>_. []) (\<lambda>t. t) (Document (canonical_snapshot (ex_snapshot ''t'' [ex_hashed []])))
       = Inr (v', canonical_document_bytes (ex_snapshot ''t'' [ex_hashed []]))"
proof -
  have "fst (validate_snapshot (\<lambda>_. []) (\<lambda>t. t) True (ex_snapshot ''t'' [ex_hashed []])) = []"
    by (simp add: validate_snapshot_clean_iff ex_snapshot_def ex_hashed_ok)
  then obtain v where "accept (\<lambda>_. []) (\<lambda>t. t) (Document (ex_snapshot ''t'' [ex_hashed []]))
      = Inr (v, canonical_document_bytes (ex_snapshot ''t'' [ex_hashed []]))"
    using accept_Inr_iff by blast
  from accept_canonical_stable [OF this] show ?thesis by auto
qed

text \<open>
  The gate's command line writes a file exactly when it exits with status 0 and was given an
  output path, and then what it writes is the canonical document of a snapshot without errors;
  an unreadable body is the only case of status 2.\<close>

theorem accept_main_writes_only_valid:
  "(written (accept_main schema_errors sha file key out) \<noteq> None \<longleftrightarrow>
      out \<and> exit_code (accept_main schema_errors sha file key out) = EXIT_VALID)
   \<and> (case written (accept_main schema_errors sha file key out) of
        None \<Rightarrow> True
      | Some b \<Rightarrow> \<exists>s. b = canonical_document_bytes s \<and> fst (validate_snapshot schema_errors sha True s) = [])
   \<and> (exit_code (accept_main schema_errors sha file key out) = EXIT_USAGE \<longleftrightarrow> file = Unreadable)"
  by (auto simp: accept_main_def EXIT_VALID_def EXIT_INVALID_def EXIT_USAGE_def accept_def Let_def
      split: body_read.splits option.splits sum.splits prod.splits delivered.splits if_splits)

end
