(* ===== verification/Diff.thy ===== *)
theory Diff
  imports Delivery
begin

text \<open>
  The snapshot diff engine, \<open>src/snapshot/diff.py\<close>.

  Two loops of the source run over a Python set (the common column names, the column tuples of
  foreign keys), whose iteration order the language leaves open. It is a parameter, the record
  \<open>hash_order\<close>: a function that lists the members of such a set in some order. A theorem that
  needs it to list exactly the members says so (\<open>order_ok\<close>).
\<close>

section \<open>Severities\<close>

datatype severity = Additive | AdditiveWithNote | Breaking

definition severity_rank :: "severity \<Rightarrow> nat" where
  "severity_rank s = (case s of Additive \<Rightarrow> 1 | AdditiveWithNote \<Rightarrow> 2 | Breaking \<Rightarrow> 3)"

instantiation severity :: linorder
begin
definition less_eq_severity :: "severity \<Rightarrow> severity \<Rightarrow> bool" where
  "less_eq_severity a b \<longleftrightarrow> severity_rank a \<le> severity_rank b"
definition less_severity :: "severity \<Rightarrow> severity \<Rightarrow> bool" where
  "less_severity a b \<longleftrightarrow> severity_rank a < severity_rank b"
instance
  by standard (auto simp: less_eq_severity_def less_severity_def severity_rank_def split: severity.splits)
end

definition severity_str :: "severity \<Rightarrow> string" where
  "severity_str s = (case s of Additive \<Rightarrow> ''additive'' | AdditiveWithNote \<Rightarrow> ''additive-with-note''
                     | Breaking \<Rightarrow> ''breaking'')"

lemma severity_le_Breaking [simp]: "(s :: severity) \<le> Breaking"
  by (cases s) (simp_all add: less_eq_severity_def severity_rank_def)

lemma Breaking_le [simp]: "Breaking \<le> s \<longleftrightarrow> s = Breaking"
  by (cases s) (simp_all add: less_eq_severity_def severity_rank_def)

section \<open>Diff documents\<close>

record sub_diff =
  sd_change :: string
  sd_severity :: severity
  sd_detail :: "(string, json) dict"
  sd_downgradable :: bool

record rename_candidate =
  from_column :: string
  to_column :: string
  rc_type :: string
  rc_ordinal :: int

datatype classification = Added | Removed | ChangedStructural | ChangedMetadataOnly | Unchanged

record object_diff =
  od_identity :: identity
  od_classification :: classification
  od_severity :: "severity option"
  od_old_hash :: "string option"
  od_new_hash :: "string option"
  od_sub_diffs :: "sub_diff list"
  od_rename_candidates :: "rename_candidate list"
  od_metadata_changes :: "string list"

record snapshot_diff =
  d_system :: string
  d_added :: "object_diff list"
  d_removed :: "object_diff list"
  d_changed_structural :: "object_diff list"
  d_changed_metadata_only :: "object_diff list"
  d_unchanged :: "identity list"
  d_skipped :: "identity list"
  d_source_properties_changed :: bool

definition SubDiff :: "string \<Rightarrow> severity \<Rightarrow> (string, json) dict \<Rightarrow> sub_diff" where
  "SubDiff ch sev det = \<lparr>sd_change = ch, sd_severity = sev, sd_detail = det, sd_downgradable = False\<rparr>"

definition ObjectDiff :: "identity \<Rightarrow> classification \<Rightarrow> object_diff" where
  "ObjectDiff i cl = \<lparr>od_identity = i, od_classification = cl, od_severity = None, od_old_hash = None,
     od_new_hash = None, od_sub_diffs = [], od_rename_candidates = [], od_metadata_changes = []\<rparr>"

definition is_empty :: "snapshot_diff \<Rightarrow> bool" where
  "is_empty d \<longleftrightarrow> d_added d = [] \<and> d_removed d = [] \<and> d_changed_structural d = []
     \<and> d_changed_metadata_only d = []"

subsection \<open>to_dict\<close>

definition sub_diff_dict :: "sub_diff \<Rightarrow> json" where
  "sub_diff_dict s = JObj
     ([(''change'', JStr (sd_change s)), (''severity'', JStr (severity_str (sd_severity s))),
       (''detail'', JObj (sd_detail s))]
      @ (if sd_downgradable s then [(''downgradable'', JBool True)] else []))"

definition rename_candidate_dict :: "rename_candidate \<Rightarrow> json" where
  "rename_candidate_dict r = JObj
     [(''from_column'', JStr (from_column r)), (''to_column'', JStr (to_column r)),
      (''type'', JStr (rc_type r)), (''ordinal'', JInt (rc_ordinal r)),
      (''interpretations'', str_list [''column renamed'', ''column removed + column added''])]"

definition classification_str :: "classification \<Rightarrow> string" where
  "classification_str c = (case c of Added \<Rightarrow> ''added'' | Removed \<Rightarrow> ''removed''
     | ChangedStructural \<Rightarrow> ''changed_structural'' | ChangedMetadataOnly \<Rightarrow> ''changed_metadata_only''
     | Unchanged \<Rightarrow> ''unchanged'')"

definition identity_dict :: "identity \<Rightarrow> json" where
  "identity_dict i = (case i of (kind, schema, name) \<Rightarrow>
     JObj [(''kind'', JStr kind), (''schema'', JStr schema), (''name'', JStr name)])"

definition object_diff_dict :: "object_diff \<Rightarrow> json" where
  "object_diff_dict od = JObj
     ([(''identity'', identity_dict (od_identity od)),
       (''classification'', JStr (classification_str (od_classification od)))]
      @ member ''severity'' (\<lambda>s. JStr (severity_str s)) (od_severity od)
      @ member ''old_hash'' JStr (od_old_hash od)
      @ member ''new_hash'' JStr (od_new_hash od)
      @ (if od_sub_diffs od \<noteq> [] then [(''sub_diffs'', JList (map sub_diff_dict (od_sub_diffs od)))] else [])
      @ (if od_rename_candidates od \<noteq> []
         then [(''rename_candidates'', JList (map rename_candidate_dict (od_rename_candidates od)))] else [])
      @ (if od_metadata_changes od \<noteq> [] then [(''metadata_changes'', str_list (od_metadata_changes od))] else []))"

definition snapshot_diff_dict :: "snapshot_diff \<Rightarrow> json" where
  "snapshot_diff_dict d = JObj
     [(''system'', JStr (d_system d)), (''empty'', JBool (is_empty d)),
      (''added'', JList (map object_diff_dict (d_added d))),
      (''removed'', JList (map object_diff_dict (d_removed d))),
      (''changed_structural'', JList (map object_diff_dict (d_changed_structural d))),
      (''changed_metadata_only'', JList (map object_diff_dict (d_changed_metadata_only d))),
      (''unchanged'', JList (map identity_dict (d_unchanged d))),
      (''skipped_unknown_kinds'', JList (map identity_dict (d_skipped d))),
      (''source_properties_changed'', JBool (d_source_properties_changed d))]"

section \<open>Indexing\<close>

datatype diff_error =
    DifferentSystems string string
  | DuplicateObject identity string
  | HashViolation identity string string

definition index_step ::
  "string \<Rightarrow> (identity, obj) dict \<times> identity list \<Rightarrow> obj
     \<Rightarrow> (diff_error, (identity, obj) dict \<times> identity list) result" where
  "index_step system st ob =
     (let (index, skipped) = st; identity = identity_of ob
      in if \<not> known_kind (o_kind ob)
         then Inr (index, if identity \<notin> set skipped then skipped @ [identity] else skipped)
         else if dict_has index identity then Inl (DuplicateObject identity system)
         else Inr (dict_set identity ob index, skipped))"

definition index_objects ::
  "snapshot \<Rightarrow> identity list \<Rightarrow> (diff_error, (identity, obj) dict \<times> identity list) result" where
  "index_objects s skipped = res_fold (index_step (s_system s)) ([], skipped) (s_objects s)"

section \<open>Sub-diffs of one object\<close>

record hash_order =
  ho_names :: "string list \<Rightarrow> string list"
  ho_tuples :: "string list list \<Rightarrow> string list list"

definition max_severity :: "sub_diff list \<Rightarrow> severity" where
  "max_severity subs = fold max (map sd_severity subs) Additive"

definition column_dict :: "obj \<Rightarrow> (string, column) dict" where
  "column_dict ob = dict_of (map (\<lambda>c. (c_name c, c)) (o_columns ob))"

definition added_columns :: "obj \<Rightarrow> obj \<Rightarrow> column list" where
  "added_columns old new =
     map snd (filter (\<lambda>(n, c). \<not> dict_has (column_dict old) n) (column_dict new))"

definition removed_columns :: "obj \<Rightarrow> obj \<Rightarrow> column list" where
  "removed_columns old new =
     map snd (filter (\<lambda>(n, c). \<not> dict_has (column_dict new) n) (column_dict old))"

definition common_keys :: "('k, 'a) dict \<Rightarrow> ('k, 'b) dict \<Rightarrow> 'k list" where
  "common_keys d e = filter (\<lambda>k. dict_has e k) (dict_keys d)"

definition column_change :: "string \<Rightarrow> column \<Rightarrow> column \<Rightarrow> sub_diff list" where
  "column_change name o' n =
     (if c_type o' \<noteq> c_type n then [SubDiff ''column_type_changed'' Breaking
        [(''column'', JStr name), (''from'', JStr (c_type o')), (''to'', JStr (c_type n))]] else [])
     @ (if c_nullable o' \<noteq> c_nullable n then
          (if c_nullable o' \<and> \<not> c_nullable n then [SubDiff ''column_nullable_tightened'' Breaking
             [(''column'', JStr name), (''from'', JBool True), (''to'', JBool False)]]
           else [SubDiff ''column_nullable_loosened'' AdditiveWithNote
             [(''column'', JStr name), (''from'', JBool False), (''to'', JBool True)]]) else [])
     @ (if c_default o' \<noteq> c_default n then [SubDiff ''column_default_changed'' AdditiveWithNote
          [(''column'', JStr name), (''from'', opt_str (c_default o')), (''to'', opt_str (c_default n))]] else [])
     @ (if c_ordinal o' \<noteq> c_ordinal n then [SubDiff ''column_ordinal_changed'' Breaking
          [(''column'', JStr name), (''from'', JInt (c_ordinal o')), (''to'', JInt (c_ordinal n))]] else [])"

definition rename_candidates :: "column list \<Rightarrow> column list \<Rightarrow> rename_candidate list" where
  "rename_candidates removed added =
     concat (map (\<lambda>r. map (\<lambda>a. \<lparr>from_column = c_name r, to_column = c_name a,
                                rc_type = c_type r, rc_ordinal = c_ordinal r\<rparr>)
                      (filter (\<lambda>a. c_type r = c_type a \<and> c_ordinal r = c_ordinal a) added)) removed)"

definition column_sub_diffs ::
  "hash_order \<Rightarrow> obj \<Rightarrow> obj \<Rightarrow> sub_diff list \<times> rename_candidate list" where
  "column_sub_diffs ho old new =
     (let old_cols = column_dict old; new_cols = column_dict new;
          added = added_columns old new; removed = removed_columns old new
      in (map (\<lambda>c. SubDiff ''column_added'' Additive
               [(''column'', JStr (c_name c)), (''type'', JStr (c_type c)),
                (''nullable'', JBool (c_nullable c)), (''ordinal'', JInt (c_ordinal c))]) added
          @ map (\<lambda>c. SubDiff ''column_removed'' Breaking
               [(''column'', JStr (c_name c)), (''type'', JStr (c_type c)),
                (''ordinal'', JInt (c_ordinal c))]) removed
          @ concat (map (\<lambda>name. column_change name (the (dict_get old_cols name)) (the (dict_get new_cols name)))
                     (ho_names ho (common_keys old_cols new_cols))),
          rename_candidates removed added))"

definition or_empty :: "'a list option \<Rightarrow> 'a list" where
  "or_empty x = (case x of None \<Rightarrow> [] | Some xs \<Rightarrow> xs)"

definition fk_dict :: "obj \<Rightarrow> (string list, fkey) dict" where
  "fk_dict ob = dict_of (map (\<lambda>fk. (fk_columns fk, fk)) (or_empty (k_foreign (o_keys ob))))"

definition fk_detail :: "fkey \<Rightarrow> (string, json) dict" where
  "fk_detail fk = [(''key'', JStr ''foreign''), (''columns'', str_list (fk_columns fk)),
     (''ref'', JStr (fk_ref fk)), (''ref_columns'', str_list (fk_ref_columns fk))]"

definition missing_keys :: "('k, 'a) dict \<Rightarrow> ('k, 'b) dict \<Rightarrow> 'k list" where
  "missing_keys d e = filter (\<lambda>k. \<not> dict_has e k) (dict_keys d)"

definition primary_sub_diffs :: "obj \<Rightarrow> obj \<Rightarrow> sub_diff list" where
  "primary_sub_diffs old new =
     (let old_pk = or_empty (k_primary (o_keys old)); new_pk = or_empty (k_primary (o_keys new))
      in if old_pk \<noteq> new_pk then
           (if old_pk = [] then [SubDiff ''key_added'' Additive [(''key'', JStr ''primary''), (''columns'', str_list new_pk)]]
            else if new_pk = [] then [SubDiff ''key_removed'' Breaking [(''key'', JStr ''primary''), (''columns'', str_list old_pk)]]
            else [SubDiff ''key_altered'' Breaking
              [(''key'', JStr ''primary''), (''from'', str_list old_pk), (''to'', str_list new_pk)]])
         else [])"

definition foreign_sub_diffs :: "hash_order \<Rightarrow> obj \<Rightarrow> obj \<Rightarrow> sub_diff list" where
  "foreign_sub_diffs ho old new =
     (let old_fks = fk_dict old; new_fks = fk_dict new
      in map (\<lambda>cols. SubDiff ''key_added'' Additive (fk_detail (the (dict_get new_fks cols))))
           (ho_tuples ho (missing_keys new_fks old_fks))
         @ map (\<lambda>cols. SubDiff ''key_removed'' Breaking (fk_detail (the (dict_get old_fks cols))))
           (ho_tuples ho (missing_keys old_fks new_fks))
         @ concat (map (\<lambda>cols.
             let a = the (dict_get old_fks cols); b = the (dict_get new_fks cols)
             in if a \<noteq> b then [SubDiff ''key_altered'' Breaking
                  [(''key'', JStr ''foreign''), (''columns'', str_list cols),
                   (''from'', fk_json a), (''to'', fk_json b)]] else [])
           (ho_tuples ho (common_keys old_fks new_fks))))"

definition unique_set :: "obj \<Rightarrow> string list list" where
  "unique_set ob = remdups (or_empty (k_unique (o_keys ob)))"

definition unique_sub_diffs :: "obj \<Rightarrow> obj \<Rightarrow> sub_diff list" where
  "unique_sub_diffs old new =
     map (\<lambda>cols. SubDiff ''key_added'' Additive [(''key'', JStr ''unique''), (''columns'', str_list cols)])
       (sort (filter (\<lambda>u. u \<notin> set (unique_set old)) (unique_set new)))
     @ map (\<lambda>cols. SubDiff ''key_removed'' Breaking [(''key'', JStr ''unique''), (''columns'', str_list cols)])
       (sort (filter (\<lambda>u. u \<notin> set (unique_set new)) (unique_set old)))"

definition key_sub_diffs :: "hash_order \<Rightarrow> obj \<Rightarrow> obj \<Rightarrow> sub_diff list" where
  "key_sub_diffs ho old new =
     primary_sub_diffs old new @ foreign_sub_diffs ho old new @ unique_sub_diffs old new"

text \<open>\<open>o is n or o == n\<close> with \<open>_ABSENT\<close> as the default of both lookups\<close>

definition same_stat :: "json option \<Rightarrow> json option \<Rightarrow> bool" where
  "same_stat x y = (case (x, y) of (None, None) \<Rightarrow> True | (Some v, Some w) \<Rightarrow> py_eq v w | _ \<Rightarrow> False)"

definition or_null :: "json option \<Rightarrow> json" where
  "or_null x = (case x of None \<Rightarrow> JNull | Some v \<Rightarrow> v)"

definition stat_change :: "obj \<Rightarrow> obj \<Rightarrow> string \<Rightarrow> sub_diff list" where
  "stat_change old new stat =
     (let o' = dict_get (o_stats old) stat; n = dict_get (o_stats new) stat;
          detail = [(''stat'', JStr stat), (''from'', or_null o'), (''to'', or_null n),
                    (''was_absent'', JBool (o' = None)), (''now_absent'', JBool (n = None))]
      in if same_stat o' n then []
         else if stat = ''definition''
         then [(SubDiff ''definition_changed'' Breaking detail)\<lparr>sd_downgradable := True\<rparr>]
         else [SubDiff ''stat_changed'' Breaking detail])"

definition stats_sub_diffs :: "obj \<Rightarrow> obj \<Rightarrow> sub_diff list" where
  "stats_sub_diffs old new = concat (map (stat_change old new) (sort (included_stats (o_kind old))))"

definition metadata_changes :: "obj \<Rightarrow> obj \<Rightarrow> string list" where
  "metadata_changes old new =
     (let old_cols = column_dict old; new_cols = column_dict new
      in (if o_description old \<noteq> o_description new then [''description''] else [])
         @ concat (map (\<lambda>name.
             if c_description (the (dict_get old_cols name)) \<noteq> c_description (the (dict_get new_cols name))
             then [''columns.'' @ name @ ''.description''] else [])
           (sort (common_keys old_cols new_cols)))
         @ concat (map (\<lambda>stat.
             if \<not> same_stat (dict_get (o_stats old) stat) (dict_get (o_stats new) stat)
             then [''stats.'' @ stat] else [])
           (sort (excluded_stats (o_kind old)))))"

definition all_sub_diffs :: "hash_order \<Rightarrow> obj \<Rightarrow> obj \<Rightarrow> sub_diff list" where
  "all_sub_diffs ho old new =
     fst (column_sub_diffs ho old new) @ key_sub_diffs ho old new @ stats_sub_diffs old new"

definition diff_object :: "hash_order \<Rightarrow> obj \<Rightarrow> obj \<Rightarrow> object_diff" where
  "diff_object ho old new =
     (if o_schema_hash old \<noteq> o_schema_hash new then
        let subs = all_sub_diffs ho old new
        in (ObjectDiff (identity_of old) ChangedStructural)
             \<lparr>od_severity := Some (if subs \<noteq> [] then max_severity subs else Breaking),
              od_old_hash := Some (o_schema_hash old), od_new_hash := Some (o_schema_hash new),
              od_sub_diffs := subs, od_rename_candidates := snd (column_sub_diffs ho old new)\<rparr>
      else if canonical_object_bytes old \<noteq> canonical_object_bytes new then
        (ObjectDiff (identity_of old) ChangedMetadataOnly)
          \<lparr>od_old_hash := Some (o_schema_hash old), od_new_hash := Some (o_schema_hash new),
           od_metadata_changes := metadata_changes old new\<rparr>
      else ObjectDiff (identity_of old) Unchanged)"

section \<open>Diffing two snapshots\<close>

definition verify_object :: "(string \<Rightarrow> string) \<Rightarrow> unit \<Rightarrow> obj \<Rightarrow> (diff_error, unit) result" where
  "verify_object sha u ob =
     (if \<not> known_kind (o_kind ob) then Inr ()
      else case schema_hash sha ob of
             Inr h \<Rightarrow> if h \<noteq> o_schema_hash ob
                      then Inl (HashViolation (identity_of ob) (o_schema_hash ob) h) else Inr ()
           | Inl _ \<Rightarrow> Inr ())"

definition verify_stored_hashes ::
  "(string \<Rightarrow> string) \<Rightarrow> snapshot \<Rightarrow> snapshot \<Rightarrow> (diff_error, unit) result" where
  "verify_stored_hashes sha old new = res_fold (verify_object sha) () (s_objects old @ s_objects new)"

definition props :: "snapshot \<Rightarrow> json" where
  "props s = JObj (or_empty (s_source_properties s))"

definition diff_common ::
  "hash_order \<Rightarrow> (identity, obj) dict \<Rightarrow> (identity, obj) dict \<Rightarrow> object_diff list" where
  "diff_common ho old_index new_index =
     map (\<lambda>i. diff_object ho (the (dict_get old_index i)) (the (dict_get new_index i)))
       (sort (common_keys old_index new_index))"

definition diff_indexed ::
  "hash_order \<Rightarrow> snapshot \<Rightarrow> snapshot \<Rightarrow> (identity, obj) dict \<Rightarrow> (identity, obj) dict
     \<Rightarrow> identity list \<Rightarrow> snapshot_diff" where
  "diff_indexed ho old new old_index new_index skipped =
     (let diffs = diff_common ho old_index new_index
      in \<lparr>d_system = s_system old,
          d_added = map (\<lambda>i. (ObjectDiff i Added)\<lparr>od_severity := Some Additive,
                        od_new_hash := Some (o_schema_hash (the (dict_get new_index i)))\<rparr>)
                      (sort (missing_keys new_index old_index)),
          d_removed = map (\<lambda>i. (ObjectDiff i Removed)\<lparr>od_severity := Some Breaking,
                        od_old_hash := Some (o_schema_hash (the (dict_get old_index i)))\<rparr>)
                      (sort (missing_keys old_index new_index)),
          d_changed_structural = filter (\<lambda>d. od_classification d = ChangedStructural) diffs,
          d_changed_metadata_only = filter (\<lambda>d. od_classification d = ChangedMetadataOnly) diffs,
          d_unchanged = map od_identity (filter (\<lambda>d. od_classification d = Unchanged) diffs),
          d_skipped = skipped,
          d_source_properties_changed = (\<not> py_eq (props old) (props new))\<rparr>)"

definition diff_snapshots ::
  "hash_order \<Rightarrow> (string \<Rightarrow> string) \<Rightarrow> bool \<Rightarrow> snapshot \<Rightarrow> snapshot \<Rightarrow> (diff_error, snapshot_diff) result" where
  "diff_snapshots ho sha verify_hashes old new =
     (if s_system old \<noteq> s_system new then Inl (DifferentSystems (s_system old) (s_system new))
      else res_bind (if verify_hashes then verify_stored_hashes sha old new else Inr ())
        (\<lambda>_. res_bind (index_objects old [])
          (\<lambda>(old_index, skipped1). res_bind (index_objects new skipped1)
            (\<lambda>(new_index, skipped). Inr (diff_indexed ho old new old_index new_index skipped)))))"

section \<open>The index\<close>

definition known_objs :: "snapshot \<Rightarrow> obj list" where
  "known_objs s = filter (\<lambda>ob. known_kind (o_kind ob)) (s_objects s)"

definition known_ids :: "snapshot \<Rightarrow> identity set" where
  "known_ids s = identity_of ` set (known_objs s)"

definition unknown_ids :: "snapshot \<Rightarrow> identity set" where
  "unknown_ids s = identity_of ` {ob \<in> set (s_objects s). \<not> known_kind (o_kind ob)}"

definition with_id :: "obj \<Rightarrow> identity \<times> obj" where
  "with_id ob = (identity_of ob, ob)"

lemma fst_with_id [simp]: "map fst (map with_id obs) = map identity_of obs"
  by (simp add: with_id_def o_def)

lemma update_fresh: "k \<notin> fst ` set d \<Longrightarrow> AList.update k v d = d @ [(k, v)]"
  by (induction d) auto

lemma dict_has_iff: "dict_has d k \<longleftrightarrow> k \<in> fst ` set d"
  by (simp add: dict_has_def map_of_eq_None_iff)

lemma index_fold_ok:
  assumes "distinct (map identity_of (filter (\<lambda>ob. known_kind (o_kind ob)) obs))"
    and "identity_of ` set (filter (\<lambda>ob. known_kind (o_kind ob)) obs) \<inter> fst ` set index = {}"
  shows "\<exists>sk'. res_fold (index_step sys) (index, sk) obs
      = Inr (index @ map with_id (filter (\<lambda>ob. known_kind (o_kind ob)) obs), sk')
    \<and> set sk' = set sk \<union> identity_of ` {ob \<in> set obs. \<not> known_kind (o_kind ob)}"
  using assms
proof (induction obs arbitrary: index sk)
  case Nil
  then show ?case by simp
next
  case (Cons ob obs)
  show ?case
  proof (cases "known_kind (o_kind ob)")
    case True
    with Cons.prems have "identity_of ob \<notin> fst ` set index" by auto
    with True have step: "index_step sys (index, sk) ob = Inr (index @ [with_id ob], sk)"
      by (simp add: index_step_def dict_has_iff update_fresh with_id_def)
    with True Cons.prems Cons.IH [of "index @ [with_id ob]" sk] show ?thesis
      by (auto simp: with_id_def)
  next
    case False
    then have "index_step sys (index, sk) ob
        = Inr (index, if identity_of ob \<notin> set sk then sk @ [identity_of ob] else sk)"
      by (simp add: index_step_def)
    with False Cons.prems show ?thesis
      using Cons.IH [of index "if identity_of ob \<notin> set sk then sk @ [identity_of ob] else sk"]
      by auto
  qed
qed

lemma index_fold_Inr:
  assumes "res_fold (index_step sys) (index, sk) obs = Inr (index', sk')"
  shows "distinct (map identity_of (filter (\<lambda>ob. known_kind (o_kind ob)) obs))
    \<and> identity_of ` set (filter (\<lambda>ob. known_kind (o_kind ob)) obs) \<inter> fst ` set index = {}"
  using assms
proof (induction obs arbitrary: index sk)
  case Nil
  then show ?case by simp
next
  case (Cons ob obs)
  show ?case
  proof (cases "known_kind (o_kind ob)")
    case True
    with Cons.prems have fresh: "identity_of ob \<notin> fst ` set index"
      by (auto simp: index_step_def Let_def dict_has_iff split: if_splits)
    with True have "index_step sys (index, sk) ob = Inr (index @ [with_id ob], sk)"
      by (simp add: index_step_def dict_has_iff update_fresh with_id_def)
    with Cons.prems Cons.IH [of "index @ [with_id ob]" sk] True fresh show ?thesis
      by (auto simp: with_id_def)
  next
    case False
    then show ?thesis
      using Cons.prems Cons.IH by (auto simp: index_step_def Let_def split: if_splits)
  qed
qed

lemma index_objects_Inr:
  assumes "index_objects s sk = Inr (index, sk')"
  shows "distinct (map identity_of (known_objs s)) \<and> index = map with_id (known_objs s)
    \<and> set sk' = set sk \<union> unknown_ids s"
proof -
  from assms have d: "distinct (map identity_of (known_objs s))"
    by (auto simp: index_objects_def known_objs_def dest: index_fold_Inr)
  then obtain sk'' where "index_objects s sk = Inr (map with_id (known_objs s), sk'')"
    and "set sk'' = set sk \<union> unknown_ids s"
    using index_fold_ok [of "s_objects s" "[]" "s_system s" sk]
    by (auto simp: index_objects_def known_objs_def unknown_ids_def)
  with d assms show ?thesis by simp
qed

lemma index_objects_ok:
  assumes "distinct (map identity_of (known_objs s))"
  shows "\<exists>sk'. index_objects s sk = Inr (map with_id (known_objs s), sk')"
  using assms index_fold_ok [of "s_objects s" "[]" "s_system s" sk]
  by (auto simp: index_objects_def known_objs_def)

lemma verify_stored_hashes_iff:
  "verify_stored_hashes sha old new = Inr () \<longleftrightarrow>
     (\<forall>ob \<in> set (s_objects old) \<union> set (s_objects new). known_kind (o_kind ob) \<longrightarrow> hash_ok sha ob)"
proof -
  have "res_fold (verify_object sha) () obs = Inr () \<longleftrightarrow>
      (\<forall>ob \<in> set obs. known_kind (o_kind ob) \<longrightarrow> hash_ok sha ob)" for obs
    by (induction obs)
       (auto simp: verify_object_def hash_ok_def schema_hash_known res_bind_Inr_iff split: if_splits)
  then show ?thesis by (auto simp: verify_stored_hashes_def)
qed

lemma diff_snapshots_Inr:
  assumes "diff_snapshots ho sha v old new = Inr d"
  obtains sk where "s_system old = s_system new"
    and "distinct (map identity_of (known_objs old))" and "distinct (map identity_of (known_objs new))"
    and "d = diff_indexed ho old new (map with_id (known_objs old)) (map with_id (known_objs new)) sk"
    and "set sk = unknown_ids old \<union> unknown_ids new"
proof -
  from assms obtain i1 s1 i2 s2 where "s_system old = s_system new"
    and 1: "index_objects old [] = Inr (i1, s1)" and 2: "index_objects new s1 = Inr (i2, s2)"
    and "d = diff_indexed ho old new i1 i2 s2"
    by (auto simp: diff_snapshots_def res_bind_Inr_iff split: if_splits)
  with index_objects_Inr [OF 1] index_objects_Inr [OF 2] show ?thesis
    by (intro that [of s2]) auto
qed

section \<open>Buckets\<close>

lemma od_identity_ObjectDiff [simp]: "od_identity (ObjectDiff i c) = i"
  "od_classification (ObjectDiff i c) = c"
  by (simp_all add: ObjectDiff_def)

lemma diff_object_identity [simp]: "od_identity (diff_object ho a b) = identity_of a"
  by (simp add: diff_object_def Let_def)

lemma diff_object_classification:
  "od_classification (diff_object ho a b) =
     (if o_schema_hash a \<noteq> o_schema_hash b then ChangedStructural
      else if canonical_object_bytes a \<noteq> canonical_object_bytes b then ChangedMetadataOnly
      else Unchanged)"
  by (simp add: diff_object_def Let_def)

lemma set_keys_with_id: "fst ` set (map with_id xs) = identity_of ` set xs"
  by (simp add: image_image with_id_def)

lemma missing_keys_with_id:
  "set (missing_keys (map with_id xs) (map with_id ys)) = identity_of ` set xs - identity_of ` set ys"
  unfolding missing_keys_def dict_keys_def set_filter dict_has_iff set_keys_with_id fst_with_id
  by auto

lemma common_keys_with_id:
  "set (common_keys (map with_id xs) (map with_id ys)) = identity_of ` set xs \<inter> identity_of ` set ys"
  unfolding common_keys_def dict_keys_def set_filter dict_has_iff set_keys_with_id fst_with_id
  by auto

lemma distinct_keys_with_id:
  assumes "distinct (map identity_of xs)"
  shows "distinct (missing_keys (map with_id xs) d)" and "distinct (common_keys (map with_id xs) e)"
  using assms by (simp_all add: missing_keys_def common_keys_def dict_keys_def del: map_map)

lemma map_of_with_id:
  assumes "distinct (map identity_of xs)" and "ob \<in> set xs"
  shows "map_of (map with_id xs) (identity_of ob) = Some ob"
  using assms by (intro map_of_is_SomeI) (auto simp: with_id_def o_def)

lemma map_of_with_id_Some:
  "map_of (map with_id xs) i = Some ob \<Longrightarrow> ob \<in> set xs \<and> identity_of ob = i"
  by (auto dest!: map_of_SomeD simp: with_id_def)

text \<open>The diffs of the identities present on both sides, in sorted order.\<close>

lemma diff_common_identities:
  assumes "distinct (map identity_of xs)" and "distinct (map identity_of ys)"
  shows "map od_identity (diff_common ho (map with_id xs) (map with_id ys))
    = sort (common_keys (map with_id xs) (map with_id ys))"
proof -
  have "od_identity (diff_object ho (the (map_of (map with_id xs) i)) b) = i"
    if "i \<in> set (common_keys (map with_id xs) (map with_id ys))" for i b
  proof -
    from that obtain ob where "ob \<in> set xs" and "i = identity_of ob"
      by (auto simp: common_keys_with_id)
    with map_of_with_id [OF assms(1)] show ?thesis by simp
  qed
  then show ?thesis
    unfolding diff_common_def map_map o_def by (intro map_idI) simp
qed

lemma distinct_map_filter_disjoint:
  assumes "distinct (map f xs)" and "\<And>x. x \<in> set xs \<Longrightarrow> P x \<Longrightarrow> Q x \<Longrightarrow> False"
  shows "f ` {x \<in> set xs. P x} \<inter> f ` {x \<in> set xs. Q x} = {}"
  using assms by (auto simp: distinct_map inj_on_def)

lemma filter_map_sorted:
  assumes "sorted (map f xs)"
  shows "sorted (map f (filter P xs))"
  using assms by (rule sorted_filter)

lemma canonical_bytes_fields:
  assumes "canonical_object_bytes a = canonical_object_bytes b"
  shows "identity_of a = identity_of b \<and> o_schema_hash a = o_schema_hash b"
proof -
  have "sort_json (obj_json (ordered_object a)) = sort_json (obj_json (ordered_object b))"
    using assms by (simp add: canonical_object_bytes_def canonical_json_inj)
  then show ?thesis by (simp add: obj_json_def identity_of_def del: sort_json.simps(2))
     (simp add: obj_json_def identity_of_def)
qed

section \<open>Sub-diffs\<close>

definition order_ok :: "hash_order \<Rightarrow> bool" where
  "order_ok ho \<longleftrightarrow> (\<forall>xs. mset (ho_names ho xs) = mset xs) \<and> (\<forall>xs. mset (ho_tuples ho xs) = mset xs)"

lemma order_ok_set:
  assumes "order_ok ho"
  shows "set (ho_names ho xs) = set xs" and "set (ho_tuples ho ys) = set ys"
  using assms by (metis order_ok_def set_mset_mset)+

lemma max_severity_Breaking: "max_severity subs = Breaking \<longleftrightarrow> (\<exists>s \<in> set subs. sd_severity s = Breaking)"
proof -
  have "fold max (map sd_severity subs) x = Breaking \<longleftrightarrow> x = Breaking \<or> (\<exists>s \<in> set subs. sd_severity s = Breaking)" for x
    by (induction subs arbitrary: x) (auto simp: max_def)
  then show ?thesis by (auto simp: max_severity_def)
qed

lemma max_severity_ge: "s \<in> set subs \<Longrightarrow> sd_severity s \<le> max_severity subs"
proof -
  have "x \<le> fold max (map sd_severity subs) x \<and> (s \<in> set subs \<longrightarrow> sd_severity s \<le> fold max (map sd_severity subs) x)" for x
  proof (induction subs arbitrary: x)
    case Nil
    then show ?case by simp
  next
    case (Cons t subs)
    from Cons.IH [of "max (sd_severity t) x"] show ?case by auto
  qed
  then show "s \<in> set subs \<Longrightarrow> ?thesis" by (simp add: max_severity_def)
qed

lemma SubDiff_severity [simp]: "sd_severity (SubDiff c s d) = s"
  by (simp add: SubDiff_def)

lemma dict_wf_column_dict [simp]: "dict_wf (column_dict ob)"
  by (simp add: column_dict_def)

lemma dict_wf_fk_dict [simp]: "dict_wf (fk_dict ob)"
  by (simp add: fk_dict_def)

text \<open>Which keys two dicts share or miss, in terms of lookups.\<close>

lemma in_missing_keys: "k \<in> set (missing_keys d e) \<longleftrightarrow> dict_get d k \<noteq> None \<and> dict_get e k = None"
  by (auto simp: missing_keys_def alist.in_keys dict_has_def)

lemma in_common_keys: "k \<in> set (common_keys d e) \<longleftrightarrow> dict_get d k \<noteq> None \<and> dict_get e k \<noteq> None"
  by (auto simp: common_keys_def alist.in_keys dict_has_def)

lemma no_values_missing:
  assumes "dict_wf d"
  shows "map snd (filter (\<lambda>(n, c). \<not> dict_has e n) d) = [] \<longleftrightarrow> (\<forall>n. dict_get d n \<noteq> None \<longrightarrow> dict_get e n \<noteq> None)"
  using assms by (force simp: filter_empty_conv dict_has_def dict_wf_def)

text \<open>The columns without descriptions, the keys and the included stats agree.\<close>

definition same_shape :: "obj \<Rightarrow> obj \<Rightarrow> bool" where
  "same_shape old new \<longleftrightarrow>
     (\<forall>n. map_option (\<lambda>c. (c_type c, c_nullable c, c_default c, c_ordinal c)) (dict_get (column_dict old) n)
        = map_option (\<lambda>c. (c_type c, c_nullable c, c_default c, c_ordinal c)) (dict_get (column_dict new) n))
     \<and> or_empty (k_primary (o_keys old)) = or_empty (k_primary (o_keys new))
     \<and> (\<forall>cols. dict_get (fk_dict old) cols = dict_get (fk_dict new) cols)
     \<and> set (unique_set old) = set (unique_set new)
     \<and> (\<forall>k \<in> set (included_stats (o_kind old)). same_stat (dict_get (o_stats old) k) (dict_get (o_stats new) k))"

lemma column_change_Nil:
  "column_change n a b = [] \<longleftrightarrow>
     (c_type a, c_nullable a, c_default a, c_ordinal a) = (c_type b, c_nullable b, c_default b, c_ordinal b)"
  by (auto simp: column_change_def)

lemma same_maps_iff:
  "(\<forall>k. map_option f (m k) = map_option f (m' k)) \<longleftrightarrow>
     (\<forall>k. (m k \<noteq> None) = (m' k \<noteq> None)) \<and>
     (\<forall>k. m k \<noteq> None \<longrightarrow> m' k \<noteq> None \<longrightarrow> f (the (m k)) = f (the (m' k)))"
proof -
  have "map_option f x = map_option f y \<longleftrightarrow>
      ((x \<noteq> None) = (y \<noteq> None)) \<and> (x \<noteq> None \<longrightarrow> y \<noteq> None \<longrightarrow> f (the x) = f (the y))" for x y
    by (cases x; cases y) auto
  then show ?thesis by (simp add: all_conj_distrib)
qed

lemma column_sub_diffs_Nil:
  assumes "order_ok ho"
  shows "fst (column_sub_diffs ho old new) = [] \<longleftrightarrow>
    (\<forall>n. map_option (\<lambda>c. (c_type c, c_nullable c, c_default c, c_ordinal c)) (dict_get (column_dict old) n)
       = map_option (\<lambda>c. (c_type c, c_nullable c, c_default c, c_ordinal c)) (dict_get (column_dict new) n))"
  unfolding same_maps_iff
  by (auto simp: column_sub_diffs_def Let_def added_columns_def removed_columns_def
      no_values_missing [unfolded map_is_Nil_conv] order_ok_set [OF assms] in_common_keys column_change_Nil)

lemma concat_map_Nil: "concat (map f xs) = [] \<longleftrightarrow> (\<forall>x \<in> set xs. f x = [])"
  by auto

lemma foreign_sub_diffs_Nil:
  assumes "order_ok ho"
  shows "foreign_sub_diffs ho old new = [] \<longleftrightarrow>
    (\<forall>cols. dict_get (fk_dict old) cols = dict_get (fk_dict new) cols)"
proof -
  have none: "ho_tuples ho xs = [] \<longleftrightarrow> xs = []" for xs
    using order_ok_set(2) [OF assms, of xs] by (metis set_empty)
  have empty: "missing_keys d e = [] \<longleftrightarrow> (\<forall>k. dict_get d k \<noteq> None \<longrightarrow> dict_get e k \<noteq> None)"
    for d e :: "(string list, fkey) dict"
    by (auto simp: missing_keys_def filter_empty_conv alist.in_keys dict_has_def)
  have "foreign_sub_diffs ho old new = [] \<longleftrightarrow>
      missing_keys (fk_dict new) (fk_dict old) = [] \<and> missing_keys (fk_dict old) (fk_dict new) = [] \<and>
      (\<forall>k \<in> set (common_keys (fk_dict old) (fk_dict new)).
         the (dict_get (fk_dict old) k) = the (dict_get (fk_dict new) k))"
    unfolding foreign_sub_diffs_def Let_def append_is_Nil_conv map_is_Nil_conv none concat_map_Nil
      order_ok_set [OF assms]
    by simp
  also have "\<dots> \<longleftrightarrow> (\<forall>k. map_option id (dict_get (fk_dict old) k) = map_option id (dict_get (fk_dict new) k))"
    unfolding same_maps_iff empty Ball_def in_common_keys id_apply by blast
  finally show ?thesis by (simp add: option.map_id)
qed

lemma primary_sub_diffs_Nil:
  "primary_sub_diffs old new = [] \<longleftrightarrow> or_empty (k_primary (o_keys old)) = or_empty (k_primary (o_keys new))"
  by (simp add: primary_sub_diffs_def Let_def)

lemma sort_Nil [simp]: "sort xs = [] \<longleftrightarrow> xs = []"
  by (metis length_0_conv length_sort)

lemma unique_sub_diffs_Nil: "unique_sub_diffs old new = [] \<longleftrightarrow> set (unique_set old) = set (unique_set new)"
  by (auto simp: unique_sub_diffs_def filter_empty_conv)

lemma stats_sub_diffs_Nil:
  "stats_sub_diffs old new = [] \<longleftrightarrow>
     (\<forall>k \<in> set (included_stats (o_kind old)). same_stat (dict_get (o_stats old) k) (dict_get (o_stats new) k))"
  unfolding stats_sub_diffs_def concat_map_Nil set_sort
  by (rule ball_cong) (simp_all add: stat_change_def Let_def)

lemma all_sub_diffs_Nil:
  assumes "order_ok ho"
  shows "all_sub_diffs ho old new = [] \<longleftrightarrow> same_shape old new"
  by (simp add: all_sub_diffs_def key_sub_diffs_def same_shape_def column_sub_diffs_Nil [OF assms]
      foreign_sub_diffs_Nil [OF assms] primary_sub_diffs_Nil unique_sub_diffs_Nil stats_sub_diffs_Nil)

section \<open>What is breaking\<close>

text \<open>The severity table of the specification (section 7, with D-2): a column is gone, has another type or
  ordinal, or no longer takes null; a key is gone or altered; an included stat differs.\<close>

definition breaking_change :: "obj \<Rightarrow> obj \<Rightarrow> bool" where
  "breaking_change old new \<longleftrightarrow>
     (\<exists>n c. dict_get (column_dict old) n = Some c \<and>
        (case dict_get (column_dict new) n of
           None \<Rightarrow> True
         | Some c' \<Rightarrow> c_type c \<noteq> c_type c' \<or> c_nullable c \<and> \<not> c_nullable c' \<or> c_ordinal c \<noteq> c_ordinal c'))
     \<or> (or_empty (k_primary (o_keys old)) \<noteq> []
        \<and> or_empty (k_primary (o_keys old)) \<noteq> or_empty (k_primary (o_keys new)))
     \<or> (\<exists>cols fk. dict_get (fk_dict old) cols = Some fk \<and> dict_get (fk_dict new) cols \<noteq> Some fk)
     \<or> \<not> set (unique_set old) \<subseteq> set (unique_set new)
     \<or> (\<exists>k \<in> set (included_stats (o_kind old)). \<not> same_stat (dict_get (o_stats old) k) (dict_get (o_stats new) k))"

definition has_breaking :: "sub_diff list \<Rightarrow> bool" where
  "has_breaking subs \<longleftrightarrow> (\<exists>s \<in> set subs. sd_severity s = Breaking)"

lemma has_breaking_append [simp]: "has_breaking (xs @ ys) \<longleftrightarrow> has_breaking xs \<or> has_breaking ys"
  by (auto simp: has_breaking_def)

lemma has_breaking_map_SubDiff [simp]:
  "has_breaking (map (\<lambda>x. SubDiff (c x) s (f x)) xs) \<longleftrightarrow> s = Breaking \<and> xs \<noteq> []"
  by (cases xs) (auto simp: has_breaking_def)

lemma has_breaking_concat: "has_breaking (concat (map f xs)) \<longleftrightarrow> (\<exists>x \<in> set xs. has_breaking (f x))"
  by (auto simp: has_breaking_def)

lemma column_change_breaking:
  "has_breaking (column_change n a b) \<longleftrightarrow>
     c_type a \<noteq> c_type b \<or> c_nullable a \<and> \<not> c_nullable b \<or> c_ordinal a \<noteq> c_ordinal b"
  by (auto simp: column_change_def has_breaking_def)

lemma removed_columns_Nil:
  "removed_columns old new = [] \<longleftrightarrow>
     (\<forall>n. dict_get (column_dict old) n \<noteq> None \<longrightarrow> dict_get (column_dict new) n \<noteq> None)"
  unfolding removed_columns_def by (rule no_values_missing) simp

lemma column_sub_diffs_breaking:
  assumes "order_ok ho"
  shows "has_breaking (fst (column_sub_diffs ho old new)) \<longleftrightarrow>
    (\<exists>n c. dict_get (column_dict old) n = Some c \<and>
        (case dict_get (column_dict new) n of
           None \<Rightarrow> True
         | Some c' \<Rightarrow> c_type c \<noteq> c_type c' \<or> c_nullable c \<and> \<not> c_nullable c' \<or> c_ordinal c \<noteq> c_ordinal c'))"
proof -
  have "has_breaking (fst (column_sub_diffs ho old new)) \<longleftrightarrow>
      removed_columns old new \<noteq> [] \<or>
      (\<exists>n \<in> set (common_keys (column_dict old) (column_dict new)).
         has_breaking (column_change n (the (dict_get (column_dict old) n)) (the (dict_get (column_dict new) n))))"
    by (simp add: column_sub_diffs_def Let_def has_breaking_concat order_ok_set [OF assms])
  also have "\<dots> \<longleftrightarrow> (\<exists>n. dict_get (column_dict old) n \<noteq> None \<and> dict_get (column_dict new) n = None \<or>
      dict_get (column_dict old) n \<noteq> None \<and> dict_get (column_dict new) n \<noteq> None \<and>
      has_breaking (column_change n (the (dict_get (column_dict old) n)) (the (dict_get (column_dict new) n))))"
    unfolding removed_columns_Nil Bex_def in_common_keys
    by (simp add: ex_disj_distrib conj_assoc)
  also have "\<dots> \<longleftrightarrow> (\<exists>n c. dict_get (column_dict old) n = Some c \<and>
        (case dict_get (column_dict new) n of
           None \<Rightarrow> True
         | Some c' \<Rightarrow> c_type c \<noteq> c_type c' \<or> c_nullable c \<and> \<not> c_nullable c' \<or> c_ordinal c \<noteq> c_ordinal c'))"
    unfolding column_change_breaking
    by (rule ex_cong1) (auto split: option.splits)
  finally show ?thesis .
qed

lemma foreign_sub_diffs_breaking:
  assumes "order_ok ho"
  shows "has_breaking (foreign_sub_diffs ho old new) \<longleftrightarrow>
    (\<exists>cols fk. dict_get (fk_dict old) cols = Some fk \<and> dict_get (fk_dict new) cols \<noteq> Some fk)"
proof -
  have some: "ho_tuples ho xs \<noteq> [] \<longleftrightarrow> (\<exists>x. x \<in> set xs)" for xs
    using order_ok_set(2) [OF assms, of xs] by (metis ex_in_conv set_empty)
  have "has_breaking (foreign_sub_diffs ho old new) \<longleftrightarrow>
      (\<exists>k. k \<in> set (missing_keys (fk_dict old) (fk_dict new))) \<or>
      (\<exists>k \<in> set (common_keys (fk_dict old) (fk_dict new)).
         the (dict_get (fk_dict old) k) \<noteq> the (dict_get (fk_dict new) k))"
    by (simp add: foreign_sub_diffs_def Let_def has_breaking_concat order_ok_set [OF assms] some)
       (simp add: has_breaking_def)
  also have "\<dots> \<longleftrightarrow> (\<exists>k. dict_get (fk_dict old) k \<noteq> None \<and> dict_get (fk_dict new) k = None \<or>
      dict_get (fk_dict old) k \<noteq> None \<and> dict_get (fk_dict new) k \<noteq> None \<and>
      the (dict_get (fk_dict old) k) \<noteq> the (dict_get (fk_dict new) k))"
    unfolding Bex_def in_common_keys in_missing_keys
    by (simp add: ex_disj_distrib conj_assoc)
  also have "\<dots> \<longleftrightarrow> (\<exists>cols fk. dict_get (fk_dict old) cols = Some fk \<and> dict_get (fk_dict new) cols \<noteq> Some fk)"
    by (rule ex_cong1) auto
  finally show ?thesis .
qed

lemma primary_sub_diffs_breaking:
  "has_breaking (primary_sub_diffs old new) \<longleftrightarrow>
     or_empty (k_primary (o_keys old)) \<noteq> [] \<and>
     or_empty (k_primary (o_keys old)) \<noteq> or_empty (k_primary (o_keys new))"
  by (auto simp: primary_sub_diffs_def Let_def has_breaking_def)

lemma unique_sub_diffs_breaking:
  "has_breaking (unique_sub_diffs old new) \<longleftrightarrow> \<not> set (unique_set old) \<subseteq> set (unique_set new)"
  by (auto simp: unique_sub_diffs_def filter_empty_conv)

lemma stats_sub_diffs_breaking:
  "has_breaking (stats_sub_diffs old new) \<longleftrightarrow>
     (\<exists>k \<in> set (included_stats (o_kind old)). \<not> same_stat (dict_get (o_stats old) k) (dict_get (o_stats new) k))"
  unfolding stats_sub_diffs_def has_breaking_concat set_sort
  by (rule bex_cong) (simp_all add: stat_change_def Let_def has_breaking_def)

lemma all_sub_diffs_breaking:
  assumes "order_ok ho"
  shows "has_breaking (all_sub_diffs ho old new) \<longleftrightarrow> breaking_change old new"
  by (simp add: all_sub_diffs_def key_sub_diffs_def breaking_change_def column_sub_diffs_breaking [OF assms]
      foreign_sub_diffs_breaking [OF assms] primary_sub_diffs_breaking unique_sub_diffs_breaking
      stats_sub_diffs_breaking)

section \<open>Properties\<close>

definition id_order :: hash_order where
  "id_order = \<lparr>ho_names = (\<lambda>xs. xs), ho_tuples = (\<lambda>xs. xs)\<rparr>"

lemma id_order_ok [simp]: "order_ok id_order"
  by (simp add: order_ok_def id_order_def)

definition ex_old :: snapshot where
  "ex_old = ex_snapshot ''t1'' [ex_table [ex_col ''id'' 1 None, ex_col ''note'' 2 None]]"

definition ex_new :: snapshot where
  "ex_new = ex_snapshot ''t2'' [(ex_table [ex_col ''id'' 1 None])\<lparr>o_schema_hash := ''h2''\<rparr>]"

lemma known_table [simp]: "known_kind ''table''"
  by (simp add: known_kind_def dict_has_def KIND_REGISTRY_def)

lemma ex_known:
  "known_objs ex_old = s_objects ex_old" "known_objs ex_new = s_objects ex_new"
  by (simp_all add: known_objs_def ex_old_def ex_new_def ex_snapshot_def ex_table_def)

lemma ex_diff_defined: "\<exists>d. diff_snapshots id_order (\<lambda>t. t) False ex_old ex_new = Inr d"
proof -
  have d: "distinct (map identity_of (known_objs ex_old))" "distinct (map identity_of (known_objs ex_new))"
    unfolding ex_known by (simp_all add: ex_old_def ex_new_def ex_snapshot_def)
  obtain s1 where 1: "index_objects ex_old [] = Inr (map with_id (known_objs ex_old), s1)"
    using d index_objects_ok by blast
  obtain s2 where 2: "index_objects ex_new s1 = Inr (map with_id (known_objs ex_new), s2)"
    using d index_objects_ok by blast
  have "s_system ex_old = s_system ex_new" by (simp add: ex_old_def ex_new_def ex_snapshot_def)
  then show ?thesis by (simp add: diff_snapshots_def 1 2)
qed

text \<open>The partition of the identities by a computed diff.\<close>

definition bucket :: "object_diff list \<Rightarrow> identity list" where
  "bucket ds = map od_identity ds"

lemma bucket_filter_common:
  assumes "distinct (map identity_of xs)" and "distinct (map identity_of ys)"
  shows "sorted (bucket (filter P (diff_common ho (map with_id xs) (map with_id ys))))"
    and "distinct (bucket (filter P (diff_common ho (map with_id xs) (map with_id ys))))"
proof -
  let ?ds = "diff_common ho (map with_id xs) (map with_id ys)"
  have "sorted (map od_identity ?ds)" and "distinct (map od_identity ?ds)"
    unfolding diff_common_identities [OF assms] using distinct_keys_with_id(2) [OF assms(1)] by simp_all
  then show "sorted (bucket (filter P ?ds))" and "distinct (bucket (filter P ?ds))"
    by (simp_all add: bucket_def sorted_filter distinct_map_filter)
qed

lemma bucket_common_split:
  fixes ho :: hash_order
  assumes "distinct (map identity_of xs)" and "distinct (map identity_of ys)"
  defines "ds \<equiv> diff_common ho (map with_id xs) (map with_id ys)"
  shows "set (bucket (filter (\<lambda>d. od_classification d = ChangedStructural) ds))
       \<union> set (bucket (filter (\<lambda>d. od_classification d = ChangedMetadataOnly) ds))
       \<union> set (bucket (filter (\<lambda>d. od_classification d = Unchanged) ds))
       = identity_of ` set xs \<inter> identity_of ` set ys"
    and "P \<noteq> Q \<Longrightarrow> set (bucket (filter (\<lambda>d. od_classification d = P) ds))
       \<inter> set (bucket (filter (\<lambda>d. od_classification d = Q) ds)) = {}"
proof -
  have ids: "map od_identity ds = sort (common_keys (map with_id xs) (map with_id ys))"
    unfolding ds_def by (rule diff_common_identities [OF assms(1,2)])
  have cases: "od_classification d = ChangedStructural \<or> od_classification d = ChangedMetadataOnly
      \<or> od_classification d = Unchanged" if "d \<in> set ds" for d
  proof -
    from that obtain a b where "d = diff_object ho a b"
      unfolding ds_def diff_common_def set_map by blast
    then show ?thesis by (simp add: diff_object_classification)
  qed
  have "od_identity ` set ds = identity_of ` set xs \<inter> identity_of ` set ys"
    by (metis common_keys_with_id ids list.set_map set_sort)
  moreover have "set ds = {d \<in> set ds. od_classification d = ChangedStructural}
      \<union> {d \<in> set ds. od_classification d = ChangedMetadataOnly} \<union> {d \<in> set ds. od_classification d = Unchanged}"
    using cases by blast
  ultimately show "set (bucket (filter (\<lambda>d. od_classification d = ChangedStructural) ds))
       \<union> set (bucket (filter (\<lambda>d. od_classification d = ChangedMetadataOnly) ds))
       \<union> set (bucket (filter (\<lambda>d. od_classification d = Unchanged) ds))
       = identity_of ` set xs \<inter> identity_of ` set ys"
    unfolding bucket_def set_map set_filter image_Un [symmetric] by metis
  have "distinct (map od_identity ds)"
    unfolding ids using distinct_keys_with_id(2) [OF assms(1)] by simp
  then show "P \<noteq> Q \<Longrightarrow> set (bucket (filter (\<lambda>d. od_classification d = P) ds))
       \<inter> set (bucket (filter (\<lambda>d. od_classification d = Q) ds)) = {}"
    using distinct_map_filter_disjoint [of od_identity ds "\<lambda>d. od_classification d = P"
        "\<lambda>d. od_classification d = Q"] by (simp add: bucket_def)
qed

lemma sorted_distinct_missing:
  assumes "distinct (map identity_of xs)"
  shows "sorted (sort (missing_keys (map with_id xs) d)) \<and> distinct (sort (missing_keys (map with_id xs) d))"
  using distinct_keys_with_id(1) [OF assms] by simp

text \<open>
  A computed diff partitions the objects (diff.py \<open>diff_snapshots\<close>): the added identities are those
  of registered kinds present only in the new snapshot, the removed ones those present only in the old
  one, and the three remaining buckets split the common ones without overlap. Every bucket is
  listed in increasing order without repetition, and exactly the identities of unregistered kinds are skipped.\<close>

theorem diff_partitions_identities:
  assumes "diff_snapshots ho sha verify_hashes old new = Inr d"
  shows "set (bucket (d_added d)) = known_ids new - known_ids old
    \<and> set (bucket (d_removed d)) = known_ids old - known_ids new
    \<and> set (bucket (d_changed_structural d)) \<union> set (bucket (d_changed_metadata_only d)) \<union> set (d_unchanged d)
        = known_ids old \<inter> known_ids new
    \<and> set (bucket (d_changed_structural d)) \<inter> set (bucket (d_changed_metadata_only d)) = {}
    \<and> set (bucket (d_changed_structural d)) \<inter> set (d_unchanged d) = {}
    \<and> set (bucket (d_changed_metadata_only d)) \<inter> set (d_unchanged d) = {}
    \<and> list_all (\<lambda>b. sorted b \<and> distinct b)
        [bucket (d_added d), bucket (d_removed d), bucket (d_changed_structural d),
         bucket (d_changed_metadata_only d), d_unchanged d]
    \<and> set (d_skipped d) = unknown_ids old \<union> unknown_ids new"
proof -
  obtain sk where old: "distinct (map identity_of (known_objs old))"
    and new: "distinct (map identity_of (known_objs new))"
    and d: "d = diff_indexed ho old new (map with_id (known_objs old)) (map with_id (known_objs new)) sk"
    and sk: "set sk = unknown_ids old \<union> unknown_ids new"
    by (rule diff_snapshots_Inr [OF assms])
  let ?ds = "diff_common ho (map with_id (known_objs old)) (map with_id (known_objs new))"
  have f: "bucket (d_added d) = sort (missing_keys (map with_id (known_objs new)) (map with_id (known_objs old)))"
    "bucket (d_removed d) = sort (missing_keys (map with_id (known_objs old)) (map with_id (known_objs new)))"
    "d_changed_structural d = filter (\<lambda>x. od_classification x = ChangedStructural) ?ds"
    "d_changed_metadata_only d = filter (\<lambda>x. od_classification x = ChangedMetadataOnly) ?ds"
    "d_unchanged d = bucket (filter (\<lambda>x. od_classification x = Unchanged) ?ds)" "d_skipped d = sk"
    by (simp_all add: d diff_indexed_def Let_def bucket_def o_def)
  show ?thesis
    unfolding f known_ids_def set_sort missing_keys_with_id list.pred_inject
    by (intro conjI TrueI bucket_common_split [OF old new] bucket_filter_common [OF old new]
        sorted_distinct_missing [OF old, THEN conjunct1] sorted_distinct_missing [OF new, THEN conjunct1]
        sorted_distinct_missing [OF old, THEN conjunct2] sorted_distinct_missing [OF new, THEN conjunct2]
        sk refl) simp_all
qed

theorem diff_partitions_identities_witness:
  "\<exists>d. diff_snapshots id_order (\<lambda>t. t) False ex_old ex_new = Inr d
     \<and> set (bucket (d_removed d)) = {} \<and> set (d_skipped d) = {}"
proof -
  obtain d where d: "diff_snapshots id_order (\<lambda>t. t) False ex_old ex_new = Inr d"
    using ex_diff_defined by blast
  have "known_ids ex_old = known_ids ex_new" "unknown_ids ex_old = {}" "unknown_ids ex_new = {}"
    unfolding known_ids_def ex_known
    by (simp_all add: unknown_ids_def ex_old_def ex_new_def ex_snapshot_def ex_table_def identity_of_def)
  with d diff_partitions_identities [OF d] show ?thesis by auto
qed

text \<open>
  The diff raises only as documented: it returns a result if and only if both snapshots are
  of the same system, no registered identity occurs twice in either, and, when asked to verify
  hashes, every stored hash of a registered object is the recomputed one (C-4).\<close>

theorem diff_snapshots_defined_iff:
  "(\<exists>d. diff_snapshots ho sha verify_hashes old new = Inr d) \<longleftrightarrow>
     s_system old = s_system new
     \<and> (verify_hashes \<longrightarrow> (\<forall>ob \<in> set (s_objects old) \<union> set (s_objects new).
            known_kind (o_kind ob) \<longrightarrow> hash_ok sha ob))
     \<and> distinct (map identity_of (known_objs old)) \<and> distinct (map identity_of (known_objs new))"
    (is "?l \<longleftrightarrow> ?r")
proof
  assume ?l
  then obtain d where d: "diff_snapshots ho sha verify_hashes old new = Inr d" by blast
  then have "verify_hashes \<Longrightarrow> verify_stored_hashes sha old new = Inr ()"
    by (auto simp: diff_snapshots_def res_bind_Inr_iff split: if_splits)
  with diff_snapshots_Inr [OF d] show ?r
    by (metis verify_stored_hashes_iff)
next
  assume r: ?r
  then have v: "(if verify_hashes then verify_stored_hashes sha old new else Inr ()) = Inr ()"
    by (simp add: verify_stored_hashes_iff)
  obtain s1 where 1: "index_objects old [] = Inr (map with_id (known_objs old), s1)"
    using r index_objects_ok by blast
  obtain s2 where 2: "index_objects new s1 = Inr (map with_id (known_objs new), s2)"
    using r index_objects_ok by blast
  from r show ?l unfolding diff_snapshots_def v by (simp add: 1 2)
qed

theorem diff_snapshots_defined_iff_witness:
  "\<exists>d. diff_snapshots id_order (\<lambda>t. t) False ex_old ex_new = Inr d"
  unfolding diff_snapshots_defined_iff ex_known
  by (simp add: ex_old_def ex_new_def ex_snapshot_def)

lemma unchanged_iff:
  "od_classification (diff_object ho a b) = Unchanged \<longleftrightarrow> canonical_object_bytes a = canonical_object_bytes b"
  by (auto simp: diff_object_classification dest: canonical_bytes_fields)

lemma is_empty_diff_indexed:
  "is_empty (diff_indexed ho old new i j sk) \<longleftrightarrow>
     (\<forall>k. map_option canonical_object_bytes (dict_get i k) = map_option canonical_object_bytes (dict_get j k))"
proof -
  have none: "missing_keys d e = [] \<longleftrightarrow> (\<forall>k. dict_get d k \<noteq> None \<longrightarrow> dict_get e k \<noteq> None)"
    for d e :: "(identity, obj) dict"
    by (auto simp: missing_keys_def filter_empty_conv alist.in_keys dict_has_def)
  have neither: "c \<noteq> ChangedStructural \<and> c \<noteq> ChangedMetadataOnly \<longleftrightarrow> c = Unchanged"
    if "c = od_classification (diff_object ho a b)" for c a b
    using that by (auto simp: diff_object_classification split: if_splits)
  have "is_empty (diff_indexed ho old new i j sk) \<longleftrightarrow>
      missing_keys j i = [] \<and> missing_keys i j = [] \<and>
      (\<forall>k \<in> set (common_keys i j). od_classification (diff_object ho (the (dict_get i k)) (the (dict_get j k))) = Unchanged)"
    by (simp add: is_empty_def diff_indexed_def Let_def diff_common_def filter_empty_conv
        ball_conj_distrib [symmetric] neither [OF refl])
  also have "\<dots> \<longleftrightarrow> (\<forall>k. map_option canonical_object_bytes (dict_get i k) = map_option canonical_object_bytes (dict_get j k))"
    unfolding same_maps_iff none unchanged_iff Ball_def in_common_keys by blast
  finally show ?thesis .
qed

definition id_bytes :: "obj \<Rightarrow> identity \<times> string" where
  "id_bytes ob = (identity_of ob, canonical_object_bytes ob)"

lemma map_of_id_bytes:
  "map_of (map id_bytes xs) k = map_option canonical_object_bytes (dict_get (map with_id xs) k)"
  by (induction xs) (auto simp: id_bytes_def with_id_def)

lemma map_bytes_eq_iff:
  "map canonical_object_bytes xs = map canonical_object_bytes ys \<longleftrightarrow> map id_bytes xs = map id_bytes ys"
  by (rule map_eq_by_iff) (auto simp: id_bytes_def dest: canonical_bytes_fields)

lemma sorted_bytes_eq_iff:
  assumes "distinct (map identity_of xs)" and "distinct (map identity_of ys)"
  shows "map canonical_object_bytes (sort_key identity_of xs) = map canonical_object_bytes (sort_key identity_of ys)
    \<longleftrightarrow> (\<forall>k. map_option canonical_object_bytes (dict_get (map with_id xs) k)
           = map_option canonical_object_bytes (dict_get (map with_id ys) k))"
proof -
  have sort: "map id_bytes (sort_key identity_of zs) = sort_key fst (map id_bytes zs)" for zs
    by (rule map_sort_key) (simp add: id_bytes_def)
  have fst: "map fst (map id_bytes zs) = map identity_of zs" for zs
    by (simp add: id_bytes_def o_def)
  have "map id_bytes (sort_key identity_of xs) = map id_bytes (sort_key identity_of ys) \<longleftrightarrow>
      map_of (map id_bytes xs) = map_of (map id_bytes ys)"
    unfolding sort using assms by (intro distinct_sort_key_fst_iff) (simp_all only: fst)
  then show ?thesis by (simp add: map_bytes_eq_iff fun_eq_iff map_of_id_bytes)
qed

text \<open>
  A diff is empty exactly when nothing changed: the diff of two snapshots has no added, removed or
  changed object if and only if their objects of registered kinds, sorted by identity, have pairwise
  equal canonical bytes. In particular listing order never shows up as drift.\<close>

theorem diff_empty_exact:
  assumes "diff_snapshots ho sha verify_hashes old new = Inr d"
  shows "is_empty d \<longleftrightarrow>
    map canonical_object_bytes (sort_key identity_of (known_objs old)) =
    map canonical_object_bytes (sort_key identity_of (known_objs new))"
proof -
  obtain sk where "distinct (map identity_of (known_objs old))" "distinct (map identity_of (known_objs new))"
    "d = diff_indexed ho old new (map with_id (known_objs old)) (map with_id (known_objs new)) sk"
    by (rule diff_snapshots_Inr [OF assms])
  then show ?thesis by (simp add: sorted_bytes_eq_iff is_empty_diff_indexed)
qed

theorem diff_empty_exact_witness:
  "\<exists>d. diff_snapshots id_order (\<lambda>t. t) False ex_old ex_new = Inr d \<and> \<not> is_empty d"
proof -
  obtain d where d: "diff_snapshots id_order (\<lambda>t. t) False ex_old ex_new = Inr d"
    using ex_diff_defined by blast
  have "canonical_object_bytes (hd (s_objects ex_old)) \<noteq> canonical_object_bytes (hd (s_objects ex_new))"
    by (auto dest!: canonical_bytes_fields simp: ex_old_def ex_new_def ex_snapshot_def ex_table_def)
  with d diff_empty_exact [OF d] show ?thesis
    unfolding ex_known by (simp add: ex_old_def ex_new_def ex_snapshot_def)
qed

text \<open>
  C23. The severity of a structural change is exact (section 7 table): when the stored hashes differ, the object
  is reported as breaking if and only if the change is of a kind the table calls breaking or no
  difference of the shape was found at all (the safe side), and the list of sub-diffs is empty only in the
  latter case, whatever order the sets are iterated in.\<close>

theorem diff_object_severity_exact:
  assumes "order_ok ho" and "o_schema_hash old \<noteq> o_schema_hash new"
  shows "(od_severity (diff_object ho old new) = Some Breaking \<longleftrightarrow>
            breaking_change old new \<or> same_shape old new)
    \<and> (od_sub_diffs (diff_object ho old new) = [] \<longleftrightarrow> same_shape old new)"
proof -
  have "max_severity (all_sub_diffs ho old new) = Breaking \<longleftrightarrow> breaking_change old new"
    using all_sub_diffs_breaking [OF assms(1), of old new]
    by (simp add: has_breaking_def max_severity_Breaking)
  then show ?thesis
    using assms(2) all_sub_diffs_Nil [OF assms(1), of old new]
    by (simp add: diff_object_def Let_def ObjectDiff_def)
qed

theorem diff_object_severity_exact_witness:
  "od_severity (diff_object id_order (ex_table [ex_col ''id'' 1 None])
     ((ex_table [])\<lparr>o_schema_hash := ''h2''\<rparr>)) = Some Breaking"
proof -
  let ?a = "ex_table [ex_col ''id'' 1 None]" and ?b = "(ex_table [])\<lparr>o_schema_hash := ''h2''\<rparr>"
  have h: "o_schema_hash ?a \<noteq> o_schema_hash ?b" by (simp add: ex_table_def)
  have "dict_get (column_dict ?a) ''id'' = Some (ex_col ''id'' 1 None)" "dict_get (column_dict ?b) ''id'' = None"
    by (simp_all add: column_dict_def dict_of_def ex_table_def ex_col_def)
  then have "breaking_change ?a ?b"
    unfolding breaking_change_def by (metis (no_types, lifting) option.simps(4))
  with diff_object_severity_exact [OF id_order_ok h] show ?thesis by simp
qed

text \<open>
  Structural changes are found exactly: for two versions of an object of a registered kind
  whose stored hashes are the recomputed ones, and without a SHA-256 collision on the two hashed texts,
  the diff says \<open>changed_structural\<close> if and only if the structure differs.\<close>

theorem diff_structural_exact:
  assumes "hash_ok sha old" and "hash_ok sha new"
    and "dict_wf (o_stats old)" and "dict_wf (o_stats new)"
    and "sha (hash_text old) = sha (hash_text new) \<Longrightarrow> hash_text old = hash_text new"
  shows "od_classification (diff_object ho old new) = ChangedStructural \<longleftrightarrow> \<not> same_structure old new"
proof -
  have k: "known_kind (o_kind old)" "known_kind (o_kind new)"
    using assms(1,2) by (auto dest: hash_ok_unknown)
  then have "o_schema_hash old = ''sha256:'' @ sha (hash_text old)"
    and "o_schema_hash new = ''sha256:'' @ sha (hash_text new)"
    using assms(1,2) by (simp_all add: hash_ok_def schema_hash_known)
  then have "o_schema_hash old = o_schema_hash new \<longleftrightarrow> hash_text old = hash_text new"
    using assms(5) by auto
  with hash_text_eq_iff [OF k assms(3,4)] show ?thesis
    by (simp add: diff_object_classification)
qed

theorem diff_structural_exact_witness:
  "od_classification (diff_object id_order (ex_hashed [ex_col ''id'' 1 None]) (ex_hashed [ex_col ''id'' 2 None]))
     = ChangedStructural"
proof -
  let ?a = "ex_hashed [ex_col ''id'' 1 None]" and ?b = "ex_hashed [ex_col ''id'' 2 None]"
  have "\<not> same_structure ?a ?b"
    by (simp add: same_structure_def structural_columns_def ex_hashed_def ex_defs)
  moreover have "dict_wf (o_stats ?a)" "dict_wf (o_stats ?b)"
    by (simp_all add: ex_hashed_def ex_table_def dict_wf_def)
  ultimately show ?thesis
    using diff_structural_exact [OF ex_hashed_ok ex_hashed_ok] by simp
qed

end
