(* ===== verification/Naming.thy ===== *)
theory Naming
  imports Prelude
begin

text \<open>
  Naming rules of the knowledge base, \<open>src/generator/naming.py\<close>: path mangling, fully
  qualified names and anchors.

  \<open>str.lower()\<close> maps a letter above 127 to a letter above 127, and the mangling
  replaces both by a dash, so lowering the ASCII letters is all that can be observed.
\<close>

definition KIND_GROUPS :: "(string, string) dict" where
  "KIND_GROUPS = [(''api_dimension'', ''dimensions''), (''api_metric'', ''metrics''), (''api_event'', ''events'')]"

definition SQL_KINDS :: "string list" where
  "SQL_KINDS = [''table'', ''view'', ''materialized_view'']"

definition lower_char :: "char \<Rightarrow> char" where
  "lower_char c = (if is_upper c then char_of (of_char c + 32 :: nat) else c)"

definition plain_char :: "char \<Rightarrow> bool" where
  "plain_char c \<longleftrightarrow> is_lower c \<or> is_digit c \<or> c = CHR ''_'' \<or> c = CHR ''-''"

definition mangle :: "string \<Rightarrow> string" where
  "mangle name = map (\<lambda>c. if plain_char (lower_char c) then lower_char c else CHR ''-'') name"

definition fqn :: "string \<Rightarrow> string \<Rightarrow> string \<Rightarrow> string" where
  "fqn system schema name = system @ ''.'' @ schema @ ''.'' @ name"

definition anchor_id :: "string \<Rightarrow> string \<Rightarrow> string" where
  "anchor_id schema name = mangle schema @ ''--'' @ mangle name"

lemma plain_not_upper: "plain_char c \<Longrightarrow> \<not> is_upper c"
  by (auto simp: plain_char_def is_upper_def is_lower_def is_digit_def less_eq_char_def)

lemma plain_dash [simp]: "plain_char (CHR ''-'')"
  by (simp add: plain_char_def)

lemma mangle_plain: "c \<in> set (mangle s) \<Longrightarrow> plain_char c"
  by (auto simp: mangle_def)

lemma mangle_idem [simp]: "mangle (mangle s) = mangle s"
proof -
  have "lower_char c = c" if "plain_char c" for c
    using plain_not_upper [OF that] by (simp add: lower_char_def)
  then show ?thesis by (auto simp: mangle_def)
qed

lemma mangle_length [simp]: "length (mangle s) = length s"
  by (simp add: mangle_def)

lemma mangle_no_slash: "CHR ''/'' \<notin> set (mangle s)" and mangle_no_dot: "CHR ''.'' \<notin> set (mangle s)"
  by (auto dest!: mangle_plain simp: plain_char_def is_lower_def is_digit_def less_eq_char_def)

lemma dot_split_unique:
  fixes c :: char
  assumes "a @ c # b = a' @ c # b'" and "c \<notin> set a" and "c \<notin> set a'"
  shows "a = a' \<and> b = b'"
proof -
  have "(a, True, b) = (a', True, b')"
    unfolding partition_at_append [OF assms(2), of b, symmetric] assms(1)
    by (rule partition_at_append [OF assms(3)])
  then show ?thesis by simp
qed

lemma fqn_inj:
  assumes "CHR ''.'' \<notin> set sys" "CHR ''.'' \<notin> set sys'" "CHR ''.'' \<notin> set sch" "CHR ''.'' \<notin> set sch'"
    and "fqn sys sch name = fqn sys' sch' name'"
  shows "sys = sys' \<and> sch = sch' \<and> name = name'"
  using assms dot_split_unique [of sys "CHR ''.''" "sch @ ''.'' @ name" sys' "sch' @ ''.'' @ name'"]
    dot_split_unique [of sch "CHR ''.''" name sch' name'] by (simp add: fqn_def)

text \<open>
  Mangled names are safe path segments (naming.py \<open>mangle\<close>, \<open>anchor_id\<close>): mangling yields only lower-case letters,
  digits, underscore and dash, never a slash or a dot, keeps the length and is idempotent, so a path built
  from mangled segments splits back into exactly these segments.\<close>

theorem mangle_path_segments:
  "list_all plain_char (mangle a) \<and> mangle (mangle a) = mangle a \<and> length (mangle a) = length a
   \<and> split_on (CHR ''/'') (mangle a @ ''/'' @ mangle b) = [mangle a, mangle b]
   \<and> CHR ''.'' \<notin> set (anchor_id a b)"
proof -
  have one: "split_on c s = [s]" if "c \<notin> set s" for c s
    using that by (induction s) auto
  have two: "split_on c (s @ c # t) = [s, t]" if "c \<notin> set s" "c \<notin> set t" for c s t
    using that one [of c t] by (induction s) auto
  show ?thesis
    using mangle_plain [of _ a] two [OF mangle_no_slash [of a] mangle_no_slash [of b]] mangle_no_dot
    by (auto simp: list_all_iff anchor_id_def)
qed

end
