(* ===== verification/Lineage_Graph.thy ===== *)
theory Lineage_Graph
  imports Delivery Naming
begin

text \<open>
  The merged lineage graph, \<open>src/lineage/graph.py\<close>.

  An attestation is one claim \<open>(source, target, operation)\<close> with one piece of evidence.
  A missing key of an optional dict is \<open>None\<close>. A Python set of strings is a list without
  repetition; the source sorts it before it is output. The parser that turns view
  definitions into attestations works on the syntax trees of the package \<open>sqlglot\<close>; here it is the
  parameter \<open>attest\<close> of \<open>build_graph\<close>. SHA-256 is the parameter \<open>sha\<close>.
\<close>

section \<open>Data\<close>

record evidence =
  ev_tier :: string
  ev_ref :: string

record mapping =
  m_to :: string
  m_from :: "string list"

record meta_update =
  mu_resolved :: bool
  mu_kind :: "string option"
  mu_schema :: "string option option"
  mu_name :: "string option option"

record attestation =
  a_source :: string
  a_target :: string
  a_operation :: string
  a_evidence :: evidence
  a_columns :: "mapping list"
  a_source_meta :: "meta_update option"
  a_target_meta :: "meta_update option"

record node_meta =
  nm_resolved :: bool
  nm_kind :: string
  nm_schema :: "string option"
  nm_name :: "string option"

record node =
  n_id :: string
  n_kind :: string
  n_resolved :: bool
  n_doc :: "string option"

record edge =
  e_id :: string
  e_source :: string
  e_target :: string
  e_operation :: string
  e_evidence :: "evidence list"
  e_trust :: string
  e_columns :: "mapping list"

record graph =
  g_generated_at :: string
  g_snapshot_ref :: "(string, string) dict"
  g_gateway :: nat
  g_nodes :: "node list"
  g_edges :: "edge list"

datatype graph_error =
    BadOperation string string string
  | BadTier string
  | UnnamedNode string
  | DuplicateSystem "string list"
  | NoSnapshots

definition OPERATIONS :: "string list" where
  "OPERATIONS = [''ingest'', ''join'', ''filter'', ''aggregate'', ''derive'', ''cast'', ''rename'',
     ''dedupe'', ''business-rule'']"

definition TIER_ORDER :: "string list" where
  "TIER_ORDER = [''pipeline-tool'', ''sql-parse'', ''human'']"

definition edge_id :: "(string \<Rightarrow> string) \<Rightarrow> string \<Rightarrow> string \<Rightarrow> string \<Rightarrow> string" where
  "edge_id sha source target operation =
     ''sha256:'' @ sha (source @ [CHR 0x0A] @ target @ [CHR 0x0A] @ operation)"

definition snapshot_body_hash :: "(string \<Rightarrow> string) \<Rightarrow> snapshot \<Rightarrow> string" where
  "snapshot_body_hash sha s = ''sha256:'' @ sha (canonical_body_bytes s)"

section \<open>merge_attestations\<close>

text \<open>The edge under construction: the \<open>_evidence\<close> list and the \<open>_columns\<close> dict of sets.\<close>

record open_edge =
  oe_source :: string
  oe_target :: string
  oe_operation :: string
  oe_evidence :: "evidence list"
  oe_columns :: "(string, string list) dict"

definition open_edge_of :: "attestation \<Rightarrow> open_edge" where
  "open_edge_of a = \<lparr>oe_source = a_source a, oe_target = a_target a, oe_operation = a_operation a,
     oe_evidence = [], oe_columns = []\<rparr>"

definition set_add :: "'a list \<Rightarrow> 'a list \<Rightarrow> 'a list" where
  "set_add xs ys = xs @ filter (\<lambda>y. y \<notin> set xs) (remdups ys)"

definition add_mapping :: "mapping \<Rightarrow> (string, string list) dict \<Rightarrow> (string, string list) dict" where
  "add_mapping m cols =
     dict_set (m_to m) (set_add (case dict_get cols (m_to m) of None \<Rightarrow> [] | Some xs \<Rightarrow> xs) (m_from m)) cols"

definition add_attestation :: "attestation \<Rightarrow> open_edge \<Rightarrow> open_edge" where
  "add_attestation a e = e\<lparr>oe_evidence := oe_evidence e @ [a_evidence a],
     oe_columns := fold add_mapping (a_columns a) (oe_columns e)\<rparr>"

definition unresolved_meta :: node_meta where
  "unresolved_meta = \<lparr>nm_resolved = False, nm_kind = ''external'', nm_schema = None, nm_name = None\<rparr>"

definition apply_meta :: "meta_update \<Rightarrow> node_meta \<Rightarrow> node_meta" where
  "apply_meta u m = \<lparr>nm_resolved = mu_resolved u,
     nm_kind = (case mu_kind u of None \<Rightarrow> nm_kind m | Some k \<Rightarrow> k),
     nm_schema = (case mu_schema u of None \<Rightarrow> nm_schema m | Some s \<Rightarrow> s),
     nm_name = (case mu_name u of None \<Rightarrow> nm_name m | Some n \<Rightarrow> n)\<rparr>"

definition note_endpoint ::
  "string \<Rightarrow> meta_update option \<Rightarrow> (string, node_meta) dict \<Rightarrow> (string, node_meta) dict" where
  "note_endpoint nid meta metas =
     (let known = (case dict_get metas nid of None \<Rightarrow> unresolved_meta | Some m \<Rightarrow> m)
      in dict_set nid
           (case meta of None \<Rightarrow> known
            | Some u \<Rightarrow> if mu_resolved u \<and> \<not> nm_resolved known then apply_meta u known else known) metas)"

type_synonym merge_state = "(string, open_edge) dict \<times> (string, node_meta) dict"

definition merge_step ::
  "(string \<Rightarrow> string) \<Rightarrow> merge_state \<Rightarrow> attestation \<Rightarrow> (graph_error, merge_state) result" where
  "merge_step sha st a =
     (if a_operation a \<notin> set OPERATIONS then Inl (BadOperation (a_operation a) (a_source a) (a_target a))
      else if ev_tier (a_evidence a) \<notin> set TIER_ORDER then Inl (BadTier (ev_tier (a_evidence a)))
      else let (edges, metas) = st;
               eid = edge_id sha (a_source a) (a_target a) (a_operation a);
               e = (case dict_get edges eid of None \<Rightarrow> open_edge_of a | Some e \<Rightarrow> e)
           in Inr (dict_set eid (add_attestation a e) edges,
                   note_endpoint (a_target a) (a_target_meta a)
                     (note_endpoint (a_source a) (a_source_meta a) metas)))"

definition node_of :: "string \<times> node_meta \<Rightarrow> (graph_error, node) result" where
  "node_of nm =
     (let (nid, meta) = nm;
          plain = \<lparr>n_id = nid, n_kind = nm_kind meta, n_resolved = nm_resolved meta, n_doc = None\<rparr>
      in case (if nm_resolved meta then nm_schema meta else None) of
           None \<Rightarrow> Inr plain
         | Some schema \<Rightarrow>
             if schema = [] then Inr plain
             else case nm_name meta of
               None \<Rightarrow> Inl (UnnamedNode nid)
             | Some name \<Rightarrow>
                 Inr (plain\<lparr>n_doc := Some (''systems/'' @ mangle (fst (partition_at (CHR ''.'') nid)) @ ''/''
                   @ mangle schema @ ''/'' @ mangle name @ ''.schema.md'')\<rparr>))"

definition tier_index :: "string \<Rightarrow> nat" where
  "tier_index t = length (takeWhile (\<lambda>x. x \<noteq> t) TIER_ORDER)"

definition evidence_key :: "evidence \<Rightarrow> nat \<times> string" where
  "evidence_key e = (tier_index (ev_tier e), ev_ref e)"

definition close_edge :: "string \<times> open_edge \<Rightarrow> edge" where
  "close_edge p =
     (let (eid, oe) = p; evidence = sort_key evidence_key (remdups (oe_evidence oe))
      in \<lparr>e_id = eid, e_source = oe_source oe, e_target = oe_target oe, e_operation = oe_operation oe,
          e_evidence = evidence, e_trust = ev_tier (hd evidence),
          e_columns = map (\<lambda>(to, frm). \<lparr>m_to = to, m_from = sort frm\<rparr>) (sort_key fst (oe_columns oe))\<rparr>)"

definition merge_attestations ::
  "(string \<Rightarrow> string) \<Rightarrow> attestation list \<Rightarrow> (graph_error, node list \<times> edge list) result" where
  "merge_attestations sha atts =
     res_bind (res_fold (merge_step sha) ([], []) atts)
       (\<lambda>(edges, metas). res_bind (res_map node_of (sort_key fst metas))
         (\<lambda>nodes. Inr (nodes, map close_edge (sort_key fst edges))))"

section \<open>build_graph\<close>

definition build_graph ::
  "(string \<Rightarrow> string) \<Rightarrow> (snapshot \<Rightarrow> attestation list) \<Rightarrow> snapshot list \<Rightarrow> attestation list
     \<Rightarrow> (graph_error, graph) result" where
  "build_graph sha attest snapshots gateway =
     (let systems = map s_system snapshots
      in if \<not> distinct systems then Inl (DuplicateSystem (sort systems))
         else let ordered = sort_key s_system snapshots
              in res_bind (merge_attestations sha (concat (map attest ordered) @ gateway))
                   (\<lambda>(nodes, edges).
                      if snapshots = [] then Inl NoSnapshots
                      else Inr \<lparr>g_generated_at = Max (set (map s_captured_at snapshots)),
                        g_snapshot_ref = dict_of (map (\<lambda>s. (s_system s, snapshot_body_hash sha s)) ordered),
                        g_gateway = length gateway, g_nodes = nodes, g_edges = edges\<rparr>))"

section \<open>The merge as two independent folds\<close>

definition att_id :: "(string \<Rightarrow> string) \<Rightarrow> attestation \<Rightarrow> string" where
  "att_id sha a = edge_id sha (a_source a) (a_target a) (a_operation a)"

definition att_problem :: "attestation \<Rightarrow> graph_error option" where
  "att_problem a =
     (if a_operation a \<notin> set OPERATIONS then Some (BadOperation (a_operation a) (a_source a) (a_target a))
      else if ev_tier (a_evidence a) \<notin> set TIER_ORDER then Some (BadTier (ev_tier (a_evidence a)))
      else None)"

definition open_step ::
  "(string \<Rightarrow> string) \<Rightarrow> attestation \<Rightarrow> (string, open_edge) dict \<Rightarrow> (string, open_edge) dict" where
  "open_step sha a edges = dict_set (att_id sha a) (add_attestation a
     (case map_of edges (att_id sha a) of None \<Rightarrow> open_edge_of a | Some e \<Rightarrow> e)) edges"

definition endpoint_notes :: "attestation \<Rightarrow> (string \<times> meta_update option) list" where
  "endpoint_notes a = [(a_source a, a_source_meta a), (a_target a, a_target_meta a)]"

definition refine_meta :: "meta_update option \<Rightarrow> node_meta \<Rightarrow> node_meta" where
  "refine_meta meta known = (case meta of None \<Rightarrow> known
     | Some u \<Rightarrow> if mu_resolved u \<and> \<not> nm_resolved known then apply_meta u known else known)"

definition endpoints :: "attestation list \<Rightarrow> string set" where
  "endpoints atts = a_source ` set atts \<union> a_target ` set atts"

lemma merge_step_alt:
  "merge_step sha st a = (case att_problem a of Some e \<Rightarrow> Inl e
     | None \<Rightarrow> Inr (case st of (edges, metas) \<Rightarrow> (open_step sha a edges,
         fold (\<lambda>(nid, meta). note_endpoint nid meta) (endpoint_notes a) metas)))"
  by (simp add: merge_step_def att_problem_def open_step_def att_id_def endpoint_notes_def Let_def split: prod.splits)

lemma merge_fold:
  "res_fold (merge_step sha) ([], []) atts =
     (case List.find (\<lambda>a. att_problem a \<noteq> None) atts of
        Some a \<Rightarrow> Inl (the (att_problem a))
      | None \<Rightarrow> Inr (fold (open_step sha) atts [],
          fold (\<lambda>(nid, meta). note_endpoint nid meta) (concat (map endpoint_notes atts)) []))"
proof -
  have "fold (\<lambda>a metas. fold (\<lambda>(nid, meta). note_endpoint nid meta) (endpoint_notes a) metas) atts metas =
      fold (\<lambda>(nid, meta). note_endpoint nid meta) (concat (map endpoint_notes atts)) metas" for metas
    by (induction atts arbitrary: metas) simp_all
  then have "fold (\<lambda>a (edges, metas). (open_step sha a edges,
        fold (\<lambda>(nid, meta). note_endpoint nid meta) (endpoint_notes a) metas)) atts ([], []) =
      (fold (open_step sha) atts [],
       fold (\<lambda>(nid, meta). note_endpoint nid meta) (concat (map endpoint_notes atts)) [])"
    by (simp only: fold_pair)
  then show ?thesis
    by (simp only: res_fold_guard [OF merge_step_alt])
qed

subsection \<open>Edges\<close>

lemma fold_add_attestation:
  "fold add_attestation as e = e\<lparr>oe_evidence := oe_evidence e @ map a_evidence as,
     oe_columns := fold add_mapping (concat (map a_columns as)) (oe_columns e)\<rparr>"
  by (induction as arbitrary: e) (simp_all add: add_attestation_def)

lemma open_fold_get:
  "map_of (fold (open_step sha) atts []) eid =
     (let own = filter (\<lambda>a. att_id sha a = eid) atts
      in if own = [] then None else Some (fold add_attestation own (open_edge_of (hd own))))"
  using dict_accumulate_get [of "att_id sha" add_attestation open_edge_of atts "[]" eid]
  by (simp add: open_step_def [abs_def])

lemma open_fold_wf: "dict_wf (fold (open_step sha) atts [])"
  unfolding open_step_def [abs_def]
  by (rule dict_accumulate_wf) (simp add: dict_wf_def)

lemma open_fold_keys: "set (dict_keys (fold (open_step sha) atts [])) = att_id sha ` set atts"
  using dict_accumulate_keys [where xs = atts and d = "[]" and k = "att_id sha"]
  by (simp add: open_step_def [abs_def] dict_keys_def)

definition mapped_from :: "mapping list \<Rightarrow> string \<Rightarrow> string set" where
  "mapped_from ms t = (\<Union>m \<in> {m \<in> set ms. m_to m = t}. set (m_from m))"

lemma set_add_set [simp]: "set (set_add xs ys) = set xs \<union> set ys"
  by (auto simp: set_add_def)

lemma set_add_distinct [simp]: "distinct xs \<Longrightarrow> distinct (set_add xs ys)"
  by (auto simp: set_add_def)

lemma fold_set_add:
  "set (fold (\<lambda>m xs. set_add xs (m_from m)) ms xs) = set xs \<union> (\<Union>m \<in> set ms. set (m_from m))"
  "distinct xs \<Longrightarrow> distinct (fold (\<lambda>m xs. set_add xs (m_from m)) ms xs)"
  by (induction ms arbitrary: xs) auto

lemma columns_get:
  "map_of (fold add_mapping ms []) t =
     (let own = filter (\<lambda>m. m_to m = t) ms
      in if own = [] then None else Some (fold (\<lambda>m xs. set_add xs (m_from m)) own []))"
  using dict_accumulate_get [of m_to "\<lambda>m xs. set_add xs (m_from m)" "\<lambda>_. []" ms "[]" t]
  by (simp add: add_mapping_def [abs_def])

lemma columns_wf: "dict_wf (fold add_mapping ms [])"
  unfolding add_mapping_def [abs_def]
  by (rule dict_accumulate_wf) (simp add: dict_wf_def)

lemma columns_keys: "set (dict_keys (fold add_mapping ms [])) = m_to ` set ms"
  using dict_accumulate_keys [where xs = ms and d = "[]" and k = m_to]
  by (simp add: add_mapping_def [abs_def] dict_keys_def)

lemma closed_columns:
  "map (\<lambda>(to, frm). \<lparr>m_to = to, m_from = sort frm\<rparr>) (sort_key fst (fold add_mapping ms [])) =
   map (\<lambda>t. \<lparr>m_to = t, m_from = sorted_list_of_set (mapped_from ms t)\<rparr>) (sorted_list_of_set (m_to ` set ms))"
proof -
  have "sort (the (map_of (fold add_mapping ms []) t)) = sorted_list_of_set (mapped_from ms t)"
    if "t \<in> m_to ` set ms" for t
  proof -
    let ?xs = "fold (\<lambda>m xs. set_add xs (m_from m)) (filter (\<lambda>m. m_to m = t) ms) []"
    have "set ?xs = mapped_from ms t" by (simp add: fold_set_add mapped_from_def)
    moreover have "distinct ?xs" by (simp add: fold_set_add)
    ultimately have "sort ?xs = sorted_list_of_set (mapped_from ms t)"
      by (metis distinct_remdups_id sorted_list_of_set_sort_remdups)
    with that show ?thesis by (auto simp: columns_get Let_def filter_empty_conv)
  qed
  then show ?thesis
    by (simp add: sorted_dict_items [OF columns_wf] columns_keys)
qed

text \<open>The edge an identity gets, as a function of the attestations of that identity.\<close>

definition edge_of :: "attestation list \<Rightarrow> string \<Rightarrow> edge" where
  "edge_of own eid =
     (let evidence = sort_key evidence_key (remdups (map a_evidence own));
          ms = concat (map a_columns own)
      in \<lparr>e_id = eid, e_source = a_source (hd own), e_target = a_target (hd own),
          e_operation = a_operation (hd own), e_evidence = evidence, e_trust = ev_tier (hd evidence),
          e_columns = map (\<lambda>t. \<lparr>m_to = t, m_from = sorted_list_of_set (mapped_from ms t)\<rparr>)
            (sorted_list_of_set (m_to ` set ms))\<rparr>)"

lemma close_edge_eq:
  "close_edge (eid, fold add_attestation own (open_edge_of (hd own))) = edge_of own eid"
  by (simp add: close_edge_def edge_of_def fold_add_attestation open_edge_of_def closed_columns Let_def)

lemma merged_edges:
  "map close_edge (sort_key fst (fold (open_step sha) atts [])) =
   map (\<lambda>eid. edge_of (filter (\<lambda>a. att_id sha a = eid) atts) eid) (sorted_list_of_set (att_id sha ` set atts))"
proof -
  have "close_edge (eid, the (map_of (fold (open_step sha) atts []) eid)) =
      edge_of (filter (\<lambda>a. att_id sha a = eid) atts) eid" if "eid \<in> att_id sha ` set atts" for eid
    using that by (auto simp: open_fold_get close_edge_eq Let_def filter_empty_conv)
  then show ?thesis
    by (simp add: sorted_dict_items [OF open_fold_wf] open_fold_keys)
qed

subsection \<open>Nodes\<close>

definition notes_on :: "attestation list \<Rightarrow> string \<Rightarrow> meta_update option list" where
  "notes_on atts nid = map snd (filter (\<lambda>n. fst n = nid) (concat (map endpoint_notes atts)))"

definition final_meta :: "attestation list \<Rightarrow> string \<Rightarrow> node_meta" where
  "final_meta atts nid = fold refine_meta (notes_on atts nid) unresolved_meta"

lemma note_endpoint_alt:
  "(\<lambda>(nid, meta). note_endpoint nid meta) = (\<lambda>n metas. dict_set (fst n)
     (refine_meta (snd n) (case map_of metas (fst n) of None \<Rightarrow> unresolved_meta | Some m \<Rightarrow> m)) metas)"
  by (simp add: fun_eq_iff note_endpoint_def refine_meta_def Let_def split: option.splits)

lemma notes_fold_get:
  "map_of (fold (\<lambda>(nid, meta). note_endpoint nid meta) ns []) nid =
     (let own = filter (\<lambda>n. fst n = nid) ns
      in if own = [] then None else Some (fold refine_meta (map snd own) unresolved_meta))"
  unfolding note_endpoint_alt
  using dict_accumulate_get [of fst "\<lambda>n. refine_meta (snd n)" "\<lambda>_. unresolved_meta" ns "[]" nid]
  by (simp add: fold_map comp_def Let_def)

lemma notes_fold_wf: "dict_wf (fold (\<lambda>(nid, meta). note_endpoint nid meta) ns [])"
  unfolding note_endpoint_alt
  by (rule dict_accumulate_wf) (simp add: dict_wf_def)

lemma notes_fold_keys:
  "set (dict_keys (fold (\<lambda>(nid, meta). note_endpoint nid meta) ns [])) = fst ` set ns"
  unfolding note_endpoint_alt
  using dict_accumulate_keys [where xs = ns and d = "[]" and k = fst]
  by (simp add: dict_keys_def)

lemma endpoint_notes_keys: "fst ` set (concat (map endpoint_notes atts)) = endpoints atts"
proof -
  have "fst ` set (endpoint_notes a) = {a_source a, a_target a}" for a
    by (simp add: endpoint_notes_def)
  then show ?thesis by (auto simp: endpoints_def image_UN)
qed

lemma merged_metas:
  "sort_key fst (fold (\<lambda>(nid, meta). note_endpoint nid meta) (concat (map endpoint_notes atts)) []) =
   map (\<lambda>nid. (nid, final_meta atts nid)) (sorted_list_of_set (endpoints atts))"
proof -
  have fin: "finite (endpoints atts)" by (simp add: endpoints_def)
  let ?notes = "concat (map endpoint_notes atts)"
  let ?d = "fold (\<lambda>(nid, meta). note_endpoint nid meta) ?notes []"
  have "the (map_of ?d nid) = final_meta atts nid" if "nid \<in> endpoints atts" for nid
  proof -
    from that have "nid \<in> fst ` set ?notes" by (simp only: endpoint_notes_keys)
    then have "filter (\<lambda>n. fst n = nid) ?notes \<noteq> []" by (simp only: filter_empty_conv) blast
    then show ?thesis by (simp add: notes_fold_get final_meta_def notes_on_def Let_def del: filter_concat)
  qed
  with fin show ?thesis
    by (simp only: sorted_dict_items [OF notes_fold_wf] notes_fold_keys endpoint_notes_keys)
      (simp cong: map_cong)
qed

lemma refine_fold_resolved: "nm_resolved m \<Longrightarrow> fold refine_meta us m = m"
  by (induction us) (auto simp: refine_meta_def split: option.splits)

text \<open>The first note that resolves a node decides what is recorded of it.\<close>

lemma refine_fold:
  assumes "\<not> nm_resolved m"
  shows "fold refine_meta us m =
    (case List.find (\<lambda>u. u \<noteq> None \<and> mu_resolved (the u)) us of
       None \<Rightarrow> m | Some u \<Rightarrow> apply_meta (the u) m)"
  using assms
proof (induction us)
  case (Cons u us)
  have step: "refine_meta u m = (if u \<noteq> None \<and> mu_resolved (the u) then apply_meta (the u) m else m)"
    using Cons.prems by (cases u) (simp_all add: refine_meta_def)
  have "nm_resolved (apply_meta v m) = mu_resolved v" for v by (simp add: apply_meta_def)
  then show ?case
    using Cons by (cases "u \<noteq> None \<and> mu_resolved (the u)") (auto simp: step refine_fold_resolved)
qed simp

section \<open>The merge in closed form\<close>

lemma merge_attestations_eq:
  "merge_attestations sha atts =
     (case List.find (\<lambda>a. att_problem a \<noteq> None) atts of
        Some a \<Rightarrow> Inl (the (att_problem a))
      | None \<Rightarrow> res_bind
          (res_map node_of (map (\<lambda>nid. (nid, final_meta atts nid)) (sorted_list_of_set (endpoints atts))))
          (\<lambda>nodes. Inr (nodes, map (\<lambda>eid. edge_of (filter (\<lambda>a. att_id sha a = eid) atts) eid)
             (sorted_list_of_set (att_id sha ` set atts)))))"
  by (simp only: merge_attestations_def merge_fold)
    (simp add: merged_metas merged_edges split: option.splits)

lemma merge_attestations_Inr:
  assumes "merge_attestations sha atts = Inr (nodes, edges)"
  shows "\<forall>a\<in>set atts. att_problem a = None"
    and "res_map node_of (map (\<lambda>nid. (nid, final_meta atts nid)) (sorted_list_of_set (endpoints atts))) = Inr nodes"
    and "edges = map (\<lambda>eid. edge_of (filter (\<lambda>a. att_id sha a = eid) atts) eid)
      (sorted_list_of_set (att_id sha ` set atts))"
  using assms by (auto simp: merge_attestations_eq res_bind_Inr_iff find_None_iff split: option.splits)

section \<open>What the merge promises\<close>

definition edge_meets_claims :: "(string \<Rightarrow> string) \<Rightarrow> attestation list \<Rightarrow> edge \<Rightarrow> bool" where
  "edge_meets_claims sha atts e \<longleftrightarrow>
     (let own = filter (\<lambda>a. att_id sha a = e_id e) atts
      in own \<noteq> [] \<and> set (e_evidence e) = a_evidence ` set own \<and> distinct (e_evidence e)
         \<and> e_trust e \<in> ev_tier ` set (e_evidence e)
         \<and> (\<forall>x\<in>set (e_evidence e). tier_index (e_trust e) \<le> tier_index (ev_tier x))
         \<and> distinct (map m_to (e_columns e))
         \<and> set (map m_to (e_columns e)) = m_to ` (\<Union>a\<in>set own. set (a_columns a))
         \<and> (\<forall>m\<in>set (e_columns e). set (m_from m) = mapped_from (concat (map a_columns own)) (m_to m)))"

lemma mapped_from_finite [simp]: "finite (mapped_from ms t)"
  by (simp add: mapped_from_def)

lemma hd_sort_key_least:
  assumes "xs \<noteq> []"
  shows "hd (sort_key f xs) \<in> set xs" and "x \<in> set xs \<Longrightarrow> f (hd (sort_key f xs)) \<le> f x"
proof -
  obtain y ys where ys: "sort_key f xs = y # ys"
    using assms by (metis length_0_conv length_sort list.exhaust)
  have "set (y # ys) = set xs" by (metis ys set_sort)
  moreover have "sorted (map f (y # ys))" by (metis ys sorted_sort_key)
  ultimately show "hd (sort_key f xs) \<in> set xs" and "x \<in> set xs \<Longrightarrow> f (hd (sort_key f xs)) \<le> f x"
    by (auto simp: ys)
qed

lemma edge_of_meets_claims:
  assumes "eid \<in> att_id sha ` set atts"
  shows "edge_meets_claims sha atts (edge_of (filter (\<lambda>a. att_id sha a = eid) atts) eid)"
proof -
  let ?own = "filter (\<lambda>a. att_id sha a = eid) atts"
  let ?ev = "sort_key evidence_key (remdups (map a_evidence ?own))"
  have ne: "?own \<noteq> []" using assms by (auto simp: filter_empty_conv)
  then have ev: "remdups (map a_evidence ?own) \<noteq> []" by simp
  have hd_in: "hd ?ev \<in> a_evidence ` set ?own"
    using hd_sort_key_least(1) [OF ev, of evidence_key] by auto
  have least: "tier_index (ev_tier (hd ?ev)) \<le> tier_index (ev_tier x)" if "x \<in> a_evidence ` set ?own" for x
    using hd_sort_key_least(2) [OF ev, of x evidence_key] that
    by (auto simp: evidence_key_def less_eq_prod_def)
  have cols: "map m_to (e_columns (edge_of ?own eid)) = sorted_list_of_set (m_to ` (\<Union>a\<in>set ?own. set (a_columns a)))"
    by (simp add: edge_of_def Let_def comp_def)
  show ?thesis
    unfolding edge_meets_claims_def Let_def
  proof (intro conjI)
    show "filter (\<lambda>a. att_id sha a = e_id (edge_of ?own eid)) atts \<noteq> []"
      using ne by (simp add: edge_of_def Let_def)
  qed (use hd_in least cols in \<open>auto simp: edge_of_def Let_def comp_def\<close>)
qed

text \<open>
  C27. The merged edges are one per claimed identity, sorted by edge id. Each carries exactly the
  evidence of its own attestations, without repetition; its trust is a tier it has evidence of and no
  evidence has a stronger one; its column mappings are, per target column, the union of what
  its attestations map: nothing is lost and nothing is made up.
\<close>

theorem merge_edges_exact:
  assumes "merge_attestations sha atts = Inr (nodes, edges)"
  shows "map e_id edges = sorted_list_of_set (att_id sha ` set atts)
    \<and> list_all (edge_meets_claims sha atts) edges"
proof -
  have "e_id (edge_of own eid) = eid" for own eid by (simp add: edge_of_def Let_def)
  then show ?thesis
    unfolding merge_attestations_Inr(3) [OF assms]
    by (auto simp: comp_def list_all_iff intro!: edge_of_meets_claims)
qed

definition ex_att :: attestation where
  "ex_att = \<lparr>a_source = ''w.s.a'', a_target = ''w.s.v'', a_operation = ''join'',
     a_evidence = \<lparr>ev_tier = ''sql-parse'', ev_ref = ''r1''\<rparr>,
     a_columns = [\<lparr>m_to = ''c'', m_from = [''y'', ''x'']\<rparr>],
     a_source_meta = None,
     a_target_meta = Some \<lparr>mu_resolved = True, mu_kind = Some ''view'', mu_schema = Some (Some ''s''),
       mu_name = Some (Some ''v'')\<rparr>\<rparr>"

definition ex_att2 :: attestation where
  "ex_att2 = ex_att\<lparr>a_evidence := \<lparr>ev_tier = ''pipeline-tool'', ev_ref = ''gateway:7''\<rparr>,
     a_columns := [\<lparr>m_to = ''c'', m_from = [''z'']\<rparr>], a_target_meta := None\<rparr>"

definition ex_att3 :: attestation where
  "ex_att3 = ex_att\<lparr>a_source := ''w.s.v'', a_target := ''bi.r'', a_operation := ''ingest'', a_columns := [],
     a_target_meta := None\<rparr>"

definition ex_nodes :: "node list" where
  "ex_nodes = [\<lparr>n_id = ''bi.r'', n_kind = ''external'', n_resolved = False, n_doc = None\<rparr>,
     \<lparr>n_id = ''w.s.a'', n_kind = ''external'', n_resolved = False, n_doc = None\<rparr>,
     \<lparr>n_id = ''w.s.v'', n_kind = ''view'', n_resolved = True, n_doc = Some ''systems/w/s/v.schema.md''\<rparr>]"

definition ex_edges :: "edge list" where
  "ex_edges =
    [\<lparr>e_id = edge_id id ''w.s.a'' ''w.s.v'' ''join'', e_source = ''w.s.a'', e_target = ''w.s.v'',
      e_operation = ''join'',
      e_evidence = [\<lparr>ev_tier = ''pipeline-tool'', ev_ref = ''gateway:7''\<rparr>, \<lparr>ev_tier = ''sql-parse'', ev_ref = ''r1''\<rparr>],
      e_trust = ''pipeline-tool'', e_columns = [\<lparr>m_to = ''c'', m_from = [''x'', ''y'', ''z'']\<rparr>]\<rparr>,
     \<lparr>e_id = edge_id id ''w.s.v'' ''bi.r'' ''ingest'', e_source = ''w.s.v'', e_target = ''bi.r'',
      e_operation = ''ingest'', e_evidence = [\<lparr>ev_tier = ''sql-parse'', ev_ref = ''r1''\<rparr>],
      e_trust = ''sql-parse'', e_columns = []\<rparr>]"

lemma ex_merge: "merge_attestations id [ex_att, ex_att3, ex_att2] = Inr (ex_nodes, ex_edges)"
  by code_simp

theorem merge_edges_exact_witness:
  "map e_id ex_edges = sorted_list_of_set (att_id id ` set [ex_att, ex_att3, ex_att2])
    \<and> list_all (edge_meets_claims id [ex_att, ex_att3, ex_att2]) ex_edges"
  by (rule merge_edges_exact [OF ex_merge])

subsection \<open>Nodes and errors\<close>

definition resolves :: "string \<Rightarrow> attestation \<Rightarrow> bool" where
  "resolves nid a \<longleftrightarrow> (\<exists>u. (nid, Some u) \<in> set (endpoint_notes a) \<and> mu_resolved u)"

lemma set_notes_on: "set (notes_on atts nid) = {u. \<exists>a\<in>set atts. (nid, u) \<in> set (endpoint_notes a)}"
  by (force simp: notes_on_def)

lemma final_meta_resolved: "nm_resolved (final_meta atts nid) \<longleftrightarrow> (\<exists>a\<in>set atts. resolves nid a)"
proof -
  have "nm_resolved (final_meta atts nid) \<longleftrightarrow> (\<exists>u\<in>set (notes_on atts nid). u \<noteq> None \<and> mu_resolved (the u))"
    unfolding final_meta_def
    by (subst refine_fold)
      (auto simp: unresolved_meta_def apply_meta_def find_None_iff find_Some_iff split: option.splits dest: nth_mem)
  also have "\<dots> \<longleftrightarrow> (\<exists>a\<in>set atts. resolves nid a)"
    unfolding set_notes_on resolves_def by fastforce
  finally show ?thesis .
qed

lemma node_of_Inr:
  assumes "node_of (nid, meta) = Inr n"
  shows "n_id n = nid" and "n_resolved n = nm_resolved meta" and "n_kind n = nm_kind meta"
  using assms by (auto simp: node_of_def Let_def split: option.splits if_splits)

lemma res_map_node_of:
  assumes "res_map node_of (map (\<lambda>nid. (nid, f nid)) ids) = Inr nodes"
  shows "map n_id nodes = ids" and "n \<in> set nodes \<Longrightarrow> n_resolved n = nm_resolved (f (n_id n))"
  using assms by (induction ids arbitrary: nodes) (auto simp: res_bind_Inr_iff node_of_Inr)

text \<open>
  The nodes of a merged graph are exactly the endpoints of the attestations, once each and
  sorted by id; a node is resolved exactly when some attestation resolves it; and the graph is closed: both
  endpoints of every edge are nodes.
\<close>

theorem merge_nodes_exact:
  assumes "merge_attestations sha atts = Inr (nodes, edges)"
  shows "map n_id nodes = sorted_list_of_set (endpoints atts)
    \<and> list_all (\<lambda>n. n_resolved n = list_ex (resolves (n_id n)) atts) nodes
    \<and> list_all (\<lambda>e. e_source e \<in> n_id ` set nodes \<and> e_target e \<in> n_id ` set nodes) edges"
proof -
  note nodes = res_map_node_of [OF merge_attestations_Inr(2) [OF assms]]
  have ids: "n_id ` set nodes = endpoints atts"
    by (metis nodes(1) set_map endpoints_def finite_Un finite_imageI List.finite_set set_sorted_list_of_set)
  have "e_source e \<in> endpoints atts \<and> e_target e \<in> endpoints atts" if e: "e \<in> set edges" for e
  proof -
    from e obtain eid where "eid \<in> att_id sha ` set atts"
      and eq: "e = edge_of (filter (\<lambda>a. att_id sha a = eid) atts) eid"
      unfolding merge_attestations_Inr(3) [OF assms] by auto
    then have "hd (filter (\<lambda>a. att_id sha a = eid) atts) \<in> set (filter (\<lambda>a. att_id sha a = eid) atts)"
      by (intro hd_in_set) (auto simp: filter_empty_conv)
    with eq show ?thesis by (auto simp: edge_of_def Let_def endpoints_def)
  qed
  with nodes ids show ?thesis
    by (auto simp: list_all_iff list_ex_iff final_meta_resolved)
qed

theorem merge_nodes_exact_witness:
  "map n_id ex_nodes = sorted_list_of_set (endpoints [ex_att, ex_att3, ex_att2])
    \<and> list_all (\<lambda>n. n_resolved n = list_ex (resolves (n_id n)) [ex_att, ex_att3, ex_att2]) ex_nodes
    \<and> list_all (\<lambda>e. e_source e \<in> n_id ` set ex_nodes \<and> e_target e \<in> n_id ` set ex_nodes) ex_edges"
  by (rule merge_nodes_exact [OF ex_merge])

text \<open>
  An attestation outside the operation taxonomy or the tier set is never merged: the merge
  raises the error of the first such attestation, whatever the others claim.
\<close>

theorem merge_rejects_unknown:
  assumes "list_all (\<lambda>a. a_operation a \<in> set OPERATIONS \<and> ev_tier (a_evidence a) \<in> set TIER_ORDER) before"
    and "a_operation a \<notin> set OPERATIONS \<or> ev_tier (a_evidence a) \<notin> set TIER_ORDER"
  shows "merge_attestations sha (before @ a # after) =
    Inl (if a_operation a \<notin> set OPERATIONS then BadOperation (a_operation a) (a_source a) (a_target a)
         else BadTier (ev_tier (a_evidence a)))"
proof -
  have "\<not> (\<exists>b\<in>set before. att_problem b \<noteq> None)"
    using assms(1) by (auto simp: list_all_iff att_problem_def)
  then have "List.find (\<lambda>a. att_problem a \<noteq> None) (before @ a # after) = Some a"
    using assms(2) by (induction before) (auto simp: att_problem_def)
  then show ?thesis
    unfolding merge_attestations_eq using assms(2) by (simp add: att_problem_def)
qed

theorem merge_rejects_unknown_witness:
  "merge_attestations id ([ex_att] @ ex_att2\<lparr>a_operation := ''guess''\<rparr> # [ex_att3]) =
    Inl (if a_operation (ex_att2\<lparr>a_operation := ''guess''\<rparr>) \<notin> set OPERATIONS
         then BadOperation (a_operation (ex_att2\<lparr>a_operation := ''guess''\<rparr>))
           (a_source (ex_att2\<lparr>a_operation := ''guess''\<rparr>)) (a_target (ex_att2\<lparr>a_operation := ''guess''\<rparr>))
         else BadTier (ev_tier (a_evidence (ex_att2\<lparr>a_operation := ''guess''\<rparr>))))"
  by (rule merge_rejects_unknown)
    (simp_all add: ex_att_def ex_att2_def OPERATIONS_def TIER_ORDER_def)

subsection \<open>Order independence\<close>

definition claim :: "attestation \<Rightarrow> string \<times> string \<times> string" where
  "claim a = (a_source a, a_target a, a_operation a)"

definition newline_free :: "attestation \<Rightarrow> bool" where
  "newline_free a \<longleftrightarrow> CHR 0x0A \<notin> set (a_source a) \<and> CHR 0x0A \<notin> set (a_target a)"

definition claim_payload :: "attestation \<Rightarrow> string" where
  "claim_payload a = a_source a @ [CHR 0x0A] @ a_target a @ [CHR 0x0A] @ a_operation a"

definition metas_agree :: "attestation list \<Rightarrow> bool" where
  "metas_agree atts \<longleftrightarrow>
     (let resolving = filter (\<lambda>n. snd n \<noteq> None \<and> mu_resolved (the (snd n))) (concat (map endpoint_notes atts))
      in \<forall>m\<in>set resolving. \<forall>n\<in>set resolving. fst m = fst n \<longrightarrow> m = n)"

lemma claim_payload_inj:
  assumes "newline_free a" "newline_free b" "claim_payload a = claim_payload b"
  shows "claim a = claim b"
proof -
  have split: "partition_at (CHR 0x0A) (claim_payload c) =
      (a_source c, True, a_target c @ [CHR 0x0A] @ a_operation c)"
    and rest: "partition_at (CHR 0x0A) (a_target c @ [CHR 0x0A] @ a_operation c) = (a_target c, True, a_operation c)"
    if "newline_free c" for c
    using that by (simp_all add: newline_free_def claim_payload_def partition_at_append)
  have "a_source a = a_source b" and t: "a_target a @ [CHR 0x0A] @ a_operation a = a_target b @ [CHR 0x0A] @ a_operation b"
    using split [OF assms(1)] split [OF assms(2)] assms(3) by simp_all
  moreover have "(a_target a, True, a_operation a) = (a_target b, True, a_operation b)"
    by (simp only: t flip: rest [OF assms(1)] rest [OF assms(2)])
  ultimately show ?thesis by (simp add: claim_def)
qed

lemma att_id_claim:
  assumes "list_all newline_free atts" and "inj_on sha (claim_payload ` set atts)"
    and "a \<in> set atts" "b \<in> set atts" "att_id sha a = att_id sha b"
  shows "claim a = claim b"
proof -
  have "sha (claim_payload a) = sha (claim_payload b)"
    using assms(5) by (simp add: att_id_def edge_id_def claim_payload_def)
  then have "claim_payload a = claim_payload b"
    using assms(2,3,4) by (auto dest: inj_onD)
  with assms show ?thesis by (auto simp: list_all_iff intro: claim_payload_inj)
qed

lemma tier_index_inj:
  assumes "s \<in> set TIER_ORDER" "t \<in> set TIER_ORDER" "tier_index s = tier_index t"
  shows "s = t"
  using assms by (auto simp: TIER_ORDER_def tier_index_def)

lemma evidence_key_inj: "inj_on evidence_key {e. ev_tier e \<in> set TIER_ORDER}"
  by (auto simp: inj_on_def evidence_key_def dest: tier_index_inj)

lemma edge_of_cong:
  assumes set: "set own = set own'" and "own \<noteq> []"
    and "\<And>a b. a \<in> set own \<Longrightarrow> b \<in> set own \<Longrightarrow> claim a = claim b"
    and "\<And>a. a \<in> set own \<Longrightarrow> ev_tier (a_evidence a) \<in> set TIER_ORDER"
  shows "edge_of own eid = edge_of own' eid"
proof -
  have "own' \<noteq> []" using assms(1,2) by auto
  then have "hd own \<in> set own" "hd own' \<in> set own" using assms(2) by (metis set hd_in_set)+
  then have "claim (hd own) = claim (hd own')" by (rule assms(3))
  moreover have "sort_key evidence_key (remdups (map a_evidence own)) = sort_key evidence_key (remdups (map a_evidence own'))"
  proof (rule sort_key_perm)
    show "mset (remdups (map a_evidence own)) = mset (remdups (map a_evidence own'))"
      by (simp only: mset_set_set [symmetric] distinct_remdups set_remdups set_map set)
    show "inj_on evidence_key (set (remdups (map a_evidence own)))"
      by (rule inj_on_subset [OF evidence_key_inj]) (use assms(4) in auto)
  qed
  moreover have "mapped_from (concat (map a_columns own)) = mapped_from (concat (map a_columns own'))"
    by (simp add: mapped_from_def fun_eq_iff set)
  ultimately show ?thesis by (simp add: edge_of_def Let_def claim_def set)
qed

lemma find_only:
  assumes "x \<in> set xs" "P x" "\<forall>y\<in>set xs. P y \<longrightarrow> y = x"
  shows "List.find P xs = Some x"
  using assms
proof (induction xs)
  case (Cons a xs)
  show ?case
  proof (cases "P a")
    case True
    with Cons.prems(3) have "a = x" by (meson list.set_intros(1))
    with True show ?thesis by simp
  next
    case False
    with Cons.prems(1,2) have "x \<in> set xs" by auto
    moreover have "\<forall>y\<in>set xs. P y \<longrightarrow> y = x" using Cons.prems(3) by (meson list.set_intros(2))
    ultimately have "List.find P xs = Some x" by (intro Cons.IH Cons.prems(2))
    with False show ?thesis by simp
  qed
qed simp

lemma find_same:
  assumes "set xs = set ys" and "\<And>x y. x \<in> set xs \<Longrightarrow> y \<in> set xs \<Longrightarrow> P x \<Longrightarrow> P y \<Longrightarrow> x = y"
  shows "List.find P xs = List.find P ys"
proof (cases "\<exists>x\<in>set xs. P x")
  case True
  then obtain x where "x \<in> set xs" "P x" by blast
  then have "\<forall>y\<in>set xs. P y \<longrightarrow> y = x" using assms(2) by blast
  with \<open>x \<in> set xs\<close> \<open>P x\<close> have "List.find P xs = Some x" "List.find P ys = Some x"
    using assms(1) by (metis find_only)+
  then show ?thesis by simp
next
  case False
  then have "List.find P zs = None" if "set zs = set xs" for zs
    using that by (auto simp: find_None_iff)
  then show ?thesis using assms(1) by metis
qed

lemma final_meta_cong:
  assumes "set atts = set atts'" and "metas_agree atts"
  shows "final_meta atts nid = final_meta atts' nid"
proof -
  let ?P = "\<lambda>u. u \<noteq> None \<and> mu_resolved (the u)"
  have same: "set (notes_on atts nid) = set (notes_on atts' nid)" by (simp add: set_notes_on assms(1))
  have agree: "u = v" if "u \<in> set (notes_on atts nid)" "v \<in> set (notes_on atts nid)" "?P u" "?P v" for u v
  proof -
    have "(nid, w) \<in> set (filter (\<lambda>n. snd n \<noteq> None \<and> mu_resolved (the (snd n))) (concat (map endpoint_notes atts)))"
      if "w \<in> set (notes_on atts nid)" "?P w" for w
      using that by (auto simp: set_notes_on)
    from this [of u] this [of v] that have "fst (nid, u) = fst (nid, v) \<longrightarrow> (nid, u) = (nid, v)"
      using assms(2) unfolding metas_agree_def Let_def by blast
    then show ?thesis by simp
  qed
  have "List.find ?P (notes_on atts nid) = List.find ?P (notes_on atts' nid)"
    by (rule find_same [OF same]) (rule agree)
  then show ?thesis by (simp add: final_meta_def refine_fold unresolved_meta_def)
qed

text \<open>
  C32. The merge does not depend on the order in which the producers deliver: for attestations with
  newline-free names that agree on what they resolve, and a hash without a collision among
  their claims, a successful merge of one arrangement is the merge of every rearrangement and of every
  repetition, nodes and edges alike.
\<close>

theorem merge_order_independent:
  assumes "set atts = set atts'" and "merge_attestations sha atts = Inr r"
    and "list_all newline_free atts" and "inj_on sha (claim_payload ` set atts)" and "metas_agree atts"
  shows "merge_attestations sha atts' = Inr r"
proof -
  obtain nodes edges where r: "r = (nodes, edges)" by (cases r)
  note merged = merge_attestations_Inr [OF assms(2) [unfolded r]]
  have own: "edge_of (filter (\<lambda>a. att_id sha a = eid) atts) eid = edge_of (filter (\<lambda>a. att_id sha a = eid) atts') eid"
    if "eid \<in> att_id sha ` set atts" for eid
  proof (rule edge_of_cong)
    show "filter (\<lambda>a. att_id sha a = eid) atts \<noteq> []" using that by (auto simp: filter_empty_conv)
    show "ev_tier (a_evidence a) \<in> set TIER_ORDER" if "a \<in> set (filter (\<lambda>a. att_id sha a = eid) atts)" for a
      using that merged(1) by (auto simp: att_problem_def split: if_splits)
    show "claim a = claim b" if "a \<in> set (filter (\<lambda>a. att_id sha a = eid) atts)"
      "b \<in> set (filter (\<lambda>a. att_id sha a = eid) atts)" for a b
      by (rule att_id_claim [OF assms(3,4)]) (use that in auto)
  qed (simp add: assms(1))
  have "endpoints atts' = endpoints atts" by (simp add: endpoints_def assms(1))
  moreover have "final_meta atts' = final_meta atts"
    using final_meta_cong [OF assms(1,5)] by (simp add: fun_eq_iff)
  moreover have "List.find (\<lambda>a. att_problem a \<noteq> None) atts' = None"
    using merged(1) assms(1) by (simp add: find_None_iff)
  ultimately have "merge_attestations sha atts' = Inr (nodes,
      map (\<lambda>eid. edge_of (filter (\<lambda>a. att_id sha a = eid) atts') eid) (sorted_list_of_set (att_id sha ` set atts')))"
    by (simp add: merge_attestations_eq merged(2))
  also have "map (\<lambda>eid. edge_of (filter (\<lambda>a. att_id sha a = eid) atts') eid) (sorted_list_of_set (att_id sha ` set atts'))
      = edges"
    unfolding merged(3) assms(1) [symmetric] by (intro map_cong refl own [symmetric]) simp
  finally show ?thesis by (simp add: r)
qed

theorem merge_order_independent_witness:
  "merge_attestations id [ex_att2, ex_att, ex_att3, ex_att] = Inr (ex_nodes, ex_edges)"
proof (rule merge_order_independent [OF _ ex_merge])
  show "list_all newline_free [ex_att, ex_att3, ex_att2]"
    by (simp add: newline_free_def ex_att_def ex_att2_def ex_att3_def)
  show "metas_agree [ex_att, ex_att3, ex_att2]"
    by (simp add: metas_agree_def endpoint_notes_def ex_att_def ex_att2_def ex_att3_def)
qed auto

section \<open>The graph document\<close>

lemma graph_inputs_distinct:
  assumes "distinct (map s_system snapshots)"
  shows "dict_get (dict_of (map (\<lambda>s. (s_system s, f s)) (sort_key s_system snapshots))) sys =
    map_of (map (\<lambda>s. (s_system s, f s)) snapshots) sys"
proof -
  have d: "distinct (map fst (map (\<lambda>s. (s_system s, f s)) (sort_key s_system snapshots)))"
    using assms by (simp add: comp_def distinct_map)
  have "map_of (map (\<lambda>s. (s_system s, f s)) (sort_key s_system snapshots)) =
      map_of (map (\<lambda>s. (s_system s, f s)) snapshots)"
    by (rule map_of_inject_set [THEN iffD2]) (use assms in \<open>simp_all add: comp_def distinct_map\<close>)
  then show ?thesis by (simp only: dict_of_get_distinct [OF d])
qed

text \<open>
  A graph that is built pins every input snapshot by the hash of its canonical body and no other
  system, is stamped with the latest capture time of its inputs, and holds exactly the merge of the
  attestations of the snapshots in the order of their systems followed by the gateway's. Building fails on a
  repeated system or on no snapshot at all.
\<close>

theorem build_graph_pins_inputs:
  assumes "build_graph sha attest snapshots gateway = Inr g"
  shows "distinct (map s_system snapshots) \<and> snapshots \<noteq> []
    \<and> dict_get (g_snapshot_ref g) = map_of (map (\<lambda>s. (s_system s, snapshot_body_hash sha s)) snapshots)
    \<and> g_generated_at g \<in> s_captured_at ` set snapshots
    \<and> list_all (\<lambda>s. s_captured_at s \<le> g_generated_at g) snapshots
    \<and> merge_attestations sha (concat (map attest (sort_key s_system snapshots)) @ gateway) = Inr (g_nodes g, g_edges g)"
proof -
  from assms have d: "distinct (map s_system snapshots)" and ne: "snapshots \<noteq> []"
    and g: "g_generated_at g = Max (set (map s_captured_at snapshots))"
      "g_snapshot_ref g = dict_of (map (\<lambda>s. (s_system s, snapshot_body_hash sha s)) (sort_key s_system snapshots))"
      "merge_attestations sha (concat (map attest (sort_key s_system snapshots)) @ gateway) = Inr (g_nodes g, g_edges g)"
    by (auto simp: build_graph_def Let_def res_bind_Inr_iff split: if_splits)
  have "dict_get (g_snapshot_ref g) = map_of (map (\<lambda>s. (s_system s, snapshot_body_hash sha s)) snapshots)"
    unfolding g(2) by (rule ext) (rule graph_inputs_distinct [OF d])
  moreover have "g_generated_at g \<in> s_captured_at ` set snapshots"
    unfolding g(1) set_map by (rule Max_in) (use ne in auto)
  moreover have "s_captured_at s \<le> g_generated_at g" if "s \<in> set snapshots" for s
    unfolding g(1) set_map by (rule Max_ge) (use that in auto)
  ultimately show ?thesis using d ne g(3) by (simp add: list_all_iff)
qed

definition ex_graph :: graph where
  "ex_graph = \<lparr>g_generated_at = s_captured_at (ex_snapshot ''2026-01-01'' []),
     g_snapshot_ref = [(s_system (ex_snapshot ''2026-01-01'' []), snapshot_body_hash id (ex_snapshot ''2026-01-01'' []))], g_gateway = 2,
     g_nodes = ex_nodes, g_edges = ex_edges\<rparr>"

lemma ex_build: "build_graph id (\<lambda>s. [ex_att]) [ex_snapshot ''2026-01-01'' []] [ex_att3, ex_att2] = Inr ex_graph"
  by (simp add: build_graph_def ex_merge ex_graph_def dict_of_def)

theorem build_graph_pins_inputs_witness:
  "distinct (map s_system [ex_snapshot ''2026-01-01'' []]) \<and> [ex_snapshot ''2026-01-01'' []] \<noteq> []
    \<and> dict_get (g_snapshot_ref ex_graph) = map_of (map (\<lambda>s. (s_system s, snapshot_body_hash id s)) [ex_snapshot ''2026-01-01'' []])
    \<and> g_generated_at ex_graph \<in> s_captured_at ` set [ex_snapshot ''2026-01-01'' []]
    \<and> list_all (\<lambda>s. s_captured_at s \<le> g_generated_at ex_graph) [ex_snapshot ''2026-01-01'' []]
    \<and> merge_attestations id (concat (map (\<lambda>s. [ex_att]) (sort_key s_system [ex_snapshot ''2026-01-01'' []])) @ [ex_att3, ex_att2])
        = Inr (g_nodes ex_graph, g_edges ex_graph)"
  by (rule build_graph_pins_inputs [OF ex_build])

end
