(* ===== verification/Search.thy ===== *)
theory Search
  imports Prelude
begin

text \<open>
  Breadth-first search as an interface.

  The sources hold two breadth-first loops over the lineage graph: \<open>_bfs\<close> of \<open>src/lineage/walk.py\<close> and
  \<open>contamination_walk\<close> of \<open>src/lineage/scan.py\<close>. They keep different data, but both pop a node
  from a queue, append its successors that have no level yet and give them the next level. The
  locale \<open>bfs_run\<close> states that contract of one loop iteration; its lemmas show once
  that the levels are the hop distances, and that the loop expands exactly the nodes in range. The
  predicate \<open>go\<close> says which levels are expanded (the depth bound of the walk).
\<close>

definition hop_distance :: "('n \<Rightarrow> 'n \<Rightarrow> bool) \<Rightarrow> 'n \<Rightarrow> 'n \<Rightarrow> nat \<Rightarrow> bool" where
  "hop_distance R root v d \<longleftrightarrow> (R ^^ d) root v \<and> (\<forall>k<d. \<not> (R ^^ k) root v)"

lemma hop_distance_unique: "hop_distance R root v d \<Longrightarrow> hop_distance R root v e \<Longrightarrow> d = e"
  unfolding hop_distance_def by (metis linorder_neqE_nat)

lemma hop_distance_ex: "(R ^^ k) root v \<Longrightarrow> \<exists>d\<le>k. hop_distance R root v d"
  unfolding hop_distance_def
  by (intro exI [of _ "LEAST d. (R ^^ d) root v"]) (auto intro: LeastI Least_le dest: not_less_Least)

locale bfs_run =
  fixes R :: "'n \<Rightarrow> 'n \<Rightarrow> bool"
    and go :: "nat \<Rightarrow> bool"
    and marks :: "'n \<Rightarrow> 'm set"
    and step :: "'s \<Rightarrow> 's"
    and ok :: "'s \<Rightarrow> bool"
    and queue :: "'s \<Rightarrow> 'n list"
    and level :: "'s \<Rightarrow> 'n \<Rightarrow> nat option"
    and marked :: "'s \<Rightarrow> 'm set"
  assumes go_down: "go d \<Longrightarrow> e \<le> d \<Longrightarrow> go e"
    and step_ok: "ok s \<Longrightarrow> queue s \<noteq> [] \<Longrightarrow> ok (step s)"
    and step_expand: "ok s \<Longrightarrow> queue s = v # q \<Longrightarrow> level s v = Some d \<Longrightarrow> go d \<Longrightarrow>
      \<exists>new. queue (step s) = q @ new \<and> set new = {w. R v w \<and> level s w = None}
        \<and> (\<forall>w. level (step s) w = (if w \<in> set new then Some (Suc d) else level s w))"
    and step_skip: "ok s \<Longrightarrow> queue s = v # q \<Longrightarrow> level s v = Some d \<Longrightarrow> \<not> go d \<Longrightarrow>
      queue (step s) = q \<and> level (step s) = level s"
    and step_marked: "ok s \<Longrightarrow> queue s = v # q \<Longrightarrow> level s v = Some d \<Longrightarrow>
      marked (step s) = marked s \<union> (if go d then marks v else {})"
begin

definition in_range :: "nat \<Rightarrow> bool" where
  "in_range d \<longleftrightarrow> d = 0 \<or> go (d - 1)"

text \<open>The invariant of the loop: levels are lengths of paths in range, the queue is sorted by
  level and spans at most two levels, and what has left the queue has been expanded.\<close>

definition inv :: "'n \<Rightarrow> 'm set \<Rightarrow> 's \<Rightarrow> bool" where
  "inv root m s \<longleftrightarrow> ok s \<and> level s root = Some 0
     \<and> (\<forall>v d. level s v = Some d \<longrightarrow> (R ^^ d) root v \<and> in_range d)
     \<and> (\<forall>v\<in>set (queue s). level s v \<noteq> None)
     \<and> sorted (map (\<lambda>v. the (level s v)) (queue s))
     \<and> (\<forall>u q v d. queue s = u # q \<longrightarrow> level s v = Some d \<longrightarrow> d \<le> Suc (the (level s u)))
     \<and> (\<forall>v d w. level s v = Some d \<longrightarrow> v \<notin> set (queue s) \<longrightarrow> go d \<longrightarrow> R v w \<longrightarrow> (\<exists>e\<le>Suc d. level s w = Some e))
     \<and> marked s \<subseteq> m \<union> \<Union> {marks v |v d. level s v = Some d \<and> go d}
     \<and> (m \<union> \<Union> {marks v |v d. level s v = Some d \<and> v \<notin> set (queue s) \<and> go d}) \<subseteq> marked s"

lemma invI_start:
  assumes "ok s" and "queue s = [root]" and "\<And>v. level s v = (if v = root then Some 0 else None)"
    and "marked s = m"
  shows "inv root m s"
  using assms by (auto simp: inv_def in_range_def)

lemma invD:
  assumes "inv root m s"
  shows inv_ok: "ok s" and inv_root: "level s root = Some 0"
    and inv_path: "level s v = Some d \<Longrightarrow> (R ^^ d) root v"
    and inv_range: "level s v = Some d \<Longrightarrow> in_range d"
    and inv_queue: "v \<in> set (queue s) \<Longrightarrow> level s v \<noteq> None"
    and inv_sorted: "sorted (map (\<lambda>v. the (level s v)) (queue s))"
    and inv_head: "queue s = u # q \<Longrightarrow> level s v = Some d \<Longrightarrow> d \<le> Suc (the (level s u))"
    and inv_closed: "level s v = Some d \<Longrightarrow> v \<notin> set (queue s) \<Longrightarrow> go d \<Longrightarrow> R v w \<Longrightarrow> \<exists>e\<le>Suc d. level s w = Some e"
    and inv_marked: "marked s \<subseteq> m \<union> \<Union> {marks v |v d. level s v = Some d \<and> go d}"
    and inv_done: "m \<union> \<Union> {marks v |v d. level s v = Some d \<and> v \<notin> set (queue s) \<and> go d} \<subseteq> marked s"
proof -
  have *: "ok s" "level s root = Some 0" "\<forall>v d. level s v = Some d \<longrightarrow> (R ^^ d) root v \<and> in_range d"
    "\<forall>v\<in>set (queue s). level s v \<noteq> None" "sorted (map (\<lambda>v. the (level s v)) (queue s))"
    "\<forall>u q v d. queue s = u # q \<longrightarrow> level s v = Some d \<longrightarrow> d \<le> Suc (the (level s u))"
    "\<forall>v d w. level s v = Some d \<longrightarrow> v \<notin> set (queue s) \<longrightarrow> go d \<longrightarrow> R v w \<longrightarrow> (\<exists>e\<le>Suc d. level s w = Some e)"
    "marked s \<subseteq> m \<union> \<Union> {marks v |v d. level s v = Some d \<and> go d}"
    "m \<union> \<Union> {marks v |v d. level s v = Some d \<and> v \<notin> set (queue s) \<and> go d} \<subseteq> marked s"
    using assms unfolding inv_def by - (elim conjE, assumption)+
  show "ok s" "level s root = Some 0" "sorted (map (\<lambda>v. the (level s v)) (queue s))"
    "marked s \<subseteq> m \<union> \<Union> {marks v |v d. level s v = Some d \<and> go d}"
    "m \<union> \<Union> {marks v |v d. level s v = Some d \<and> v \<notin> set (queue s) \<and> go d} \<subseteq> marked s"
    by (fact *)+
  show "level s v = Some d \<Longrightarrow> (R ^^ d) root v" "level s v = Some d \<Longrightarrow> in_range d" using *(3) by blast+
  show "v \<in> set (queue s) \<Longrightarrow> level s v \<noteq> None" using *(4) by blast
  show "queue s = u # q \<Longrightarrow> level s v = Some d \<Longrightarrow> d \<le> Suc (the (level s u))" using *(6) by blast
  show "level s v = Some d \<Longrightarrow> v \<notin> set (queue s) \<Longrightarrow> go d \<Longrightarrow> R v w \<Longrightarrow> \<exists>e\<le>Suc d. level s w = Some e"
    using *(7) by blast
qed

lemma inv_skip:
  assumes inv: "inv root m s" and q: "queue s = v # q" and v: "level s v = Some d" and skip: "\<not> go d"
  shows "inv root m (step s)"
proof -
  note ok = inv_ok [OF inv]
  have st: "queue (step s) = q" "level (step s) = level s" using step_skip [OF ok q v skip] by simp_all
  have mk: "marked (step s) = marked s" using step_marked [OF ok q v] skip by simp
  have other: "w \<noteq> v" if "level s w = Some e" "go e" for w e using that v skip by auto
  show ?thesis
    unfolding inv_def st mk
  proof (intro conjI)
    show "ok (step s)" using step_ok [OF ok] q by simp
    show "\<forall>u q' w e. q = u # q' \<longrightarrow> level s w = Some e \<longrightarrow> e \<le> Suc (the (level s u))"
    proof (intro allI impI)
      fix u q' w e assume u: "q = u # q'" and w: "level s w = Some e"
      have "e \<le> Suc d" using inv_head [OF inv q w] v by simp
      moreover have "d \<le> the (level s u)" using inv_sorted [OF inv] q v u by simp
      ultimately show "e \<le> Suc (the (level s u))" by simp
    qed
    show "\<forall>w e x. level s w = Some e \<longrightarrow> w \<notin> set q \<longrightarrow> go e \<longrightarrow> R w x \<longrightarrow> (\<exists>f\<le>Suc e. level s x = Some f)"
      using inv_closed [OF inv] other q by (metis set_ConsD)
    show "m \<union> \<Union> {marks v |v d. level s v = Some d \<and> v \<notin> set q \<and> go d} \<subseteq> marked s"
    proof -
      have "{marks v |v d. level s v = Some d \<and> v \<notin> set q \<and> go d} =
          {marks v |v d. level s v = Some d \<and> v \<notin> set (queue s) \<and> go d}"
        using other unfolding q by (intro Collect_cong) (metis set_ConsD list.set_intros(2))
      then show ?thesis using inv_done [OF inv] by simp
    qed
  qed (use inv_root [OF inv] inv_path [OF inv] inv_range [OF inv] inv_queue [OF inv] inv_sorted [OF inv]
        inv_marked [OF inv] q in auto)
qed

lemma inv_expand:
  assumes inv: "inv root m s" and q: "queue s = v # q" and v: "level s v = Some d" and go: "go d"
  shows "inv root m (step s)"
proof -
  note ok = inv_ok [OF inv]
  from step_expand [OF ok q v go] obtain new where q': "queue (step s) = q @ new"
    and new: "set new = {w. R v w \<and> level s w = None}"
    and lev: "\<And>w. level (step s) w = (if w \<in> set new then Some (Suc d) else level s w)" by auto
  have fresh: "w \<notin> set new" if "level s w = Some e" for w e using new that by simp
  then have keep: "level (step s) w = Some e" if "level s w = Some e" for w e using that lev by simp
  note path = inv_path [OF inv v]
  have max: "e \<le> Suc d" if "level s w = Some e" for w e using inv_head [OF inv q that] v by simp
  have qlev: "d \<le> the (level s w)" "level s w \<noteq> None" if "w \<in> set q" for w
    using inv_sorted [OF inv] inv_queue [OF inv] q v that by auto
  have lev_cases: "level s w = Some e \<or> (w \<in> set new \<and> e = Suc d)" if "level (step s) w = Some e" for w e
    using that lev by (auto split: if_splits)
  have "inv root m (step s)"
    unfolding inv_def
  proof (intro conjI)
    show "ok (step s)" using step_ok [OF ok] q by simp
    show "level (step s) root = Some 0" by (rule keep [OF inv_root [OF inv]])
    show "\<forall>w e. level (step s) w = Some e \<longrightarrow> (R ^^ e) root w \<and> in_range e"
    proof (intro allI impI)
      fix w e assume "level (step s) w = Some e"
      then consider "level s w = Some e" | "R v w" "e = Suc d" using lev_cases new by blast
      then show "(R ^^ e) root w \<and> in_range e"
        using inv_path [OF inv] inv_range [OF inv] relpowp_Suc_I [OF path] go
        by cases (auto simp: in_range_def)
    qed
    show "\<forall>w\<in>set (queue (step s)). level (step s) w \<noteq> None"
      using qlev lev q' by auto
    have "map (\<lambda>v. the (level (step s) v)) q = map (\<lambda>v. the (level s v)) q"
      using qlev(2) keep by (intro map_cong refl) (metis not_None_eq)
    moreover have "map (\<lambda>v. the (level (step s) v)) new = replicate (length new) (Suc d)"
      using lev by (intro replicate_eqI) auto
    ultimately have "map (\<lambda>v. the (level (step s) v)) (queue (step s)) =
        map (\<lambda>v. the (level s v)) q @ replicate (length new) (Suc d)"
      by (simp only: q' map_append)
    moreover have "sorted (map (\<lambda>v. the (level s v)) q)" using inv_sorted [OF inv] q by simp
    moreover have "the (level s w) \<le> Suc d" if "w \<in> set q" for w using max qlev(2) [OF that] by auto
    ultimately show "sorted (map (\<lambda>v. the (level (step s) v)) (queue (step s)))"
      by (simp only: sorted_append) (auto simp: sorted_replicate)
    show "\<forall>u q'' w e. queue (step s) = u # q'' \<longrightarrow> level (step s) w = Some e \<longrightarrow> e \<le> Suc (the (level (step s) u))"
    proof (intro allI impI)
      fix u q'' w e assume u: "queue (step s) = u # q''" and w: "level (step s) w = Some e"
      have "u \<in> set (queue (step s))" using u by simp
      then have "u \<in> set q \<or> u \<in> set new" by (simp add: q')
      then have "d \<le> the (level (step s) u)" using qlev lev by auto
      moreover have "e \<le> Suc d" using lev_cases [OF w] max by auto
      ultimately show "e \<le> Suc (the (level (step s) u))" by simp
    qed
    show "\<forall>w e x. level (step s) w = Some e \<longrightarrow> w \<notin> set (queue (step s)) \<longrightarrow> go e \<longrightarrow> R w x
        \<longrightarrow> (\<exists>f\<le>Suc e. level (step s) x = Some f)"
    proof (intro allI impI)
      fix w e x
      assume "level (step s) w = Some e" and notq: "w \<notin> set (queue (step s))" and "go e" and "R w x"
      then have w: "level s w = Some e" using lev_cases q' by auto
      show "\<exists>f\<le>Suc e. level (step s) x = Some f"
      proof (cases "w = v")
        case True
        then have "e = d" using w v by simp
        then show ?thesis using \<open>R w x\<close> True new lev max
          by (cases "level s x") auto
      next
        case False
        then have "w \<notin> set (queue s)" using notq q q' by simp
        then have "\<exists>f\<le>Suc e. level s x = Some f" by (rule inv_closed [OF inv w _ \<open>go e\<close> \<open>R w x\<close>])
        then show ?thesis using keep by blast
      qed
    qed
    have mk: "marked (step s) = marked s \<union> marks v" using step_marked [OF ok q v] go by simp
    define A where "A = {marks v |v d. level s v = Some d \<and> go d}"
    define B where "B = {marks v |v d. level (step s) v = Some d \<and> go d}"
    have "A \<subseteq> B"
      unfolding A_def B_def by (intro Collect_mono impI, elim exE conjE, intro exI conjI, assumption, erule keep)
    moreover have "marks v \<in> B"
      unfolding B_def by (intro CollectI exI conjI, rule refl, rule keep [OF v], rule go)
    moreover have "marked s \<subseteq> m \<union> \<Union> A" unfolding A_def by (rule inv_marked [OF inv])
    ultimately have "marked (step s) \<subseteq> m \<union> \<Union> B" unfolding mk by blast
    then show "marked (step s) \<subseteq> m \<union> \<Union> {marks v |v d. level (step s) v = Some d \<and> go d}" unfolding B_def .
    note old = inv_done [OF inv]
    have "marks w \<subseteq> marked (step s)"
      if "level (step s) w = Some e" "w \<notin> set (queue (step s))" "go e" for w e
    proof (cases "w = v")
      case False
      with that lev_cases q q' have "level s w = Some e" "w \<notin> set (queue s)" by auto
      with \<open>go e\<close> have "marks w \<in> {marks v |v d. level s v = Some d \<and> v \<notin> set (queue s) \<and> go d}"
        by (intro CollectI exI conjI) (rule refl)
      then have "marks w \<subseteq> marked s" using old by (meson Union_upper Un_upper2 order_trans)
      then show ?thesis unfolding mk by (rule le_supI1)
    qed (simp add: mk)
    moreover have "m \<subseteq> marked (step s)" unfolding mk using old by (meson Un_upper1 order_trans)
    ultimately show "m \<union> \<Union> {marks v |v d. level (step s) v = Some d \<and> v \<notin> set (queue (step s)) \<and> go d} \<subseteq> marked (step s)"
      by - (intro Un_least Union_least, assumption, elim CollectE exE conjE, simp)
  qed
  then show ?thesis .
qed

lemma inv_step:
  assumes "inv root m s" and "queue s \<noteq> []"
  shows "inv root m (step s)"
proof -
  obtain v q where q: "queue s = v # q" using assms(2) by (cases "queue s") auto
  with assms(1) obtain d where "level s v = Some d" by (auto simp: inv_def)
  with assms(1) q show ?thesis by (cases "go d") (auto intro: inv_skip inv_expand)
qed

lemma levels_cover:
  assumes inv: "inv root m s" and "queue s = []"
  shows "(R ^^ k) root v \<Longrightarrow> in_range k \<Longrightarrow> \<exists>e\<le>k. level s v = Some e"
proof (induction k arbitrary: v)
  case 0
  then show ?case using inv by (simp add: inv_def)
next
  case (Suc k)
  then obtain u where u: "(R ^^ k) root u" and "R u v" by (auto elim: relpowp_Suc_E)
  from Suc.prems(2) have "go k" by (simp add: in_range_def)
  then have "in_range k" using go_down [of k "k - 1"] by (auto simp: in_range_def)
  with u Suc.IH obtain e where e: "e \<le> k" "level s u = Some e" by blast
  with \<open>go k\<close> go_down have "go e" by blast
  with inv assms(2) e(2) \<open>R u v\<close> have "\<exists>f\<le>Suc e. level s v = Some f" by (auto simp: inv_def)
  with e(1) show ?case by force
qed

text \<open>When the queue is empty the levels are the hop distances in range, and exactly the nodes
  on expanded levels have been marked.\<close>

lemma levels_exact:
  assumes inv: "inv root m s" and "queue s = []"
  shows "level s v = Some d \<longleftrightarrow> hop_distance R root v d \<and> in_range d"
proof
  assume v: "level s v = Some d"
  then have path: "(R ^^ d) root v" and d: "in_range d" using inv by (auto simp: inv_def)
  have "\<not> (R ^^ k) root v" if "k < d" for k
  proof
    assume "(R ^^ k) root v"
    moreover have "in_range k" using d go_down [of "d - 1" "k - 1"] that by (auto simp: in_range_def)
    ultimately show False using levels_cover [OF assms] v that by fastforce
  qed
  with path d show "hop_distance R root v d \<and> in_range d" by (simp add: hop_distance_def)
next
  assume d: "hop_distance R root v d \<and> in_range d"
  then obtain e where "e \<le> d" "level s v = Some e"
    using levels_cover [OF assms, of d v] by (auto simp: hop_distance_def)
  moreover have "(R ^^ e) root v" using inv \<open>level s v = Some e\<close> by (auto simp: inv_def)
  ultimately show "level s v = Some d" using d by (auto simp: hop_distance_def order.order_iff_strict)
qed

lemma marked_exact:
  assumes inv: "inv root m s" and "queue s = []"
  shows "marked s = m \<union> \<Union> {marks v |v d. hop_distance R root v d \<and> go d}"
proof -
  have "level s v = Some d \<and> go d \<longleftrightarrow> hop_distance R root v d \<and> go d" for v d
    using levels_exact [OF assms] go_down [of d "d - 1"] by (auto simp: in_range_def)
  moreover have "marked s = m \<union> \<Union> {marks v |v d. level s v = Some d \<and> go d}"
    using inv assms(2) unfolding inv_def by (intro subset_antisym) auto
  ultimately show ?thesis by simp
qed

end

end
