(* ===== verification/Lineage_Walk.thy ===== *)
theory Lineage_Walk
  imports Lineage_Graph Search
begin

text \<open>
  The lineage walk, \<open>src/lineage/walk.py\<close>: \<open>get_lineage\<close>, its breadth-first loop \<open>_bfs\<close> and the
  search for cycles \<open>_cycles\<close>. The Python loops are recursive functions on a record
  of the loop's variables; a Python set is a list read through \<open>set\<close>. The Boolean \<open>up\<close> is
  the test \<open>walk == "upstream"\<close>; a KeyError of \<open>nodes_by_id\<close> is the error \<open>MissingNode\<close>.
\<close>

section \<open>The breadth-first loop\<close>

record bfs_state =
  b_visited :: "string list"
  b_depths :: "(string, nat) dict"
  b_edges :: "(string, edge) dict"
  b_queue :: "(string \<times> nat) list"

definition neighbor :: "bool \<Rightarrow> edge \<Rightarrow> string" where
  "neighbor up e = (if up then e_source e else e_target e)"

definition adjacent :: "(string, edge list) dict \<Rightarrow> string \<Rightarrow> edge list" where
  "adjacent adjacency n = (case dict_get adjacency n of None \<Rightarrow> [] | Some es \<Rightarrow> es)"

definition depth_reached :: "int option \<Rightarrow> nat \<Rightarrow> bool" where
  "depth_reached depth d \<longleftrightarrow> (case depth of None \<Rightarrow> False | Some k \<Rightarrow> int d \<ge> k)"

definition visit :: "bool \<Rightarrow> nat \<Rightarrow> edge \<Rightarrow> bfs_state \<Rightarrow> bfs_state" where
  "visit up d e s =
     (let n = neighbor up e;
          s1 = s\<lparr>b_edges := dict_set (e_id e) e (b_edges s)\<rparr>
      in if n \<in> set (b_visited s) then s1
         else s1\<lparr>b_visited := n # b_visited s,
                b_depths := dict_set n (min (case dict_get (b_depths s) n of None \<Rightarrow> d + 1 | Some x \<Rightarrow> x) (d + 1))
                  (b_depths s),
                b_queue := b_queue s @ [(n, d + 1)]\<rparr>)"

definition bfs_step :: "(string, edge list) dict \<Rightarrow> bool \<Rightarrow> int option \<Rightarrow> bfs_state \<Rightarrow> bfs_state" where
  "bfs_step adjacency up depth s =
     (case b_queue s of
        [] \<Rightarrow> s
      | (n, d) # q \<Rightarrow>
          let s1 = s\<lparr>b_queue := q\<rparr>
          in if depth_reached depth d then s1 else fold (visit up d) (adjacent adjacency n) s1)"

text \<open>The neighbours an iteration discovers, in order.\<close>

fun fresh :: "'a list \<Rightarrow> 'a list \<Rightarrow> 'a list" where
  "fresh seen [] = []"
| "fresh seen (n # ns) = (if n \<in> set seen then fresh seen ns else n # fresh (n # seen) ns)"

lemma set_fresh: "set (fresh seen ns) = set ns - set seen"
  by (induction seen ns rule: fresh.induct) auto

lemma visit_fold_queue:
  "b_queue (fold (visit up d) es s) = b_queue s @ map (\<lambda>n. (n, d + 1)) (fresh (b_visited s) (map (neighbor up) es))"
  by (induction es arbitrary: s) (auto simp: visit_def Let_def)

lemma visit_fold_visited:
  "set (b_visited (fold (visit up d) es s)) = set (b_visited s) \<union> neighbor up ` set es"
  by (induction es arbitrary: s) (auto simp: visit_def Let_def)

definition targets :: "(string, edge list) dict \<Rightarrow> bool \<Rightarrow> string set" where
  "targets adjacency up = (\<Union>es \<in> set (map snd adjacency). neighbor up ` set es)"

lemma targets_finite [simp]: "finite (targets adjacency up)"
  by (simp add: targets_def)

lemma adjacent_targets: "neighbor up ` set (adjacent adjacency n) \<subseteq> targets adjacency up"
proof (cases "map_of adjacency n")
  case (Some es)
  then have "es \<in> set (map snd adjacency)" by (force dest: map_of_SomeD)
  with Some show ?thesis by (auto simp: adjacent_def targets_def)
qed (simp add: adjacent_def)

lemma bfs_step_decreases:
  assumes "b_queue s \<noteq> []"
  shows "(bfs_step adjacency up depth s, s) \<in>
    measures [\<lambda>s. card (targets adjacency up - set (b_visited s)), \<lambda>s. length (b_queue s)]"
proof -
  obtain n d q where q: "b_queue s = (n, d) # q" using assms by (cases "b_queue s") auto
  let ?ns = "map (neighbor up) (adjacent adjacency n)"
  show ?thesis
  proof (cases "depth_reached depth d \<or> fresh (b_visited s) ?ns = []")
    case True
    then have "b_queue (bfs_step adjacency up depth s) = q"
      by (auto simp: bfs_step_def q Let_def visit_fold_queue)
    moreover have "set (b_visited (bfs_step adjacency up depth s)) = set (b_visited s)"
      using True set_fresh [of "b_visited s" ?ns]
      by (auto simp: bfs_step_def q Let_def visit_fold_visited)
    ultimately show ?thesis by (simp add: q)
  next
    case False
    then have vis: "set (b_visited (bfs_step adjacency up depth s)) = set (b_visited s) \<union> set ?ns"
      by (simp add: bfs_step_def q Let_def visit_fold_visited)
    have "set (fresh (b_visited s) ?ns) \<noteq> {}" using False by simp
    then have "set ?ns - set (b_visited s) \<noteq> {}" unfolding set_fresh .
    moreover have "set ?ns \<subseteq> targets adjacency up" using adjacent_targets by simp
    ultimately have "targets adjacency up - set (b_visited (bfs_step adjacency up depth s))
        \<subset> targets adjacency up - set (b_visited s)"
      unfolding vis by blast
    then have "card (targets adjacency up - set (b_visited (bfs_step adjacency up depth s)))
        < card (targets adjacency up - set (b_visited s))"
      by (intro psubset_card_mono) simp_all
    then show ?thesis by simp
  qed
qed

function bfs_loop :: "(string, edge list) dict \<Rightarrow> bool \<Rightarrow> int option \<Rightarrow> bfs_state \<Rightarrow> bfs_state" where
  "bfs_loop adjacency up depth s =
     (if b_queue s = [] then s else bfs_loop adjacency up depth (bfs_step adjacency up depth s))"
  by pat_completeness auto
termination
proof (relation "{((a', u', d', s'), (a, u, d, s)). a' = a \<and> u' = u \<and> d' = d
    \<and> (s', s) \<in> measures [\<lambda>s. card (targets a u - set (b_visited s)), \<lambda>s. length (b_queue s)]}")
  show "wf {((a', u', d', s'), (a, u, d, s)). a' = a \<and> u' = u \<and> d' = d
    \<and> (s', s) \<in> measures [\<lambda>s. card (targets a u - set (b_visited s)), \<lambda>s. length (b_queue s)]}"
    by (rule wf_subset [of "measures [\<lambda>(a, u, d, s). card (targets a u - set (b_visited s)),
          \<lambda>(a, u, d, s). length (b_queue s)]"]) auto
qed (use bfs_step_decreases in auto)

declare bfs_loop.simps [simp del]

definition bfs ::
  "string \<Rightarrow> (string, edge list) dict \<Rightarrow> bool \<Rightarrow> int option \<Rightarrow> (string, nat) dict \<times> (string, edge) dict
     \<Rightarrow> (string, nat) dict \<times> (string, edge) dict" where
  "bfs root adjacency up depth st =
     (let (depths, edges) = st;
          s = bfs_loop adjacency up depth \<lparr>b_visited = [root],
            b_depths = dict_set root (min (case dict_get depths root of None \<Rightarrow> 0 | Some x \<Rightarrow> x) 0) depths,
            b_edges = edges, b_queue = [(root, 0)]\<rparr>
      in (b_depths s, b_edges s))"

section \<open>Cycles\<close>

datatype color = White | Gray | Black

record dfs_state =
  d_color :: "(string, color) dict"
  d_closing :: "string list"
  d_stack :: "(string \<times> nat) list"

definition cycle_adjacency :: "string list \<Rightarrow> edge list \<Rightarrow> (string, (string \<times> string) list) dict" where
  "cycle_adjacency node_ids edges =
     fold (\<lambda>e. dict_append (e_source e) (e_target e, e_id e))
       (filter (\<lambda>e. e_source e \<in> set node_ids \<and> e_target e \<in> set node_ids) (sort_key e_id edges)) []"

definition out_edges :: "(string, (string \<times> string) list) dict \<Rightarrow> string \<Rightarrow> (string \<times> string) list" where
  "out_edges adjacency n = (case dict_get adjacency n of None \<Rightarrow> [] | Some es \<Rightarrow> es)"

text \<open>One round of the inner loop; the top of the stack is the head of \<open>d_stack\<close>.\<close>

definition dfs_step :: "(string, (string \<times> string) list) dict \<Rightarrow> dfs_state \<Rightarrow> dfs_state" where
  "dfs_step adjacency s =
     (case d_stack s of
        [] \<Rightarrow> s
      | (n, i) # rest \<Rightarrow>
          let neighbors = out_edges adjacency n
          in if i < length neighbors then
               let (target, eid) = neighbors ! i;
                   s1 = s\<lparr>d_stack := (n, i + 1) # rest\<rparr>
               in (case dict_get (d_color s) target of
                     Some Gray \<Rightarrow> s1\<lparr>d_closing := d_closing s @ [eid]\<rparr>
                   | Some White \<Rightarrow> s1\<lparr>d_color := dict_set target Gray (d_color s),
                                      d_stack := (target, 0) # d_stack s1\<rparr>
                   | _ \<Rightarrow> s1)
             else s\<lparr>d_color := dict_set n Black (d_color s), d_stack := rest\<rparr>)"

definition whites :: "(string, color) dict \<Rightarrow> nat" where
  "whites d = length (filter (\<lambda>p. snd p = White) d)"

lemma whites_paint: "map_of d n = Some White \<Longrightarrow> c \<noteq> White \<Longrightarrow> whites (dict_set n c d) < whites d"
  by (induction d) (auto simp: whites_def)

lemma whites_paint_le: "c \<noteq> White \<Longrightarrow> whites (dict_set n c d) \<le> whites d"
  by (induction d) (auto simp: whites_def)

definition remaining :: "(string, (string \<times> string) list) dict \<Rightarrow> (string \<times> nat) list \<Rightarrow> nat" where
  "remaining adjacency stack = sum_list (map (\<lambda>(n, i). Suc (length (out_edges adjacency n) - i)) stack)"

lemma dfs_step_decreases:
  assumes "d_stack s \<noteq> []"
  shows "(dfs_step adjacency s, s) \<in>
    measures [\<lambda>s. whites (d_color s), \<lambda>s. remaining adjacency (d_stack s)]"
proof -
  obtain n i rest where st: "d_stack s = (n, i) # rest" using assms by (cases "d_stack s") auto
  show ?thesis
  proof (cases "i < length (out_edges adjacency n)")
    case True
    then show ?thesis
      by (auto simp: dfs_step_def st Let_def remaining_def whites_paint
          split: prod.splits option.splits color.splits)
  next
    case False
    then show ?thesis
      using whites_paint_le [of Black n "d_color s"]
      by (auto simp: dfs_step_def st remaining_def)
  qed
qed

function dfs_loop :: "(string, (string \<times> string) list) dict \<Rightarrow> dfs_state \<Rightarrow> dfs_state" where
  "dfs_loop adjacency s = (if d_stack s = [] then s else dfs_loop adjacency (dfs_step adjacency s))"
  by pat_completeness auto
termination
proof (relation "{((a', s'), (a, s)). a' = a
    \<and> (s', s) \<in> measures [\<lambda>s. whites (d_color s), \<lambda>s. remaining a (d_stack s)]}")
  show "wf {((a', s'), (a, s)). a' = a
    \<and> (s', s) \<in> measures [\<lambda>s. whites (d_color s), \<lambda>s. remaining a (d_stack s)]}"
    by (rule wf_subset [of "measures [\<lambda>(a, s). whites (d_color s), \<lambda>(a, s). remaining a (d_stack s)]"]) auto
qed (use dfs_step_decreases in auto)

declare dfs_loop.simps [simp del]

definition dfs_from :: "(string, (string \<times> string) list) dict \<Rightarrow> string \<Rightarrow> dfs_state \<Rightarrow> dfs_state" where
  "dfs_from adjacency start s =
     (if dict_get (d_color s) start \<noteq> Some White then s
      else dfs_loop adjacency (s\<lparr>d_color := dict_set start Gray (d_color s), d_stack := [(start, 0)]\<rparr>))"

definition cycles :: "string list \<Rightarrow> edge list \<Rightarrow> string list" where
  "cycles node_ids edges =
     sort (d_closing (fold (dfs_from (cycle_adjacency node_ids edges)) (sort node_ids)
       \<lparr>d_color = dict_of (map (\<lambda>n. (n, White)) node_ids), d_closing = [], d_stack = []\<rparr>))"

section \<open>get_lineage\<close>

definition DIRECTIONS :: "string list" where
  "DIRECTIONS = [''upstream'', ''downstream'', ''both'']"

datatype walk_error =
    BadDirection string
  | BadDepth int
  | MissingNode string

text \<open>A lineage result: \<open>l_nodes\<close> pairs each node with its \<open>depth\<close> entry.\<close>

record lineage =
  l_root :: string
  l_direction :: string
  l_depth :: "int option"
  l_nodes :: "(node \<times> nat) list"
  l_edges :: "edge list"
  l_cycles :: "string list"


definition walks :: "string \<Rightarrow> bool list" where
  "walks direction = (if direction = ''both'' then [True, False] else [direction = ''upstream''])"

definition walk_state :: "graph \<Rightarrow> string \<Rightarrow> string \<Rightarrow> int option \<Rightarrow> (string, nat) dict \<times> (string, edge) dict" where
  "walk_state g object_fqn direction depth =
     fold (\<lambda>up. bfs object_fqn (dict_group (if up then e_target else e_source) (g_edges g)) up depth)
       (walks direction) ([], [])"

definition get_lineage ::
  "graph \<Rightarrow> string \<Rightarrow> string \<Rightarrow> int option \<Rightarrow> (walk_error, lineage) result" where
  "get_lineage g object_fqn direction depth =
     (if direction \<notin> set DIRECTIONS then Inl (BadDirection direction)
      else if depth \<noteq> None \<and> the depth < 0 then Inl (BadDepth (the depth))
      else let nodes_by_id = dict_of (map (\<lambda>n. (n_id n, n)) (g_nodes g));
               result = \<lparr>l_root = object_fqn, l_direction = direction, l_depth = depth,
                 l_nodes = [], l_edges = [], l_cycles = []\<rparr>
           in if \<not> dict_has nodes_by_id object_fqn then Inr result
              else let (depths, edges) = walk_state g object_fqn direction depth
                   in res_bind (res_map (\<lambda>(i, d). case dict_get nodes_by_id i of
                            None \<Rightarrow> Inl (MissingNode i) | Some n \<Rightarrow> Inr (n, d))
                          (sort_key (\<lambda>(i, d). (d, i)) depths))
                        (\<lambda>ns. Inr (result\<lparr>l_nodes := ns, l_edges := map snd (sort_key fst edges),
                           l_cycles := cycles (dict_keys depths) (map snd edges)\<rparr>)))"

section \<open>The breadth-first loop computes hop distances\<close>

lemma bfs_loop_rule:
  assumes "P s" and "\<And>s. P s \<Longrightarrow> b_queue s \<noteq> [] \<Longrightarrow> P (bfs_step adjacency up depth s)"
  shows "P (bfs_loop adjacency up depth s) \<and> b_queue (bfs_loop adjacency up depth s) = []"
  using assms
proof (induction adjacency up depth s rule: bfs_loop.induct)
  case (1 adjacency up depth s)
  show ?case
  proof (cases "b_queue s = []")
    case True
    with "1.prems"(1) show ?thesis by (simp add: bfs_loop.simps [of _ _ _ s])
  next
    case False
    then have "P (bfs_step adjacency up depth s)" using "1.prems" by blast
    from "1.IH" [OF False this] "1.prems"(2) False show ?thesis
      by (simp add: bfs_loop.simps [of _ _ _ s])
  qed
qed

lemma visit_fold_depths:
  "map_of (b_depths (fold (visit up d) es s)) w =
     (if w \<in> neighbor up ` set es - set (b_visited s)
      then Some (case map_of (b_depths s) w of None \<Rightarrow> d + 1 | Some x \<Rightarrow> min x (d + 1))
      else map_of (b_depths s) w)"
  by (induction es arbitrary: s) (auto simp: visit_def Let_def update_conv split: option.splits)

lemma visit_fold_edges:
  "b_edges (fold (visit up d) es s) = fold (\<lambda>e. dict_set (e_id e) e) es (b_edges s)"
  by (induction es arbitrary: s) (auto simp: visit_def Let_def)

lemma fold_edges_keys: "fst ` set (fold (\<lambda>e. dict_set (e_id e) e) es d) = fst ` set d \<union> e_id ` set es"
  by (induction es arbitrary: d) (auto simp: dom_update)

definition linked :: "(string, edge list) dict \<Rightarrow> bool \<Rightarrow> string \<Rightarrow> string \<Rightarrow> bool" where
  "linked adjacency up v w \<longleftrightarrow> w \<in> neighbor up ` set (adjacent adjacency v)"

definition bfs_ok :: "bfs_state \<Rightarrow> bool" where
  "bfs_ok s \<longleftrightarrow> set (b_visited s) = dom (map_of (b_depths s))
     \<and> (\<forall>(n, d)\<in>set (b_queue s). map_of (b_depths s) n = Some d)"

lemma bfs_step_expand:
  assumes ok: "bfs_ok s" and q: "b_queue s = (v, d) # q" and go: "\<not> depth_reached depth d"
    and new_def: "new = fresh (b_visited s) (map (neighbor up) (adjacent adjacency v))"
  shows "b_queue (bfs_step adjacency up depth s) = q @ map (\<lambda>n. (n, Suc d)) new"
    and "set new = {w. linked adjacency up v w \<and> map_of (b_depths s) w = None}"
    and "map_of (b_depths (bfs_step adjacency up depth s)) w =
      (if w \<in> set new then Some (Suc d) else map_of (b_depths s) w)"
    and "set (b_visited (bfs_step adjacency up depth s)) = set (b_visited s) \<union> set new"
proof -
  have vis: "set (b_visited s) = dom (map_of (b_depths s))" using ok by (simp add: bfs_ok_def)
  have "x \<notin> set (b_visited s) \<longleftrightarrow> map_of (b_depths s) x = None" for x unfolding vis by auto
  then show new: "set new = {w. linked adjacency up v w \<and> map_of (b_depths s) w = None}"
    by (auto simp: new_def set_fresh linked_def)
  show "b_queue (bfs_step adjacency up depth s) = q @ map (\<lambda>n. (n, Suc d)) new"
    using q go by (simp add: bfs_step_def Let_def visit_fold_queue new_def)
  show "map_of (b_depths (bfs_step adjacency up depth s)) w =
      (if w \<in> set new then Some (Suc d) else map_of (b_depths s) w)"
    using q go by (auto simp: bfs_step_def Let_def visit_fold_depths new linked_def vis)
  show "set (b_visited (bfs_step adjacency up depth s)) = set (b_visited s) \<union> set new"
    using q go by (auto simp: bfs_step_def Let_def visit_fold_visited new_def set_fresh)
qed

lemma bfs_step_skip:
  assumes "b_queue s = (v, d) # q" and "depth_reached depth d"
  shows "bfs_step adjacency up depth s = s\<lparr>b_queue := q\<rparr>"
  using assms by (simp add: bfs_step_def)

lemma bfs_step_ok:
  assumes "bfs_ok s" and "b_queue s \<noteq> []"
  shows "bfs_ok (bfs_step adjacency up depth s)"
proof -
  obtain v d q where q: "b_queue s = (v, d) # q" using assms(2) by (cases "b_queue s") auto
  show ?thesis
  proof (cases "depth_reached depth d")
    case True
    with assms q show ?thesis by (simp add: bfs_step_skip bfs_ok_def)
  next
    case False
    note st = bfs_step_expand [OF assms(1) q False refl, where adjacency = adjacency and up = up]
    have "map_of (b_depths s) n = Some e" if "(n, e) \<in> set q" for n e
      using assms(1) q that by (auto simp: bfs_ok_def)
    moreover have "set (b_visited s) = dom (map_of (b_depths s))" using assms(1) by (simp add: bfs_ok_def)
    ultimately show ?thesis
      unfolding bfs_ok_def st(1,3,4) by (fastforce simp: st(2,3) dom_def)
  qed
qed

interpretation walk: bfs_run "linked adjacency up" "\<lambda>d. \<not> depth_reached depth d"
  "\<lambda>v. e_id ` set (adjacent adjacency v)" "bfs_step adjacency up depth" bfs_ok
  "\<lambda>s. map fst (b_queue s)" "\<lambda>s. map_of (b_depths s)" "\<lambda>s. fst ` set (b_edges s)"
  for adjacency up depth
proof
  fix s v q d assume ok: "bfs_ok s" and q: "map fst (b_queue s) = v # q" and v: "map_of (b_depths s) v = Some d"
  then obtain q' where q': "b_queue s = (v, d) # q'" "q = map fst q'"
    by (cases "b_queue s") (auto simp: bfs_ok_def)
  show "fst ` set (b_edges (bfs_step adjacency up depth s)) = fst ` set (b_edges s) \<union>
      (if \<not> depth_reached depth d then e_id ` set (adjacent adjacency v) else {})"
    using q'(1) by (simp add: bfs_step_def Let_def visit_fold_edges fold_edges_keys)
  show "map fst (b_queue (bfs_step adjacency up depth s)) = q \<and>
      map_of (b_depths (bfs_step adjacency up depth s)) = map_of (b_depths s)"
    if "\<not> \<not> depth_reached depth d"
    using that q' by (simp add: bfs_step_skip)
  show "\<exists>new. map fst (b_queue (bfs_step adjacency up depth s)) = q @ new
      \<and> set new = {w. linked adjacency up v w \<and> map_of (b_depths s) w = None}
      \<and> (\<forall>w. map_of (b_depths (bfs_step adjacency up depth s)) w =
            (if w \<in> set new then Some (Suc d) else map_of (b_depths s) w))"
    if "\<not> depth_reached depth d"
    using bfs_step_expand [OF ok q'(1) that refl, where adjacency = adjacency and up = up] q'(2)
    by (intro exI [of _ "fresh (b_visited s) (map (neighbor up) (adjacent adjacency v))"]) (simp add: comp_def)
qed (auto simp: depth_reached_def bfs_step_ok split: option.splits)

text \<open>The second of two walks starts from the depths of the first: every depth is the smaller one.\<close>

fun omin :: "nat option \<Rightarrow> nat option \<Rightarrow> nat option" where
  "omin None y = y"
| "omin (Some x) None = Some x"
| "omin (Some x) (Some y) = Some (min x y)"

lemma omin_None [simp]: "omin x None = x"
  by (cases x) simp_all

lemma omin_eq_Some_iff:
  "omin x y = Some d \<longleftrightarrow> (x = Some d \<or> y = Some d) \<and> (\<forall>e. x = Some e \<or> y = Some e \<longrightarrow> d \<le> e)"
  by (cases x; cases y) (auto simp: min_def)

definition seeded :: "(string \<Rightarrow> nat option) \<Rightarrow> bfs_state \<Rightarrow> bfs_state \<Rightarrow> bool" where
  "seeded start s t \<longleftrightarrow> b_visited s = b_visited t \<and> b_queue s = b_queue t \<and> b_edges s = b_edges t
     \<and> (\<forall>w. map_of (b_depths s) w = omin (start w) (map_of (b_depths t) w))"

lemma omin_discover:
  "omin x (Some (min (case y of None \<Rightarrow> d | Some z \<Rightarrow> z) d)) =
     Some (min (case omin x y of None \<Rightarrow> d | Some z \<Rightarrow> z) d)"
  by (cases x; cases y) auto

lemma seeded_visit: "seeded start s t \<Longrightarrow> seeded start (visit up d e s) (visit up d e t)"
  unfolding seeded_def visit_def Let_def Suc_eq_plus1 [symmetric]
  by (simp add: update_conv omin_discover)

lemma seeded_step:
  assumes "seeded start s t"
  shows "seeded start (bfs_step adjacency up depth s) (bfs_step adjacency up depth t)"
proof -
  have "seeded start (fold (visit up d) es s) (fold (visit up d) es t)" if "seeded start s t" for d es s t
    using that by (induction es arbitrary: s t) (simp_all add: seeded_visit)
  moreover have "seeded start (s\<lparr>b_queue := q\<rparr>) (t\<lparr>b_queue := q\<rparr>)" for q
    using assms by (simp add: seeded_def)
  moreover have "b_queue s = b_queue t" using assms by (simp add: seeded_def)
  ultimately show ?thesis
    using assms by (auto simp: bfs_step_def Let_def split: list.splits)
qed

lemma seeded_loop:
  "seeded start s t \<Longrightarrow> seeded start (bfs_loop adjacency up depth s) (bfs_loop adjacency up depth t)"
proof (induction adjacency up depth t arbitrary: s rule: bfs_loop.induct)
  case (1 adjacency up depth t)
  have "b_queue s = b_queue t" using "1.prems" by (simp add: seeded_def)
  with "1.IH" [OF _ seeded_step [OF "1.prems"]] "1.prems" show ?case
    by (simp add: bfs_loop.simps [of _ _ _ s] bfs_loop.simps [of _ _ _ t])
qed

definition within :: "int option \<Rightarrow> nat \<Rightarrow> bool" where
  "within depth d \<longleftrightarrow> (case depth of None \<Rightarrow> True | Some k \<Rightarrow> int d \<le> k)"

lemma in_range_within:
  assumes "depth = None \<or> 0 \<le> the depth"
  shows "walk.in_range depth d \<longleftrightarrow> within depth d"
  unfolding walk.in_range_def
  using assms by (cases d) (auto simp: within_def depth_reached_def split: option.splits)

lemma bfs_exact:
  assumes run: "bfs root adjacency up depth (depths, edges) = (D, E)" and "depth = None \<or> 0 \<le> the depth"
  obtains L where "\<And>w. map_of D w = omin (map_of depths w) (L w)"
    and "\<And>w d. L w = Some d \<longleftrightarrow> hop_distance (linked adjacency up) root w d \<and> within depth d"
    and "fst ` set E = fst ` set edges \<union>
      \<Union> {e_id ` set (adjacent adjacency v) |v d. hop_distance (linked adjacency up) root v d \<and> \<not> depth_reached depth d}"
proof -
  let ?s = "\<lparr>b_visited = [root], b_depths = dict_set root (min (case map_of depths root of None \<Rightarrow> 0 | Some x \<Rightarrow> x) 0) depths,
            b_edges = edges, b_queue = [(root, 0)]\<rparr>"
  let ?t = "\<lparr>b_visited = [root], b_depths = [(root, 0)], b_edges = edges, b_queue = [(root, 0)]\<rparr>"
  let ?t' = "bfs_loop adjacency up depth ?t"
  have "omin (map_of depths root) (Some 0) = Some 0" by (cases "map_of depths root") simp_all
  then have "seeded (map_of depths) ?s ?t" by (simp add: seeded_def update_conv)
  then have "seeded (map_of depths) (bfs_loop adjacency up depth ?s) ?t'" by (rule seeded_loop)
  then have D: "map_of D w = omin (map_of depths w) (map_of (b_depths ?t') w)" and E: "E = b_edges ?t'" for w
    using run by (auto simp: bfs_def seeded_def)
  have "walk.inv adjacency up depth root (fst ` set edges) ?t"
    by (rule walk.invI_start) (auto simp: bfs_ok_def)
  then have fin: "walk.inv adjacency up depth root (fst ` set edges) ?t'" "b_queue ?t' = []"
    using bfs_loop_rule [of "walk.inv adjacency up depth root (fst ` set edges)" ?t adjacency up depth]
    by (auto intro: walk.inv_step)
  then have q: "map fst (b_queue ?t') = []" by simp
  show thesis
  proof (rule that [OF D])
    show "map_of (b_depths ?t') w = Some d \<longleftrightarrow> hop_distance (linked adjacency up) root w d \<and> within depth d" for w d
      using walk.levels_exact [OF fin(1) q] in_range_within [OF assms(2)] by simp
    show "fst ` set E = fst ` set edges \<union>
      \<Union> {e_id ` set (adjacent adjacency v) |v d. hop_distance (linked adjacency up) root v d \<and> \<not> depth_reached depth d}"
      unfolding E by (rule walk.marked_exact [OF fin(1) q])
  qed
qed

definition dicts_ok :: "edge set \<Rightarrow> (string, nat) dict \<Rightarrow> (string, edge) dict \<Rightarrow> bool" where
  "dicts_ok ES depths edges \<longleftrightarrow> dict_wf depths \<and> dict_wf edges \<and> (\<forall>(k, e)\<in>set edges. k = e_id e \<and> e \<in> ES)"

lemma update_items: "(k, e) \<in> set (dict_set k' e' d) \<Longrightarrow> (k, e) = (k', e') \<or> (k, e) \<in> set d"
  by (induction d) (auto split: if_splits)

lemma dicts_ok_depths: "dicts_ok ES depths edges \<Longrightarrow> dicts_ok ES (dict_set n x depths) edges"
  by (simp add: dicts_ok_def dict_wf_def distinct_update)

lemma dicts_ok_edges: "dicts_ok ES depths edges \<Longrightarrow> e \<in> ES \<Longrightarrow> dicts_ok ES depths (dict_set (e_id e) e edges)"
  unfolding dicts_ok_def by (auto simp: alist.wf_put dest!: update_items)

lemma visit_dicts:
  assumes "dicts_ok ES (b_depths s) (b_edges s)" and "e \<in> ES"
  shows "dicts_ok ES (b_depths (visit up d e s)) (b_edges (visit up d e s))"
  using assms by (simp add: visit_def Let_def dicts_ok_depths dicts_ok_edges)

lemma visits_dicts:
  "dicts_ok ES (b_depths s) (b_edges s) \<Longrightarrow> set es \<subseteq> ES \<Longrightarrow>
   dicts_ok ES (b_depths (fold (visit up d) es s)) (b_edges (fold (visit up d) es s))"
  by (induction es arbitrary: s) (simp_all add: visit_dicts)

lemma bfs_dicts:
  assumes run: "bfs root adjacency up depth (depths, edges) = (D, E)"
    and start: "dicts_ok ES depths edges" and adj: "\<And>n. set (adjacent adjacency n) \<subseteq> ES"
  shows "dicts_ok ES D E"
proof -
  let ?P = "\<lambda>s. dicts_ok ES (b_depths s) (b_edges s)"
  have step: "?P (bfs_step adjacency up depth s)" if "?P s" for s
    using that visits_dicts [OF _ adj] by (auto simp: bfs_step_def Let_def split: list.splits)
  have loop: "?P (bfs_loop adjacency up depth s)" if "?P s" for s
    using bfs_loop_rule [of ?P s adjacency up depth] step that by blast
  show ?thesis
    using run loop [of "\<lparr>b_visited = [root],
        b_depths = dict_set root (min (case map_of depths root of None \<Rightarrow> 0 | Some x \<Rightarrow> x) 0) depths,
        b_edges = edges, b_queue = [(root, 0)]\<rparr>"] start
    by (auto simp: bfs_def Let_def dicts_ok_depths)
qed

section \<open>What get_lineage returns\<close>

definition near :: "bool \<Rightarrow> edge \<Rightarrow> string" where
  "near up e = (if up then e_target e else e_source e)"

definition flows :: "graph \<Rightarrow> bool \<Rightarrow> string \<Rightarrow> string \<Rightarrow> bool" where
  "flows g up v w \<longleftrightarrow> (\<exists>e\<in>set (g_edges g). near up e = v \<and> neighbor up e = w)"

text \<open>The distance of a walk: over the directions it takes, the fewest hops.\<close>

definition walk_distance :: "graph \<Rightarrow> string \<Rightarrow> string \<Rightarrow> string \<Rightarrow> nat \<Rightarrow> bool" where
  "walk_distance g direction root w d \<longleftrightarrow>
     (\<exists>up\<in>set (walks direction). hop_distance (flows g up) root w d)
     \<and> (\<forall>up\<in>set (walks direction). \<forall>e. hop_distance (flows g up) root w e \<longrightarrow> d \<le> e)"

definition walk_takes :: "graph \<Rightarrow> string \<Rightarrow> string \<Rightarrow> int option \<Rightarrow> edge \<Rightarrow> bool" where
  "walk_takes g direction root depth e \<longleftrightarrow>
     (\<exists>up\<in>set (walks direction). \<exists>d. hop_distance (flows g up) root (near up e) d \<and> \<not> depth_reached depth d)"

definition graph_ok :: "graph \<Rightarrow> bool" where
  "graph_ok g \<longleftrightarrow> distinct (map n_id (g_nodes g)) \<and> distinct (map e_id (g_edges g))
     \<and> (\<forall>e\<in>set (g_edges g). e_source e \<in> n_id ` set (g_nodes g) \<and> e_target e \<in> n_id ` set (g_nodes g))"

abbreviation walk_adjacency :: "graph \<Rightarrow> bool \<Rightarrow> (string, edge list) dict" where
  "walk_adjacency g up \<equiv> dict_group (if up then e_target else e_source) (g_edges g)"

lemma adjacent_group: "adjacent (dict_group f es) n = filter (\<lambda>e. f e = n) es"
  by (simp add: adjacent_def dict_group_get Let_def)

lemma near_eq: "(if up then e_target else e_source) = near up"
  by (auto simp: near_def fun_eq_iff)

lemma linked_flows: "linked (walk_adjacency g up) up = flows g up"
  by (auto simp: fun_eq_iff linked_def adjacent_group flows_def near_eq)

lemma walk_one:
  assumes run: "bfs root (walk_adjacency g up) up depth (depths, edges) = (D, E)"
    and depth: "depth = None \<or> 0 \<le> the depth"
    and start: "dicts_ok (set (g_edges g)) depths edges"
  obtains L where "dicts_ok (set (g_edges g)) D E"
    and "\<And>w. map_of D w = omin (map_of depths w) (L w)"
    and "\<And>w d. L w = Some d \<longleftrightarrow> hop_distance (flows g up) root w d \<and> within depth d"
    and "fst ` set E = fst ` set edges \<union>
      e_id ` {e \<in> set (g_edges g). \<exists>d. hop_distance (flows g up) root (near up e) d \<and> \<not> depth_reached depth d}"
proof -
  have "set (adjacent (walk_adjacency g up) n) \<subseteq> set (g_edges g)" for n by (auto simp: adjacent_group)
  note dicts = bfs_dicts [OF run start this]
  have marks: "\<Union> {e_id ` set (adjacent (walk_adjacency g up) v) |v d. hop_distance (flows g up) root v d \<and> \<not> depth_reached depth d}
      = e_id ` {e \<in> set (g_edges g). \<exists>d. hop_distance (flows g up) root (near up e) d \<and> \<not> depth_reached depth d}"
    by (auto simp: adjacent_group near_eq)
  show thesis
    by (rule bfs_exact [OF run depth, unfolded linked_flows marks]) (rule that [OF dicts])
qed

definition walk_result :: "graph \<Rightarrow> string \<Rightarrow> string \<Rightarrow> int option \<Rightarrow> (string, nat) dict \<Rightarrow> (string, edge) dict \<Rightarrow> bool" where
  "walk_result g direction root depth D E \<longleftrightarrow> dicts_ok (set (g_edges g)) D E
     \<and> (\<forall>w d. map_of D w = Some d \<longleftrightarrow> walk_distance g direction root w d \<and> within depth d)
     \<and> fst ` set E = e_id ` {e \<in> set (g_edges g). walk_takes g direction root depth e}"

lemma within_mono: "within depth d \<Longrightarrow> e \<le> d \<Longrightarrow> within depth e"
  by (auto simp: within_def split: option.splits)

lemma walk_state_exact:
  assumes depth: "depth = None \<or> 0 \<le> the depth" and run: "walk_state g root direction depth = (D, E)"
  shows "walk_result g direction root depth D E"
proof -
  have ok0: "dicts_ok (set (g_edges g)) [] []" by (simp add: dicts_ok_def dict_wf_def)
  show ?thesis
  proof (cases "direction = ''both''")
    case False
    then have w: "walks direction = [direction = ''upstream'']" by (simp add: walks_def)
    from run have run1: "bfs root (walk_adjacency g (direction = ''upstream'')) (direction = ''upstream'') depth ([], []) = (D, E)"
      by (simp add: walk_state_def w)
    show ?thesis
      by (rule walk_one [OF run1 depth ok0])
        (auto simp: walk_result_def walk_distance_def walk_takes_def w dest: hop_distance_unique)
  next
    case True
    then have w: "walks direction = [True, False]" by (simp add: walks_def)
    obtain D1 E1 where run1: "bfs root (walk_adjacency g True) True depth ([], []) = (D1, E1)"
      by (cases "bfs root (walk_adjacency g True) True depth ([], [])")
    from run have run2: "bfs root (walk_adjacency g False) False depth (D1, E1) = (D, E)"
      by (simp add: walk_state_def w run1 [simplified])
    obtain L1 where ok1: "dicts_ok (set (g_edges g)) D1 E1" and L1: "\<And>w. map_of D1 w = L1 w"
      "\<And>w d. L1 w = Some d \<longleftrightarrow> hop_distance (flows g True) root w d \<and> within depth d"
      "fst ` set E1 =
        e_id ` {e \<in> set (g_edges g). \<exists>d. hop_distance (flows g True) root (near True e) d \<and> \<not> depth_reached depth d}"
      by (rule walk_one [OF run1 depth ok0]) (rule that, simp_all)
    obtain L2 where ok2: "dicts_ok (set (g_edges g)) D E" and L2: "\<And>w. map_of D w = omin (map_of D1 w) (L2 w)"
      "\<And>w d. L2 w = Some d \<longleftrightarrow> hop_distance (flows g False) root w d \<and> within depth d"
      "fst ` set E = fst ` set E1 \<union>
        e_id ` {e \<in> set (g_edges g). \<exists>d. hop_distance (flows g False) root (near False e) d \<and> \<not> depth_reached depth d}"
      by (rule walk_one [OF run2 depth ok1]) (rule that, assumption+)
    have "map_of D w = Some d \<longleftrightarrow> walk_distance g direction root w d \<and> within depth d" for w d
    proof -
      have "map_of D w = omin (L1 w) (L2 w)" by (simp add: L2(1) L1(1))
      then show ?thesis
        by (auto simp: omin_eq_Some_iff L1(2) L2(2) walk_distance_def w dest: hop_distance_unique
            intro: within_mono le_cases)
    qed
    moreover have "fst ` set E = e_id ` {e \<in> set (g_edges g). walk_takes g direction root depth e}"
      unfolding L2(3) L1(3) by (auto simp: walk_takes_def w)
    ultimately show ?thesis using ok2 by (simp add: walk_result_def)
  qed
qed

lemma reaches_nodes:
  assumes "graph_ok g" and "root \<in> n_id ` set (g_nodes g)" and "(flows g up ^^ k) root w"
  shows "w \<in> n_id ` set (g_nodes g)"
  using assms(2,3)
proof (induction k arbitrary: w)
  case (Suc k)
  then obtain v where "flows g up v w" by (auto elim: relpowp_Suc_E)
  with assms(1) show ?case by (auto simp: flows_def graph_ok_def neighbor_def split: if_splits)
qed simp

lemma nodes_by_id_get:
  assumes "distinct (map n_id ns)"
  shows "map_of (dict_of (map (\<lambda>n. (n_id n, n)) ns)) i = Some n \<longleftrightarrow> n \<in> set ns \<and> n_id n = i"
proof -
  have d: "distinct (map fst (map (\<lambda>n. (n_id n, n)) ns))" using assms by (simp add: comp_def)
  have "map_of (map (\<lambda>n. (n_id n, n)) ns) i = Some n \<longleftrightarrow> (i, n) \<in> set (map (\<lambda>n. (n_id n, n)) ns)"
    by (rule map_of_eq_Some_iff [OF d])
  then show ?thesis unfolding dict_of_get_distinct [OF d] by auto
qed

lemma walked_edges:
  assumes "graph_ok g" and "walk_result g direction root depth D E"
  shows "set (map snd (sort_key fst E)) = {e \<in> set (g_edges g). walk_takes g direction root depth e}"
    and "map e_id (map snd (sort_key fst E)) = map fst (sort_key fst E)"
proof -
  have items: "k = e_id e \<and> e \<in> set (g_edges g)" if "(k, e) \<in> set E" for k e
    using assms(2) that by (auto simp: walk_result_def dicts_ok_def)
  have keys: "fst ` set E = e_id ` {e \<in> set (g_edges g). walk_takes g direction root depth e}"
    using assms(2) by (simp add: walk_result_def)
  have inj: "inj_on e_id (set (g_edges g))" using assms(1) by (simp add: graph_ok_def distinct_map)
  have img: "e_id ` snd ` set E = fst ` set E" using items by force
  have "snd ` set E = {e \<in> set (g_edges g). walk_takes g direction root depth e}"
    by (rule inj_on_image_eq_iff [OF inj, THEN iffD1]) (use img keys items in auto)
  then show "set (map snd (sort_key fst E)) = {e \<in> set (g_edges g). walk_takes g direction root depth e}" by simp
  show "map e_id (map snd (sort_key fst E)) = map fst (sort_key fst E)"
    using items by (auto simp: comp_def)
qed

lemma res_map_all2:
  "\<forall>x\<in>set xs. \<exists>y. f x = Inr y \<and> Q x y \<Longrightarrow> \<exists>ys. res_map f xs = Inr ys \<and> list_all2 Q xs ys"
  by (induction xs) auto

lemma lineage_nodes:
  assumes d: "distinct (map n_id ns)" and D: "fst ` set D \<subseteq> n_id ` set ns"
  shows "\<exists>ys. res_map (\<lambda>(i, e). case map_of (dict_of (map (\<lambda>n. (n_id n, n)) ns)) i of
        None \<Rightarrow> Inl (MissingNode i) | Some n \<Rightarrow> Inr (n, e)) D = Inr ys
    \<and> map (\<lambda>(n, e). (n_id n, e)) ys = D \<and> (\<forall>n e. (n, e) \<in> set ys \<longleftrightarrow> n \<in> set ns \<and> (n_id n, e) \<in> set D)"
proof -
  let ?f = "\<lambda>(i, e). case map_of (dict_of (map (\<lambda>n. (n_id n, n)) ns)) i of
        None \<Rightarrow> Inl (MissingNode i) | Some n \<Rightarrow> Inr (n, e)"
  let ?Q = "\<lambda>x y. x = (n_id (fst y), snd y) \<and> fst y \<in> set ns"
  have "\<exists>y. ?f x = Inr y \<and> ?Q x y" if "x \<in> set D" for x
  proof -
    have "fst x \<in> n_id ` set ns" using D that by auto
    then obtain n where n: "n \<in> set ns" "n_id n = fst x" by auto
    then have "map_of (dict_of (map (\<lambda>n. (n_id n, n)) ns)) (fst x) = Some n"
      by (simp add: nodes_by_id_get [OF d])
    with n show ?thesis by (intro exI [of _ "(n, snd x)"]) (auto simp: split_beta)
  qed
  then obtain ys where ys: "res_map ?f D = Inr ys" "list_all2 ?Q D ys"
    using res_map_all2 [of D ?f ?Q] by blast
  have eq: "map (\<lambda>(n, e). (n_id n, e)) ys = D" "fst ` set ys \<subseteq> set ns"
    using ys(2) by (induction D ys rule: list_all2_induct) (auto simp: split_beta)
  have "(n, e) \<in> set ys" if n: "n \<in> set ns" "(n_id n, e) \<in> set D" for n e
  proof -
    have "(n_id n, e) \<in> set (map (\<lambda>(n, e). (n_id n, e)) ys)" using n(2) by (simp only: eq(1))
    then obtain m where m: "(m, e) \<in> set ys" "n_id m = n_id n" by auto
    then have "m \<in> set ns" using eq(2) by auto
    with m n(1) d have "m = n" by (auto simp: distinct_map dest: inj_onD)
    with m show ?thesis by simp
  qed
  with ys(1) eq show ?thesis by (intro exI [of _ ys]) force
qed

text \<open>
  C25. A lineage walk from a node of a closed graph with unique ids returns; its nodes are exactly the
  graph's nodes within \<open>depth\<close> hops of the root in the direction asked for, each once with its least hop
  count and ordered by (depth, id); its edges are exactly the edges that leave, in a walked direction, a node
  closer than \<open>depth\<close>, each once and ordered by id. An unbounded walk and the walk in both directions
  are included.
\<close>

theorem get_lineage_exact:
  assumes "graph_ok g" and "root \<in> n_id ` set (g_nodes g)"
    and "direction \<in> set DIRECTIONS" and "depth = None \<or> 0 \<le> the depth"
  shows "\<exists>r. get_lineage g root direction depth = Inr r
    \<and> (\<forall>n d. (n, d) \<in> set (l_nodes r) \<longleftrightarrow>
         n \<in> set (g_nodes g) \<and> walk_distance g direction root (n_id n) d \<and> within depth d)
    \<and> sorted (map (\<lambda>(n, d). (d, n_id n)) (l_nodes r)) \<and> distinct (map (\<lambda>(n, d). n_id n) (l_nodes r))
    \<and> set (l_edges r) = {e \<in> set (g_edges g). walk_takes g direction root depth e}
    \<and> sorted (map e_id (l_edges r)) \<and> distinct (map e_id (l_edges r))"
proof -
  obtain D E where run: "walk_state g root direction depth = (D, E)"
    by (cases "walk_state g root direction depth")
  note res = walk_state_exact [OF assms(4) run]
  have wf: "dict_wf D" "dict_wf E" using res by (auto simp: walk_result_def dicts_ok_def)
  have D: "(w, d) \<in> set D \<longleftrightarrow> walk_distance g direction root w d \<and> within depth d" for w d
    using res wf(1) by (auto simp: walk_result_def dict_wf_def)
  have d: "distinct (map n_id (g_nodes g))" using assms(1) by (simp add: graph_ok_def)
  have ends: "fst ` set (sort_key (\<lambda>(i, d). (d, i)) D) \<subseteq> n_id ` set (g_nodes g)"
    using reaches_nodes [OF assms(1,2)] by (auto simp: D walk_distance_def hop_distance_def)
  from lineage_nodes [OF d ends] obtain ns where
    map: "res_map (\<lambda>(i, d). case map_of (dict_of (map (\<lambda>n. (n_id n, n)) (g_nodes g))) i of
        None \<Rightarrow> Inl (MissingNode i) | Some n \<Rightarrow> Inr (n, d)) (sort_key (\<lambda>(i, d). (d, i)) D) = Inr ns"
    and ids: "map (\<lambda>(n, d). (n_id n, d)) ns = sort_key (\<lambda>(i, d). (d, i)) D"
    and mem: "\<And>n d. (n, d) \<in> set ns \<longleftrightarrow> n \<in> set (g_nodes g) \<and> (n_id n, d) \<in> set D" by auto
  let ?r = "\<lparr>l_root = root, l_direction = direction, l_depth = depth, l_nodes = ns,
    l_edges = map snd (sort_key fst E), l_cycles = cycles (dict_keys D) (map snd E)\<rparr>"
  have "dict_has (dict_of (map (\<lambda>n. (n_id n, n)) (g_nodes g))) root"
    using assms(2) by (auto simp: dict_has_def nodes_by_id_get [OF d])
  then have get: "get_lineage g root direction depth = Inr ?r"
    using assms(3,4) map by (auto simp: get_lineage_def run Let_def)
  have "map (\<lambda>(n, d). (d, n_id n)) ns = map (\<lambda>(i, d). (d, i)) (map (\<lambda>(n, d). (n_id n, d)) ns)"
    and "map (\<lambda>(n, d). n_id n) ns = map fst (map (\<lambda>(n, d). (n_id n, d)) ns)" by auto
  then have keys: "sorted (map (\<lambda>(n, d). (d, n_id n)) ns)" "distinct (map (\<lambda>(n, d). n_id n) ns)"
    unfolding ids using wf(1) by (simp_all only: sorted_sort_key) (simp add: dict_wf_def distinct_map)
  have "distinct (map fst (sort_key fst E))" using wf by (simp add: dict_wf_def distinct_map)
  with walked_edges [OF assms(1) res] get keys mem D show ?thesis
    by (intro exI [of _ ?r]) (simp only: lineage.simps sorted_sort_key simp_thms)
qed

lemma ex_graph_ok: "graph_ok ex_graph"
  by (simp add: graph_ok_def ex_graph_def ex_nodes_def ex_edges_def edge_id_def)

theorem get_lineage_exact_witness:
  "\<exists>r. get_lineage ex_graph ''w.s.v'' ''both'' (Some 1) = Inr r
    \<and> (\<forall>n d. (n, d) \<in> set (l_nodes r) \<longleftrightarrow>
         n \<in> set (g_nodes ex_graph) \<and> walk_distance ex_graph ''both'' ''w.s.v'' (n_id n) d \<and> within (Some 1) d)
    \<and> sorted (map (\<lambda>(n, d). (d, n_id n)) (l_nodes r)) \<and> distinct (map (\<lambda>(n, d). n_id n) (l_nodes r))
    \<and> set (l_edges r) = {e \<in> set (g_edges ex_graph). walk_takes ex_graph ''both'' ''w.s.v'' (Some 1) e}
    \<and> sorted (map e_id (l_edges r)) \<and> distinct (map e_id (l_edges r))"
  by (rule get_lineage_exact [OF ex_graph_ok]) (simp_all add: ex_graph_def ex_nodes_def DIRECTIONS_def)

text \<open>
  A walk that cannot be answered says so: an unknown direction and a negative depth are errors
  whatever the graph, and a name that is no node of the graph has an empty lineage, not an error.
\<close>

theorem get_lineage_edge_cases:
  "get_lineage g root direction depth =
     (if direction \<notin> set DIRECTIONS then Inl (BadDirection direction)
      else if depth \<noteq> None \<and> the depth < 0 then Inl (BadDepth (the depth))
      else Inr \<lparr>l_root = root, l_direction = direction, l_depth = depth, l_nodes = [], l_edges = [], l_cycles = []\<rparr>)"
  if "direction \<notin> set DIRECTIONS \<or> (depth \<noteq> None \<and> the depth < 0) \<or> root \<notin> n_id ` set (g_nodes g)"
proof -
  have "dict_has (dict_of (map (\<lambda>n. (n_id n, n)) (g_nodes g))) root \<longleftrightarrow> root \<in> n_id ` set (g_nodes g)"
    unfolding dict_has_def alist.in_keys [symmetric] dict_of_keys_set by (simp add: image_image)
  with that show ?thesis by (auto simp: get_lineage_def Let_def)
qed

theorem get_lineage_edge_cases_witness:
  "get_lineage ex_graph ''w.s.unknown'' ''upstream'' (Some 3) =
     (if ''upstream'' \<notin> set DIRECTIONS then Inl (BadDirection ''upstream'')
      else if Some (3::int) \<noteq> None \<and> the (Some (3::int)) < 0 then Inl (BadDepth (the (Some 3)))
      else Inr \<lparr>l_root = ''w.s.unknown'', l_direction = ''upstream'', l_depth = Some 3, l_nodes = [],
        l_edges = [], l_cycles = []\<rparr>)"
  by (rule get_lineage_edge_cases) (simp add: ex_graph_def ex_nodes_def)

section \<open>The reported edges break every cycle\<close>

fun stack_ok :: "(string \<Rightarrow> (string \<times> string) list) \<Rightarrow> (string \<times> string \<Rightarrow> bool) \<Rightarrow> string option
    \<Rightarrow> (string \<times> nat) list \<Rightarrow> bool" where
  "stack_ok out good child [] = True"
| "stack_ok out good child ((p, i) # rest) \<longleftrightarrow>
     i \<le> length (out p) \<and> (\<forall>x\<in>set (take i (out p)). good x \<or> child = Some (fst x))
     \<and> (\<forall>c. child = Some c \<longrightarrow> c \<in> fst ` set (out p)) \<and> stack_ok out good (Some p) rest"

definition settled :: "dfs_state \<Rightarrow> string \<times> string \<Rightarrow> bool" where
  "settled s x \<longleftrightarrow> snd x \<in> set (d_closing s) \<or> map_of (d_color s) (fst x) = Some Black"

definition ranked :: "(string \<Rightarrow> (string \<times> string) list) \<Rightarrow> dfs_state \<Rightarrow> bool" where
  "ranked out s \<longleftrightarrow> (\<exists>rank :: string \<Rightarrow> nat. \<forall>u. map_of (d_color s) u = Some Black \<longrightarrow>
     (\<forall>(v, eid)\<in>set (out u). eid \<in> set (d_closing s)
        \<or> (map_of (d_color s) v = Some Black \<and> rank v < rank u)))"

definition on_cycle :: "(string \<Rightarrow> (string \<times> string) list) \<Rightarrow> string \<Rightarrow> bool" where
  "on_cycle out eid \<longleftrightarrow> (\<exists>u v. (v, eid) \<in> set (out u) \<and> (\<lambda>x y. y \<in> fst ` set (out x))\<^sup>*\<^sup>* v u)"

definition dfs_inv :: "(string \<Rightarrow> (string \<times> string) list) \<Rightarrow> string list \<Rightarrow> dfs_state \<Rightarrow> bool" where
  "dfs_inv out ids s \<longleftrightarrow> dom (map_of (d_color s)) = set ids
     \<and> distinct (map fst (d_stack s))
     \<and> (\<forall>n. map_of (d_color s) n = Some Gray \<longleftrightarrow> n \<in> fst ` set (d_stack s))
     \<and> stack_ok out (settled s) None (d_stack s)
     \<and> ranked out s \<and> (\<forall>eid\<in>set (d_closing s). on_cycle out eid)"

lemma stack_ok_mono:
  "stack_ok out good child stack \<Longrightarrow> (\<And>x. good x \<Longrightarrow> good' x) \<Longrightarrow> stack_ok out good' child stack"
  by (induction out good child stack rule: stack_ok.induct) auto

lemma stack_ok_pop:
  assumes "stack_ok out good (Some n) stack" and "\<And>x. good x \<or> fst x = n \<Longrightarrow> good' x"
  shows "stack_ok out good' None stack"
proof (cases stack)
  case (Cons e rest)
  obtain p i where e: "e = (p, i)" by (cases e)
  have "stack_ok out good (Some p) rest" using assms(1) Cons e by simp
  then have "stack_ok out good' (Some p) rest" by (rule stack_ok_mono) (simp add: assms(2))
  with assms Cons e show ?thesis by (auto simp: eq_commute)
qed simp

lemma stack_path:
  "stack_ok out good child ((p, i) # rest) \<Longrightarrow> q \<in> fst ` set ((p, i) # rest) \<Longrightarrow>
   (\<lambda>x y. y \<in> fst ` set (out x))\<^sup>*\<^sup>* q p"
proof (induction rest arbitrary: p i child)
  case (Cons e rest)
  obtain p' i' where e: "e = (p', i')" by (cases e)
  show ?case
  proof (cases "q = p")
    case False
    have "stack_ok out good (Some p) ((p', i') # rest)" using Cons.prems(1) e by simp
    moreover have "q \<in> fst ` set ((p', i') # rest)" using Cons.prems(2) e False by auto
    ultimately have "(\<lambda>x y. y \<in> fst ` set (out x))\<^sup>*\<^sup>* q p'" by (rule Cons.IH)
    moreover have "p \<in> fst ` set (out p')" using Cons.prems(1) e by simp
    ultimately show ?thesis by (rule rtranclp.rtrancl_into_rtrancl)
  qed simp
qed simp

lemma dfs_invD:
  assumes "dfs_inv out ids s"
  shows "dom (map_of (d_color s)) = set ids" and "distinct (map fst (d_stack s))"
    and "map_of (d_color s) n = Some Gray \<longleftrightarrow> n \<in> fst ` set (d_stack s)"
    and "stack_ok out (settled s) None (d_stack s)" and "ranked out s"
    and "eid \<in> set (d_closing s) \<Longrightarrow> on_cycle out eid"
  using assms unfolding dfs_inv_def by blast+

lemma ranked_mono:
  assumes "ranked out s" and "set (d_closing s) \<subseteq> set (d_closing t)"
    and "\<And>n. map_of (d_color t) n = Some Black \<longleftrightarrow> map_of (d_color s) n = Some Black"
  shows "ranked out t"
proof -
  obtain rank :: "string \<Rightarrow> nat" where rank: "\<forall>u. map_of (d_color s) u = Some Black \<longrightarrow>
      (\<forall>(v, eid)\<in>set (out u). eid \<in> set (d_closing s) \<or> (map_of (d_color s) v = Some Black \<and> rank v < rank u))"
    using assms(1) unfolding ranked_def by blast
  show ?thesis
    unfolding ranked_def assms(3) by (rule exI [of _ rank]) (use rank assms(2) in blast)
qed

text \<open>An examined edge that is not blackened or reported keeps the rest of the invariant.\<close>

lemma dfs_advance:
  assumes inv: "dfs_inv out ids s" and st: "d_stack s = (n, i) # rest" and i: "i < length (out n)"
    and x: "out n ! i = (target, eid)"
    and t: "t = s\<lparr>d_stack := (n, i + 1) # rest, d_closing := d_closing s @ extra\<rparr>"
    and settled: "settled t (target, eid)" and sound: "\<And>k. k \<in> set extra \<Longrightarrow> on_cycle out k"
  shows "dfs_inv out ids t"
proof -
  have mono: "settled s y \<Longrightarrow> settled t y" for y by (auto simp: settled_def t)
  have ok: "stack_ok out (settled s) None ((n, i) # rest)" using dfs_invD(4) [OF inv] st by simp
  then have "stack_ok out (settled s) (Some n) rest" by simp
  then have "stack_ok out (settled t) (Some n) rest" by (rule stack_ok_mono) (rule mono)
  moreover have "take (i + 1) (out n) = take i (out n) @ [(target, eid)]"
    using i x by (simp add: take_Suc_conv_app_nth)
  moreover have "\<forall>x\<in>set (take i (out n)). settled t x"
  proof
    fix y assume "y \<in> set (take i (out n))"
    with ok have "settled s y" by simp
    then show "settled t y" by (rule mono)
  qed
  ultimately have "stack_ok out (settled t) None ((n, i + 1) # rest)"
    using i settled by simp
  moreover have "ranked out t" by (rule ranked_mono [OF dfs_invD(5) [OF inv]]) (simp_all add: t)
  moreover have "\<forall>k\<in>set (d_closing t). on_cycle out k" using dfs_invD(6) [OF inv] sound by (simp add: t ball_Un)
  ultimately show ?thesis
    using dfs_invD(1,2,3) [OF inv] st by (simp add: dfs_inv_def t)
qed

lemma dfs_push:
  assumes inv: "dfs_inv out ids s" and st: "d_stack s = (n, i) # rest" and i: "i < length (out n)"
    and x: "out n ! i = (target, eid)" and white: "map_of (d_color s) target = Some White"
    and t: "t = s\<lparr>d_color := dict_set target Gray (d_color s), d_stack := (target, 0) # (n, i + 1) # rest\<rparr>"
  shows "dfs_inv out ids t"
proof -
  have black: "map_of (d_color t) m = Some Black \<longleftrightarrow> map_of (d_color s) m = Some Black" for m
    using white by (simp add: t update_conv)
  then have same: "settled t = settled s" by (auto simp: fun_eq_iff settled_def t)
  have ok: "stack_ok out (settled s) None ((n, i) # rest)" using dfs_invD(4) [OF inv] st by simp
  have "take (i + 1) (out n) = take i (out n) @ [(target, eid)]"
    using i x by (simp add: take_Suc_conv_app_nth)
  moreover have "target \<in> fst ` set (out n)" using i x by (metis fst_conv image_eqI nth_mem)
  ultimately have "stack_ok out (settled t) None ((target, 0) # (n, i + 1) # rest)"
    using ok i by (auto simp: same)
  moreover have "ranked out t" by (rule ranked_mono [OF dfs_invD(5) [OF inv] _ black]) (simp add: t)
  moreover have "target \<notin> fst ` set ((n, i) # rest)"
    using dfs_invD(3) [OF inv, of target] white st by simp
  moreover have "map_of (d_color t) m = Some Gray \<longleftrightarrow> m \<in> fst ` set (d_stack t)" for m
    using dfs_invD(3) [OF inv, of m] st by (auto simp: t update_conv)
  moreover have "dom (map_of (d_color t)) = set ids"
    using dfs_invD(1) [OF inv] white by (auto simp: t update_conv')
  ultimately show ?thesis
    using dfs_invD(2,6) [OF inv] st by (simp add: dfs_inv_def t)
qed

lemma dfs_finish:
  assumes inv: "dfs_inv out ids s" and st: "d_stack s = (n, i) # rest" and i: "\<not> i < length (out n)"
    and t: "t = s\<lparr>d_color := dict_set n Black (d_color s), d_stack := rest\<rparr>"
  shows "dfs_inv out ids t"
proof -
  have gray: "map_of (d_color s) n = Some Gray" using dfs_invD(3) [OF inv, of n] st by simp
  have ok: "stack_ok out (settled s) None ((n, i) # rest)" using dfs_invD(4) [OF inv] st by simp
  then have "stack_ok out (settled s) (Some n) rest" by simp
  then have rest: "stack_ok out (settled t) None rest"
    by (rule stack_ok_pop) (auto simp: settled_def t update_conv')
  have outs: "settled s y" if "y \<in> set (out n)" for y using ok i that by simp
  obtain rank :: "string \<Rightarrow> nat" where rank: "\<And>u. map_of (d_color s) u = Some Black \<Longrightarrow>
      (\<forall>(v, eid)\<in>set (out u). eid \<in> set (d_closing s) \<or> (map_of (d_color s) v = Some Black \<and> rank v < rank u))"
    using dfs_invD(5) [OF inv] unfolding ranked_def by blast
  let ?r = "rank(n := Suc (\<Sum>x\<leftarrow>out n. rank (fst x)))"
  have "ranked out t"
    unfolding ranked_def
  proof (intro exI [of _ ?r] allI impI ballI)
    fix u x assume u: "map_of (d_color t) u = Some Black" and x: "x \<in> set (out u)"
    obtain v eid where veid: "x = (v, eid)" by (cases x)
    have "eid \<in> set (d_closing s) \<or> (map_of (d_color s) v = Some Black \<and> v \<noteq> n \<and> rank v < ?r u)"
    proof (cases "u = n")
      case True
      have "rank v \<le> (\<Sum>x\<leftarrow>out n. rank (fst x))"
        using x veid True by (intro member_le_sum_list) (force, simp)
      then show ?thesis using outs [of x] x True veid gray by (auto simp: settled_def)
    next
      case False
      then show ?thesis using rank [of u] u x veid gray by (auto simp: t update_conv')
    qed
    then show "case x of (v, eid) \<Rightarrow> eid \<in> set (d_closing t) \<or>
        (map_of (d_color t) v = Some Black \<and> ?r v < ?r u)"
      by (auto simp: veid t update_conv')
  qed
  moreover have "dom (map_of (d_color t)) = set ids"
    using dfs_invD(1) [OF inv] gray by (auto simp: t update_conv')
  moreover have "map_of (d_color t) m = Some Gray \<longleftrightarrow> m \<in> fst ` set (d_stack t)" for m
    using dfs_invD(2) [OF inv] dfs_invD(3) [OF inv, of m] st by (auto simp: t update_conv')
  ultimately show ?thesis
    using dfs_invD(2,6) [OF inv] st rest by (simp add: dfs_inv_def t)
qed

lemma dfs_step_inv:
  assumes inv: "dfs_inv (out_edges adjacency) ids s" and "d_stack s \<noteq> []"
    and targets: "\<And>u. fst ` set (out_edges adjacency u) \<subseteq> set ids"
  shows "dfs_inv (out_edges adjacency) ids (dfs_step adjacency s)"
proof -
  obtain n i rest where st: "d_stack s = (n, i) # rest" using assms(2) by (cases "d_stack s") auto
  show ?thesis
  proof (cases "i < length (out_edges adjacency n)")
    case False
    then show ?thesis by (intro dfs_finish [OF inv st False]) (simp add: dfs_step_def st)
  next
    case True
    obtain target eid where x: "out_edges adjacency n ! i = (target, eid)" by (cases "out_edges adjacency n ! i")
    then have mem: "(target, eid) \<in> set (out_edges adjacency n)" using True by (metis nth_mem)
    then have "target \<in> set ids" using targets [of n] by force
    then have "target \<in> dom (map_of (d_color s))" by (simp only: dfs_invD(1) [OF inv])
    then obtain c where c: "map_of (d_color s) target = Some c" by blast
    show ?thesis
    proof (cases c)
      case White
      note 1 = c [unfolded White]
      show ?thesis by (rule dfs_push [OF inv st True x 1]) (simp add: dfs_step_def st True x 1)
    next
      case Gray
      note 2 = c [unfolded Gray]
      then have "target \<in> fst ` set ((n, i) # rest)" using dfs_invD(3) [OF inv] st by simp
      then have "(\<lambda>x y. y \<in> fst ` set (out_edges adjacency x))\<^sup>*\<^sup>* target n"
        by (rule stack_path [OF dfs_invD(4) [OF inv, unfolded st]])
      with mem have "on_cycle (out_edges adjacency) eid" unfolding on_cycle_def by blast
      then show ?thesis
        by (intro dfs_advance [OF inv st True x, where extra = "[eid]"])
          (simp_all add: dfs_step_def st True x 2 settled_def)
    next
      case Black
      note 3 = c [unfolded Black]
      show ?thesis
        by (rule dfs_advance [OF inv st True x, where extra = "[]"])
          (simp_all add: dfs_step_def st True x 3 settled_def)
    qed
  qed
qed

lemma dfs_loop_inv:
  assumes "dfs_inv (out_edges adjacency) ids s" and "\<And>u. fst ` set (out_edges adjacency u) \<subseteq> set ids"
  shows "dfs_inv (out_edges adjacency) ids (dfs_loop adjacency s) \<and> d_stack (dfs_loop adjacency s) = []"
  using assms
proof (induction adjacency s rule: dfs_loop.induct)
  case (1 adjacency s)
  then show ?case
    by (cases "d_stack s = []") (simp_all add: dfs_loop.simps [of _ s] dfs_step_inv)
qed

lemma dfs_loop_black:
  "map_of (d_color s) m \<in> {Some Gray, Some Black} \<Longrightarrow> map_of (d_color (dfs_loop adjacency s)) m \<in> {Some Gray, Some Black}"
proof (induction adjacency s rule: dfs_loop.induct)
  case (1 adjacency s)
  have "map_of (d_color (dfs_step adjacency s)) m \<in> {Some Gray, Some Black}"
    using "1.prems"
    by (auto simp: dfs_step_def Let_def update_conv' split: list.splits prod.splits option.splits color.splits)
  with "1.IH" "1.prems" show ?case
    by (cases "d_stack s = []") (simp_all add: dfs_loop.simps [of _ s])
qed

definition dfs_rest :: "(string \<Rightarrow> (string \<times> string) list) \<Rightarrow> string list \<Rightarrow> string set \<Rightarrow> dfs_state \<Rightarrow> bool" where
  "dfs_rest out ids done s \<longleftrightarrow> dfs_inv out ids s \<and> d_stack s = [] \<and> (\<forall>n\<in>done. map_of (d_color s) n = Some Black)"

lemma dfs_from_rest:
  assumes rest: "dfs_rest (out_edges adjacency) ids visited s" and start: "start \<in> set ids"
    and targets: "\<And>u. fst ` set (out_edges adjacency u) \<subseteq> set ids"
  shows "dfs_rest (out_edges adjacency) ids (insert start visited) (dfs_from adjacency start s)"
proof -
  have inv: "dfs_inv (out_edges adjacency) ids s" and empty: "d_stack s = []"
    and black: "n \<in> visited \<Longrightarrow> map_of (d_color s) n = Some Black" for n
    using rest by (auto simp: dfs_rest_def)
  have nogray: "map_of (d_color s) n \<noteq> Some Gray" for n using dfs_invD(3) [OF inv, of n] empty by simp
  have "start \<in> dom (map_of (d_color s))" using start by (simp only: dfs_invD(1) [OF inv])
  then obtain c where c: "map_of (d_color s) start = Some c" by blast
  show ?thesis
  proof (cases "c = White")
    case False
    with c nogray [of start] have "c = Black" by (cases c) auto
    with c rest show ?thesis by (simp add: dfs_from_def dfs_rest_def)
  next
    case True
    let ?t = "s\<lparr>d_color := dict_set start Gray (d_color s), d_stack := [(start, 0)]\<rparr>"
    let ?u = "dfs_loop adjacency ?t"
    have "ranked (out_edges adjacency) ?t"
      by (rule ranked_mono [OF dfs_invD(5) [OF inv]]) (use c True in \<open>auto simp: update_conv'\<close>)
    moreover have "dom (map_of (d_color ?t)) = set ids" using dfs_invD(1) [OF inv] c by (auto simp: update_conv')
    ultimately have "dfs_inv (out_edges adjacency) ids ?t"
      using dfs_invD(6) [OF inv] nogray by (auto simp: dfs_inv_def update_conv')
    then have u: "dfs_inv (out_edges adjacency) ids ?u" "d_stack ?u = []"
      using dfs_loop_inv [OF _ targets] by simp_all
    have "map_of (d_color ?u) n = Some Black" if "n \<in> insert start visited" for n
    proof -
      have "map_of (d_color ?u) n \<in> {Some Gray, Some Black}"
        by (rule dfs_loop_black) (use that black [of n] in \<open>auto simp: update_conv'\<close>)
      moreover have "map_of (d_color ?u) n \<noteq> Some Gray" using dfs_invD(3) [OF u(1), of n] u(2) by simp
      ultimately show ?thesis by auto
    qed
    with u show ?thesis using c True by (simp add: dfs_from_def dfs_rest_def)
  qed
qed

lemma dfs_all_rest:
  assumes "dfs_rest (out_edges adjacency) ids visited s" and "set starts \<subseteq> set ids"
    and "\<And>u. fst ` set (out_edges adjacency u) \<subseteq> set ids"
  shows "dfs_rest (out_edges adjacency) ids (visited \<union> set starts) (fold (dfs_from adjacency) starts s)"
  using assms
proof (induction starts arbitrary: visited s)
  case (Cons a starts)
  have "dfs_rest (out_edges adjacency) ids (insert a visited) (dfs_from adjacency a s)"
    by (rule dfs_from_rest [OF Cons.prems(1) _ Cons.prems(3)]) (use Cons.prems(2) in simp)
  from Cons.IH [OF this _ Cons.prems(3)] Cons.prems(2) show ?case by simp
qed simp

definition inside :: "string list \<Rightarrow> edge \<Rightarrow> bool" where
  "inside ids e \<longleftrightarrow> e_source e \<in> set ids \<and> e_target e \<in> set ids"

definition edge_rel :: "string list \<Rightarrow> edge set \<Rightarrow> (string \<times> string) set" where
  "edge_rel ids es = {(e_source e, e_target e) |e. e \<in> es \<and> inside ids e}"

lemma dict_append_fold_get:
  "(case map_of (fold (\<lambda>x. dict_append (k x) (f x)) xs d) n of None \<Rightarrow> [] | Some ys \<Rightarrow> ys) =
   (case map_of d n of None \<Rightarrow> [] | Some ys \<Rightarrow> ys) @ map f (filter (\<lambda>x. k x = n) xs)"
  by (induction xs arbitrary: d) (auto simp: dict_append_get split: option.splits)

lemma out_cycle_adjacency:
  "out_edges (cycle_adjacency ids edges) n =
     map (\<lambda>e. (e_target e, e_id e)) (filter (\<lambda>e. e_source e = n \<and> inside ids e) (sort_key e_id edges))"
  unfolding out_edges_def cycle_adjacency_def inside_def dict_append_fold_get
  by (simp add: conj_ac)

lemma out_cycle_iff:
  "(v, eid) \<in> set (out_edges (cycle_adjacency ids edges) u) \<longleftrightarrow>
     (\<exists>e\<in>set edges. inside ids e \<and> e_source e = u \<and> e_target e = v \<and> e_id e = eid)"
  by (auto simp: out_cycle_adjacency)

lemma out_cycle_rel:
  "(\<lambda>x y. y \<in> fst ` set (out_edges (cycle_adjacency ids edges) x)) = (\<lambda>x y. (x, y) \<in> edge_rel ids (set edges))"
  by (auto simp: fun_eq_iff edge_rel_def out_cycle_iff image_iff Bex_def)

lemma cycles_run:
  obtains s where "dfs_rest (out_edges (cycle_adjacency ids edges)) ids (set ids) s"
    and "cycles ids edges = sort (d_closing s)"
proof -
  let ?out = "out_edges (cycle_adjacency ids edges)"
  let ?s = "\<lparr>d_color = dict_of (map (\<lambda>n. (n, White)) ids), d_closing = [], d_stack = []\<rparr>"
  have color: "map_of (d_color ?s) n = (if n \<in> set ids then Some White else None)" for n
    by (auto simp: dict_of_get map_of_eq_None_iff rev_map map_of_map_restrict simp flip: map_map)
  have "dfs_rest ?out ids {} ?s"
    using color by (auto simp: dfs_rest_def dfs_inv_def ranked_def dom_def)
  moreover have "fst ` set (?out u) \<subseteq> set ids" for u by (auto simp: out_cycle_adjacency inside_def)
  ultimately have "dfs_rest ?out ids ({} \<union> set (sort ids)) (fold (dfs_from (cycle_adjacency ids edges)) (sort ids) ?s)"
    by (intro dfs_all_rest) simp_all
  then show thesis by (intro that) (simp_all add: cycles_def)
qed

lemma ranked_acyclic:
  fixes rank :: "string \<Rightarrow> nat"
  assumes "\<And>u v. (u, v) \<in> r \<Longrightarrow> rank v < rank u"
  shows "acyclic r"
proof (rule acyclicI, intro allI notI)
  have "rank v < rank u" if "(u, v) \<in> r\<^sup>+" for u v
    using that by (induction rule: trancl_induct) (auto dest: assms)
  then show False if "(x, x) \<in> r\<^sup>+" for x using that by fastforce
qed

text \<open>
  The cycle report of a walk is sound and complete: every reported edge id belongs to an edge of the
  subgraph that lies on a cycle, and once the reported edges are taken away no cycle is left, so
  every cycle of the returned subgraph passes through a reported edge.
\<close>

theorem cycles_exact:
  "set (cycles ids edges) \<subseteq> {e_id e |e. e \<in> set edges \<and> inside ids e
      \<and> (e_target e, e_source e) \<in> (edge_rel ids (set edges))\<^sup>*}
   \<and> acyclic (edge_rel ids {e \<in> set edges. e_id e \<notin> set (cycles ids edges)})"
proof -
  let ?out = "out_edges (cycle_adjacency ids edges)"
  obtain s where rest: "dfs_rest ?out ids (set ids) s" and eq: "cycles ids edges = sort (d_closing s)"
    by (rule cycles_run)
  from rest have inv: "dfs_inv ?out ids s" and black: "\<And>n. n \<in> set ids \<Longrightarrow> map_of (d_color s) n = Some Black"
    by (auto simp: dfs_rest_def)
  have "\<exists>e. eid = e_id e \<and> e \<in> set edges \<and> inside ids e \<and> (e_target e, e_source e) \<in> (edge_rel ids (set edges))\<^sup>*"
    if "eid \<in> set (d_closing s)" for eid
    using dfs_invD(6) [OF inv that] unfolding on_cycle_def out_cycle_rel out_cycle_iff
    by (auto simp: rtranclp_rtrancl_eq)
  moreover obtain rank :: "string \<Rightarrow> nat" where rank: "\<And>u. map_of (d_color s) u = Some Black \<Longrightarrow>
      (\<forall>(v, eid)\<in>set (?out u). eid \<in> set (d_closing s) \<or> (map_of (d_color s) v = Some Black \<and> rank v < rank u))"
    using dfs_invD(5) [OF inv] unfolding ranked_def by blast
  have "rank v < rank u" if uv: "(u, v) \<in> edge_rel ids {e \<in> set edges. e_id e \<notin> set (d_closing s)}" for u v
  proof -
    from uv obtain e where e: "e \<in> set edges" "e_id e \<notin> set (d_closing s)" "inside ids e" "u = e_source e" "v = e_target e"
      by (auto simp: edge_rel_def)
    then have "(v, e_id e) \<in> set (?out u)" by (auto simp: out_cycle_iff)
    moreover have "map_of (d_color s) u = Some Black" using e black by (simp add: inside_def)
    ultimately show ?thesis using rank [of u] e(2) by blast
  qed
  then have "acyclic (edge_rel ids {e \<in> set edges. e_id e \<notin> set (d_closing s)})" by (rule ranked_acyclic)
  ultimately show ?thesis by (auto simp: eq)
qed

end
