(* ===== verification/Lineage_Severity.thy ===== *)
theory Lineage_Severity
  imports Diff Lineage_Graph
begin

text \<open>
  Severity finalization, \<open>src/lineage/severity.py\<close>, and the diff document it works on.

  A diff document is what \<open>snapshot.diff\<close> prints for one system and what this module and
  the contamination scan read back. Of the document the record \<open>diff_doc\<close> holds the members the
  two modules read; the members nobody reads ride along in \<open>dd_rest\<close>. A flag member of a
  JSON object that is either \<open>true\<close> or absent is a \<open>bool\<close>.
\<close>

section \<open>Diff documents\<close>

record doc_sub =
  ds_change :: string
  ds_severity :: severity
  ds_detail :: "(string, json) dict"
  ds_downgradable :: bool
  ds_downgraded :: bool

record doc_object =
  do_identity :: identity
  do_severity :: "severity option"
  do_subs :: "doc_sub list"

record diff_doc =
  dd_system :: string
  dd_added :: "identity list"
  dd_removed :: "identity list"
  dd_changed :: "doc_object list"
  dd_finalized :: bool
  dd_rest :: "(string, json) dict"

definition doc_sub_of :: "sub_diff \<Rightarrow> doc_sub" where
  "doc_sub_of s = \<lparr>ds_change = sd_change s, ds_severity = sd_severity s, ds_detail = sd_detail s,
     ds_downgradable = sd_downgradable s, ds_downgraded = False\<rparr>"

definition doc_object_of :: "object_diff \<Rightarrow> doc_object" where
  "doc_object_of od = \<lparr>do_identity = od_identity od, do_severity = od_severity od,
     do_subs = map doc_sub_of (od_sub_diffs od)\<rparr>"

definition diff_doc_of :: "snapshot_diff \<Rightarrow> diff_doc" where
  "diff_doc_of d = \<lparr>dd_system = d_system d, dd_added = map od_identity (d_added d),
     dd_removed = map od_identity (d_removed d), dd_changed = map doc_object_of (d_changed_structural d),
     dd_finalized = False,
     dd_rest = [(''changed_metadata_only'', JList (map object_diff_dict (d_changed_metadata_only d))),
       (''unchanged'', JList (map identity_dict (d_unchanged d)))]\<rparr>"

section \<open>finalize_severity\<close>

datatype finalize_error = GraphsMissing string

definition COLUMN_SHAPING :: "string list" where
  "COLUMN_SHAPING = [''column_added'', ''column_removed'', ''column_type_changed'', ''column_ordinal_changed'']"

definition incoming :: "graph \<Rightarrow> string \<Rightarrow> (string, (string \<times> string list) list) dict" where
  "incoming g name = dict_of (map (\<lambda>e. (e_id e, sort (map (\<lambda>m. (m_to m, sort (m_from m))) (e_columns e))))
     (filter (\<lambda>e. e_target e = name) (g_edges g)))"

definition dict_eq :: "('k, 'v) dict \<Rightarrow> ('k, 'v) dict \<Rightarrow> bool" where
  "dict_eq d e \<longleftrightarrow> list_all (\<lambda>k. map_of d k = map_of e k) (dict_keys d @ dict_keys e)"

definition downgrade_sub :: "bool \<Rightarrow> doc_sub \<Rightarrow> doc_sub" where
  "downgrade_sub unchanged s =
     (if \<not> ds_downgradable s then s
      else let s1 = s\<lparr>ds_downgradable := False\<rparr>
           in if unchanged then s1\<lparr>ds_severity := AdditiveWithNote, ds_downgraded := True\<rparr> else s1)"

definition doc_fqn :: "string \<Rightarrow> identity \<Rightarrow> string" where
  "doc_fqn system i = (case i of (kind, schema, name) \<Rightarrow> fqn system schema name)"

definition max_doc_severity :: "doc_sub list \<Rightarrow> severity" where
  "max_doc_severity subs = fold max (map ds_severity (tl subs)) (ds_severity (hd subs))"

definition finalize_object ::
  "string \<Rightarrow> graph option \<Rightarrow> graph option \<Rightarrow> doc_object \<Rightarrow> (finalize_error, doc_object) result" where
  "finalize_object system old_graph new_graph ob =
     (if \<not> list_ex ds_downgradable (do_subs ob) then Inr ob
      else case (old_graph, new_graph) of
             (Some og, Some ng) \<Rightarrow>
               let name = doc_fqn system (do_identity ob);
                   shape_changed = list_ex (\<lambda>s. ds_change s \<in> set COLUMN_SHAPING) (do_subs ob);
                   mappings_equal = dict_eq (incoming og name) (incoming ng name);
                   subs = map (downgrade_sub (\<not> shape_changed \<and> mappings_equal)) (do_subs ob)
               in Inr (ob\<lparr>do_subs := subs, do_severity := Some (max_doc_severity subs)\<rparr>)
           | _ \<Rightarrow> Inl (GraphsMissing (doc_fqn system (do_identity ob))))"

definition finalize_severity ::
  "diff_doc \<Rightarrow> graph option \<Rightarrow> graph option \<Rightarrow> (finalize_error, diff_doc) result" where
  "finalize_severity d old_graph new_graph =
     res_bind (res_map (finalize_object (dd_system d) old_graph new_graph) (dd_changed d))
       (\<lambda>changed. Inr (d\<lparr>dd_changed := changed, dd_finalized := True\<rparr>))"

text \<open>The command line: what was read from each file, and the exit code with the document printed.\<close>

datatype 'a loaded = LoadFailed | Loaded 'a

definition severity_main ::
  "diff_doc loaded \<Rightarrow> graph loaded option \<Rightarrow> graph loaded option \<Rightarrow> nat \<times> diff_doc option" where
  "severity_main d old_graph new_graph =
     (if (old_graph = None) \<noteq> (new_graph = None) then (2, None)
      else case d of
             LoadFailed \<Rightarrow> (2, None)
           | Loaded doc \<Rightarrow>
               if old_graph = Some LoadFailed \<or> new_graph = Some LoadFailed then (2, None)
               else let graph_of = (\<lambda>g. case g of Some (Loaded x) \<Rightarrow> Some x | _ \<Rightarrow> None)
                    in case finalize_severity doc (graph_of old_graph) (graph_of new_graph) of
                         Inl _ \<Rightarrow> (2, None)
                       | Inr out \<Rightarrow> (0, Some out))"

section \<open>Properties\<close>

lemma dict_eq_iff: "dict_eq d e \<longleftrightarrow> map_of d = map_of e"
proof
  assume *: "dict_eq d e"
  show "map_of d = map_of e"
  proof
    fix k
    show "map_of d k = map_of e k"
    proof (cases "k \<in> set (dict_keys d @ dict_keys e)")
      case True
      with * show ?thesis by (auto simp: dict_eq_def list_all_iff)
    next
      case False
      then have "map_of d k = None" "map_of e k = None" by (auto simp: dict_keys_def map_of_eq_None_iff)
      then show ?thesis by simp
    qed
  qed
qed (simp add: dict_eq_def list_all_iff)

lemma fold_max_ge: "(x :: 'a :: linorder) \<le> fold max xs x" "y \<in> set xs \<Longrightarrow> y \<le> fold max xs x"
proof -
  show base: "x \<le> fold max xs x" for x :: 'a and xs
    by (induction xs arbitrary: x) (auto intro: order_trans [OF max.cobounded2] order_trans [OF max.cobounded1])
  show "y \<in> set xs \<Longrightarrow> y \<le> fold max xs x"
  proof (induction xs arbitrary: x)
    case (Cons a xs)
    then show ?case using base [of "max a x" xs] by (auto intro: order_trans)
  qed simp
qed

lemma fold_max_in: "fold max xs (x :: 'a :: linorder) \<in> insert x (set xs)"
proof (induction xs arbitrary: x)
  case (Cons a xs)
  then show ?case using Cons.IH [of "max a x"] by (auto simp: max_def split: if_splits)
qed simp

lemma max_doc_severity_Breaking:
  assumes "subs \<noteq> []"
  shows "max_doc_severity subs = Breaking \<longleftrightarrow> (\<exists>s\<in>set subs. ds_severity s = Breaking)"
proof
  assume "max_doc_severity subs = Breaking"
  then have "Breaking \<in> insert (ds_severity (hd subs)) (set (map ds_severity (tl subs)))"
    using fold_max_in [of "map ds_severity (tl subs)" "ds_severity (hd subs)"] by (simp add: max_doc_severity_def)
  then show "\<exists>s\<in>set subs. ds_severity s = Breaking"
    using assms by (cases subs) (simp_all add: image_iff, metis)
next
  assume "\<exists>s\<in>set subs. ds_severity s = Breaking"
  then have "Breaking = ds_severity (hd subs) \<or> Breaking \<in> set (map ds_severity (tl subs))"
    using assms by (cases subs) (auto simp: eq_commute [of Breaking] image_iff)
  then have "Breaking \<le> max_doc_severity subs"
    unfolding max_doc_severity_def by (auto intro: fold_max_ge simp del: Breaking_le)
  then show "max_doc_severity subs = Breaking" by simp
qed

text \<open>What note 3 of the snapshot specification asks of a definition change.\<close>

definition meaning_kept :: "graph \<Rightarrow> graph \<Rightarrow> string \<Rightarrow> doc_object \<Rightarrow> bool" where
  "meaning_kept og ng system ob \<longleftrightarrow>
     (\<forall>s\<in>set (do_subs ob). ds_change s \<notin> set COLUMN_SHAPING)
     \<and> map_of (incoming og (doc_fqn system (do_identity ob))) = map_of (incoming ng (doc_fqn system (do_identity ob)))"

definition still_breaking :: "graph \<Rightarrow> graph \<Rightarrow> string \<Rightarrow> doc_object \<Rightarrow> doc_sub \<Rightarrow> bool" where
  "still_breaking og ng system ob s \<longleftrightarrow>
     ds_severity s = Breaking \<and> \<not> (ds_downgradable s \<and> meaning_kept og ng system ob)"

definition severity_sound :: "doc_object \<Rightarrow> bool" where
  "severity_sound ob \<longleftrightarrow>
     (do_subs ob \<noteq> [] \<longrightarrow> (do_severity ob = Some Breaking \<longleftrightarrow> (\<exists>s\<in>set (do_subs ob). ds_severity s = Breaking)))"

lemma diff_doc_sound:
  assumes "diff_snapshots ho sha v old new = Inr sd" and "ob \<in> set (dd_changed (diff_doc_of sd))"
  shows "severity_sound ob"
proof -
  from assms obtain a b where "ob = doc_object_of (diff_object ho a b)"
    by (auto simp: diff_snapshots_def diff_doc_of_def diff_indexed_def diff_common_def Let_def res_bind_Inr_iff
        split: if_splits prod.splits)
  then show ?thesis
    by (auto simp: severity_sound_def doc_object_of_def diff_object_def Let_def max_severity_Breaking doc_sub_of_def
        ObjectDiff_def)
qed

lemma downgrade_breaking:
  "ds_severity (downgrade_sub u s) = Breaking \<longleftrightarrow> ds_severity s = Breaking \<and> \<not> (ds_downgradable s \<and> u)"
  by (simp add: downgrade_sub_def Let_def)

lemma finalize_object_Inr:
  assumes "finalize_object system (Some og) (Some ng) ob = Inr ob'" and "severity_sound ob"
  shows "do_identity ob' = do_identity ob
    \<and> (do_severity ob' = Some Breaking \<longleftrightarrow>
         (if do_subs ob = [] then do_severity ob = Some Breaking
          else list_ex (still_breaking og ng system ob) (do_subs ob)))"
proof (cases "list_ex ds_downgradable (do_subs ob)")
  case False
  then have none: "\<not> ds_downgradable s" if "s \<in> set (do_subs ob)" for s
    using that by (auto simp: list_ex_iff)
  have "list_ex (still_breaking og ng system ob) (do_subs ob) \<longleftrightarrow> (\<exists>s\<in>set (do_subs ob). ds_severity s = Breaking)"
    using none by (auto simp: list_ex_iff still_breaking_def)
  then show ?thesis using assms False by (simp add: finalize_object_def severity_sound_def)
next
  case True
  let ?u = "meaning_kept og ng system ob"
  have u: "(\<not> list_ex (\<lambda>s. ds_change s \<in> set COLUMN_SHAPING) (do_subs ob)
      \<and> dict_eq (incoming og (doc_fqn system (do_identity ob))) (incoming ng (doc_fqn system (do_identity ob)))) = ?u"
    by (auto simp: meaning_kept_def dict_eq_iff list_ex_iff)
  then have ob': "ob' = ob\<lparr>do_subs := map (downgrade_sub ?u) (do_subs ob),
      do_severity := Some (max_doc_severity (map (downgrade_sub ?u) (do_subs ob)))\<rparr>"
    using assms(1) True unfolding finalize_object_def u [symmetric] by (simp add: Let_def)
  have ne: "do_subs ob \<noteq> []" using True by auto
  then have "max_doc_severity (map (downgrade_sub ?u) (do_subs ob)) = Breaking \<longleftrightarrow>
      list_ex (still_breaking og ng system ob) (do_subs ob)"
    by (subst max_doc_severity_Breaking) (auto simp: downgrade_breaking still_breaking_def list_ex_iff)
  with ob' ne show ?thesis by simp
qed

lemma res_map_list_all2:
  "res_map f xs = Inr ys \<Longrightarrow> list_all2 (\<lambda>x y. f x = Inr y) xs ys"
  by (induction xs arbitrary: ys) (auto simp: res_bind_Inr_iff)

text \<open>
  C28. From two snapshots to the final breaking set: after the diff and the finalization against the
  old and the re-derived graph, a changed object is breaking exactly when one of its sub-changes is
  breaking and is not a definition change whose output columns and incoming column mappings are the same in
  both graphs. An object without sub-changes, whose hash alone has changed, keeps the severity the diff gave it, so it is breaking
  exactly if it was. No object is dropped, added or reordered.
\<close>

theorem finalize_breaking_exact:
  assumes "diff_snapshots ho sha v old new = Inr sd"
    and "finalize_severity (diff_doc_of sd) (Some og) (Some ng) = Inr out"
  shows "list_all2 (\<lambda>ob ob'. do_identity ob' = do_identity ob
      \<and> (do_severity ob' = Some Breaking \<longleftrightarrow>
          (if do_subs ob = [] then do_severity ob = Some Breaking
           else list_ex (still_breaking og ng (d_system sd) ob) (do_subs ob))))
    (dd_changed (diff_doc_of sd)) (dd_changed out)"
proof -
  have "list_all2 (\<lambda>ob ob'. finalize_object (d_system sd) (Some og) (Some ng) ob = Inr ob')
      (dd_changed (diff_doc_of sd)) (dd_changed out)"
    using assms(2) by (auto simp: finalize_severity_def res_bind_Inr_iff diff_doc_of_def dest!: res_map_list_all2)
  then show ?thesis
    by (rule list.rel_mono_strong) (use diff_doc_sound [OF assms(1)] in \<open>auto dest: finalize_object_Inr\<close>)
qed

lemma finalize_object_stable:
  assumes "finalize_object system og ng ob = Inr ob'"
  shows "finalize_object system og' ng' ob' = Inr ob'"
proof -
  have "\<not> ds_downgradable (downgrade_sub u s)" for u s by (simp add: downgrade_sub_def Let_def)
  then have "\<not> list_ex ds_downgradable (do_subs ob')"
    using assms by (auto simp: finalize_object_def Let_def list_ex_iff split: if_splits option.splits)
  then show ?thesis by (simp add: finalize_object_def)
qed

text \<open>
  Finalization is final: a finalized document carries no downgradable change any more, so finalizing
  it again changes nothing and needs no graph.
\<close>

theorem finalize_severity_idempotent:
  assumes "finalize_severity d og ng = Inr out"
  shows "finalize_severity out og' ng' = Inr out"
proof -
  from assms obtain changed where changed: "res_map (finalize_object (dd_system d) og ng) (dd_changed d) = Inr changed"
    and out: "out = d\<lparr>dd_changed := changed, dd_finalized := True\<rparr>"
    by (auto simp: finalize_severity_def res_bind_Inr_iff)
  have "\<forall>x\<in>set changed. finalize_object (dd_system d) og' ng' x = Inr x"
    using res_map_Inr_set [OF changed] by (blast intro: finalize_object_stable)
  then have "res_map (finalize_object (dd_system d) og' ng') changed = Inr changed"
    by (induction changed) simp_all
  then show ?thesis by (simp add: finalize_severity_def out)
qed

definition ex_view :: "string \<Rightarrow> string \<Rightarrow> obj" where
  "ex_view h d = (ex_table [ex_col ''id'' 1 None])\<lparr>o_kind := ''view'', o_name := ''v'', o_schema_hash := h,
     o_stats := [(''definition'', JStr d)]\<rparr>"

definition ex_view_diff :: "(diff_error, snapshot_diff) result" where
  "ex_view_diff = diff_snapshots id_order id False
     (ex_snapshot ''t1'' [ex_view ''h1'' ''select id'']) (ex_snapshot ''t2'' [ex_view ''h2'' ''select  id''])"

lemma ex_view_final:
  "\<exists>sd out. ex_view_diff = Inr sd \<and> finalize_severity (diff_doc_of sd) (Some ex_graph) (Some ex_graph) = Inr out
     \<and> map do_severity (dd_changed (diff_doc_of sd)) = [Some Breaking]
     \<and> map do_severity (dd_changed out) = [Some AdditiveWithNote]"
proof -
  have "(case ex_view_diff of Inl _ \<Rightarrow> False
      | Inr sd \<Rightarrow> map do_severity (dd_changed (diff_doc_of sd)) = [Some Breaking]
          \<and> (case finalize_severity (diff_doc_of sd) (Some ex_graph) (Some ex_graph) of Inl _ \<Rightarrow> False
             | Inr out \<Rightarrow> map do_severity (dd_changed out) = [Some AdditiveWithNote]))"
    by code_simp
  then show ?thesis by (auto split: sum.splits)
qed

theorem finalize_breaking_exact_witness:
  "\<exists>sd out. ex_view_diff = Inr sd \<and> finalize_severity (diff_doc_of sd) (Some ex_graph) (Some ex_graph) = Inr out
    \<and> map do_severity (dd_changed out) = [Some AdditiveWithNote]
    \<and> list_all2 (\<lambda>ob ob'. do_identity ob' = do_identity ob
      \<and> (do_severity ob' = Some Breaking \<longleftrightarrow>
          (if do_subs ob = [] then do_severity ob = Some Breaking
           else list_ex (still_breaking ex_graph ex_graph (d_system sd) ob) (do_subs ob))))
    (dd_changed (diff_doc_of sd)) (dd_changed out)"
proof -
  obtain sd out where ex: "ex_view_diff = Inr sd"
    "finalize_severity (diff_doc_of sd) (Some ex_graph) (Some ex_graph) = Inr out"
    "map do_severity (dd_changed out) = [Some AdditiveWithNote]" using ex_view_final by metis
  from ex show ?thesis
    using finalize_breaking_exact [OF ex(1) [unfolded ex_view_diff_def] ex(2)]
    by (intro exI [of _ sd] exI [of _ out] conjI)
qed

theorem finalize_severity_idempotent_witness:
  "\<exists>sd out. finalize_severity (diff_doc_of sd) (Some ex_graph) (Some ex_graph) = Inr out
    \<and> map do_severity (dd_changed out) = [Some AdditiveWithNote] \<and> finalize_severity out None None = Inr out"
  using ex_view_final finalize_severity_idempotent by metis

end
