(* ===== verification/Lineage_Scan.thy ===== *)
theory Lineage_Scan
  imports Lineage_Severity Lineage_Walk
begin

text \<open>
  The contamination scan, \<open>src/lineage/scan.py\<close>.

  The knowledge base is the list of its Markdown files, each with what
  \<open>frontmatter.split\<close> returns for its text (\<open>kf_fm\<close> and \<open>kf_body\<close>). A Python set of strings is a list
  read through \<open>set\<close>. Python's KeyError and TypeError are errors of the model. The value a
  change is described with is a string in every diff the diff engine makes; a list or object in its
  place is the error \<open>Unformatted\<close>.
\<close>

section \<open>Step 1: classifications\<close>

datatype scan_error =
    NotFinalized string
  | KeyError string
  | Unformatted string
  | NotIterable
  | Unhashable

definition SUB_LABELS :: "(string, string) dict" where
  "SUB_LABELS = [(''column_added'', ''column''), (''column_removed'', ''column''),
     (''column_type_changed'', ''column''), (''column_nullable_tightened'', ''column''),
     (''column_nullable_loosened'', ''column''), (''column_default_changed'', ''column''),
     (''column_ordinal_changed'', ''column''), (''key_added'', ''key''), (''key_removed'', ''key''),
     (''key_altered'', ''key''), (''stat_changed'', ''stat'')]"

text \<open>\<open>f"{value}"\<close>\<close>

fun format_value :: "string \<Rightarrow> json \<Rightarrow> (scan_error, string) result" where
  "format_value l JNull = Inr ''None''"
| "format_value l (JBool b) = Inr (if b then ''True'' else ''False'')"
| "format_value l (JInt i) = Inr (show_int i)"
| "format_value l (JStr s) = Inr s"
| "format_value l _ = Inl (Unformatted l)"

definition describe_sub :: "doc_sub \<Rightarrow> (scan_error, string) result" where
  "describe_sub s =
     (case dict_get SUB_LABELS (ds_change s) of
        None \<Rightarrow> Inr (ds_change s)
      | Some label \<Rightarrow> (case dict_get (ds_detail s) label of
            None \<Rightarrow> Inl (KeyError label)
          | Some v \<Rightarrow> res_bind (format_value label v) (\<lambda>t. Inr (ds_change s @ '': '' @ t))))"

record breaking_entry =
  be_change :: string
  be_detail :: string

record classes =
  cl_breaking :: "(string, breaking_entry) dict"
  cl_additive :: "(string, string) dict"
  cl_grep :: "string list"

definition or_else :: "'a list \<Rightarrow> 'a list \<Rightarrow> 'a list" where
  "or_else xs ys = (if xs = [] then ys else xs)"

definition classify_changed :: "string \<Rightarrow> classes \<Rightarrow> doc_object \<Rightarrow> (scan_error, classes) result" where
  "classify_changed system c ob =
     (let name = doc_fqn system (do_identity ob);
          c1 = c\<lparr>cl_grep := set_add (cl_grep c) [name]\<rparr>;
          breaking_subs = filter (\<lambda>s. ds_severity s = Breaking) (do_subs ob)
      in if do_severity ob = Some Breaking then
           res_bind (res_map describe_sub breaking_subs)
             (\<lambda>ds. Inr (c1\<lparr>cl_breaking := dict_set name
                \<lparr>be_change = join ''+'' (or_else (sort (remdups (map ds_change breaking_subs))) [''changed'']),
                 be_detail = or_else (join ''; '' ds) ''structural change''\<rparr> (cl_breaking c)\<rparr>))
         else
           res_bind (res_map describe_sub (do_subs ob))
             (\<lambda>ds. Inr (c1\<lparr>cl_additive := dict_set name (join ''; '' ds) (cl_additive c)\<rparr>)))"

definition classify_removed :: "string \<Rightarrow> identity \<Rightarrow> classes \<Rightarrow> classes" where
  "classify_removed system i c =
     c\<lparr>cl_breaking := dict_set (doc_fqn system i)
         \<lparr>be_change = ''removed'', be_detail = ''object removed from snapshot''\<rparr> (cl_breaking c),
       cl_grep := set_add (cl_grep c) [doc_fqn system i]\<rparr>"

definition classify_added :: "string \<Rightarrow> identity \<Rightarrow> classes \<Rightarrow> classes" where
  "classify_added system i c = c\<lparr>cl_grep := set_add (cl_grep c) [doc_fqn system i]\<rparr>"

definition classify_diff :: "classes \<Rightarrow> diff_doc \<Rightarrow> (scan_error, classes) result" where
  "classify_diff c d =
     (if \<not> dd_finalized d then Inl (NotFinalized (dd_system d))
      else res_fold (classify_changed (dd_system d))
             (fold (classify_added (dd_system d)) (dd_added d)
               (fold (classify_removed (dd_system d)) (dd_removed d) c))
             (dd_changed d))"

definition classify :: "diff_doc list \<Rightarrow> (scan_error, classes) result" where
  "classify diffs = res_fold classify_diff \<lparr>cl_breaking = [], cl_additive = [], cl_grep = []\<rparr> diffs"

section \<open>Reading the knowledge base\<close>

record kb_file =
  kf_rel :: string
  kf_fm :: "(string, json) dict option"
  kf_body :: string

record doc =
  doc_rel :: string
  doc_fm :: "(string, json) dict"
  doc_body :: string
  doc_deps :: "string list"

definition doc_status :: "doc \<Rightarrow> json option" where
  "doc_status d = dict_get (doc_fm d) ''status''"

definition MACHINE_CLASSES :: "string list" where
  "MACHINE_CLASSES = [''machine-object'', ''machine-group'', ''machine-index'']"

definition is_machine_path :: "string list \<Rightarrow> bool" where
  "is_machine_path parts \<longleftrightarrow> hd parts = ''systems''
     \<and> (last parts = ''index.md'' \<or> endswith (last parts) ''.schema.md'')"

definition statusable :: "doc \<Rightarrow> bool" where
  "statusable d \<longleftrightarrow>
     (case (doc_status d, dict_get (doc_fm d) ''doc_class'') of
        (Some (JStr _), Some (JStr c)) \<Rightarrow> c \<notin> set MACHINE_CLASSES | _ \<Rightarrow> False)"

text \<open>\<open>for entry in value or []\<close>: a falsy value has no entries, a string its characters, a dict its keys.\<close>

definition entries :: "json option \<Rightarrow> (scan_error, json list) result" where
  "entries v =
     (if \<not> truthy_opt v then Inr []
      else case the v of
             JList xs \<Rightarrow> Inr xs
           | JStr s \<Rightarrow> Inr (map (\<lambda>c. JStr [c]) s)
           | JObj kvs \<Rightarrow> Inr (map (\<lambda>(k, _). JStr k) kvs)
           | _ \<Rightarrow> Inl NotIterable)"

definition str_member :: "string \<Rightarrow> (string, json) dict \<Rightarrow> string list" where
  "str_member k kvs = (case dict_get kvs k of Some (JStr s) \<Rightarrow> [s] | _ \<Rightarrow> [])"

fun dep_entry :: "json \<Rightarrow> string list" where
  "dep_entry (JStr s) = [s]"
| "dep_entry (JObj kvs) = (if truthy_opt (dict_get kvs ''external'') then [] else str_member ''object'' kvs)"
| "dep_entry _ = []"

definition dep_entries :: "json option \<Rightarrow> (scan_error, string list) result" where
  "dep_entries v = res_bind (entries v) (\<lambda>xs. Inr (concat (map dep_entry xs)))"

fun roster_entry :: "json \<Rightarrow> string list" where
  "roster_entry (JObj kvs) = str_member ''object'' kvs"
| "roster_entry _ = []"

text \<open>\<open>doc_class in _MACHINE_CLASSES\<close>\<close>

definition in_machine_classes :: "json option \<Rightarrow> (scan_error, bool) result" where
  "in_machine_classes v =
     (case v of Some (JStr s) \<Rightarrow> Inr (s \<in> set MACHINE_CLASSES)
      | Some (JList _) \<Rightarrow> Inl Unhashable | Some (JObj _) \<Rightarrow> Inl Unhashable | _ \<Rightarrow> Inr False)"

definition kb_fm :: "kb_file \<Rightarrow> (string, json) dict" where
  "kb_fm f = (case kf_fm f of None \<Rightarrow> [] | Some kvs \<Rightarrow> kvs)"

type_synonym split_state = "(string, (string, json) dict) dict \<times> doc list"

definition load_file :: "split_state \<Rightarrow> kb_file \<Rightarrow> (scan_error, split_state) result" where
  "load_file st f =
     (let (machine_fm, docs) = st; parts = split_on (CHR ''/'') (kf_rel f)
      in if list_ex (\<lambda>p. startswith p ''.'') parts then Inr st
         else res_bind (in_machine_classes (dict_get (kb_fm f) ''doc_class''))
           (\<lambda>machine.
              if machine \<or> (kf_fm f = None \<and> is_machine_path parts)
              then Inr (case kf_fm f of None \<Rightarrow> st | Some kvs \<Rightarrow> (dict_set (kf_rel f) kvs machine_fm, docs))
              else Inr (machine_fm, docs @ [\<lparr>doc_rel = kf_rel f, doc_fm = kb_fm f,
                     doc_body = kf_body f, doc_deps = []\<rparr>])))"

definition sibling_deps :: "(string, (string, json) dict) dict \<Rightarrow> doc \<Rightarrow> (scan_error, string list) result" where
  "sibling_deps machine_fm d =
     (case dict_get machine_fm (take (length (doc_rel d) - 3) (doc_rel d) @ ''.schema.md'') of
        None \<Rightarrow> Inr []
      | Some sib \<Rightarrow>
          if sib = [] then Inr []
          else res_bind (entries (dict_get sib ''objects''))
                 (\<lambda>xs. Inr (str_member ''object'' sib @ concat (map roster_entry xs))))"

definition resolve_deps :: "(string, (string, json) dict) dict \<Rightarrow> doc \<Rightarrow> (scan_error, doc) result" where
  "resolve_deps machine_fm d =
     res_bind (dep_entries (dict_get (doc_fm d) ''depends_on''))
       (\<lambda>a. res_bind (dep_entries (dict_get (doc_fm d) ''maps''))
         (\<lambda>b. res_bind (sibling_deps machine_fm d)
           (\<lambda>s. Inr (d\<lparr>doc_deps := set_add [] (a @ b @ str_member ''object'' (doc_fm d) @ s)\<rparr>))))"

definition load_docs :: "kb_file list \<Rightarrow> (scan_error, doc list) result" where
  "load_docs files =
     res_bind (res_fold load_file ([], []) (sort_key (\<lambda>f. split_on (CHR ''/'') (kf_rel f)) files))
       (\<lambda>(machine_fm, docs). res_map (resolve_deps machine_fm) docs)"

section \<open>Step 3: the downstream walk\<close>

record walk_paths =
  w_paths :: "(string, string list) dict"
  w_queue :: "string list"
  w_visited :: "string list"

definition reach_target :: "string \<Rightarrow> edge \<Rightarrow> walk_paths \<Rightarrow> walk_paths" where
  "reach_target n e s =
     (if e_target e \<in> set (w_visited s) then s
      else s\<lparr>w_visited := e_target e # w_visited s,
             w_paths := dict_set (e_target e) (the (dict_get (w_paths s) n) @ [e_id e]) (w_paths s),
             w_queue := w_queue s @ [e_target e]\<rparr>)"

definition reach_step :: "(string, edge list) dict \<Rightarrow> walk_paths \<Rightarrow> walk_paths" where
  "reach_step adjacency s =
     (case w_queue s of
        [] \<Rightarrow> s
      | n # q \<Rightarrow> fold (reach_target n) (adjacent adjacency n) (s\<lparr>w_queue := q\<rparr>))"

lemma reach_fold_queue:
  "w_queue (fold (reach_target n) es s) = w_queue s @ fresh (w_visited s) (map e_target es)"
  by (induction es arbitrary: s) (auto simp: reach_target_def)

lemma reach_fold_visited:
  "set (w_visited (fold (reach_target n) es s)) = set (w_visited s) \<union> e_target ` set es"
  by (induction es arbitrary: s) (auto simp: reach_target_def)

lemma reach_step_decreases:
  assumes "w_queue s \<noteq> []"
  shows "(reach_step adjacency s, s) \<in>
    measures [\<lambda>s. card (targets adjacency False - set (w_visited s)), \<lambda>s. length (w_queue s)]"
proof -
  obtain n q where q: "w_queue s = n # q" using assms by (cases "w_queue s") auto
  let ?ns = "map e_target (adjacent adjacency n)"
  have vis: "set (w_visited (reach_step adjacency s)) = set (w_visited s) \<union> set ?ns"
    by (simp add: reach_step_def q reach_fold_visited)
  have que: "w_queue (reach_step adjacency s) = q @ fresh (w_visited s) ?ns"
    by (simp add: reach_step_def q reach_fold_queue)
  show ?thesis
  proof (cases "fresh (w_visited s) ?ns = []")
    case True
    then have "set ?ns \<subseteq> set (w_visited s)" using set_fresh [of "w_visited s" ?ns] by auto
    then have "set (w_visited (reach_step adjacency s)) = set (w_visited s)" using vis by blast
    then show ?thesis by (simp add: que True q)
  next
    case False
    then have "set (fresh (w_visited s) ?ns) \<noteq> {}" by simp
    then have "set ?ns - set (w_visited s) \<noteq> {}" unfolding set_fresh .
    moreover have "set ?ns \<subseteq> targets adjacency False"
      using adjacent_targets [of False adjacency n] by (simp add: neighbor_def [abs_def])
    ultimately have "targets adjacency False - set (w_visited (reach_step adjacency s))
        \<subset> targets adjacency False - set (w_visited s)"
      unfolding vis by blast
    then show ?thesis by (simp add: psubset_card_mono)
  qed
qed

function reach_loop :: "(string, edge list) dict \<Rightarrow> walk_paths \<Rightarrow> walk_paths" where
  "reach_loop adjacency s = (if w_queue s = [] then s else reach_loop adjacency (reach_step adjacency s))"
  by pat_completeness auto
termination
proof (relation "{((a', s'), (a, s)). a' = a
    \<and> (s', s) \<in> measures [\<lambda>s. card (targets a False - set (w_visited s)), \<lambda>s. length (w_queue s)]}")
  show "wf {((a', s'), (a, s)). a' = a
    \<and> (s', s) \<in> measures [\<lambda>s. card (targets a False - set (w_visited s)), \<lambda>s. length (w_queue s)]}"
    by (rule wf_subset [of "measures [\<lambda>(a, s). card (targets a False - set (w_visited s)),
          \<lambda>(a, s). length (w_queue s)]"]) auto
qed (use reach_step_decreases in auto)

declare reach_loop.simps [simp del]

definition contamination_walk :: "graph \<Rightarrow> string \<Rightarrow> (string, string list) dict" where
  "contamination_walk g start =
     w_paths (reach_loop (dict_group e_source (sort_key e_id (g_edges g)))
       \<lparr>w_paths = [(start, [])], w_queue = [start], w_visited = [start]\<rparr>)"

section \<open>Steps 2 to 5 assembled\<close>

record reason =
  r_object :: string
  r_change :: string
  r_detail :: string
  r_path :: "string list"

record contaminated_doc =
  cd_doc :: string
  cd_status_was :: "json option"
  cd_contamination :: reason
  cd_reasons :: "reason list"

record stale_doc =
  sd_doc :: string
  sd_status_was :: "json option"
  sd_objects :: "string list"

record scan_result =
  sr_contaminated :: "contaminated_doc list"
  sr_stale :: "stale_doc list"
  sr_undeclared :: "(string \<times> string) list"
  sr_breaking :: "(string, breaking_entry) dict"
  sr_additive :: "string list"

type_synonym reasons = "(string \<times> string, reason) dict"

definition flag :: "(string, breaking_entry) dict \<Rightarrow> doc \<Rightarrow> string \<Rightarrow> string list \<Rightarrow> reasons \<Rightarrow> reasons" where
  "flag breaking d name path rs =
     (if \<not> statusable d then rs
      else if dict_has rs (doc_rel d, name) then rs
      else dict_set (doc_rel d, name)
             \<lparr>r_object = name, r_change = be_change (the (dict_get breaking name)),
              r_detail = be_detail (the (dict_get breaking name)), r_path = path\<rparr> rs)"

definition sibling_of :: "graph \<Rightarrow> (string, string) dict" where
  "sibling_of g = dict_of (concat (map (\<lambda>n. case n_doc n of None \<Rightarrow> []
     | Some p \<Rightarrow> [(take (length p - length ''.schema.md'') p @ ''.md'', n_id n)]) (g_nodes g)))"

definition affected :: "graph \<Rightarrow> string \<Rightarrow> doc \<Rightarrow> bool" where
  "affected g reached d \<longleftrightarrow> reached \<in> set (doc_deps d) \<or> dict_get (sibling_of g) (doc_rel d) = Some reached"

definition walked :: "graph \<Rightarrow> string \<Rightarrow> (string \<times> string list) list" where
  "walked g name = sort_key (\<lambda>(n, path). (length path, n)) (contamination_walk g name)"

definition flag_breaking :: "graph \<Rightarrow> doc list \<Rightarrow> (string, breaking_entry) dict \<Rightarrow> string \<Rightarrow> reasons \<Rightarrow> reasons" where
  "flag_breaking g docs breaking name rs =
     (let rs1 = fold (\<lambda>d. if name \<in> set (doc_deps d) then flag breaking d name [] else id) docs rs
      in if name \<in> n_id ` set (g_nodes g)
         then fold (\<lambda>(reached, path) rs.
                if reached = name then rs
                else fold (\<lambda>d. if affected g reached d then flag breaking d name path else id) docs rs)
              (walked g name) rs1
         else rs1)"

text \<open>\<open>re.search(r"`" + re.escape(fqn) + r"(?: \([a-z_]+\))?`", text)\<close>\<close>

definition word_char :: "char \<Rightarrow> bool" where
  "word_char c \<longleftrightarrow> is_lower c \<or> c = CHR ''_''"

definition tick_end :: "string \<Rightarrow> bool" where
  "tick_end s \<longleftrightarrow> startswith s [CHR 0x60]
     \<or> (startswith s '' ('' \<and> takeWhile word_char (drop 2 s) \<noteq> []
        \<and> startswith (dropWhile word_char (drop 2 s)) [CHR '')'', CHR 0x60])"

fun mentions :: "string \<Rightarrow> string \<Rightarrow> bool" where
  "mentions name [] = False"
| "mentions name (c # cs) \<longleftrightarrow>
     (startswith (c # cs) (CHR 0x60 # name) \<and> tick_end (drop (length name) cs)) \<or> mentions name cs"

definition reasons_of :: "string \<Rightarrow> reasons \<Rightarrow> reason list" where
  "reasons_of rel rs = map snd (filter (\<lambda>((r, _), _). r = rel) rs)"

definition contaminated_rels :: "reasons \<Rightarrow> string list" where
  "contaminated_rels rs = remdups (map (\<lambda>((r, _), _). r) rs)"

definition contaminated_entry :: "doc list \<Rightarrow> reasons \<Rightarrow> string \<Rightarrow> contaminated_doc" where
  "contaminated_entry docs rs rel =
     (let ordered = sort_key (\<lambda>r. (length (r_path r), r_object r)) (reasons_of rel rs)
      in \<lparr>cd_doc = rel, cd_status_was = doc_status (the (List.find (\<lambda>d. doc_rel d = rel) docs)),
          cd_contamination = hd ordered, cd_reasons = ordered\<rparr>)"

definition stale_docs :: "classes \<Rightarrow> reasons \<Rightarrow> doc list \<Rightarrow> stale_doc list" where
  "stale_docs c rs docs =
     concat (map (\<lambda>d.
       let hits = sort (filter (\<lambda>n. n \<in> set (doc_deps d)) (dict_keys (cl_additive c)))
       in if doc_rel d \<in> set (contaminated_rels rs) \<or> doc_status d \<noteq> Some (JStr ''verified'') \<or> hits = [] then []
          else [\<lparr>sd_doc = doc_rel d, sd_status_was = doc_status d, sd_objects = hits\<rparr>]) docs)"

definition undeclared :: "classes \<Rightarrow> doc list \<Rightarrow> (string \<times> string) list" where
  "undeclared c docs =
     concat (map (\<lambda>d. map (\<lambda>n. (doc_rel d, n))
       (filter (\<lambda>n. n \<notin> set (doc_deps d) \<and> mentions n (doc_body d)) (sort (cl_grep c)))) docs)"

definition all_reasons :: "graph \<Rightarrow> doc list \<Rightarrow> classes \<Rightarrow> reasons" where
  "all_reasons g docs c = fold (flag_breaking g docs (cl_breaking c)) (sort (dict_keys (cl_breaking c))) []"

definition scan :: "kb_file list \<Rightarrow> diff_doc list \<Rightarrow> graph \<Rightarrow> (scan_error, scan_result) result" where
  "scan files diffs g =
     res_bind (classify diffs)
       (\<lambda>c. res_bind (load_docs files)
         (\<lambda>docs. let rs = all_reasons g docs c
                 in Inr \<lparr>sr_contaminated = map (contaminated_entry docs rs) (sort (contaminated_rels rs)),
                     sr_stale = sort_key sd_doc (stale_docs c rs docs),
                     sr_undeclared = sort (undeclared c docs),
                     sr_breaking = sort_key fst (cl_breaking c),
                     sr_additive = sort (dict_keys (cl_additive c))\<rparr>))"

section \<open>The downstream walk records shortest paths\<close>

text \<open>A list of edge ids that leads from \<open>start\<close> to a node along edges of the graph.\<close>

inductive edge_path :: "edge list \<Rightarrow> string \<Rightarrow> string list \<Rightarrow> string \<Rightarrow> bool" for es start where
  here: "edge_path es start [] start"
| snoc: "edge_path es start ids (e_source e) \<Longrightarrow> e \<in> set es \<Longrightarrow> edge_path es start (ids @ [e_id e]) (e_target e)"

lemma reach_fold_paths:
  assumes "n \<in> set (w_visited s)" and "map_of (w_paths s) n = Some p"
  shows "if w \<in> e_target ` set es - set (w_visited s)
    then \<exists>e\<in>set es. e_target e = w \<and> map_of (w_paths (fold (reach_target n) es s)) w = Some (p @ [e_id e])
    else map_of (w_paths (fold (reach_target n) es s)) w = map_of (w_paths s) w"
  using assms
proof (induction es arbitrary: s)
  case (Cons e es)
  let ?s = "reach_target n e s"
  have n: "n \<in> set (w_visited ?s)" "map_of (w_paths ?s) n = Some p"
    using Cons.prems by (auto simp: reach_target_def update_conv')
  show ?case
  proof (cases "e_target e \<in> set (w_visited s)")
    case True
    then have "?s = s" by (simp add: reach_target_def)
    then show ?thesis using Cons.IH [OF Cons.prems] True by auto
  next
    case False
    have vis: "set (w_visited ?s) = insert (e_target e) (set (w_visited s))"
      and path: "map_of (w_paths ?s) w = (if w = e_target e then Some (p @ [e_id e]) else map_of (w_paths s) w)"
      using False Cons.prems by (auto simp: reach_target_def update_conv')
    show ?thesis using Cons.IH [OF n] False vis path by (cases "w = e_target e") (auto split: if_splits)
  qed
qed simp

definition reach_ok :: "edge list \<Rightarrow> string \<Rightarrow> walk_paths \<Rightarrow> bool" where
  "reach_ok es start s \<longleftrightarrow> set (w_visited s) = dom (map_of (w_paths s))
     \<and> set (w_queue s) \<subseteq> dom (map_of (w_paths s))
     \<and> (\<forall>w ids. map_of (w_paths s) w = Some ids \<longrightarrow> edge_path es start ids w)"

abbreviation scan_adjacency :: "edge list \<Rightarrow> (string, edge list) dict" where
  "scan_adjacency es \<equiv> dict_group e_source (sort_key e_id es)"

lemma in_scan_adjacency: "e \<in> set (adjacent (scan_adjacency es) n) \<longleftrightarrow> e \<in> set es \<and> e_source e = n"
  by (auto simp: adjacent_group)

lemma reach_step_paths:
  assumes ok: "reach_ok es start s" and q: "w_queue s = n # q"
  obtains p where "map_of (w_paths s) n = Some p"
    and "\<And>w. if linked (scan_adjacency es) False n w \<and> map_of (w_paths s) w = None
      then \<exists>e\<in>set es. e_source e = n \<and> e_target e = w
        \<and> map_of (w_paths (reach_step (scan_adjacency es) s)) w = Some (p @ [e_id e])
      else map_of (w_paths (reach_step (scan_adjacency es) s)) w = map_of (w_paths s) w"
proof -
  have vis: "set (w_visited s) = dom (map_of (w_paths s))" and "n \<in> dom (map_of (w_paths s))"
    using ok q by (auto simp: reach_ok_def)
  then obtain p where p: "map_of (w_paths s) n = Some p" and n: "n \<in> set (w_visited (s\<lparr>w_queue := q\<rparr>))" by auto
  have "map_of (w_paths (s\<lparr>w_queue := q\<rparr>)) n = Some p" using p by simp
  note st = reach_fold_paths [OF n this, of _ "adjacent (scan_adjacency es) n"]
  show thesis
  proof (rule that [OF p])
    fix w
    have "linked (scan_adjacency es) False n w \<and> map_of (w_paths s) w = None \<longleftrightarrow>
        w \<in> e_target ` set (adjacent (scan_adjacency es) n) - set (w_visited (s\<lparr>w_queue := q\<rparr>))"
      by (auto simp: linked_def neighbor_def vis)
    then show "if linked (scan_adjacency es) False n w \<and> map_of (w_paths s) w = None
      then \<exists>e\<in>set es. e_source e = n \<and> e_target e = w
        \<and> map_of (w_paths (reach_step (scan_adjacency es) s)) w = Some (p @ [e_id e])
      else map_of (w_paths (reach_step (scan_adjacency es) s)) w = map_of (w_paths s) w"
      using st [of w] by (auto simp: reach_step_def q in_scan_adjacency split: if_splits)
  qed
qed

lemma reach_step_ok:
  assumes ok: "reach_ok es start s" and "w_queue s \<noteq> []"
  shows "reach_ok es start (reach_step (scan_adjacency es) s)"
proof -
  obtain n q where q: "w_queue s = n # q" using assms(2) by (cases "w_queue s") auto
  let ?t = "reach_step (scan_adjacency es) s"
  have vis: "set (w_visited s) = dom (map_of (w_paths s))" using ok by (simp add: reach_ok_def)
  obtain p where p: "map_of (w_paths s) n = Some p"
    and st: "\<And>w. if linked (scan_adjacency es) False n w \<and> map_of (w_paths s) w = None
      then \<exists>e\<in>set es. e_source e = n \<and> e_target e = w \<and> map_of (w_paths ?t) w = Some (p @ [e_id e])
      else map_of (w_paths ?t) w = map_of (w_paths s) w"
    by (rule reach_step_paths [OF ok q]) (rule that, assumption+)
  have dom: "w \<in> dom (map_of (w_paths ?t)) \<longleftrightarrow> w \<in> dom (map_of (w_paths s)) \<or> linked (scan_adjacency es) False n w" for w
    unfolding domIff using st [of w] by (simp split: if_splits) auto
  have vis': "set (w_visited ?t) = set (w_visited s) \<union> {w. linked (scan_adjacency es) False n w}"
    by (auto simp: reach_step_def q reach_fold_visited linked_def neighbor_def)
  have que: "set (w_queue ?t) \<subseteq> set q \<union> {w. linked (scan_adjacency es) False n w}"
    using set_fresh [of "w_visited s" "map e_target (adjacent (scan_adjacency es) n)"]
    by (auto simp: reach_step_def q reach_fold_queue linked_def neighbor_def)
  have path: "edge_path es start ids w" if w: "map_of (w_paths ?t) w = Some ids" for w ids
  proof (cases "linked (scan_adjacency es) False n w \<and> map_of (w_paths s) w = None")
    case True
    then obtain e where e: "e \<in> set es" "e_source e = n" "e_target e = w" "ids = p @ [e_id e]"
      using st [of w] w by auto
    have "edge_path es start p n" using ok p by (auto simp: reach_ok_def)
    then show ?thesis using e edge_path.snoc [of es start p e] by auto
  next
    case False
    then have "map_of (w_paths s) w = Some ids" using st [of w] w by auto
    then show ?thesis using ok by (auto simp: reach_ok_def)
  qed
  have "set q \<subseteq> dom (map_of (w_paths s))" using ok q by (auto simp: reach_ok_def)
  moreover have "dom (map_of (w_paths ?t)) = dom (map_of (w_paths s)) \<union> {w. linked (scan_adjacency es) False n w}"
    using dom by blast
  ultimately show ?thesis unfolding reach_ok_def vis' vis using que path by blast
qed

interpretation reach: bfs_run "linked (scan_adjacency es) False" "\<lambda>_. True" "\<lambda>_. {} :: unit set"
  "reach_step (scan_adjacency es)" "reach_ok es start" w_queue
  "\<lambda>s v. map_option length (map_of (w_paths s) v)" "\<lambda>_. {}"
  for es start
proof
  fix s v q d assume ok: "reach_ok es start s" and q: "w_queue s = v # q"
    and v: "map_option length (map_of (w_paths s) v) = Some d"
  let ?t = "reach_step (scan_adjacency es) s"
  let ?new = "fresh (w_visited s) (map e_target (adjacent (scan_adjacency es) v))"
  have new: "set ?new = {w. linked (scan_adjacency es) False v w \<and> map_option length (map_of (w_paths s) w) = None}"
    using ok by (auto simp: set_fresh linked_def neighbor_def reach_ok_def)
  obtain p where p: "map_of (w_paths s) v = Some p"
    and st: "\<And>w. if linked (scan_adjacency es) False v w \<and> map_of (w_paths s) w = None
      then \<exists>e\<in>set es. e_source e = v \<and> e_target e = w \<and> map_of (w_paths ?t) w = Some (p @ [e_id e])
      else map_of (w_paths ?t) w = map_of (w_paths s) w"
    by (rule reach_step_paths [OF ok q]) (rule that, assumption+)
  have "d = length p" using v p by simp
  then have "map_option length (map_of (w_paths ?t) w) =
      (if w \<in> set ?new then Some (Suc d) else map_option length (map_of (w_paths s) w))" for w
    using st [of w] by (auto simp: new split: if_splits)
  moreover have "w_queue ?t = q @ ?new" by (simp add: reach_step_def q reach_fold_queue)
  ultimately show "\<exists>new. w_queue ?t = q @ new
      \<and> set new = {w. linked (scan_adjacency es) False v w \<and> map_option length (map_of (w_paths s) w) = None}
      \<and> (\<forall>w. map_option length (map_of (w_paths ?t) w) =
            (if w \<in> set new then Some (Suc d) else map_option length (map_of (w_paths s) w)))"
    using new by blast
qed (auto simp: reach_step_ok)

lemma reach_loop_rule:
  assumes "P s" and "\<And>s. P s \<Longrightarrow> w_queue s \<noteq> [] \<Longrightarrow> P (reach_step adjacency s)"
  shows "P (reach_loop adjacency s) \<and> w_queue (reach_loop adjacency s) = []"
  using assms
proof (induction adjacency s rule: reach_loop.induct)
  case (1 adjacency s)
  then show ?case
    by (cases "w_queue s = []") (auto simp: reach_loop.simps [of _ s])
qed

lemma linked_scan: "linked (scan_adjacency (g_edges g)) False = flows g False"
  by (auto simp: fun_eq_iff linked_def flows_def neighbor_def near_def in_scan_adjacency image_iff)

lemma contamination_walk_run:
  obtains s where "contamination_walk g start = w_paths s" and "reach_ok (g_edges g) start s"
    and "\<And>w d. map_option length (map_of (w_paths s) w) = Some d \<longleftrightarrow> hop_distance (flows g False) start w d"
proof -
  let ?s = "\<lparr>w_paths = [(start, [])], w_queue = [start], w_visited = [start]\<rparr>"
  let ?t = "reach_loop (scan_adjacency (g_edges g)) ?s"
  have "reach.inv (g_edges g) start start {} ?s"
    by (rule reach.invI_start) (auto simp: reach_ok_def intro: edge_path.here)
  then have inv: "reach.inv (g_edges g) start start {} ?t" and q: "w_queue ?t = []"
    using reach_loop_rule [of "reach.inv (g_edges g) start start {}" ?s "scan_adjacency (g_edges g)"]
    by (auto intro: reach.inv_step)
  show thesis
  proof (rule that)
    show "contamination_walk g start = w_paths ?t" by (simp add: contamination_walk_def)
    show "reach_ok (g_edges g) start ?t" by (rule reach.inv_ok [OF inv])
    show "map_option length (map_of (w_paths ?t) w) = Some d \<longleftrightarrow> hop_distance (flows g False) start w d" for w d
      using reach.levels_exact [OF inv q] by (simp add: linked_scan reach.in_range_def)
  qed
qed

text \<open>
  The downstream walk of the contamination scan reaches exactly the nodes that data flows to from the
  start, and the route it records for each is a chain of edges of the graph from the start to that
  node with the fewest possible hops.
\<close>

theorem contamination_walk_exact:
  "(case dict_get (contamination_walk g start) w of
      None \<Rightarrow> \<not> (flows g False)\<^sup>*\<^sup>* start w
    | Some ids \<Rightarrow> edge_path (g_edges g) start ids w \<and> hop_distance (flows g False) start w (length ids))"
proof -
  obtain s where s: "contamination_walk g start = w_paths s" "reach_ok (g_edges g) start s"
    and lev: "\<And>w d. map_option length (map_of (w_paths s) w) = Some d \<longleftrightarrow> hop_distance (flows g False) start w d"
    by (rule contamination_walk_run [of g start]) (rule that, assumption+)
  have none: "\<not> (flows g False)\<^sup>*\<^sup>* start w" if "map_of (w_paths s) w = None"
  proof
    assume "(flows g False)\<^sup>*\<^sup>* start w"
    then obtain k where "(flows g False ^^ k) start w" by (auto simp: rtranclp_power)
    then obtain d where "hop_distance (flows g False) start w d" using hop_distance_ex [of k "flows g False" start w] by auto
    then have "map_option length (map_of (w_paths s) w) = Some d" by (simp only: lev)
    with that show False by simp
  qed
  show ?thesis
  proof (cases "map_of (w_paths s) w")
    case (Some ids)
    then have "hop_distance (flows g False) start w (length ids)" by (simp flip: lev)
    with Some s show ?thesis by (auto simp: reach_ok_def)
  qed (use none s(1) in simp)
qed

section \<open>What the scan flags\<close>

definition impacted :: "graph \<Rightarrow> doc \<Rightarrow> string \<Rightarrow> bool" where
  "impacted g d name \<longleftrightarrow> statusable d \<and> (name \<in> set (doc_deps d)
     \<or> (name \<in> n_id ` set (g_nodes g)
        \<and> (\<exists>reached. reached \<noteq> name \<and> (flows g False)\<^sup>*\<^sup>* name reached \<and> affected g reached d)))"

lemma fold_grows:
  assumes "\<And>x r. K (f x r) = K r \<union> G x"
  shows "K (fold f xs r) = K r \<union> (\<Union>x\<in>set xs. G x)"
  using assms by (induction xs arbitrary: r) auto

lemma flag_keys:
  "fst ` set (flag breaking d name path rs) = fst ` set rs \<union> (if statusable d then {(doc_rel d, name)} else {})"
proof -
  have "dict_has rs (doc_rel d, name) \<longleftrightarrow> (doc_rel d, name) \<in> fst ` set rs"
    using map_of_eq_None_iff [of rs "(doc_rel d, name)"] by (auto simp: dict_has_def)
  then show ?thesis by (auto simp: flag_def dom_update)
qed

lemma flag_docs_keys:
  "fst ` set (fold (\<lambda>d. if P d then flag breaking d name path else id) docs rs) =
   fst ` set rs \<union> {(doc_rel d, name) |d. d \<in> set docs \<and> P d \<and> statusable d}"
proof -
  have "fst ` set (fold (\<lambda>d. if P d then flag breaking d name path else id) docs rs) =
    fst ` set rs \<union> (\<Union>d\<in>set docs. if P d \<and> statusable d then {(doc_rel d, name)} else {})"
    by (rule fold_grows [where K = "\<lambda>r. fst ` set r"]) (simp add: flag_keys)
  also have "(\<Union>d\<in>set docs. if P d \<and> statusable d then {(doc_rel d, name)} else {}) =
      {(doc_rel d, name) |d. d \<in> set docs \<and> P d \<and> statusable d}"
    by (auto split: if_splits)
  finally show ?thesis .
qed

lemma walk_reaches: "n \<in> fst ` set (contamination_walk g start) \<longleftrightarrow> (flows g False)\<^sup>*\<^sup>* start n"
proof -
  obtain s where s: "contamination_walk g start = w_paths s" "reach_ok (g_edges g) start s"
    and lev: "\<And>w d. map_option length (map_of (w_paths s) w) = Some d \<longleftrightarrow> hop_distance (flows g False) start w d"
    by (rule contamination_walk_run [of g start]) (rule that, assumption+)
  have "n \<in> fst ` set (w_paths s) \<longleftrightarrow> (\<exists>d. map_option length (map_of (w_paths s) n) = Some d)"
    using map_of_eq_None_iff [of "w_paths s" n] by auto
  also have "\<dots> \<longleftrightarrow> (\<exists>d. hop_distance (flows g False) start n d)" by (simp only: lev)
  also have "\<dots> \<longleftrightarrow> (flows g False)\<^sup>*\<^sup>* start n"
    by (auto simp: rtranclp_power hop_distance_def dest: hop_distance_ex [unfolded hop_distance_def])
  finally show ?thesis by (simp add: s)
qed

lemma flag_breaking_keys:
  "fst ` set (flag_breaking g docs breaking name rs) =
   fst ` set rs \<union> {(doc_rel d, name) |d. d \<in> set docs \<and> impacted g d name}"
proof -
  let ?rs1 = "fold (\<lambda>d. if name \<in> set (doc_deps d) then flag breaking d name [] else id) docs rs"
  let ?step = "\<lambda>(reached, path) rs. if reached = name then rs
      else fold (\<lambda>d. if affected g reached d then flag breaking d name path else id) docs rs"
  have direct: "fst ` set ?rs1 = fst ` set rs \<union> {(doc_rel d, name) |d. d \<in> set docs \<and> name \<in> set (doc_deps d) \<and> statusable d}"
    by (rule flag_docs_keys)
  let ?G = "\<lambda>r. {(doc_rel d, name) |d. r \<noteq> name \<and> d \<in> set docs \<and> affected g r d \<and> statusable d}"
  have "fst ` set (fold ?step (walked g name) ?rs1) = fst ` set ?rs1 \<union> (\<Union>x\<in>set (walked g name). ?G (fst x))"
    by (rule fold_grows [where K = "\<lambda>r. fst ` set r"]) (auto simp: flag_docs_keys split_beta)
  also have "(\<Union>x\<in>set (walked g name). ?G (fst x)) = (\<Union>r\<in>fst ` set (contamination_walk g name). ?G r)"
    by (simp add: walked_def)
  also have "\<dots> = {(doc_rel d, name) |d. d \<in> set docs \<and> statusable d
      \<and> (\<exists>r. r \<noteq> name \<and> (flows g False)\<^sup>*\<^sup>* name r \<and> affected g r d)}"
    unfolding walk_reaches [symmetric] by blast
  finally have walk: "fst ` set (fold ?step (walked g name) ?rs1) = fst ` set ?rs1 \<union> \<dots>" .
  show ?thesis
  proof (cases "name \<in> n_id ` set (g_nodes g)")
    case True
    then have "flag_breaking g docs breaking name rs = fold ?step (walked g name) ?rs1"
      by (simp add: flag_breaking_def Let_def)
    then show ?thesis unfolding impacted_def using True walk direct by (simp only: Un_assoc) blast
  next
    case False
    then have "flag_breaking g docs breaking name rs = ?rs1" by (simp add: flag_breaking_def Let_def)
    then show ?thesis unfolding impacted_def using False direct by (simp only: simp_thms) blast
  qed
qed

lemma all_reasons_keys:
  "fst ` set (all_reasons g docs c) =
   {(doc_rel d, name) |d name. d \<in> set docs \<and> name \<in> set (dict_keys (cl_breaking c)) \<and> impacted g d name}"
proof -
  have "fst ` set (all_reasons g docs c) = fst ` set ([] :: reasons) \<union>
      (\<Union>name\<in>set (sort (dict_keys (cl_breaking c))). {(doc_rel d, name) |d. d \<in> set docs \<and> impacted g d name})"
    unfolding all_reasons_def by (rule fold_grows [where K = "\<lambda>r. fst ` set r"]) (rule flag_breaking_keys)
  then show ?thesis by auto
qed

subsection \<open>The recorded route\<close>

definition reason_of :: "(string, breaking_entry) dict \<Rightarrow> string \<Rightarrow> string list \<Rightarrow> reason" where
  "reason_of breaking name path = \<lparr>r_object = name, r_change = be_change (the (dict_get breaking name)),
     r_detail = be_detail (the (dict_get breaking name)), r_path = path\<rparr>"

definition orelse :: "'a option \<Rightarrow> 'a option \<Rightarrow> 'a option" where
  "orelse x y = (case x of None \<Rightarrow> y | Some v \<Rightarrow> Some v)"

lemma orelse_simps [simp]: "orelse None y = y" "orelse (Some v) y = Some v" "orelse x None = x"
  by (simp_all add: orelse_def split: option.splits)

lemma orelse_assoc: "orelse (orelse x y) z = orelse x (orelse y z)"
  by (cases x) simp_all

lemma flag_get:
  "map_of (flag breaking d name path rs) k =
     (if k = (doc_rel d, name) \<and> statusable d then orelse (map_of rs k) (Some (reason_of breaking name path))
      else map_of rs k)"
  by (auto simp: flag_def reason_of_def dict_has_def update_conv' split: option.splits)

lemma flag_docs_get_other:
  "(\<forall>d\<in>set docs. k \<noteq> (doc_rel d, name)) \<Longrightarrow>
   map_of (fold (\<lambda>d. if P d then flag breaking d name path else id) docs rs) k = map_of rs k"
  by (induction docs arbitrary: rs) (auto simp: flag_get)

lemma flag_docs_get:
  assumes "distinct (map doc_rel docs)" and "d \<in> set docs" and "statusable d"
  shows "map_of (fold (\<lambda>d. if P d then flag breaking d name path else id) docs rs) (doc_rel d, name) =
    orelse (map_of rs (doc_rel d, name)) (if P d then Some (reason_of breaking name path) else None)"
  using assms
proof (induction docs arbitrary: rs)
  case (Cons x docs)
  show ?case
  proof (cases "x = d")
    case True
    have "\<forall>y\<in>set docs. (doc_rel d, name) \<noteq> (doc_rel y, name)" using Cons.prems(1) True by auto
    then show ?thesis using True Cons.prems(3) by (simp add: flag_docs_get_other flag_get)
  next
    case False
    with Cons.prems have "d \<in> set docs" "doc_rel x \<noteq> doc_rel d" by auto
    with Cons show ?thesis by (simp add: flag_get)
  qed
qed simp

definition route :: "graph \<Rightarrow> doc \<Rightarrow> string \<Rightarrow> string list option" where
  "route g d name =
     (if name \<in> set (doc_deps d) then Some []
      else if name \<in> n_id ` set (g_nodes g)
      then map_option snd (List.find (\<lambda>(reached, path). reached \<noteq> name \<and> affected g reached d) (walked g name))
      else None)"

lemma flag_walk_get:
  assumes "distinct (map doc_rel docs)" and "d \<in> set docs" and "statusable d"
  shows "map_of (fold (\<lambda>(reached, path) rs. if reached = name then rs
        else fold (\<lambda>d. if affected g reached d then flag breaking d name path else id) docs rs) xs rs) (doc_rel d, name) =
    orelse (map_of rs (doc_rel d, name)) (map_option (\<lambda>x. reason_of breaking name (snd x))
      (List.find (\<lambda>(reached, path). reached \<noteq> name \<and> affected g reached d) xs))"
proof (induction xs arbitrary: rs)
  case (Cons x xs)
  obtain r p where x: "x = (r, p)" by (cases x)
  show ?case
    by (simp add: x Cons.IH flag_docs_get [OF assms] orelse_assoc)
qed simp

lemma flag_breaking_get:
  assumes "distinct (map doc_rel docs)" and "d \<in> set docs" and "statusable d"
  shows "map_of (flag_breaking g docs breaking name rs) (doc_rel d, name) =
    orelse (map_of rs (doc_rel d, name)) (map_option (reason_of breaking name) (route g d name))"
  by (simp add: flag_breaking_def Let_def flag_walk_get [OF assms] flag_docs_get [OF assms] route_def orelse_assoc
      option.map_comp comp_def)

lemma flag_breaking_get_other:
  assumes "name' \<noteq> name"
  shows "map_of (flag_breaking g docs breaking name rs) (rel, name') = map_of rs (rel, name')"
proof -
  have docs: "map_of (fold (\<lambda>d. if P d then flag breaking d name path else id) docs rs) (rel, name') = map_of rs (rel, name')"
    for P path rs using assms by (intro flag_docs_get_other) simp
  have "map_of (fold (\<lambda>(reached, path) rs. if reached = name then rs
        else fold (\<lambda>d. if affected g reached d then flag breaking d name path else id) docs rs) xs rs) (rel, name') =
      map_of rs (rel, name')" for xs rs
    by (induction xs arbitrary: rs) (auto simp: docs)
  then show ?thesis by (simp add: flag_breaking_def Let_def docs)
qed

lemma flag_names_get:
  assumes "distinct (map doc_rel docs)" and "d \<in> set docs" and "statusable d" and "distinct names"
  shows "map_of (fold (flag_breaking g docs breaking) names rs) (doc_rel d, name) =
    orelse (map_of rs (doc_rel d, name))
      (if name \<in> set names then map_option (reason_of breaking name) (route g d name) else None)"
  using assms(4)
proof (induction names arbitrary: rs)
  case (Cons n names)
  then show ?case
    by (cases "n = name") (auto simp: flag_breaking_get [OF assms(1-3)] flag_breaking_get_other)
qed simp

lemma find_sorted_least:
  assumes "sorted (map f xs)" and "List.find P xs = Some x"
  shows "P x" "x \<in> set xs" and "y \<in> set xs \<Longrightarrow> P y \<Longrightarrow> f x \<le> f y"
proof -
  have "P x \<and> x \<in> set xs \<and> (\<forall>y\<in>set xs. P y \<longrightarrow> f x \<le> f y)"
    using assms by (induction xs) (auto split: if_splits)
  then show "P x" "x \<in> set xs" and "y \<in> set xs \<Longrightarrow> P y \<Longrightarrow> f x \<le> f y" by auto
qed

definition reasons_ok :: "reasons \<Rightarrow> bool" where
  "reasons_ok rs \<longleftrightarrow> dict_wf rs \<and> (\<forall>x\<in>set rs. r_object (snd x) = snd (fst x))"

lemma flag_ok: "reasons_ok rs \<Longrightarrow> reasons_ok (flag breaking d name path rs)"
  unfolding reasons_ok_def flag_def by (auto simp: alist.wf_put dest!: update_items)

lemma fold_keeps: "P r \<Longrightarrow> (\<And>x r. P r \<Longrightarrow> P (f x r)) \<Longrightarrow> P (fold f xs r)"
  by (induction xs arbitrary: r) auto

lemma flag_breaking_ok:
  assumes "reasons_ok rs"
  shows "reasons_ok (flag_breaking g docs breaking name rs)"
proof -
  have docs: "reasons_ok (fold (\<lambda>d. if P d then flag breaking d name path else id) docs rs)"
    if "reasons_ok rs" for P path rs
    by (rule fold_keeps [where P = reasons_ok, OF that]) (simp add: flag_ok)
  have "reasons_ok (fold (\<lambda>(reached, path) rs. if reached = name then rs
        else fold (\<lambda>d. if affected g reached d then flag breaking d name path else id) docs rs) xs rs)"
    if "reasons_ok rs" for xs rs
    by (rule fold_keeps [where P = reasons_ok, OF that]) (auto simp: docs)
  with docs assms show ?thesis by (simp add: flag_breaking_def Let_def)
qed

lemma all_reasons_ok: "reasons_ok (all_reasons g docs c)"
  unfolding all_reasons_def
  by (rule fold_keeps [where P = reasons_ok, OF _ flag_breaking_ok]) (simp_all add: reasons_ok_def dict_wf_def)

lemma in_reasons_of:
  assumes "reasons_ok rs"
  shows "r \<in> set (reasons_of rel rs) \<longleftrightarrow> map_of rs (rel, r_object r) = Some r"
proof -
  have "r \<in> set (reasons_of rel rs) \<longleftrightarrow> (\<exists>n. ((rel, n), r) \<in> set rs)"
    by (force simp: reasons_of_def)
  also have "\<dots> \<longleftrightarrow> ((rel, r_object r), r) \<in> set rs" using assms by (force simp: reasons_ok_def)
  also have "\<dots> \<longleftrightarrow> map_of rs (rel, r_object r) = Some r" using assms by (simp add: reasons_ok_def dict_wf_def)
  finally show ?thesis .
qed

lemma reason_objects:
  assumes "reasons_ok rs"
  shows "r_object ` set (reasons_of rel rs) = {n. (rel, n) \<in> fst ` set rs}"
  using assms by (force simp: reasons_of_def reasons_ok_def image_iff)

lemma set_contaminated_rels: "set (contaminated_rels rs) = fst ` fst ` set rs"
  by (force simp: contaminated_rels_def)

text \<open>
  C24. A scan that can read its inputs returns, and its contaminated documents are exactly the documents
  with a status that depend on a breaking object, on an object data flows to from one, or document
  such an object: listed once each and sorted. Each lists exactly the breaking objects that reach it, and the
  one recorded in its front-matter has a route no longer than any other's.
\<close>

theorem scan_contaminated_exact:
  assumes "classify diffs = Inr c" and "load_docs files = Inr docs"
  shows "\<exists>r. scan files diffs g = Inr r
    \<and> map cd_doc (sr_contaminated r) =
        sorted_list_of_set {doc_rel d |d. d \<in> set docs \<and> list_ex (impacted g d) (dict_keys (cl_breaking c))}
    \<and> list_all (\<lambda>cd. r_object ` set (cd_reasons cd) = {n \<in> set (dict_keys (cl_breaking c)).
            list_ex (\<lambda>d. doc_rel d = cd_doc cd \<and> impacted g d n) docs}
        \<and> cd_contamination cd \<in> set (cd_reasons cd)
        \<and> list_all (\<lambda>x. length (r_path (cd_contamination cd)) \<le> length (r_path x)) (cd_reasons cd))
      (sr_contaminated r)"
proof -
  let ?rs = "all_reasons g docs c"
  note keys = all_reasons_keys [of g docs c]
  let ?rels = "{doc_rel d |d. d \<in> set docs \<and> list_ex (impacted g d) (dict_keys (cl_breaking c))}"
  have rels: "set (contaminated_rels ?rs) = ?rels"
    unfolding set_contaminated_rels keys by (force simp: list_ex_iff)
  have "map cd_doc (map (contaminated_entry docs ?rs) (sort (contaminated_rels ?rs))) = sort (contaminated_rels ?rs)"
    by (simp add: contaminated_entry_def Let_def comp_def)
  moreover have "sort (contaminated_rels ?rs) = sorted_list_of_set ?rels"
    unfolding rels [symmetric] sorted_list_of_set_sort_remdups contaminated_rels_def
    by (simp add: distinct_remdups_id)
  moreover have "r_object ` set (cd_reasons cd) = {n \<in> set (dict_keys (cl_breaking c)).
            list_ex (\<lambda>d. doc_rel d = cd_doc cd \<and> impacted g d n) docs}
        \<and> cd_contamination cd \<in> set (cd_reasons cd)
        \<and> list_all (\<lambda>x. length (r_path (cd_contamination cd)) \<le> length (r_path x)) (cd_reasons cd)"
    if cd: "cd \<in> contaminated_entry docs ?rs ` ?rels" for cd
  proof -
    from cd obtain rel where rel: "rel \<in> ?rels" "cd = contaminated_entry docs ?rs rel" by blast
    let ?key = "\<lambda>r. (length (r_path r), r_object r)"
    have objs: "r_object ` set (reasons_of rel ?rs) = {n. (rel, n) \<in> fst ` set ?rs}"
      by (rule reason_objects [OF all_reasons_ok])
    have "rel \<in> fst ` fst ` set ?rs" using rel(1) by (simp only: rels [symmetric] set_contaminated_rels)
    then have "reasons_of rel ?rs \<noteq> []" by (force simp: reasons_of_def filter_empty_conv)
    note least = hd_sort_key_least [OF this, where f = ?key]
    have "length (r_path (hd (sort_key ?key (reasons_of rel ?rs)))) \<le> length (r_path x)"
      if "x \<in> set (reasons_of rel ?rs)" for x
      using least(2) [OF that] by (auto simp: less_eq_prod_def)
    moreover have "{n. (rel, n) \<in> fst ` set ?rs} = {n \<in> set (dict_keys (cl_breaking c)).
            list_ex (\<lambda>d. doc_rel d = rel \<and> impacted g d n) docs}"
      unfolding keys by (auto simp: list_ex_iff)
    ultimately show ?thesis
      using least(1) objs by (simp add: rel(2) contaminated_entry_def Let_def list_all_iff)
  qed
  ultimately show ?thesis
    using assms rels by (auto simp: scan_def Let_def list_all_iff)
qed

subsection \<open>Routes and stale documents\<close>

lemma walk_items:
  assumes "(reached, path) \<in> set (contamination_walk g name)"
  shows "edge_path (g_edges g) name path reached" and "hop_distance (flows g False) name reached (length path)"
proof -
  obtain s where s: "contamination_walk g name = w_paths s" "reach_ok (g_edges g) name s"
    and lev: "\<And>w d. map_option length (map_of (w_paths s) w) = Some d \<longleftrightarrow> hop_distance (flows g False) name w d"
    by (rule contamination_walk_run [of g name]) (rule that, assumption+)
  have wf: "dict_wf (w_paths t)" if "dict_wf (w_paths s0)" "t = reach_loop a s0" for s0 t a
  proof -
    have "dict_wf (w_paths (fold (reach_target n) es s))" if "dict_wf (w_paths s)" for n es s
      using that by (induction es arbitrary: s) (auto simp: reach_target_def alist.wf_put)
    then have "dict_wf (w_paths (reach_step a s))" if "dict_wf (w_paths s)" for s
      using that by (auto simp: reach_step_def split: list.splits)
    then show ?thesis using reach_loop_rule [of "\<lambda>s. dict_wf (w_paths s)" s0 a] that by blast
  qed
  have "dict_wf (contamination_walk g name)"
    unfolding contamination_walk_def by (rule wf [OF _ refl]) (simp add: dict_wf_def)
  then have item: "map_of (w_paths s) reached = Some path"
    using assms s(1) by (auto simp: dict_wf_get)
  then show "edge_path (g_edges g) name path reached" using s(2) by (auto simp: reach_ok_def)
  from item show "hop_distance (flows g False) name reached (length path)" by (simp flip: lev)
qed

lemma route_shortest:
  assumes "route g d name = Some path"
  shows "name \<in> set (doc_deps d) \<and> path = [] \<or>
    (\<exists>reached. reached \<noteq> name \<and> affected g reached d \<and> edge_path (g_edges g) name path reached
       \<and> (\<forall>other k. other \<noteq> name \<and> affected g other d \<and> (flows g False ^^ k) name other \<longrightarrow> length path \<le> k))"
proof (cases "name \<in> set (doc_deps d)")
  case False
  let ?P = "\<lambda>(reached, path). reached \<noteq> name \<and> affected g reached d"
  let ?f = "\<lambda>(n, path). (length path, n)"
  from assms False have "map_option snd (List.find ?P (walked g name)) = Some path"
    by (simp add: route_def split: if_splits)
  then obtain x where find: "List.find ?P (walked g name) = Some x" and x: "path = snd x"
    by (simp only: map_option_eq_Some) blast
  have sorted: "sorted (map ?f (walked g name))" unfolding walked_def by (rule sorted_sort_key)
  note least = find_sorted_least [OF sorted find]
  obtain reached where xr: "x = (reached, path)" using x by (cases x) simp
  have mem: "(reached, path) \<in> set (contamination_walk g name)" using least(2) xr by (simp add: walked_def)
  have "length path \<le> k" if o: "other \<noteq> name" "affected g other d" "(flows g False ^^ k) name other" for other k
  proof -
    obtain e where e: "e \<le> k" "hop_distance (flows g False) name other e" using hop_distance_ex [OF o(3)] by blast
    have "other \<in> fst ` set (contamination_walk g name)"
      using o(3) by (auto simp: walk_reaches rtranclp_power)
    then obtain p where p: "(other, p) \<in> set (contamination_walk g name)" by auto
    then have "length p = e" using hop_distance_unique [OF walk_items(2) e(2)] by simp
    moreover have "?f x \<le> ?f (other, p)" using least(3) [of "(other, p)"] p o by (simp add: walked_def)
    ultimately show ?thesis using e(1) xr by (auto simp: less_eq_prod_def)
  qed
  moreover have "reached \<noteq> name" "affected g reached d" using least(1) xr by simp_all
  moreover note walk_items(1) [OF mem]
  ultimately show ?thesis by (intro disjI2 exI [of _ reached] conjI allI impI) (assumption | blast)+
qed (use assms in \<open>simp add: route_def\<close>)

lemma impacted_route:
  assumes "impacted g d name"
  shows "\<exists>path. route g d name = Some path"
proof (cases "name \<in> set (doc_deps d)")
  case False
  let ?P = "\<lambda>(reached, path). reached \<noteq> name \<and> affected g reached d"
  from assms False have node: "name \<in> n_id ` set (g_nodes g)"
    and ex: "\<exists>reached. reached \<noteq> name \<and> (flows g False)\<^sup>*\<^sup>* name reached \<and> affected g reached d"
    by (simp_all add: impacted_def)
  from ex obtain reached path where "(reached, path) \<in> set (contamination_walk g name)"
    "reached \<noteq> name" "affected g reached d"
    unfolding walk_reaches [symmetric] by auto
  then have "List.find ?P (walked g name) \<noteq> None" by (auto simp: find_None_iff walked_def)
  with False node show ?thesis by (auto simp: route_def)
qed (simp add: route_def)

lemma classify_wf:
  assumes "classify diffs = Inr c"
  shows "dict_wf (cl_breaking c)"
proof (rule res_fold_invariant [OF assms [unfolded classify_def], where P = "\<lambda>c. dict_wf (cl_breaking c)"])
  show "dict_wf (cl_breaking \<lparr>cl_breaking = [], cl_additive = [], cl_grep = []\<rparr>)" by (simp add: dict_wf_def)
  fix c c' d assume wf: "dict_wf (cl_breaking c)" and step: "classify_diff c d = Inr c'"
  have "dict_wf (cl_breaking (fold (classify_removed (dd_system d)) (dd_removed d) c))"
    by (rule fold_keeps [where P = "\<lambda>c. dict_wf (cl_breaking c)", OF wf]) (simp add: classify_removed_def alist.wf_put)
  then have start: "dict_wf (cl_breaking (fold (classify_added (dd_system d)) (dd_added d)
      (fold (classify_removed (dd_system d)) (dd_removed d) c)))"
    by (rule fold_keeps [where P = "\<lambda>c. dict_wf (cl_breaking c)"]) (simp add: classify_added_def)
  have run: "res_fold (classify_changed (dd_system d)) (fold (classify_added (dd_system d)) (dd_added d)
      (fold (classify_removed (dd_system d)) (dd_removed d) c)) (dd_changed d) = Inr c'"
    using step by (simp add: classify_diff_def split: if_splits)
  show "dict_wf (cl_breaking c')"
    by (rule res_fold_invariant [OF run, where P = "\<lambda>c. dict_wf (cl_breaking c)", OF start])
      (auto simp: classify_changed_def Let_def res_bind_Inr_iff alist.wf_put split: if_splits)
qed

lemma load_fold_rels:
  assumes "res_fold load_file (m, docs) fs = Inr (m', docs')"
  shows "\<exists>rels. map doc_rel docs' = map doc_rel docs @ rels \<and> set rels \<subseteq> kf_rel ` set fs
    \<and> (distinct (map kf_rel fs) \<longrightarrow> distinct rels)"
  using assms
proof (induction fs arbitrary: m docs)
  case (Cons f fs)
  from Cons.prems obtain m1 docs1 where step: "load_file (m, docs) f = Inr (m1, docs1)"
    and run: "res_fold load_file (m1, docs1) fs = Inr (m', docs')" by (auto simp: res_bind_Inr_iff)
  have "map doc_rel docs1 = map doc_rel docs \<or> map doc_rel docs1 = map doc_rel docs @ [kf_rel f]"
    using step by (auto simp: load_file_def Let_def res_bind_Inr_iff split: if_splits option.splits)
  moreover from Cons.IH [OF run] obtain rels where rels: "map doc_rel docs' = map doc_rel docs1 @ rels"
    "set rels \<subseteq> kf_rel ` set fs" "distinct (map kf_rel fs) \<longrightarrow> distinct rels" by blast
  ultimately show ?case
  proof (elim disjE)
    assume "map doc_rel docs1 = map doc_rel docs @ [kf_rel f]"
    with rels show ?thesis by (intro exI [of _ "kf_rel f # rels"]) auto
  qed (use rels in \<open>intro exI [of _ rels], auto\<close>)
qed simp

lemma load_docs_distinct:
  assumes "load_docs files = Inr docs" and "distinct (map kf_rel files)"
  shows "distinct (map doc_rel docs)"
proof -
  let ?fs = "sort_key (\<lambda>f. split_on (CHR ''/'') (kf_rel f)) files"
  from assms(1) obtain m ds where run: "res_fold load_file ([], []) ?fs = Inr (m, ds)"
    and deps: "res_map (resolve_deps m) ds = Inr docs" by (auto simp: load_docs_def res_bind_Inr_iff)
  have "distinct (map kf_rel ?fs)" using assms(2) by (simp add: distinct_map)
  with load_fold_rels [OF run] have "distinct (map doc_rel ds)" by auto
  moreover have "list_all2 (\<lambda>d d'. doc_rel d' = doc_rel d) ds docs"
    by (rule list.rel_mono_strong [OF res_map_list_all2 [OF deps]]) (auto simp: resolve_deps_def res_bind_Inr_iff)
  then have "map doc_rel docs = map doc_rel ds" by (induction rule: list_all2_induct) simp_all
  ultimately show ?thesis by simp
qed

text \<open>
  The route a scan records for a document and a breaking object that reaches it is a real and a
  shortest one: empty when the document declares the object itself, and otherwise a chain of lineage edges
  from the object to something the document depends on or documents, with no more hops than any other
  such chain.
\<close>

theorem scan_route_shortest:
  assumes "classify diffs = Inr c" and "load_docs files = Inr docs" and "distinct (map kf_rel files)"
    and "d \<in> set docs" and "name \<in> set (dict_keys (cl_breaking c))" and "impacted g d name"
  shows "\<exists>r cd x. scan files diffs g = Inr r \<and> cd \<in> set (sr_contaminated r) \<and> cd_doc cd = doc_rel d
    \<and> x \<in> set (cd_reasons cd) \<and> r_object x = name
    \<and> (name \<in> set (doc_deps d) \<and> r_path x = [] \<or>
        (\<exists>reached. reached \<noteq> name \<and> affected g reached d \<and> edge_path (g_edges g) name (r_path x) reached
         \<and> (\<forall>other k. other \<noteq> name \<and> affected g other d \<and> (flows g False ^^ k) name other
              \<longrightarrow> length (r_path x) \<le> k)))"
proof -
  let ?rs = "all_reasons g docs c"
  obtain path where path: "route g d name = Some path" using impacted_route [OF assms(6)] by blast
  let ?x = "reason_of (cl_breaking c) name path"
  have st: "statusable d" using assms(6) by (simp add: impacted_def)
  have names: "distinct (sort (dict_keys (cl_breaking c)))"
    using classify_wf [OF assms(1)] by (simp add: dict_wf_def dict_keys_def)
  have get: "map_of ?rs (doc_rel d, name) = Some ?x"
    unfolding all_reasons_def flag_names_get [OF load_docs_distinct [OF assms(2,3)] assms(4) st names]
    using assms(5) path by simp
  then have mem: "?x \<in> set (reasons_of (doc_rel d) ?rs)"
    by (subst in_reasons_of [OF all_reasons_ok]) (simp add: reason_of_def)
  have "(doc_rel d, name) \<in> fst ` set ?rs" using get map_of_SomeD by force
  then have "doc_rel d \<in> set (contaminated_rels ?rs)" unfolding set_contaminated_rels by force
  then have "contaminated_entry docs ?rs (doc_rel d) \<in> set (map (contaminated_entry docs ?rs) (sort (contaminated_rels ?rs)))"
    by simp
  moreover have "cd_doc (contaminated_entry docs ?rs (doc_rel d)) = doc_rel d"
    "?x \<in> set (cd_reasons (contaminated_entry docs ?rs (doc_rel d)))"
    using mem by (simp_all add: contaminated_entry_def Let_def)
  moreover have "r_object ?x = name" "r_path ?x = path" by (simp_all add: reason_of_def)
  moreover note route_shortest [OF path]
  moreover obtain r where "scan files diffs g = Inr r"
    and "sr_contaminated r = map (contaminated_entry docs ?rs) (sort (contaminated_rels ?rs))"
    using assms(1,2) by (simp add: scan_def Let_def)
  ultimately show ?thesis by metis
qed

text \<open>
  A document goes stale exactly when its status is \<open>verified\<close>, it depends on an object with an
  additive change and no breaking object reaches it; no document is reported both stale and contaminated.
\<close>

theorem scan_stale_exact:
  assumes "classify diffs = Inr c" and "load_docs files = Inr docs"
  shows "\<exists>r. scan files diffs g = Inr r
    \<and> sd_doc ` set (sr_stale r) = {doc_rel d |d. d \<in> set docs \<and> doc_status d = Some (JStr ''verified'')
        \<and> list_ex (\<lambda>n. n \<in> set (doc_deps d)) (dict_keys (cl_additive c))
        \<and> \<not> list_ex (\<lambda>e. doc_rel e = doc_rel d \<and> list_ex (impacted g e) (dict_keys (cl_breaking c))) docs}
    \<and> sd_doc ` set (sr_stale r) \<inter> cd_doc ` set (sr_contaminated r) = {}"
proof -
  let ?rs = "all_reasons g docs c"
  have rel: "doc_rel d \<in> set (contaminated_rels ?rs) \<longleftrightarrow>
      list_ex (\<lambda>e. doc_rel e = doc_rel d \<and> list_ex (impacted g e) (dict_keys (cl_breaking c))) docs" for d
    unfolding set_contaminated_rels all_reasons_keys by (force simp: list_ex_iff)
  have none: "sort (filter (\<lambda>n. n \<in> set (doc_deps d)) xs) = [] \<longleftrightarrow> \<not> list_ex (\<lambda>n. n \<in> set (doc_deps d)) xs" for d xs
    by (auto simp: list_ex_iff filter_empty_conv)
  have "sd_doc ` set (stale_docs c ?rs docs) = {doc_rel d |d. d \<in> set docs \<and> doc_status d = Some (JStr ''verified'')
        \<and> list_ex (\<lambda>n. n \<in> set (doc_deps d)) (dict_keys (cl_additive c)) \<and> doc_rel d \<notin> set (contaminated_rels ?rs)}"
    unfolding stale_docs_def Let_def none by (force split: if_splits)
  moreover have "cd_doc ` set (map (contaminated_entry docs ?rs) (sort (contaminated_rels ?rs))) = set (contaminated_rels ?rs)"
    by (force simp: contaminated_entry_def Let_def)
  moreover obtain r where "scan files diffs g = Inr r"
    and "sr_contaminated r = map (contaminated_entry docs ?rs) (sort (contaminated_rels ?rs))"
    and "sr_stale r = sort_key sd_doc (stale_docs c ?rs docs)"
    using assms(1,2) by (simp add: scan_def Let_def)
  ultimately show ?thesis unfolding rel by (intro exI [of _ r]) (auto simp: rel)
qed

subsection \<open>An example scan\<close>

definition ex_diff_doc :: diff_doc where
  "ex_diff_doc = \<lparr>dd_system = ''w'', dd_added = [], dd_removed = [(''table'', ''s'', ''a'')],
     dd_changed = [], dd_finalized = True, dd_rest = []\<rparr>"

definition ex_kb :: "kb_file list" where
  "ex_kb = [\<lparr>kf_rel = ''d/x.md'', kf_fm = Some [(''doc_class'', JStr ''human-doc''), (''status'', JStr ''verified''),
     (''depends_on'', JList [JStr ''w.s.v''])], kf_body = ''text''\<rparr>]"

definition ex_classes :: classes where
  "ex_classes = \<lparr>cl_breaking = [(''w.s.a'', \<lparr>be_change = ''removed'', be_detail = ''object removed from snapshot''\<rparr>)],
     cl_additive = [], cl_grep = [''w.s.a'']\<rparr>"

definition ex_doc :: doc where
  "ex_doc = \<lparr>doc_rel = ''d/x.md'', doc_fm = [(''doc_class'', JStr ''human-doc''), (''status'', JStr ''verified''),
     (''depends_on'', JList [JStr ''w.s.v''])], doc_body = ''text'', doc_deps = [''w.s.v'']\<rparr>"

lemma ex_classify: "classify [ex_diff_doc] = Inr ex_classes"
  by code_simp

lemma ex_load: "load_docs ex_kb = Inr [ex_doc]"
  by code_simp

lemma ex_impacted: "impacted ex_graph ex_doc ''w.s.a''"
proof -
  have "flows ex_graph False ''w.s.a'' ''w.s.v''"
    by (simp add: flows_def ex_graph_def ex_edges_def near_def neighbor_def)
  then have "(flows ex_graph False)\<^sup>*\<^sup>* ''w.s.a'' ''w.s.v''" by (rule r_into_rtranclp)
  moreover have "statusable ex_doc" "affected ex_graph ''w.s.v'' ex_doc" "''w.s.a'' \<in> n_id ` set (g_nodes ex_graph)"
    by (simp_all add: statusable_def doc_status_def ex_doc_def MACHINE_CLASSES_def affected_def ex_graph_def ex_nodes_def)
  ultimately show ?thesis unfolding impacted_def
    by (intro conjI disjI2 exI [of _ "''w.s.v''"]) simp_all
qed

theorem scan_contaminated_exact_witness:
  "\<exists>r. scan ex_kb [ex_diff_doc] ex_graph = Inr r
    \<and> map cd_doc (sr_contaminated r) = sorted_list_of_set {doc_rel d |d. d \<in> set [ex_doc]
        \<and> list_ex (impacted ex_graph d) (dict_keys (cl_breaking ex_classes))}
    \<and> list_all (\<lambda>cd. r_object ` set (cd_reasons cd) = {n \<in> set (dict_keys (cl_breaking ex_classes)).
            list_ex (\<lambda>d. doc_rel d = cd_doc cd \<and> impacted ex_graph d n) [ex_doc]}
        \<and> cd_contamination cd \<in> set (cd_reasons cd)
        \<and> list_all (\<lambda>x. length (r_path (cd_contamination cd)) \<le> length (r_path x)) (cd_reasons cd))
      (sr_contaminated r)"
  by (rule scan_contaminated_exact [OF ex_classify ex_load])

theorem scan_route_shortest_witness:
  "\<exists>r cd x. scan ex_kb [ex_diff_doc] ex_graph = Inr r \<and> cd \<in> set (sr_contaminated r) \<and> cd_doc cd = doc_rel ex_doc
    \<and> x \<in> set (cd_reasons cd) \<and> r_object x = ''w.s.a''
    \<and> (''w.s.a'' \<in> set (doc_deps ex_doc) \<and> r_path x = [] \<or>
        (\<exists>reached. reached \<noteq> ''w.s.a'' \<and> affected ex_graph reached ex_doc
         \<and> edge_path (g_edges ex_graph) ''w.s.a'' (r_path x) reached
         \<and> (\<forall>other k. other \<noteq> ''w.s.a'' \<and> affected ex_graph other ex_doc \<and> (flows ex_graph False ^^ k) ''w.s.a'' other
              \<longrightarrow> length (r_path x) \<le> k)))"
  by (rule scan_route_shortest [OF ex_classify ex_load _ _ _ ex_impacted])
    (simp_all add: ex_kb_def ex_classes_def dict_keys_def)

theorem scan_stale_exact_witness:
  "\<exists>r. scan ex_kb [ex_diff_doc] ex_graph = Inr r
    \<and> sd_doc ` set (sr_stale r) = {doc_rel d |d. d \<in> set [ex_doc] \<and> doc_status d = Some (JStr ''verified'')
        \<and> list_ex (\<lambda>n. n \<in> set (doc_deps d)) (dict_keys (cl_additive ex_classes))
        \<and> \<not> list_ex (\<lambda>e. doc_rel e = doc_rel d \<and> list_ex (impacted ex_graph e) (dict_keys (cl_breaking ex_classes))) [ex_doc]}
    \<and> sd_doc ` set (sr_stale r) \<inter> cd_doc ` set (sr_contaminated r) = {}"
  by (rule scan_stale_exact [OF ex_classify ex_load])

end
