(* ===== verification/Text_Match.thy ===== *)
theory Text_Match
  imports Json
begin

text \<open>
  Text handling the sources take from Python: character classes and \<open>str\<close> methods on the code points
  below 256, and the module \<open>re\<close>. A pattern is a \<open>regex\<close>; \<open>rx\<close> returns every way it matches
  at a position, in the order in which Python's backtracking matcher tries them, so that the
  head of the list is the match Python takes. A position is whether a word character precedes it (for
  \<open>\b\<close>) and the rest of the text. \<open>rx_sub\<close> is \<open>re.sub\<close> for a pattern that matches no empty text.
\<close>

section \<open>Characters\<close>

definition code :: "char \<Rightarrow> nat" where
  "code c = of_char c"

text \<open>\<open>\s\<close> and \<open>str.isspace\<close>, which is also what \<open>str.strip()\<close> removes\<close>

definition is_space :: "char \<Rightarrow> bool" where
  "is_space c \<longleftrightarrow> (let n = code c in 0x09 \<le> n \<and> n \<le> 0x0d \<or> 0x1c \<le> n \<and> n \<le> 0x20 \<or> n = 0x85 \<or> n = 0xa0)"

text \<open>\<open>str.isalnum\<close>\<close>

definition is_alnum :: "char \<Rightarrow> bool" where
  "is_alnum c \<longleftrightarrow> is_digit c \<or> is_upper c \<or> is_lower c \<or>
     (let n = code c in n \<in> {0xaa, 0xb2, 0xb3, 0xb5, 0xb9, 0xba, 0xbc, 0xbd, 0xbe}
        \<or> 0xc0 \<le> n \<and> n \<noteq> 0xd7 \<and> n \<noteq> 0xf7)"

text \<open>\<open>\w\<close>, and ASCII letters, digits and \<open>_\<close>\<close>

definition is_word :: "char \<Rightarrow> bool" where
  "is_word c \<longleftrightarrow> is_alnum c \<or> c = CHR ''_''"

definition is_alpha_ascii :: "char \<Rightarrow> bool" where
  "is_alpha_ascii c \<longleftrightarrow> is_upper c \<or> is_lower c"

definition to_upper :: "char \<Rightarrow> char" where
  "to_upper c = (if is_lower c then char_of (code c - 32) else c)"

definition to_lower :: "char \<Rightarrow> char" where
  "to_lower c = (if is_upper c then char_of (code c + 32) else c)"

text \<open>The line boundaries of \<open>str.splitlines()\<close>\<close>

definition is_linebreak :: "char \<Rightarrow> bool" where
  "is_linebreak c \<longleftrightarrow> code c \<in> {0x0a, 0x0b, 0x0c, 0x0d, 0x1c, 0x1d, 0x1e, 0x85}"

text \<open>The same by characters, for evaluation\<close>

lemma code_eq_iff: "n < 256 \<Longrightarrow> code c = n \<longleftrightarrow> c = char_of n"
  by (auto simp: code_def)

lemma is_linebreak_code [code]:
  "is_linebreak c \<longleftrightarrow> c \<in> set [CHR 0x0A, CHR 0x0B, CHR 0x0C, CHR 0x0D, CHR 0x1C, CHR 0x1D, CHR 0x1E, CHR 0x85]"
  unfolding is_linebreak_def by (simp add: code_eq_iff char_of_def bit_numeral_rec bit_0)

lemma is_space_code [code]:
  "is_space c \<longleftrightarrow> c \<in> set [CHR 0x09, CHR 0x0A, CHR 0x0B, CHR 0x0C, CHR 0x0D, CHR 0x1C, CHR 0x1D, CHR 0x1E, CHR 0x1F, CHR 0x20,
    CHR 0x85, CHR 0xA0]"
proof -
  have "is_space c \<longleftrightarrow> code c \<in> set [9, 10, 11, 12, 13, 28, 29, 30, 31, 32, 133, 160]"
    unfolding is_space_def Let_def by (simp, presburger)
  then show ?thesis by (simp add: code_eq_iff char_of_def bit_numeral_rec bit_0)
qed

section \<open>String methods\<close>

definition lstrip_by :: "(char \<Rightarrow> bool) \<Rightarrow> string \<Rightarrow> string" where
  "lstrip_by p s = dropWhile p s"

definition rstrip_by :: "(char \<Rightarrow> bool) \<Rightarrow> string \<Rightarrow> string" where
  "rstrip_by p s = rev (dropWhile p (rev s))"

definition strip_by :: "(char \<Rightarrow> bool) \<Rightarrow> string \<Rightarrow> string" where
  "strip_by p s = rstrip_by p (lstrip_by p s)"

abbreviation strip :: "string \<Rightarrow> string" where
  "strip \<equiv> strip_by is_space"

fun contains_text :: "string \<Rightarrow> string \<Rightarrow> bool" where
  "contains_text p [] \<longleftrightarrow> p = []"
| "contains_text p (c # s) \<longleftrightarrow> startswith (c # s) p \<or> contains_text p s"

text \<open>\<open>str.splitlines()\<close>: \<open>\r\n\<close> is one boundary, and a final boundary opens no line.\<close>

fun splitlines :: "string \<Rightarrow> string list" where
  "splitlines [] = []"
| "splitlines (c # s) =
     (if c = CHR 0x0d \<and> s \<noteq> [] \<and> hd s = CHR 0x0a then [] # splitlines (tl s)
      else if is_linebreak c then [] # splitlines s
      else case splitlines s of [] \<Rightarrow> [[c]]
           | l # ls \<Rightarrow> if s \<noteq> [] then (c # l) # ls else [[c]])"

text \<open>\<open>s.replace(old, new)\<close> for a non-empty \<open>old\<close>: left to right, without overlaps\<close>

function (sequential) replace_all :: "string \<Rightarrow> string \<Rightarrow> string \<Rightarrow> string" where
  "replace_all old new [] = []"
| "replace_all old new (c # s) =
     (if old \<noteq> [] \<and> startswith (c # s) old then new @ replace_all old new (drop (length old) (c # s))
      else c # replace_all old new s)"
  by pat_completeness auto
termination
  by (relation "measure (\<lambda>(old, new, s). length s)") (auto simp: length_greater_0_conv [symmetric] simp del: length_greater_0_conv)

text \<open>\<open>repr(s)\<close> for a string: single quotes unless the text has those and no double quotes\<close>

definition repr_char :: "char \<Rightarrow> char \<Rightarrow> string" where
  "repr_char quo c =
     (if c = quo \<or> c = CHR 0x5c then [CHR 0x5c, c]
      else if c = CHR 0x0a then [CHR 0x5c, CHR ''n'']
      else if c = CHR 0x0d then [CHR 0x5c, CHR ''r'']
      else if c = CHR 0x09 then [CHR 0x5c, CHR ''t'']
      else if code c < 0x20 \<or> 0x7f \<le> code c \<and> code c \<le> 0xa0 \<or> code c = 0xad
      then [CHR 0x5c, CHR ''x'', hex_digit (code c div 16), hex_digit (code c mod 16)]
      else [c])"

definition py_repr :: "string \<Rightarrow> string" where
  "py_repr s =
     (let quo = (if CHR 0x27 \<in> set s \<and> CHR 0x22 \<notin> set s then CHR 0x22 else CHR 0x27)
      in quo # concat (map (repr_char quo) s) @ [quo])"

text \<open>\<open>repr(v)\<close> and \<open>str(v)\<close> for the values JSON is decoded to\<close>

fun repr_json :: "json \<Rightarrow> string" where
  "repr_json JNull = ''None''"
| "repr_json (JBool b) = (if b then ''True'' else ''False'')"
| "repr_json (JInt i) = show_int i"
| "repr_json (JStr s) = py_repr s"
| "repr_json (JList vs) = ''['' @ join '', '' (map repr_json vs) @ '']''"
| "repr_json (JObj kvs) = ''{'' @ join '', '' (map (\<lambda>(k, v). py_repr k @ '': '' @ repr_json v) kvs) @ ''}''"

definition str_json :: "json \<Rightarrow> string" where
  "str_json v = (case v of JStr s \<Rightarrow> s | _ \<Rightarrow> repr_json v)"

lemma strip_by_Nil [simp]: "strip_by p [] = []"
  by (simp add: strip_by_def lstrip_by_def rstrip_by_def)

lemma rstrip_by_id: "s = [] \<or> \<not> p (last s) \<Longrightarrow> rstrip_by p s = s"
  by (cases s rule: rev_cases) (simp_all add: rstrip_by_def)

lemma strip_by_id:
  assumes "s = [] \<or> \<not> p (hd s)" and "s = [] \<or> \<not> p (last s)"
  shows "strip_by p s = s"
proof -
  have "lstrip_by p s = s" using assms(1) by (cases s) (simp_all add: lstrip_by_def)
  then show ?thesis using assms(2) by (simp add: strip_by_def rstrip_by_id)
qed

lemma rstrip_by_last: "rstrip_by p s = [] \<or> \<not> p (last (rstrip_by p s))"
proof (cases "dropWhile p (rev s)")
  case Nil
  then show ?thesis by (simp add: rstrip_by_def)
next
  case (Cons c cs)
  then have "\<not> p c" by (metis hd_dropWhile list.discI list.sel(1))
  with Cons show ?thesis by (simp add: rstrip_by_def)
qed

lemma rstrip_by_prefix: "\<exists>r. s = rstrip_by p s @ r"
proof -
  have "rev s = takeWhile p (rev s) @ dropWhile p (rev s)" by simp
  then have "s = rev (dropWhile p (rev s)) @ rev (takeWhile p (rev s))"
    by (metis rev_append rev_rev_ident)
  then show ?thesis unfolding rstrip_by_def by blast
qed

lemma lstrip_by_hd: "lstrip_by p s = [] \<or> \<not> p (hd (lstrip_by p s))"
  by (metis hd_dropWhile lstrip_by_def)

lemma strip_by_hd: "strip_by p s = [] \<or> \<not> p (hd (strip_by p s))"
proof -
  obtain r where "lstrip_by p s = strip_by p s @ r"
    using rstrip_by_prefix [of "lstrip_by p s" p] unfolding strip_by_def by blast
  then show ?thesis using lstrip_by_hd [of p s] by (metis append_is_Nil_conv hd_append2)
qed

lemma strip_by_idem: "strip_by p (strip_by p s) = strip_by p s"
  using strip_by_hd [of p s] rstrip_by_last [of p "lstrip_by p s"]
  by (intro strip_by_id) (simp_all add: strip_by_def)

lemma strip_by_eq_iff: "strip_by p s = s \<longleftrightarrow> s = [] \<or> \<not> p (hd s) \<and> \<not> p (last s)"
proof
  assume eq: "strip_by p s = s"
  show "s = [] \<or> \<not> p (hd s) \<and> \<not> p (last s)"
    using strip_by_hd [of p s] rstrip_by_last [of p "lstrip_by p s"] eq by (auto simp: strip_by_def)
qed (rule strip_by_id, auto)

section \<open>Regular expressions\<close>

datatype regex =
    Cls "char \<Rightarrow> bool"
  | Lit string
  | Sq regex regex
  | Alt regex regex
  | Star regex
  | Bnd
  | Eps

type_synonym pos = "bool \<times> string"

definition step_pos :: "(char \<Rightarrow> bool) \<Rightarrow> pos \<Rightarrow> pos list" where
  "step_pos p q = (case snd q of [] \<Rightarrow> [] | c # s \<Rightarrow> if p c then [(is_word c, s)] else [])"

fun lit_pos :: "string \<Rightarrow> pos \<Rightarrow> pos list" where
  "lit_pos [] q = [q]"
| "lit_pos (c # cs) q = concat (map (lit_pos cs) (step_pos (\<lambda>d. d = c) q))"

definition at_boundary :: "pos \<Rightarrow> bool" where
  "at_boundary q \<longleftrightarrow>
     fst q \<noteq> (case snd q of [] \<Rightarrow> False | c # _ \<Rightarrow> is_word c)"

text \<open>Greedy iteration: a further round is tried before stopping. A round that consumes nothing is not
  repeated, so the length of the text bounds the rounds.\<close>

fun star_n :: "nat \<Rightarrow> (pos \<Rightarrow> pos list) \<Rightarrow> pos \<Rightarrow> pos list" where
  "star_n 0 f q = [q]"
| "star_n (Suc n) f q =
     concat (map (star_n n f) (filter (\<lambda>r. length (snd r) < length (snd q)) (f q))) @ [q]"

primrec rx :: "regex \<Rightarrow> pos \<Rightarrow> pos list" where
  "rx (Cls p) = step_pos p"
| "rx (Lit s) = lit_pos s"
| "rx (Sq a b) = (\<lambda>q. concat (map (rx b) (rx a q)))"
| "rx (Alt a b) = (\<lambda>q. rx a q @ rx b q)"
| "rx (Star a) = (\<lambda>q. star_n (length (snd q)) (rx a) q)"
| "rx Bnd = (\<lambda>q. if at_boundary q then [q] else [])"
| "rx Eps = (\<lambda>q. [q])"

abbreviation Plus1 :: "regex \<Rightarrow> regex" where
  "Plus1 a \<equiv> Sq a (Star a)"

abbreviation Opt :: "regex \<Rightarrow> regex" where
  "Opt a \<equiv> Alt a Eps"

fun seqs :: "regex list \<Rightarrow> regex" where
  "seqs [] = Eps"
| "seqs [r] = r"
| "seqs (r # rs) = Sq r (seqs rs)"

fun alts :: "regex list \<Rightarrow> regex" where
  "alts [] = Cls (\<lambda>_. False)"
| "alts [r] = r"
| "alts (r # rs) = Alt r (alts rs)"

text \<open>A literal under \<open>re.IGNORECASE\<close>\<close>

definition LitI :: "string \<Rightarrow> regex" where
  "LitI s = seqs (map (\<lambda>c. Cls (\<lambda>d. to_lower d = to_lower c)) s)"

text \<open>\<open>re.sub\<close>: at each position the preferred match is replaced, by a text computed from the matched
  one; the scan continues after it.\<close>

function rx_sub :: "regex \<Rightarrow> (string \<Rightarrow> string) \<Rightarrow> pos \<Rightarrow> string" where
  "rx_sub r f q =
     (case rx r q of
        m # _ \<Rightarrow> if length (snd m) < length (snd q)
                 then f (take (length (snd q) - length (snd m)) (snd q)) @ rx_sub r f m
                 else (case snd q of [] \<Rightarrow> [] | c # s \<Rightarrow> c # rx_sub r f (is_word c, s))
      | [] \<Rightarrow> (case snd q of [] \<Rightarrow> [] | c # s \<Rightarrow> c # rx_sub r f (is_word c, s)))"
  by pat_completeness auto
termination
  by (relation "measure (\<lambda>(r, f, q). length (snd q))") auto

declare rx_sub.simps [simp del]

definition re_sub :: "regex \<Rightarrow> (string \<Rightarrow> string) \<Rightarrow> string \<Rightarrow> string" where
  "re_sub r f s = rx_sub r f (False, s)"

text \<open>\<open>re.search(s) is not None\<close>\<close>

fun rx_search :: "regex \<Rightarrow> bool \<Rightarrow> string \<Rightarrow> bool" where
  "rx_search r p [] \<longleftrightarrow> rx r (p, []) \<noteq> []"
| "rx_search r p (c # s) \<longleftrightarrow> rx r (p, c # s) \<noteq> [] \<or> rx_search r (is_word c) s"

text \<open>\<open>re.fullmatch\<close>\<close>

definition rx_full :: "regex \<Rightarrow> string \<Rightarrow> bool" where
  "rx_full r s \<longleftrightarrow> list_ex (\<lambda>q. snd q = []) (rx r (False, s))"

text \<open>No occurrence, no change.\<close>

lemma rx_sub_no_match: "\<not> rx_search r p s \<Longrightarrow> rx_sub r f (p, s) = s"
proof (induction s arbitrary: p)
  case Nil
  then show ?case by (simp add: rx_sub.simps)
next
  case (Cons c s)
  then have "rx r (p, c # s) = []" and "\<not> rx_search r (is_word c) s" by auto
  then show ?case using Cons.IH [of "is_word c"] by (simp add: rx_sub.simps [of r f "(p, c # s)"])
qed

subsection \<open>The preferred match\<close>

definition prefers :: "regex \<Rightarrow> pos \<Rightarrow> pos \<Rightarrow> bool" where
  "prefers r q m \<longleftrightarrow> (\<exists>ms. rx r q = m # ms)"

lemma prefers_Sq: "prefers a q m \<Longrightarrow> prefers b m n \<Longrightarrow> prefers (Sq a b) q n"
  by (auto simp: prefers_def)

lemma prefers_Cls: "p c \<Longrightarrow> prefers (Cls p) (w, c # s) (is_word c, s)"
  by (simp add: prefers_def step_pos_def)

definition last_word :: "bool \<Rightarrow> string \<Rightarrow> bool" where
  "last_word w s = (if s = [] then w else is_word (last s))"

lemma last_word_Cons [simp]: "last_word w (c # s) = last_word (is_word c) s"
  by (simp add: last_word_def)

lemma last_word_Nil [simp]: "last_word w [] = w"
  by (simp add: last_word_def)

lemma prefers_Lit: "prefers (Lit l) (w, l @ s) (last_word w l, s)"
proof (induction l arbitrary: w)
  case (Cons c l)
  then show ?case by (simp add: prefers_def step_pos_def)
qed (simp add: prefers_def)

lemma star_n_Cls:
  assumes "list_all p u" and "v = [] \<or> \<not> p (hd v)" and "length u \<le> n"
  shows "\<exists>ms. star_n n (step_pos p) (w, u @ v) = (last_word w u, v) # ms"
  using assms
proof (induction n arbitrary: w u)
  case (Suc n)
  show ?case
  proof (cases u)
    case Nil
    with Suc.prems show ?thesis by (auto simp: step_pos_def split: list.splits)
  next
    case (Cons c u')
    with Suc.IH [of u' "is_word c"] Suc.prems show ?thesis by (auto simp: step_pos_def)
  qed
qed simp

lemma prefers_Star:
  assumes "list_all p u" and "v = [] \<or> \<not> p (hd v)"
  shows "prefers (Star (Cls p)) (w, u @ v) (last_word w u, v)"
  using star_n_Cls [OF assms, of "length (u @ v)" w] by (simp add: prefers_def)

lemma prefers_Plus1:
  assumes "list_all p u" and "u \<noteq> []" and "v = [] \<or> \<not> p (hd v)"
  shows "prefers (Plus1 (Cls p)) (w, u @ v) (last_word w u, v)"
proof -
  obtain c u' where u: "u = c # u'" using assms(2) by (cases u) auto
  have "prefers (Cls p) (w, u @ v) (is_word c, u' @ v)" using assms(1) u by (simp add: prefers_Cls)
  moreover have "prefers (Star (Cls p)) (is_word c, u' @ v) (last_word (is_word c) u', v)"
    using assms(1,3) u by (intro prefers_Star) simp_all
  ultimately show ?thesis using u by (simp add: prefers_Sq del: rx.simps)
qed

lemma rx_sub_prefers:
  assumes "prefers r (w, s @ t) (w', t)" and "s \<noteq> []"
  shows "rx_sub r f (w, s @ t) = f s @ rx_sub r f (w', t)"
  using assms by (auto simp: prefers_def rx_sub.simps [of r f "(w, s @ t)"])

subsection \<open>Patterns that match no white space work token by token\<close>

primrec spaceless :: "regex \<Rightarrow> bool" where
  "spaceless (Cls p) \<longleftrightarrow> (\<forall>c. is_space c \<longrightarrow> \<not> p c)"
| "spaceless (Lit s) \<longleftrightarrow> list_all (\<lambda>c. \<not> is_space c) s"
| "spaceless (Sq a b) \<longleftrightarrow> spaceless a \<and> spaceless b"
| "spaceless (Alt a b) \<longleftrightarrow> spaceless a \<and> spaceless b"
| "spaceless (Star a) \<longleftrightarrow> spaceless a"
| "spaceless Bnd \<longleftrightarrow> True"
| "spaceless Eps \<longleftrightarrow> True"

definition extend :: "string \<Rightarrow> pos \<Rightarrow> pos" where
  "extend t q = (fst q, snd q @ t)"

lemma extend_simps [simp]: "fst (extend t q) = fst q" "snd (extend t q) = snd q @ t" "extend t (w, s) = (w, s @ t)"
  by (simp_all add: extend_def)

lemma space_not_word: "is_space c \<Longrightarrow> \<not> is_word c"
  by (auto simp: is_space_def is_word_def is_alnum_def is_digit_def is_upper_def is_lower_def code_def Let_def
       less_eq_char_def)

lemma step_pos_extend:
  assumes "is_space sp" and "\<not> p sp"
  shows "step_pos p (extend (sp # t) q) = map (extend (sp # t)) (step_pos p q)"
  using assms by (auto simp: step_pos_def split: list.splits)

lemma lit_pos_extend:
  assumes "is_space sp" and "list_all (\<lambda>c. \<not> is_space c) l"
  shows "lit_pos l (extend (sp # t) q) = map (extend (sp # t)) (lit_pos l q)"
  using assms
proof (induction l arbitrary: q)
  case (Cons c l)
  have "sp \<noteq> c" using Cons.prems by auto
  then have "step_pos (\<lambda>d. d = c) (extend (sp # t) q) = map (extend (sp # t)) (step_pos (\<lambda>d. d = c) q)"
    using Cons.prems by (intro step_pos_extend) auto
  moreover have "lit_pos l (extend (sp # t) m) = map (extend (sp # t)) (lit_pos l m)" for m
    using Cons by simp
  ultimately show ?case by (simp add: map_concat comp_def)
qed simp

lemma star_n_extend:
  assumes f: "\<And>q. f (extend t q) = map (extend t) (f q)"
  shows "length (snd q) \<le> n \<Longrightarrow> star_n (n + length t) f (extend t q) = map (extend t) (star_n n f q)"
proof (induction n arbitrary: q)
  case 0
  then have "f (extend t q) = map (extend t) (f q)" and "snd q = []" using f by auto
  then have "filter (\<lambda>r. length (snd r) < length (snd (extend t q))) (f (extend t q)) = []"
    by (auto simp: filter_empty_conv)
  then show ?case by (cases "length t") auto
next
  case (Suc n)
  have "filter (\<lambda>r. length (snd r) < length (snd (extend t q))) (f (extend t q)) =
      map (extend t) (filter (\<lambda>r. length (snd r) < length (snd q)) (f q))"
    by (simp add: f filter_map comp_def)
  moreover have "map (\<lambda>r. star_n (n + length t) f (extend t r)) (filter (\<lambda>r. length (snd r) < length (snd q)) (f q))
      = map (\<lambda>r. map (extend t) (star_n n f r)) (filter (\<lambda>r. length (snd r) < length (snd q)) (f q))"
    using Suc.prems by (intro map_cong refl Suc.IH) auto
  ultimately show ?case by (simp add: map_concat comp_def del: extend_simps map_eq_conv)
qed

lemma rx_extend:
  assumes "is_space sp"
  shows "spaceless r \<Longrightarrow> rx r (extend (sp # t) q) = map (extend (sp # t)) (rx r q)"
proof (induction r arbitrary: q)
  case (Cls p)
  then show ?case using assms by (simp add: step_pos_extend)
next
  case (Lit l)
  then show ?case using lit_pos_extend [OF assms] by simp
next
  case (Star a)
  then have "rx a (extend (sp # t) q) = map (extend (sp # t)) (rx a q)" for q by simp
  from star_n_extend [of "rx a" "sp # t" q "length (snd q)", OF this] show ?case by simp
next
  case Bnd
  then show ?case using space_not_word [OF assms] by (auto simp: at_boundary_def split: list.splits)
qed (simp_all add: map_concat comp_def)

lemma rx_sub_token:
  assumes "is_space sp" and "spaceless r"
  shows "rx_sub r f (w, s @ sp # t) = rx_sub r f (w, s) @ sp # rx_sub r f (False, t)"
proof (induction "length s" arbitrary: w s rule: less_induct)
  case less
  have e: "rx r (w, s @ sp # t) = map (extend (sp # t)) (rx r (w, s))"
    using rx_extend [OF assms, of t "(w, s)"] by simp
  have next_char: "(case s @ sp # t of [] \<Rightarrow> [] | c # s' \<Rightarrow> c # rx_sub r f (is_word c, s')) =
      (case s of [] \<Rightarrow> [] | c # s' \<Rightarrow> c # rx_sub r f (is_word c, s')) @ sp # rx_sub r f (False, t)"
    using less.hyps space_not_word [OF assms(1)] by (cases s) auto
  show ?case
  proof (cases "rx r (w, s)")
    case Nil
    then show ?thesis
      using e next_char by (simp add: rx_sub.simps [of r f "(w, s)"] rx_sub.simps [of r f "(w, s @ sp # t)"])
  next
    case (Cons m ms)
    obtain w' s' where m: "m = (w', s')" by (cases m)
    show ?thesis
    proof (cases "length s' < length s")
      case True
      have "rx_sub r f (w', s' @ sp # t) = rx_sub r f (w', s') @ sp # rx_sub r f (False, t)"
        by (rule less.hyps [OF True])
      then show ?thesis
        using True e Cons m
        by (simp add: rx_sub.simps [of r f "(w, s)"] rx_sub.simps [of r f "(w, s @ sp # t)"])
    next
      case False
      then show ?thesis
        using e Cons m next_char
        by (simp add: rx_sub.simps [of r f "(w, s)"] rx_sub.simps [of r f "(w, s @ sp # t)"])
    qed
  qed
qed

text \<open>A token between white space (or the ends of the text) is rewritten on its own.\<close>

definition token_in :: "string \<Rightarrow> string \<Rightarrow> bool" where
  "token_in pre post \<longleftrightarrow> (pre = [] \<or> is_space (last pre)) \<and> (post = [] \<or> is_space (hd post))"

lemma re_sub_token:
  assumes "spaceless r" and "token_in pre post" and "re_sub r f tok = re_sub r f tok'"
  shows "re_sub r f (pre @ tok @ post) = re_sub r f (pre @ tok' @ post)"
proof -
  have after: "rx_sub r f (False, tok @ post) = rx_sub r f (False, tok' @ post)"
  proof (cases post)
    case (Cons sp t)
    then have "is_space sp" using assms(2) by (simp add: token_in_def)
    with rx_sub_token [OF this assms(1)] Cons assms(3) show ?thesis by (simp add: re_sub_def)
  qed (use assms(3) in \<open>simp add: re_sub_def\<close>)
  show ?thesis
  proof (cases pre rule: rev_cases)
    case (snoc p sp)
    then have "is_space sp" using assms(2) by (simp add: token_in_def)
    with rx_sub_token [OF this assms(1)] snoc after show ?thesis by (simp add: re_sub_def)
  qed (use after in \<open>simp add: re_sub_def\<close>)
qed

end
