(* ===== verification/Sdk_Errors.thy ===== *)
theory Sdk_Errors
  imports Text_Match
begin

text \<open>
  The connector-side error taxonomy (\<open>src/connectors/sdk/errors.py\<close>) and the scrub that runs over every
  message and detail before it travels to the core (\<open>redact.py\<close>).
\<close>

section \<open>Errors (errors.py)\<close>

type_synonym detail = "(string, json) dict"

datatype connector_error =
    ConnectorError string detail
  | ConfigError string detail
  | AuthError string detail
  | SourceUnavailable string detail
  | Cancelled string detail
  | QuotaExceeded string int detail
  | GuardrailViolation string string detail
  | EmissionError "string list"

fun error_code :: "connector_error \<Rightarrow> string" where
  "error_code (ConnectorError _ _) = ''internal''"
| "error_code (ConfigError _ _) = ''config_error''"
| "error_code (AuthError _ _) = ''auth_error''"
| "error_code (SourceUnavailable _ _) = ''source_unavailable''"
| "error_code (Cancelled _ _) = ''cancelled''"
| "error_code (QuotaExceeded _ _ _) = ''quota''"
| "error_code (GuardrailViolation _ _ _) = ''guardrail''"
| "error_code (EmissionError _) = ''validation_error''"

fun error_retryable :: "connector_error \<Rightarrow> bool" where
  "error_retryable (ConnectorError _ _) = True"
| "error_retryable (SourceUnavailable _ _) = True"
| "error_retryable (QuotaExceeded _ _ _) = True"
| "error_retryable _ = False"

definition joined_problems :: "string list \<Rightarrow> string" where
  "joined_problems problems = join (CHR 0x0a # ''  '') problems"

text \<open>\<open>str(exc)\<close> and \<open>exc.detail\<close>\<close>

fun error_message :: "connector_error \<Rightarrow> string" where
  "error_message (ConnectorError msg _) = msg"
| "error_message (ConfigError msg _) = msg"
| "error_message (AuthError msg _) = msg"
| "error_message (SourceUnavailable msg _) = msg"
| "error_message (Cancelled msg _) = msg"
| "error_message (QuotaExceeded msg _ _) = msg"
| "error_message (GuardrailViolation msg _ _) = msg"
| "error_message (EmissionError problems) =
     ''snapshot failed pre-delivery validation:'' @ CHR 0x0a # ''  '' @ joined_problems problems"

fun error_detail :: "connector_error \<Rightarrow> detail" where
  "error_detail (ConnectorError _ d) = d"
| "error_detail (ConfigError _ d) = d"
| "error_detail (AuthError _ d) = d"
| "error_detail (SourceUnavailable _ d) = d"
| "error_detail (Cancelled _ d) = d"
| "error_detail (QuotaExceeded _ _ d) = d"
| "error_detail (GuardrailViolation _ capability_code d) = dict_set ''capability_code'' (JStr capability_code) d"
| "error_detail (EmissionError problems) = [(''errors'', JList (map JStr problems))]"

section \<open>Redaction (redact.py)\<close>

definition REDACTION_MARKER :: string where
  "REDACTION_MARKER = ''[redacted:credential]''"

definition scheme_char :: "char \<Rightarrow> bool" where
  "scheme_char c \<longleftrightarrow> is_alpha_ascii c \<or> is_digit c \<or> c \<in> set ''+.-''"

definition CREDENTIAL_URI :: regex where
  "CREDENTIAL_URI = seqs [Bnd, Cls is_alpha_ascii, Star (Cls scheme_char), Lit ''://'',
     Plus1 (Cls (\<lambda>c. \<not> is_space c \<and> c \<notin> set '':/@'')), Lit '':'',
     Plus1 (Cls (\<lambda>c. \<not> is_space c \<and> c \<notin> set ''/@'')), Lit ''@'', Plus1 (Cls (\<lambda>c. \<not> is_space c))]"

definition KEYWORD_SECRET :: regex where
  "KEYWORD_SECRET = seqs [Bnd,
     alts [LitI ''password'', LitI ''passwd'', LitI ''pwd'', LitI ''secret'', LitI ''token'',
       seqs [LitI ''api'', Opt (Cls (\<lambda>c. c \<in> set ''_-'')), LitI ''key'']],
     Star (Cls is_space), Lit ''='', Star (Cls is_space),
     alts [seqs [Lit [CHR 0x22], Star (Cls (\<lambda>c. c \<noteq> CHR 0x22)), Lit [CHR 0x22]],
       seqs [Lit [CHR 0x27], Star (Cls (\<lambda>c. c \<noteq> CHR 0x27)), Lit [CHR 0x27]],
       Plus1 (Cls (\<lambda>c. \<not> is_space c))]]"

definition BEARER :: regex where
  "BEARER = seqs [Bnd, LitI ''Bearer'', Plus1 (Cls is_space),
     Plus1 (Cls (\<lambda>c. is_alpha_ascii c \<or> is_digit c \<or> c \<in> set ''._-''))]"

text \<open>\<open>m.group(1)\<close> of the keyword pattern: the keywords hold neither a space nor an equals sign, and one of
  those follows.\<close>

definition keyword_of :: "string \<Rightarrow> string" where
  "keyword_of m = takeWhile (\<lambda>c. \<not> is_space c \<and> c \<noteq> CHR ''='') m"

definition redact_text :: "string \<Rightarrow> string" where
  "redact_text value =
     (let value = re_sub CREDENTIAL_URI (\<lambda>_. REDACTION_MARKER) value;
          value = re_sub KEYWORD_SECRET (\<lambda>m. keyword_of m @ ''='' @ REDACTION_MARKER) value
      in re_sub BEARER (\<lambda>_. REDACTION_MARKER) value)"

fun redact_deep :: "json \<Rightarrow> json" where
  "redact_deep (JStr s) = JStr (redact_text s)"
| "redact_deep (JList vs) = JList (map redact_deep vs)"
| "redact_deep (JObj kvs) = JObj (map (\<lambda>(k, v). (k, redact_deep v)) kvs)"
| "redact_deep v = v"

definition redact_dict :: "detail \<Rightarrow> detail" where
  "redact_dict d = map (\<lambda>(k, v). (k, redact_deep v)) d"

lemma redact_dict_keys [simp]: "dict_keys (redact_dict d) = dict_keys d"
  by (simp add: dict_keys_def redact_dict_def comp_def case_prod_beta)

lemma redact_dict_get: "map_of (redact_dict d) k = map_option redact_deep (map_of d k)"
  unfolding redact_dict_def by (rule map_of_map_snd)

text \<open>Texts without a credential are left as they are.\<close>

lemma redact_text_unchanged:
  assumes "\<not> rx_search CREDENTIAL_URI False s" and "\<not> rx_search KEYWORD_SECRET False s"
    and "\<not> rx_search BEARER False s"
  shows "redact_text s = s"
  using assms by (simp add: redact_text_def re_sub_def rx_sub_no_match)

section \<open>Credential URIs do not survive\<close>

text \<open>A credential URI by its parts, with the characters the parts may have.\<close>

record credential_uri =
  u_scheme :: string
  u_user :: string
  u_password :: string
  u_host :: string

definition uri_text :: "credential_uri \<Rightarrow> string" where
  "uri_text u = u_scheme u @ ''://'' @ u_user u @ '':'' @ u_password u @ ''@'' @ u_host u"

definition uri_wf :: "credential_uri \<Rightarrow> bool" where
  "uri_wf u \<longleftrightarrow> u_scheme u \<noteq> [] \<and> is_alpha_ascii (hd (u_scheme u)) \<and> list_all scheme_char (u_scheme u)
     \<and> u_user u \<noteq> [] \<and> list_all (\<lambda>c. \<not> is_space c \<and> c \<notin> set '':/@'') (u_user u)
     \<and> u_password u \<noteq> [] \<and> list_all (\<lambda>c. \<not> is_space c \<and> c \<notin> set ''/@'') (u_password u)
     \<and> u_host u \<noteq> [] \<and> list_all (\<lambda>c. \<not> is_space c) (u_host u)"

lemma alpha_word: "is_alpha_ascii c \<Longrightarrow> is_word c"
  by (auto simp: is_alpha_ascii_def is_word_def is_alnum_def)

lemma alpha_not_space: "is_alpha_ascii c \<Longrightarrow> \<not> is_space c"
  using alpha_word space_not_word by blast

lemma scheme_not_space: "scheme_char c \<Longrightarrow> \<not> is_space c"
  using alpha_not_space [of c] space_not_word [of c]
  by (auto simp: scheme_char_def is_word_def is_alnum_def) (auto simp: is_space_def code_def)

lemma spaceless_uri: "spaceless CREDENTIAL_URI"
  using alpha_not_space scheme_not_space by (auto simp: CREDENTIAL_URI_def is_space_def code_def)

lemma uri_preferred:
  assumes "uri_wf u"
  shows "\<exists>w. prefers CREDENTIAL_URI (False, uri_text u) (w, [])"
proof -
  obtain c cs where scheme: "u_scheme u = c # cs" using assms by (cases "u_scheme u") (auto simp: uri_wf_def)
  define r4 where "r4 = u_host u @ []"
  define r3 where "r3 = u_password u @ ''@'' @ r4"
  define r2 where "r2 = u_user u @ '':'' @ r3"
  define r1 where "r1 = cs @ ''://'' @ r2"
  have whole: "uri_text u = c # r1" by (simp add: uri_text_def scheme r1_def r2_def r3_def r4_def)
  have b: "prefers Bnd (False, c # r1) (False, c # r1)"
    using assms scheme alpha_word by (auto simp: prefers_def at_boundary_def uri_wf_def)
  have al: "prefers (Cls is_alpha_ascii) (False, c # r1) (is_word c, r1)"
    using assms scheme by (simp add: uri_wf_def prefers_Cls)
  have sc: "prefers (Star (Cls scheme_char)) (w, r1) (last_word w cs, ''://'' @ r2)" for w
    unfolding r1_def using assms scheme
    by (intro prefers_Star) (auto simp: uri_wf_def scheme_char_def is_alpha_ascii_def is_digit_def
        is_upper_def is_lower_def less_eq_char_def)
  have l1: "prefers (Lit ''://'') (w, ''://'' @ r2) (last_word w ''://'', r2)" for w
    by (rule prefers_Lit)
  have us: "prefers (Plus1 (Cls (\<lambda>c. \<not> is_space c \<and> c \<notin> set '':/@''))) (w, r2) (last_word w (u_user u), '':'' @ r3)" for w
    unfolding r2_def using assms by (intro prefers_Plus1) (auto simp: uri_wf_def)
  have l2: "prefers (Lit '':'') (w, '':'' @ r3) (last_word w '':'', r3)" for w
    by (rule prefers_Lit)
  have pw: "prefers (Plus1 (Cls (\<lambda>c. \<not> is_space c \<and> c \<notin> set ''/@''))) (w, r3) (last_word w (u_password u), ''@'' @ r4)" for w
    unfolding r3_def using assms by (intro prefers_Plus1) (auto simp: uri_wf_def)
  have l3: "prefers (Lit ''@'') (w, ''@'' @ r4) (last_word w ''@'', r4)" for w
    by (rule prefers_Lit)
  have ho: "prefers (Plus1 (Cls (\<lambda>c. \<not> is_space c))) (w, r4) (last_word w (u_host u), [])" for w
    unfolding r4_def using assms by (intro prefers_Plus1) (auto simp: uri_wf_def)
  show ?thesis
    unfolding CREDENTIAL_URI_def seqs.simps whole
    by (rule exI, rule prefers_Sq [OF b], rule prefers_Sq [OF al], rule prefers_Sq [OF sc], rule prefers_Sq [OF l1],
        rule prefers_Sq [OF us], rule prefers_Sq [OF l2], rule prefers_Sq [OF pw], rule prefers_Sq [OF l3], rule ho)
qed

lemma uri_rewritten:
  assumes "uri_wf u"
  shows "re_sub CREDENTIAL_URI (\<lambda>_. REDACTION_MARKER) (uri_text u) = REDACTION_MARKER"
proof -
  obtain w where "prefers CREDENTIAL_URI (False, uri_text u @ []) (w, [])"
    using uri_preferred [OF assms] by auto
  from rx_sub_prefers [OF this] have
    "rx_sub CREDENTIAL_URI f (False, uri_text u) = f (uri_text u) @ rx_sub CREDENTIAL_URI f (w, [])" for f
    by (simp add: uri_text_def)
  moreover have "rx_sub CREDENTIAL_URI f (w, []) = []" for f
    by (simp add: rx_sub.simps split: list.splits)
  ultimately show ?thesis by (simp add: re_sub_def)
qed

lemma marker_unchanged: "re_sub CREDENTIAL_URI f REDACTION_MARKER = REDACTION_MARKER"
proof -
  have "\<not> rx_search CREDENTIAL_URI False REDACTION_MARKER" by code_simp
  then show ?thesis by (simp add: re_sub_def rx_sub_no_match)
qed

text \<open>
  No credential URI survives redaction (\<open>redact_text\<close> of redact.py): for every URI with user information
  that stands as a token of a text, at its ends or between white space, redacting the text gives what redacting
  the text with the fixed marker in its place gives. The scheme, the user, the password and the host leave no
  trace in the result.\<close>

theorem redact_hides_credential_uri:
  assumes "uri_wf u" and "token_in pre post"
  shows "redact_text (pre @ uri_text u @ post) = redact_text (pre @ REDACTION_MARKER @ post)"
proof -
  have "re_sub CREDENTIAL_URI (\<lambda>_. REDACTION_MARKER) (pre @ uri_text u @ post)
      = re_sub CREDENTIAL_URI (\<lambda>_. REDACTION_MARKER) (pre @ REDACTION_MARKER @ post)"
    using uri_rewritten [OF assms(1)] marker_unchanged by (intro re_sub_token spaceless_uri assms(2)) simp
  then show ?thesis by (simp add: redact_text_def)
qed

theorem redact_hides_credential_uri_witness:
  "redact_text (''dsn '' @ uri_text \<lparr>u_scheme = ''postgres'', u_user = ''bob'', u_password = ''s3:cret'',
      u_host = ''db/x''\<rparr> @ '' refused'')
     = redact_text (''dsn '' @ REDACTION_MARKER @ '' refused'')"
  by (rule redact_hides_credential_uri)
     (auto simp: uri_wf_def token_in_def scheme_char_def is_alpha_ascii_def is_digit_def is_upper_def is_lower_def
       less_eq_char_def is_space_def code_def)

end
