(* ===== verification/Sdk_Emission.thy ===== *)
theory Sdk_Emission
  imports Delivery Sdk_Errors
begin

text \<open>
  The connector side of a snapshot: the connector manifest (\<open>src/connectors/sdk/manifest.py\<close>) and the
  emission pipeline (\<open>emission.py\<close>).

  YAML parsing, JSON Schema validation and file reads are outside the repository; what they return is
  an argument: the record \<open>raw_manifest\<close> holds the members the manifest schema requires. A connector's
  object that lacks a member \<open>schema_hash\<close> reads is \<open>MalformedObject\<close> with its label.
\<close>

section \<open>Manifests (manifest.py)\<close>

definition SUPPORTED_PROTOCOL_VERSION :: int where
  "SUPPORTED_PROTOCOL_VERSION = 1"

definition SUPPORTED_SNAPSHOT_VERSION :: string where
  "SUPPORTED_SNAPSHOT_VERSION = ''1''"

definition CAPABILITY_JOB_TYPES :: "(string, string) dict" where
  "CAPABILITY_JOB_TYPES = [(''metadata'', ''snapshot''), (''query'', ''execute''), (''usage'', ''usage''),
     (''knowledge'', ''harvest''), (''publish'', ''publish''), (''lineage'', ''lineage'')]"

record raw_manifest =
  rm_name :: string
  rm_version :: string
  rm_protocol_version :: int
  rm_snapshot_version :: string
  rm_capabilities :: "(string, (string, json) dict) dict"
  rm_config_schema :: string
  rm_credentials :: "(string, json) dict list"
  rm_rate_limit :: "(string, json) dict"
  rm_health_probe :: "string option"

record manifest =
  mf_name :: string
  mf_version :: string
  mf_protocol_version :: int
  mf_snapshot_version :: string
  mf_capabilities :: "(string, (string, json) dict) dict"
  mf_config_schema :: json
  mf_credentials :: "(string, json) dict list"
  mf_rate_limit :: "(string, json) dict"
  mf_health_probe :: "string option"

datatype manifest_problem =
    Unreadable string
  | NotYaml string
  | NotMapping
  | SchemaProblem string
  | ProtocolUnsupported int
  | SnapshotUnsupported string
  | NoJobType string
  | ConfigSchemaUnreadable string string
  | ConfigSchemaNotJson string string
  | ConfigSchemaInvalid string string

datatype manifest_file = FileUnreadable string | FileNotYaml string | FileNotMapping | FileMapping raw_manifest

datatype schema_file = SchemaUnreadable string | SchemaNotJson string | SchemaInvalid string | SchemaLoaded json

definition metadata_modes :: "manifest \<Rightarrow> json list" where
  "metadata_modes mf =
     (case dict_get (mf_capabilities mf) ''metadata'' of None \<Rightarrow> []
      | Some cap \<Rightarrow> (case dict_get cap ''modes'' of Some (JList ms) \<Rightarrow> ms | _ \<Rightarrow> []))"

definition schema_problems :: "string \<Rightarrow> schema_file \<Rightarrow> manifest_problem list" where
  "schema_problems name f =
     (case f of SchemaUnreadable e \<Rightarrow> [ConfigSchemaUnreadable name e]
      | SchemaNotJson e \<Rightarrow> [ConfigSchemaNotJson name e]
      | SchemaInvalid e \<Rightarrow> [ConfigSchemaInvalid name e]
      | SchemaLoaded _ \<Rightarrow> [])"

definition raw_problems :: "raw_manifest \<Rightarrow> schema_file \<Rightarrow> manifest_problem list" where
  "raw_problems raw f =
     (if rm_protocol_version raw \<noteq> SUPPORTED_PROTOCOL_VERSION
      then [ProtocolUnsupported (rm_protocol_version raw)] else [])
     @ (if rm_snapshot_version raw \<noteq> SUPPORTED_SNAPSHOT_VERSION
        then [SnapshotUnsupported (rm_snapshot_version raw)] else [])
     @ map NoJobType (filter (\<lambda>c. \<not> dict_has CAPABILITY_JOB_TYPES c) (dict_keys (rm_capabilities raw)))
     @ schema_problems (rm_config_schema raw) f"

definition load_manifest ::
  "(raw_manifest \<Rightarrow> string list) \<Rightarrow> (string \<Rightarrow> schema_file) \<Rightarrow> manifest_file
     \<Rightarrow> (manifest_problem list, manifest) result" where
  "load_manifest manifest_errors read_schema file =
     (case file of
        FileUnreadable e \<Rightarrow> Inl [Unreadable e]
      | FileNotYaml e \<Rightarrow> Inl [NotYaml e]
      | FileNotMapping \<Rightarrow> Inl [NotMapping]
      | FileMapping raw \<Rightarrow>
          if manifest_errors raw \<noteq> [] then Inl (map SchemaProblem (manifest_errors raw))
          else let f = read_schema (rm_config_schema raw)
               in if raw_problems raw f \<noteq> [] then Inl (raw_problems raw f)
                  else Inr \<lparr>mf_name = rm_name raw, mf_version = rm_version raw,
                         mf_protocol_version = rm_protocol_version raw, mf_snapshot_version = rm_snapshot_version raw,
                         mf_capabilities = rm_capabilities raw,
                         mf_config_schema = (case f of SchemaLoaded j \<Rightarrow> j | _ \<Rightarrow> JObj []),
                         mf_credentials = rm_credentials raw, mf_rate_limit = rm_rate_limit raw,
                         mf_health_probe = rm_health_probe raw\<rparr>)"

section \<open>Emission (emission.py)\<close>

datatype emission_problem =
    UnknownKindProblem string
  | MalformedProblem string
  | SuppliedHash identity string string
  | UnregisteredStats identity "string list"
  | GateError problem
  | GateWarning warning

text \<open>An object as the connector hands it over: its \<open>schema_hash\<close> may be missing.\<close>

datatype raw_object = MalformedObject string | RawObject obj "string option"

record introspection =
  in_objects :: "raw_object list"
  in_system_class :: string
  in_source_properties :: "(string, json) dict option"

record emit_config =
  ec_system :: string
  ec_mode :: string

record emitted =
  em_document :: snapshot
  em_serialized :: string

definition extra_stats :: "obj \<Rightarrow> string list" where
  "extra_stats ob = sort (filter (\<lambda>k. k \<notin> set (the (registered_stats_fields (o_kind ob)))) (remdups (dict_keys (o_stats ob))))"

definition hash_raw :: "(string \<Rightarrow> string) \<Rightarrow> raw_object \<Rightarrow> emission_problem list \<times> obj list" where
  "hash_raw sha raw =
     (case raw of
        MalformedObject l \<Rightarrow> ([MalformedProblem l], [])
      | RawObject ob supplied \<Rightarrow>
          (case schema_hash sha ob of
             Inl (UnknownKindError k) \<Rightarrow> ([UnknownKindProblem k], [ob])
           | Inr computed \<Rightarrow>
               ((case supplied of None \<Rightarrow> []
                 | Some h \<Rightarrow> if h \<noteq> computed then [SuppliedHash (identity_of ob) h computed] else [])
                @ (if extra_stats ob \<noteq> [] then [UnregisteredStats (identity_of ob) (extra_stats ob)] else []),
                [ob\<lparr>o_schema_hash := computed\<rparr>])))"

definition hash_objects :: "(string \<Rightarrow> string) \<Rightarrow> raw_object list \<Rightarrow> emission_problem list \<times> obj list" where
  "hash_objects sha raws = (concat (map (fst \<circ> hash_raw sha) raws), concat (map (snd \<circ> hash_raw sha) raws))"

definition assembled ::
  "manifest \<Rightarrow> emit_config \<Rightarrow> introspection \<Rightarrow> string \<Rightarrow> obj list \<Rightarrow> snapshot" where
  "assembled mf cfg result captured_at objects =
     \<lparr>s_version = SUPPORTED_SNAPSHOT_VERSION, s_system = ec_system cfg, s_system_class = in_system_class result,
      s_source_mode = ec_mode cfg, s_captured_at = captured_at, s_connector = (mf_name mf, mf_version mf),
      s_source_properties = in_source_properties result, s_objects = objects\<rparr>"

definition emit_snapshot ::
  "(snapshot \<Rightarrow> string list) \<Rightarrow> (string \<Rightarrow> string) \<Rightarrow> string \<Rightarrow> manifest \<Rightarrow> emit_config \<Rightarrow> introspection
     \<Rightarrow> string option \<Rightarrow> (emission_problem list, emitted) result" where
  "emit_snapshot schema_errors sha utc_now mf cfg result captured_at =
     (let (problems, objects) = hash_objects sha (in_objects result)
      in if problems \<noteq> [] then Inl problems
         else let at = (case captured_at of None \<Rightarrow> utc_now | Some t \<Rightarrow> if t = [] then utc_now else t);
                  document = assembled mf cfg result at objects;
                  (errors, warnings) = validate_snapshot schema_errors sha True document;
                  problems = map GateError errors @ map GateWarning warnings
              in if problems \<noteq> [] then Inl problems
                 else Inr \<lparr>em_document = canonical_snapshot document,
                           em_serialized = canonical_document_bytes document\<rparr>)"

datatype config_problem =
    ConfigNotObject
  | ConfigSchemaProblem string
  | ConfigNoSystem
  | ConfigBadMode json

definition config_problems :: "(json \<Rightarrow> json \<Rightarrow> string list) \<Rightarrow> manifest \<Rightarrow> json \<Rightarrow> config_problem list" where
  "config_problems config_errors mf config =
     (case config of
        JObj kvs \<Rightarrow>
          map ConfigSchemaProblem (config_errors (mf_config_schema mf) config)
          @ (case dict_get kvs ''system'' of
               Some (JStr s) \<Rightarrow> if s = [] then [ConfigNoSystem] else []
             | _ \<Rightarrow> [ConfigNoSystem])
          @ (let mode = (case dict_get kvs ''mode'' of None \<Rightarrow> JNull | Some v \<Rightarrow> v)
             in if list_ex (py_eq mode) (metadata_modes mf) then [] else [ConfigBadMode mode])
      | _ \<Rightarrow> [ConfigNotObject])"

section \<open>Properties\<close>

definition raw_ok :: "(string \<Rightarrow> string) \<Rightarrow> raw_object \<Rightarrow> bool" where
  "raw_ok sha raw \<longleftrightarrow>
     (case raw of
        MalformedObject _ \<Rightarrow> False
      | RawObject ob supplied \<Rightarrow> known_kind (o_kind ob)
          \<and> (supplied = None \<or> supplied = Some (''sha256:'' @ sha (hash_text ob)))
          \<and> set (dict_keys (o_stats ob)) \<subseteq> set (the (registered_stats_fields (o_kind ob))))"

definition raw_identities :: "raw_object list \<Rightarrow> identity list" where
  "raw_identities raws = concat (map (\<lambda>r. case r of RawObject ob _ \<Rightarrow> [identity_of ob] | _ \<Rightarrow> []) raws)"

definition rehash :: "(string \<Rightarrow> string) \<Rightarrow> raw_object \<Rightarrow> obj list" where
  "rehash sha r = (case r of RawObject ob _ \<Rightarrow> [ob\<lparr>o_schema_hash := ''sha256:'' @ sha (hash_text ob)\<rparr>] | _ \<Rightarrow> [])"

lemma extra_stats_Nil:
  "extra_stats ob = [] \<longleftrightarrow> set (dict_keys (o_stats ob)) \<subseteq> set (the (registered_stats_fields (o_kind ob)))"
  by (auto simp: extra_stats_def filter_empty_conv simp flip: set_empty)

lemma hash_raw_ok: "fst (hash_raw sha r) = [] \<longleftrightarrow> raw_ok sha r"
proof (cases r)
  case (RawObject ob supplied)
  show ?thesis
  proof (cases "known_kind (o_kind ob)")
    case True
    then show ?thesis
      using RawObject by (auto simp: hash_raw_def raw_ok_def schema_hash_known extra_stats_Nil split: option.splits)
  next
    case False
    then show ?thesis using RawObject by (simp add: hash_raw_def raw_ok_def schema_hash_unknown)
  qed
qed (simp add: hash_raw_def raw_ok_def)

lemma hash_raw_objects: "raw_ok sha r \<Longrightarrow> snd (hash_raw sha r) = rehash sha r"
  by (cases r) (auto simp: hash_raw_def raw_ok_def rehash_def schema_hash_known)

lemma hash_objects_clean: "fst (hash_objects sha raws) = [] \<longleftrightarrow> list_all (raw_ok sha) raws"
  by (auto simp: hash_objects_def list_all_iff hash_raw_ok)

lemma hash_objects_objects:
  "list_all (raw_ok sha) raws \<Longrightarrow> snd (hash_objects sha raws) = concat (map (rehash sha) raws)"
  by (induction raws) (simp_all add: hash_objects_def hash_raw_objects)

lemma rehash_identities: "map identity_of (concat (map (rehash sha) raws)) = raw_identities raws"
  by (induction raws) (auto simp: rehash_def raw_identities_def identity_of_def split: raw_object.splits)

lemma rehash_ok:
  assumes "list_all (raw_ok sha) raws" and "ob \<in> set (concat (map (rehash sha) raws))"
  shows "known_kind (o_kind ob)" and "hash_ok sha ob"
proof -
  from assms obtain b h where ob: "ob = b\<lparr>o_schema_hash := ''sha256:'' @ sha (hash_text b)\<rparr>"
    and known: "known_kind (o_kind b)"
    by (auto simp: list_all_iff rehash_def raw_ok_def split: raw_object.splits)
  then show k: "known_kind (o_kind ob)" by simp
  show "hash_ok sha ob" unfolding hash_ok_def schema_hash_known [OF k] by (simp add: ob)
qed

definition emit_document ::
  "(string \<Rightarrow> string) \<Rightarrow> string \<Rightarrow> manifest \<Rightarrow> emit_config \<Rightarrow> introspection \<Rightarrow> string option \<Rightarrow> snapshot" where
  "emit_document sha utc_now mf cfg result captured_at =
     assembled mf cfg result
       (case captured_at of None \<Rightarrow> utc_now | Some t \<Rightarrow> if t = [] then utc_now else t)
       (concat (map (rehash sha) (in_objects result)))"

lemma emit_snapshot_eq:
  assumes "list_all (raw_ok sha) (in_objects result)"
  shows "emit_snapshot sch sha utc_now mf cfg result captured_at =
    (let d = emit_document sha utc_now mf cfg result captured_at
     in if fst (validate_snapshot sch sha True d) = [] then Inr \<lparr>em_document = canonical_snapshot d,
          em_serialized = canonical_document_bytes d\<rparr>
        else Inl (map GateError (fst (validate_snapshot sch sha True d))))"
proof -
  let ?d = "emit_document sha utc_now mf cfg result captured_at"
  have "snd (validate_objects sha True [] (s_objects ?d)) = []"
    using rehash_ok(1) [OF assms]
    by (auto simp: validate_objects_warnings emit_document_def assembled_def filter_empty_conv)
  then have w: "snd (validate_snapshot sch sha True ?d) = []"
    by (simp add: validate_snapshot_def Let_def)
  obtain errors warnings where v: "validate_snapshot sch sha True ?d = (errors, warnings)"
    by (cases "validate_snapshot sch sha True ?d")
  have h: "hash_objects sha (in_objects result) = ([], concat (map (rehash sha) (in_objects result)))"
    using hash_objects_clean [of sha "in_objects result"] hash_objects_objects [OF assms] assms
    by (metis prod.collapse)
  show ?thesis
    using w v by (auto simp: emit_snapshot_def h Let_def emit_document_def [symmetric])
qed

lemma emit_snapshot_problems:
  assumes "\<not> list_all (raw_ok sha) (in_objects result)"
  shows "\<exists>ps. ps \<noteq> [] \<and> emit_snapshot sch sha utc_now mf cfg result captured_at = Inl ps"
proof -
  have "fst (hash_objects sha (in_objects result)) \<noteq> []" using assms by (simp add: hash_objects_clean)
  then show ?thesis by (auto simp: emit_snapshot_def split: prod.splits)
qed

lemma emit_document_clean:
  assumes "list_all (raw_ok sha) (in_objects result)"
  shows "fst (validate_snapshot sch sha True (emit_document sha utc_now mf cfg result captured_at)) = [] \<longleftrightarrow>
    sch (emit_document sha utc_now mf cfg result captured_at) = [] \<and> distinct (raw_identities (in_objects result))"
proof -
  have "s_objects (emit_document sha utc_now mf cfg result captured_at) = concat (map (rehash sha) (in_objects result))"
    by (simp add: emit_document_def assembled_def)
  then show ?thesis
    using rehash_ok [OF assms] by (auto simp: validate_snapshot_clean_iff rehash_identities)
qed

text \<open>
  The emission pipeline is exact: a snapshot is emitted if and only if every object the connector handed
  over is well-formed, of a registered kind, carries no hash or the recomputed one and only registered stats
  fields, no two objects share an identity, and the assembled document passes the JSON Schema check.
\<close>

theorem emit_snapshot_defined_iff:
  "(\<exists>e. emit_snapshot sch sha utc_now mf cfg result captured_at = Inr e) \<longleftrightarrow>
     list_all (raw_ok sha) (in_objects result) \<and> distinct (raw_identities (in_objects result))
     \<and> sch (emit_document sha utc_now mf cfg result captured_at) = []"
proof (cases "list_all (raw_ok sha) (in_objects result)")
  case True
  then show ?thesis using emit_document_clean [OF True, of sch] by (auto simp: emit_snapshot_eq Let_def)
next
  case False
  then obtain ps where "emit_snapshot sch sha utc_now mf cfg result captured_at = Inl ps"
    using emit_snapshot_problems by blast
  with False show ?thesis by simp
qed

text \<open>What a connector emits the delivery gate accepts unchanged.\<close>

lemma emit_accepted:
  assumes "emit_snapshot sch sha utc_now mf cfg result captured_at = Inr e"
    and "\<And>s. sch s = [] \<Longrightarrow> sch (canonical_snapshot s) = []"
  shows "\<exists>v. accept sch sha (Document (em_document e)) = Inr (v, em_serialized e) \<and> v_warnings v = []"
proof -
  have ok: "list_all (raw_ok sha) (in_objects result)"
  proof (rule ccontr)
    assume "\<not> list_all (raw_ok sha) (in_objects result)"
    then obtain ps where "emit_snapshot sch sha utc_now mf cfg result captured_at = Inl ps"
      using emit_snapshot_problems by blast
    with assms(1) show False by simp
  qed
  let ?d = "emit_document sha utc_now mf cfg result captured_at"
  from assms(1) have clean: "fst (validate_snapshot sch sha True ?d) = []"
    and e: "e = \<lparr>em_document = canonical_snapshot ?d, em_serialized = canonical_document_bytes ?d\<rparr>"
    by (auto simp: emit_snapshot_eq [OF ok] Let_def split: if_splits)
  have "fst (validate_snapshot sch sha True (canonical_snapshot ?d)) = []"
    by (rule validate_canonical_snapshot [OF assms(2) clean])
  then obtain v where v: "accept sch sha (Document (em_document e)) = Inr (v, em_serialized e)"
    using accept_Inr_iff [of sch sha "canonical_snapshot ?d" "canonical_document_bytes ?d"]
    by (auto simp: e)
  have "\<forall>ob\<in>set (s_objects (em_document e)). known_kind (o_kind ob)"
    using rehash_ok(1) [OF ok]
    by (auto simp: e canonical_snapshot_def set_canonical_objects emit_document_def assembled_def)
  then have "snd (validate_snapshot sch sha True (em_document e)) = []"
    by (auto simp: validate_snapshot_def Let_def validate_objects_warnings filter_empty_conv)
  then have "v_warnings v = []"
    using v by (auto simp: accept_def Let_def split: prod.splits if_splits)
  with v show ?thesis by blast
qed

definition ex_manifest :: manifest where
  "ex_manifest = \<lparr>mf_name = ''pg'', mf_version = ''1.0.0'', mf_protocol_version = 1, mf_snapshot_version = ''1'',
     mf_capabilities = [(''metadata'', [(''modes'', JList [JStr ''live''])])], mf_config_schema = JObj [],
     mf_credentials = [], mf_rate_limit = [], mf_health_probe = None\<rparr>"

definition ex_introspection :: introspection where
  "ex_introspection = \<lparr>in_objects = [RawObject (ex_table [ex_col ''id'' 1 None]) None],
     in_system_class = ''sql'', in_source_properties = None\<rparr>"

end
