(* ===== verification/Sdk_Quota.thy ===== *)
theory Sdk_Quota
  imports Prelude Complex_Main
begin

text \<open>
  Quota primitives, \<open>src/connectors/sdk/quota.py\<close>: the policy a manifest declares, the token bucket that
  paces calls and the backoff schedule.

  Floats are real numbers, so rounding is not modelled. The injected clock and sleep are
  the environment: one call of \<open>acquire\<close> is given the time the clock shows when it is called
  and the time it shows after the sleep.
\<close>

section \<open>Policy\<close>

record quota_policy =
  q_strategy :: string
  q_rate_per_s :: real
  q_burst :: int
  q_max_retries :: nat
  q_backoff_base_s :: real
  q_backoff_cap_s :: real
  q_default_retry_after_s :: int

definition default_policy :: quota_policy where
  "default_policy = \<lparr>q_strategy = ''none'', q_rate_per_s = 5, q_burst = 5, q_max_retries = 4,
     q_backoff_base_s = 1, q_backoff_cap_s = 60, q_default_retry_after_s = 3600\<rparr>"

text \<open>The \<open>rate_limit\<close> mapping of a manifest: the known members, each present or not.\<close>

record rate_limit =
  rl_strategy :: "string option"
  rl_rate_per_s :: "real option"
  rl_burst :: "int option"
  rl_max_retries :: "nat option"
  rl_backoff_base_s :: "real option"
  rl_backoff_cap_s :: "real option"
  rl_default_retry_after_s :: "int option"

definition given :: "'a option \<Rightarrow> 'a \<Rightarrow> 'a" where
  "given x d = (case x of None \<Rightarrow> d | Some v \<Rightarrow> v)"

definition from_rate_limit :: "rate_limit \<Rightarrow> quota_policy" where
  "from_rate_limit r =
     \<lparr>q_strategy = given (rl_strategy r) (q_strategy default_policy),
      q_rate_per_s = given (rl_rate_per_s r) (q_rate_per_s default_policy),
      q_burst = given (rl_burst r) (q_burst default_policy),
      q_max_retries = given (rl_max_retries r) (q_max_retries default_policy),
      q_backoff_base_s = given (rl_backoff_base_s r) (q_backoff_base_s default_policy),
      q_backoff_cap_s = given (rl_backoff_cap_s r) (q_backoff_cap_s default_policy),
      q_default_retry_after_s = given (rl_default_retry_after_s r) (q_default_retry_after_s default_policy)\<rparr>"

section \<open>The token bucket\<close>

record bucket =
  b_active :: bool
  b_rate :: real
  b_capacity :: real
  b_tokens :: real
  b_last :: real

definition new_bucket :: "quota_policy \<Rightarrow> real \<Rightarrow> bucket" where
  "new_bucket q clock = \<lparr>b_active = (q_strategy q \<noteq> ''none''), b_rate = q_rate_per_s q,
     b_capacity = real_of_int (q_burst q), b_tokens = real_of_int (q_burst q), b_last = clock\<rparr>"

definition refill :: "real \<Rightarrow> bucket \<Rightarrow> bucket" where
  "refill now b = b\<lparr>b_tokens := min (b_capacity b) (b_tokens b + (now - b_last b) * b_rate b), b_last := now\<rparr>"

text \<open>How long \<open>acquire\<close> sleeps, and the state it leaves; \<open>after\<close> is the clock after the sleep.\<close>

definition wait_time :: "real \<Rightarrow> bucket \<Rightarrow> real" where
  "wait_time now b =
     (if \<not> b_active b then 0
      else let b1 = refill now b in if b_tokens b1 < 1 then (1 - b_tokens b1) / b_rate b else 0)"

definition acquire :: "real \<Rightarrow> real \<Rightarrow> bucket \<Rightarrow> bucket" where
  "acquire now after b =
     (if \<not> b_active b then b
      else let b1 = refill now b;
               b2 = (if b_tokens b1 < 1 then b1\<lparr>b_last := after, b_tokens := 1\<rparr> else b1)
           in b2\<lparr>b_tokens := b_tokens b2 - 1\<rparr>)"

text \<open>A run of calls: the clock never goes back, and a sleep lasts at least as long as asked for. The
  number counts the calls, the time is the clock when the last one returned.\<close>

inductive bucket_run :: "quota_policy \<Rightarrow> real \<Rightarrow> bucket \<Rightarrow> nat \<Rightarrow> real \<Rightarrow> bool" for q start where
  start: "bucket_run q start (new_bucket q start) 0 start"
| call: "bucket_run q start b n t \<Longrightarrow> t \<le> now \<Longrightarrow> now + wait_time now b \<le> after \<Longrightarrow>
    bucket_run q start (acquire now after b) (Suc n) after"

section \<open>Backoff\<close>

definition backoff_delays :: "quota_policy \<Rightarrow> (nat \<Rightarrow> real) \<Rightarrow> real list" where
  "backoff_delays q uniform =
     map (\<lambda>attempt. min (q_backoff_base_s q * 2 ^ attempt) (q_backoff_cap_s q) * uniform attempt) [0..<q_max_retries q]"

section \<open>Properties\<close>

text \<open>The potential of the bucket: tokens and calls together never exceed what the burst and the elapsed
  time allow.\<close>

lemma bucket_potential:
  assumes "bucket_run q start b n t" and "q_strategy q \<noteq> ''none''" and "0 < q_rate_per_s q" and "1 \<le> q_burst q"
  shows "b_active b \<and> b_rate b = q_rate_per_s q \<and> b_capacity b = real_of_int (q_burst q)
    \<and> b_last b \<le> t \<and> 0 \<le> b_tokens b \<and> b_tokens b \<le> b_capacity b
    \<and> b_tokens b + n \<le> q_burst q + q_rate_per_s q * (b_last b - start)"
  using assms
proof (induction rule: bucket_run.induct)
  case start
  then show ?case by (simp add: new_bucket_def)
next
  case (call b n t now after)
  let ?r = "q_rate_per_s q"
  from call have b: "b_active b" "b_rate b = ?r" "b_capacity b = real_of_int (q_burst q)" "b_last b \<le> now"
    "0 \<le> b_tokens b" "b_tokens b + n \<le> q_burst q + ?r * (b_last b - start)" by auto
  have grow: "0 \<le> (now - b_last b) * ?r" using b(4) call.prems by simp
  have full: "b_tokens (refill now b) + n \<le> q_burst q + ?r * (now - start)"
    using b grow by (simp add: refill_def algebra_simps min_def)
  have nonneg: "0 \<le> b_tokens (refill now b)" "b_tokens (refill now b) \<le> b_capacity b"
    using b grow call.prems by (simp_all add: refill_def min_def)
  show ?case
  proof (cases "b_tokens (refill now b) < 1")
    case True
    then have "now + (1 - b_tokens (refill now b)) / ?r \<le> after"
      using call.hyps b by (simp add: wait_time_def Let_def)
    then have "1 - b_tokens (refill now b) \<le> ?r * (after - now)"
      using call.prems by (simp add: field_simps)
    then have "1 + real n \<le> q_burst q + ?r * (after - start)" using full by (simp add: algebra_simps)
    moreover have "acquire now after b = (refill now b)\<lparr>b_last := after, b_tokens := 0\<rparr>"
      using True b by (simp add: acquire_def Let_def)
    ultimately show ?thesis using b call.prems by (simp add: refill_def)
  next
    case False
    moreover have "now \<le> after" using call.hyps b False by (simp add: wait_time_def Let_def)
    moreover have "acquire now after b = (refill now b)\<lparr>b_tokens := b_tokens (refill now b) - 1\<rparr>"
      using False b by (simp add: acquire_def Let_def)
    moreover have "b_last (refill now b) = now" "b_active (refill now b) = b_active b"
      "b_rate (refill now b) = b_rate b" "b_capacity (refill now b) = b_capacity b" by (simp_all add: refill_def)
    ultimately show ?thesis using b nonneg full by simp
  qed
qed

text \<open>
  The token bucket never provokes the source's ceiling: whatever the times of the calls, at most
  \<open>burst + rate * elapsed\<close> calls have been let through since the bucket was made, and the number of
  tokens stays between zero and the burst.
\<close>

theorem token_bucket_rate_bound:
  assumes "bucket_run q start b n t" and "q_strategy q \<noteq> ''none''" and "0 < q_rate_per_s q" and "1 \<le> q_burst q"
  shows "real n \<le> q_burst q + q_rate_per_s q * (t - start) \<and> 0 \<le> b_tokens b \<and> b_tokens b \<le> q_burst q"
proof -
  have "b_last b \<le> t" and "0 \<le> b_tokens b" and "b_tokens b \<le> q_burst q"
    and "b_tokens b + n \<le> q_burst q + q_rate_per_s q * (b_last b - start)"
    using bucket_potential [OF assms] by auto
  moreover from this have "q_rate_per_s q * (b_last b - start) \<le> q_rate_per_s q * (t - start)"
    using assms(3) by (intro mult_left_mono) auto
  ultimately show ?thesis by auto
qed

definition ex_policy :: quota_policy where
  "ex_policy = default_policy\<lparr>q_strategy := ''token-bucket'', q_burst := 1\<rparr>"

lemma ex_bucket_run:
  "bucket_run ex_policy 0 (acquire 0 (1/5) (acquire 0 0 (new_bucket ex_policy 0))) 2 (1/5)"
proof -
  have "bucket_run ex_policy 0 (acquire 0 0 (new_bucket ex_policy 0)) (Suc 0) 0"
    by (rule bucket_run.call [OF bucket_run.start])
      (simp_all add: wait_time_def new_bucket_def refill_def ex_policy_def default_policy_def Let_def)
  then have "bucket_run ex_policy 0 (acquire 0 (1/5) (acquire 0 0 (new_bucket ex_policy 0))) (Suc (Suc 0)) (1/5)"
    by (rule bucket_run.call)
      (simp_all add: wait_time_def acquire_def new_bucket_def refill_def ex_policy_def default_policy_def Let_def)
  then show ?thesis by (simp add: numeral_2_eq_2)
qed

theorem token_bucket_rate_bound_witness:
  "real 2 \<le> q_burst ex_policy + q_rate_per_s ex_policy * (1/5 - 0)
    \<and> 0 \<le> b_tokens (acquire 0 (1/5) (acquire 0 0 (new_bucket ex_policy 0)))
    \<and> b_tokens (acquire 0 (1/5) (acquire 0 0 (new_bucket ex_policy 0))) \<le> q_burst ex_policy"
  by (rule token_bucket_rate_bound [OF ex_bucket_run]) (simp_all add: ex_policy_def default_policy_def)

text \<open>
  The retry schedule is bounded: it has \<open>max_retries\<close> delays, and with a jitter factor between 0.8 and
  1.2 each lies between 0.8 and 1.2 times its capped exponential, so no delay exceeds 1.2 times the cap.
\<close>

theorem backoff_bounded:
  assumes "\<And>n. 4/5 \<le> uniform n \<and> uniform n \<le> 6/5" and "0 \<le> q_backoff_base_s q" and "0 \<le> q_backoff_cap_s q"
  shows "length (backoff_delays q uniform) = q_max_retries q
    \<and> list_all (\<lambda>d. 0 \<le> d \<and> d \<le> 6/5 * q_backoff_cap_s q) (backoff_delays q uniform)
    \<and> list_all2 (\<lambda>n d. 4/5 * min (q_backoff_base_s q * 2 ^ n) (q_backoff_cap_s q) \<le> d)
        [0..<q_max_retries q] (backoff_delays q uniform)"
proof -
  let ?m = "\<lambda>n. min (q_backoff_base_s q * 2 ^ n) (q_backoff_cap_s q)"
  have m: "0 \<le> ?m n" for n using assms(2,3) by simp
  have lo: "4/5 * ?m n \<le> ?m n * uniform n" for n
    using mult_left_mono [OF conjunct1 [OF assms(1) [of n]] m [of n]] by (simp add: mult.commute)
  have hi: "?m n * uniform n \<le> 6/5 * q_backoff_cap_s q" for n
  proof -
    have "?m n * uniform n \<le> ?m n * (6/5)"
      using mult_left_mono [OF conjunct2 [OF assms(1) [of n]] m [of n]] by simp
    also have "\<dots> \<le> 6/5 * q_backoff_cap_s q" by simp
    finally show ?thesis .
  qed
  have "0 \<le> ?m n * uniform n" for n using lo [of n] m [of n] by linarith
  with lo hi show ?thesis
    by (auto simp: backoff_delays_def list_all_iff list_all2_conv_all_nth)
qed

theorem backoff_bounded_witness:
  "length (backoff_delays default_policy (\<lambda>_. 1)) = q_max_retries default_policy
    \<and> list_all (\<lambda>d. 0 \<le> d \<and> d \<le> 6/5 * q_backoff_cap_s default_policy) (backoff_delays default_policy (\<lambda>_. 1))
    \<and> list_all2 (\<lambda>n d. 4/5 * min (q_backoff_base_s default_policy * 2 ^ n) (q_backoff_cap_s default_policy) \<le> d)
        [0..<q_max_retries default_policy] (backoff_delays default_policy (\<lambda>_. 1))"
  by (rule backoff_bounded) (simp_all add: default_policy_def)

end
