(* ===== verification/Sdk_Providers.thy ===== *)
theory Sdk_Providers
  imports Sdk_Emission
begin

text \<open>
  The capability interfaces of the connector SDK (\<open>src/connectors/sdk/providers.py\<close>), the encoding of result
  values (\<open>encoding.py\<close>) and the assembly of a connector from its manifest and handlers (\<open>connector.py\<close>).

  A payload member is a JSON value, \<open>JNull\<close> when it is absent. A \<open>ValueError\<close> is its message, on the left.
  A handler is the functions a connector supplies; a call returns what the handler raised, or what
  it returned, which may be of the wrong type. Finite floats are not modelled, in keeping with the JSON values.
\<close>

section \<open>Guardrails\<close>

record guardrails =
  g_row_cap :: int
  g_timeout_s :: int
  g_statement_class :: string
  g_validated_against :: "string option"

definition default_guardrails :: guardrails where
  "default_guardrails = \<lparr>g_row_cap = 1000, g_timeout_s = 30, g_statement_class = ''select-only'',
     g_validated_against = None\<rparr>"

definition MAX_ROW_CAP :: int where
  "MAX_ROW_CAP = 1000000"

definition MAX_TIMEOUT_S :: int where
  "MAX_TIMEOUT_S = 300"

definition bounded :: "(string, json) dict \<Rightarrow> string \<Rightarrow> int \<Rightarrow> int \<Rightarrow> int" where
  "bounded raw key fallback ceiling =
     (case dict_get raw key of
        Some (JInt value) \<Rightarrow> if value \<le> 0 then fallback else min value ceiling
      | _ \<Rightarrow> fallback)"

definition parse_guardrails :: "json \<Rightarrow> guardrails" where
  "parse_guardrails raw =
     (case raw of
        JObj kvs \<Rightarrow>
          \<lparr>g_row_cap = bounded kvs ''row_cap'' (g_row_cap default_guardrails) MAX_ROW_CAP,
           g_timeout_s = bounded kvs ''timeout_s'' (g_timeout_s default_guardrails) MAX_TIMEOUT_S,
           g_statement_class = ''select-only'',
           g_validated_against = (case dict_get kvs ''validated_against'' of Some (JStr s) \<Rightarrow> Some s | _ \<Rightarrow> None)\<rparr>
      | _ \<Rightarrow> default_guardrails)"

section \<open>Identity\<close>

text \<open>The members are taken from the payload as they are, so they may be any JSON value.\<close>

record caller =
  c_subject :: json
  c_roles :: "string list"
  c_display :: json
  c_session_id :: json
  c_intent :: json

definition default_caller :: caller where
  "default_caller = \<lparr>c_subject = JStr ''unknown'', c_roles = [], c_display = JNull, c_session_id = JNull,
     c_intent = JNull\<rparr>"

definition member :: "(string, json) dict \<Rightarrow> string \<Rightarrow> json" where
  "member kvs k = (case dict_get kvs k of None \<Rightarrow> JNull | Some v \<Rightarrow> v)"

definition or_else :: "json \<Rightarrow> json \<Rightarrow> json" where
  "or_else v d = (if truthy v then v else d)"

fun strings_of :: "json list \<Rightarrow> string list" where
  "strings_of [] = []"
| "strings_of (JStr s # vs) = s # strings_of vs"
| "strings_of (_ # vs) = strings_of vs"

definition parse_identity :: "json \<Rightarrow> caller" where
  "parse_identity raw =
     (case raw of
        JObj kvs \<Rightarrow>
          \<lparr>c_subject = or_else (member kvs ''subject'') (JStr ''unknown''),
           c_roles = (case member kvs ''roles'' of JList rs \<Rightarrow> strings_of rs | _ \<Rightarrow> []),
           c_display = member kvs ''display'', c_session_id = member kvs ''session_id'',
           c_intent = member kvs ''intent''\<rparr>
      | _ \<Rightarrow> default_caller)"

text \<open>\<open>hashlib.sha256(text.encode("utf-8")).hexdigest()\<close> is the parameter \<open>sha\<close>. \<open>None\<close> is the exception
  a value without \<open>encode\<close> raises.\<close>

definition intent_hash :: "(string \<Rightarrow> string) \<Rightarrow> caller \<Rightarrow> string option" where
  "intent_hash sha i =
     (case or_else (c_intent i) (JStr []) of JStr s \<Rightarrow> Some (take 16 (sha s)) | _ \<Rightarrow> None)"

text \<open>What \<open>for c in value\<close> ranges over: the characters of a string, the items of a list, the keys of a dict;
  \<open>None\<close> when \<open>value\<close> cannot be iterated or an item has no \<open>isalnum\<close>.\<close>

fun string_items :: "json list \<Rightarrow> string list option" where
  "string_items [] = Some []"
| "string_items (JStr s # vs) = map_option ((#) s) (string_items vs)"
| "string_items (_ # vs) = None"

definition pieces :: "json \<Rightarrow> string list option" where
  "pieces value = (case value of JStr s \<Rightarrow> Some (map (\<lambda>c. [c]) s) | JList vs \<Rightarrow> string_items vs
     | JObj kvs \<Rightarrow> Some (dict_keys kvs) | _ \<Rightarrow> None)"

definition TAG_CHARS :: string where
  "TAG_CHARS = ''@.:_-|+''"

definition tag_piece :: "string \<Rightarrow> bool" where
  "tag_piece p \<longleftrightarrow> p \<noteq> [] \<and> list_all is_alnum p \<or> contains_text p TAG_CHARS"

definition clean :: "json \<Rightarrow> string option" where
  "clean value =
     map_option (\<lambda>ps. let s = take 120 (concat (filter tag_piece ps)) in if s = [] then ''unknown'' else s)
       (pieces value)"

definition comment_tag :: "(string \<Rightarrow> string) \<Rightarrow> caller \<Rightarrow> string option" where
  "comment_tag sha i =
     (case (clean (c_subject i), clean (or_else (c_session_id i) (JStr ''none'')),
            Option.bind (intent_hash sha i) (\<lambda>h. clean (JStr h))) of
        (Some user, Some session, Some intent) \<Rightarrow>
          Some (''/* contextlayer user='' @ user @ '' session='' @ session @ '' intent='' @ intent @ '' */'')
      | _ \<Rightarrow> None)"

section \<open>Requests\<close>

record execute_request =
  er_dialect :: string
  er_statement :: json
  er_params :: "json list"
  er_operation :: json
  er_body :: "(string, json) dict option"

definition dict_or_none :: "json \<Rightarrow> (string, json) dict option" where
  "dict_or_none v = (case v of JObj kvs \<Rightarrow> Some kvs | _ \<Rightarrow> None)"

definition parse_execute :: "json \<Rightarrow> (string, execute_request) result" where
  "parse_execute raw =
     (case raw of
        JObj kvs \<Rightarrow>
          (case member kvs ''dialect'' of
             JStr d \<Rightarrow>
               if d = ''sql'' \<or> d = ''api''
               then Inr \<lparr>er_dialect = d, er_statement = member kvs ''statement'',
                         er_params = (case member kvs ''params'' of JList ps \<Rightarrow> ps | _ \<Rightarrow> []),
                         er_operation = member kvs ''operation'', er_body = dict_or_none (member kvs ''body'')\<rparr>
               else Inl (''request.dialect must be 'sql' or 'api', got '' @ py_repr d)
           | v \<Rightarrow> Inl (''request.dialect must be 'sql' or 'api', got '' @ repr_json v))
      | _ \<Rightarrow> Inl ''request must be an object'')"

record publish_request =
  pr_artifact :: "(string, json) dict"
  pr_target :: string
  pr_mode :: "string option"
  pr_results :: "(string, json) dict option"
  pr_previous :: "(string, json) dict option"
  pr_attestation :: "(string, json) dict option"

definition bad_member :: "string \<times> json \<Rightarrow> bool" where
  "bad_member nv \<longleftrightarrow> snd nv \<noteq> JNull \<and> dict_or_none (snd nv) = None"

definition mode_message :: string where
  "mode_message = ''payload.mode must be 'deliver_model' or 'attest' when present (capability ''
     @ CHR 0xa7 # ''8.2 amendment)''"

definition parse_publish ::
  "json \<Rightarrow> json \<Rightarrow> json \<Rightarrow> json \<Rightarrow> json \<Rightarrow> json \<Rightarrow> (string, publish_request) result" where
  "parse_publish artifact target mode results previous attestation =
     (case artifact of
        JObj art \<Rightarrow>
          (case target of
             JStr (c # cs) \<Rightarrow>
               if mode \<noteq> JNull \<and> mode \<noteq> JStr ''deliver_model'' \<and> mode \<noteq> JStr ''attest'' then Inl mode_message
               else (case List.find bad_member
                       [(''results'', results), (''previous'', previous), (''attestation'', attestation)] of
                       Some (name, _) \<Rightarrow> Inl (''payload.'' @ name @ '' must be an object when present'')
                     | None \<Rightarrow>
                         Inr \<lparr>pr_artifact = art, pr_target = c # cs,
                              pr_mode = (case mode of JStr m \<Rightarrow> Some m | _ \<Rightarrow> None),
                              pr_results = dict_or_none results, pr_previous = dict_or_none previous,
                              pr_attestation = dict_or_none attestation\<rparr>)
           | _ \<Rightarrow> Inl ''payload.target must be a non-empty string'')
      | _ \<Rightarrow> Inl ''payload.artifact must be an object'')"

definition artifact_version :: "publish_request \<Rightarrow> string option" where
  "artifact_version r = (case dict_get (pr_artifact r) ''artifact_version'' of Some (JStr v) \<Rightarrow> Some v | _ \<Rightarrow> None)"

section \<open>Result values (encoding.py)\<close>

text \<open>A value a driver returns. A value that is only ever rendered as text is represented by that text:
  \<open>str(v)\<close> for decimals, UUIDs and unmapped values, \<open>v.isoformat()\<close> for dates and times.
  Bytes are characters.\<close>

datatype source_key = KStr string | KInt int | KBool bool | KNone | KOther string

datatype source_value =
    VNone
  | VBool bool
  | VInt int
  | VStr string
  | VNotFinite string
  | VDecimal string
  | VDatetime string
  | VDate string
  | VTime string
  | VUuid string
  | VBytes string
  | VDict "(source_key \<times> source_value) list"
  | VList "source_value list"
  | VTuple "source_value list"
  | VInterval int
  | VOther string

definition JSON_SAFE_INT_MAX :: int where
  "JSON_SAFE_INT_MAX = 2 ^ 53 - 1"

definition b64_digit :: "nat \<Rightarrow> char" where
  "b64_digit n = ''ABCDEFGHIJKLMNOPQRSTUVWXYZabcdefghijklmnopqrstuvwxyz0123456789+/'' ! n"

fun b64encode :: "string \<Rightarrow> string" where
  "b64encode [] = []"
| "b64encode [a] = [b64_digit (code a div 4), b64_digit (code a mod 4 * 16), CHR ''='', CHR ''='']"
| "b64encode [a, b] = [b64_digit (code a div 4), b64_digit (code a mod 4 * 16 + code b div 16),
     b64_digit (code b mod 16 * 4), CHR ''='']"
| "b64encode (a # b # c # s) = b64_digit (code a div 4) # b64_digit (code a mod 4 * 16 + code b div 16)
     # b64_digit (code b mod 16 * 4 + code c div 64) # b64_digit (code c mod 64) # b64encode s"

fun key_text :: "source_key \<Rightarrow> string" where
  "key_text (KStr s) = s"
| "key_text (KInt i) = show_int i"
| "key_text (KBool b) = (if b then ''True'' else ''False'')"
| "key_text KNone = ''None''"
| "key_text (KOther s) = s"

text \<open>\<open>str(v)\<close> of a \<open>timedelta\<close> of so many microseconds: the days are rounded down, the rest is not negative\<close>

definition zero_padded :: "nat \<Rightarrow> nat \<Rightarrow> string" where
  "zero_padded width n = replicate (width - length (show_nat n)) (CHR ''0'') @ show_nat n"

definition timedelta_text :: "int \<Rightarrow> string" where
  "timedelta_text us =
     (let days = us div 86400000000; rest = nat (us mod 86400000000); secs = rest div 1000000; micros = rest mod 1000000
      in (if days = 0 then []
          else show_int days @ '' day'' @ (if \<bar>days\<bar> \<noteq> 1 then ''s'' else []) @ '', '')
         @ show_nat (secs div 3600) @ '':'' @ zero_padded 2 (secs mod 3600 div 60) @ '':'' @ zero_padded 2 (secs mod 60)
         @ (if micros = 0 then [] else ''.'' @ zero_padded 6 micros))"

fun json_value :: "source_value \<Rightarrow> json" where
  "json_value VNone = JNull"
| "json_value (VBool b) = JBool b"
| "json_value (VStr s) = JStr s"
| "json_value (VInt i) = (if \<bar>i\<bar> \<le> JSON_SAFE_INT_MAX then JInt i else JStr (show_int i))"
| "json_value (VNotFinite s) = JStr s"
| "json_value (VDecimal s) = JStr s"
| "json_value (VDatetime s) = JStr s"
| "json_value (VDate s) = JStr s"
| "json_value (VTime s) = JStr s"
| "json_value (VUuid s) = JStr s"
| "json_value (VBytes bs) = JStr (b64encode bs)"
| "json_value (VDict kvs) = JObj (dict_of (map (\<lambda>(k, v). (key_text k, json_value v)) kvs))"
| "json_value (VList vs) = JList (map json_value vs)"
| "json_value (VTuple vs) = JList (map json_value vs)"
| "json_value (VInterval us) = JStr (timedelta_text us)"
| "json_value (VOther s) = JStr s"

definition json_row :: "source_value list \<Rightarrow> json" where
  "json_row row = JList (map json_value row)"

text \<open>A decoded JSON value seen as a source value again\<close>

fun of_json :: "json \<Rightarrow> source_value" where
  "of_json JNull = VNone"
| "of_json (JBool b) = VBool b"
| "of_json (JInt i) = VInt i"
| "of_json (JStr s) = VStr s"
| "of_json (JList vs) = VList (map of_json vs)"
| "of_json (JObj kvs) = VDict (map (\<lambda>(k, v). (KStr k, of_json v)) kvs)"

section \<open>Results\<close>

record execute_result =
  xr_columns :: "json list"
  xr_rows :: "source_value list list"
  xr_row_count :: int
  xr_truncated :: bool
  xr_duration_ms :: int
  xr_source :: "(string, json) dict"

definition execute_json :: "execute_result \<Rightarrow> json" where
  "execute_json r = JObj [(''columns'', JList (xr_columns r)), (''rows'', JList (map json_row (xr_rows r))),
     (''row_count'', JInt (xr_row_count r)), (''truncated'', JBool (xr_truncated r)),
     (''duration_ms'', JInt (xr_duration_ms r)), (''source'', JObj (xr_source r))]"

record publish_result =
  pb_mode :: string
  pb_created :: "json list"
  pb_pending_human_steps :: "string list"
  pb_backing :: "json list"
  pb_detail :: "(string, json) dict"

definition publish_json :: "publish_result \<Rightarrow> json" where
  "publish_json r = JObj [(''mode'', JStr (pb_mode r)), (''created'', JList (pb_created r)),
     (''pending_human_steps'', JList (map JStr (pb_pending_human_steps r))), (''backing'', JList (pb_backing r)),
     (''detail'', JObj (pb_detail r))]"

section \<open>Connectors (connector.py)\<close>

text \<open>What a call of connector code raises: an error of the taxonomy, or any other exception by its type name,
  its message, its \<open>repr\<close> and its traceback.\<close>

record crash =
  cr_type :: string
  cr_message :: string
  cr_repr :: string
  cr_traceback :: string

datatype raised = Classified connector_error | Crashed crash

datatype 'a returned = Returned 'a | WrongType string

type_synonym 'a call = "(raised, 'a) result"

record metadata_provider =
  mp_introspect :: "json \<Rightarrow> introspection returned call"
  mp_preflight :: "json \<Rightarrow> json call"

record query_executor =
  qx_execute :: "json \<Rightarrow> execute_request \<Rightarrow> guardrails \<Rightarrow> caller \<Rightarrow> execute_result returned call"
  qx_preflight :: "json \<Rightarrow> json call"

record publisher =
  pu_publish :: "json \<Rightarrow> publish_request \<Rightarrow> caller \<Rightarrow> (string, json) dict \<Rightarrow> publish_result returned call"
  pu_preflight :: "json \<Rightarrow> json call"
  pu_versions :: "string list"

text \<open>The \<open>preflight\<close> a handler inherits when it defines none\<close>

definition default_preflight :: "string \<Rightarrow> json \<Rightarrow> json call" where
  "default_preflight reason config = Inr (JObj [(''probed'', JBool False), (''reason'', JStr reason)])"

datatype handler =
    Metadata metadata_provider
  | Query query_executor
  | Publish publisher
  | OtherHandler

record connector =
  cn_manifest :: manifest
  cn_handlers :: "(string, handler) dict"

datatype registration_problem =
    NoHandler string string
  | UndeclaredHandler string
  | NotMetadataProvider
  | NotQueryExecutor
  | NotPublisher

definition registration_problems ::
  "manifest \<Rightarrow> (string, handler) dict \<Rightarrow> registration_problem list" where
  "registration_problems mf handlers =
     (let declared = dict_keys (mf_capabilities mf); provided = dict_keys handlers
      in map (\<lambda>c. NoHandler c (the (dict_get CAPABILITY_JOB_TYPES c)))
           (sort (filter (\<lambda>c. c \<notin> set provided) declared))
         @ map UndeclaredHandler (sort (filter (\<lambda>c. c \<notin> set declared) provided))
         @ (case dict_get handlers ''metadata'' of None \<Rightarrow> [] | Some (Metadata _) \<Rightarrow> [] | _ \<Rightarrow> [NotMetadataProvider])
         @ (case dict_get handlers ''query'' of None \<Rightarrow> [] | Some (Query _) \<Rightarrow> [] | _ \<Rightarrow> [NotQueryExecutor])
         @ (case dict_get handlers ''publish'' of None \<Rightarrow> [] | Some (Publish _) \<Rightarrow> [] | _ \<Rightarrow> [NotPublisher]))"

definition new_connector ::
  "manifest \<Rightarrow> (string, handler) dict \<Rightarrow> (registration_problem list, connector) result" where
  "new_connector mf handlers =
     (let problems = registration_problems mf handlers
      in if problems \<noteq> [] then Inl problems else Inr \<lparr>cn_manifest = mf, cn_handlers = handlers\<rparr>)"

definition metadata_of :: "connector \<Rightarrow> metadata_provider option" where
  "metadata_of cn = (case dict_get (cn_handlers cn) ''metadata'' of Some (Metadata h) \<Rightarrow> Some h | _ \<Rightarrow> None)"

definition query_of :: "connector \<Rightarrow> query_executor option" where
  "query_of cn = (case dict_get (cn_handlers cn) ''query'' of Some (Query h) \<Rightarrow> Some h | _ \<Rightarrow> None)"

definition publish_of :: "connector \<Rightarrow> publisher option" where
  "publish_of cn = (case dict_get (cn_handlers cn) ''publish'' of Some (Publish h) \<Rightarrow> Some h | _ \<Rightarrow> None)"

section \<open>Properties\<close>

lemma bounded_range: "1 \<le> fallback \<Longrightarrow> fallback \<le> ceiling \<Longrightarrow>
    1 \<le> bounded raw key fallback ceiling \<and> bounded raw key fallback ceiling \<le> ceiling"
  by (auto simp: bounded_def split: option.splits json.splits)

text \<open>A request for a limit within the ceiling is honoured, a larger one is cut, anything else gets the default.\<close>

definition limit_of :: "json \<Rightarrow> string \<Rightarrow> int \<Rightarrow> int \<Rightarrow> int" where
  "limit_of raw key fallback ceiling =
     (if (\<exists>kvs n. raw = JObj kvs \<and> map_of kvs key = Some (JInt n) \<and> 0 < n)
      then min ceiling (THE n. \<exists>kvs. raw = JObj kvs \<and> map_of kvs key = Some (JInt n)) else fallback)"

lemma bounded_limit: "bounded kvs key fallback ceiling = limit_of (JObj kvs) key fallback ceiling"
proof (cases "map_of kvs key")
  case (Some v)
  then show ?thesis by (cases v) (auto simp: bounded_def limit_of_def)
qed (simp add: bounded_def limit_of_def)

text \<open>
  The executor never runs unbounded (\<open>Guardrails.parse\<close> of providers.py): whatever the payload carries,
  the row cap is between 1 and 1,000,000, the timeout between 1 and 300 seconds and the statement class
  \<open>select-only\<close>; a positive integer limit in the payload is never exceeded, and it is taken exactly when it
  is within the ceiling.\<close>

theorem guardrails_bounded:
  "1 \<le> g_row_cap (parse_guardrails raw) \<and> g_row_cap (parse_guardrails raw) \<le> 1000000
   \<and> 1 \<le> g_timeout_s (parse_guardrails raw) \<and> g_timeout_s (parse_guardrails raw) \<le> 300
   \<and> g_statement_class (parse_guardrails raw) = ''select-only''
   \<and> g_row_cap (parse_guardrails raw) = limit_of raw ''row_cap'' 1000 1000000
   \<and> g_timeout_s (parse_guardrails raw) = limit_of raw ''timeout_s'' 30 300"
proof (cases raw)
  case (JObj kvs)
  then show ?thesis
    using bounded_range [of 1000 MAX_ROW_CAP kvs "''row_cap''"] bounded_range [of 30 MAX_TIMEOUT_S kvs "''timeout_s''"]
    by (simp add: parse_guardrails_def default_guardrails_def bounded_limit MAX_ROW_CAP_def MAX_TIMEOUT_S_def)
qed (simp_all add: parse_guardrails_def default_guardrails_def limit_of_def)

definition tag_char :: "char \<Rightarrow> bool" where
  "tag_char c \<longleftrightarrow> is_alnum c \<or> c \<in> set TAG_CHARS"

lemma contains_text_set: "contains_text p s \<Longrightarrow> set p \<subseteq> set s"
proof (induction s)
  case (Cons c s)
  then show ?case
    by (auto simp: startswith_def dest: in_set_takeD) (metis in_set_takeD set_ConsD)
qed simp

lemma tag_piece_chars: "tag_piece p \<Longrightarrow> list_all tag_char p"
  using contains_text_set [of p TAG_CHARS] by (auto simp: tag_piece_def tag_char_def list_all_iff)

lemma clean_chars:
  assumes "clean v = Some s"
  shows "list_all tag_char s" and "length s \<le> 120" and "s \<noteq> []"
proof -
  from assms obtain ps where s: "s = (let t = take 120 (concat (filter tag_piece ps)) in if t = [] then ''unknown'' else t)"
    by (auto simp: clean_def)
  have "list_all tag_char (take 120 (concat (filter tag_piece ps)))"
    using tag_piece_chars by (fastforce simp: list_all_iff dest: in_set_takeD)
  then show "list_all tag_char s"
    by (auto simp: s Let_def tag_char_def is_alnum_def is_lower_def less_eq_char_def)
  show "length s \<le> 120" and "s \<noteq> []" by (auto simp: s Let_def)
qed

lemma tag_char_no_close: "tag_char c \<Longrightarrow> c \<noteq> CHR ''*'' \<and> c \<noteq> CHR ''/'' \<and> c \<noteq> CHR '' ''"
  by (auto simp: tag_char_def TAG_CHARS_def is_alnum_def is_digit_def is_upper_def is_lower_def less_eq_char_def code_def Let_def)

text \<open>
  The comment that tags a statement cannot be closed from inside (\<open>Identity.comment_tag\<close>): between its
  delimiters the tag has no asterisk and no slash, whatever subject, session id and intent the payload carries,
  and the tag has at most 407 characters.\<close>

theorem comment_tag_sealed:
  assumes "comment_tag sha i = Some t"
  shows "\<exists>body. t = ''/*'' @ body @ ''*/'' \<and> CHR ''*'' \<notin> set body \<and> CHR ''/'' \<notin> set body \<and> length t \<le> 407"
proof -
  from assms obtain u s n where c: "clean (c_subject i) = Some u" "clean (or_else (c_session_id i) (JStr ''none'')) = Some s"
      "\<exists>v. clean v = Some n"
    and t: "t = ''/* contextlayer user='' @ u @ '' session='' @ s @ '' intent='' @ n @ '' */''"
    by (auto simp: comment_tag_def bind_eq_Some_conv split: option.splits)
  have ok: "c \<noteq> CHR ''*'' \<and> c \<noteq> CHR ''/''" if "c \<in> set u \<union> set s \<union> set n" for c
    using that c clean_chars(1) tag_char_no_close by (auto simp: list_all_iff)
  have "length u \<le> 120" "length s \<le> 120" "length n \<le> 120" using c clean_chars(2) by blast+
  then have "length t \<le> 407" by (simp add: t)
  moreover have "t = ''/*'' @ ('' contextlayer user='' @ u @ '' session='' @ s @ '' intent='' @ n @ '' '') @ ''*/''"
    by (simp add: t)
  ultimately show ?thesis using ok by (intro exI [where x = "'' contextlayer user='' @ u @ '' session='' @ s @ '' intent='' @ n @ '' ''"]) auto
qed

theorem comment_tag_sealed_witness:
  "\<exists>t body. comment_tag (\<lambda>_. ''0123456789abcdef'')
      (parse_identity (JObj [(''subject'', JStr ''eve*/ DROP''), (''session_id'', JStr ''s-1'')])) = Some t
    \<and> t = ''/*'' @ body @ ''*/'' \<and> CHR ''*'' \<notin> set body \<and> CHR ''/'' \<notin> set body \<and> length t \<le> 407"
proof -
  have "comment_tag (\<lambda>_. ''0123456789abcdef'')
      (parse_identity (JObj [(''subject'', JStr ''eve*/ DROP''), (''session_id'', JStr ''s-1'')]))
      = Some ''/* contextlayer user=eveDROP session=s-1 intent=0123456789abcdef */''"
    by code_simp
  from comment_tag_sealed [OF this] this show ?thesis by blast
qed

subsection \<open>Encoded values\<close>

fun json_safe :: "json \<Rightarrow> bool" where
  "json_safe (JInt i) \<longleftrightarrow> \<bar>i\<bar> \<le> JSON_SAFE_INT_MAX"
| "json_safe (JList vs) \<longleftrightarrow> list_all json_safe vs"
| "json_safe (JObj kvs) \<longleftrightarrow> distinct (map fst kvs) \<and> list_all (\<lambda>(k, v). json_safe v) kvs"
| "json_safe _ \<longleftrightarrow> True"

lemma dict_of_distinct_acc:
  "distinct (map fst (acc @ kvs)) \<Longrightarrow> fold (\<lambda>(k, v). dict_set k v) kvs acc = acc @ kvs"
proof (induction kvs arbitrary: acc)
  case (Cons kv kvs)
  obtain k v where kv: "kv = (k, v)" by (cases kv)
  with Cons.prems have "k \<notin> fst ` set acc" by auto
  then have "dict_set k v acc = acc @ [(k, v)]" by (induction acc) auto
  then show ?case using Cons kv by simp
qed simp

lemma dict_of_distinct: "distinct (map fst kvs) \<Longrightarrow> dict_of kvs = kvs"
  using dict_of_distinct_acc [of "[]" kvs] by (simp add: dict_of_def)

lemma set_dict_of: "set (dict_of kvs) \<subseteq> set kvs"
proof -
  have "set (fold (\<lambda>(k, v). dict_set k v) kvs acc) \<subseteq> set acc \<union> set kvs" for acc
  proof (induction kvs arbitrary: acc)
    case (Cons kv kvs)
    obtain k v where kv: "kv = (k, v)" by (cases kv)
    have "set (dict_set k v acc) \<subseteq> insert (k, v) (set acc)" by (induction acc) auto
    with Cons [of "dict_set k v acc"] kv show ?case by auto
  qed simp
  from this [of "[]"] show ?thesis by (simp add: dict_of_def)
qed

lemma json_value_safe: "json_safe (json_value v)"
proof (induction v)
  case (VDict kvs)
  have "distinct (map fst (dict_of (map (\<lambda>(k, v). (key_text k, json_value v)) kvs)))"
    using dict_of_wf by (simp add: dict_wf_def)
  moreover have "json_safe w" if "(k, w) \<in> set (dict_of (map (\<lambda>(k, v). (key_text k, json_value v)) kvs))" for k w
    using subsetD [OF set_dict_of that] VDict by fastforce
  ultimately show ?case by (auto simp: list_all_iff)
qed (auto simp: list_all_iff)

lemma json_value_of_json: "json_safe j \<Longrightarrow> json_value (of_json j) = j"
proof (induction j)
  case (JList vs)
  then show ?case by (auto simp: list_all_iff intro!: map_idI)
next
  case (JObj kvs)
  have "map ((\<lambda>(k, v). (key_text k, json_value v)) \<circ> (\<lambda>(k, v). (KStr k, of_json v))) kvs = kvs"
    using JObj by (intro map_idI) (fastforce simp: list_all_iff)
  then show ?case using JObj.prems by (simp add: dict_of_distinct)
qed simp_all

text \<open>
  Result values are encoded faithfully and once (\<open>json_value\<close> of encoding.py): every value of a driver
  becomes a JSON value whose integers all fit a double exactly and whose objects have distinct keys, and
  encoding an encoded value again changes nothing, so that the second pass in \<open>ExecuteResult.to_json\<close> is harmless.\<close>

theorem json_value_idempotent:
  "json_safe (json_value v) \<and> json_value (of_json (json_value v)) = json_value v"
  by (simp add: json_value_safe json_value_of_json)

subsection \<open>Assembly\<close>

lemma case_handler_Nil:
  "(case h of None \<Rightarrow> [] | Some (Metadata _) \<Rightarrow> [] | _ \<Rightarrow> [x]) = [] \<longleftrightarrow> (h = None \<or> (\<exists>m. h = Some (Metadata m)))"
  "(case h of None \<Rightarrow> [] | Some (Query _) \<Rightarrow> [] | _ \<Rightarrow> [x]) = [] \<longleftrightarrow> (h = None \<or> (\<exists>q. h = Some (Query q)))"
  "(case h of None \<Rightarrow> [] | Some (Publish _) \<Rightarrow> [] | _ \<Rightarrow> [x]) = [] \<longleftrightarrow> (h = None \<or> (\<exists>p. h = Some (Publish p)))"
  by (auto split: option.splits handler.splits)

text \<open>
  A connector is assembled if and only if its declared capabilities and its registered handlers are the same
  and the handlers of the capabilities \<open>metadata\<close>, \<open>query\<close> and \<open>publish\<close> implement the matching interface
  (\<open>Connector.__init__\<close> of connector.py).\<close>

theorem new_connector_exact:
  "new_connector mf handlers = Inr cn \<longleftrightarrow>
     cn = \<lparr>cn_manifest = mf, cn_handlers = handlers\<rparr>
     \<and> set (dict_keys (mf_capabilities mf)) = set (dict_keys handlers)
     \<and> (dict_has handlers ''metadata'' = (metadata_of cn \<noteq> None))
     \<and> (dict_has handlers ''query'' = (query_of cn \<noteq> None))
     \<and> (dict_has handlers ''publish'' = (publish_of cn \<noteq> None))"
proof (cases "cn = \<lparr>cn_manifest = mf, cn_handlers = handlers\<rparr>")
  case True
  have kinds: "(h = None \<or> (\<exists>m. h = Some (Metadata m))) = ((h \<noteq> None) = ((case h of Some (Metadata h) \<Rightarrow> Some h | _ \<Rightarrow> None) \<noteq> None))"
    "(h = None \<or> (\<exists>m. h = Some (Query m))) = ((h \<noteq> None) = ((case h of Some (Query h) \<Rightarrow> Some h | _ \<Rightarrow> None) \<noteq> None))"
    "(h = None \<or> (\<exists>m. h = Some (Publish m))) = ((h \<noteq> None) = ((case h of Some (Publish h) \<Rightarrow> Some h | _ \<Rightarrow> None) \<noteq> None))"
    for h by (auto split: option.splits handler.splits)
  have sets: "sort (filter (\<lambda>c. c \<notin> A) xs) = [] \<longleftrightarrow> set xs \<subseteq> A" for A and xs :: "string list"
    by (auto simp: filter_empty_conv simp flip: set_empty)
  show ?thesis
    unfolding new_connector_def registration_problems_def True metadata_of_def query_of_def publish_of_def dict_has_def Let_def
    by (simp add: case_handler_Nil kinds sets)
qed (simp add: new_connector_def Let_def)

end
