(* ===== verification/Sdk_Vault.thy ===== *)
theory Sdk_Vault
  imports Sdk_Errors Complex_Main
begin

text \<open>
  Credential references, \<open>src/connectors/sdk/vault.py\<close>: the environment backend, HashiCorp Vault, the
  router between them and the env file.

  A \<open>VaultResolutionError\<close> is a constructor that names the reference and what the message may tell;
  its class pins the code \<open>auth_error\<close>, not retryable, and the detail \<open>stage: vault\<close>. Vault itself, the clock and the network
  are the record \<open>world\<close>: its functions are indexed by a counter that every interaction advances, so that each
  answer may differ from the one before. The lock around the token cache is not modelled, so each resolution is one step.
\<close>

section \<open>Errors\<close>

datatype vault_error =
    UnsupportedScheme string
  | MalformedName string
  | NotSet string string
  | NoField string
  | IncompleteRef string
  | MalformedRef string
  | NoIdentity
  | NoAddress
  | Unreachable
  | LoginRefused int
  | LoginNoToken
  | NoSecret string
  | Denied string
  | ReadFailed string int
  | NotKv2 string
  | SecretDeleted string
  | FieldMissing string
  | FieldEmpty string
  | NoResolver string
  | EnvFileUnreadable string
  | EnvLineMalformed nat
  | EntryIncomplete
  | KeyUnknown string

definition vault_connector_error :: "(vault_error \<Rightarrow> string) \<Rightarrow> vault_error \<Rightarrow> connector_error" where
  "vault_connector_error text_of e = AuthError (text_of e) [(''stage'', JStr ''vault'')]"

section \<open>The environment backend\<close>

definition ENV_SCHEME :: string where
  "ENV_SCHEME = ''env://''"

definition VAULT_SCHEME :: string where
  "VAULT_SCHEME = ''vault://''"

definition env_resolve :: "(string, string) dict \<Rightarrow> string \<Rightarrow> (vault_error, string) result" where
  "env_resolve mapping ref =
     (if \<not> startswith ref ENV_SCHEME then Inl (UnsupportedScheme ref)
      else let name = drop (length ENV_SCHEME) ref
           in if name = [] \<or> name \<noteq> strip name then Inl (MalformedName ref)
              else case dict_get mapping name of
                     None \<Rightarrow> Inl (NotSet ref name)
                   | Some value \<Rightarrow> if value = [] then Inl (NotSet ref name) else Inr value)"

section \<open>References into Vault\<close>

record vault_ref =
  vr_mount :: string
  vr_path :: string
  vr_field :: string

text \<open>\<open>urllib.parse.quote(s, safe="")\<close>: the UTF-8 bytes outside the unreserved characters as \<open>%XX\<close>\<close>

definition utf8 :: "char \<Rightarrow> nat list" where
  "utf8 c = (if code c < 128 then [code c] else [192 + code c div 64, 128 + code c mod 64])"

definition upper_hex :: "nat \<Rightarrow> char" where
  "upper_hex n = ''0123456789ABCDEF'' ! n"

definition quote_char :: "char \<Rightarrow> string" where
  "quote_char c =
     (if is_alpha_ascii c \<or> is_digit c \<or> c \<in> set ''_.-~'' then [c]
      else concat (map (\<lambda>b. [CHR ''%'', upper_hex (b div 16), upper_hex (b mod 16)]) (utf8 c)))"

definition quote :: "string \<Rightarrow> string" where
  "quote s = concat (map quote_char s)"

definition read_path :: "vault_ref \<Rightarrow> string" where
  "read_path r = quote (vr_mount r) @ ''/data/'' @ join ''/'' (map quote (split_on CHR ''/'' (vr_path r)))"

definition parse_vault_ref :: "string \<Rightarrow> (vault_error, vault_ref) result" where
  "parse_vault_ref ref =
     (if \<not> startswith ref VAULT_SCHEME then Inl (UnsupportedScheme ref)
      else let body = drop (length VAULT_SCHEME) ref;
               (location, has_field, field) = partition_at CHR ''#'' body;
               (mount, _, path) = partition_at CHR ''/'' location
           in if \<not> has_field then Inl (NoField ref)
              else if mount = [] \<or> path = [] \<or> field = [] then Inl (IncompleteRef ref)
              else if mount \<noteq> strip mount \<or> path \<noteq> strip path \<or> field \<noteq> strip field \<or> CHR ''#'' \<in> set field
              then Inl (MalformedRef ref)
              else Inr \<lparr>vr_mount = mount, vr_path = strip_by (\<lambda>c. c = CHR ''/'') path, vr_field = field\<rparr>)"

section \<open>The runner's own identity\<close>

record vault_auth =
  va_role_id :: "string option"
  va_secret_id :: "string option"
  va_token :: "string option"

definition is_approle :: "vault_auth \<Rightarrow> bool" where
  "is_approle a \<longleftrightarrow> va_role_id a \<noteq> None \<and> va_role_id a \<noteq> Some [] \<and> va_secret_id a \<noteq> None \<and> va_secret_id a \<noteq> Some []"

definition or_none :: "string option \<Rightarrow> string option" where
  "or_none v = (if v = Some [] then None else v)"

definition auth_from_env :: "(string, string) dict \<Rightarrow> (vault_error, vault_auth) result" where
  "auth_from_env env =
     (let auth = \<lparr>va_role_id = or_none (dict_get env ''VAULT_ROLE_ID''),
                  va_secret_id = or_none (dict_get env ''VAULT_SECRET_ID''),
                  va_token = or_none (dict_get env ''VAULT_TOKEN'')\<rparr>
      in if \<not> is_approle auth \<and> va_token auth = None then Inl NoIdentity else Inr auth)"

section \<open>The Vault backend\<close>

text \<open>An HTTP exchange: no answer (a \<open>RequestException\<close>), or a status and a body, which may not be JSON.\<close>

datatype reply = NoReply | Reply int "json option"

record world =
  w_now :: "nat \<Rightarrow> real"
  w_login :: "nat \<Rightarrow> string \<Rightarrow> string \<Rightarrow> reply"
  w_read :: "nat \<Rightarrow> json \<Rightarrow> string \<Rightarrow> reply"
  w_float :: "string \<Rightarrow> real option"

text \<open>The resolver's state: the cached token (\<open>JNull\<close> for none), when it expires (\<open>None\<close> for never), and the
  number of interactions so far.\<close>

record vault_state =
  vs_auth :: vault_auth
  vs_token :: json
  vs_expires :: "real option"
  vs_tick :: nat

definition RENEW_MARGIN_S :: real where
  "RENEW_MARGIN_S = 30"

definition new_vault :: "string \<Rightarrow> vault_auth \<Rightarrow> (vault_error, vault_state) result" where
  "new_vault addr auth =
     (if addr = [] then Inl NoAddress
      else Inr \<lparr>vs_auth = auth, vs_token = JNull, vs_expires = Some 0, vs_tick = 0\<rparr>)"

definition vault_from_env :: "(string, string) dict \<Rightarrow> (vault_error, vault_state) result" where
  "vault_from_env env =
     res_bind (auth_from_env env)
       (new_vault (case dict_get env ''VAULT_ADDR'' of None \<Rightarrow> [] | Some a \<Rightarrow> a))"

definition tick :: "vault_state \<Rightarrow> vault_state" where
  "tick s = s\<lparr>vs_tick := Suc (vs_tick s)\<rparr>"

text \<open>\<open>float(auth.get("lease_duration") or 0)\<close>; \<open>None\<close> is a \<open>TypeError\<close> or \<open>ValueError\<close>.\<close>

definition lease_seconds :: "world \<Rightarrow> json \<Rightarrow> real option" where
  "lease_seconds w v =
     (if \<not> truthy v then Some 0
      else case v of JInt i \<Rightarrow> Some (of_int i) | JBool b \<Rightarrow> Some 1 | JStr s \<Rightarrow> w_float w s | _ \<Rightarrow> None)"

definition field_of :: "json \<Rightarrow> string \<Rightarrow> json option" where
  "field_of v k = (case v of JObj kvs \<Rightarrow> dict_get kvs k | _ \<Rightarrow> None)"

text \<open>\<open>_login\<close>: a token and its lease, \<open>None\<close> for a lease without end\<close>

definition login :: "world \<Rightarrow> vault_state \<Rightarrow> (vault_error, json \<times> real option) result \<times> vault_state" where
  "login w s =
     (if \<not> is_approle (vs_auth s)
      then (Inr (JStr (case va_token (vs_auth s) of None \<Rightarrow> [] | Some t \<Rightarrow> t), None), s)
      else (case w_login w (vs_tick s) (the (va_role_id (vs_auth s))) (the (va_secret_id (vs_auth s))) of
              NoReply \<Rightarrow> Inl Unreachable
            | Reply status body \<Rightarrow>
                if status \<ge> 400 then Inl (LoginRefused status)
                else (case Option.bind body (\<lambda>b. field_of b ''auth'') of
                        None \<Rightarrow> Inl LoginNoToken
                      | Some auth \<Rightarrow>
                          (case field_of auth ''client_token'' of
                             None \<Rightarrow> Inl LoginNoToken
                           | Some token \<Rightarrow>
                               (case lease_seconds w (case field_of auth ''lease_duration'' of None \<Rightarrow> JNull | Some v \<Rightarrow> v) of
                                  None \<Rightarrow> Inl LoginNoToken
                                | Some lease \<Rightarrow> Inr (token, Some lease)))),
            tick s))"

definition token_fresh :: "world \<Rightarrow> vault_state \<Rightarrow> bool" where
  "token_fresh w s \<longleftrightarrow> vs_token s \<noteq> JNull
     \<and> (case vs_expires s of None \<Rightarrow> True | Some t \<Rightarrow> w_now w (vs_tick s) < t)"

definition client_token ::
  "world \<Rightarrow> bool \<Rightarrow> vault_state \<Rightarrow> (vault_error, json) result \<times> vault_state" where
  "client_token w force s =
     (let s0 = (if force then s\<lparr>vs_token := JNull\<rparr> else s)
      in if token_fresh w s0 then (Inr (vs_token s0), tick s0)
         else case login w (tick s0) of
                (Inl e, s1) \<Rightarrow> (Inl e, s1)
              | (Inr (token, lease), s1) \<Rightarrow>
                  (Inr token,
                   tick (s1\<lparr>vs_token := token,
                           vs_expires := (case lease of None \<Rightarrow> None
                              | Some l \<Rightarrow> Some (w_now w (vs_tick s1) + max (l - RENEW_MARGIN_S) 1))\<rparr>)))"

definition read_secret ::
  "world \<Rightarrow> vault_ref \<Rightarrow> json \<Rightarrow> vault_state \<Rightarrow> (vault_error, int \<times> json option) result \<times> vault_state" where
  "read_secret w r token s =
     ((case w_read w (vs_tick s) token (read_path r) of NoReply \<Rightarrow> Inl Unreachable | Reply st b \<Rightarrow> Inr (st, b)), tick s)"

text \<open>The tail of \<open>resolve\<close>: what the response of the last read means.\<close>

definition secret_value :: "string \<Rightarrow> vault_ref \<Rightarrow> int \<times> json option \<Rightarrow> (vault_error, string) result" where
  "secret_value ref r response =
     (let (status, body) = response
      in if status = 404 then Inl (NoSecret ref)
         else if status = 401 \<or> status = 403 then Inl (Denied ref)
         else if status \<ge> 400 then Inl (ReadFailed ref status)
         else case Option.bind (Option.bind body (\<lambda>b. field_of b ''data'')) (\<lambda>d. field_of d ''data'') of
                None \<Rightarrow> Inl (NotKv2 ref)
              | Some JNull \<Rightarrow> Inl (SecretDeleted ref)
              | Some data \<Rightarrow>
                  (case field_of data (vr_field r) of
                     None \<Rightarrow> Inl (FieldMissing ref)
                   | Some v \<Rightarrow> if v = JNull \<or> v = JStr [] then Inl (FieldEmpty ref) else Inr (str_json v)))"

definition read_with_token ::
  "world \<Rightarrow> vault_ref \<Rightarrow> bool \<Rightarrow> vault_state \<Rightarrow> (vault_error, int \<times> json option) result \<times> vault_state" where
  "read_with_token w r force s =
     (case client_token w force s of
        (Inl e, s1) \<Rightarrow> (Inl e, s1)
      | (Inr token, s1) \<Rightarrow> read_secret w r token s1)"

definition vault_resolve ::
  "world \<Rightarrow> string \<Rightarrow> vault_state \<Rightarrow> (vault_error, string) result \<times> vault_state" where
  "vault_resolve w ref s =
     (case parse_vault_ref ref of
        Inl e \<Rightarrow> (Inl e, s)
      | Inr r \<Rightarrow>
          (case read_with_token w r False s of
             (Inl e, s1) \<Rightarrow> (Inl e, s1)
           | (Inr (status, body), s1) \<Rightarrow>
               if status = 401 \<or> status = 403
               then (case read_with_token w r True s1 of
                       (Inl e, s2) \<Rightarrow> (Inl e, s2)
                     | (Inr response, s2) \<Rightarrow> (secret_value ref r response, s2))
               else (secret_value ref r (status, body), s1)))"

section \<open>The router\<close>

text \<open>A backend shares the state of the runner; the environment backend leaves it alone.\<close>

type_synonym resolver = "string \<Rightarrow> vault_state \<Rightarrow> (vault_error, string) result \<times> vault_state"

fun router_resolve :: "(string, resolver) dict \<Rightarrow> resolver" where
  "router_resolve [] ref s = (Inl (NoResolver ref), s)"
| "router_resolve ((scheme, backend) # backends) ref s =
     (if startswith ref scheme then backend ref s else router_resolve backends ref s)"

definition env_backend :: "(string, string) dict \<Rightarrow> resolver" where
  "env_backend mapping ref s = (env_resolve mapping ref, s)"

section \<open>Env files\<close>

definition name_start :: "char \<Rightarrow> bool" where
  "name_start c \<longleftrightarrow> is_alpha_ascii c \<or> c = CHR ''_''"

definition name_char :: "char \<Rightarrow> bool" where
  "name_char c \<longleftrightarrow> name_start c \<or> is_digit c"

text \<open>The pattern \<open>_ENV_LINE\<close>: \<open>NAME=rest\<close>, with or without \<open>export\<close> and white space before it\<close>

definition key_value :: "string \<Rightarrow> (string \<times> string) option" where
  "key_value s =
     (let k = takeWhile name_char s; rest = dropWhile name_char s
      in if k \<noteq> [] \<and> name_start (hd k) \<and> rest \<noteq> [] \<and> hd rest = CHR ''='' then Some (k, tl rest) else None)"

definition env_line :: "string \<Rightarrow> (string \<times> string) option" where
  "env_line s =
     (let rest = drop 6 s
      in if startswith s ''export'' \<and> rest \<noteq> [] \<and> is_space (hd rest) \<and> key_value (dropWhile is_space rest) \<noteq> None
         then key_value (dropWhile is_space rest) else key_value s)"

definition unquote :: "string \<Rightarrow> string" where
  "unquote v =
     (if length v \<ge> 2 \<and> hd v = last v \<and> hd v \<in> {CHR 0x27, CHR 0x22} then butlast (tl v) else v)"

definition env_step ::
  "(string, string) dict \<Rightarrow> nat \<times> string \<Rightarrow> (vault_error, (string, string) dict) result" where
  "env_step values numbered =
     (let (lineno, line) = numbered; stripped = strip line
      in if stripped = [] \<or> startswith stripped ''#'' then Inr values
         else case env_line stripped of
                None \<Rightarrow> Inl (EnvLineMalformed lineno)
              | Some (key, rest) \<Rightarrow> Inr (dict_set key (unquote (strip rest)) values))"

definition load_env_file :: "(string, string) result \<Rightarrow> (vault_error, (string, string) dict) result" where
  "load_env_file file =
     (case file of
        Inl e \<Rightarrow> Inl (EnvFileUnreadable e)
      | Inr contents \<Rightarrow> let lines = splitlines contents in res_fold env_step [] (zip [1..<Suc (length lines)] lines))"

section \<open>References: what is accepted\<close>

definition ref_parts :: "string \<Rightarrow> string \<Rightarrow> string \<Rightarrow> bool" where
  "ref_parts mount path field \<longleftrightarrow>
     mount \<noteq> [] \<and> path \<noteq> [] \<and> field \<noteq> [] \<and> strip mount = mount \<and> strip path = path \<and> strip field = field
     \<and> CHR ''/'' \<notin> set mount \<and> CHR ''#'' \<notin> set mount \<and> CHR ''#'' \<notin> set path \<and> CHR ''#'' \<notin> set field"

lemma partition_at_True: "partition_at c s = (a, True, r) \<longleftrightarrow> s = a @ c # r \<and> c \<notin> set a"
  using partition_at_found [of c s a r] partition_at_append [of c a r] by auto

lemma partition_at_False: "partition_at c s = (a, False, r) \<longleftrightarrow> s = a \<and> c \<notin> set s \<and> r = []"
  using partition_at_none [of c s a r] partition_at_absent [of c a] by auto

lemma parse_vault_ref_parts:
  assumes "ref_parts mount path field"
  shows "parse_vault_ref (VAULT_SCHEME @ mount @ ''/'' @ path @ ''#'' @ field)
    = Inr \<lparr>vr_mount = mount, vr_path = strip_by (\<lambda>c. c = CHR ''/'') path, vr_field = field\<rparr>"
proof -
  have "partition_at CHR ''#'' ((mount @ ''/'' @ path) @ CHR ''#'' # field) = (mount @ ''/'' @ path, True, field)"
    using assms by (intro partition_at_append) (auto simp: ref_parts_def)
  moreover have "partition_at CHR ''/'' (mount @ CHR ''/'' # path) = (mount, True, path)"
    using assms by (intro partition_at_append) (auto simp: ref_parts_def)
  ultimately show ?thesis
    using assms by (simp add: parse_vault_ref_def Let_def ref_parts_def)
qed

lemma parse_vault_ref_Inr:
  assumes "parse_vault_ref ref = Inr r"
  shows "\<exists>path. ref = VAULT_SCHEME @ vr_mount r @ ''/'' @ path @ ''#'' @ vr_field r
    \<and> ref_parts (vr_mount r) path (vr_field r) \<and> vr_path r = strip_by (\<lambda>c. c = CHR ''/'') path"
proof -
  define body where "body = drop (length VAULT_SCHEME) ref"
  obtain location has_field field where p1: "partition_at CHR ''#'' body = (location, has_field, field)"
    by (cases "partition_at CHR ''#'' body") auto
  obtain mount has_path path where p2: "partition_at CHR ''/'' location = (mount, has_path, path)"
    by (cases "partition_at CHR ''/'' location") auto
  have scheme: "startswith ref VAULT_SCHEME" and has_field
    and r: "r = \<lparr>vr_mount = mount, vr_path = strip_by (\<lambda>c. c = CHR ''/'') path, vr_field = field\<rparr>"
    and parts: "mount \<noteq> []" "path \<noteq> []" "field \<noteq> []" "strip mount = mount" "strip path = path" "strip field = field"
      "CHR ''#'' \<notin> set field"
    using assms p1 p2 unfolding parse_vault_ref_def body_def [symmetric] Let_def
    by (auto split: if_splits)
  have has_path: has_path using p2 parts(2) partition_at_False [of "CHR ''/''" location mount path] by (cases has_path) auto
  have loc: "location = mount @ CHR ''/'' # path" "CHR ''/'' \<notin> set mount"
    using p2 has_path by (simp_all add: partition_at_True)
  have bod: "body = location @ CHR ''#'' # field" "CHR ''#'' \<notin> set location"
    using p1 \<open>has_field\<close> by (simp_all add: partition_at_True)
  have "ref = VAULT_SCHEME @ body"
    using scheme by (auto simp: startswith_iff body_def)
  then show ?thesis using loc bod parts r by (intro exI [where x = path]) (auto simp: ref_parts_def)
qed

text \<open>
  Vault references are parsed exactly (\<open>parse_vault_ref\<close> of vault.py): a reference is accepted if and only
  if it reads \<open>vault://mount/path#field\<close> with three non-empty parts without surrounding white space,
  no slash in the mount and no further \<open>#\<close>; the parts are returned as written, the path without
  its leading and trailing slashes.\<close>

theorem parse_vault_ref_exact:
  "parse_vault_ref ref = Inr r \<longleftrightarrow>
     (\<exists>path. ref = VAULT_SCHEME @ vr_mount r @ ''/'' @ path @ ''#'' @ vr_field r
        \<and> ref_parts (vr_mount r) path (vr_field r) \<and> vr_path r = strip_by (\<lambda>c. c = CHR ''/'') path)"
  using parse_vault_ref_Inr [of ref r] parse_vault_ref_parts [of "vr_mount r" _ "vr_field r"] by auto

text \<open>The check for an empty path precedes the removal of the slashes, so a path of slashes is accepted
  and becomes empty.\<close>

lemma parse_vault_ref_empty_path:
  "parse_vault_ref ''vault://secret//#dsn'' = Inr \<lparr>vr_mount = ''secret'', vr_path = [], vr_field = ''dsn''\<rparr>"
  by code_simp

section \<open>What a resolver promises\<close>

text \<open>The protocol \<open>CredentialResolver\<close>, as its callers use it.\<close>

locale credential_resolver =
  fixes scheme :: string
    and resolve :: resolver
  assumes resolve_scheme: "fst (resolve ref s) = Inr v \<Longrightarrow> startswith ref scheme"
    and resolve_nonempty: "fst (resolve ref s) = Inr v \<Longrightarrow> v \<noteq> []"
begin

lemma other_scheme: "\<not> startswith ref scheme \<Longrightarrow> \<exists>e. fst (resolve ref s) = Inl e"
  using resolve_scheme by (cases "fst (resolve ref s)") blast+

lemma routed:
  assumes "fst (router_resolve ((scheme, resolve) # rest) ref s) = Inr v"
  shows "startswith ref scheme \<and> v \<noteq> [] \<or> fst (router_resolve rest ref s) = Inr v"
  using assms resolve_nonempty by (auto split: if_splits)

end

interpretation env: credential_resolver ENV_SCHEME "env_backend mapping" for mapping
  by unfold_locales (auto simp: env_backend_def env_resolve_def Let_def split: if_splits option.splits)

lemma str_json_nonempty: "v \<noteq> JStr [] \<Longrightarrow> str_json v \<noteq> []"
  by (cases v) (auto simp: str_json_def)

lemma secret_value_Inr:
  assumes "secret_value ref r (status, body) = Inr v"
  obtains b d data j where "status < 400" "body = Some b" "field_of b ''data'' = Some d" "field_of d ''data'' = Some data"
    "field_of data (vr_field r) = Some j" "v = str_json j" "v \<noteq> []"
  using assms str_json_nonempty
  by (auto simp: secret_value_def Let_def bind_eq_Some_conv split: if_splits option.splits json.splits)

lemma vault_resolve_cases:
  assumes "vault_resolve w ref s = (Inr v, s')"
  obtains r response where "parse_vault_ref ref = Inr r" "secret_value ref r response = Inr v"
    "read_with_token w r False s = (Inr response, s') \<or>
     (\<exists>x s1. read_with_token w r False s = (Inr x, s1) \<and> read_with_token w r True s1 = (Inr response, s'))"
  using assms by (auto simp: vault_resolve_def split: sum.splits prod.splits if_splits)

interpretation vault: credential_resolver VAULT_SCHEME "vault_resolve w" for w
proof unfold_locales
  fix ref s v
  assume "fst (vault_resolve w ref s) = Inr v"
  then obtain s' where "vault_resolve w ref s = (Inr v, s')" by (metis prod.collapse)
  then obtain r response where r: "parse_vault_ref ref = Inr r" and v: "secret_value ref r response = Inr v"
    by (rule vault_resolve_cases)
  show "startswith ref VAULT_SCHEME" using parse_vault_ref_Inr [OF r] by auto
  show "v \<noteq> []" using v by (cases response) (auto elim: secret_value_Inr)
qed

section \<open>Reads are current and bounded\<close>

lemma login_tick: "vs_tick s \<le> vs_tick (snd (login w s)) \<and> vs_tick (snd (login w s)) \<le> vs_tick s + 1"
  by (simp add: login_def tick_def)

lemma client_token_tick:
  "vs_tick s \<le> vs_tick (snd (client_token w force s)) \<and> vs_tick (snd (client_token w force s)) \<le> vs_tick s + 3"
  using login_tick [of "tick (if force then s\<lparr>vs_token := JNull\<rparr> else s)" w]
  by (auto simp: client_token_def Let_def tick_def split: prod.splits sum.splits)

lemma read_with_token_tick:
  "vs_tick s \<le> vs_tick (snd (read_with_token w r force s))
   \<and> vs_tick (snd (read_with_token w r force s)) \<le> vs_tick s + 4"
  using client_token_tick [of s w force]
  by (auto simp: read_with_token_def read_secret_def tick_def split: prod.splits sum.splits)

lemma read_with_token_read:
  assumes "read_with_token w r force s = (Inr (status, body), s')"
  obtains n token where "vs_tick s \<le> n" "vs_tick s' = Suc n" "w_read w n token (read_path r) = Reply status body"
proof -
  from assms obtain token s1 where t: "client_token w force s = (Inr token, s1)"
    and rd: "read_secret w r token s1 = (Inr (status, body), s')"
    by (auto simp: read_with_token_def split: prod.splits sum.splits)
  then have "vs_tick s \<le> vs_tick s1" using client_token_tick [of s w force] by simp
  moreover have "vs_tick s' = Suc (vs_tick s1)" "w_read w (vs_tick s1) token (read_path r) = Reply status body"
    using rd by (auto simp: read_secret_def tick_def split: reply.splits)
  ultimately show ?thesis by (rule that)
qed

lemma vault_resolve_tick: "vs_tick (snd (vault_resolve w ref s)) \<le> vs_tick s + 8"
proof (cases "parse_vault_ref ref")
  case (Inr r)
  obtain x s1 where rd: "read_with_token w r False s = (x, s1)" by (cases "read_with_token w r False s")
  have "vs_tick s1 \<le> vs_tick s + 4" using read_with_token_tick [of s w r False] rd by simp
  moreover have "vs_tick (snd (read_with_token w r True s1)) \<le> vs_tick s1 + 4"
    using read_with_token_tick [of s1 w r True] by simp
  ultimately show ?thesis
    by (auto simp: vault_resolve_def Inr rd split: sum.splits prod.splits)
qed (simp add: vault_resolve_def)

text \<open>
  A resolved secret is current (\<open>VaultResolver.resolve\<close>): when a reference resolves, its value is the non-empty
  field of the secret that Vault returned, with a status below 400, for a read of exactly the referenced path that was made during
  this call. Nothing but the login token is cached, so a rotated secret takes effect on the next resolution, and a call has at
  most eight interactions with the clock and with Vault.\<close>

theorem vault_resolve_current:
  assumes "vault_resolve w ref s = (Inr v, s')"
  shows "\<exists>r n token status b d data j. parse_vault_ref ref = Inr r \<and> vs_tick s \<le> n \<and> n < vs_tick s'
    \<and> vs_tick s' \<le> vs_tick s + 8 \<and> w_read w n token (read_path r) = Reply status (Some b) \<and> status < 400
    \<and> field_of b ''data'' = Some d \<and> field_of d ''data'' = Some data \<and> field_of data (vr_field r) = Some j
    \<and> v = str_json j \<and> v \<noteq> []"
proof -
  obtain r status body where r: "parse_vault_ref ref = Inr r" and v: "secret_value ref r (status, body) = Inr v"
    and reads: "read_with_token w r False s = (Inr (status, body), s') \<or>
      (\<exists>x s1. read_with_token w r False s = (Inr x, s1) \<and> read_with_token w r True s1 = (Inr (status, body), s'))"
    using assms by (rule vault_resolve_cases) auto
  have "\<exists>n token. vs_tick s \<le> n \<and> n < vs_tick s' \<and> w_read w n token (read_path r) = Reply status body"
    using reads
  proof
    assume "read_with_token w r False s = (Inr (status, body), s')"
    then show ?thesis by (rule read_with_token_read) auto
  next
    assume "\<exists>x s1. read_with_token w r False s = (Inr x, s1) \<and> read_with_token w r True s1 = (Inr (status, body), s')"
    then obtain x s1 where first: "read_with_token w r False s = (Inr x, s1)"
      and second: "read_with_token w r True s1 = (Inr (status, body), s')" by blast
    have "vs_tick s \<le> vs_tick s1" using read_with_token_tick [of s w r False] first by simp
    moreover obtain n token where "vs_tick s1 \<le> n" "vs_tick s' = Suc n"
      "w_read w n token (read_path r) = Reply status body"
      using second by (rule read_with_token_read)
    ultimately show ?thesis by (intro exI [where x = n] exI [where x = token]) simp
  qed
  moreover have "vs_tick s' \<le> vs_tick s + 8" using vault_resolve_tick [of w ref s] assms by simp
  moreover obtain b d data j where "status < 400" "body = Some b" "field_of b ''data'' = Some d"
    "field_of d ''data'' = Some data" "field_of data (vr_field r) = Some j" "v = str_json j" "v \<noteq> []"
    using v by (rule secret_value_Inr)
  ultimately show ?thesis using r by blast
qed

text \<open>A Vault that issues the token \<open>good\<close> on login and answers reads only with it\<close>

definition serves :: "world \<Rightarrow> json \<Rightarrow> vault_ref \<Rightarrow> json \<Rightarrow> bool" where
  "serves w good r j \<longleftrightarrow>
     (\<forall>n a b. \<exists>lease. w_login w n a b = Reply 200 (Some (JObj [(''auth'',
        JObj [(''client_token'', good), (''lease_duration'', JInt lease)])])))
     \<and> (\<forall>n token. w_read w n token (read_path r) =
         (if token = good then Reply 200 (Some (JObj [(''data'', JObj [(''data'', JObj [(vr_field r, j)])])]))
          else Reply 403 None))"

lemma serves_login:
  assumes "serves w good r j" and "is_approle (vs_auth s)"
  shows "\<exists>lease. login w s = (Inr (good, Some lease), tick s)"
proof -
  obtain lease where "w_login w (vs_tick s) (the (va_role_id (vs_auth s))) (the (va_secret_id (vs_auth s)))
      = Reply 200 (Some (JObj [(''auth'', JObj [(''client_token'', good), (''lease_duration'', JInt lease)])]))"
    using assms(1) unfolding serves_def by blast
  then show ?thesis using assms(2) by (auto simp: login_def field_of_def lease_seconds_def)
qed

lemma serves_forced:
  assumes "serves w good r j" and "is_approle (vs_auth s)" and "good \<noteq> JNull"
  shows "\<exists>s'. client_token w True s = (Inr good, s')"
  using serves_login [OF assms(1), of "tick (s\<lparr>vs_token := JNull\<rparr>)"] assms(2)
  by (auto simp: client_token_def Let_def token_fresh_def tick_def)

lemma serves_token:
  assumes "serves w good r j" and "is_approle (vs_auth s)"
  shows "\<exists>token s'. client_token w False s = (Inr token, s') \<and> vs_auth s' = vs_auth s"
  using serves_login [OF assms(1), of "tick s"] assms(2) by (auto simp: client_token_def Let_def tick_def)

lemma serves_read:
  assumes "serves w good r j"
  shows "read_secret w r token s = (Inr (if token = good
      then (200, Some (JObj [(''data'', JObj [(''data'', JObj [(vr_field r, j)])])])) else (403, None)), tick s)"
  using assms by (simp add: read_secret_def serves_def)

text \<open>
  A stale token recovers within the call (\<open>VaultResolver.resolve\<close>): when Vault grants the runner's AppRole
  login and serves the secret to the token it grants, a reference resolves to the secret's value from every state of
  the cache, with no token, an expired one or one that was revoked while its lease still ran.\<close>

theorem vault_resolve_recovers:
  assumes "parse_vault_ref ref = Inr r" and "serves w good r j" and "good \<noteq> JNull"
    and "j \<noteq> JNull" and "j \<noteq> JStr []" and "is_approle (vs_auth s)"
  shows "fst (vault_resolve w ref s) = Inr (str_json j)"
proof -
  obtain token s1 where t: "client_token w False s = (Inr token, s1)" and a: "vs_auth s1 = vs_auth s"
    using serves_token [OF assms(2,6)] by blast
  obtain s2 where f: "client_token w True (tick s1) = (Inr good, s2)"
    using serves_forced [OF assms(2) _ assms(3), of "tick s1"] assms(6) a by (auto simp: tick_def)
  show ?thesis
    using assms(4,5) by (simp add: vault_resolve_def assms(1) read_with_token_def t f serves_read [OF assms(2)]
        secret_value_def field_of_def split: json.splits)
qed

definition ex_auth :: vault_auth where
  "ex_auth = \<lparr>va_role_id = Some ''role'', va_secret_id = Some ''id'', va_token = None\<rparr>"

definition ex_vault_ref :: vault_ref where
  "ex_vault_ref = \<lparr>vr_mount = ''kv'', vr_path = ''app/db'', vr_field = ''dsn''\<rparr>"

definition ex_world :: world where
  "ex_world = \<lparr>w_now = real, w_login = (\<lambda>n a b. Reply 200 (Some (JObj [(''auth'',
       JObj [(''client_token'', JStr ''t2''), (''lease_duration'', JInt 60)])]))),
     w_read = (\<lambda>n token path. if token = JStr ''t2'' then Reply 200 (Some (JObj [(''data'', JObj [(''data'',
       JObj [(''dsn'', JStr ''pw'')])])])) else Reply 403 None), w_float = (\<lambda>_. None)\<rparr>"

definition ex_stale :: vault_state where
  "ex_stale = \<lparr>vs_auth = ex_auth, vs_token = JStr ''t1'', vs_expires = None, vs_tick = 0\<rparr>"

lemma ex_vault_facts:
  "parse_vault_ref ''vault://kv/app/db#dsn'' = Inr ex_vault_ref"
  "serves ex_world (JStr ''t2'') ex_vault_ref (JStr ''pw'')"
  "is_approle (vs_auth ex_stale)"
proof -
  show "parse_vault_ref ''vault://kv/app/db#dsn'' = Inr ex_vault_ref" unfolding ex_vault_ref_def by code_simp
  show "serves ex_world (JStr ''t2'') ex_vault_ref (JStr ''pw'')"
    by (auto simp: serves_def ex_world_def ex_vault_ref_def)
  show "is_approle (vs_auth ex_stale)" by (simp add: is_approle_def ex_stale_def ex_auth_def)
qed

theorem vault_resolve_recovers_witness:
  "fst (vault_resolve ex_world ''vault://kv/app/db#dsn'' ex_stale) = Inr (str_json (JStr ''pw''))"
  by (rule vault_resolve_recovers [OF ex_vault_facts(1,2) _ _ _ ex_vault_facts(3)]) simp_all

lemma ex_vault_resolves:
  "\<exists>s'. vault_resolve ex_world ''vault://kv/app/db#dsn'' ex_stale = (Inr ''pw'', s')"
  by (simp add: vault_resolve_def ex_vault_facts(1) read_with_token_def client_token_def token_fresh_def ex_stale_def
      ex_auth_def ex_world_def read_secret_def login_def is_approle_def tick_def field_of_def lease_seconds_def Let_def
      secret_value_def ex_vault_ref_def str_json_def)

theorem vault_resolve_current_witness:
  "\<exists>s' r n token status b d data j. vault_resolve ex_world ''vault://kv/app/db#dsn'' ex_stale = (Inr ''pw'', s')
    \<and> parse_vault_ref ''vault://kv/app/db#dsn'' = Inr r \<and> vs_tick ex_stale \<le> n \<and> n < vs_tick s'
    \<and> vs_tick s' \<le> vs_tick ex_stale + 8 \<and> w_read ex_world n token (read_path r) = Reply status (Some b) \<and> status < 400
    \<and> field_of b ''data'' = Some d \<and> field_of d ''data'' = Some data \<and> field_of data (vr_field r) = Some j
    \<and> ''pw'' = str_json j \<and> ''pw'' \<noteq> []"
proof -
  obtain s' where s: "vault_resolve ex_world ''vault://kv/app/db#dsn'' ex_stale = (Inr ''pw'', s')"
    using ex_vault_resolves by blast
  from vault_resolve_current [OF s] s show ?thesis by blast
qed

section \<open>Env files: round trip\<close>

text \<open>How a mapping is written: one line per variable, the value in quotes\<close>

definition env_entry :: "string \<times> string \<Rightarrow> string" where
  "env_entry kv = ''export '' @ fst kv @ ''='' @ CHR 0x22 # snd kv @ [CHR 0x22]"

definition env_text :: "(string, string) dict \<Rightarrow> string" where
  "env_text kvs = concat (map (\<lambda>kv. env_entry kv @ [CHR 0x0a]) kvs)"

definition entry_ok :: "string \<times> string \<Rightarrow> bool" where
  "entry_ok kv \<longleftrightarrow> fst kv \<noteq> [] \<and> name_start (hd (fst kv)) \<and> list_all name_char (fst kv)
     \<and> list_all (\<lambda>c. \<not> is_linebreak c) (snd kv)"

lemma splitlines_line:
  assumes "list_all (\<lambda>c. \<not> is_linebreak c) l"
  shows "splitlines (l @ CHR 0x0a # s) = l # splitlines s"
  using assms
proof (induction l)
  case Nil
  then show ?case by (simp add: is_linebreak_def code_def)
next
  case (Cons c l)
  have "c \<noteq> CHR 0x0d" using Cons.prems by (auto simp: is_linebreak_def code_def)
  with Cons show ?case by auto
qed

lemma name_char_props: "name_char c \<Longrightarrow> c \<noteq> CHR ''='' \<and> \<not> is_linebreak c \<and> \<not> is_space c"
  by (auto simp: name_char_def name_start_def is_alpha_ascii_def is_upper_def is_lower_def is_digit_def less_eq_char_def
      is_linebreak_def is_space_def code_def Let_def)

lemma splitlines_env: "list_all entry_ok kvs \<Longrightarrow> splitlines (env_text kvs) = map env_entry kvs"
proof (induction kvs)
  case (Cons kv kvs)
  have "list_all (\<lambda>c. \<not> is_linebreak c) (env_entry kv)"
    using Cons.prems name_char_props
    by (auto simp: env_entry_def entry_ok_def list_all_iff is_linebreak_def code_def)
  then show ?case using Cons splitlines_line [of "env_entry kv"] by (simp add: env_text_def)
qed (simp add: env_text_def)

lemma key_value_entry:
  assumes "entry_ok kv"
  shows "key_value (fst kv @ ''='' @ r) = Some (fst kv, r)"
proof -
  have "takeWhile name_char (fst kv @ ''='' @ r) = fst kv" and "dropWhile name_char (fst kv @ ''='' @ r) = ''='' @ r"
    using assms name_char_props [of "CHR ''=''"] by (auto simp: entry_ok_def list_all_iff takeWhile_append dropWhile_append)
  then show ?thesis using assms by (simp add: key_value_def entry_ok_def)
qed

lemma env_step_entry:
  assumes "entry_ok kv"
  shows "env_step values (n, env_entry kv) = Inr (dict_set (fst kv) (snd kv) values)"
proof -
  let ?q = "CHR 0x22 # snd kv @ [CHR 0x22]"
  have e: "env_entry kv = ''export '' @ fst kv @ ''='' @ ?q" by (simp add: env_entry_def)
  have strip: "strip (env_entry kv) = env_entry kv"
    by (rule strip_by_id) (simp_all add: e is_space_def code_def)
  have first: "fst kv \<noteq> []" "\<not> is_space (hd (fst kv))"
    using assms name_char_props by (auto simp: entry_ok_def list_all_iff)
  have "dropWhile is_space ('' '' @ fst kv @ ''='' @ ?q) = fst kv @ ''='' @ ?q"
    using first by (cases "fst kv") (auto simp: is_space_def code_def)
  then have "env_line (env_entry kv) = Some (fst kv, ?q)"
    using key_value_entry [OF assms, of ?q] by (simp add: env_line_def e is_space_def code_def Let_def startswith_def)
  moreover have "unquote (strip ?q) = snd kv"
  proof -
    have "strip ?q = ?q" by (rule strip_by_id) (simp_all add: is_space_def code_def)
    then show ?thesis by (simp add: unquote_def)
  qed
  moreover have "env_entry kv \<noteq> []" "\<not> startswith (env_entry kv) ''#''" by (simp_all add: e startswith_def)
  ultimately show ?thesis by (simp add: env_step_def strip del: append.simps)
qed

lemma env_fold:
  assumes "list_all entry_ok kvs" and "map snd nls = map env_entry kvs"
  shows "res_fold env_step acc nls = Inr (fold (\<lambda>(k, v). dict_set k v) kvs acc)"
  using assms
proof (induction kvs arbitrary: acc nls)
  case (Cons kv kvs)
  then obtain n nls' where "nls = (n, env_entry kv) # nls'" "map snd nls' = map env_entry kvs"
    by (cases nls) auto
  then show ?case using Cons env_step_entry [of kv] by (simp add: case_prod_beta)
qed simp

text \<open>
  Env files round-trip (\<open>load_env_file\<close> of vault.py): a mapping whose names are identifiers and whose values
  have no line break, written as lines \<open>export NAME="value"\<close>, is read back, whatever quotes, equals signs, hashes or
  surrounding blanks the values hold.\<close>

theorem env_file_roundtrip:
  assumes "list_all entry_ok kvs" and "distinct (map fst kvs)"
  shows "\<exists>env. load_env_file (Inr (env_text kvs)) = Inr env \<and> map_of env = map_of kvs \<and> dict_keys env = dict_keys kvs"
proof -
  let ?lines = "splitlines (env_text kvs)"
  have "map snd (zip [1..<Suc (length ?lines)] ?lines) = map env_entry kvs"
    unfolding splitlines_env [OF assms(1)] by (rule map_snd_zip) (simp del: upt_Suc)
  from env_fold [OF assms(1) this] have "load_env_file (Inr (env_text kvs)) = Inr (dict_of kvs)"
    by (simp add: load_env_file_def Let_def dict_of_def)
  then show ?thesis
    using assms(2) by (auto simp: dict_of_get map_of_rev_distinct dict_of_keys_distinct [unfolded dict_keys_def]
        dict_keys_def fun_eq_iff)
qed

theorem env_file_roundtrip_witness:
  "\<exists>env. load_env_file (Inr (env_text [(''PG_DSN'', '' a=# ''), (''_T'', [CHR 0x22])])) = Inr env
    \<and> map_of env = map_of [(''PG_DSN'', '' a=# ''), (''_T'', [CHR 0x22])]
    \<and> dict_keys env = dict_keys [(''PG_DSN'', '' a=# ''), (''_T'', [CHR 0x22])]"
  by (rule env_file_roundtrip)
     (simp_all add: entry_ok_def name_start_def name_char_def is_alpha_ascii_def is_upper_def is_lower_def is_digit_def
       less_eq_char_def is_linebreak_def code_def)

end
