(* ===== verification/Sdk_Runner.thy ===== *)
theory Sdk_Runner
  imports Sdk_Providers
begin

text \<open>
  The job engine, \<open>src/connectors/sdk/runner.py\<close>, and the local transport around it (\<open>local.py\<close>).

  What the engine takes from outside the repository is the record \<open>engine\<close>: the JSON Schema checks of the config and of the
  snapshot, SHA-256, the clock, and the interpreter's rendering of a traceback. The texts of the emission problems
  (which use characters above 255) are \<open>en_emission_text\<close>. Log lines are not modelled. Rendering a
  result as JSON cannot fail here, since the modelled values all have a text.
\<close>

section \<open>Jobs and outcomes\<close>

record job =
  j_id :: string
  j_config :: json
  j_type :: string
  j_request :: json
  j_guardrails :: json
  j_identity :: json
  j_artifact :: json
  j_target :: json
  j_mode :: json
  j_results :: json
  j_previous :: json
  j_attestation :: json

definition local_job :: "string \<Rightarrow> json \<Rightarrow> job" where
  "local_job uuid config = \<lparr>j_id = ''local-'' @ uuid, j_config = config, j_type = ''snapshot'', j_request = JNull,
     j_guardrails = JNull, j_identity = JNull, j_artifact = JNull, j_target = JNull, j_mode = JNull, j_results = JNull,
     j_previous = JNull, j_attestation = JNull\<rparr>"

record job_error =
  je_code :: string
  je_message :: string
  je_retryable :: bool
  je_detail :: detail

record job_outcome =
  oc_status :: string
  oc_snapshot :: "emitted option"
  oc_error :: "job_error option"
  oc_retry_after_s :: "int option"
  oc_result :: "json option"

record engine =
  en_config_errors :: "json \<Rightarrow> json \<Rightarrow> string list"
  en_schema_errors :: "snapshot \<Rightarrow> string list"
  en_sha :: "string \<Rightarrow> string"
  en_utc_now :: string
  en_traceback :: "string \<Rightarrow> string"
  en_emission_text :: "emission_problem \<Rightarrow> string"

definition job_error_of :: "string \<Rightarrow> string \<Rightarrow> bool \<Rightarrow> detail \<Rightarrow> job_error" where
  "job_error_of c message retryable det =
     \<lparr>je_code = c, je_message = redact_text message, je_retryable = retryable, je_detail = redact_dict det\<rparr>"

definition failed_with :: "job_error \<Rightarrow> job_outcome" where
  "failed_with e = \<lparr>oc_status = ''failed'', oc_snapshot = None, oc_error = Some e, oc_retry_after_s = None, oc_result = None\<rparr>"

definition succeeded_with :: "emitted option \<Rightarrow> json option \<Rightarrow> job_outcome" where
  "succeeded_with sn r = \<lparr>oc_status = ''succeeded'', oc_snapshot = sn, oc_error = None, oc_retry_after_s = None, oc_result = r\<rparr>"

definition failed :: "connector_error \<Rightarrow> job_outcome" where
  "failed exc = failed_with (job_error_of (error_code exc) (error_message exc) (error_retryable exc) (error_detail exc))"

definition config_failure :: "string \<Rightarrow> detail \<Rightarrow> job_outcome" where
  "config_failure message det = failed_with (job_error_of ''config_error'' message False det)"

text \<open>A bare exception: \<open>internal\<close>, with its traceback\<close>

definition internal_failure :: "crash \<Rightarrow> job_outcome" where
  "internal_failure c = failed_with (job_error_of ''internal'' (cr_type c @ '': '' @ cr_message c) True
     [(''traceback'', JStr (cr_traceback c))])"

definition type_error :: "engine \<Rightarrow> string \<Rightarrow> crash" where
  "type_error en message = \<lparr>cr_type = ''TypeError'', cr_message = message,
     cr_repr = ''TypeError('' @ py_repr message @ '')'', cr_traceback = en_traceback en message\<rparr>"

section \<open>The snapshot engine\<close>

fun config_text :: "manifest \<Rightarrow> config_problem \<Rightarrow> string" where
  "config_text mf ConfigNotObject = ''config must be a JSON object''"
| "config_text mf (ConfigSchemaProblem s) = s"
| "config_text mf ConfigNoSystem = ''config: 'system' (non-empty string) is required for snapshot jobs''"
| "config_text mf (ConfigBadMode m) = ''config: 'mode' must be one of the manifest's declared metadata modes ''
     @ repr_json (JList (metadata_modes mf)) @ '', got '' @ repr_json m"

definition problem_texts :: "engine \<Rightarrow> manifest \<Rightarrow> json \<Rightarrow> string list" where
  "problem_texts en mf config = map (config_text mf) (config_problems (en_config_errors en) mf config)"

definition config_rejected :: "string list \<Rightarrow> detail \<Rightarrow> job_outcome" where
  "config_rejected problems det = config_failure (''config rejected: '' @ join ''; '' problems) det"

definition str_member :: "json \<Rightarrow> string \<Rightarrow> string" where
  "str_member v k = (case v of JObj kvs \<Rightarrow> (case member kvs k of JStr s \<Rightarrow> s | _ \<Rightarrow> []) | _ \<Rightarrow> [])"

definition snapshot_raised :: "raised \<Rightarrow> job_outcome" where
  "snapshot_raised r =
     (case r of
        Classified (QuotaExceeded msg retry det) \<Rightarrow>
          \<lparr>oc_status = ''deferred'', oc_snapshot = None, oc_error = Some (job_error_of ''quota'' msg True det),
           oc_retry_after_s = Some retry, oc_result = None\<rparr>
      | Classified exc \<Rightarrow> failed exc
      | Crashed c \<Rightarrow> internal_failure c)"

definition run_snapshot :: "engine \<Rightarrow> connector \<Rightarrow> job \<Rightarrow> string option \<Rightarrow> job_outcome" where
  "run_snapshot en cn jb captured_at =
     (let mf = cn_manifest cn
      in case metadata_of cn of
           None \<Rightarrow> config_failure (''connector '' @ py_repr (mf_name mf) @ '' does not declare the metadata capability'') []
         | Some provider \<Rightarrow>
             let problems = problem_texts en mf (j_config jb)
             in if problems \<noteq> [] then config_rejected problems [(''errors'', JList (map JStr problems))]
                else (case mp_introspect provider (j_config jb) of
                        Inl r \<Rightarrow> snapshot_raised r
                      | Inr (WrongType t) \<Rightarrow>
                          internal_failure (type_error en (''introspect must return IntrospectionResult, got '' @ t))
                      | Inr (Returned result) \<Rightarrow>
                          (case emit_snapshot (en_schema_errors en) (en_sha en) (en_utc_now en) mf
                                  \<lparr>ec_system = str_member (j_config jb) ''system'', ec_mode = str_member (j_config jb) ''mode''\<rparr>
                                  result captured_at of
                             Inl ps \<Rightarrow> failed (EmissionError (map (en_emission_text en) ps))
                           | Inr emitted \<Rightarrow> succeeded_with (Some emitted) None)))"

section \<open>The health probe\<close>

definition PROBED_CAPABILITIES :: "string list" where
  "PROBED_CAPABILITIES = [''metadata'', ''query'', ''publish'']"

definition MODE_PROBLEM :: string where
  "MODE_PROBLEM = '''mode' must be one of the manifest's declared metadata''"

definition probe_config_problems :: "engine \<Rightarrow> manifest \<Rightarrow> json \<Rightarrow> string list" where
  "probe_config_problems en mf config =
     (case config of
        JObj _ \<Rightarrow>
          if metadata_modes mf \<noteq> [] then problem_texts en mf config
          else filter (\<lambda>p. \<not> contains_text MODE_PROBLEM p) (problem_texts en mf config)
      | _ \<Rightarrow> [''config must be a JSON object''])"

definition preflight_of :: "handler \<Rightarrow> json \<Rightarrow> json call" where
  "preflight_of h = (case h of Metadata m \<Rightarrow> mp_preflight m | Query q \<Rightarrow> qx_preflight q | Publish p \<Rightarrow> pu_preflight p
     | OtherHandler \<Rightarrow> default_preflight [])"

definition check :: "string \<Rightarrow> string \<Rightarrow> (string, json) dict \<Rightarrow> json" where
  "check capability status members = JObj ([(''capability'', JStr capability), (''status'', JStr status)] @ members)"

type_synonym probe_state = "json list \<times> string list"

definition probe_facts :: "string \<Rightarrow> json \<Rightarrow> probe_state \<Rightarrow> probe_state" where
  "probe_facts capability returned st =
     (let facts = (case returned of JObj kvs \<Rightarrow> kvs | _ \<Rightarrow> []); (checks, unprobed) = st
      in if dict_get facts ''probed'' = Some (JBool False)
         then (checks @ [check capability ''unprobed''
                 (case dict_get facts ''reason'' of Some (JStr r) \<Rightarrow> [(''message'', JStr r)] | _ \<Rightarrow> [])],
               unprobed @ [capability])
         else (checks @ [check capability ''pass'' [(''facts'', JObj (redact_dict facts))]], unprobed))"

definition probe_raised :: "string \<Rightarrow> raised \<Rightarrow> probe_state \<Rightarrow> (job_outcome, probe_state) result" where
  "probe_raised capability r st =
     (let (checks, unprobed) = st
      in case r of
           Classified (QuotaExceeded msg retry det) \<Rightarrow>
             Inr (checks @ [check capability ''warn'' [(''message'', JStr (redact_text msg)),
                    (''facts'', JObj [(''probed'', JBool True), (''quota'', JBool True)])]], unprobed)
         | Classified exc \<Rightarrow>
             (let checks = checks @ [check capability ''fail'' [(''message'', JStr (redact_text (error_message exc)))]]
              in Inl (failed_with (job_error_of (error_code exc) (error_message exc) (error_retryable exc)
                   (dict_set ''capability'' (JStr capability) (dict_set ''checks'' (JList checks) (error_detail exc))))))
         | Crashed c \<Rightarrow>
             (let checks = checks @ [check capability ''fail'' [(''message'', JStr (redact_text (cr_repr c)))]]
              in Inl (failed_with (job_error_of ''internal'' (cr_type c @ '': '' @ cr_message c) True
                   [(''traceback'', JStr (cr_traceback c)), (''checks'', JList checks)]))))"

definition probe_step :: "connector \<Rightarrow> json \<Rightarrow> probe_state \<Rightarrow> string \<Rightarrow> (job_outcome, probe_state) result" where
  "probe_step cn config st capability =
     (case dict_get (cn_handlers cn) capability of
        None \<Rightarrow> Inr st
      | Some h \<Rightarrow>
          (case preflight_of h config of
             Inl r \<Rightarrow> probe_raised capability r st
           | Inr facts \<Rightarrow> Inr (probe_facts capability facts st)))"

definition run_test_connection :: "engine \<Rightarrow> connector \<Rightarrow> job \<Rightarrow> job_outcome" where
  "run_test_connection en cn jb =
     (let mf = cn_manifest cn; problems = probe_config_problems en mf (j_config jb)
      in if problems \<noteq> []
         then config_rejected problems [(''errors'', JList (map JStr problems)),
                (''checks'', JList [check ''config'' ''fail'' []]), (''capability_code'', JStr ''config_schema'')]
         else (case res_fold (probe_step cn (j_config jb))
                      ([check ''config'' ''pass'' [(''facts'', JObj [(''schema'', JStr ''valid'')])]], [])
                      PROBED_CAPABILITIES of
                 Inl outcome \<Rightarrow> outcome
               | Inr (checks, unprobed) \<Rightarrow>
                   succeeded_with None (Some (JObj [(''ok'', JBool True),
                     (''system'', (case j_config jb of JObj kvs \<Rightarrow> member kvs ''system'' | _ \<Rightarrow> JNull)),
                     (''connector'', JObj [(''name'', JStr (mf_name mf)), (''version'', JStr (mf_version mf))]),
                     (''checks'', JList checks), (''unprobed'', JList (map JStr unprobed))]))))"

section \<open>The interactive engines\<close>

text \<open>Quota is terminal for a caller who waits.\<close>

definition interactive_raised :: "raised \<Rightarrow> job_outcome" where
  "interactive_raised r =
     (case r of
        Classified (QuotaExceeded msg retry det) \<Rightarrow>
          failed_with (job_error_of ''guardrail'' msg False
            (dict_set ''retry_after_s'' (JInt retry) (dict_set ''capability_code'' (JStr ''quota_exhausted'') det)))
      | Classified exc \<Rightarrow> failed exc
      | Crashed c \<Rightarrow> internal_failure c)"

definition run_execute :: "engine \<Rightarrow> connector \<Rightarrow> job \<Rightarrow> job_outcome" where
  "run_execute en cn jb =
     (case query_of cn of
        None \<Rightarrow> config_failure (''connector '' @ py_repr (mf_name (cn_manifest cn)) @ '' does not declare the query capability'') []
      | Some executor \<Rightarrow>
          (case parse_execute (j_request jb) of
             Inl message \<Rightarrow> config_failure message []
           | Inr request \<Rightarrow>
               (case qx_execute executor (j_config jb) request (parse_guardrails (j_guardrails jb)) (parse_identity (j_identity jb)) of
                  Inl r \<Rightarrow> interactive_raised r
                | Inr (WrongType t) \<Rightarrow> internal_failure (type_error en (''execute must return ExecuteResult, got '' @ t))
                | Inr (Returned result) \<Rightarrow> succeeded_with None (Some (execute_json result)))))"

definition publish_flags :: "manifest \<Rightarrow> (string, json) dict" where
  "publish_flags mf = (case dict_get (mf_capabilities mf) ''publish'' of None \<Rightarrow> [] | Some f \<Rightarrow> f)"

definition run_publish :: "engine \<Rightarrow> connector \<Rightarrow> job \<Rightarrow> job_outcome" where
  "run_publish en cn jb =
     (let mf = cn_manifest cn
      in case publish_of cn of
        None \<Rightarrow> config_failure (''connector '' @ py_repr (mf_name mf) @ '' does not declare the publish capability'') []
      | Some pub \<Rightarrow>
          (case parse_publish (j_artifact jb) (j_target jb) (j_mode jb) (j_results jb) (j_previous jb) (j_attestation jb) of
             Inl message \<Rightarrow> config_failure message []
           | Inr request \<Rightarrow>
               if artifact_version request \<notin> Some ` set (pu_versions pub)
               then config_failure (''artifact_version ''
                      @ (case artifact_version request of None \<Rightarrow> ''None'' | Some v \<Rightarrow> py_repr v)
                      @ '' unsupported by '' @ py_repr (mf_name mf) @ '' (supports: '' @ join '', '' (pu_versions pub) @ '')'')
                      [(''capability_code'', JStr ''artifact_version_unsupported'')]
               else (case pu_publish pub (j_config jb) request (parse_identity (j_identity jb)) (publish_flags mf) of
                       Inl r \<Rightarrow> interactive_raised r
                     | Inr (WrongType t) \<Rightarrow> internal_failure (type_error en (''publish must return PublishResult, got '' @ t))
                     | Inr (Returned result) \<Rightarrow>
                         if pb_mode result \<in> {''template_link'', ''instructions''} \<and> pb_pending_human_steps result = []
                         then failed_with (job_error_of ''internal''
                                (''adapter returned mode='' @ py_repr (pb_mode result)
                                 @ '' without pending_human_steps (PB-3: mandatory whenever a human completes the journey)'')
                                False [])
                         else succeeded_with None (Some (publish_json result)))))"

section \<open>Dispatch\<close>

definition run_job :: "engine \<Rightarrow> connector \<Rightarrow> job \<Rightarrow> string option \<Rightarrow> (string, job_outcome) result" where
  "run_job en cn jb captured_at =
     (if j_type jb = ''execute'' then Inr (run_execute en cn jb)
      else if j_type jb = ''publish'' then Inr (run_publish en cn jb)
      else if j_type jb = ''test_connection'' then Inr (run_test_connection en cn jb)
      else if j_type jb \<noteq> ''snapshot'' then Inl (''no engine for job type '' @ py_repr (j_type jb) @ '' in this SDK version'')
      else Inr (run_snapshot en cn jb captured_at))"

section \<open>The local transport (local.py)\<close>

datatype exit_code = EXIT_OK | EXIT_FAILED | EXIT_USAGE | EXIT_DEFERRED

text \<open>\<open>main\<close>: the connector and the config as loading them went; the exit code and what was written to \<open>--out\<close>.
  \<open>write_atomic\<close> writes all of the bytes or none.\<close>

definition local_main ::
  "engine \<Rightarrow> string \<Rightarrow> (string, connector) result \<Rightarrow> (string, json) result \<Rightarrow> exit_code \<times> string option" where
  "local_main en uuid loaded read =
     (case loaded of
        Inl e \<Rightarrow> (EXIT_USAGE, None)
      | Inr cn \<Rightarrow>
          (case read of
             Inl e \<Rightarrow> (EXIT_USAGE, None)
           | Inr config \<Rightarrow>
               let outcome = run_snapshot en cn (local_job uuid config) None
               in if oc_status outcome = ''succeeded''
                  then (EXIT_OK, map_option em_serialized (oc_snapshot outcome))
                  else if oc_status outcome = ''deferred'' then (EXIT_DEFERRED, None)
                  else (EXIT_FAILED, None)))"

section \<open>Outcomes\<close>

lemmas outcome_defs = failed_with_def succeeded_with_def failed_def config_failure_def internal_failure_def
  config_rejected_def

definition redacted_error :: "job_error \<Rightarrow> bool" where
  "redacted_error e \<longleftrightarrow> (\<exists>m d. je_message e = redact_text m \<and> je_detail e = redact_dict d)"

definition failed_ok :: "job_outcome \<Rightarrow> bool" where
  "failed_ok oc \<longleftrightarrow> (\<exists>e. oc = failed_with e \<and> redacted_error e)"

lemma job_error_redacted [simp]: "redacted_error (job_error_of c m r d)"
  by (auto simp: redacted_error_def job_error_of_def)

lemma failed_ok_intros [simp, intro]:
  "redacted_error e \<Longrightarrow> failed_ok (failed_with e)" "failed_ok (failed exc)" "failed_ok (config_failure m d)"
  "failed_ok (internal_failure c)" "failed_ok (config_rejected ps d)" "failed_ok (interactive_raised r)"
  by (auto simp: failed_ok_def failed_def config_failure_def internal_failure_def config_rejected_def
      interactive_raised_def split: raised.splits connector_error.splits)

text \<open>The three shapes an outcome has: the wire calls complete, fail and defer.\<close>

definition deferred_ok :: "job_outcome \<Rightarrow> bool" where
  "deferred_ok oc \<longleftrightarrow> oc_status oc = ''deferred'' \<and> oc_snapshot oc = None \<and> oc_result oc = None
     \<and> oc_retry_after_s oc \<noteq> None \<and> (\<exists>e. oc_error oc = Some e \<and> redacted_error e \<and> je_code e = ''quota'')"

lemma snapshot_raised_cases:
  "(\<exists>m n d. r = Classified (QuotaExceeded m n d) \<and> deferred_ok (snapshot_raised r) \<and> oc_retry_after_s (snapshot_raised r) = Some n)
   \<or> failed_ok (snapshot_raised r)"
  by (auto simp: snapshot_raised_def deferred_ok_def job_error_of_def redacted_error_def
      split: raised.splits connector_error.splits)

definition snapshot_ok :: "job_outcome \<Rightarrow> bool" where
  "snapshot_ok oc \<longleftrightarrow> (\<exists>emitted. oc = succeeded_with (Some emitted) None)"

definition result_ok :: "job_outcome \<Rightarrow> bool" where
  "result_ok oc \<longleftrightarrow> (\<exists>r. oc = succeeded_with None (Some r))"

lemma ok_intros [simp, intro]:
  "snapshot_ok (succeeded_with (Some e) None)" "result_ok (succeeded_with None (Some r))"
  by (auto simp: snapshot_ok_def result_ok_def)

lemma run_snapshot_cases:
  "snapshot_ok (run_snapshot en cn jb at) \<or> failed_ok (run_snapshot en cn jb at) \<or> deferred_ok (run_snapshot en cn jb at)"
  using snapshot_raised_cases
  by (auto simp: run_snapshot_def Let_def split: option.split sum.split returned.split)

lemma run_execute_cases: "result_ok (run_execute en cn jb) \<or> failed_ok (run_execute en cn jb)"
  by (auto simp: run_execute_def split: option.split sum.split returned.split)

lemma run_publish_cases: "result_ok (run_publish en cn jb) \<or> failed_ok (run_publish en cn jb)"
  by (auto simp: run_publish_def Let_def split: option.split sum.split returned.split)

lemma probe_raised_Inl: "probe_raised c r st = Inl oc \<Longrightarrow> failed_ok oc"
  by (auto simp: probe_raised_def Let_def split: raised.splits connector_error.splits prod.splits)

lemma probe_step_Inl: "probe_step cn config st c = Inl oc \<Longrightarrow> failed_ok oc"
  by (auto simp: probe_step_def intro: probe_raised_Inl split: option.splits sum.splits)

lemma res_fold_Inl: "res_fold f s xs = Inl e \<Longrightarrow> \<exists>s' x. f s' x = Inl e"
  by (induction xs arbitrary: s) (auto simp: res_bind_def split: sum.splits)

lemma run_test_connection_cases:
  "result_ok (run_test_connection en cn jb) \<or> failed_ok (run_test_connection en cn jb)"
proof -
  have "failed_ok oc" if "res_fold (probe_step cn (j_config jb)) st cs = Inl oc" for oc st cs
    using res_fold_Inl [OF that] probe_step_Inl by fast
  then show ?thesis
    by (auto simp: run_test_connection_def Let_def split: sum.split prod.split)
qed

text \<open>
  C38. A job ends in one of three well-formed ways (\<open>run_job\<close> of runner.py): it succeeds with exactly one of a snapshot (for
  a snapshot job) and a result (for the others) and no error; or it fails with an error; or, only for a snapshot job,
  it is deferred with a retry interval and the code \<open>quota\<close>. So quota never defers a caller who waits. Every error has
  its message and detail redacted. A job type outside the four is refused.\<close>

theorem run_job_outcomes:
  "case run_job en cn jb at of
     Inl e \<Rightarrow> j_type jb \<notin> {''snapshot'', ''execute'', ''publish'', ''test_connection''}
   | Inr oc \<Rightarrow> j_type jb \<in> {''snapshot'', ''execute'', ''publish'', ''test_connection''}
       \<and> (if j_type jb = ''snapshot''
          then snapshot_ok oc \<or> failed_ok oc \<or> deferred_ok oc else result_ok oc \<or> failed_ok oc)"
proof (cases "j_type jb \<in> {''snapshot'', ''execute'', ''publish'', ''test_connection''}")
  case True
  from True consider "j_type jb = ''snapshot''" | "j_type jb = ''execute''" | "j_type jb = ''publish''"
    | "j_type jb = ''test_connection''" by blast
  then show ?thesis
    using run_snapshot_cases [of en cn jb at] run_execute_cases [of en cn jb] run_publish_cases [of en cn jb]
      run_test_connection_cases [of en cn jb]
    by cases (auto simp: run_job_def)
next
  case False
  then show ?thesis by (simp add: run_job_def)
qed

text \<open>
  C33. A connector that succeeds delivers what the core stores (\<open>run_job\<close>, then the gate \<open>accept\<close> of snapshot/accept.py):
  when a snapshot job succeeds, the core accepts the emitted document without warnings and stores exactly the emitted bytes. It
  relies on the JSON Schema check not depending on the order of array elements.\<close>

theorem run_job_snapshot_accepted:
  assumes "run_job en cn jb at = Inr oc" and "oc_snapshot oc = Some e"
    and "\<And>s. en_schema_errors en s = [] \<Longrightarrow> en_schema_errors en (canonical_snapshot s) = []"
  shows "\<exists>v. accept (en_schema_errors en) (en_sha en) (Document (em_document e)) = Inr (v, em_serialized e) \<and> v_warnings v = []"
proof -
  have none: "oc_snapshot x = None" if "result_ok x \<or> failed_ok x" for x
    using that by (auto simp: failed_ok_def result_ok_def outcome_defs)
  have "oc = run_snapshot en cn jb at"
    using assms(1,2) none [OF run_execute_cases [of en cn jb]] none [OF run_publish_cases [of en cn jb]]
      none [OF run_test_connection_cases [of en cn jb]]
    by (auto simp: run_job_def split: if_splits)
  then have sn: "oc_snapshot (run_snapshot en cn jb at) = Some e" using assms(2) by simp
  have raised: "oc_snapshot (snapshot_raised r) = None" for r
    by (auto simp: snapshot_raised_def outcome_defs split: raised.splits connector_error.splits)
  obtain cfg result where "emit_snapshot (en_schema_errors en) (en_sha en) (en_utc_now en) (cn_manifest cn) cfg result at = Inr e"
    using sn raised by (auto simp: run_snapshot_def Let_def outcome_defs split: option.splits sum.splits returned.splits if_splits)
  from emit_accepted [OF this] assms(3) show ?thesis by blast
qed

definition ex_provider :: metadata_provider where
  "ex_provider = \<lparr>mp_introspect = (\<lambda>_. Inr (Returned ex_introspection)), mp_preflight = default_preflight ''none''\<rparr>"

definition ex_connector :: connector where
  "ex_connector = \<lparr>cn_manifest = ex_manifest, cn_handlers = [(''metadata'', Metadata ex_provider)]\<rparr>"

definition ex_engine :: engine where
  "ex_engine = \<lparr>en_config_errors = (\<lambda>_ _. []), en_schema_errors = (\<lambda>_. []), en_sha = id, en_utc_now = ''2026-01-01'',
     en_traceback = id, en_emission_text = (\<lambda>_. [])\<rparr>"

definition ex_job :: job where
  "ex_job = local_job ''1'' (JObj [(''system'', JStr ''shop''), (''mode'', JStr ''live'')])"

lemma ex_config_clean: "problem_texts ex_engine ex_manifest (j_config ex_job) = []"
  by (simp add: problem_texts_def ex_engine_def ex_manifest_def ex_job_def local_job_def config_problems_def
      metadata_modes_def py_eq_def)

lemma ex_job_succeeds:
  "\<exists>oc e. run_job ex_engine ex_connector ex_job None = Inr oc \<and> oc_snapshot oc = Some e"
proof -
  have "list_all (raw_ok id) (in_objects ex_introspection)"
    by (simp add: ex_introspection_def raw_ok_def ex_table_def known_kind_def dict_has_def KIND_REGISTRY_def
        dict_keys_def registered_stats_fields_def kind_spec_of_def)
  moreover have "distinct (raw_identities (in_objects ex_introspection))"
    by (simp add: ex_introspection_def raw_identities_def)
  ultimately obtain e where "emit_snapshot (\<lambda>_. []) id ''2026-01-01'' ex_manifest
      \<lparr>ec_system = ''shop'', ec_mode = ''live''\<rparr> ex_introspection None = Inr e"
    by (simp add: emit_snapshot_eq Let_def emit_document_clean)
  moreover have "j_type ex_job = ''snapshot''" "str_member (j_config ex_job) ''system'' = ''shop''"
    "str_member (j_config ex_job) ''mode'' = ''live''"
    by (simp_all add: ex_job_def local_job_def str_member_def member_def)
  moreover have "metadata_of ex_connector = Some ex_provider" "cn_manifest ex_connector = ex_manifest"
    by (simp_all add: metadata_of_def ex_connector_def)
  ultimately show ?thesis
    using ex_config_clean
    by (simp add: run_job_def run_snapshot_def ex_provider_def succeeded_with_def ex_engine_def)
qed

theorem run_job_snapshot_accepted_witness:
  "\<exists>oc e v. run_job ex_engine ex_connector ex_job None = Inr oc \<and> oc_snapshot oc = Some e
     \<and> accept (en_schema_errors ex_engine) (en_sha ex_engine) (Document (em_document e)) = Inr (v, em_serialized e)
     \<and> v_warnings v = []"
proof -
  obtain oc e where oc: "run_job ex_engine ex_connector ex_job None = Inr oc" "oc_snapshot oc = Some e"
    using ex_job_succeeds by blast
  have "\<exists>v. accept (en_schema_errors ex_engine) (en_sha ex_engine) (Document (em_document e)) = Inr (v, em_serialized e)
      \<and> v_warnings v = []"
    by (rule run_job_snapshot_accepted [OF oc]) (simp add: ex_engine_def)
  with oc show ?thesis by blast
qed

section \<open>Limits of the interactive engines\<close>

definition within_limits :: "guardrails \<Rightarrow> bool" where
  "within_limits g \<longleftrightarrow> 1 \<le> g_row_cap g \<and> g_row_cap g \<le> 1000000 \<and> 1 \<le> g_timeout_s g \<and> g_timeout_s g \<le> 300
     \<and> g_statement_class g = ''select-only''"

lemma parse_within_limits: "within_limits (parse_guardrails raw)"
  using bounded_range [of 1000 MAX_ROW_CAP _ "''row_cap''"] bounded_range [of 30 MAX_TIMEOUT_S _ "''timeout_s''"]
  by (cases raw) (auto simp: within_limits_def parse_guardrails_def default_guardrails_def MAX_ROW_CAP_def MAX_TIMEOUT_S_def)

text \<open>
  C35. Execution is bounded whatever the job asks (\<open>_run_execute\<close> of runner.py): what an executor would do with a row cap outside
  1 to 1,000,000, a timeout outside 1 to 300 seconds or another statement class never matters, since two connectors whose
  executors agree within the limits give the same outcome for every job, with guardrails missing, partial or
  oversized.\<close>

theorem run_execute_within_limits:
  assumes "\<And>config request g who. within_limits g \<Longrightarrow> qx_execute qx config request g who = qx_execute qx' config request g who"
    and "query_of cn = Some qx" and "query_of cn' = Some qx'" and "cn_manifest cn = cn_manifest cn'"
  shows "run_execute en cn jb = run_execute en cn' jb"
  by (cases "parse_execute (j_request jb)") (simp_all add: run_execute_def assms(1) [OF parse_within_limits] assms(2-4))

definition ex_executor :: "bool \<Rightarrow> query_executor" where
  "ex_executor reckless = \<lparr>qx_execute = (\<lambda>config request g who.
       if within_limits g then Inl (Classified (QuotaExceeded ''slow down'' 9 []))
       else if reckless then Inr (WrongType ''everything'') else Inl (Classified (ConfigError ''limit'' []))),
     qx_preflight = default_preflight ''none''\<rparr>"

theorem run_execute_within_limits_witness:
  "run_execute ex_engine \<lparr>cn_manifest = ex_manifest, cn_handlers = [(''query'', Query (ex_executor True))]\<rparr> ex_job
   = run_execute ex_engine \<lparr>cn_manifest = ex_manifest, cn_handlers = [(''query'', Query (ex_executor False))]\<rparr> ex_job"
  by (rule run_execute_within_limits [of "ex_executor True" "ex_executor False"]) (simp_all add: ex_executor_def query_of_def)

lemma status_of_shapes:
  "oc_status (failed_with e) = ''failed''" "oc_status (succeeded_with sn r) = ''succeeded''"
  "oc_status (failed exc) = ''failed''" "oc_status (config_failure m d) = ''failed''"
  "oc_status (internal_failure c) = ''failed''" "oc_status (config_rejected ps d) = ''failed''"
  "oc_status (interactive_raised x) = ''failed''"
  by (auto simp: outcome_defs interactive_raised_def split: raised.splits connector_error.splits)

text \<open>
  Publishing succeeds exactly through its gates (\<open>_run_publish\<close> of runner.py): the outcome is a success if and only if
  the connector publishes, the payload parses, the artifact's version is one the adapter declares, the adapter returns a
  result, and a journey that a human completes has its pending steps.\<close>

theorem run_publish_gates:
  "oc_status (run_publish en cn jb) = ''succeeded'' \<longleftrightarrow>
     (\<exists>pub request result v. publish_of cn = Some pub
        \<and> parse_publish (j_artifact jb) (j_target jb) (j_mode jb) (j_results jb) (j_previous jb) (j_attestation jb) = Inr request
        \<and> artifact_version request = Some v \<and> v \<in> set (pu_versions pub)
        \<and> pu_publish pub (j_config jb) request (parse_identity (j_identity jb)) (publish_flags (cn_manifest cn)) = Inr (Returned result)
        \<and> \<not> (pb_mode result \<in> {''template_link'', ''instructions''} \<and> pb_pending_human_steps result = []))"
  by (auto simp: run_publish_def Let_def status_of_shapes split: option.splits sum.splits returned.splits)

section \<open>The probe\<close>

definition probe_failure :: "json call \<Rightarrow> bool" where
  "probe_failure c \<longleftrightarrow> (case c of Inr _ \<Rightarrow> False | Inl (Classified (QuotaExceeded _ _ _)) \<Rightarrow> False | Inl _ \<Rightarrow> True)"

definition not_probed :: "json call \<Rightarrow> bool" where
  "not_probed c \<longleftrightarrow> (\<exists>kvs. c = Inr (JObj kvs) \<and> map_of kvs ''probed'' = Some (JBool False))"

definition status_reported :: "json call \<Rightarrow> string" where
  "status_reported c = (if not_probed c then ''unprobed'' else if (\<exists>v. c = Inr v) then ''pass'' else ''warn'')"

text \<open>The answers to the preflights of the declared capabilities, in order\<close>

definition probe_answers :: "connector \<Rightarrow> json \<Rightarrow> string list \<Rightarrow> (string \<times> json call) list" where
  "probe_answers cn config cs =
     concat (map (\<lambda>c. case map_of (cn_handlers cn) c of None \<Rightarrow> [] | Some h \<Rightarrow> [(c, preflight_of h config)]) cs)"

definition check_reports :: "json \<Rightarrow> string \<times> string \<Rightarrow> bool" where
  "check_reports j cs \<longleftrightarrow> (\<exists>members. j = check (fst cs) (snd cs) members)"

lemma probe_facts_report:
  "\<exists>j. probe_facts c v (checks, unprobed) =
     (checks @ [j], if not_probed (Inr v) then unprobed @ [c] else unprobed) \<and> check_reports j (c, status_reported (Inr v))"
  by (cases v) (auto simp: probe_facts_def Let_def not_probed_def status_reported_def check_reports_def)

lemma probe_step_ok:
  assumes "map_of (cn_handlers cn) c = Some h" and "\<not> probe_failure (preflight_of h config)"
  shows "\<exists>j. probe_step cn config (checks, unprobed) c =
      Inr (checks @ [j], if not_probed (preflight_of h config) then unprobed @ [c] else unprobed)
    \<and> check_reports j (c, status_reported (preflight_of h config))"
proof (cases "preflight_of h config")
  case (Inl r)
  with assms(2) obtain m n d where "r = Classified (QuotaExceeded m n d)"
    by (auto simp: probe_failure_def split: raised.splits connector_error.splits)
  then show ?thesis
    using assms(1) Inl by (auto simp: probe_step_def probe_raised_def not_probed_def status_reported_def check_reports_def)
next
  case (Inr v)
  then show ?thesis using assms(1) probe_facts_report [of c v checks unprobed] by (auto simp: probe_step_def)
qed

lemma probe_step_fail:
  assumes "map_of (cn_handlers cn) c = Some h" and "probe_failure (preflight_of h config)"
  shows "\<exists>oc. probe_step cn config st c = Inl oc"
  using assms by (auto simp: probe_step_def probe_failure_def probe_raised_def Let_def
      split: sum.splits raised.splits connector_error.splits prod.splits)

lemma probe_fold:
  "if list_ex (\<lambda>ca. probe_failure (snd ca)) (probe_answers cn config cs)
   then \<exists>oc. res_fold (probe_step cn config) (checks, unprobed) cs = Inl oc
   else \<exists>js. res_fold (probe_step cn config) (checks, unprobed) cs =
          Inr (checks @ js, unprobed @ map fst (filter (\<lambda>ca. not_probed (snd ca)) (probe_answers cn config cs)))
        \<and> list_all2 check_reports js (map (\<lambda>(c, a). (c, status_reported a)) (probe_answers cn config cs))"
proof (induction cs arbitrary: checks unprobed)
  case Nil
  then show ?case by (simp add: probe_answers_def)
next
  case (Cons c cs)
  show ?case
  proof (cases "map_of (cn_handlers cn) c")
    case None
    then have "probe_answers cn config (c # cs) = probe_answers cn config cs"
      and "probe_step cn config st c = Inr st" for st
      by (simp_all add: probe_answers_def probe_step_def)
    then show ?thesis using Cons.IH [of checks unprobed] by simp
  next
    case (Some h)
    then have ans: "probe_answers cn config (c # cs) = (c, preflight_of h config) # probe_answers cn config cs"
      by (simp add: probe_answers_def)
    show ?thesis
    proof (cases "probe_failure (preflight_of h config)")
      case True
      then show ?thesis using probe_step_fail [OF Some True, of "(checks, unprobed)"] ans by auto
    next
      case False
      obtain j where "probe_step cn config (checks, unprobed) c =
          Inr (checks @ [j], if not_probed (preflight_of h config) then unprobed @ [c] else unprobed)"
        "check_reports j (c, status_reported (preflight_of h config))"
        using probe_step_ok [OF Some False] by blast
      then show ?thesis
        using Cons.IH [of "checks @ [j]" "if not_probed (preflight_of h config) then unprobed @ [c] else unprobed"] False ans
        by (cases "list_ex (\<lambda>ca. probe_failure (snd ca)) (probe_answers cn config cs)") auto
    qed
  qed
qed

lemma config_rejected_status: "oc_status (config_rejected ps d) \<noteq> ''succeeded''"
  by (simp add: status_of_shapes)

text \<open>
  A probe never reports a pass it did not perform (\<open>_run_test_connection\<close> of runner.py): it succeeds if and only if the
  config is clean and no preflight of a declared capability raises anything but a quota error; then its checks are the config's
  and one per declared capability in order, reporting \<open>unprobed\<close> exactly for those whose preflight says that it probed
  nothing, \<open>warn\<close> for quota and \<open>pass\<close> for the others, and \<open>unprobed\<close> lists exactly the former.\<close>

theorem probe_reports_honestly:
  "oc_status (run_test_connection en cn jb) = ''succeeded'' \<longleftrightarrow>
     probe_config_problems en (cn_manifest cn) (j_config jb) = []
     \<and> \<not> list_ex (\<lambda>ca. probe_failure (snd ca)) (probe_answers cn (j_config jb) PROBED_CAPABILITIES)
     \<and> (\<exists>kvs c0 js. oc_result (run_test_connection en cn jb) = Some (JObj kvs)
          \<and> map_of kvs ''checks'' = Some (JList (c0 # js)) \<and> check_reports c0 (''config'', ''pass'')
          \<and> list_all2 check_reports js
              (map (\<lambda>(c, a). (c, status_reported a)) (probe_answers cn (j_config jb) PROBED_CAPABILITIES))
          \<and> map_of kvs ''unprobed'' = Some (JList (map (\<lambda>(c, a). JStr c)
              (filter (\<lambda>ca. not_probed (snd ca)) (probe_answers cn (j_config jb) PROBED_CAPABILITIES)))))"
  (is "?status \<longleftrightarrow> ?clean \<and> \<not> ?fails \<and> ?report")
proof -
  define first where "first = check ''config'' ''pass'' [(''facts'', JObj [(''schema'', JStr ''valid'')])]"
  have c0: "check_reports first (''config'', ''pass'')" by (auto simp: check_reports_def first_def)
  note fold = probe_fold [of cn "j_config jb" PROBED_CAPABILITIES "[first]" "[]"]
  note run = run_test_connection_def [of en cn jb, folded first_def, unfolded Let_def]
  show ?thesis
  proof (cases "?clean \<and> \<not> ?fails")
    case True
    then obtain js where f: "res_fold (probe_step cn (j_config jb)) ([first], []) PROBED_CAPABILITIES =
        Inr (first # js, map fst (filter (\<lambda>ca. not_probed (snd ca)) (probe_answers cn (j_config jb) PROBED_CAPABILITIES)))"
      and js: "list_all2 check_reports js
        (map (\<lambda>(c, a). (c, status_reported a)) (probe_answers cn (j_config jb) PROBED_CAPABILITIES))"
      using fold by auto
    have "?status" using True f by (simp add: run status_of_shapes)
    moreover have ?report
      using True f js c0 by (simp add: run succeeded_with_def comp_def case_prod_beta)
    ultimately show ?thesis using True by blast
  next
    case False
    have "\<not> ?status"
    proof (cases ?clean)
      case True
      then obtain oc where f: "res_fold (probe_step cn (j_config jb)) ([first], []) PROBED_CAPABILITIES = Inl oc"
        using fold False by auto
      then have "failed_ok oc" using res_fold_Inl [OF f] probe_step_Inl by fast
      then show ?thesis using True f by (auto simp: run failed_ok_def status_of_shapes)
    qed (simp add: run status_of_shapes)
    with False show ?thesis by blast
  qed
qed

text \<open>The local transport writes an output file exactly when it exits with success.\<close>

lemma local_main_writes:
  "snd (local_main en uuid loaded read) \<noteq> None \<longleftrightarrow> fst (local_main en uuid loaded read) = EXIT_OK"
proof -
  have "oc_snapshot (run_snapshot en cn jb None) \<noteq> None" if "oc_status (run_snapshot en cn jb None) = ''succeeded''" for cn jb
    using run_snapshot_cases [of en cn jb None] that
    by (auto simp: snapshot_ok_def failed_ok_def deferred_ok_def outcome_defs)
  then show ?thesis by (auto simp: local_main_def Let_def split: sum.splits)
qed

end
