(* ===== verification/Sdk_Protocol.thy ===== *)
theory Sdk_Protocol
  imports Sdk_Runner Sdk_Vault
begin

text \<open>
  The job-protocol client, \<open>src/connectors/sdk/protocol.py\<close>: how an HTTP exchange becomes a result or an
  exception, the retry ladder of the terminal calls, and the request bodies.

  An exchange is a \<open>reply\<close>: no answer (a \<open>RequestException\<close>), or a status and a body. An exception outside the
  protocol's taxonomy is \<open>Escaped\<close> with the name of its type. Sleeping between attempts is not modelled.
\<close>

section \<open>Errors and checks\<close>

datatype fault = Transport | NonJsonBody int | NonObjectBody int | UnexpectedStatus int

datatype wire_error =
    ProtocolFault fault
  | LeaseLost
  | DeliveryRejected "json list"
  | Escaped string

type_synonym answer = "(wire_error, (string, json) dict) result"

text \<open>\<open>_json\<close>\<close>

definition body_dict :: "int \<Rightarrow> json option \<Rightarrow> answer" where
  "body_dict status body =
     (case body of
        None \<Rightarrow> Inl (ProtocolFault (NonJsonBody status))
      | Some (JObj kvs) \<Rightarrow> Inr kvs
      | Some _ \<Rightarrow> Inl (ProtocolFault (NonObjectBody status)))"

text \<open>\<open>list(v)\<close>; \<open>None\<close> is the \<open>TypeError\<close> of a value that cannot be iterated.\<close>

definition list_of :: "json \<Rightarrow> json list option" where
  "list_of v = (case v of JList vs \<Rightarrow> Some vs | JStr s \<Rightarrow> Some (map (\<lambda>c. JStr [c]) s)
     | JObj kvs \<Rightarrow> Some (map JStr (dict_keys kvs)) | _ \<Rightarrow> None)"

definition check_reply :: "int \<Rightarrow> json option \<Rightarrow> answer" where
  "check_reply status body =
     (if status = 409 then Inl LeaseLost
      else if status = 422
      then (case body_dict status body of
              Inl _ \<Rightarrow> Inl (DeliveryRejected [])
            | Inr kvs \<Rightarrow>
                (case list_of (case dict_get kvs ''errors'' of None \<Rightarrow> JList [] | Some v \<Rightarrow> v) of
                   None \<Rightarrow> Inl (Escaped ''TypeError'')
                 | Some errors \<Rightarrow> Inl (DeliveryRejected errors)))
      else if status \<ge> 300 then Inl (ProtocolFault (UnexpectedStatus status))
      else body_dict status body)"

text \<open>\<open>_post\<close> and \<open>_check\<close>: a call that is not retried\<close>

definition post_call :: "reply \<Rightarrow> answer" where
  "post_call r = (case r of NoReply \<Rightarrow> Inl (ProtocolFault Transport) | Reply status body \<Rightarrow> check_reply status body)"

definition claim_call :: "reply \<Rightarrow> (wire_error, (string, json) dict option) result" where
  "claim_call r =
     (case r of
        NoReply \<Rightarrow> Inl (ProtocolFault Transport)
      | Reply status body \<Rightarrow>
          if status = 204 then Inr None
          else (case check_reply status body of Inl e \<Rightarrow> Inl e | Inr kvs \<Rightarrow> Inr (Some kvs)))"

section \<open>The retry ladder\<close>

text \<open>\<open>_deliver\<close>: \<open>replies n\<close> is the exchange of the n-th attempt. The result carries the number of attempts made.\<close>

function deliver_from :: "nat \<Rightarrow> (nat \<Rightarrow> reply) \<Rightarrow> nat \<Rightarrow> nat \<times> answer" where
  "deliver_from retries replies attempt =
     (case replies attempt of
        NoReply \<Rightarrow> if attempt > retries then (attempt, Inl (ProtocolFault Transport))
                   else deliver_from retries replies (Suc attempt)
      | Reply status body \<Rightarrow>
          if status \<ge> 500 \<and> attempt \<le> retries then deliver_from retries replies (Suc attempt)
          else (attempt, check_reply status body))"
  by pat_completeness auto
termination
  by (relation "measure (\<lambda>(retries, replies, attempt). Suc retries - attempt)") auto

declare deliver_from.simps [simp del]

definition deliver :: "nat \<Rightarrow> (nat \<Rightarrow> reply) \<Rightarrow> nat \<times> answer" where
  "deliver retries replies = deliver_from retries replies 1"

section \<open>Request bodies\<close>

text \<open>\<open>json.dumps(v)\<close>: ASCII, with blanks after commas and colons\<close>

definition esc_ascii :: "char \<Rightarrow> string" where
  "esc_ascii c =
     (if code c < 0x7f then esc_char c
      else [CHR 0x5c, CHR ''u'', CHR ''0'', CHR ''0'', hex_digit (code c div 16), hex_digit (code c mod 16)])"

definition dumps_str :: "string \<Rightarrow> string" where
  "dumps_str s = CHR 0x22 # concat (map esc_ascii s) @ [CHR 0x22]"

fun dumps :: "json \<Rightarrow> string" where
  "dumps JNull = ''null''"
| "dumps (JBool b) = (if b then ''true'' else ''false'')"
| "dumps (JInt i) = show_int i"
| "dumps (JStr s) = dumps_str s"
| "dumps (JList vs) = ''['' @ join '', '' (map dumps vs) @ '']''"
| "dumps (JObj kvs) = ''{'' @ join '', '' (map (\<lambda>(k, v). dumps_str k @ '': '' @ dumps v) kvs) @ ''}''"

definition snapshot_body :: "string \<Rightarrow> string \<Rightarrow> string" where
  "snapshot_body lease_token serialized =
     ''{'' @ dumps_str ''lease_token'' @ '':'' @ dumps_str lease_token @ '','' @ dumps_str ''result'' @ '':'' @ strip serialized @ ''}''"

definition complete_body :: "string \<Rightarrow> json \<Rightarrow> json" where
  "complete_body lease_token result = JObj [(''lease_token'', JStr lease_token), (''result'', result)]"

definition fail_body :: "string \<Rightarrow> json \<Rightarrow> json" where
  "fail_body lease_token err = JObj [(''lease_token'', JStr lease_token), (''error'', err)]"

definition defer_body :: "string \<Rightarrow> int \<Rightarrow> json \<Rightarrow> json" where
  "defer_body lease_token retry_after_s reason =
     JObj [(''lease_token'', JStr lease_token), (''retry_after_s'', JInt retry_after_s), (''reason'', reason)]"

definition claim_body :: "string \<Rightarrow> json list \<Rightarrow> string list \<Rightarrow> int \<Rightarrow> json" where
  "claim_body runner_id connectors classes wait_s =
     JObj [(''runner_id'', JStr runner_id), (''connectors'', JList connectors), (''classes'', JList (map JStr classes)),
       (''wait_s'', JInt wait_s)]"

definition start_body :: "string \<Rightarrow> json" where
  "start_body lease_token = JObj [(''lease_token'', JStr lease_token)]"

definition heartbeat_body :: "string \<Rightarrow> json option \<Rightarrow> json" where
  "heartbeat_body lease_token progress =
     JObj ([(''lease_token'', JStr lease_token)] @ (case progress of None \<Rightarrow> [] | Some p \<Rightarrow> [(''progress'', p)]))"

section \<open>Properties\<close>

definition transient :: "reply \<Rightarrow> bool" where
  "transient r \<longleftrightarrow> (case r of NoReply \<Rightarrow> True | Reply status _ \<Rightarrow> status \<ge> 500)"

definition settled :: "reply \<Rightarrow> bool" where
  "settled r \<longleftrightarrow> \<not> transient r"

lemma deliver_from_transient:
  "transient (replies n) \<Longrightarrow> n \<le> retries \<Longrightarrow> deliver_from retries replies n = deliver_from retries replies (Suc n)"
  by (auto simp: deliver_from.simps [of retries replies n] transient_def split: reply.splits)

lemma deliver_from_final:
  "\<not> transient (replies n) \<or> retries < n \<Longrightarrow> deliver_from retries replies n = (n, post_call (replies n))"
  by (auto simp: deliver_from.simps [of retries replies n] transient_def post_call_def split: reply.splits)

lemma deliver_from_skip:
  assumes "\<And>k. m \<le> k \<Longrightarrow> k < n \<Longrightarrow> transient (replies k)" and "m \<le> n" and "n \<le> Suc retries"
  shows "deliver_from retries replies m = deliver_from retries replies n"
  using assms(2,1,3)
proof (induction n rule: dec_induct)
  case (step k)
  have "deliver_from retries replies m = deliver_from retries replies k" using step by simp
  also have "\<dots> = deliver_from retries replies (Suc k)"
    using step.prems step.hyps by (intro deliver_from_transient) auto
  finally show ?case .
qed simp

text \<open>
  C39. Terminal calls retry exactly the transient failures (\<open>JobApiClient._deliver\<close> of protocol.py): the outcome is that of the
  first attempt which got an answer below 500, or of the last of the allowed attempts if there is none, and no
  attempt is made after it. So a call makes at most one attempt more than the retries, a 409 or a 422 is never
  retried, and a call always returns.\<close>

theorem deliver_exact:
  "\<exists>n. n \<le> Suc retries \<and> 1 \<le> n \<and> deliver retries replies = (n, post_call (replies n))
     \<and> filter (\<lambda>k. settled (replies k)) [1..<n] = [] \<and> (settled (replies n) \<or> n = Suc retries)"
proof -
  define n where "n = (LEAST k. 1 \<le> k \<and> (\<not> transient (replies k) \<or> k = Suc retries))"
  have n: "1 \<le> n \<and> (\<not> transient (replies n) \<or> n = Suc retries)"
    unfolding n_def by (rule LeastI [of _ "Suc retries"]) simp
  have le: "n \<le> Suc retries" unfolding n_def by (rule Least_le) simp
  have before: "transient (replies k)" if "1 \<le> k" "k < n" for k
    using not_less_Least [of k "\<lambda>k. 1 \<le> k \<and> (\<not> transient (replies k) \<or> k = Suc retries)"] that unfolding n_def by blast
  have "deliver retries replies = deliver_from retries replies n"
    unfolding deliver_def using before n le by (intro deliver_from_skip) auto
  also have "\<dots> = (n, post_call (replies n))" using n by (intro deliver_from_final) auto
  finally show ?thesis using n le before by (intro exI [where x = n]) (auto simp: filter_empty_conv settled_def)
qed

text \<open>The canonical bytes travel unchanged: the body is the token's JSON and the canonical text in an object.\<close>

lemma snapshot_body_canonical:
  assumes "serialized = canonical_json doc @ [CHR 0x0a]" and "doc = JObj kvs"
  shows "snapshot_body token serialized =
    ''{'' @ dumps_str ''lease_token'' @ '':'' @ dumps_str token @ '','' @ dumps_str ''result'' @ '':'' @ canonical_json doc @ ''}''"
proof -
  let ?c = "canonical_json doc"
  obtain r where c: "?c = CHR ''{'' # r @ [CHR ''}'']"
    using assms(2) by (simp add: canonical_json_print)
  have "rstrip_by is_space (?c @ [CHR 0x0a]) = rstrip_by is_space ?c"
    by (simp add: rstrip_by_def is_space_def code_def)
  also have "\<dots> = ?c" by (rule rstrip_by_id) (simp add: c is_space_def code_def)
  finally have "strip serialized = ?c"
    by (simp add: strip_by_def assms(1) lstrip_by_def c is_space_def code_def)
  then show ?thesis by (simp add: snapshot_body_def)
qed

end
