(* ===== verification/Sdk_Service.thy ===== *)
theory Sdk_Service
  imports Sdk_Protocol
begin

text \<open>
  The runner daemon, \<open>src/connectors/sdk/service.py\<close>: its configuration, the claim declaration, the execution preflight,
  credential injection, the handling of one job and the main loop.

  \<^item> \<open>os.environ\<close> is part of the state. A hosted connector's handlers may read it, so they are a function of it.
  \<^item> The heartbeat thread and the worker thread run beside the main thread: \<open>sup_step\<close> is the step
    relation of the three, and \<open>execute\<close> takes the decision the supervision reached.
  \<^item> \<open>json.loads\<close> is the parameter \<open>sv_loads\<close>, \<open>uuid4().hex\<close> the parameter \<open>sv_uuid\<close>, indexed by the calls so far; the
    answers of the core are a function of the call. Logging and sleeping are not modelled.
\<close>

section \<open>Constants\<close>

definition CREDENTIAL_CONFIG_KEYS :: "(string, string) dict" where
  "CREDENTIAL_CONFIG_KEYS = [(''dsn'', ''dsn_env''), (''execute_dsn'', ''execute_dsn_env''),
     (''service_account'', ''credentials_env''), (''client_secret'', ''client_secret_env'')]"

definition EXECUTABLE_TYPES :: "string list" where
  "EXECUTABLE_TYPES = [''snapshot'', ''execute'', ''publish'', ''test_connection'']"

definition PROBE_TYPE :: string where
  "PROBE_TYPE = ''test_connection''"

section \<open>Configuration\<close>

text \<open>The numeric members are kept as the file gives them; converting them is not modelled.\<close>

record runner_config =
  rc_core_url :: json
  rc_token :: json
  rc_runner_id :: json
  rc_connector_specs :: "string list"
  rc_classes :: json
  rc_resolver_kind :: string
  rc_resolver_path :: json
  rc_resolver_allow_env :: bool
  rc_execution_preflight :: json

datatype config_error =
    CannotRead
  | TopLevelNotMapping
  | TokenEnvNotSet json
  | TokenRequired
  | ConnectorsInvalid
  | ResolverKindInvalid
  | EnvFileNeedsPath
  | AllowEnvNotBoolean
  | CoreUrlRequired
  | ConfigCrash

definition spec_ok :: "json \<Rightarrow> bool" where
  "spec_ok v \<longleftrightarrow> (\<exists>s. v = JStr s \<and> s \<noteq> [])"

definition config_token :: "(string, string) dict \<Rightarrow> (string, json) dict \<Rightarrow> (config_error, json) result" where
  "config_token env raw =
     (let token_env = member raw ''token_env''
      in if truthy token_env
         then (case token_env of
                 JStr n \<Rightarrow> (case dict_get env n of
                     None \<Rightarrow> Inl (TokenEnvNotSet token_env)
                   | Some v \<Rightarrow> if v = [] then Inl (TokenEnvNotSet token_env) else Inr (JStr v))
               | _ \<Rightarrow> Inl ConfigCrash)
         else if truthy (member raw ''token'') then Inr (member raw ''token'') else Inl TokenRequired)"

definition config_specs :: "(string, json) dict \<Rightarrow> (config_error, string list) result" where
  "config_specs raw =
     (case member raw ''connectors'' of
        JList vs \<Rightarrow> if vs \<noteq> [] \<and> list_all spec_ok vs then Inr (strings_of vs) else Inl ConnectorsInvalid
      | _ \<Rightarrow> Inl ConnectorsInvalid)"

definition RESOLVER_KINDS :: "string list" where
  "RESOLVER_KINDS = [''process-env'', ''env-file'', ''vault'']"

definition config_resolver :: "(string, json) dict \<Rightarrow> (config_error, string \<times> json \<times> bool) result" where
  "config_resolver raw =
     (case or_else (member raw ''resolver'') (JObj [(''kind'', JStr ''process-env'')]) of
        JObj resolver \<Rightarrow>
          (case (case dict_get resolver ''kind'' of None \<Rightarrow> JStr ''process-env'' | Some v \<Rightarrow> v) of
             JStr kind \<Rightarrow>
               if kind \<notin> set RESOLVER_KINDS then Inl ResolverKindInvalid
               else if kind = ''env-file'' \<and> \<not> truthy (member resolver ''path'') then Inl EnvFileNeedsPath
               else (case (case dict_get resolver ''allow_env'' of None \<Rightarrow> JBool True | Some v \<Rightarrow> v) of
                       JBool allow_env \<Rightarrow> Inr (kind, member resolver ''path'', allow_env)
                     | _ \<Rightarrow> Inl AllowEnvNotBoolean)
           | _ \<Rightarrow> Inl ResolverKindInvalid)
      | _ \<Rightarrow> Inl ConfigCrash)"

definition load_runner_config ::
  "(string, string) dict \<Rightarrow> string \<Rightarrow> json option \<Rightarrow> (config_error, runner_config) result" where
  "load_runner_config env host_name file =
     (case file of
        None \<Rightarrow> Inl CannotRead
      | Some (JObj raw) \<Rightarrow>
          res_bind (config_token env raw) (\<lambda>token.
          res_bind (config_specs raw) (\<lambda>specs.
          res_bind (config_resolver raw) (\<lambda>(kind, path, allow_env).
            if \<not> truthy (member raw ''core_url'') then Inl CoreUrlRequired
            else Inr \<lparr>rc_core_url = member raw ''core_url'', rc_token = token,
                   rc_runner_id = or_else (member raw ''runner_id'') (JStr host_name), rc_connector_specs = specs,
                   rc_classes = or_else (member raw ''classes'') (JList [JStr ''batch'']),
                   rc_resolver_kind = kind, rc_resolver_path = path, rc_resolver_allow_env = allow_env,
                   rc_execution_preflight = or_else (member raw ''execution_preflight'') (JList [])\<rparr>)))
      | Some _ \<Rightarrow> Inl TopLevelNotMapping)"

text \<open>The process environment is read at each resolution, the env file once when the resolver is made.\<close>

type_synonym environ = "(string, string) dict"

definition make_resolver ::
  "runner_config \<Rightarrow> world \<Rightarrow> (vault_error, (string, string) dict) result
     \<Rightarrow> (vault_error, environ \<Rightarrow> resolver) result" where
  "make_resolver cfg w env_file =
     (if rc_resolver_kind cfg = ''vault''
      then Inr (\<lambda>env. router_resolve ([(VAULT_SCHEME, vault_resolve w)]
             @ (if rc_resolver_allow_env cfg then [(ENV_SCHEME, env_backend env)] else [])))
      else if rc_resolver_kind cfg = ''env-file''
      then (case env_file of Inl e \<Rightarrow> Inl e | Inr mapping \<Rightarrow> Inr (\<lambda>env. env_backend mapping))
      else Inr env_backend)"

section \<open>Scrubbing\<close>

definition SCRUB_MARKER :: string where
  "SCRUB_MARKER = ''[REDACTED]''"

text \<open>\<open>json.dumps(secret)[1:-1]\<close>\<close>

definition escaped_secret :: "string \<Rightarrow> string" where
  "escaped_secret secret = concat (map esc_ascii secret)"

definition scrub_text :: "string list \<Rightarrow> string \<Rightarrow> string" where
  "scrub_text secrets t =
     fold (\<lambda>secret t. if secret \<noteq> [] then replace_all (escaped_secret secret) SCRUB_MARKER t else t) secrets t"

definition scrub_secrets :: "(string \<Rightarrow> json option) \<Rightarrow> string list \<Rightarrow> json \<Rightarrow> json option" where
  "scrub_secrets loads secrets value =
     (if secrets = [] then Some value else loads (scrub_text secrets (dumps value)))"

section \<open>The runner\<close>

text \<open>Why injecting a credential failed: a reference that does not resolve, or another exception by its type. Their texts
  are \<open>sv_fail_text\<close>.\<close>

datatype inject_fail = VaultFail vault_error | OtherFail string

record hosted =
  h_manifest :: manifest
  h_metadata :: "(environ \<Rightarrow> metadata_provider) option"
  h_query :: "(environ \<Rightarrow> query_executor) option"
  h_publish :: "(environ \<Rightarrow> publisher) option"

definition connector_in :: "environ \<Rightarrow> hosted \<Rightarrow> connector" where
  "connector_in env h = \<lparr>cn_manifest = h_manifest h,
     cn_handlers = (case h_metadata h of None \<Rightarrow> [] | Some m \<Rightarrow> [(''metadata'', Metadata (m env))])
       @ (case h_query h of None \<Rightarrow> [] | Some q \<Rightarrow> [(''query'', Query (q env))])
       @ (case h_publish h of None \<Rightarrow> [] | Some p \<Rightarrow> [(''publish'', Publish (p env))])\<rparr>"

record service =
  sv_config :: runner_config
  sv_connectors :: "(string, hosted) dict"
  sv_resolve :: "environ \<Rightarrow> resolver"
  sv_refused :: "(string, string) dict"
  sv_engine :: engine
  sv_uuid :: "nat \<Rightarrow> string"
  sv_loads :: "string \<Rightarrow> json option"
  sv_fail_text :: "inject_fail \<Rightarrow> string"

record host =
  ho_environ :: environ
  ho_vault :: vault_state
  ho_uuids :: nat

definition declared_types :: "service \<Rightarrow> manifest \<Rightarrow> string list" where
  "declared_types sv mf =
     (let types = sort (filter (\<lambda>t. t \<in> set EXECUTABLE_TYPES)
            (concat (map (\<lambda>cap. case dict_get CAPABILITY_JOB_TYPES cap of None \<Rightarrow> [] | Some t \<Rightarrow> [t])
               (dict_keys (mf_capabilities mf)))));
          types = (if dict_has (sv_refused sv) (mf_name mf) then filter (\<lambda>t. t \<noteq> ''execute'') types else types)
      in if mf_health_probe mf = Some ''builtin'' then sort (remdups (PROBE_TYPE # types)) else types)"

definition declared_connectors :: "service \<Rightarrow> (string \<times> string \<times> string list) list" where
  "declared_connectors sv =
     map (\<lambda>(n, h). (mf_name (h_manifest h), mf_version (h_manifest h), declared_types sv (h_manifest h))) (sv_connectors sv)"

text \<open>\<open>__post_init__\<close>: the loaded connectors, by the names of their manifests\<close>

definition host_connectors :: "hosted list \<Rightarrow> (string, hosted) dict" where
  "host_connectors hs = fold (\<lambda>h. dict_set (mf_name (h_manifest h)) h) hs []"

section \<open>Credential injection\<close>

record injection =
  ij_names :: "string list"
  ij_secrets :: "string list"
  ij_config :: "(string, json) dict"
  ij_host :: host

text \<open>One credential entry. \<open>os.environ[var] = value\<close> refuses a value with a null character.\<close>

definition config_key_of :: "json \<Rightarrow> (inject_fail, string \<times> string) result" where
  "config_key_of key =
     (case key of
        JStr k \<Rightarrow> (case dict_get CREDENTIAL_CONFIG_KEYS k of
                     None \<Rightarrow> Inl (VaultFail (KeyUnknown (py_repr k))) | Some ck \<Rightarrow> Inr (k, ck))
      | JList _ \<Rightarrow> Inl (OtherFail ''TypeError'')
      | JObj _ \<Rightarrow> Inl (OtherFail ''TypeError'')
      | v \<Rightarrow> Inl (VaultFail (KeyUnknown (repr_json v))))"

definition inject_one :: "service \<Rightarrow> json \<Rightarrow> injection \<Rightarrow> inject_fail option \<times> injection" where
  "inject_one sv entry ij =
     (case entry of
        JObj kvs \<Rightarrow>
          (let ref = member kvs ''ref''; key = member kvs ''key''
           in if \<not> truthy ref \<or> \<not> truthy key then (Some (VaultFail EntryIncomplete), ij)
              else case config_key_of key of
                     Inl e \<Rightarrow> (Some e, ij)
                   | Inr (k, config_key) \<Rightarrow>
                       (case ref of
                          JStr r \<Rightarrow>
                            (let ho = ij_host ij; (res, vault) = sv_resolve sv (ho_environ ho) r (ho_vault ho);
                                 ho1 = ho\<lparr>ho_vault := vault\<rparr>
                             in case res of
                                  Inl e \<Rightarrow> (Some (VaultFail e), ij\<lparr>ij_host := ho1\<rparr>)
                                | Inr value \<Rightarrow>
                                    let var = ''CL_CRED_'' @ sv_uuid sv (ho_uuids ho) @ ''_'' @ map to_upper k;
                                        ho2 = ho1\<lparr>ho_uuids := Suc (ho_uuids ho)\<rparr>
                                    in if CHR 0x00 \<in> set value then (Some (OtherFail ''ValueError''), ij\<lparr>ij_host := ho2\<rparr>)
                                       else (None, \<lparr>ij_names = ij_names ij @ [var], ij_secrets = ij_secrets ij @ [value],
                                               ij_config = dict_set config_key (JStr var) (ij_config ij),
                                               ij_host = ho2\<lparr>ho_environ := dict_set var value (ho_environ ho)\<rparr>\<rparr>))
                        | _ \<Rightarrow> (Some (OtherFail ''AttributeError''), ij)))
      | _ \<Rightarrow> (Some (OtherFail ''AttributeError''), ij))"

fun inject_all :: "service \<Rightarrow> json list \<Rightarrow> injection \<Rightarrow> inject_fail option \<times> injection" where
  "inject_all sv [] ij = (None, ij)"
| "inject_all sv (entry # entries) ij =
     (case inject_one sv entry ij of
        (Some e, ij1) \<Rightarrow> (Some e, ij1)
      | (None, ij1) \<Rightarrow> inject_all sv entries ij1)"

text \<open>\<open>_inject_credentials\<close>: \<open>payload\<close> is the job record's member, and \<open>for entry in payload.get("credentials") or []\<close>\<close>

definition inject_credentials ::
  "service \<Rightarrow> json \<Rightarrow> (string, json) dict \<Rightarrow> host \<Rightarrow> inject_fail option \<times> injection" where
  "inject_credentials sv payload config ho =
     (let ij = \<lparr>ij_names = [], ij_secrets = [], ij_config = config, ij_host = ho\<rparr>
      in case payload of
           JObj kvs \<Rightarrow>
             (case list_of (or_else (member kvs ''credentials'') (JList [])) of
                None \<Rightarrow> (Some (OtherFail ''TypeError''), ij)
              | Some entries \<Rightarrow> inject_all sv entries ij)
         | _ \<Rightarrow> (Some (OtherFail ''AttributeError''), ij))"

definition pop_all :: "string list \<Rightarrow> host \<Rightarrow> host" where
  "pop_all names ho = ho\<lparr>ho_environ := fold dict_pop names (ho_environ ho)\<rparr>"

section \<open>The execution preflight\<close>

definition raised_text :: "raised \<Rightarrow> string" where
  "raised_text r = (case r of Classified exc \<Rightarrow> error_message exc | Crashed c \<Rightarrow> cr_message c)"

definition preflight_hosted ::
  "service \<Rightarrow> hosted \<Rightarrow> string \<Rightarrow> json \<Rightarrow> (string, json) dict \<Rightarrow> (string, string) dict \<times> host \<Rightarrow> (string, string) dict \<times> host" where
  "preflight_hosted sv h name credentials config st =
     (let (refused, ho) = st
      in case h_query h of
           None \<Rightarrow> (dict_set name (''connector '' @ py_repr name @ '' declares no query capability'') refused, ho)
         | Some executor \<Rightarrow>
             (case inject_credentials sv (JObj [(''credentials'', or_else credentials (JList []))]) config ho of
                (Some e, ij) \<Rightarrow> (dict_set name (redact_text (sv_fail_text sv e)) refused, ij_host ij)
              | (None, ij) \<Rightarrow>
                  (case qx_preflight (executor (ho_environ (ij_host ij))) (JObj (ij_config ij)) of
                     Inl r \<Rightarrow> (dict_set name (redact_text (raised_text r)) refused, pop_all (ij_names ij) (ij_host ij))
                   | Inr facts \<Rightarrow> (refused, pop_all (ij_names ij) (ij_host ij)))))"

definition preflight_entry ::
  "service \<Rightarrow> (string, string) dict \<times> host \<Rightarrow> json \<Rightarrow> (string, (string, string) dict \<times> host) result" where
  "preflight_entry sv st entry =
     (case entry of
        JObj kvs \<Rightarrow>
          (case or_else (member kvs ''config'') (JObj []) of
             JObj config \<Rightarrow>
               (case member kvs ''connector'' of
                  JStr name \<Rightarrow>
                    (case dict_get (sv_connectors sv) name of
                       None \<Rightarrow> Inr (dict_set name (''connector '' @ py_repr name @ '' is not hosted by this runner'') (fst st), snd st)
                     | Some h \<Rightarrow> Inr (preflight_hosted sv h name (member kvs ''credentials'') config st))
                | JList _ \<Rightarrow> Inl ''TypeError''
                | JObj _ \<Rightarrow> Inl ''TypeError''
                | _ \<Rightarrow> Inr st)
           | _ \<Rightarrow> Inl ''TypeError'')
      | _ \<Rightarrow> Inl ''AttributeError'')"

definition preflight_execution :: "service \<Rightarrow> host \<Rightarrow> (string, service \<times> host) result" where
  "preflight_execution sv ho =
     (case list_of (rc_execution_preflight (sv_config sv)) of
        None \<Rightarrow> Inl ''TypeError''
      | Some entries \<Rightarrow>
          res_bind (res_fold (preflight_entry sv) ([], ho) entries)
            (\<lambda>(refused, ho'). Inr (sv\<lparr>sv_refused := refused\<rparr>, ho')))"

section \<open>Supervision\<close>

text \<open>The three threads while a job runs: the main thread, which has not decided yet or has; the heartbeat thread, which
  beats, has an answer whose cancellation it has yet to flag, or has returned; and the worker, which runs or
  has left its outcome in the box (nothing, if it died).\<close>

datatype decision =
    Abandon
  | StopCancelled string
  | DeliverOutcome string "job_outcome option"

datatype beat_state = Beating | Flagging | Ended

record supervision =
  su_token :: string
  su_beat :: beat_state
  su_lost :: bool
  su_cancelled :: bool
  su_work :: "job_outcome option option"
  su_decision :: "decision option"

definition sup_start :: "string \<Rightarrow> supervision" where
  "sup_start lease_token = \<lparr>su_token = lease_token, su_beat = Beating, su_lost = False, su_cancelled = False,
     su_work = None, su_decision = None\<rparr>"

text \<open>What the heartbeat thread does with an answer: \<open>lease = response.get("lease") or {}\<close>; a token that is a
  string replaces the current one. An exception outside the protocol's ends the thread.\<close>

definition beat_token :: "(string, json) dict \<Rightarrow> string \<Rightarrow> string" where
  "beat_token response token =
     (case member response ''lease'' of
        JObj lease \<Rightarrow> (case member lease ''token'' of JStr t \<Rightarrow> t | _ \<Rightarrow> token)
      | _ \<Rightarrow> token)"

definition apply_beat :: "answer \<Rightarrow> supervision \<Rightarrow> supervision" where
  "apply_beat a s =
     (case a of
        Inl LeaseLost \<Rightarrow> s\<lparr>su_lost := True, su_beat := Ended\<rparr>
      | Inl (Escaped _) \<Rightarrow> s\<lparr>su_beat := Ended\<rparr>
      | Inl _ \<Rightarrow> s
      | Inr response \<Rightarrow>
          if truthy (member response ''lease'') \<and> dict_or_none (member response ''lease'') = None then s\<lparr>su_beat := Ended\<rparr>
          else s\<lparr>su_token := beat_token response (su_token s),
                 su_beat := (if truthy (member response ''cancel_requested'') then Flagging else Beating)\<rparr>)"

inductive sup_step :: "job_outcome option \<Rightarrow> supervision \<Rightarrow> supervision \<Rightarrow> bool" for box where
  beat: "su_beat s = Beating \<Longrightarrow> sup_step box s (apply_beat a s)"
| flag: "su_beat s = Flagging \<Longrightarrow> sup_step box s (s\<lparr>su_cancelled := True, su_beat := Ended\<rparr>)"
| stop: "su_work s \<noteq> None \<Longrightarrow> su_beat s = Beating \<Longrightarrow> sup_step box s (s\<lparr>su_beat := Ended\<rparr>)"
| work: "su_work s = None \<Longrightarrow> sup_step box s (s\<lparr>su_work := Some box\<rparr>)"
| lost: "su_decision s = None \<Longrightarrow> su_lost s \<Longrightarrow> sup_step box s (s\<lparr>su_decision := Some Abandon\<rparr>)"
| cancelled: "su_decision s = None \<Longrightarrow> \<not> su_lost s \<Longrightarrow> su_cancelled s
    \<Longrightarrow> sup_step box s (s\<lparr>su_decision := Some (StopCancelled (su_token s))\<rparr>)"
| finished: "su_decision s = None \<Longrightarrow> \<not> su_lost s \<Longrightarrow> \<not> su_cancelled s \<Longrightarrow> su_work s = Some b
    \<Longrightarrow> sup_step box s (s\<lparr>su_decision := Some (DeliverOutcome (su_token s) b)\<rparr>)"

abbreviation sup_steps :: "job_outcome option \<Rightarrow> supervision \<Rightarrow> supervision \<Rightarrow> bool" where
  "sup_steps box \<equiv> (sup_step box)\<^sup>*\<^sup>*"

definition decides :: "job_outcome option \<Rightarrow> string \<Rightarrow> decision \<Rightarrow> bool" where
  "decides box lease_token d \<longleftrightarrow> (\<exists>s. sup_steps box (sup_start lease_token) s \<and> su_decision s = Some d)"

section \<open>Handling one job\<close>

datatype wire_call =
    Start string
  | Complete string json
  | CompleteSnapshot string string
  | Fail string json
  | Defer string int json

type_synonym core = "wire_call \<Rightarrow> answer"

text \<open>The calls made, and the type of the exception that escaped, if one did.\<close>

type_synonym trace = "wire_call list \<times> string option"

definition escaping :: "answer \<Rightarrow> string option" where
  "escaping a = (case a of Inl (Escaped t) \<Rightarrow> Some t | _ \<Rightarrow> None)"

definition error_json :: "string \<Rightarrow> string \<Rightarrow> bool \<Rightarrow> (string, json) dict \<Rightarrow> json" where
  "error_json c message retryable members =
     JObj ([(''code'', JStr c), (''message'', JStr message), (''retryable'', JBool retryable)] @ members)"

definition CANCELLED_ERROR :: json where
  "CANCELLED_ERROR = error_json ''cancelled'' ''cancelled by producer request'' False []"

text \<open>A terminal call on a scrubbed value: protocol errors are logged, others escape, as does the error of a scrubbed
  text that is no JSON.\<close>

definition scrubbed_call :: "core \<Rightarrow> json option \<Rightarrow> (json \<Rightarrow> wire_call) \<Rightarrow> trace" where
  "scrubbed_call core scrubbed mk =
     (case scrubbed of None \<Rightarrow> ([], Some ''JSONDecodeError'') | Some v \<Rightarrow> ([mk v], escaping (core (mk v))))"

definition fail_job :: "service \<Rightarrow> core \<Rightarrow> string \<Rightarrow> json \<Rightarrow> string list \<Rightarrow> trace" where
  "fail_job sv core lease_token err secrets =
     scrubbed_call core (scrub_secrets (sv_loads sv) secrets err) (Fail lease_token)"

definition deliver_outcome :: "service \<Rightarrow> core \<Rightarrow> string \<Rightarrow> job_outcome option \<Rightarrow> string list \<Rightarrow> trace" where
  "deliver_outcome sv core lease_token box secrets =
     (case box of
        None \<Rightarrow> fail_job sv core lease_token (error_json ''internal'' ''connector worker produced no outcome'' True []) secrets
      | Some outcome \<Rightarrow>
          if oc_status outcome = ''succeeded''
          then (case oc_snapshot outcome of
                  Some e \<Rightarrow> scrubbed_call core (Some JNull) (\<lambda>_. CompleteSnapshot lease_token (em_serialized e))
                | None \<Rightarrow> scrubbed_call core
                    (scrub_secrets (sv_loads sv) secrets (case oc_result outcome of None \<Rightarrow> JNull | Some r \<Rightarrow> r))
                    (Complete lease_token))
          else if oc_status outcome = ''deferred''
          then scrubbed_call core
                 (scrub_secrets (sv_loads sv) secrets (JStr (je_message (the (oc_error outcome)))))
                 (\<lambda>m. Defer lease_token (the (oc_retry_after_s outcome))
                    (JObj [(''code'', JStr (je_code (the (oc_error outcome)))), (''message'', JStr (str_json m))]))
          else (let e = the (oc_error outcome)
                in fail_job sv core lease_token
                     (error_json (je_code e) (je_message e) (je_retryable e) [(''detail'', JObj (je_detail e))]) secrets))"

text \<open>The members of a job record the runner reads; an absent payload is an empty object.\<close>

record job_record =
  jr_id :: string
  jr_token :: string
  jr_name :: "string option"
  jr_type :: string
  jr_payload :: json

definition job_of :: "job_record \<Rightarrow> (string, json) dict \<Rightarrow> (string, json) dict \<Rightarrow> job" where
  "job_of jr payload config =
     \<lparr>j_id = jr_id jr, j_config = JObj config, j_type = jr_type jr, j_request = member payload ''request'',
      j_guardrails = member payload ''guardrails'', j_identity = member payload ''identity'',
      j_artifact = member payload ''artifact'', j_target = member payload ''target'', j_mode = member payload ''mode'',
      j_results = member payload ''results'', j_previous = member payload ''previous'',
      j_attestation = member payload ''attestation''\<rparr>"

definition worker_box :: "service \<Rightarrow> environ \<Rightarrow> hosted \<Rightarrow> job \<Rightarrow> job_outcome option" where
  "worker_box sv env h jb = (case run_job (sv_engine sv) (connector_in env h) jb None of Inl _ \<Rightarrow> None | Inr oc \<Rightarrow> Some oc)"

text \<open>What the main thread does once the supervision has decided\<close>

definition conclude :: "service \<Rightarrow> core \<Rightarrow> string list \<Rightarrow> decision \<Rightarrow> trace" where
  "conclude sv core secrets d =
     (case d of
        Abandon \<Rightarrow> ([], None)
      | StopCancelled token \<Rightarrow> fail_job sv core token CANCELLED_ERROR secrets
      | DeliverOutcome token box \<Rightarrow> deliver_outcome sv core token box secrets)"

definition after_start :: "service \<Rightarrow> core \<Rightarrow> string \<Rightarrow> answer \<Rightarrow> ((string, json) dict \<Rightarrow> trace) \<Rightarrow> trace" where
  "after_start sv core lease_token started k =
     (case started of
        Inl (Escaped t) \<Rightarrow> ([Start lease_token], Some t)
      | Inl _ \<Rightarrow> ([Start lease_token], None)
      | Inr response \<Rightarrow> (let (calls, esc) = k response in (Start lease_token # calls, esc)))"

text \<open>The body of the outer \<open>try\<close>; \<open>d\<close> is the decision, if the supervision is reached.\<close>

definition execute_body ::
  "service \<Rightarrow> core \<Rightarrow> job_record \<Rightarrow> inject_fail option \<times> injection \<Rightarrow> decision \<Rightarrow> trace" where
  "execute_body sv core jr injected d =
     (let token = jr_token jr
      in case injected of
           (Some (OtherFail t), ij) \<Rightarrow> ([], Some t)
         | (Some (VaultFail e), ij) \<Rightarrow>
             after_start sv core token (core (Start token))
               (\<lambda>_. let exc = vault_connector_error (\<lambda>e. sv_fail_text sv (VaultFail e)) e
                    in fail_job sv core token (error_json (error_code exc) (error_message exc) (error_retryable exc)
                         [(''detail'', JObj (error_detail exc))]) [])
         | (None, ij) \<Rightarrow>
             after_start sv core token (core (Start token))
               (\<lambda>started. if truthy (member started ''cancel_requested'')
                          then fail_job sv core token CANCELLED_ERROR (ij_secrets ij)
                          else conclude sv core (ij_secrets ij) d))"

text \<open>The outer handler: whatever escaped is this job's failure. The names and the secrets are known only when the
  injection returned.\<close>

definition known_secrets :: "inject_fail option \<times> injection \<Rightarrow> string list" where
  "known_secrets injected = (case injected of (None, ij) \<Rightarrow> ij_secrets ij | _ \<Rightarrow> [])"

definition known_names :: "inject_fail option \<times> injection \<Rightarrow> string list" where
  "known_names injected = (case injected of (None, ij) \<Rightarrow> ij_names ij | _ \<Rightarrow> [])"

definition isolate :: "service \<Rightarrow> core \<Rightarrow> string \<Rightarrow> string list \<Rightarrow> trace \<Rightarrow> trace" where
  "isolate sv core lease_token secrets tr =
     (case snd tr of
        None \<Rightarrow> tr
      | Some t \<Rightarrow>
          let (calls, esc) = fail_job sv core lease_token (error_json ''internal''
                (''runner-side failure handling the job ('' @ t @ '')'') True []) secrets
          in (fst tr @ calls, esc))"

definition type_name :: "job_record \<Rightarrow> string" where
  "type_name jr = py_repr (jr_type jr)"

definition show_name :: "string option \<Rightarrow> string" where
  "show_name n = (case n of None \<Rightarrow> ''None'' | Some s \<Rightarrow> py_repr s)"

definition execute :: "service \<Rightarrow> core \<Rightarrow> job_record \<Rightarrow> decision \<Rightarrow> host \<Rightarrow> trace \<times> host" where
  "execute sv core jr d ho =
     (let refusal = Option.bind (jr_name jr) (dict_get (sv_refused sv));
          connector = Option.bind (jr_name jr) (dict_get (sv_connectors sv))
      in if jr_type jr = ''execute'' \<and> refusal \<noteq> None
         then (fail_job sv core (jr_token jr) (error_json ''config_error''
                 (''this runner refuses to serve execution for '' @ show_name (jr_name jr) @ '': '' @ the refusal) False []) [], ho)
         else if connector = None \<or> jr_type jr \<notin> set EXECUTABLE_TYPES
         then (fail_job sv core (jr_token jr) (error_json ''config_error''
                 (''runner '' @ str_json (rc_runner_id (sv_config sv)) @ '' cannot execute type='' @ type_name jr
                  @ '' connector='' @ show_name (jr_name jr)) False []) [], ho)
         else (case or_else (jr_payload jr) (JObj []) of
                 JObj payload \<Rightarrow>
                   (case or_else (member payload ''config'') (JObj []) of
                      JObj config \<Rightarrow>
                        (let injected = inject_credentials sv (jr_payload jr) config ho;
                             tr = execute_body sv core jr injected d
                         in (isolate sv core (jr_token jr) (known_secrets injected) tr,
                             pop_all (known_names injected) (ij_host (snd injected))))
                    | _ \<Rightarrow> (([], Some ''TypeError''), ho))
               | _ \<Rightarrow> (([], Some ''AttributeError''), ho)))"

text \<open>The decisions a job can come to: those the supervision reaches with the outcome the worker has in the environment
  the injection left.\<close>

definition possible_decision :: "service \<Rightarrow> job_record \<Rightarrow> host \<Rightarrow> decision \<Rightarrow> bool" where
  "possible_decision sv jr ho d \<longleftrightarrow>
     (case (Option.bind (jr_name jr) (dict_get (sv_connectors sv)), jr_payload jr) of
        (Some h, JObj payload) \<Rightarrow>
          (case or_else (member payload ''config'') (JObj []) of
             JObj config \<Rightarrow>
               let ij = snd (inject_credentials sv (jr_payload jr) config ho)
               in decides (worker_box sv (ho_environ (ij_host ij)) h (job_of jr payload (ij_config ij))) (jr_token jr) d
           | _ \<Rightarrow> False)
      | _ \<Rightarrow> False)"

section \<open>The main loop\<close>

text \<open>\<open>run_forever\<close> over what happens in its turns: the answer to the claim and, if a job came, the core's answers to its
  calls and the decision of its supervision. The loop still runs, has returned the number of jobs executed, or
  was ended by an exception that escaped from a claim. Whatever a job's handling raises is only logged.\<close>

record turn =
  tn_claim :: "(wire_error, job_record option) result"
  tn_core :: core
  tn_decision :: decision

datatype loop_end = Looping | Finished nat | Died string

fun run_turns ::
  "service \<Rightarrow> bool \<Rightarrow> nat option \<Rightarrow> nat \<Rightarrow> host \<Rightarrow> turn list \<Rightarrow> trace list \<times> loop_end \<times> host" where
  "run_turns sv once max_jobs executed ho [] = ([], Looping, ho)"
| "run_turns sv once max_jobs executed ho (t # ts) =
     (case tn_claim t of
        Inl (Escaped e) \<Rightarrow> ([], Died e, ho)
      | Inl _ \<Rightarrow> run_turns sv once max_jobs executed ho ts
      | Inr None \<Rightarrow> run_turns sv once max_jobs executed ho ts
      | Inr (Some jr) \<Rightarrow>
          (let (tr, ho1) = execute sv (tn_core t) jr (tn_decision t) ho
           in if once \<or> (case max_jobs of None \<Rightarrow> False | Some n \<Rightarrow> n \<le> Suc executed)
              then ([tr], Finished (Suc executed), ho1)
              else (let (trs, e, ho2) = run_turns sv once max_jobs (Suc executed) ho1 ts in (tr # trs, e, ho2))))"

definition run_forever ::
  "service \<Rightarrow> bool \<Rightarrow> nat option \<Rightarrow> host \<Rightarrow> turn list \<Rightarrow> trace list \<times> loop_end \<times> host" where
  "run_forever sv once max_jobs ho turns =
     (case preflight_execution sv ho of
        Inl e \<Rightarrow> ([], Died e, ho)
      | Inr (sv', ho') \<Rightarrow> run_turns sv' once max_jobs 0 ho' turns)"

section \<open>Scrubbing leaves no secret\<close>

lemma startswith_Cons: "startswith (c # s) (d # p) \<longleftrightarrow> c = d \<and> startswith s p"
  by (auto simp: startswith_def)

lemma startswith_Nil [simp]: "startswith s []"
  by (simp add: startswith_def)

lemma startswith_Nil2: "startswith [] p \<longleftrightarrow> p = []"
  by (auto simp: startswith_def)

lemma contains_text_append: "contains_text p s \<Longrightarrow> contains_text p (r @ s)"
  by (induction r) auto

lemma replace_all_prefix:
  assumes "startswith (replace_all old (CHR ''['' # m) t) p" and "CHR ''['' \<notin> set p"
  shows "startswith t p"
  using assms
proof (induction old "CHR ''['' # m" t arbitrary: p rule: replace_all.induct)
  case (2 old c s)
  show ?case
  proof (cases p)
    case (Cons d q)
    then have "\<not> (old \<noteq> [] \<and> startswith (c # s) old)"
      using "2.prems" by (auto simp: startswith_Cons)
    then show ?thesis using "2.hyps"(2) [of q] "2.prems" Cons by (auto simp: startswith_Cons split: if_splits)
  qed simp
qed simp

text \<open>A text without brackets that is no part of the word between them occurs after the marker if it occurs at all.\<close>

definition scrub_safe :: "string \<Rightarrow> bool" where
  "scrub_safe p \<longleftrightarrow> p \<noteq> [] \<and> CHR ''['' \<notin> set p \<and> CHR '']'' \<notin> set p \<and> \<not> contains_text p ''REDACTED''"

lemma contains_before_close:
  assumes "contains_text p (w @ CHR '']'' # r)" and "CHR '']'' \<notin> set p" and "p \<noteq> []"
  shows "contains_text p w \<or> contains_text p r"
  using assms(1)
proof (induction w)
  case Nil
  then show ?case using assms(2,3) by (cases p) (auto simp: startswith_Cons)
next
  case (Cons c w)
  have "startswith (c # w) p" if "startswith ((c # w) @ CHR '']'' # r) p"
  proof -
    from that obtain q where q: "(c # w) @ CHR '']'' # r = p @ q" by (auto simp: startswith_iff)
    have "length p \<le> length (c # w)"
    proof (rule ccontr)
      assume long: "\<not> length p \<le> length (c # w)"
      then have "p ! length (c # w) = (p @ q) ! length (c # w)" by (simp add: nth_append)
      also have "\<dots> = CHR '']''" unfolding q [symmetric] by (simp add: nth_append)
      finally show False using assms(2) long by (metis linorder_not_le nth_mem)
    qed
    then have "take (length p) ((c # w) @ CHR '']'' # r) = take (length p) (c # w)"
      by (simp only: take_append) simp
    with that show ?thesis unfolding startswith_def by argo
  qed
  with Cons show ?case by auto
qed

lemma contains_after_marker:
  assumes "contains_text p (SCRUB_MARKER @ r)" and "scrub_safe p"
  shows "contains_text p r"
proof -
  have "contains_text p (''REDACTED'' @ CHR '']'' # r)"
    using assms by (cases p) (auto simp: SCRUB_MARKER_def scrub_safe_def startswith_Cons)
  then show ?thesis using contains_before_close [of p "''REDACTED''" r] assms(2) by (auto simp: scrub_safe_def)
qed

lemma replace_all_contains:
  assumes "contains_text p (replace_all old SCRUB_MARKER t)" and "scrub_safe p"
  shows "contains_text p t"
  using assms
proof (induction old SCRUB_MARKER t rule: replace_all.induct)
  case (2 old c s)
  show ?case
  proof (cases "old \<noteq> [] \<and> startswith (c # s) old")
    case True
    then have "contains_text p (replace_all old SCRUB_MARKER (drop (length old) (c # s)))"
      using "2.prems" contains_after_marker by simp
    then have "contains_text p (drop (length old) (c # s))" using True "2.hyps"(1) "2.prems"(2) by blast
    then show ?thesis using contains_text_append [of p "drop (length old) (c # s)" "take (length old) (c # s)"] by simp
  next
    case False
    then consider "startswith (c # replace_all old SCRUB_MARKER s) p" | "contains_text p (replace_all old SCRUB_MARKER s)"
      using "2.prems"(1) by (auto split: if_splits)
    then show ?thesis
    proof cases
      case 1
      then obtain q where "p = c # q" "startswith (replace_all old SCRUB_MARKER s) q"
        using "2.prems"(2) by (cases p) (auto simp: scrub_safe_def startswith_Cons)
      then show ?thesis
        using replace_all_prefix [of old "''REDACTED]''" s q] "2.prems"(2)
        by (auto simp: SCRUB_MARKER_def scrub_safe_def startswith_Cons)
    next
      case 2
      then show ?thesis using False "2.hyps"(2) "2.prems"(2) by auto
    qed
  qed
qed simp

lemma replace_all_removes:
  assumes "scrub_safe old"
  shows "\<not> contains_text old (replace_all old SCRUB_MARKER t)"
  using assms
proof (induction old SCRUB_MARKER t rule: replace_all.induct)
  case (1 old)
  then show ?case by (simp add: scrub_safe_def)
next
  case (2 old c s)
  show ?case
  proof (cases "startswith (c # s) old")
    case True
    then have "\<not> contains_text old (replace_all old SCRUB_MARKER (drop (length old) (c # s)))"
      using "2.hyps"(1) "2.prems" by (auto simp: scrub_safe_def)
    then show ?thesis using True "2.prems" contains_after_marker by (auto simp: scrub_safe_def)
  next
    case False
    have "\<not> startswith (c # replace_all old SCRUB_MARKER s) old"
    proof
      assume "startswith (c # replace_all old SCRUB_MARKER s) old"
      then obtain q where "old = c # q" "startswith (replace_all old SCRUB_MARKER s) q"
        using "2.prems" by (cases old) (auto simp: scrub_safe_def startswith_Cons)
      then have "startswith (c # s) old"
        using replace_all_prefix [of old "''REDACTED]''" s q] "2.prems"
        by (auto simp: SCRUB_MARKER_def scrub_safe_def startswith_Cons)
      with False show False ..
    qed
    then show ?thesis using False "2.hyps"(2) "2.prems" by auto
  qed
qed

lemma scrub_text_keeps:
  "contains_text p (scrub_text secrets t) \<Longrightarrow> scrub_safe p \<Longrightarrow> contains_text p t"
  unfolding scrub_text_def
  by (induction secrets arbitrary: t) (fastforce dest: replace_all_contains split: if_splits)+

text \<open>
  No resolved secret leaves the runner in an error or a result (\<open>scrub_secrets\<close> of service.py): in the JSON text that is
  sent, no secret of the job occurs in its JSON form, for every secret that has no square bracket and is no part
  of the marker's word. Scrubbing for the other secrets does not bring one back.\<close>

theorem scrub_removes_secrets:
  assumes "secret \<in> set secrets" and "scrub_safe (escaped_secret secret)"
  shows "\<not> contains_text (escaped_secret secret) (scrub_text secrets t)"
  using assms(1)
proof (induction secrets arbitrary: t)
  case (Cons x xs)
  have step: "scrub_text (x # xs) t = scrub_text xs (if x \<noteq> [] then replace_all (escaped_secret x) SCRUB_MARKER t else t)"
    by (simp add: scrub_text_def)
  show ?case
  proof (cases "secret \<in> set xs")
    case True
    then show ?thesis unfolding step by (rule Cons.IH)
  next
    case False
    then have "x = secret" using Cons.prems by simp
    moreover have "secret \<noteq> []" using assms(2) by (auto simp: scrub_safe_def escaped_secret_def)
    ultimately show ?thesis
      unfolding step using replace_all_removes [OF assms(2), of t] scrub_text_keeps assms(2) by auto
  qed
qed simp

theorem scrub_removes_secrets_witness:
  "\<not> contains_text (escaped_secret ''hunter2'') (scrub_text [''hunter2'', ''r''] (dumps (JStr ''pw hunter2!'')))"
  by (rule scrub_removes_secrets)
     (simp_all add: scrub_safe_def escaped_secret_def esc_ascii_def esc_char_def code_def startswith_def)

text \<open>A secret that is part of the JSON around it breaks the text: nothing is left to parse.\<close>

lemma scrub_breaks_json:
  "scrub_text [''e''] (dumps (JObj [(''retryable'', JBool True)])) = ''{'' @ [CHR 0x22] @ ''r[REDACTED]tryabl[REDACTED]'' @ [CHR 0x22] @ '': tru[REDACTED]}''"
  by code_simp

end
