(* ===== verification/Sdk_Safety.thy ===== *)
theory Sdk_Safety
  imports Sdk_Service
begin

text \<open>
  What the runner daemon guarantees: the execution gate, the process environment around a job, the supervision of a
  running job, its terminal calls, and the main loop. The definitions are those of \<open>Sdk_Service\<close>.
\<close>

section \<open>The execution gate\<close>

lemma dict_has_set [simp]: "dict_has (dict_set k v d) n \<longleftrightarrow> n = k \<or> dict_has d n"
  by (auto simp: dict_has_def update_conv)

definition entry_passed :: "service \<Rightarrow> string \<Rightarrow> (string, json) dict \<Rightarrow> bool" where
  "entry_passed sv name kvs \<longleftrightarrow>
     (\<exists>h executor config ho ij facts. map_of (sv_connectors sv) name = Some h \<and> h_query h = Some executor
        \<and> or_else (member kvs ''config'') (JObj []) = JObj config
        \<and> inject_credentials sv (JObj [(''credentials'', or_else (member kvs ''credentials'') (JList []))]) config ho = (None, ij)
        \<and> qx_preflight (executor (ho_environ (ij_host ij))) (JObj (ij_config ij)) = Inr facts)"

lemma preflight_hosted_refuses:
  assumes "preflight_hosted sv h name credentials config (refused, ho) = (refused', ho')"
  shows "(dict_has refused n \<longrightarrow> dict_has refused' n)
    \<and> (\<not> dict_has refused' name \<longrightarrow> (\<exists>executor ij facts. h_query h = Some executor
        \<and> inject_credentials sv (JObj [(''credentials'', or_else credentials (JList []))]) config ho = (None, ij)
        \<and> qx_preflight (executor (ho_environ (ij_host ij))) (JObj (ij_config ij)) = Inr facts))"
  using assms by (auto simp: preflight_hosted_def Let_def split: option.splits sum.splits prod.splits)

lemma preflight_entry_refuses:
  assumes "preflight_entry sv (refused, ho) entry = Inr (refused', ho')"
  shows "dict_has refused n \<Longrightarrow> dict_has refused' n"
    and "entry = JObj kvs \<Longrightarrow> member kvs ''connector'' = JStr name \<Longrightarrow> \<not> dict_has refused' name \<Longrightarrow> entry_passed sv name kvs"
proof -
  show "dict_has refused' n" if "dict_has refused n"
    using assms that preflight_hosted_refuses
    by (auto simp: preflight_entry_def split: json.splits option.splits)
  show "entry_passed sv name kvs"
    if given: "entry = JObj kvs" "member kvs ''connector'' = JStr name" "\<not> dict_has refused' name"
  proof -
    obtain config h where c: "or_else (member kvs ''config'') (JObj []) = JObj config"
      and h: "map_of (sv_connectors sv) name = Some h"
      and p: "preflight_hosted sv h name (member kvs ''credentials'') config (refused, ho) = (refused', ho')"
      using assms given by (auto simp: preflight_entry_def split: json.splits option.splits)
    from preflight_hosted_refuses [OF p] given(3) c h show ?thesis unfolding entry_passed_def by blast
  qed
qed

lemma preflight_fold_refuses:
  assumes "res_fold (preflight_entry sv) (refused, ho) entries = Inr (refused', ho')" and "\<not> dict_has refused' name"
  shows "\<not> dict_has refused name \<and>
    (\<forall>kvs. JObj kvs \<in> set entries \<longrightarrow> member kvs ''connector'' = JStr name \<longrightarrow> entry_passed sv name kvs)"
  using assms
proof (induction entries arbitrary: refused ho)
  case (Cons entry entries)
  obtain refused1 ho1 where e: "preflight_entry sv (refused, ho) entry = Inr (refused1, ho1)"
    and r: "res_fold (preflight_entry sv) (refused1, ho1) entries = Inr (refused', ho')"
    using Cons.prems(1) by (auto simp: res_bind_Inr_iff)
  from Cons.IH [OF r Cons.prems(2)] preflight_entry_refuses [OF e] show ?case by auto
qed simp

lemma declared_execute_not_refused:
  assumes "''execute'' \<in> set (declared_types sv mf)"
  shows "\<not> dict_has (sv_refused sv) (mf_name mf)"
  using assms by (auto simp: declared_types_def Let_def PROBE_TYPE_def split: if_splits)

text \<open>
  Execution is offered only behind a passed preflight (\<open>preflight_execution\<close> and \<open>declared_connectors\<close> of service.py): after the
  start of the runner, if the job type \<open>execute\<close> is declared for a connector, then every preflight entry that names the
  connector passed: the connector is hosted, it has an executor, its credentials resolved and its executor's
  preflight raised nothing. A failure is never open.\<close>

theorem execute_declared_only_after_preflight:
  assumes "preflight_execution sv ho = Inr (sv', ho')"
    and "list_of (rc_execution_preflight (sv_config sv)) = Some entries"
    and "(name, version, types) \<in> set (declared_connectors sv')" and "''execute'' \<in> set types"
    and "JObj kvs \<in> set entries" and "member kvs ''connector'' = JStr name"
  shows "entry_passed sv name kvs"
proof -
  obtain refused where r: "res_fold (preflight_entry sv) ([], ho) entries = Inr (refused, ho')"
    and sv': "sv' = sv\<lparr>sv_refused := refused\<rparr>"
    using assms(1,2) by (auto simp: preflight_execution_def res_bind_Inr_iff)
  have "\<not> dict_has refused name"
    using assms(3,4) declared_execute_not_refused [of sv'] sv' by (auto simp: declared_connectors_def)
  from preflight_fold_refuses [OF r this] assms(5,6) show ?thesis by blast
qed

section \<open>The supervision\<close>

inductive_cases sup_stepE: "sup_step box s s'"

definition sup_inv :: "job_outcome option \<Rightarrow> supervision \<Rightarrow> bool" where
  "sup_inv box s \<longleftrightarrow> \<not> (su_lost s \<and> su_cancelled s)
     \<and> (su_beat s \<noteq> Ended \<longrightarrow> \<not> su_lost s \<and> \<not> su_cancelled s)
     \<and> (su_work s = None \<or> su_work s = Some box)
     \<and> (case su_decision s of
          None \<Rightarrow> True
        | Some Abandon \<Rightarrow> su_lost s
        | Some (StopCancelled t) \<Rightarrow> su_cancelled s
        | Some (DeliverOutcome t b) \<Rightarrow> b = box \<and> su_work s = Some box)"

lemma sup_inv_start: "sup_inv box (sup_start token)"
  by (simp add: sup_inv_def sup_start_def)

lemma apply_beat_inv: "su_beat s = Beating \<Longrightarrow> sup_inv box s \<Longrightarrow> sup_inv box (apply_beat a s)"
  by (auto simp: sup_inv_def apply_beat_def split: sum.splits wire_error.splits option.splits decision.splits if_splits)

lemma sup_inv_step: "sup_step box s s' \<Longrightarrow> sup_inv box s \<Longrightarrow> sup_inv box s'"
proof (induction rule: sup_step.induct)
  case (beat s a)
  then show ?case by (simp add: apply_beat_inv)
next
  case (work s)
  then show ?case by (auto simp: sup_inv_def split: option.splits decision.splits)
qed (auto simp: sup_inv_def split: option.splits decision.splits)

lemma sup_inv_steps: "sup_steps box s s' \<Longrightarrow> sup_inv box s \<Longrightarrow> sup_inv box s'"
  by (induction rule: rtranclp_induct) (auto intro: sup_inv_step)

lemma apply_beat_decision [simp]: "su_decision (apply_beat a s) = su_decision s"
  by (simp add: apply_beat_def split: sum.splits wire_error.splits)

lemma decision_stable: "sup_step box s s' \<Longrightarrow> su_decision s = Some d \<Longrightarrow> su_decision s' = Some d"
  by (induction rule: sup_step.induct) auto

lemma decision_enabled:
  assumes "su_decision s = None" and "su_work s \<noteq> None \<or> su_lost s \<or> su_cancelled s"
  shows "\<exists>s'. sup_step box s s' \<and> su_decision s' \<noteq> None"
proof -
  consider "su_lost s" | "\<not> su_lost s" "su_cancelled s" | b where "\<not> su_lost s" "\<not> su_cancelled s" "su_work s = Some b"
    using assms(2) by auto
  then show ?thesis
  proof cases
    case 1
    then show ?thesis
      using sup_step.lost [OF assms(1), of box] by (intro exI [where x = "s\<lparr>su_decision := Some Abandon\<rparr>"]) simp
  next
    case 2
    then show ?thesis
      using sup_step.cancelled [OF assms(1), of box]
      by (intro exI [where x = "s\<lparr>su_decision := Some (StopCancelled (su_token s))\<rparr>"]) simp
  next
    case (3 b)
    then show ?thesis
      using sup_step.finished [OF assms(1), of b box]
      by (intro exI [where x = "s\<lparr>su_decision := Some (DeliverOutcome (su_token s) b)\<rparr>"]) simp
  qed
qed

text \<open>
  C34. A running job is supervised soundly under every interleaving of the main thread, the heartbeat thread and the worker
  (\<open>Runner.execute\<close> and \<open>_HeartbeatLoop\<close>): at every reachable state the lease is not both lost and cancelled; the work is abandoned
  only when the lease was lost, stopped only when a cancellation was requested, and delivered only when the worker has ended and with the
  worker's own outcome; a decision is final; and whenever the worker has ended, the lease is lost or a cancellation is flagged, the
  main thread can decide, whether the worker still runs or not.\<close>

theorem supervision_sound:
  assumes "sup_steps box (sup_start token) s"
  shows "sup_inv box s
    \<and> (su_decision s = None \<and> (su_work s \<noteq> None \<or> su_lost s \<or> su_cancelled s)
         \<longrightarrow> (\<exists>s'. sup_step box s s' \<and> su_decision s' \<noteq> None))
    \<and> (\<forall>s' d. sup_step box s s' \<longrightarrow> su_decision s = Some d \<longrightarrow> su_decision s' = Some d)"
  using sup_inv_steps [OF assms sup_inv_start] decision_enabled [of s box] decision_stable [of box s] by blast

text \<open>The example: a beat that rotates the token and asks for cancellation while the worker runs.\<close>

definition ex_cancelled :: supervision where
  "ex_cancelled = (sup_start ''t0'')\<lparr>su_token := ''t1'', su_beat := Ended, su_cancelled := True\<rparr>"

lemma ex_cancelled_reachable: "sup_steps box (sup_start ''t0'') ex_cancelled"
proof -
  let ?a = "Inr [(''lease'', JObj [(''token'', JStr ''t1'')]), (''cancel_requested'', JBool True)] :: answer"
  have "sup_step box (sup_start ''t0'') (apply_beat ?a (sup_start ''t0''))"
    by (rule sup_step.beat) (simp add: sup_start_def)
  moreover have "sup_step box (apply_beat ?a (sup_start ''t0'')) ex_cancelled"
    using sup_step.flag [of "apply_beat ?a (sup_start ''t0'')" box]
    by (simp add: apply_beat_def sup_start_def ex_cancelled_def member_def dict_or_none_def beat_token_def)
  ultimately show ?thesis by (meson converse_rtranclp_into_rtranclp r_into_rtranclp)
qed

theorem supervision_sound_witness:
  "sup_inv None ex_cancelled \<and> su_cancelled ex_cancelled \<and> su_work ex_cancelled = None
    \<and> (\<exists>s'. sup_step None ex_cancelled s' \<and> su_decision s' \<noteq> None)"
  using supervision_sound [OF ex_cancelled_reachable [of None]] by (simp add: ex_cancelled_def sup_start_def)

section \<open>The process environment\<close>

text \<open>What an injection adds: one variable per credential that resolved, each under the runner's prefix.\<close>

definition injects :: "injection \<Rightarrow> injection \<Rightarrow> bool" where
  "injects ij ij' \<longleftrightarrow> (\<exists>names values. ij_names ij' = ij_names ij @ names \<and> ij_secrets ij' = ij_secrets ij @ values
     \<and> length names = length values \<and> list_all (\<lambda>n. startswith n ''CL_CRED_'') names
     \<and> map_of (ho_environ (ij_host ij')) = map_of (ho_environ (ij_host ij)) ++ map_of (rev (zip names values)))"

lemma injects_refl: "ij_names ij' = ij_names ij \<Longrightarrow> ij_secrets ij' = ij_secrets ij
    \<Longrightarrow> ho_environ (ij_host ij') = ho_environ (ij_host ij) \<Longrightarrow> injects ij ij'"
  unfolding injects_def by (rule exI [where x = "[]"], rule exI [where x = "[]"]) simp

lemma injects_trans:
  assumes "injects a b" and "injects b c"
  shows "injects a c"
proof -
  obtain n1 v1 where 1: "ij_names b = ij_names a @ n1" "ij_secrets b = ij_secrets a @ v1" "length n1 = length v1"
      "list_all (\<lambda>n. startswith n ''CL_CRED_'') n1"
      "map_of (ho_environ (ij_host b)) = map_of (ho_environ (ij_host a)) ++ map_of (rev (zip n1 v1))"
    using assms(1) unfolding injects_def by blast
  obtain n2 v2 where 2: "ij_names c = ij_names b @ n2" "ij_secrets c = ij_secrets b @ v2" "length n2 = length v2"
      "list_all (\<lambda>n. startswith n ''CL_CRED_'') n2"
      "map_of (ho_environ (ij_host c)) = map_of (ho_environ (ij_host b)) ++ map_of (rev (zip n2 v2))"
    using assms(2) unfolding injects_def by blast
  have "map_of (rev (zip (n1 @ n2) (v1 @ v2))) = map_of (rev (zip n1 v1)) ++ map_of (rev (zip n2 v2))"
    using 1(3) by (simp add: zip_append map_of_append)
  then show ?thesis
    unfolding injects_def using 1 2 by (intro exI [where x = "n1 @ n2"] exI [where x = "v1 @ v2"]) (simp add: map_add_assoc)
qed

lemma inject_one_injects: "inject_one sv entry ij = (e, ij') \<Longrightarrow> injects ij ij'"
proof (cases "\<exists>var value config ho. ij' = \<lparr>ij_names = ij_names ij @ [''CL_CRED_'' @ var], ij_secrets = ij_secrets ij @ [value],
    ij_config = config, ij_host = ho\<lparr>ho_environ := dict_set (''CL_CRED_'' @ var) value (ho_environ (ij_host ij))\<rparr>\<rparr>")
  case True
  then obtain var "value" config ho where ij': "ij' = \<lparr>ij_names = ij_names ij @ [''CL_CRED_'' @ var], ij_secrets = ij_secrets ij @ [value],
    ij_config = config, ij_host = ho\<lparr>ho_environ := dict_set (''CL_CRED_'' @ var) value (ho_environ (ij_host ij))\<rparr>\<rparr>" by blast
  show ?thesis
    unfolding injects_def
    by (rule exI [where x = "[''CL_CRED_'' @ var]"], rule exI [where x = "[value]"])
       (simp add: ij' update_conv startswith_def map_add_def fun_eq_iff)
next
  case False
  assume "inject_one sv entry ij = (e, ij')"
  with False show ?thesis
    by (auto simp: inject_one_def Let_def split: json.splits sum.splits prod.splits if_splits intro!: injects_refl)
qed

lemma inject_all_injects: "inject_all sv entries ij = (e, ij') \<Longrightarrow> injects ij ij'"
proof (induction entries arbitrary: ij)
  case Nil
  then show ?case by (simp add: injects_refl)
next
  case (Cons entry entries)
  obtain e1 ij1 where one: "inject_one sv entry ij = (e1, ij1)" by (cases "inject_one sv entry ij")
  show ?case
  proof (cases e1)
    case None
    then show ?thesis using Cons one inject_one_injects [OF one] injects_trans by fastforce
  next
    case (Some x)
    then show ?thesis using Cons.prems one inject_one_injects [OF one] by simp
  qed
qed

lemma inject_credentials_injects:
  assumes "inject_credentials sv payload config ho = (e, ij)"
  shows "injects \<lparr>ij_names = [], ij_secrets = [], ij_config = config, ij_host = ho\<rparr> ij"
  using assms by (auto simp: inject_credentials_def Let_def intro: inject_all_injects injects_refl split: json.splits option.splits)

lemma injected_environ:
  assumes "inject_credentials sv payload config ho = (e, ij)"
  shows "map_of (ho_environ (ij_host ij)) = map_of (ho_environ ho) ++ map_of (rev (zip (ij_names ij) (ij_secrets ij)))"
    and "length (ij_names ij) = length (ij_secrets ij)" and "list_all (\<lambda>n. startswith n ''CL_CRED_'') (ij_names ij)"
  using inject_credentials_injects [OF assms] by (auto simp: injects_def)

lemma map_of_pop_all: "map_of (ho_environ (pop_all names ho)) = (map_of (ho_environ ho)) |` (- set names)"
proof -
  have "map_of (fold dict_pop names env) = map_of env |` (- set names)" for env :: environ
  proof (induction names arbitrary: env)
    case (Cons n ns)
    then show ?case by (auto simp: delete_conv restrict_map_def fun_eq_iff)
  qed (simp add: restrict_map_def)
  then show ?thesis by (simp add: pop_all_def)
qed

definition no_runner_vars :: "host \<Rightarrow> bool" where
  "no_runner_vars ho \<longleftrightarrow> list_all (\<lambda>k. \<not> startswith k ''CL_CRED_'') (dict_keys (ho_environ ho))"

lemma injected_restored:
  assumes "inject_credentials sv payload config ho = (e, ij)" and "no_runner_vars ho"
  shows "map_of (ho_environ (pop_all (ij_names ij) (ij_host ij))) = map_of (ho_environ ho)"
proof
  fix n
  show "map_of (ho_environ (pop_all (ij_names ij) (ij_host ij))) n = map_of (ho_environ ho) n"
  proof (cases "n \<in> set (ij_names ij)")
    case True
    then have "startswith n ''CL_CRED_''" using injected_environ(3) [OF assms(1)] by (auto simp: list_all_iff)
    then have "map_of (ho_environ ho) n = None"
      using assms(2) by (auto simp: no_runner_vars_def list_all_iff dict_keys_def map_of_eq_None_iff)
    with True show ?thesis by (simp add: map_of_pop_all restrict_map_def)
  next
    case False
    then have "map_of (rev (zip (ij_names ij) (ij_secrets ij))) n = None"
      by (auto simp: map_of_eq_None_iff dest: set_zip_leftD)
    with False show ?thesis
      by (simp add: map_of_pop_all restrict_map_def injected_environ(1) [OF assms(1)] map_add_def)
  qed
qed

text \<open>The injection of a job that is hosted, of a type the runner executes, and whose payload has a proper config\<close>

definition job_injection :: "service \<Rightarrow> job_record \<Rightarrow> host \<Rightarrow> (inject_fail option \<times> injection) option" where
  "job_injection sv jr ho =
     (if jr_type jr = ''execute'' \<and> Option.bind (jr_name jr) (dict_get (sv_refused sv)) \<noteq> None
         \<or> Option.bind (jr_name jr) (dict_get (sv_connectors sv)) = None \<or> jr_type jr \<notin> set EXECUTABLE_TYPES
      then None
      else case or_else (jr_payload jr) (JObj []) of
             JObj payload \<Rightarrow>
               (case or_else (member payload ''config'') (JObj []) of
                  JObj config \<Rightarrow> Some (inject_credentials sv (jr_payload jr) config ho)
                | _ \<Rightarrow> None)
           | _ \<Rightarrow> None)"

lemma execute_host:
  "snd (execute sv core jr d ho) =
     (case job_injection sv jr ho of None \<Rightarrow> ho | Some injected \<Rightarrow> pop_all (known_names injected) (ij_host (snd injected)))"
  by (auto simp: execute_def job_injection_def Let_def split: json.splits)

lemma job_injection_Some:
  assumes "job_injection sv jr ho = Some (e, ij)"
  obtains payload config where "inject_credentials sv payload config ho = (e, ij)"
  using assms by (auto simp: job_injection_def split: json.splits if_splits)

text \<open>
  C36. The process environment around a job (\<open>Runner.execute\<close>): if the environment has no variable of the runner, then
  after a job whose credentials were all injected, or which never came to the injection, it is as before, whatever the
  core answered, the supervision decided or escaped. If a credential fails, the variables of the credentials
  before it stay, with their secrets.\<close>

theorem execute_environ:
  assumes "no_runner_vars ho"
  shows "map_of (ho_environ (snd (execute sv core jr d ho))) =
    (case job_injection sv jr ho of
       Some (Some e, ij) \<Rightarrow> map_of (ho_environ ho) ++ map_of (rev (zip (ij_names ij) (ij_secrets ij)))
     | _ \<Rightarrow> map_of (ho_environ ho))"
proof (cases "job_injection sv jr ho")
  case None
  then show ?thesis by (simp add: execute_host)
next
  case (Some injected)
  obtain e ij where p: "injected = (e, ij)" by (cases injected)
  with Some obtain payload config where inj: "inject_credentials sv payload config ho = (e, ij)"
    using job_injection_Some by blast
  show ?thesis
  proof (cases e)
    case None
    then show ?thesis using Some p injected_restored [OF inj assms] by (simp add: execute_host known_names_def)
  next
    case (Some x)
    then show ?thesis
      using \<open>job_injection sv jr ho = Some injected\<close> p injected_environ(1) [OF inj]
      by (simp add: execute_host known_names_def pop_all_def)
  qed
qed

section \<open>Terminal calls\<close>

definition terminal :: "wire_call \<Rightarrow> bool" where
  "terminal c \<longleftrightarrow> (\<forall>t. c \<noteq> Start t)"

definition quiet :: "core \<Rightarrow> bool" where
  "quiet core \<longleftrightarrow> (\<forall>c. escaping (core c) = None)"

text \<open>A trace that ends with at most one call, which is terminal, and escapes only without one\<close>

definition single :: "trace \<Rightarrow> bool" where
  "single tr \<longleftrightarrow> length (fst tr) \<le> 1 \<and> list_all terminal (fst tr) \<and> (fst tr \<noteq> [] \<longrightarrow> snd tr = None)"

lemma scrubbed_call_single:
  "quiet core \<Longrightarrow> (\<And>v. terminal (mk v)) \<Longrightarrow> single (scrubbed_call core scrubbed mk)"
  by (auto simp: scrubbed_call_def single_def quiet_def split: option.splits)

lemma fail_job_single: "quiet core \<Longrightarrow> single (fail_job sv core t e secrets)"
  unfolding fail_job_def by (rule scrubbed_call_single) (simp_all add: terminal_def)

lemma deliver_outcome_single: "quiet core \<Longrightarrow> single (deliver_outcome sv core t box secrets)"
  by (auto simp: deliver_outcome_def Let_def terminal_def intro!: fail_job_single scrubbed_call_single split: option.splits)

lemma conclude_single: "quiet core \<Longrightarrow> single (conclude sv core secrets d)"
  by (auto simp: conclude_def fail_job_single deliver_outcome_single split: decision.splits) (simp add: single_def)

definition started_single :: "string \<Rightarrow> trace \<Rightarrow> bool" where
  "started_single t tr \<longleftrightarrow> (\<exists>calls. (fst tr = calls \<or> fst tr = Start t # calls) \<and> single (calls, snd tr))"

lemma started_singleI: "single tr \<Longrightarrow> started_single t tr"
  by (auto simp: started_single_def)

lemma after_start_single:
  assumes "\<And>r. single (k r)"
  shows "started_single t (after_start sv core t a k)"
proof (cases a)
  case (Inl e)
  then show ?thesis
    by (cases e) (auto simp: after_start_def started_single_def single_def)
next
  case (Inr r)
  then show ?thesis
    using assms [of r] by (auto simp: after_start_def started_single_def Let_def split: prod.splits)
qed

lemma execute_body_single: "quiet core \<Longrightarrow> started_single (jr_token jr) (execute_body sv core jr injected d)"
  unfolding execute_body_def Let_def
  by (auto intro!: after_start_single fail_job_single conclude_single split: prod.splits option.splits inject_fail.splits)
     (simp add: started_single_def single_def)

lemma isolate_single:
  assumes "quiet core" and "started_single t tr"
  shows "started_single t (isolate sv core t secrets tr)"
proof (cases "snd tr")
  case None
  then show ?thesis using assms(2) by (simp add: isolate_def)
next
  case (Some e)
  then have calls: "fst tr = [] \<or> fst tr = [Start t]"
    using assms(2) by (auto simp: started_single_def single_def)
  obtain err where iso: "isolate sv core t secrets tr =
      (fst tr @ fst (fail_job sv core t err secrets), snd (fail_job sv core t err secrets))"
    by (simp add: isolate_def Some Let_def case_prod_beta del: append_Cons)
  have "single (fail_job sv core t err secrets)" by (rule fail_job_single [OF assms(1)])
  with calls show ?thesis unfolding iso started_single_def by (intro exI [where x = "fst (fail_job sv core t err secrets)"]) auto
qed

lemma started_single_calls:
  "started_single t tr \<Longrightarrow> length (filter terminal (fst tr)) \<le> 1"
  by (auto simp: started_single_def single_def terminal_def intro: le_trans [OF length_filter_le])

lemma execute_single:
  assumes "quiet core"
  shows "started_single (jr_token jr) (fst (execute sv core jr d ho))"
proof -
  have fail: "started_single t (fail_job sv core t e secrets)" for t e secrets
    by (rule started_singleI [OF fail_job_single [OF assms]])
  have body: "started_single (jr_token jr) (isolate sv core (jr_token jr) secrets (execute_body sv core jr injected d))"
    for secrets injected
    by (rule isolate_single [OF assms execute_body_single [OF assms]])
  have none: "started_single t ([], x)" for t x by (simp add: started_single_def single_def)
  show ?thesis
    by (simp add: execute_def Let_def fail body none del: append_Cons split: json.split)
qed

text \<open>What a job delivers is its own worker's outcome.\<close>

lemma decides_own_outcome: "decides box token (DeliverOutcome t b) \<Longrightarrow> b = box"
  using sup_inv_steps [OF _ sup_inv_start] by (fastforce simp: decides_def sup_inv_def)

lemma job_delivers_own_outcome:
  assumes "possible_decision sv jr ho (DeliverOutcome t b)"
  shows "\<exists>h payload env config. b = worker_box sv env h (job_of jr payload config)"
  using assms decides_own_outcome by (fastforce simp: possible_decision_def Let_def split: option.splits json.splits)

text \<open>
  C37. A job gets at most one terminal call (\<open>Runner.execute\<close>): when no answer of the core raises an exception outside the
  protocol's, the handling of a job makes at most one of the calls complete, fail and defer, whatever the job, the
  outcome of the supervision and the scrubbed texts are, preceded by at most the start call.\<close>

theorem execute_one_terminal_call:
  assumes "quiet core"
  shows "length (filter terminal (fst (fst (execute sv core jr d ho)))) \<le> 1
    \<and> length (fst (fst (execute sv core jr d ho))) \<le> 2"
proof
  show "length (filter terminal (fst (fst (execute sv core jr d ho)))) \<le> 1"
    by (rule started_single_calls [OF execute_single [OF assms]])
  show "length (fst (fst (execute sv core jr d ho))) \<le> 2"
    using execute_single [OF assms, of jr sv d ho] by (auto simp: started_single_def single_def)
qed

section \<open>The main loop\<close>

definition job_limit :: "bool \<Rightarrow> nat option \<Rightarrow> nat option" where
  "job_limit once max_jobs = (if once then Some 1 else map_option (max 1) max_jobs)"

definition claimed_jobs :: "turn list \<Rightarrow> nat" where
  "claimed_jobs turns = length (filter (\<lambda>t. \<exists>jr. tn_claim t = Inr (Some jr)) turns)"

text \<open>An error of the protocol ends a claim only; another exception ends the loop. The turns before the first such claim, and how
  the loop stands after the turns when no limit has ended it\<close>

definition fatal_claim :: "turn \<Rightarrow> string option" where
  "fatal_claim t = (case tn_claim t of Inl (Escaped e) \<Rightarrow> Some e | _ \<Rightarrow> None)"

definition quiet_turns :: "turn list \<Rightarrow> turn list" where
  "quiet_turns turns = takeWhile (\<lambda>t. fatal_claim t = None) turns"

definition standing :: "turn list \<Rightarrow> loop_end" where
  "standing turns =
     (case List.map_filter fatal_claim turns of [] \<Rightarrow> Looping | e # _ \<Rightarrow> Died e)"

text \<open>How many jobs were handled and how the loop stands, for a limit, the jobs executed before and the jobs claimed\<close>

definition served :: "nat option \<Rightarrow> nat \<Rightarrow> nat \<Rightarrow> loop_end \<Rightarrow> nat \<Rightarrow> loop_end \<Rightarrow> bool" where
  "served limit executed claimed stands handled e =
     (case limit of
        None \<Rightarrow> e = stands \<and> handled = claimed
      | Some n \<Rightarrow> if n \<le> executed + claimed then e = Finished n \<and> handled = n - executed
                  else e = stands \<and> handled = claimed)"

lemma fatal_claim_cases:
  obtains (fatal) e where "tn_claim t = Inl (Escaped e)" "fatal_claim t = Some e"
    | (job) jr where "tn_claim t = Inr (Some jr)" "fatal_claim t = None"
    | (idle) "fatal_claim t = None" "\<not> (\<exists>jr. tn_claim t = Inr (Some jr))"
proof (cases "fatal_claim t")
  case (Some e)
  then have "tn_claim t = Inl (Escaped e)" by (auto simp: fatal_claim_def split: sum.splits wire_error.splits)
  then show thesis using Some by (rule fatal)
next
  case None
  then show thesis using job idle by blast
qed

lemma standing_simps [simp]:
  "standing [] = Looping"
  "fatal_claim t = Some e \<Longrightarrow> standing (t # ts) = Died e"
  "fatal_claim t = None \<Longrightarrow> standing (t # ts) = standing ts"
  by (simp_all add: standing_def List.map_filter_def)

lemma quiet_turns_simps [simp]:
  "quiet_turns [] = []"
  "fatal_claim t = Some e \<Longrightarrow> quiet_turns (t # ts) = []"
  "fatal_claim t = None \<Longrightarrow> quiet_turns (t # ts) = t # quiet_turns ts"
  by (simp_all add: quiet_turns_def)

lemma run_turns_count:
  assumes "\<And>n. job_limit once max_jobs = Some n \<Longrightarrow> executed < n"
  shows "\<exists>traces e ho'. run_turns sv once max_jobs executed ho turns = (traces, e, ho')
    \<and> served (job_limit once max_jobs) executed (claimed_jobs (quiet_turns turns)) (standing turns) (length traces) e"
  using assms
proof (induction turns arbitrary: executed ho)
  case Nil
  then show ?case by (auto simp: claimed_jobs_def served_def split: option.splits)
next
  case (Cons t ts)
  show ?case
  proof (cases t rule: fatal_claim_cases)
    case (fatal e)
    then show ?thesis using Cons.prems by (auto simp: claimed_jobs_def served_def split: option.splits)
  next
    case idle
    then have "claimed_jobs (t # quiet_turns ts) = claimed_jobs (quiet_turns ts)"
      and "run_turns sv once max_jobs executed ho (t # ts) = run_turns sv once max_jobs executed ho ts"
      by (auto simp: claimed_jobs_def fatal_claim_def split: sum.splits option.splits wire_error.splits)
    then show ?thesis using Cons.IH [OF Cons.prems, of ho] idle(1) by (simp del: run_turns.simps)
  next
    case (job jr)
    obtain tr ho1 where ex: "execute sv (tn_core t) jr (tn_decision t) ho = (tr, ho1)" by fastforce
    have jobs: "claimed_jobs (quiet_turns (t # ts)) = Suc (claimed_jobs (quiet_turns ts))" using job by (simp add: claimed_jobs_def)
    define stop where "stop \<longleftrightarrow> once \<or> (case max_jobs of None \<Rightarrow> False | Some n \<Rightarrow> n \<le> Suc executed)"
    have stop_iff: "stop \<longleftrightarrow> job_limit once max_jobs = Some (Suc executed)"
      using Cons.prems by (auto simp: stop_def job_limit_def max_def split: option.splits if_splits)
    show ?thesis
    proof (cases stop)
      case True
      then show ?thesis using job(1) ex jobs stop_iff by (simp add: stop_def [symmetric] served_def)
    next
      case no: False
      have more: "Suc executed < n" if "job_limit once max_jobs = Some n" for n
        using Cons.prems [OF that] no stop_iff that by (metis Suc_lessI)
      from Cons.IH [OF more, of ho1] obtain traces e ho' where
        "run_turns sv once max_jobs (Suc executed) ho1 ts = (traces, e, ho')"
        "served (job_limit once max_jobs) (Suc executed) (claimed_jobs (quiet_turns ts)) (standing ts) (length traces) e" by blast
      then show ?thesis
        using job ex jobs no more by (auto simp: stop_def [symmetric] served_def Suc_diff_Suc split: option.splits if_splits)
    qed
  qed
qed

text \<open>
  C40. The runner serves on (\<open>run_forever\<close> of service.py, after its preflight, for job records of the protocol's shape): claims that
  fail with an error of the protocol, empty claims and jobs whose handling raises do not end it. Up to the first claim that raises
  anything else, it handles every job it claims and keeps looping without a limit; with \<open>once\<close> or a maximum it returns exactly when
  that many jobs were handled, and reports their number. If neither limit is reached first, such a claim ends it with its exception.\<close>

theorem run_turns_serves:
  "\<exists>traces e ho'. run_turns sv once max_jobs 0 ho turns = (traces, e, ho')
    \<and> served (job_limit once max_jobs) 0 (claimed_jobs (quiet_turns turns)) (standing turns) (length traces) e"
  by (rule run_turns_count) (auto simp: job_limit_def split: if_splits)

section \<open>The configured resolver\<close>

text \<open>What a resolved reference tells: its scheme is one the configuration allows, and its value is not empty. With
  \<open>allow_env: false\<close> a plaintext reference does not resolve.\<close>

lemma make_resolver_policy:
  assumes "make_resolver cfg w env_file = Inr res" and "fst (res env ref s) = Inr v"
  shows "v \<noteq> [] \<and> (if rc_resolver_kind cfg = ''vault''
      then startswith ref VAULT_SCHEME \<or> rc_resolver_allow_env cfg \<and> startswith ref ENV_SCHEME
      else startswith ref ENV_SCHEME)"
proof (cases "rc_resolver_kind cfg = ''vault''")
  case True
  let ?rest = "if rc_resolver_allow_env cfg then [(ENV_SCHEME, env_backend env)] else []"
  from True assms(1) have res: "res = (\<lambda>env. router_resolve ([(VAULT_SCHEME, vault_resolve w)]
      @ (if rc_resolver_allow_env cfg then [(ENV_SCHEME, env_backend env)] else [])))"
    unfolding make_resolver_def by simp
  from assms(2) have "fst (router_resolve ((VAULT_SCHEME, vault_resolve w) # ?rest) ref s) = Inr v"
    unfolding res by (simp only: append.simps)
  from vault.routed [OF this] consider "startswith ref VAULT_SCHEME" "v \<noteq> []" | "fst (router_resolve ?rest ref s) = Inr v"
    by blast
  then show ?thesis
  proof cases
    case 2
    then have "rc_resolver_allow_env cfg" "fst (router_resolve [(ENV_SCHEME, env_backend env)] ref s) = Inr v"
      by (auto split: if_splits)
    with env.routed [OF this(2)] True show ?thesis by auto
  qed (use True in auto)
next
  case False
  then obtain mapping where "fst (env_backend mapping ref s) = Inr v"
    using assms by (auto simp: make_resolver_def split: if_splits sum.splits)
  then show ?thesis using False env.resolve_scheme env.resolve_nonempty by auto
qed

section \<open>An example runner\<close>

text \<open>A runner with the process environment as resolver and one connector with an executor; the second credential of
  the job is not set.\<close>

definition ex_config :: runner_config where
  "ex_config = \<lparr>rc_core_url = JStr ''http://core'', rc_token = JStr ''t'', rc_runner_id = JStr ''r1'', rc_connector_specs = [''m:c''],
     rc_classes = JList [JStr ''batch''], rc_resolver_kind = ''process-env'', rc_resolver_path = JNull,
     rc_resolver_allow_env = True,
     rc_execution_preflight = JList [JObj [(''connector'', JStr ''pg'')]]\<rparr>"

definition ex_hosted :: hosted where
  "ex_hosted = \<lparr>h_manifest = ex_manifest\<lparr>mf_capabilities := [(''query'', [])]\<rparr>, h_metadata = None,
     h_query = Some (\<lambda>env. \<lparr>qx_execute = (\<lambda>_ _ _ _. Inl (Classified (ConfigError ''no'' []))),
       qx_preflight = (\<lambda>_. Inr (JObj [(''role'', JStr ''ro'')]))\<rparr>), h_publish = None\<rparr>"

definition ex_service :: service where
  "ex_service = \<lparr>sv_config = ex_config, sv_connectors = [(''pg'', ex_hosted)], sv_resolve = env_backend, sv_refused = [],
     sv_engine = ex_engine, sv_uuid = (\<lambda>n. ''u'' @ show_nat n), sv_loads = (\<lambda>_. None), sv_fail_text = (\<lambda>_. [])\<rparr>"

definition ex_host :: host where
  "ex_host = \<lparr>ho_environ = [(''PG'', ''s3cret'')], ho_vault = ex_stale, ho_uuids = 0\<rparr>"

definition ex_record :: job_record where
  "ex_record = \<lparr>jr_id = ''j1'', jr_token = ''t0'', jr_name = Some ''pg'', jr_type = ''execute'',
     jr_payload = JObj [(''credentials'', JList [JObj [(''ref'', JStr ''env://PG''), (''key'', JStr ''dsn'')],
       JObj [(''ref'', JStr ''env://GONE''), (''key'', JStr ''execute_dsn'')]])]\<rparr>"

lemma ex_no_runner_vars: "no_runner_vars ex_host"
  by (simp add: no_runner_vars_def ex_host_def dict_keys_def startswith_def)

theorem execute_environ_witness:
  "map_of (ho_environ (snd (execute ex_service (\<lambda>_. Inr []) ex_record Abandon ex_host))) =
    (case job_injection ex_service ex_record ex_host of
       Some (Some e, ij) \<Rightarrow> map_of (ho_environ ex_host) ++ map_of (rev (zip (ij_names ij) (ij_secrets ij)))
     | _ \<Rightarrow> map_of (ho_environ ex_host))"
  by (rule execute_environ [OF ex_no_runner_vars])

text \<open>The secret of the first credential stays in the process environment after the job, since the second one fails.\<close>

lemma char_of_facts:
  "char_of (48 :: nat) = CHR ''0''" "char_of (68 :: nat) = CHR ''D''" "char_of (83 :: nat) = CHR ''S''"
  "char_of (78 :: nat) = CHR ''N''"
  by code_simp+

lemma failed_injection_leaks:
  "ho_environ (snd (execute ex_service (\<lambda>_. Inr []) ex_record Abandon ex_host))
     = [(''PG'', ''s3cret''), (''CL_CRED_u0_DSN'', ''s3cret'')]"
proof -
  have "inject_credentials ex_service (jr_payload ex_record) [] ex_host =
      (Some (VaultFail (NotSet ''env://GONE'' ''GONE'')),
       \<lparr>ij_names = [''CL_CRED_u0_DSN''], ij_secrets = [''s3cret''], ij_config = [(''dsn_env'', JStr ''CL_CRED_u0_DSN'')],
        ij_host = \<lparr>ho_environ = [(''PG'', ''s3cret''), (''CL_CRED_u0_DSN'', ''s3cret'')], ho_vault = ex_stale, ho_uuids = 1\<rparr>\<rparr>)"
    unfolding ex_service_def ex_record_def ex_host_def ex_stale_def ex_auth_def
    by (simp add: inject_credentials_def member_def or_else_def list_of_def inject_one_def config_key_of_def
        CREDENTIAL_CONFIG_KEYS_def env_backend_def env_resolve_def ENV_SCHEME_def startswith_def strip_by_def lstrip_by_def
        rstrip_by_def is_space_def code_def Let_def show_nat.simps digit_char_def to_upper_def is_lower_def less_eq_char_def
        char_of_facts)
  then have "job_injection ex_service ex_record ex_host = Some (Some (VaultFail (NotSet ''env://GONE'' ''GONE'')),
       \<lparr>ij_names = [''CL_CRED_u0_DSN''], ij_secrets = [''s3cret''], ij_config = [(''dsn_env'', JStr ''CL_CRED_u0_DSN'')],
        ij_host = \<lparr>ho_environ = [(''PG'', ''s3cret''), (''CL_CRED_u0_DSN'', ''s3cret'')], ho_vault = ex_stale, ho_uuids = 1\<rparr>\<rparr>)"
    by (simp add: job_injection_def ex_record_def ex_service_def EXECUTABLE_TYPES_def or_else_def member_def)
  then show ?thesis by (simp add: execute_host known_names_def pop_all_def)
qed

lemma ex_quiet: "quiet (\<lambda>_. Inr [])"
  by (simp add: quiet_def escaping_def)

theorem execute_one_terminal_call_witness:
  "length (filter terminal (fst (fst (execute ex_service (\<lambda>_. Inr []) ex_record Abandon ex_host)))) \<le> 1
    \<and> length (fst (fst (execute ex_service (\<lambda>_. Inr []) ex_record Abandon ex_host))) \<le> 2"
  by (rule execute_one_terminal_call [OF ex_quiet])

lemma inject_nothing:
  "inject_credentials sv (JObj [(''credentials'', or_else JNull (JList []))]) config ho =
     (None, \<lparr>ij_names = [], ij_secrets = [], ij_config = config, ij_host = ho\<rparr>)"
  by (simp add: inject_credentials_def member_def or_else_def list_of_def)

lemma ex_preflight: "preflight_execution ex_service ex_host = Inr (ex_service, ex_host)"
proof -
  have "preflight_hosted ex_service ex_hosted ''pg'' JNull [] ([], ex_host) = ([], ex_host)"
    by (simp add: preflight_hosted_def ex_hosted_def inject_nothing pop_all_def)
  then have "preflight_entry ex_service ([], ex_host) (JObj [(''connector'', JStr ''pg'')]) = Inr ([], ex_host)"
    by (simp add: preflight_entry_def member_def or_else_def ex_service_def)
  then have "res_fold (preflight_entry ex_service) ([], ex_host) [JObj [(''connector'', JStr ''pg'')]] = Inr ([], ex_host)"
    by simp
  then show ?thesis
    by (simp add: preflight_execution_def list_of_def ex_service_def ex_config_def del: res_fold.simps)
qed

theorem execute_declared_only_after_preflight_witness:
  "entry_passed ex_service ''pg'' [(''connector'', JStr ''pg'')]"
  by (rule execute_declared_only_after_preflight [OF ex_preflight, of "[JObj [(''connector'', JStr ''pg'')]]" _ "''1.0.0''" "[''execute'']"])
     (simp_all add: ex_service_def ex_config_def list_of_def declared_connectors_def declared_types_def ex_hosted_def ex_manifest_def
       CAPABILITY_JOB_TYPES_def EXECUTABLE_TYPES_def dict_keys_def dict_has_def member_def)

end
