(* ===== verification/Front_Matter.thy ===== *)
theory Front_Matter
  imports Text_Match
begin

text \<open>
  Front matter of the knowledge base documents, \<open>src/generator/frontmatter.py\<close>: the emission of a field
  list between \<open>---\<close> fences with fixed quoting, and the split of a document into front matter and body.

  \<open>yaml.safe_load\<close> is the parameter \<open>load\<close>. It returns a value, or raises \<open>yaml.YAMLError\<close>, or lets the
  \<open>ValueError\<close> of an impossible date through. What the theorems use of it is \<open>yaml_reads\<close>: how YAML 1.1
  reads the forms this module emits. \<open>simple_load\<close> is a reader of exactly these forms, which shows that the
  assumption can be met. Mapping keys that are not strings and floats are not modelled.
\<close>

abbreviation NL :: char where
  "NL \<equiv> CHR 0x0A"

section \<open>Text helpers\<close>

text \<open>\<open>s.find(p)\<close>\<close>

fun find_text :: "string \<Rightarrow> string \<Rightarrow> nat option" where
  "find_text p [] = (if p = [] then Some 0 else None)"
| "find_text p (c # s) = (if startswith (c # s) p then Some 0 else map_option Suc (find_text p s))"

text \<open>\<open>re.match\<close> of a pattern that ends in \<open>$\<close>: the end of the text, or a newline that ends it.\<close>

definition rx_dollar :: "regex \<Rightarrow> string \<Rightarrow> bool" where
  "rx_dollar r s \<longleftrightarrow> list_ex (\<lambda>q. snd q = [] \<or> snd q = [NL]) (rx r (False, s))"

section \<open>Emission\<close>

definition FENCE :: string where
  "FENCE = ''---'' @ [NL]"

definition plain_first :: "char \<Rightarrow> bool" where
  "plain_first c \<longleftrightarrow> is_alpha_ascii c \<or> c = CHR ''_''"

definition plain_rest :: "char \<Rightarrow> bool" where
  "plain_rest c \<longleftrightarrow> is_alpha_ascii c \<or> is_digit c \<or> c \<in> set ''_./-''"

definition PLAIN :: regex where
  "PLAIN = Sq (Cls plain_first) (Star (Cls plain_rest))"

definition DATE :: regex where
  "DATE = (let d = Cls is_digit in seqs [d, d, d, d, Lit ''-'', d, d, Lit ''-'', d, d])"

datatype scalar_value = FNull | FBool bool | FInt int | FStr string

definition scalar :: "scalar_value \<Rightarrow> string" where
  "scalar v =
     (case v of
        FNull \<Rightarrow> ''null''
      | FBool b \<Rightarrow> if b then ''true'' else ''false''
      | FInt i \<Rightarrow> show_int i
      | FStr s \<Rightarrow> if rx_dollar DATE s \<or> rx_dollar PLAIN s then s else json_str s)"

record roster_entry =
  r_object :: string
  r_kind :: string
  r_schema_hash :: string

text \<open>An element of the field list. The key \<open>objects\<close> carries a roster, every other key a scalar.\<close>

datatype fm_field = Field string scalar_value | Objects "roster_entry list"

definition roster_line :: "roster_entry \<Rightarrow> string" where
  "roster_line e = ''  - { object: '' @ json_str (r_object e) @ '', kind: '' @ r_kind e
     @ '', schema_hash: '' @ json_str (r_schema_hash e) @ '' }''"

fun field_lines :: "fm_field \<Rightarrow> string list" where
  "field_lines (Field key v) = [key @ '': '' @ scalar v]"
| "field_lines (Objects es) = ''objects:'' # map roster_line es"

definition emit :: "fm_field list \<Rightarrow> string" where
  "emit fs = join [NL] ([''---''] @ concat (map field_lines fs) @ [''---'']) @ [NL]"

section \<open>Parsing\<close>

text \<open>What \<open>yaml.safe_load\<close> returns. A date is known by its \<open>isoformat()\<close>.\<close>

datatype yaml =
    YNull
  | YBool bool
  | YInt int
  | YStr string
  | YDate string
  | YDateTime string
  | YSeq "yaml list"
  | YMap "(string \<times> yaml) list"

datatype yaml_error = YAMLError | DateError string

fun normalize :: "yaml \<Rightarrow> json" where
  "normalize YNull = JNull"
| "normalize (YBool b) = JBool b"
| "normalize (YInt i) = JInt i"
| "normalize (YStr s) = JStr s"
| "normalize (YDate s) = JStr s"
| "normalize (YDateTime s) = JStr s"
| "normalize (YSeq vs) = JList (map normalize vs)"
| "normalize (YMap kvs) = JObj (map (\<lambda>(k, v). (k, normalize v)) kvs)"

definition CLOSING :: string where
  "CLOSING = NL # ''---'' @ [NL]"

text \<open>\<open>text.find("\n---\n", len(FENCE) - 1)\<close>\<close>

definition fence_end :: "string \<Rightarrow> nat option" where
  "fence_end t = map_option (\<lambda>i. i + (length FENCE - 1)) (find_text CLOSING (drop (length FENCE - 1) t))"

definition slice :: "nat \<Rightarrow> nat \<Rightarrow> string \<Rightarrow> string" where
  "slice i j t = take (j - i) (drop i t)"

type_synonym yaml_loader = "string \<Rightarrow> (yaml_error, yaml) result"

type_synonym front_matter = "(string, json) dict"

definition split :: "yaml_loader \<Rightarrow> string \<Rightarrow> (string, front_matter option \<times> string) result" where
  "split load t =
     (if \<not> startswith t FENCE then Inr (None, t)
      else case fence_end t of
        None \<Rightarrow> Inr (None, t)
      | Some e \<Rightarrow>
          (case load (slice (length FENCE) (e + 1) t) of
             Inl YAMLError \<Rightarrow> Inr (None, t)
           | Inl (DateError m) \<Rightarrow> Inl m
           | Inr (YMap kvs) \<Rightarrow> Inr (Some (map (\<lambda>(k, v). (k, normalize v)) kvs), drop (e + length CLOSING) t)
           | Inr _ \<Rightarrow> Inr (None, t)))"

section \<open>How YAML reads the emitted forms\<close>

text \<open>The plain words YAML 1.1 resolves to a truth value or to null\<close>

definition RESERVED :: "string list" where
  "RESERVED =
     [''yes'', ''Yes'', ''YES'', ''no'', ''No'', ''NO'', ''true'', ''True'', ''TRUE'',
      ''false'', ''False'', ''FALSE'', ''on'', ''On'', ''ON'', ''off'', ''Off'', ''OFF'',
      ''null'', ''Null'', ''NULL'']"

definition plain_word :: "string \<Rightarrow> bool" where
  "plain_word s \<longleftrightarrow> s \<noteq> [] \<and> plain_first (hd s) \<and> list_all plain_rest s \<and> s \<notin> set RESERVED"

text \<open>Characters that stand for themselves in a YAML stream: no C1 control and no next-line character\<close>

definition printable :: "char \<Rightarrow> bool" where
  "printable c \<longleftrightarrow> code c < 0x7f \<or> 0xa0 \<le> code c"

definition date_shape :: "string \<Rightarrow> bool" where
  "date_shape s \<longleftrightarrow> length s = 10 \<and> s ! 4 = CHR ''-'' \<and> s ! 7 = CHR ''-''
     \<and> list_all (\<lambda>i. is_digit (s ! i)) [0, 1, 2, 3, 5, 6, 8, 9]"

fun read_nat :: "nat \<Rightarrow> string \<Rightarrow> nat" where
  "read_nat n [] = n"
| "read_nat n (c # s) = read_nat (10 * n + (code c - 48)) s"

definition month_days :: "nat \<Rightarrow> nat \<Rightarrow> nat" where
  "month_days y m =
     (if m = 2 then (if y mod 4 = 0 \<and> (y mod 100 \<noteq> 0 \<or> y mod 400 = 0) then 29 else 28)
      else if m \<in> {4, 6, 9, 11} then 30 else 31)"

definition calendar_date :: "string \<Rightarrow> bool" where
  "calendar_date s \<longleftrightarrow> date_shape s
     \<and> (let y = read_nat 0 (slice 0 4 s); m = read_nat 0 (slice 5 7 s); d = read_nat 0 (slice 8 10 s)
        in 1 \<le> y \<and> 1 \<le> m \<and> m \<le> 12 \<and> 1 \<le> d \<and> d \<le> month_days y m)"

text \<open>The strings that come back unchanged: an existing date, a plain word without a meaning of its own, or a
  printable string that is quoted\<close>

definition str_ok :: "string \<Rightarrow> bool" where
  "str_ok s \<longleftrightarrow> calendar_date s \<or> plain_word s
     \<or> (\<not> rx_dollar DATE s \<and> \<not> rx_dollar PLAIN s \<and> list_all printable s)"

definition scalar_ok :: "scalar_value \<Rightarrow> bool" where
  "scalar_ok v = (case v of FStr s \<Rightarrow> str_ok s | _ \<Rightarrow> True)"

definition roster_ok :: "roster_entry \<Rightarrow> bool" where
  "roster_ok e \<longleftrightarrow> list_all printable (r_object e) \<and> plain_word (r_kind e) \<and> list_all printable (r_schema_hash e)"

fun field_key :: "fm_field \<Rightarrow> string" where
  "field_key (Field key v) = key"
| "field_key (Objects es) = ''objects''"

fun field_ok :: "fm_field \<Rightarrow> bool" where
  "field_ok (Field key v) \<longleftrightarrow> plain_word key \<and> int (length key) \<le> 1024 \<and> key \<noteq> ''objects'' \<and> scalar_ok v"
| "field_ok (Objects es) \<longleftrightarrow> es \<noteq> [] \<and> list_all roster_ok es"

definition fields_ok :: "fm_field list \<Rightarrow> bool" where
  "fields_ok fs \<longleftrightarrow> fs \<noteq> [] \<and> list_all field_ok fs \<and> distinct (map field_key fs)"

definition scalar_yaml :: "scalar_value \<Rightarrow> yaml" where
  "scalar_yaml v =
     (case v of
        FNull \<Rightarrow> YNull
      | FBool b \<Rightarrow> YBool b
      | FInt i \<Rightarrow> YInt i
      | FStr s \<Rightarrow> if date_shape s then YDate s else YStr s)"

definition roster_yaml :: "roster_entry \<Rightarrow> yaml" where
  "roster_yaml e = YMap
     [(''object'', YStr (r_object e)), (''kind'', YStr (r_kind e)), (''schema_hash'', YStr (r_schema_hash e))]"

fun field_yaml :: "fm_field \<Rightarrow> yaml" where
  "field_yaml (Field key v) = scalar_yaml v"
| "field_yaml (Objects es) = YSeq (map roster_yaml es)"

definition block :: "fm_field list \<Rightarrow> string" where
  "block fs = concat (map (\<lambda>l. l @ [NL]) (concat (map field_lines fs)))"

definition yaml_reads :: "yaml_loader \<Rightarrow> bool" where
  "yaml_reads load \<longleftrightarrow>
     (\<forall>fs. fields_ok fs \<longrightarrow> load (block fs) = Inr (YMap (map (\<lambda>x. (field_key x, field_yaml x)) fs)))"

text \<open>The values the fields have as JSON\<close>

definition scalar_json :: "scalar_value \<Rightarrow> json" where
  "scalar_json v =
     (case v of FNull \<Rightarrow> JNull | FBool b \<Rightarrow> JBool b | FInt i \<Rightarrow> JInt i | FStr s \<Rightarrow> JStr s)"

definition roster_json :: "roster_entry \<Rightarrow> json" where
  "roster_json e = JObj
     [(''object'', JStr (r_object e)), (''kind'', JStr (r_kind e)), (''schema_hash'', JStr (r_schema_hash e))]"

fun field_json :: "fm_field \<Rightarrow> json" where
  "field_json (Field key v) = scalar_json v"
| "field_json (Objects es) = JList (map roster_json es)"

definition fields_dict :: "fm_field list \<Rightarrow> front_matter" where
  "fields_dict fs = map (\<lambda>x. (field_key x, field_json x)) fs"

section \<open>The block between the fences\<close>

lemma join_lines: "ls \<noteq> [] \<Longrightarrow> join [c] ls @ [c] = concat (map (\<lambda>l. l @ [c]) ls)"
  by (induction "[c]" ls rule: join.induct) auto

lemma emit_block: "emit fs = FENCE @ block fs @ FENCE"
  unfolding emit_def block_def FENCE_def by (subst join_lines) simp_all

lemma find_text_skip:
  "c \<notin> set a \<Longrightarrow> find_text (c # p) (a @ s) = map_option (\<lambda>i. i + length a) (find_text (c # p) s)"
  by (induction a) (auto simp: startswith_def option.map_comp o_def option.map_id0 [unfolded id_def])

lemma line_not_fence:
  assumes "NL \<notin> set l" and "l \<noteq> ''---''"
  shows "\<not> startswith (NL # l @ NL # r) CLOSING"
proof
  assume "startswith (NL # l @ NL # r) CLOSING"
  then obtain u where "l @ NL # r = ''---'' @ NL # u" by (auto simp: startswith_iff CLOSING_def)
  moreover have "NL \<notin> set ''---''" by simp
  ultimately show False using assms
    by (metis partition_at_append prod.inject)
qed

lemma find_closing:
  assumes "list_all (\<lambda>l. NL \<notin> set l \<and> l \<noteq> ''---'') ls"
  shows "find_text CLOSING (concat (map (\<lambda>l. NL # l) ls) @ CLOSING @ r) =
    Some (length (concat (map (\<lambda>l. NL # l) ls)))"
  using assms
proof (induction ls)
  case Nil
  then show ?case by (simp add: CLOSING_def startswith_def)
next
  case (Cons l ls)
  let ?t = "concat (map (\<lambda>l. NL # l) ls) @ CLOSING @ r"
  obtain u where u: "?t = NL # u" by (cases ls) (auto simp: CLOSING_def)
  have "find_text CLOSING (l @ ?t) = map_option (\<lambda>i. i + length l) (find_text CLOSING ?t)"
    using Cons.prems find_text_skip [of NL l "''---'' @ [NL]" ?t] by (simp add: CLOSING_def)
  moreover have "\<not> startswith (NL # l @ ?t) CLOSING"
    unfolding u using Cons.prems by (intro line_not_fence) simp_all
  ultimately show ?case using Cons by simp
qed

lemma concat_lines_shift:
  "NL # concat (map (\<lambda>l. l @ [NL]) ls) = concat (map (\<lambda>l. NL # l) ls) @ [NL]"
  by (induction ls) auto

lemma fence_end_block:
  assumes "list_all (\<lambda>l. NL \<notin> set l \<and> l \<noteq> ''---'') ls" and "b = concat (map (\<lambda>l. l @ [NL]) ls)"
  shows "fence_end (FENCE @ b @ FENCE @ r) = Some (3 + length b)"
proof -
  have "drop (length FENCE - 1) (FENCE @ b @ FENCE @ r) = (NL # b) @ FENCE @ r" by (simp add: FENCE_def)
  also have "\<dots> = concat (map (\<lambda>l. NL # l) ls) @ CLOSING @ r"
    unfolding assms(2) concat_lines_shift by (simp add: CLOSING_def FENCE_def)
  finally have "fence_end (FENCE @ b @ FENCE @ r) =
      map_option (\<lambda>i. i + (length FENCE - 1)) (Some (length (concat (map (\<lambda>l. NL # l) ls))))"
    unfolding fence_end_def by (simp only: find_closing [OF assms(1)])
  moreover have "length FENCE - 1 = 3" by (simp add: FENCE_def)
  moreover have "length (concat (map (\<lambda>l. NL # l) ls)) = length b"
    unfolding assms(2) using arg_cong [OF concat_lines_shift, of length ls] by simp
  ultimately show ?thesis by simp
qed

lemma split_block:
  assumes "list_all (\<lambda>l. NL \<notin> set l \<and> l \<noteq> ''---'') ls" and "b = concat (map (\<lambda>l. l @ [NL]) ls)"
    and "load b = Inr (YMap kvs)"
  shows "split load (FENCE @ b @ FENCE @ body) = Inr (Some (map (\<lambda>(k, v). (k, normalize v)) kvs), body)"
proof -
  have "slice (length FENCE) (3 + length b + 1) (FENCE @ b @ FENCE @ body) = b"
    by (simp add: slice_def FENCE_def)
  moreover have "3 + length b + length CLOSING = length (FENCE @ b @ FENCE)"
    by (simp add: FENCE_def CLOSING_def)
  then have "drop (3 + length b + length CLOSING) (FENCE @ b @ FENCE @ body) = body"
    by (metis append_assoc append_eq_conv_conj)
  ultimately show ?thesis
    using fence_end_block [OF assms(1,2), of body] assms(3) unfolding split_def by simp
qed

section \<open>The emitted lines\<close>

text \<open>No control characters: in particular neither newlines nor carriage returns\<close>

definition no_control :: "string \<Rightarrow> bool" where
  "no_control s = list_all (\<lambda>c. 32 \<le> code c) s"

lemma no_control_simps [simp]:
  "no_control []" "no_control (c # s) \<longleftrightarrow> 32 \<le> code c \<and> no_control s" "no_control (s @ t) \<longleftrightarrow> no_control s \<and> no_control t"
  by (simp_all add: no_control_def)

lemma no_control_absent: "no_control s \<Longrightarrow> code c < 32 \<Longrightarrow> c \<notin> set s"
  by (auto simp: no_control_def list_all_iff)

lemma code_char [simp]: "code (Char b0 b1 b2 b3 b4 b5 b6 b7) = of_char (Char b0 b1 b2 b3 b4 b5 b6 b7)"
  by (simp add: code_def)

lemma digit_no_control: "is_digit c \<Longrightarrow> 32 \<le> code c"
  by (simp add: is_digit_def less_eq_char_def code_def)

lemma plain_no_control: "plain_rest c \<Longrightarrow> 32 \<le> code c"
  by (auto simp: plain_rest_def is_alpha_ascii_def is_upper_def is_lower_def is_digit_def less_eq_char_def code_def)

lemma show_int_no_control: "no_control (show_int i)"
  using show_nat_digits digit_no_control by (auto simp: show_int_def no_control_def list_all_iff)

lemma json_str_no_control: "no_control (json_str s)"
proof -
  have hex: "32 \<le> code (hex_digit d)" if "d < 16" for d
    using that by (simp add: hex_digit_def code_def)
  have "n div 16 < 16" if "n < 32" for n :: nat using that by simp
  then have "no_control (esc_char c)" for c
    using hex [of "of_char c div 16"] hex [of "of_char c mod 16"] by (auto simp: esc_char_def code_def)
  then have "no_control (concat (map esc_char s))" by (induction s) simp_all
  then show ?thesis by (simp add: json_str_def)
qed

lemma date_shape_chars:
  assumes "date_shape s"
  obtains a b c d e f g h where "s = [a, b, c, d, CHR ''-'', e, f, CHR ''-'', g, h]"
    and "list_all is_digit [a, b, c, d, e, f, g, h]"
proof -
  obtain a b c d x e f y g h where "s = [a, b, c, d, x, e, f, y, g, h]"
    using assms by (auto simp: date_shape_def length_Suc_conv numeral_eq_Suc)
  with assms that show ?thesis by (auto simp: date_shape_def)
qed

lemma date_shape_rx: "date_shape s \<Longrightarrow> rx_dollar DATE s"
  by (erule date_shape_chars)
     (simp add: rx_dollar_def DATE_def Let_def step_pos_def)

lemma plain_rx:
  assumes "s \<noteq> [] \<and> plain_first (hd s) \<and> list_all plain_rest s"
  shows "rx_dollar PLAIN s"
proof -
  obtain c u where s: "s = c # u" and c: "plain_first c" and u: "list_all plain_rest u"
    using assms by (cases s) auto
  have "prefers PLAIN (False, c # u) (last_word (is_word c) u, [])"
    unfolding PLAIN_def using prefers_Star [OF u, of "[]" "is_word c"]
    by (intro prefers_Sq [OF prefers_Cls [of plain_first, OF c]]) simp
  then show ?thesis unfolding s rx_dollar_def by (auto simp: prefers_def simp del: rx.simps)
qed

lemma plain_word_rx: "plain_word s \<Longrightarrow> rx_dollar PLAIN s"
  by (rule plain_rx) (simp add: plain_word_def)

lemma calendar_date_shape: "calendar_date s \<Longrightarrow> date_shape s"
  by (simp add: calendar_date_def)

text \<open>The same with integers, for evaluation\<close>

fun read_int10 :: "int \<Rightarrow> string \<Rightarrow> int" where
  "read_int10 n [] = n"
| "read_int10 n (c # s) = read_int10 (10 * n + (of_char c - 48)) s"

lemma read_int10_nat: "list_all is_digit s \<Longrightarrow> read_int10 (int n) s = int (read_nat n s)"
proof (induction s arbitrary: n)
  case (Cons c s)
  then have "(48 :: nat) \<le> of_char c" by (simp add: is_digit_def less_eq_char_def)
  then have "10 * int n + (of_char c - 48) = int (10 * n + (code c - 48))" by (simp add: code_def of_nat_diff of_nat_of_char)
  then show ?case using Cons by (simp del: of_nat_add of_nat_mult of_nat_diff)
qed simp

definition month_days_int :: "int \<Rightarrow> int \<Rightarrow> int" where
  "month_days_int y m =
     (if m = 2 then (if y mod 4 = 0 \<and> (y mod 100 \<noteq> 0 \<or> y mod 400 = 0) then 29 else 28)
      else if m = 4 \<or> m = 6 \<or> m = 9 \<or> m = 11 then 30 else 31)"

lemma month_days_int: "month_days_int (int y) (int m) = int (month_days y m)"
proof -
  have "int y mod numeral k = 0 \<longleftrightarrow> y mod numeral k = 0" for k
    by (metis of_nat_eq_0_iff of_nat_numeral zmod_int)
  then show ?thesis by (simp add: month_days_int_def month_days_def)
qed

lemma calendar_date_code [code]:
  "calendar_date s \<longleftrightarrow> date_shape s
     \<and> (let y = read_int10 0 (slice 0 4 s); m = read_int10 0 (slice 5 7 s); d = read_int10 0 (slice 8 10 s)
        in 1 \<le> y \<and> 1 \<le> m \<and> m \<le> 12 \<and> 1 \<le> d \<and> d \<le> month_days_int y m)"
proof (cases "date_shape s")
  case True
  then have "list_all is_digit (slice 0 4 s)" "list_all is_digit (slice 5 7 s)" "list_all is_digit (slice 8 10 s)"
    by (elim date_shape_chars, simp add: slice_def)+
  from this [THEN read_int10_nat [of _ 0]] True show ?thesis
    by (simp add: calendar_date_def Let_def month_days_int)
qed (simp add: calendar_date_def)

lemma plain_word_not_date: "plain_word s \<Longrightarrow> \<not> date_shape s"
  by (auto simp: plain_word_def plain_first_def is_alpha_ascii_def is_upper_def is_lower_def is_digit_def
      less_eq_char_def elim!: date_shape_chars)

text \<open>The three forms of a string that comes back\<close>

lemma str_ok_cases:
  assumes "str_ok s"
  obtains (date) "calendar_date s" "date_shape s" "scalar (FStr s) = s"
  | (plain) "plain_word s" "\<not> date_shape s" "scalar (FStr s) = s"
  | (quoted) "list_all printable s" "\<not> date_shape s" "scalar (FStr s) = json_str s"
proof -
  consider "calendar_date s" | "plain_word s" | "\<not> rx_dollar DATE s" "\<not> rx_dollar PLAIN s" "list_all printable s"
    using assms unfolding str_ok_def by blast
  then show thesis
    by cases
      (auto simp: scalar_def date_shape_rx plain_word_rx calendar_date_shape plain_word_not_date intro: that)
qed

lemma scalar_no_control:
  assumes "scalar_ok v"
  shows "no_control (scalar v)"
proof (cases v)
  case (FStr s)
  with assms have "str_ok s" by (simp add: scalar_ok_def)
  then have "no_control (scalar (FStr s))"
  proof (cases rule: str_ok_cases)
    case date
    then show ?thesis using digit_no_control by (elim date_shape_chars) simp
  next
    case plain
    then show ?thesis using plain_no_control by (auto simp: plain_word_def no_control_def list_all_iff)
  qed (simp add: json_str_no_control)
  with FStr show ?thesis by simp
qed (simp_all add: scalar_def show_int_no_control)

lemma plain_word_chars: "plain_word s \<Longrightarrow> c \<in> set s \<Longrightarrow> plain_rest c"
  by (simp add: plain_word_def list_all_iff)

lemma plain_word_no_control: "plain_word s \<Longrightarrow> no_control s"
  using plain_word_chars plain_no_control by (auto simp: no_control_def list_all_iff)

lemma not_plain_rest [simp]:
  "\<not> plain_rest (CHR '':'')" "\<not> plain_rest (CHR '' '')" "\<not> plain_rest (CHR '','')" "\<not> plain_rest (CHR 0x22)"
  by (simp_all add: plain_rest_def is_alpha_ascii_def is_upper_def is_lower_def is_digit_def less_eq_char_def)

lemma plain_word_absent:
  assumes "plain_word s"
  shows "CHR '':'' \<notin> set s" and "CHR '','' \<notin> set s" and "CHR 0x22 \<notin> set s"
  using plain_word_chars [OF assms] not_plain_rest by blast+

lemma field_lines_no_control: "field_ok x \<Longrightarrow> list_all no_control (field_lines x)"
  by (cases x)
     (auto simp: scalar_no_control plain_word_no_control roster_line_def roster_ok_def json_str_no_control list_all_iff)

lemma field_lines_ok:
  assumes "field_ok x"
  shows "list_all (\<lambda>l. NL \<notin> set l \<and> l \<noteq> ''---'') (field_lines x)"
proof -
  have "l \<noteq> ''---''" if "l \<in> set (field_lines x)" for l
  proof (cases x)
    case (Field key v)
    have "CHR '':'' \<in> set (key @ '': '' @ scalar v)" by simp
    moreover have "CHR '':'' \<notin> set ''---''" by simp
    ultimately show ?thesis using that Field by (metis empty_iff field_lines.simps(1) list.set(1) set_ConsD)
  next
    case (Objects es)
    then show ?thesis using that by (auto simp: roster_line_def)
  qed
  moreover have "NL \<notin> set l" if "l \<in> set (field_lines x)" for l
    using field_lines_no_control [OF assms] that by (intro no_control_absent) (simp_all add: list_all_iff)
  ultimately show ?thesis by (simp add: list_all_iff)
qed

lemma block_lines_ok:
  "list_all field_ok fs \<Longrightarrow> list_all (\<lambda>l. NL \<notin> set l \<and> l \<noteq> ''---'') (concat (map field_lines fs))"
  using field_lines_ok by (fastforce simp: list_all_iff)

lemma emit_no_CR: "list_all field_ok fs \<Longrightarrow> CHR 0x0D \<notin> set (emit fs)"
proof -
  assume "list_all field_ok fs"
  then have "list_all no_control (concat (map field_lines fs))"
    using field_lines_no_control by (fastforce simp: list_all_iff)
  then have "CHR 0x0D \<notin> set l" if "l \<in> set (concat (map field_lines fs))" for l
    using that by (intro no_control_absent) (auto simp: list_all_iff)
  then show ?thesis by (auto simp: emit_block block_def FENCE_def)
qed

section \<open>Values survive\<close>

lemma normalize_scalar: "normalize (scalar_yaml v) = scalar_json v"
  by (simp add: scalar_yaml_def scalar_json_def split: scalar_value.splits)

lemma normalize_field: "normalize (field_yaml x) = field_json x"
  by (cases x) (simp_all add: normalize_scalar roster_yaml_def roster_json_def)

lemma split_emit:
  assumes "yaml_reads load" and "fields_ok fs"
  shows "split load (emit fs @ body) = Inr (Some (fields_dict fs), body)"
proof -
  have "load (block fs) = Inr (YMap (map (\<lambda>x. (field_key x, field_yaml x)) fs))"
    using assms by (simp add: yaml_reads_def)
  from split_block [where load = load, OF block_lines_ok block_def this, of body] assms(2)
  show ?thesis unfolding emit_block by (simp add: fields_ok_def fields_dict_def normalize_field comp_def)
qed

section \<open>A reader of the emitted forms\<close>

definition strip_prefix :: "string \<Rightarrow> string \<Rightarrow> string option" where
  "strip_prefix p s = (if startswith s p then Some (drop (length p) s) else None)"

lemma strip_prefix_append [simp]: "strip_prefix p (p @ s) = Some s"
  by (simp add: strip_prefix_def)

text \<open>The rest of a double-quoted string, up to its closing quote\<close>

function read_quoted :: "string \<Rightarrow> (string \<times> string) option" where
  "read_quoted t =
     (case t of
        [] \<Rightarrow> None
      | c # r \<Rightarrow>
          if c = CHR 0x22 then Some ([], r)
          else case unesc_char t of
            None \<Rightarrow> None
          | Some (d, r') \<Rightarrow>
              if length r' < length t then map_option (\<lambda>(s, u). (d # s, u)) (read_quoted r') else None)"
  by pat_completeness auto
termination
  by (relation "measure length") auto

declare read_quoted.simps [simp del]

lemma esc_char_nonempty: "\<exists>c' u. esc_char c = c' # u \<and> c' \<noteq> CHR 0x22"
  by (auto simp: esc_char_def)

lemma read_quoted_esc: "read_quoted (concat (map esc_char s) @ CHR 0x22 # r) = Some (s, r)"
proof (induction s)
  case Nil
  then show ?case by (simp add: read_quoted.simps)
next
  case (Cons c s)
  let ?u = "concat (map esc_char s) @ CHR 0x22 # r"
  obtain c' v where "esc_char c = c' # v" "c' \<noteq> CHR 0x22" using esc_char_nonempty by blast
  moreover from this have "unesc_char (c' # v @ ?u) = Some (c, ?u)" using unesc_esc [of c ?u] by simp
  ultimately show ?case
    using Cons.IH by (simp add: read_quoted.simps [of "c' # v @ ?u"] del: unesc_char.simps)
qed

lemma read_json_str: "read_quoted (tl (json_str s @ r)) = Some (s, r)"
  using read_quoted_esc [of s r] by (simp add: json_str_def)

definition read_int :: "string \<Rightarrow> int" where
  "read_int t = (if hd t = CHR ''-'' then - int (read_nat 0 (tl t)) else int (read_nat 0 t))"

lemma read_nat_append: "read_nat n (s @ t) = read_nat (read_nat n s) t"
  by (induction s arbitrary: n) auto

lemma read_show_nat: "read_nat 0 (show_nat n) = n"
proof (induction n rule: show_nat.induct)
  case (1 n)
  have d: "code (digit_char m) - 48 = m" if "m < 10" for m
    using that by (simp add: code_def digit_char_def)
  show ?case
  proof (cases "n < 10")
    case True
    then show ?thesis by (simp add: show_nat.simps [of n] d)
  next
    case False
    then show ?thesis using 1 by (simp add: show_nat.simps [of n] read_nat_append d)
  qed
qed

lemma show_nat_hd: "is_digit (hd (show_nat n))"
  by (rule show_nat_digits) (rule hd_in_set, simp)

lemma read_show_int: "read_int (show_int i) = i"
proof -
  have "hd (show_nat n) \<noteq> CHR ''-''" for n
    by (metis hd_in_set minus_not_in_show_nat show_nat_nonempty)
  then show ?thesis by (simp add: read_int_def show_int_def read_show_nat)
qed

definition read_scalar :: "string \<Rightarrow> yaml option" where
  "read_scalar t =
     (if t = ''null'' then Some YNull
      else if t = ''true'' then Some (YBool True)
      else if t = ''false'' then Some (YBool False)
      else if plain_word t then Some (YStr t)
      else if t \<noteq> [] \<and> hd t = CHR 0x22
      then case read_quoted (tl t) of Some (s, []) \<Rightarrow> Some (YStr s) | _ \<Rightarrow> None
      else if calendar_date t then Some (YDate t)
      else if t \<noteq> [] \<and> (hd t = CHR ''-'' \<or> is_digit (hd t)) then Some (YInt (read_int t))
      else None)"

lemma plain_word_hd: "plain_word s \<Longrightarrow> s \<noteq> [] \<and> plain_first (hd s)"
  by (simp add: plain_word_def)

lemma reserved_not_plain [simp]: "\<not> plain_word ''null''" "\<not> plain_word ''true''" "\<not> plain_word ''false''"
  by (simp_all add: plain_word_def RESERVED_def)

lemma show_int_hd: "hd (show_int i) = CHR ''-'' \<or> is_digit (hd (show_int i))" "show_int i \<noteq> []"
  using show_nat_hd by (simp_all add: show_int_def)

lemma show_int_not_date: "\<not> date_shape (show_int i)"
proof
  assume "date_shape (show_int i)"
  then obtain a r where s: "show_int i = a # r" and dig: "is_digit a" and m: "CHR ''-'' \<in> set r"
    by (elim date_shape_chars) auto
  from dig have "a \<noteq> CHR ''-''" by (auto simp: is_digit_def less_eq_char_def)
  with s have "show_nat (nat i) = a # r" by (auto simp: show_int_def split: if_splits)
  with m show False using minus_not_in_show_nat [of "nat i"] by simp
qed

lemma read_scalar_int: "read_scalar (show_int i) = Some (YInt i)"
proof -
  have first: "\<not> plain_first c \<and> c \<noteq> CHR 0x22 \<and> c \<noteq> CHR ''n'' \<and> c \<noteq> CHR ''t'' \<and> c \<noteq> CHR ''f''"
    if "c = CHR ''-'' \<or> is_digit c" for c
    using that
    by (auto simp: plain_first_def is_alpha_ascii_def is_upper_def is_lower_def is_digit_def less_eq_char_def)
  note hd = first [OF show_int_hd(1) [of i]]
  have "\<not> plain_word (show_int i)" "\<not> calendar_date (show_int i)"
    using hd plain_word_hd show_int_not_date calendar_date_shape by blast+
  moreover have "show_int i \<noteq> ''null''" "show_int i \<noteq> ''true''" "show_int i \<noteq> ''false''"
    using hd by (metis list.sel(1))+
  ultimately show ?thesis
    using hd show_int_hd [of i] by (simp add: read_scalar_def read_show_int)
qed

lemma read_scalar_scalar:
  assumes "scalar_ok v"
  shows "read_scalar (scalar v) = Some (scalar_yaml v)"
proof (cases v)
  case (FStr s)
  with assms have "str_ok s" by (simp add: scalar_ok_def)
  then have "read_scalar (scalar (FStr s)) = Some (scalar_yaml (FStr s))"
  proof (cases rule: str_ok_cases)
    case date
    then have "\<not> plain_word s" using plain_word_not_date by blast
    moreover have "s \<noteq> ''null''" "s \<noteq> ''true''" "s \<noteq> ''false''" using date(2) by (auto simp: date_shape_def)
    moreover have "hd s \<noteq> CHR 0x22"
      using date(2) by (elim date_shape_chars) (auto simp: is_digit_def less_eq_char_def)
    ultimately show ?thesis using date by (simp add: read_scalar_def scalar_yaml_def)
  next
    case plain
    then have "s \<noteq> ''null''" "s \<noteq> ''true''" "s \<noteq> ''false''" by auto
    with plain show ?thesis by (simp add: read_scalar_def scalar_yaml_def)
  next
    case quoted
    have "\<not> plain_word (json_str s)" using plain_word_absent(3) [of "json_str s"] by (auto simp: json_str_def)
    with quoted read_json_str [of s "[]"] show ?thesis
      by (auto simp: read_scalar_def scalar_yaml_def) (auto simp: json_str_def)
  qed
  with FStr show ?thesis by simp
qed (simp_all add: scalar_def scalar_yaml_def read_scalar_int, simp_all add: read_scalar_def)

definition read_roster :: "string \<Rightarrow> yaml option" where
  "read_roster l =
     Option.bind (strip_prefix ''  - { object: '' l) (\<lambda>t.
     Option.bind (read_quoted (tl t)) (\<lambda>(ob, t1).
     Option.bind (strip_prefix '', kind: '' t1) (\<lambda>t2.
     case partition_at (CHR '','') t2 of (kind, _, t3) \<Rightarrow>
     Option.bind (strip_prefix '' schema_hash: '' t3) (\<lambda>t4.
     Option.bind (read_quoted (tl t4)) (\<lambda>(h, t5).
     if t5 = '' }'' then Some (YMap [(''object'', YStr ob), (''kind'', YStr kind), (''schema_hash'', YStr h)])
     else None)))))"

lemma read_roster_line:
  assumes "roster_ok e"
  shows "read_roster (roster_line e) = Some (roster_yaml e)"
proof -
  let ?rest = "'', kind: '' @ r_kind e @ '', schema_hash: '' @ json_str (r_schema_hash e) @ '' }''"
  have k: "CHR '','' \<notin> set (r_kind e)"
    using assms plain_word_absent(2) [of "r_kind e"] by (simp add: roster_ok_def)
  have "partition_at (CHR '','') (r_kind e @ '', schema_hash: '' @ json_str (r_schema_hash e) @ '' }'') =
      (r_kind e, True, '' schema_hash: '' @ json_str (r_schema_hash e) @ '' }'')"
    using partition_at_append [OF k, of "'' schema_hash: '' @ json_str (r_schema_hash e) @ '' }''"] by simp
  moreover have "strip_prefix ''  - { object: '' (roster_line e) = Some (json_str (r_object e) @ ?rest)"
    unfolding roster_line_def by (rule strip_prefix_append)
  moreover have "strip_prefix '', kind: '' ?rest =
      Some (r_kind e @ '', schema_hash: '' @ json_str (r_schema_hash e) @ '' }'')"
    by (rule strip_prefix_append)
  moreover have "strip_prefix '' schema_hash: '' ('' schema_hash: '' @ json_str (r_schema_hash e) @ '' }'') =
      Some (json_str (r_schema_hash e) @ '' }'')"
    by (rule strip_prefix_append)
  ultimately show ?thesis
    unfolding read_roster_def
    by (simp only: Option.bind.simps read_json_str prod.case refl if_True roster_yaml_def)
qed

fun opt_map :: "('a \<Rightarrow> 'b option) \<Rightarrow> 'a list \<Rightarrow> 'b list option" where
  "opt_map f [] = Some []"
| "opt_map f (x # xs) = Option.bind (f x) (\<lambda>y. map_option (Cons y) (opt_map f xs))"

definition is_item :: "string \<Rightarrow> bool" where
  "is_item l = startswith l ''  - ''"

function read_lines :: "string list \<Rightarrow> (string \<times> yaml) list option" where
  "read_lines ls =
     (case ls of
        [] \<Rightarrow> Some []
      | l # ls' \<Rightarrow>
          if l = ''objects:'' then
            Option.bind (opt_map read_roster (takeWhile is_item ls')) (\<lambda>es.
              map_option (Cons (''objects'', YSeq es)) (read_lines (dropWhile is_item ls')))
          else case partition_at (CHR '':'') l of (key, _, r) \<Rightarrow>
            Option.bind (Option.bind (strip_prefix '' '' r) read_scalar) (\<lambda>v.
              map_option (Cons (key, v)) (read_lines ls')))"
  by pat_completeness auto
termination
  by (relation "measure length") (auto simp: le_imp_less_Suc length_dropWhile_le)

declare read_lines.simps [simp del]

lemma read_lines_Cons [code]:
  "read_lines [] = Some []"
  "read_lines (l # ls') =
     (if l = ''objects:'' then
        Option.bind (opt_map read_roster (takeWhile is_item ls')) (\<lambda>es.
          map_option (Cons (''objects'', YSeq es)) (read_lines (dropWhile is_item ls')))
      else case partition_at (CHR '':'') l of (key, _, r) \<Rightarrow>
        Option.bind (Option.bind (strip_prefix '' '' r) read_scalar) (\<lambda>v.
          map_option (Cons (key, v)) (read_lines ls')))"
  by (subst read_lines.simps, simp)+

lemma read_lines_Field:
  assumes "field_ok (Field key v)"
  shows "read_lines (field_lines (Field key v) @ ls) = map_option (Cons (key, scalar_yaml v)) (read_lines ls)"
proof -
  let ?l = "key @ CHR '':'' # '' '' @ scalar v"
  have pw: "plain_word key" and ne: "key \<noteq> ''objects''" using assms by simp_all
  have part: "partition_at (CHR '':'') ?l = (key, True, '' '' @ scalar v)"
    by (rule partition_at_append [OF plain_word_absent(1) [OF pw]])
  have "?l \<noteq> ''objects:''"
  proof
    assume "?l = ''objects:''"
    with part have "partition_at (CHR '':'') ''objects:'' = (key, True, '' '' @ scalar v)" by (simp only:)
    then show False by simp
  qed
  then show ?thesis
    using read_scalar_scalar [of v] assms part strip_prefix_append [of "'' ''" "scalar v"]
    by (simp add: read_lines.simps [of "(key @ CHR '':'' # CHR '' '' # scalar v) # ls"] del: partition_at.simps)
qed

lemma read_lines_Objects:
  assumes "field_ok (Objects es)" and "ls = [] \<or> \<not> is_item (hd ls)"
  shows "read_lines (field_lines (Objects es) @ ls) =
    map_option (Cons (''objects'', YSeq (map roster_yaml es))) (read_lines ls)"
proof -
  have items: "\<And>l. l \<in> set (map roster_line es) \<Longrightarrow> is_item l"
    by (auto simp: is_item_def roster_line_def startswith_def)
  have "takeWhile is_item (map roster_line es @ ls) = map roster_line es @ takeWhile is_item ls"
    and "dropWhile is_item (map roster_line es @ ls) = dropWhile is_item ls"
    using takeWhile_append2 [of "map roster_line es" is_item ls] dropWhile_append2 [of "map roster_line es" is_item ls]
      items by blast+
  moreover have "takeWhile is_item ls = []" "dropWhile is_item ls = ls"
    using assms(2) by (cases ls; simp)+
  moreover have "opt_map read_roster (map roster_line es) = Some (map roster_yaml es)" if "list_all roster_ok es" for es
    using that read_roster_line by (induction es) auto
  ultimately show ?thesis using assms(1) by (simp add: read_lines.simps [of "''objects:'' # map roster_line es @ ls"])
qed

text \<open>A block has a newline after each line; what follows the last one is empty.\<close>

definition simple_load :: yaml_loader where
  "simple_load t =
     (case read_lines (butlast (split_on NL t)) of None \<Rightarrow> Inl YAMLError | Some kvs \<Rightarrow> Inr (YMap kvs))"

lemma split_on_lines:
  "list_all (\<lambda>l. c \<notin> set l) ls \<Longrightarrow> split_on c (concat (map (\<lambda>l. l @ [c]) ls)) = ls @ [[]]"
proof (induction ls)
  case (Cons l ls)
  have "split_on c (l @ c # t) = l # split_on c t" if "c \<notin> set l" for l t
    using that by (induction l) auto
  with Cons show ?case by simp
qed simp

lemma field_lines_first:
  assumes "field_ok x"
  obtains l ls where "field_lines x = l # ls" and "\<not> is_item l"
proof (cases x)
  case (Field key v)
  with assms have "key \<noteq> [] \<and> plain_first (hd key)" using plain_word_hd by simp
  moreover have "\<not> plain_first (CHR '' '')"
    by (simp add: plain_first_def is_alpha_ascii_def is_upper_def is_lower_def less_eq_char_def)
  ultimately have "\<not> is_item (key @ '': '' @ scalar v)"
    by (cases key) (auto simp: is_item_def startswith_def)
  with Field that show ?thesis by simp
next
  case (Objects es)
  with that show ?thesis by (simp add: is_item_def startswith_def)
qed

lemma read_lines_fields:
  "list_all field_ok fs \<Longrightarrow>
   read_lines (concat (map field_lines fs)) = Some (map (\<lambda>x. (field_key x, field_yaml x)) fs)"
proof (induction fs)
  case Nil
  then show ?case by (simp add: read_lines.simps)
next
  case (Cons x fs)
  let ?ls = "concat (map field_lines fs)"
  have "?ls = [] \<or> \<not> is_item (hd ?ls)"
  proof (cases fs)
    case (Cons y ys)
    with Cons.prems have "field_ok y" by simp
    then obtain l ls where "field_lines y = l # ls" "\<not> is_item l" by (rule field_lines_first)
    with Cons show ?thesis by simp
  qed simp
  then have "read_lines (field_lines x @ ?ls) = map_option (Cons (field_key x, field_yaml x)) (read_lines ?ls)"
    using Cons.prems read_lines_Field read_lines_Objects by (cases x) (simp_all del: field_lines.simps field_ok.simps)
  with Cons show ?case by simp
qed

lemma simple_load_reads: "yaml_reads simple_load"
  unfolding yaml_reads_def
proof (intro allI impI)
  fix fs
  assume "fields_ok fs"
  then have ok: "list_all field_ok fs" by (simp add: fields_ok_def)
  then have "list_all (\<lambda>l. NL \<notin> set l) (concat (map field_lines fs))"
    using block_lines_ok [OF ok] by (simp add: list_all_iff)
  then have "split_on NL (block fs) = concat (map field_lines fs) @ [[]]"
    unfolding block_def by (rule split_on_lines)
  then show "simple_load (block fs) = Inr (YMap (map (\<lambda>x. (field_key x, field_yaml x)) fs))"
    by (simp add: simple_load_def read_lines_fields [OF ok])
qed

text \<open>C8. Front matter round trip (frontmatter.py \<open>emit\<close>, \<open>split\<close>): for a reader that reads YAML's forms, and fields
  with keys that are plain words of at most 1024 characters (the longest that PyYAML reads) and whose strings are existing dates, words YAML gives no meaning of its own, or printable text that gets quoted,
  splitting an emitted document returns exactly the emitted values, in order, and the body byte for byte,
  whatever the body holds, fences included.\<close>

theorem split_emit_roundtrip:
  assumes "yaml_reads load" and "fields_ok fs"
  shows "split load (emit fs @ body) = Inr (Some (fields_dict fs), body)"
  by (rule split_emit [OF assms])

theorem split_emit_roundtrip_witness:
  "split simple_load (emit [Field ''doc_class'' (FStr ''machine-index''), Field ''generated_at'' (FStr ''2024-02-29'')] @ CLOSING) =
     Inr (Some [(''doc_class'', JStr ''machine-index''), (''generated_at'', JStr ''2024-02-29'')], CLOSING)"
proof -
  have "fields_ok [Field ''doc_class'' (FStr ''machine-index''), Field ''generated_at'' (FStr ''2024-02-29'')]"
    by (simp add: fields_ok_def scalar_ok_def str_ok_def plain_word_def RESERVED_def calendar_date_def date_shape_def
        month_days_def slice_def code_def plain_first_def plain_rest_def is_alpha_ascii_def is_upper_def
        is_lower_def is_digit_def less_eq_char_def Let_def)
  from split_emit_roundtrip [OF simple_load_reads this, of CLOSING] show ?thesis
    by (simp add: fields_dict_def scalar_json_def)
qed

text \<open>A string that YAML resolves to something else is emitted without quotes all the same, and so is a word that
  ends in a newline.\<close>

lemma scalar_reserved: "s \<in> set RESERVED \<Longrightarrow> scalar (FStr s) = s"
proof -
  assume "s \<in> set RESERVED"
  then have "s \<noteq> [] \<and> plain_first (hd s) \<and> list_all plain_rest s"
    by (auto simp: RESERVED_def plain_first_def plain_rest_def is_alpha_ascii_def is_upper_def is_lower_def less_eq_char_def)
  then have "rx_dollar PLAIN s" by (rule plain_rx)
  then show "scalar (FStr s) = s" by (simp add: scalar_def)
qed

end
