(* ===== verification/Statuses.thy ===== *)
theory Statuses
  imports Front_Matter
begin

text \<open>
  Status writes of the sync, \<open>src/generator/statuses.py\<close>: the only edits of human-owned documents. An instruction
  names a document, a status and optionally a contamination; the edit works on the raw lines between the fences,
  and the result is read back before anything is written.

  The two patterns of the module are line patterns under \<open>re.MULTILINE\<close> and are written out on the lines of the
  text. A replacement text given to \<open>re.sub\<close> is a template in which backslashes are escapes (\<open>expand\<close>); the patterns
  have no groups. \<open>Path.read_text\<close> turns the line ends \<open>\r\n\<close> and \<open>\r\<close> into \<open>\n\<close> (\<open>universal_nl\<close>).

  \<open>edit_lines\<close> is the edit the module documents, on the list of lines; \<open>apply_instruction_lines\<close> shows that the
  text edit implements it when the texts it puts in have no line end and are not changed as templates.
  The long dash in three messages is written as a hyphen.
\<close>

datatype status_error =
    StatusWriteError string
  | KeyErr string
  | TypeErr
  | ReError
  | ValueErr string

section \<open>Replacement templates of \<open>re.sub\<close>\<close>

definition is_octal :: "char \<Rightarrow> bool" where
  "is_octal c \<longleftrightarrow> CHR ''0'' \<le> c \<and> c \<le> CHR ''7''"

definition octal_char :: "string \<Rightarrow> char" where
  "octal_char ds = char_of (foldl (\<lambda>n c. 8 * n + (code c - 48)) 0 ds mod 256)"

definition ESCAPES :: "(char, char) dict" where
  "ESCAPES =
     [(CHR ''a'', CHR 0x07), (CHR ''b'', CHR 0x08), (CHR ''f'', CHR 0x0C), (CHR ''n'', CHR 0x0A),
      (CHR ''r'', CHR 0x0D), (CHR ''t'', CHR 0x09), (CHR ''v'', CHR 0x0B), (CHR 0x5C, CHR 0x5C)]"

text \<open>One escape: the text it stands for and the rest of the template. \<open>m\<close> is the matched text, the only group.\<close>

definition escape_step :: "string \<Rightarrow> char \<Rightarrow> string \<Rightarrow> (string \<times> string) option" where
  "escape_step m d r =
     (if d = CHR ''g'' then
        (if startswith r ''<'' then
           case partition_at (CHR ''>'') (tl r) of (name, closed, r') \<Rightarrow>
             if closed \<and> name \<noteq> [] \<and> list_all (\<lambda>c. c = CHR ''0'') name then Some (m, r') else None
         else None)
      else if d = CHR ''0'' then
        (let ds = takeWhile is_octal (take 2 r) in Some ([octal_char ds], drop (length ds) r))
      else if is_digit d then
        (case r of
           x # y # r' \<Rightarrow>
             if is_octal d \<and> is_octal x \<and> is_octal y \<and> d \<le> CHR ''3'' then Some ([octal_char [d, x, y]], r') else None
         | _ \<Rightarrow> None)
      else case dict_get ESCAPES d of
        Some c \<Rightarrow> Some ([c], r)
      | None \<Rightarrow> if is_alpha_ascii d then None else Some ([CHR 0x5C, d], r))"

function expand :: "string \<Rightarrow> string \<Rightarrow> string option" where
  "expand m t =
     (case t of
        [] \<Rightarrow> Some []
      | c # r \<Rightarrow>
          if c \<noteq> CHR 0x5C then map_option (Cons c) (expand m r)
          else case r of
            [] \<Rightarrow> None
          | d # r' \<Rightarrow>
              (case escape_step m d r' of
                 None \<Rightarrow> None
               | Some (s, r'') \<Rightarrow> if length r'' \<le> length r' then map_option ((@) s) (expand m r'') else None))"
  by pat_completeness auto
termination
  by (relation "measure (\<lambda>(m, t). length t)") auto

declare expand.simps [simp del]

section \<open>The instruction's texts\<close>

fun json_type :: "json \<Rightarrow> string" where
  "json_type JNull = ''NoneType''"
| "json_type (JBool b) = ''bool''"
| "json_type (JInt i) = ''int''"
| "json_type (JStr s) = ''str''"
| "json_type (JList vs) = ''list''"
| "json_type (JObj kvs) = ''dict''"

fun flow_scalar :: "json \<Rightarrow> (status_error, string) result" where
  "flow_scalar JNull = Inr ''null''"
| "flow_scalar (JStr s) = Inr (json_str s)"
| "flow_scalar (JList vs) = res_bind (res_map id (map flow_scalar vs)) (\<lambda>ts. Inr (''['' @ join '', '' ts @ '']''))"
| "flow_scalar v = Inl (StatusWriteError (''unsupported contamination value type: '' @ json_type v))"

definition contamination_line :: "json \<Rightarrow> (status_error, string) result" where
  "contamination_line v =
     (case v of
        JNull \<Rightarrow> Inr (''contamination: null'' @ [NL])
      | JObj kvs \<Rightarrow>
          res_bind (res_map (\<lambda>(k, w). res_bind (flow_scalar w) (\<lambda>t. Inr (k @ '': '' @ t))) kvs)
            (\<lambda>inner. Inr (''contamination: {'' @ join '', '' inner @ ''}'' @ [NL]))
      | _ \<Rightarrow> Inl (StatusWriteError ''contamination must be an object or null''))"

section \<open>The line patterns\<close>

definition is_status :: "string \<Rightarrow> bool" where
  "is_status l = startswith l ''status:''"

definition is_contamination :: "string \<Rightarrow> bool" where
  "is_contamination l = startswith l ''contamination:''"

definition is_indented :: "string \<Rightarrow> bool" where
  "is_indented l \<longleftrightarrow> l \<noteq> [] \<and> (hd l = CHR '' '' \<or> hd l = CHR 0x09)"

fun first_line :: "(string \<Rightarrow> bool) \<Rightarrow> string list \<Rightarrow> (string list \<times> string \<times> string list) option" where
  "first_line p [] = None"
| "first_line p (l # ls) =
     (if p l then Some ([], l, ls) else map_option (\<lambda>(a, m, b). (l # a, m, b)) (first_line p ls))"

text \<open>\<open>_STATUS_LINE.search(head)\<close> and \<open>_STATUS_LINE.sub(..., head, count=1)\<close> for a replacement computed from the match\<close>

definition status_search :: "string \<Rightarrow> bool" where
  "status_search head \<longleftrightarrow> first_line is_status (split_on NL head) \<noteq> None"

definition status_sub :: "(string \<Rightarrow> string option) \<Rightarrow> string \<Rightarrow> string option" where
  "status_sub f head =
     (case first_line is_status (split_on NL head) of
        None \<Rightarrow> Some head
      | Some (a, m, b) \<Rightarrow> map_option (\<lambda>t. join [NL] (a @ t # b)) (f m))"

text \<open>The contamination line with the indented lines under it. The pattern demands the newline that ends each of
  them, so the text after the last newline is never part of it.\<close>

definition contamination_block :: "string \<Rightarrow> (string \<times> string \<times> string) option" where
  "contamination_block head =
     (let ls = split_on NL head; lines = \<lambda>xs. concat (map (\<lambda>l. l @ [NL]) xs) in
      map_option (\<lambda>(a, m, b). (lines a, lines (m # takeWhile is_indented b), lines (dropWhile is_indented b) @ last ls))
        (first_line is_contamination (butlast ls)))"

section \<open>Editing one document\<close>

definition py_get :: "front_matter \<Rightarrow> string \<Rightarrow> json" where
  "py_get fm k = (case dict_get fm k of None \<Rightarrow> JNull | Some v \<Rightarrow> v)"

text \<open>Equality of Python values, which for dicts does not see the order of the keys\<close>

definition json_equal :: "json \<Rightarrow> json \<Rightarrow> bool" where
  "json_equal a b \<longleftrightarrow> sort_json a = sort_json b"

definition put_contamination :: "json \<Rightarrow> string \<Rightarrow> (status_error, string) result" where
  "put_contamination v head =
     res_bind (contamination_line v) (\<lambda>line.
       case contamination_block head of
         Some (a, m, b) \<Rightarrow> (case expand m line of None \<Rightarrow> Inl ReError | Some t \<Rightarrow> Inr (a @ t @ b))
       | None \<Rightarrow>
           (case status_sub (\<lambda>m. Some (m @ NL # rstrip_by (\<lambda>c. c = NL) line)) head of
              None \<Rightarrow> Inl ReError
            | Some head' \<Rightarrow> Inr head'))"

definition edit_head :: "string \<Rightarrow> json option \<Rightarrow> string \<Rightarrow> (status_error, string) result" where
  "edit_head status contamination head =
     (if \<not> status_search head then Inl (StatusWriteError ''front-matter has no top-level status: line'')
      else case status_sub (\<lambda>m. expand m (''status: '' @ status)) head of
        None \<Rightarrow> Inl ReError
      | Some head' \<Rightarrow> (case contamination of None \<Rightarrow> Inr head' | Some v \<Rightarrow> put_contamination v head'))"

text \<open>The guard after the edit: the result is read back\<close>

definition checked :: "yaml_loader \<Rightarrow> string \<Rightarrow> string \<Rightarrow> json option \<Rightarrow> string \<Rightarrow> (status_error, string) result" where
  "checked load t status contamination edited =
     (case split load edited of
        Inl e \<Rightarrow> Inl (ValueErr e)
      | Inr (fm, body) \<Rightarrow>
          (case split load t of
             Inl e \<Rightarrow> Inl (ValueErr e)
           | Inr (_, old_body) \<Rightarrow>
               (case fm of
                  None \<Rightarrow> Inl (StatusWriteError ''post-edit re-parse failed - refusing to write'')
                | Some d \<Rightarrow>
                    if body \<noteq> old_body then Inl (StatusWriteError ''post-edit re-parse failed - refusing to write'')
                    else if py_get d ''status'' \<noteq> JStr status
                    then Inl (StatusWriteError ''post-edit status mismatch - refusing to write'')
                    else if (case contamination of None \<Rightarrow> False | Some v \<Rightarrow> \<not> json_equal (py_get d ''contamination'') v)
                    then Inl (StatusWriteError ''post-edit contamination mismatch - refusing to write'')
                    else Inr edited)))"

definition apply_instruction :: "yaml_loader \<Rightarrow> string \<Rightarrow> (string, json) dict \<Rightarrow> (status_error, string) result" where
  "apply_instruction load t instruction =
     (if \<not> startswith t FENCE then Inl (StatusWriteError ''no front-matter block at byte 0'')
      else case fence_end t of
        None \<Rightarrow> Inl (StatusWriteError ''unterminated front-matter fence'')
      | Some e \<Rightarrow>
          (case dict_get instruction ''status'' of
             None \<Rightarrow> Inl (KeyErr ''status'')
           | Some (JStr status) \<Rightarrow>
               if status = [] then Inl (StatusWriteError ''status must be a non-empty string'')
               else res_bind
                 (edit_head status (dict_get instruction ''contamination'') (slice (length FENCE) (e + 1) t))
                 (\<lambda>head. checked load t status (dict_get instruction ''contamination'') (FENCE @ head @ drop (e + 1) t))
           | Some _ \<Rightarrow> Inl (StatusWriteError ''status must be a non-empty string'')))"

section \<open>Editing the knowledge base\<close>

text \<open>The files by path relative to the knowledge base, with their contents\<close>

type_synonym kb_files = "(string, string) dict"

text \<open>Universal newlines of \<open>read_text\<close>\<close>

fun universal_nl :: "string \<Rightarrow> string" where
  "universal_nl [] = []"
| "universal_nl (c # s) =
     (if c = CHR 0x0D then NL # universal_nl (if s \<noteq> [] \<and> hd s = NL then tl s else s) else c # universal_nl s)"

record edit_plan =
  planned :: "(string \<times> string) list"
  edited :: "string list"
  unchanged :: "string list"

definition plan_instruction :: "yaml_loader \<Rightarrow> kb_files \<Rightarrow> edit_plan \<Rightarrow> json \<Rightarrow> (status_error, edit_plan) result" where
  "plan_instruction load kb plan instruction =
     (case instruction of
        JObj d \<Rightarrow>
          (case dict_get d ''doc'' of
             None \<Rightarrow> Inl (KeyErr ''doc'')
           | Some (JStr rel) \<Rightarrow>
               (case dict_get kb rel of
                  None \<Rightarrow> Inl (StatusWriteError (rel @ '': no such doc''))
                | Some bytes \<Rightarrow>
                    (case apply_instruction load (universal_nl bytes) d of
                       Inl (StatusWriteError m) \<Rightarrow> Inl (StatusWriteError (rel @ '': '' @ m))
                     | Inl e \<Rightarrow> Inl e
                     | Inr new_text \<Rightarrow>
                         Inr (if new_text = universal_nl bytes then plan\<lparr>unchanged := unchanged plan @ [rel]\<rparr>
                              else plan\<lparr>planned := planned plan @ [(rel, new_text)], edited := edited plan @ [rel]\<rparr>)))
           | Some _ \<Rightarrow> Inl TypeErr)
      | _ \<Rightarrow> Inl TypeErr)"

definition apply_all ::
  "yaml_loader \<Rightarrow> kb_files \<Rightarrow> json list \<Rightarrow> kb_files \<times> (status_error, string list \<times> string list) result" where
  "apply_all load kb instructions =
     (case res_fold (plan_instruction load kb) \<lparr>planned = [], edited = [], unchanged = []\<rparr> instructions of
        Inl e \<Rightarrow> (kb, Inl e)
      | Inr plan \<Rightarrow>
          (fold (\<lambda>(path, new_text). dict_set path new_text) (planned plan) kb,
           Inr (sort (edited plan), sort (unchanged plan))))"

text \<open>\<open>main\<close> after the instructions were decoded: the exit code, or an exception that is not caught\<close>

datatype main_outcome = Exit nat | Uncaught

definition statuses_main :: "yaml_loader \<Rightarrow> kb_files \<Rightarrow> json \<Rightarrow> kb_files \<times> main_outcome" where
  "statuses_main load kb instructions =
     (case instructions of
        JList is \<Rightarrow>
          (case apply_all load kb is of
             (kb', Inr _) \<Rightarrow> (kb', Exit 0)
           | (kb', Inl (StatusWriteError _)) \<Rightarrow> (kb', Exit 1)
           | (kb', Inl (ValueErr _)) \<Rightarrow> (kb', Exit 1)
           | (kb', Inl (KeyErr _)) \<Rightarrow> (kb', Exit 1)
           | (kb', Inl _) \<Rightarrow> (kb', Uncaught))
      | _ \<Rightarrow> (kb, Exit 1))"

section \<open>The documented edit, on lines\<close>

abbreviation unlines :: "string list \<Rightarrow> string" where
  "unlines ls \<equiv> concat (map (\<lambda>l. l @ [NL]) ls)"

definition lines_ok :: "string list \<Rightarrow> bool" where
  "lines_ok ls = list_all (\<lambda>l. NL \<notin> set l \<and> l \<noteq> ''---'') ls"

definition status_line :: "string \<Rightarrow> string" where
  "status_line status = ''status: '' @ status"

definition edit_lines :: "string \<Rightarrow> string option \<Rightarrow> string list \<Rightarrow> string list option" where
  "edit_lines status line ls =
     (case first_line is_status ls of
        None \<Rightarrow> None
      | Some (a, _, b) \<Rightarrow>
          let s = status_line status in
          Some (case line of
                  None \<Rightarrow> a @ s # b
                | Some l \<Rightarrow>
                    (case first_line is_contamination (a @ s # b) of
                       Some (c, _, d) \<Rightarrow> c @ l # dropWhile is_indented d
                     | None \<Rightarrow> a @ s # l # b)))"

text \<open>Templates that stand for themselves: a backslash only before a character that is no escape\<close>

fun neutral :: "string \<Rightarrow> bool" where
  "neutral [] \<longleftrightarrow> True"
| "neutral [c] \<longleftrightarrow> c \<noteq> CHR 0x5C"
| "neutral (c # d # r) \<longleftrightarrow>
     (if c \<noteq> CHR 0x5C then neutral (d # r)
      else \<not> is_alpha_ascii d \<and> \<not> is_digit d \<and> d \<noteq> CHR 0x5C \<and> neutral r)"

definition safe_instruction :: "(string, json) dict \<Rightarrow> bool" where
  "safe_instruction i \<longleftrightarrow>
     (case dict_get i ''status'' of Some (JStr s) \<Rightarrow> NL \<notin> set s \<and> neutral s | _ \<Rightarrow> False)
     \<and> (case dict_get i ''contamination'' of
          None \<Rightarrow> True
        | Some v \<Rightarrow> (case contamination_line v of Inl _ \<Rightarrow> True | Inr line \<Rightarrow> NL \<notin> set (butlast line) \<and> neutral line))"

definition status_of :: "(string, json) dict \<Rightarrow> string" where
  "status_of i = (case dict_get i ''status'' of Some (JStr s) \<Rightarrow> s | _ \<Rightarrow> [])"

definition instruction_line :: "(string, json) dict \<Rightarrow> string option" where
  "instruction_line i =
     (case dict_get i ''contamination'' of
        None \<Rightarrow> None
      | Some v \<Rightarrow> (case contamination_line v of Inl _ \<Rightarrow> None | Inr line \<Rightarrow> Some (butlast line)))"

text \<open>The lines between the fences, and what follows the closing fence\<close>

definition front_lines :: "string \<Rightarrow> string list" where
  "front_lines t = (case fence_end t of None \<Rightarrow> [] | Some e \<Rightarrow> butlast (split_on NL (slice (length FENCE) (e + 1) t)))"

definition after_fence :: "string \<Rightarrow> string" where
  "after_fence t = (case fence_end t of None \<Rightarrow> [] | Some e \<Rightarrow> drop (e + length CLOSING) t)"

lemma escape_neutral:
  assumes "\<not> is_alpha_ascii d" and "\<not> is_digit d" and "d \<noteq> CHR 0x5C"
  shows "escape_step m d r = Some ([CHR 0x5C, d], r)"
proof -
  have "dict_get ESCAPES d = None"
  proof (rule ccontr)
    assume "dict_get ESCAPES d \<noteq> None"
    then have "d \<in> fst ` set ESCAPES" by (simp add: map_of_eq_None_iff)
    then have "d \<in> set ''abfnrtv'' \<or> d = CHR 0x5C" by (simp add: ESCAPES_def)
    moreover have "list_all is_alpha_ascii ''abfnrtv''"
      by (simp add: is_alpha_ascii_def is_lower_def less_eq_char_def)
    ultimately show False using assms(1,3) by (auto simp only: list_all_iff)
  qed
  moreover have "is_alpha_ascii (CHR ''g'')" "is_digit (CHR ''0'')"
    by (simp_all add: is_alpha_ascii_def is_lower_def is_digit_def less_eq_char_def)
  then have "d \<noteq> CHR ''g''" "d \<noteq> CHR ''0''" using assms by auto
  ultimately show ?thesis using assms by (simp add: escape_step_def)
qed

lemma expand_neutral: "neutral t \<Longrightarrow> expand m t = Some t"
proof (induction t rule: neutral.induct)
  case (3 c d r)
  show ?case
  proof (cases "c = CHR 0x5C")
    case True
    with 3 show ?thesis by (simp add: expand.simps [of m "CHR 0x5C # d # r"] escape_neutral)
  next
    case False
    with 3 show ?thesis by (simp add: expand.simps [of m "c # d # r"])
  qed
qed (simp_all add: expand.simps)

lemma neutral_append_plain: "list_all (\<lambda>c. c \<noteq> CHR 0x5C) p \<Longrightarrow> neutral (p @ t) = neutral t"
  by (induction p rule: neutral.induct) (cases t; simp)+

lemma split_on_unlines: "list_all (\<lambda>l. NL \<notin> set l) ls \<Longrightarrow> split_on NL (unlines ls) = ls @ [[]]"
  by (rule split_on_lines)

lemma join_unlines: "join [NL] (ls @ [[]]) = unlines ls"
  by (induction ls rule: induct_list012) auto

lemma first_line_Some:
  "first_line p ls = Some (a, m, b) \<Longrightarrow> ls = a @ m # b \<and> p m \<and> list_all (\<lambda>l. \<not> p l) a"
  by (induction ls arbitrary: a) (auto split: if_splits)

lemma first_line_None: "first_line p ls = None \<longleftrightarrow> list_all (\<lambda>l. \<not> p l) ls"
  by (induction ls) auto

lemma first_line_append: "list_all (\<lambda>l. \<not> p l) a \<Longrightarrow> p m \<Longrightarrow> first_line p (a @ m # b) = Some (a, m, b)"
  by (induction a) auto

lemma first_line_snoc:
  assumes "\<not> p x"
  shows "first_line p (ls @ [x]) = map_option (\<lambda>(a, m, b). (a, m, b @ [x])) (first_line p ls)"
  using assms by (induction ls) (auto simp: option.map_comp o_def split_beta)

lemma not_keyword_Nil [simp]: "\<not> is_status []" "\<not> is_contamination []"
  by (simp_all add: is_status_def is_contamination_def startswith_def)

lemma status_search_lines:
  "list_all (\<lambda>l. NL \<notin> set l) ls \<Longrightarrow> status_search (unlines ls) \<longleftrightarrow> first_line is_status ls \<noteq> None"
  by (simp add: status_search_def split_on_unlines first_line_snoc)

lemma status_sub_lines:
  assumes "list_all (\<lambda>l. NL \<notin> set l) ls" and "first_line is_status ls = Some (a, m, b)" and "f m = Some t"
  shows "status_sub f (unlines ls) = Some (unlines (a @ t # b))"
  using assms join_unlines [of "a @ t # b"] by (simp add: status_sub_def split_on_unlines first_line_snoc)

lemma contamination_block_lines:
  assumes "list_all (\<lambda>l. NL \<notin> set l) ls"
  shows "contamination_block (unlines ls) =
    map_option (\<lambda>(c, m, d). (unlines c, unlines (m # takeWhile is_indented d), unlines (dropWhile is_indented d)))
      (first_line is_contamination ls)"
  using assms by (simp add: contamination_block_def split_on_unlines Let_def)

lemma contamination_line_ends: "contamination_line v = Inr line \<Longrightarrow> \<exists>l. line = l @ [NL]"
  by (auto simp: contamination_line_def res_bind_Inr_iff split: json.splits)

lemma butlast_NL: "line = l @ [NL] \<Longrightarrow> NL \<notin> set l \<Longrightarrow> rstrip_by (\<lambda>c. c = NL) line = l"
  by (cases l rule: rev_cases) (auto simp: rstrip_by_def)

section \<open>The text edit implements the line edit\<close>

definition contamination_text :: "json option \<Rightarrow> string option \<Rightarrow> bool" where
  "contamination_text c line \<longleftrightarrow>
     c = None \<and> line = None
     \<or> (\<exists>v l. c = Some v \<and> contamination_line v = Inr (l @ [NL]) \<and> NL \<notin> set l \<and> neutral (l @ [NL]) \<and> line = Some l)"

lemma put_contamination_lines:
  assumes ls: "list_all (\<lambda>l. NL \<notin> set l) ls" and sts: "first_line is_status ls = Some (a, s, b)"
    and v: "contamination_line v = Inr (l @ [NL])" "NL \<notin> set l" "neutral (l @ [NL])"
  shows "put_contamination v (unlines ls) =
    Inr (unlines (case first_line is_contamination ls of
                    Some (c, _, d) \<Rightarrow> c @ l # dropWhile is_indented d | None \<Rightarrow> a @ s # l # b))"
proof (cases "first_line is_contamination ls")
  case None
  have "status_sub (\<lambda>m. Some (m @ NL # rstrip_by (\<lambda>c. c = NL) (l @ [NL]))) (unlines ls) =
      Some (unlines (a @ (s @ NL # l) # b))"
    using butlast_NL [OF refl v(2)] by (intro status_sub_lines [OF ls sts]) simp
  then show ?thesis
    using v(1) None contamination_block_lines [OF ls] by (simp add: put_contamination_def)
next
  case (Some x)
  then obtain c m d where "first_line is_contamination ls = Some (c, m, d)" by (cases x) auto
  then show ?thesis
    using v(1) contamination_block_lines [OF ls] expand_neutral [OF v(3)] by (simp add: put_contamination_def)
qed

lemma edit_head_lines:
  assumes ls: "list_all (\<lambda>l. NL \<notin> set l) ls" and st: "NL \<notin> set status" "neutral status"
    and c: "contamination_text c line"
  shows "edit_head status c (unlines ls) =
    (case edit_lines status line ls of
       None \<Rightarrow> Inl (StatusWriteError ''front-matter has no top-level status: line'')
     | Some ls' \<Rightarrow> Inr (unlines ls'))"
proof (cases "first_line is_status ls")
  case None
  then show ?thesis by (simp add: edit_head_def edit_lines_def status_search_lines [OF ls])
next
  case (Some x)
  then obtain a m b where amb: "first_line is_status ls = Some (a, m, b)" by (cases x) auto
  define s where "s = ''status: '' @ status"
  have "expand m s = Some s" for m
    unfolding s_def by (rule expand_neutral) (subst neutral_append_plain, simp_all add: st)
  then have sub: "status_sub (\<lambda>m. expand m s) (unlines ls) = Some (unlines (a @ s # b))"
    by (rule status_sub_lines [OF ls amb])
  have srch: "status_search (unlines ls)" using amb by (simp add: status_search_lines [OF ls])
  have nl: "list_all (\<lambda>l. NL \<notin> set l) (a @ s # b)"
    using ls st(1) first_line_Some [OF amb] by (auto simp: s_def)
  have sts: "first_line is_status (a @ s # b) = Some (a, s, b)"
    using first_line_Some [OF amb] by (intro first_line_append) (simp_all add: s_def is_status_def startswith_def)
  show ?thesis
    using c sub srch amb put_contamination_lines [OF nl sts]
    unfolding contamination_text_def edit_head_def edit_lines_def status_line_def s_def [symmetric] Let_def
    by (auto simp del: map_append)
qed

lemma find_text_Some:
  "find_text p s = Some i \<Longrightarrow> startswith (drop i s) p \<and> (\<forall>j < i. \<not> startswith (drop j s) p)"
proof (induction s arbitrary: i)
  case (Cons c s)
  show ?case
  proof (cases "startswith (c # s) p")
    case False
    with Cons.prems obtain i' where i: "i = Suc i'" "find_text p s = Some i'" by auto
    from Cons.IH [OF i(2)] False show ?thesis unfolding i(1) by (auto simp: less_Suc_eq_0_disj)
  qed (use Cons.prems in auto)
qed (auto simp: startswith_def split: if_splits)

lemma split_on_absent: "l \<in> set (split_on c s) \<Longrightarrow> c \<notin> set l"
  by (induction s arbitrary: l) (auto split: if_splits list.splits)

lemma split_on_nonempty [simp]: "split_on c s \<noteq> []"
  by (cases s) (auto split: list.splits)

lemma split_on_snoc: "split_on c (s @ [c]) = split_on c s @ [[]]"
  by (induction s) (auto split: list.splits)

lemma join_split_on: "join [c] (split_on c s) = s"
proof (induction s)
  case (Cons x s)
  obtain l ls where "split_on c s = l # ls" by (cases "split_on c s") auto
  with Cons show ?case by (cases ls) auto
qed simp

lemma unlines_front:
  assumes "head = [] \<or> last head = NL"
  shows "unlines (butlast (split_on NL head)) = head"
proof (cases head rule: rev_cases)
  case (snoc w c)
  with assms have "butlast (split_on NL head) = split_on NL w" by (simp add: split_on_snoc)
  then show ?thesis using join_lines [of "split_on NL w" NL] assms snoc by (simp add: join_split_on)
qed simp

text \<open>The text up to the first closing fence, which the search finds from the newline of the opening one\<close>

lemma fence_end_Some:
  assumes "startswith t FENCE" and "fence_end t = Some e"
  obtains head r where "t = FENCE @ head @ FENCE @ r" and "e = 3 + length head"
    and "head = [] \<or> last head = NL" and "\<forall>j < length head. \<not> startswith (drop j (NL # head @ FENCE @ r)) CLOSING"
proof -
  obtain v where t: "t = FENCE @ v" using assms(1) by (auto simp: startswith_iff)
  let ?u = "NL # v"
  have "drop (length FENCE - 1) t = ?u" unfolding t by (simp add: FENCE_def)
  then obtain i where i: "find_text CLOSING ?u = Some i" and e: "e = i + 3"
    using assms(2) unfolding fence_end_def by (auto simp: FENCE_def)
  note found = find_text_Some [OF i]
  obtain r where "drop i ?u = CLOSING @ r" using found by (auto simp: startswith_iff)
  then have split: "?u = take i ?u @ NL # FENCE @ r" by (metis append_take_drop_id CLOSING_def FENCE_def append_Cons)
  have len: "length (take i ?u) = i" using split by (metis append_eq_conv_conj append_take_drop_id length_take min.absorb2 nat_le_linear take_all_iff \<open>drop i ?u = CLOSING @ r\<close> CLOSING_def append_Cons drop_all list.discI)
  show thesis
  proof (cases "take i ?u")
    case Nil
    with split len e t found show thesis by (intro that [of "[]" r]) (auto simp: FENCE_def)
  next
    case (Cons x w)
    with split have x: "x = NL" and v: "v = w @ NL # FENCE @ r" by auto
    from len Cons have "i = length (w @ [NL])" by simp
    with v t e found show thesis by (intro that [of "w @ [NL]" r]) auto
  qed
qed

lemma fence_parts:
  assumes "startswith t FENCE" and "fence_end t = Some e"
  shows "t = FENCE @ unlines (front_lines t) @ FENCE @ after_fence t" and "lines_ok (front_lines t)"
    and "slice (length FENCE) (e + 1) t = unlines (front_lines t)" and "drop (e + 1) t = FENCE @ after_fence t"
proof -
  obtain head r where t: "t = FENCE @ head @ FENCE @ r" and e: "e = 3 + length head"
    and nl: "head = [] \<or> last head = NL" and first: "\<forall>j < length head. \<not> startswith (drop j (NL # head @ FENCE @ r)) CLOSING"
    using fence_end_Some [OF assms] .
  have len: "length FENCE = 4" by (simp add: FENCE_def)
  have head: "slice (length FENCE) (e + 1) t = head" unfolding slice_def t e by (simp add: len)
  have fl: "front_lines t = butlast (split_on NL head)" using assms(2) head by (simp add: front_lines_def)
  have hu: "head = unlines (front_lines t)" unfolding fl using unlines_front [OF nl] by simp
  have rest: "drop (e + 1) t = FENCE @ r" unfolding t e by (simp add: len)
  then have "drop 4 (drop (e + 1) t) = r" by (simp add: len)
  then have af: "after_fence t = r" using assms(2) by (simp add: after_fence_def CLOSING_def drop_drop eval_nat_numeral)
  show "slice (length FENCE) (e + 1) t = unlines (front_lines t)" using head hu by simp
  show "drop (e + 1) t = FENCE @ after_fence t" using rest af by simp
  show "t = FENCE @ unlines (front_lines t) @ FENCE @ after_fence t" using t hu af by simp
  have "''---'' \<notin> set (front_lines t)"
  proof
    assume "''---'' \<in> set (front_lines t)"
    then obtain p q where "front_lines t = p @ ''---'' # q" by (auto simp: in_set_conv_decomp)
    with hu have h: "head = unlines p @ ''---'' @ NL # unlines q" by simp
    have shift: "NL # unlines p = concat (map (\<lambda>l. NL # l) p) @ [NL]" by (rule concat_lines_shift)
    then have "length (unlines p) = length (concat (map (\<lambda>l. NL # l) p))"
      by (metis One_nat_def add_Suc_right add_right_imp_eq length_Cons length_append list.size(3) add_0_right nat.inject)
    moreover have "NL # unlines p @ x = concat (map (\<lambda>l. NL # l) p) @ NL # x" for x
      using arg_cong [OF shift, of "\<lambda>y. y @ x"] by simp
    ultimately have "drop (length (unlines p)) (NL # unlines p @ x) = NL # x" for x
      by (metis append_eq_conv_conj)
    then have "startswith (drop (length (unlines p)) (NL # head @ FENCE @ r)) CLOSING"
      unfolding h by (simp add: CLOSING_def startswith_def)
    then show False using first h by simp
  qed
  then show "lines_ok (front_lines t)"
    using split_on_absent [of _ NL head] unfolding lines_ok_def fl list_all_iff by (metis in_set_butlastD)
qed

section \<open>What a successful edit leaves\<close>

lemma split_Some:
  assumes "split load t = Inr (Some d, b)"
  shows "startswith t FENCE" and "\<exists>e. fence_end t = Some e" and "b = after_fence t"
  using assms
  by (auto simp: split_def after_fence_def split: if_splits option.splits sum.splits yaml_error.splits yaml.splits)

lemma parts_of_block:
  assumes "lines_ok ls"
  shows "front_lines (FENCE @ unlines ls @ FENCE @ r) = ls" and "after_fence (FENCE @ unlines ls @ FENCE @ r) = r"
    and "fence_end (FENCE @ unlines ls @ FENCE @ r) = Some (3 + length (unlines ls))"
proof -
  let ?t = "FENCE @ unlines ls @ FENCE @ r"
  show e: "fence_end ?t = Some (3 + length (unlines ls))"
    using assms by (intro fence_end_block [where ls = ls]) (simp_all add: lines_ok_def)
  have s: "startswith ?t FENCE" by simp
  have len: "length FENCE = 4" by (simp add: FENCE_def)
  have "slice (length FENCE) (3 + length (unlines ls) + 1) ?t = unlines ls" by (simp add: slice_def len)
  moreover have "list_all (\<lambda>l. NL \<notin> set l) ls" using assms by (simp add: lines_ok_def list_all_iff)
  ultimately show "front_lines ?t = ls" by (simp add: front_lines_def e split_on_unlines)
  from fence_parts(4) [OF s e] show "after_fence ?t = r" by (simp add: len)
qed

lemma keyword_not_fence: "l = status_line x \<or> is_contamination l \<Longrightarrow> l \<noteq> ''---''"
  by (auto simp: status_line_def is_contamination_def startswith_def)

lemma NL_status_line [simp]: "NL \<in> set (status_line s) \<longleftrightarrow> NL \<in> set s"
  by (simp add: status_line_def)

lemma edit_lines_set:
  assumes "edit_lines status line ls = Some ls'"
  shows "set ls' \<subseteq> set ls \<union> {status_line status} \<union> set_option line"
proof -
  obtain a m b where amb: "first_line is_status ls = Some (a, m, b)"
    using assms by (auto simp: edit_lines_def split: option.splits)
  have ls: "ls = a @ m # b" using first_line_Some [OF amb] by simp
  have sub: "set c \<union> set (dropWhile is_indented d) \<subseteq> set (a @ s # b)"
    if "first_line is_contamination (a @ s # b) = Some (c, x, d)" for c x d s
    using first_line_Some [OF that] by (auto dest: set_dropWhileD)
  show ?thesis
    using assms amb sub unfolding edit_lines_def ls by (fastforce simp: Let_def split: option.splits)
qed

lemma contamination_line_keyword: "contamination_line v = Inr (l @ [NL]) \<Longrightarrow> is_contamination l"
  by (auto simp: contamination_line_def res_bind_Inr_iff is_contamination_def startswith_def split: json.splits)

lemma contamination_text_of:
  assumes "safe_instruction i"
    and "\<And>v. dict_get i ''contamination'' = Some v \<Longrightarrow> \<exists>line. contamination_line v = Inr line"
  shows "contamination_text (dict_get i ''contamination'') (instruction_line i)"
proof (cases "dict_get i ''contamination''")
  case (Some v)
  then obtain line where line: "contamination_line v = Inr line" using assms(2) by blast
  obtain l where l: "line = l @ [NL]" using contamination_line_ends [OF line] by blast
  then show ?thesis
    using assms(1) Some line by (simp add: contamination_text_def instruction_line_def safe_instruction_def)
qed (simp add: contamination_text_def instruction_line_def)

lemma edited_lines_ok:
  assumes "lines_ok ls" and "contamination_text c line" and "NL \<notin> set status"
    and "edit_lines status line ls = Some ls'"
  shows "lines_ok ls'"
proof -
  have "NL \<notin> set l \<and> l \<noteq> ''---''" if "l \<in> set_option line" for l
    using that assms(2) keyword_not_fence [of l] contamination_line_keyword by (auto simp: contamination_text_def)
  then show ?thesis
    using edit_lines_set [OF assms(4)] assms(1,3) keyword_not_fence [OF disjI1, OF refl, of status]
    unfolding lines_ok_def list_all_iff by auto
qed

lemma edit_head_line: "edit_head status (Some v) head = Inr h \<Longrightarrow> \<exists>line. contamination_line v = Inr line"
  by (cases "contamination_line v") (auto simp: edit_head_def put_contamination_def split: if_splits option.splits)

text \<open>The shape of every edit that went through\<close>

lemma apply_instruction_shape:
  assumes "apply_instruction load t i = Inr t'" and "safe_instruction i"
  shows "startswith t FENCE" and "\<exists>e. fence_end t = Some e" and "status_of i \<noteq> []"
    and "dict_get i ''status'' = Some (JStr (status_of i))"
    and "contamination_text (dict_get i ''contamination'') (instruction_line i)"
    and "\<exists>ls'. edit_lines (status_of i) (instruction_line i) (front_lines t) = Some ls' \<and> lines_ok ls'
           \<and> t' = FENCE @ unlines ls' @ FENCE @ after_fence t"
    and "checked load t (status_of i) (dict_get i ''contamination'') t' = Inr t'"
proof -
  show st: "startswith t FENCE" using assms(1) by (auto simp: apply_instruction_def split: if_splits)
  from assms(1) obtain e where e: "fence_end t = Some e"
    by (auto simp: apply_instruction_def split: if_splits option.splits)
  then show "\<exists>e. fence_end t = Some e" by blast
  have sd: "dict_get i ''status'' = Some (JStr (status_of i))" "NL \<notin> set (status_of i)" "neutral (status_of i)"
    using assms(2) by (auto simp: safe_instruction_def status_of_def split: option.splits json.splits)
  then show "dict_get i ''status'' = Some (JStr (status_of i))" by simp
  from assms(1) st e sd show ne: "status_of i \<noteq> []" by (auto simp: apply_instruction_def)
  note parts = fence_parts [OF st e]
  obtain head where head: "edit_head (status_of i) (dict_get i ''contamination'') (unlines (front_lines t)) = Inr head"
    and chk: "checked load t (status_of i) (dict_get i ''contamination'') (FENCE @ head @ FENCE @ after_fence t) = Inr t'"
    using assms(1) st e sd(1) ne parts(3,4) by (auto simp: apply_instruction_def res_bind_Inr_iff)
  have "\<exists>line. contamination_line v = Inr line" if "dict_get i ''contamination'' = Some v" for v
    using head unfolding that by (rule edit_head_line)
  from contamination_text_of [OF assms(2) this]
  show ct: "contamination_text (dict_get i ''contamination'') (instruction_line i)" .
  have "list_all (\<lambda>l. NL \<notin> set l) (front_lines t)" using parts(2) by (simp add: lines_ok_def list_all_iff)
  from edit_head_lines [OF this sd(2,3) ct] head
  obtain ls' where ls': "edit_lines (status_of i) (instruction_line i) (front_lines t) = Some ls'" "head = unlines ls'"
    by (auto split: option.splits)
  have t': "t' = FENCE @ head @ FENCE @ after_fence t"
    using chk by (auto simp: checked_def split: sum.splits prod.splits option.splits if_splits)
  show "\<exists>ls'. edit_lines (status_of i) (instruction_line i) (front_lines t) = Some ls' \<and> lines_ok ls'
           \<and> t' = FENCE @ unlines ls' @ FENCE @ after_fence t"
    using ls' t' edited_lines_ok [OF parts(2) ct sd(2)] by blast
  show "checked load t (status_of i) (dict_get i ''contamination'') t' = Inr t'" using chk t' by simp
qed

section \<open>Editing twice\<close>

text \<open>The status line is not continued by an indented line, which an inserted contamination line would take over.\<close>

definition status_alone :: "string list \<Rightarrow> bool" where
  "status_alone ls =
     (case first_line is_status ls of Some (_, _, b) \<Rightarrow> b = [] \<or> \<not> is_indented (hd b) | None \<Rightarrow> True)"

lemma first_line_filter: "first_line p ls = Some (a, m, b) \<Longrightarrow> filter p ls = m # filter p b"
  using first_line_Some [of p ls a m b] by (auto simp: filter_empty_conv list_all_iff)

lemma filter_first_line: "filter p ls = m # ms \<Longrightarrow> \<exists>a b. first_line p ls = Some (a, m, b)"
  by (induction ls) (auto split: if_splits)

lemma contamination_not_status: "is_contamination l \<Longrightarrow> \<not> is_status l"
  by (cases l) (auto simp: is_contamination_def is_status_def startswith_def)

lemma indented_not_status: "is_indented l \<Longrightarrow> \<not> is_status l"
  by (cases l) (auto simp: is_indented_def is_status_def startswith_def)

lemma filter_dropWhile: "(\<And>x. q x \<Longrightarrow> \<not> p x) \<Longrightarrow> filter p (dropWhile q xs) = filter p xs"
  by (induction xs) auto

lemma edit_lines_again:
  assumes "edit_lines status line ls = Some ls'" and "\<And>l. line = Some l \<Longrightarrow> is_contamination l" and "status_alone ls"
  shows "edit_lines status line ls' = Some ls'"
proof -
  define s where "s = status_line status"
  have s: "is_status s" by (simp add: s_def status_line_def is_status_def startswith_def)
  obtain a m b where amb: "first_line is_status ls = Some (a, m, b)"
    using assms(1) by (auto simp: edit_lines_def split: option.splits)
  note a = first_line_Some [OF amb]
  have asb: "first_line is_status (a @ s # b) = Some (a, s, b)" using a s by (simp add: first_line_append)
  show ?thesis
  proof (cases line)
    case None
    then show ?thesis using assms(1) amb asb by (auto simp: edit_lines_def Let_def simp flip: s_def)
  next
    case (Some l)
    then have l: "is_contamination l" "\<not> is_status l" using assms(2) contamination_not_status by auto
    show ?thesis
    proof (cases "first_line is_contamination (a @ s # b)")
      case None
      then have ls': "ls' = a @ s # l # b" using assms(1) amb Some by (auto simp: edit_lines_def Let_def simp flip: s_def)
      have "first_line is_contamination ((a @ [s]) @ l # b) = Some (a @ [s], l, b)"
        using None l by (intro first_line_append) (auto simp: first_line_None)
      moreover have "dropWhile is_indented b = b" using assms(3) amb by (cases b) (auto simp: status_alone_def)
      moreover have "first_line is_status ls' = Some (a, s, l # b)" unfolding ls' using a s by (simp add: first_line_append)
      ultimately show ?thesis unfolding ls' using Some by (simp add: edit_lines_def Let_def flip: s_def)
    next
      case (Some x)
      then obtain c y d where cd: "first_line is_contamination (a @ s # b) = Some (c, y, d)" by (cases x) auto
      note c = first_line_Some [OF cd]
      have ls': "ls' = c @ l # dropWhile is_indented d"
        using assms(1) amb \<open>line = Some l\<close> cd by (auto simp: edit_lines_def Let_def simp flip: s_def)
      have "filter is_status ls' = filter is_status (a @ s # b)"
        unfolding ls' conjunct1 [OF c] using c l contamination_not_status [of y] indented_not_status
        by (simp add: filter_dropWhile)
      then obtain a' b' where ab': "first_line is_status ls' = Some (a', s, b')"
        using first_line_filter [OF asb] filter_first_line by metis
      have "first_line is_contamination ls' = Some (c, l, dropWhile is_indented d)"
        unfolding ls' using c l by (simp add: first_line_append)
      then show ?thesis
        using ab' first_line_Some [OF ab'] \<open>line = Some l\<close> ls' by (simp add: edit_lines_def Let_def flip: s_def)
    qed
  qed
qed

lemma checked_again:
  assumes "checked load t status c t' = Inr t'"
  shows "checked load t' status c t' = Inr t'"
  using assms by (auto simp: checked_def split: sum.splits prod.splits option.splits if_splits)

lemma apply_instruction_again:
  assumes "apply_instruction load t i = Inr t'" and "safe_instruction i" and "status_alone (front_lines t)"
  shows "apply_instruction load t' i = Inr t'"
proof -
  note sh = apply_instruction_shape [OF assms(1,2)]
  obtain ls' where ls': "edit_lines (status_of i) (instruction_line i) (front_lines t) = Some ls'" "lines_ok ls'"
    and t': "t' = FENCE @ unlines ls' @ FENCE @ after_fence t"
    using sh(6) by blast
  have key: "is_contamination l" if "instruction_line i = Some l" for l
    using sh(5) that contamination_line_keyword by (auto simp: contamination_text_def)
  have again: "edit_lines (status_of i) (instruction_line i) ls' = Some ls'"
    by (rule edit_lines_again [OF ls'(1) key assms(3)])
  have st: "startswith t' FENCE" unfolding t' by simp
  note pb = parts_of_block [OF ls'(2), of "after_fence t", folded t']
  note parts = fence_parts [OF st pb(3), unfolded pb(1,2)]
  have safe: "NL \<notin> set (status_of i)" "neutral (status_of i)"
    using assms(2) sh(4) by (simp_all add: safe_instruction_def)
  have "list_all (\<lambda>l. NL \<notin> set l) ls'" using ls'(2) by (simp add: lines_ok_def list_all_iff)
  from edit_head_lines [OF this safe sh(5)] again
  have "edit_head (status_of i) (dict_get i ''contamination'') (unlines ls') = Inr (unlines ls')" by simp
  then show ?thesis
    using st pb(3) sh(3,4) parts(3,4) checked_again [OF sh(7)]
    by (simp add: apply_instruction_def t' [symmetric])
qed

section \<open>All instructions\<close>

text \<open>One instruction against the files as they were: the document, its text and its new text\<close>

definition edit_of :: "yaml_loader \<Rightarrow> kb_files \<Rightarrow> json \<Rightarrow> (status_error, string \<times> string \<times> string) result" where
  "edit_of load kb instruction =
     (case instruction of
        JObj d \<Rightarrow>
          (case dict_get d ''doc'' of
             None \<Rightarrow> Inl (KeyErr ''doc'')
           | Some (JStr rel) \<Rightarrow>
               (case dict_get kb rel of
                  None \<Rightarrow> Inl (StatusWriteError (rel @ '': no such doc''))
                | Some bytes \<Rightarrow>
                    (case apply_instruction load (universal_nl bytes) d of
                       Inl (StatusWriteError m) \<Rightarrow> Inl (StatusWriteError (rel @ '': '' @ m))
                     | Inl e \<Rightarrow> Inl e
                     | Inr new_text \<Rightarrow> Inr (rel, universal_nl bytes, new_text)))
           | Some _ \<Rightarrow> Inl TypeErr)
      | _ \<Rightarrow> Inl TypeErr)"

definition changes :: "(string \<times> string \<times> string) list \<Rightarrow> (string \<times> string) list" where
  "changes es = map (\<lambda>(rel, _, new_text). (rel, new_text)) (filter (\<lambda>(_, old, new_text). new_text \<noteq> old) es)"

definition untouched :: "(string \<times> string \<times> string) list \<Rightarrow> string list" where
  "untouched es = map fst (filter (\<lambda>(_, old, new_text). new_text = old) es)"

lemma plan_instruction_edit:
  "plan_instruction load kb plan i = res_bind (edit_of load kb i) (\<lambda>e. Inr
     (plan\<lparr>planned := planned plan @ changes [e], edited := edited plan @ map fst (changes [e]),
           unchanged := unchanged plan @ untouched [e]\<rparr>))"
  by (cases i)
     (auto simp: plan_instruction_def edit_of_def changes_def untouched_def
       split: option.splits json.splits sum.splits status_error.splits)

lemma changes_Cons: "changes (e # es) = changes [e] @ changes es" and untouched_Cons: "untouched (e # es) = untouched [e] @ untouched es"
  by (simp_all add: changes_def untouched_def)

lemma plan_fold:
  "res_fold (plan_instruction load kb) plan is = res_bind (res_map (edit_of load kb) is) (\<lambda>es. Inr
     (plan\<lparr>planned := planned plan @ changes es, edited := edited plan @ map fst (changes es),
           unchanged := unchanged plan @ untouched es\<rparr>))"
proof (induction "is" arbitrary: plan)
  case Nil
  then show ?case by (simp add: changes_def untouched_def)
next
  case (Cons i "is")
  show ?case
  proof (cases "edit_of load kb i")
    case (Inr e)
    note e = Inr
    show ?thesis
    proof (cases "res_map (edit_of load kb) is")
      case (Inr es)
      then show ?thesis
        using e Cons.IH
        by (simp add: plan_instruction_edit [of _ _ _ i] changes_Cons [of e es] untouched_Cons [of e es])
    qed (simp add: e Cons.IH plan_instruction_edit [of _ _ _ i])
  qed (simp add: plan_instruction_edit)
qed

lemma apply_all_edits:
  "apply_all load kb is =
     (case res_map (edit_of load kb) is of
        Inl e \<Rightarrow> (kb, Inl e)
      | Inr es \<Rightarrow> (fold (\<lambda>(path, new_text). dict_set path new_text) (changes es) kb,
                  Inr (sort (map fst (changes es)), sort (untouched es))))"
  unfolding apply_all_def plan_fold by (cases "res_map (edit_of load kb) is") simp_all

section \<open>Running the sync again\<close>

abbreviation CR :: char where
  "CR \<equiv> CHR 0x0D"

lemma universal_nl_no_CR: "CR \<notin> set (universal_nl s)"
  by (induction s rule: universal_nl.induct) auto

lemma universal_nl_id: "CR \<notin> set s \<Longrightarrow> universal_nl s = s"
  by (induction s) auto

definition doc_of :: "json \<Rightarrow> string" where
  "doc_of i = (case i of JObj d \<Rightarrow> (case dict_get d ''doc'' of Some (JStr rel) \<Rightarrow> rel | _ \<Rightarrow> []) | _ \<Rightarrow> [])"

definition rerun_safe :: "kb_files \<Rightarrow> json \<Rightarrow> bool" where
  "rerun_safe kb i =
     (case i of
        JObj d \<Rightarrow>
          safe_instruction d \<and> CR \<notin> set (status_of d)
          \<and> (case instruction_line d of Some l \<Rightarrow> CR \<notin> set l | None \<Rightarrow> True)
          \<and> (case dict_get kb (doc_of i) of Some b \<Rightarrow> status_alone (front_lines (universal_nl b)) | None \<Rightarrow> True)
      | _ \<Rightarrow> False)"

lemma edited_no_CR:
  assumes "apply_instruction load t d = Inr t'" and "safe_instruction d" and "CR \<notin> set t"
    and "CR \<notin> set (status_of d)" and "\<And>l. instruction_line d = Some l \<Longrightarrow> CR \<notin> set l"
  shows "CR \<notin> set t'"
proof -
  note sh = apply_instruction_shape [OF assms(1,2)]
  obtain e where e: "fence_end t = Some e" using sh(2) by blast
  obtain ls' where ls': "edit_lines (status_of d) (instruction_line d) (front_lines t) = Some ls'"
    and t': "t' = FENCE @ unlines ls' @ FENCE @ after_fence t" using sh(6) by blast
  have "set t = set (FENCE @ unlines (front_lines t) @ FENCE @ after_fence t)"
    using fence_parts(1) [OF sh(1) e] by simp
  then have old: "CR \<notin> set (unlines (front_lines t))" "CR \<notin> set (after_fence t)" using assms(3) by auto
  have "CR \<notin> set l" if "l \<in> set ls'" for l
  proof -
    have "l \<in> set (front_lines t) \<or> l = status_line (status_of d) \<or> instruction_line d = Some l"
      using edit_lines_set [OF ls'] that by (cases "instruction_line d") auto
    then show ?thesis using old(1) assms(4,5) by (elim disjE) (auto simp: status_line_def split: if_splits)
  qed
  then show ?thesis using old(2) by (auto simp: t' FENCE_def)
qed

lemma edit_of_Inr:
  assumes "edit_of load kb i = Inr (rel, old, new_text)"
  obtains d bytes where "i = JObj d" "dict_get d ''doc'' = Some (JStr rel)" "dict_get kb rel = Some bytes"
    "old = universal_nl bytes" "apply_instruction load old d = Inr new_text" "doc_of i = rel"
  using assms
  by (auto simp: edit_of_def doc_of_def split: json.splits option.splits sum.splits status_error.splits)

lemma edit_of_again:
  assumes "edit_of load kb i = Inr (rel, old, new_text)" and "rerun_safe kb i"
    and "new_text = old \<Longrightarrow> dict_get kb' rel = dict_get kb rel" and "new_text \<noteq> old \<Longrightarrow> dict_get kb' rel = Some new_text"
  shows "edit_of load kb' i = Inr (rel, new_text, new_text)"
proof -
  obtain d bytes where i: "i = JObj d" "dict_get d ''doc'' = Some (JStr rel)" "dict_get kb rel = Some bytes"
    "old = universal_nl bytes" "doc_of i = rel" and ap: "apply_instruction load old d = Inr new_text"
    using edit_of_Inr [OF assms(1)] by metis
  show ?thesis
  proof (cases "new_text = old")
    case True
    then show ?thesis using assms(3) i ap by (simp add: edit_of_def)
  next
    case False
    have safe: "safe_instruction d" "status_alone (front_lines old)" "CR \<notin> set (status_of d)"
      "\<And>l. instruction_line d = Some l \<Longrightarrow> CR \<notin> set l"
      using assms(2) i by (auto simp: rerun_safe_def)
    have "universal_nl new_text = new_text"
      using edited_no_CR [OF ap safe(1) _ safe(3,4)] universal_nl_no_CR i(4) by (auto intro: universal_nl_id)
    then show ?thesis
      using assms(4) False i apply_instruction_again [OF ap safe(1,2)] by (simp add: edit_of_def)
  qed
qed

lemma res_map_pointwise:
  "res_map f xs = Inr ys \<Longrightarrow> (\<And>x y. x \<in> set xs \<Longrightarrow> y \<in> set ys \<Longrightarrow> f x = Inr y \<Longrightarrow> g x = Inr (h y)) \<Longrightarrow> res_map g xs = Inr (map h ys)"
  by (induction xs arbitrary: ys) (auto simp: res_bind_Inr_iff)

lemma res_map_Inr_map:
  "res_map f xs = Inr ys \<Longrightarrow> (\<And>x y. f x = Inr y \<Longrightarrow> k y = j x) \<Longrightarrow> map k ys = map j xs"
  by (induction xs arbitrary: ys) (auto simp: res_bind_Inr_iff)

lemma edits_docs: "res_map (edit_of load kb) is = Inr es \<Longrightarrow> map fst es = map doc_of is"
  by (rule res_map_Inr_map) (auto elim!: edit_of_Inr)

lemma changes_get:
  assumes "distinct (map fst es)" and "(rel, old, new_text) \<in> set es"
  shows "dict_get (fold (\<lambda>(path, x). dict_set path x) (changes es) kb) rel =
    (if new_text = old then dict_get kb rel else Some new_text)"
proof -
  have dist: "distinct (map fst (changes es))"
    using assms(1) by (auto simp: changes_def distinct_map inj_on_def split_beta)
  have "map_of (changes es) rel = (if new_text = old then None else Some new_text)"
  proof (cases "new_text = old")
    case True
    have "rel \<notin> fst ` set (changes es)"
      using assms True by (fastforce simp: changes_def distinct_map inj_on_def)
    then show ?thesis using True by (simp add: map_of_eq_None_iff)
  next
    case False
    have "(rel, new_text) \<in> set (changes es)" using assms(2) False by (force simp: changes_def)
    then show ?thesis using False dist by simp
  qed
  then show ?thesis by (simp add: alist.get_puts map_of_rev_distinct [OF dist] split: option.splits)
qed

section \<open>Properties\<close>

text \<open>C7. A status write changes only the lines it names (statuses.py \<open>apply_instruction\<close>): when an edit whose texts have no
  line end and no template escapes goes through, the result is the document with its status line and contamination block
  edited on the list of front matter lines (replaced in place, or inserted after the status line), every other line, the
  fences and all bytes after the closing fence are kept, and reading the result back gives the requested
  status and contamination and the old body.\<close>

theorem apply_instruction_exact:
  assumes "apply_instruction load t i = Inr t'" and "safe_instruction i"
  shows "\<exists>ls' d. t = FENCE @ unlines (front_lines t) @ FENCE @ after_fence t
    \<and> edit_lines (status_of i) (instruction_line i) (front_lines t) = Some ls'
    \<and> t' = FENCE @ unlines ls' @ FENCE @ after_fence t
    \<and> split load t' = Inr (Some d, after_fence t)
    \<and> py_get d ''status'' = JStr (status_of i)
    \<and> (case dict_get i ''contamination'' of None \<Rightarrow> True | Some v \<Rightarrow> json_equal (py_get d ''contamination'') v)"
proof -
  note sh = apply_instruction_shape [OF assms]
  obtain e where e: "fence_end t = Some e" using sh(2) by blast
  obtain ls' where ls': "edit_lines (status_of i) (instruction_line i) (front_lines t) = Some ls'" "lines_ok ls'"
    and t': "t' = FENCE @ unlines ls' @ FENCE @ after_fence t" using sh(6) by blast
  obtain d b where d: "split load t' = Inr (Some d, b)" "py_get d ''status'' = JStr (status_of i)"
    "case dict_get i ''contamination'' of None \<Rightarrow> True | Some v \<Rightarrow> json_equal (py_get d ''contamination'') v"
    using sh(7) by (auto simp: checked_def split: sum.splits prod.splits option.splits if_splits)
  have "b = after_fence t"
    using split_Some(3) [OF d(1)] parts_of_block(2) [OF ls'(2), of "after_fence t", folded t'] by simp
  then show ?thesis using fence_parts(1) [OF sh(1) e] ls' t' d by blast
qed

definition sample_doc :: string where
  "sample_doc = FENCE @ ''status: draft'' @ [NL] @ ''owner: x'' @ [NL] @ FENCE @ ''Body'' @ [NL]"

definition sample_edit :: "(string, json) dict" where
  "sample_edit = [(''doc'', JStr ''a.md''), (''status'', JStr ''stale''), (''contamination'', JNull)]"

definition sample_result :: string where
  "sample_result = FENCE @ ''status: stale'' @ [NL] @ ''contamination: null'' @ [NL] @ ''owner: x'' @ [NL] @ FENCE @ ''Body'' @ [NL]"

lemma sample_applies: "apply_instruction simple_load sample_doc sample_edit = Inr sample_result"
  by code_simp

lemma sample_safe: "safe_instruction sample_edit"
  by code_simp

theorem apply_instruction_exact_witness:
  "\<exists>d. split simple_load sample_result = Inr (Some d, after_fence sample_doc) \<and> py_get d ''status'' = JStr (status_of sample_edit)"
  using apply_instruction_exact [OF sample_applies sample_safe] by blast

text \<open>C9. All or nothing (statuses.py \<open>apply_all\<close>, \<open>main\<close>): every instruction is worked out against the files as they
  were; when one of them fails no file changes and the first failure is the outcome, otherwise exactly the changed documents are
  written, a later instruction for a document overriding an earlier one, and the report lists changed and unchanged documents in
  order. The exit code is 0 in the second case only.\<close>

theorem apply_all_exact:
  "apply_all load kb is =
     (case res_map (edit_of load kb) is of
        Inl e \<Rightarrow> (kb, Inl e)
      | Inr es \<Rightarrow> (fold (\<lambda>(path, new_text). dict_set path new_text) (changes es) kb,
                  Inr (sort (map fst (changes es)), sort (untouched es))))
   \<and> (snd (statuses_main load kb (JList is)) = Exit 0 \<longleftrightarrow> (\<exists>es. res_map (edit_of load kb) is = Inr es))
   \<and> fst (statuses_main load kb (JList is)) = fst (apply_all load kb is)"
proof -
  have "snd (statuses_main load kb (JList is)) = Exit 0 \<longleftrightarrow> (\<exists>es. res_map (edit_of load kb) is = Inr es)"
    by (auto simp: statuses_main_def apply_all_edits split: sum.splits status_error.splits)
  moreover have "fst (statuses_main load kb (JList is)) = fst (apply_all load kb is)"
    by (auto simp: statuses_main_def split: prod.splits sum.splits status_error.splits)
  ultimately show ?thesis using apply_all_edits by blast
qed

text \<open>Running the sync again changes nothing (statuses.py \<open>apply_all\<close>): after a run with one instruction per document, whose
  texts have no line ends and no template escapes and whose documents have no indented line under the status line, the same
  instructions leave every file byte for byte as it is and report every document as unchanged.\<close>

theorem apply_all_rerun:
  assumes "apply_all load kb is = (kb', Inr report)" and "distinct (map doc_of is)" and "list_all (rerun_safe kb) is"
  shows "apply_all load kb' is = (kb', Inr ([], sort (map doc_of is)))"
proof -
  obtain es where es: "res_map (edit_of load kb) is = Inr es"
    and kb': "kb' = fold (\<lambda>(path, new_text). dict_set path new_text) (changes es) kb"
    using assms(1) by (auto simp: apply_all_edits split: sum.splits)
  have docs: "map fst es = map doc_of is" by (rule edits_docs [OF es])
  let ?again = "\<lambda>(rel, old, new_text). (rel, new_text, new_text) :: string \<times> string \<times> string"
  have "res_map (edit_of load kb') is = Inr (map ?again es)"
  proof (rule res_map_pointwise [OF es])
    fix i y
    assume i: "i \<in> set is" and y: "y \<in> set es" and e: "edit_of load kb i = Inr y"
    obtain rel old new_text where yy: "y = (rel, old, new_text)" by (cases y) auto
    have g: "dict_get kb' rel = (if new_text = old then dict_get kb rel else Some new_text)"
      unfolding kb' using docs assms(2) y yy by (intro changes_get) auto
    have "rerun_safe kb i" using assms(3) i by (simp add: list_all_iff)
    then show "edit_of load kb' i = Inr (?again y)"
      using edit_of_again [OF e [unfolded yy]] g yy by simp
  qed
  moreover have "changes (map ?again es) = []" "untouched (map ?again es) = map fst es"
    by (auto simp: changes_def untouched_def filter_map comp_def split_beta filter_empty_conv)
  ultimately show ?thesis by (simp add: apply_all_edits docs)
qed

theorem apply_all_rerun_witness:
  "apply_all simple_load [(''a.md'', sample_result)] [JObj sample_edit] = ([(''a.md'', sample_result)], Inr ([], [''a.md'']))"
proof -
  have "apply_all simple_load [(''a.md'', sample_doc)] [JObj sample_edit] = ([(''a.md'', sample_result)], Inr ([''a.md''], []))"
    by code_simp
  moreover have "list_all (rerun_safe [(''a.md'', sample_doc)]) [JObj sample_edit]" by code_simp
  moreover have "distinct (map doc_of [JObj sample_edit])" by simp
  moreover have "sort (map doc_of [JObj sample_edit]) = [''a.md'']" by code_simp
  ultimately show ?thesis using apply_all_rerun by metis
qed

text \<open>An existing contamination line is replaced through a template: the escape of a newline in a quoted value becomes
  a newline of the file, the escape of a control character ends the run with an exception of \<open>re\<close>. The insertion of a new line
  has no such effect.\<close>

lemma template_mangles:
  "expand m (json_str [NL]) = Some [CHR 0x22, NL, CHR 0x22]" and "expand m (json_str [CHR 0x01]) = None"
proof -
  have 1: "json_str [NL] = [CHR 0x22, CHR 0x5C, CHR ''n'', CHR 0x22]" by code_simp
  have 2: "json_str [CHR 0x01] = [CHR 0x22, CHR 0x5C, CHR ''u'', CHR ''0'', CHR ''0'', CHR ''0'', CHR ''1'', CHR 0x22]"
    by code_simp
  have e: "escape_step m (CHR ''n'') r = Some ([NL], r)" "escape_step m (CHR ''u'') r = None" for r
    by (simp_all add: escape_step_def is_digit_def ESCAPES_def is_alpha_ascii_def is_lower_def less_eq_char_def)
  show "expand m (json_str [NL]) = Some [CHR 0x22, NL, CHR 0x22]" unfolding 1 by (simp add: expand.simps e)
  show "expand m (json_str [CHR 0x01]) = None" unfolding 2 by (simp add: expand.simps e)
qed

text \<open>A document with \<open>\r\n\<close> line ends is read without the \<open>\r\<close>, so that an edit drops them from the body as well.\<close>

lemma crlf_lost: "universal_nl [CHR ''a'', CR, NL, CHR ''b''] = [CHR ''a'', NL, CHR ''b'']"
  by simp

end
