(* ===== verification/Render.thy ===== *)
theory Render
  imports Delivery Naming Statuses
begin

text \<open>
  The renderer, \<open>src/generator/render.py\<close>: from snapshots and the existing tree to the machine-owned files of
  the knowledge base.

  The tree is a dict from paths relative to its root to contents; directories are not modelled. The Jinja2 templates
  are the parameter \<open>tmpl\<close>, from the template's name and its context, a JSON value, to text; \<open>load\<close> is
  \<open>yaml.safe_load\<close> and \<open>sch\<close> the JSON Schema check. Snapshots passed that check when their fields are read, so
  that a foreign key's reference has the dot its pattern demands and no name is empty (a path with an empty part would
  be a shorter path).
  The dash for an absent fact is one character above the code points of the model and is written as \<open>0x97\<close>.

  The cache of \<open>_human_info\<close> lives for one system: a path that the render also writes is read by its own body first,
  so that every read sees the tree as it was before the system's first write. \<open>body_for\<close> reads that tree.

  An exception leaves the files written so far, so an error carries the state.
\<close>

section \<open>State and errors\<close>

datatype render_error =
    InvalidSnapshot string "problem list"
  | DuplicateSystem string
  | PathCollision string string
  | Crash string

record render_state =
  rs_files :: kb_files
  rs_written :: "string list"
  rs_unchanged :: "string list"
  rs_deleted :: "string list"
  rs_bootstrapped :: "string list"

type_synonym 'a fallible = "(render_error, 'a) result"

type_synonym outcome = "(render_error \<times> render_state, render_state) result"

type_synonym templates = "string \<Rightarrow> json \<Rightarrow> string"

type_synonym human_reader = "string \<Rightarrow> (bool \<times> front_matter) fallible"

section \<open>Cells\<close>

definition DASH :: string where
  "DASH = [CHR 0x97]"

definition cell :: "string \<Rightarrow> string" where
  "cell t =
     replace_all [CR] ''<br>'' (replace_all [NL] ''<br>'' (replace_all [CR, NL] ''<br>''
       (replace_all ''|'' [CHR 0x5C, CHR ''|''] (replace_all [CHR 0x5C] [CHR 0x5C, CHR 0x5C] t))))"

definition code_cell :: "string \<Rightarrow> string" where
  "code_cell t = ''`'' @ cell t @ ''`''"

definition opt_cell :: "string option \<Rightarrow> string" where
  "opt_cell v = (case v of Some s \<Rightarrow> cell s | None \<Rightarrow> DASH)"

definition code_or_dash :: "string option \<Rightarrow> string" where
  "code_or_dash v = (case v of Some s \<Rightarrow> code_cell s | None \<Rightarrow> DASH)"

datatype mode = Real | NoPurpose | Marker

definition MARKER :: string where
  "MARKER = ''purpose-slot''"

definition purpose_cell :: "json option \<Rightarrow> mode \<Rightarrow> string" where
  "purpose_cell v m =
     (case m of
        Marker \<Rightarrow> MARKER
      | Real \<Rightarrow> (case v of Some (JStr s) \<Rightarrow> if s \<noteq> [] then cell s else DASH | _ \<Rightarrow> DASH)
      | NoPurpose \<Rightarrow> DASH)"

definition fm_map :: "front_matter \<Rightarrow> string \<Rightarrow> (string, json) dict" where
  "fm_map fm key = (case dict_get fm key of Some (JObj d) \<Rightarrow> d | _ \<Rightarrow> [])"

text \<open>The longest common prefix of two lines\<close>

fun common :: "string \<Rightarrow> string \<Rightarrow> nat" where
  "common (a # s) (b # t) = (if a = b then Suc (common s t) else 0)"
| "common s t = 0"

text \<open>One line of \<open>_purpose_confined\<close>: \<open>p\<close> and \<open>q\<close> are the loops' final values.\<close>

definition line_confined :: "string \<Rightarrow> string \<Rightarrow> string \<Rightarrow> bool" where
  "line_confined lo la lm =
     (if la = lm then lo = la
      else
        (let p = common la lm;
             q = common (take (length la - p) (rev la)) (take (length lm - p) (rev lm))
         in p + q \<le> length lo \<and> take p lo = take p la
            \<and> (q = 0 \<or> drop (length lo - q) lo = drop (length la - q) la)))"

definition purpose_confined :: "string \<Rightarrow> string \<Rightarrow> string \<Rightarrow> bool" where
  "purpose_confined old_body absent_body marked_body =
     (let old = split_on NL old_body; absent = split_on NL absent_body; marked = split_on NL marked_body
      in length old = length absent \<and> length absent = length marked
         \<and> list_all (\<lambda>(lo, la, lm). line_confined lo la lm) (zip old (zip absent marked)))"

section \<open>The plan\<close>

datatype doc_entry =
    ObjectDoc obj
  | GroupDoc "obj list"
  | SchemaIndex string "obj list"
  | SystemIndex "obj list"

definition sysdir :: "string \<Rightarrow> string" where
  "sysdir system = ''systems/'' @ mangle system"

definition is_sql :: "snapshot \<Rightarrow> bool" where
  "is_sql s \<longleftrightarrow> s_system_class s = ''sql''"

definition family :: "snapshot \<Rightarrow> string list" where
  "family s = (if is_sql s then SQL_KINDS else dict_keys KIND_GROUPS)"

definition ordered_objects :: "snapshot \<Rightarrow> obj list" where
  "ordered_objects s = map ordered_object (sort_key identity_of (s_objects s))"

definition known_objects :: "snapshot \<Rightarrow> obj list" where
  "known_objects s = filter (\<lambda>ob. o_kind ob \<in> set (family s)) (ordered_objects s)"

definition group_of :: "obj \<Rightarrow> string" where
  "group_of ob = (case dict_get KIND_GROUPS (o_kind ob) of Some g \<Rightarrow> g | None \<Rightarrow> [])"

definition object_path :: "string \<Rightarrow> obj \<Rightarrow> string" where
  "object_path system ob = sysdir system @ ''/'' @ mangle (o_schema ob) @ ''/'' @ mangle (o_name ob) @ ''.schema.md''"

definition schema_index_path :: "string \<Rightarrow> string \<Rightarrow> string" where
  "schema_index_path system schema = sysdir system @ ''/'' @ mangle schema @ ''/index.md''"

definition group_path :: "string \<Rightarrow> string \<Rightarrow> string" where
  "group_path system g = sysdir system @ ''/'' @ g @ ''.schema.md''"

definition system_index_path :: "string \<Rightarrow> string" where
  "system_index_path system = sysdir system @ ''/index.md''"

type_synonym doc_plan = "(string, doc_entry) dict"

definition add_doc :: "string \<Rightarrow> doc_plan \<Rightarrow> string \<times> doc_entry \<Rightarrow> doc_plan fallible" where
  "add_doc system plan re =
     (if dict_has plan (fst re) then Inl (PathCollision (fst re) system) else Inr (dict_set (fst re) (snd re) plan))"

definition by_schema :: "obj list \<Rightarrow> (string, obj list) dict" where
  "by_schema obs = dict_group o_schema obs"

definition by_group :: "obj list \<Rightarrow> (string, obj list) dict" where
  "by_group obs = dict_group group_of obs"

text \<open>The documents in the order in which they are added\<close>

definition planned_docs :: "snapshot \<Rightarrow> (string \<times> doc_entry) list" where
  "planned_docs s =
     (let system = s_system s; known = known_objects s in
      (if is_sql s
       then map (\<lambda>ob. (object_path system ob, ObjectDoc ob)) known
          @ map (\<lambda>(schema, obs). (schema_index_path system schema, SchemaIndex schema obs)) (sort_key fst (by_schema known))
       else map (\<lambda>(g, obs). (group_path system g, GroupDoc obs)) (sort_key fst (by_group known)))
      @ [(system_index_path system, SystemIndex known)])"

definition expected_docs :: "snapshot \<Rightarrow> doc_plan fallible" where
  "expected_docs s = res_fold (add_doc (s_system s)) [] (planned_docs s)"

section \<open>Human-owned siblings\<close>

definition human_info :: "yaml_loader \<Rightarrow> kb_files \<Rightarrow> human_reader" where
  "human_info load files path =
     (case dict_get files path of
        None \<Rightarrow> Inr (False, [])
      | Some bytes \<Rightarrow>
          (case split load (universal_nl bytes) of
             Inl m \<Rightarrow> Inl (Crash m)
           | Inr (fm, _) \<Rightarrow> Inr (True, case fm of Some d \<Rightarrow> d | None \<Rightarrow> [])))"

definition status_cell :: "front_matter \<Rightarrow> string" where
  "status_cell fm = (case dict_get fm ''status'' of Some (JStr s) \<Rightarrow> if s \<noteq> [] then cell s else DASH | _ \<Rightarrow> DASH)"

section \<open>Contexts of the templates\<close>

definition strs :: "string list \<Rightarrow> json" where
  "strs xs = JList (map JStr xs)"

definition plural :: "nat \<Rightarrow> string \<Rightarrow> string" where
  "plural n noun = show_nat n @ '' '' @ noun @ (if n \<noteq> 1 then ''s'' else [])"

definition column_row :: "(string, json) dict option \<Rightarrow> mode \<Rightarrow> column \<Rightarrow> json" where
  "column_row purposes m c = JObj
     [(''ordinal'', JInt (c_ordinal c)), (''name'', JStr (cell (c_name c))), (''type'', JStr (cell (c_type c))),
      (''nullable'', JStr (if c_nullable c then ''true'' else ''false'')),
      (''default'', JStr (code_or_dash (c_default c))), (''description'', JStr (opt_cell (c_description c))),
      (''purpose'', JStr (purpose_cell
         (case purposes of Some d \<Rightarrow> if d \<noteq> [] then dict_get d (c_name c) else None | None \<Rightarrow> None) m))]"

definition column_rows :: "column list \<Rightarrow> (string, json) dict option \<Rightarrow> mode \<Rightarrow> json" where
  "column_rows cs purposes m = JList (map (column_row purposes m) cs)"

definition href :: "obj \<Rightarrow> string \<Rightarrow> string \<Rightarrow> string" where
  "href ob target_schema target_name =
     (let stem = mangle target_name @ ''.schema.md''
      in if target_schema = o_schema ob then stem else ''../'' @ mangle target_schema @ ''/'' @ stem)"

definition code_list :: "string list \<Rightarrow> string" where
  "code_list cs = join '', '' (map code_cell cs)"

definition foreign_keys :: "obj \<Rightarrow> fkey list" where
  "foreign_keys ob = (case k_foreign (o_keys ob) of Some fks \<Rightarrow> fks | None \<Rightarrow> [])"

definition foreign_row :: "obj \<Rightarrow> obj list \<Rightarrow> fkey \<Rightarrow> json" where
  "foreign_row ob all fk =
     (case partition_at (CHR ''.'') (fk_ref fk) of (ref_schema, _, ref_name) \<Rightarrow>
      JObj
        [(''columns'', JStr (code_list (fk_columns fk))),
         (''ref'', JStr (if (ref_schema, ref_name) \<in> set (map (\<lambda>o'. (o_schema o', o_name o')) all)
                         then ''[`'' @ cell (fk_ref fk) @ ''`]('' @ href ob ref_schema ref_name @ '')''
                         else code_cell (fk_ref fk))),
         (''ref_columns'', JStr (code_list (fk_ref_columns fk)))])"

definition referenced_by :: "string \<Rightarrow> obj \<Rightarrow> obj list \<Rightarrow> json list" where
  "referenced_by system ob all =
     concat (map (\<lambda>other. map (\<lambda>fk. JObj
       [(''fqn'', JStr (cell (fqn system (o_schema other) (o_name other)))),
        (''href'', JStr (href ob (o_schema other) (o_name other))),
        (''via'', JStr (code_list (fk_columns fk)))])
       (filter (\<lambda>fk. fk_ref fk = o_schema ob @ ''.'' @ o_name ob) (foreign_keys other))) all)"

text \<open>\<open>[cell(x) for x in stats.get(key, [])]\<close>, for whatever value the stats hold\<close>

definition stat_cells :: "obj \<Rightarrow> string \<Rightarrow> json fallible" where
  "stat_cells ob key =
     (case dict_get (o_stats ob) key of
        None \<Rightarrow> Inr (JList [])
      | Some (JList vs) \<Rightarrow>
          res_bind (res_map (\<lambda>v. case v of JStr s \<Rightarrow> Inr (JStr (cell s)) | _ \<Rightarrow> Inl (Crash ''AttributeError'')) vs)
            (\<lambda>cs. Inr (JList cs))
      | Some (JStr s) \<Rightarrow> Inr (JList (map (\<lambda>c. JStr (cell [c])) s))
      | Some (JObj kvs) \<Rightarrow> Inr (JList (map (\<lambda>(k, _). JStr (cell k)) kvs))
      | Some _ \<Rightarrow> Inl (Crash ''TypeError''))"

definition json_opt :: "json option \<Rightarrow> json" where
  "json_opt v = (case v of None \<Rightarrow> JNull | Some j \<Rightarrow> j)"

definition sql_object_context :: "string \<Rightarrow> obj \<Rightarrow> obj list \<Rightarrow> front_matter \<Rightarrow> mode \<Rightarrow> json fallible" where
  "sql_object_context system ob all human_fm m =
     res_bind (stat_cells ob ''indexes'') (\<lambda>indexes.
     res_bind (if o_kind ob = ''table'' then stat_cells ob ''checks'' else Inr JNull) (\<lambda>checks.
     Inr (JObj
       [(''fqn'', JStr (fqn system (o_schema ob) (o_name ob))), (''kind'', JStr (o_kind ob)),
        (''schema_hash'', JStr (o_schema_hash ob)), (''description'', opt_str (o_description ob)),
        (''columns'', column_rows (o_columns ob) (Some (fm_map human_fm ''column_purposes'')) m),
        (''primary'', JStr (let t = code_list (case k_primary (o_keys ob) of Some cs \<Rightarrow> cs | None \<Rightarrow> [])
                            in if t \<noteq> [] then t else DASH)),
        (''foreign'', JList (map (foreign_row ob all) (foreign_keys ob))),
        (''unique'', strs (map code_list (case k_unique (o_keys ob) of Some us \<Rightarrow> us | None \<Rightarrow> []))),
        (''indexes'', indexes),
        (''checks'', checks),
        (''row_estimate'', JStr (case dict_get (o_stats ob) ''row_estimate'' of
            None \<Rightarrow> DASH | Some JNull \<Rightarrow> DASH | Some v \<Rightarrow> str_json v)),
        (''referenced_by'', JList (referenced_by system ob all)),
        (''definition'', if o_kind ob \<in> {''view'', ''materialized_view''} then json_opt (dict_get (o_stats ob) ''definition'')
                         else JNull)])))"

definition FACT_LABELS :: "(string \<times> string \<times> bool) list" where
  "FACT_LABELS = [(''data_type'', ''Data type'', False), (''scope'', ''Scope'', False), (''formula'', ''Formula'', True)]"

definition fact_rows :: "obj \<Rightarrow> json list" where
  "fact_rows ob =
     concat (map (\<lambda>(key, label, as_code).
       case dict_get (o_stats ob) key of
         None \<Rightarrow> []
       | Some v \<Rightarrow> [JObj [(''label'', JStr label),
                        (''value'', JStr (if as_code then code_cell (str_json v) else cell (str_json v)))]]) FACT_LABELS)
     @ (case dict_get (o_stats ob) ''is_key_event'' of
          None \<Rightarrow> []
        | Some v \<Rightarrow> [JObj [(''label'', JStr ''Key event''), (''value'', JStr (if truthy v then ''true'' else ''false''))]])"

definition group_member :: "string \<Rightarrow> front_matter \<Rightarrow> mode \<Rightarrow> obj \<Rightarrow> json" where
  "group_member system human_fm m ob =
     (let member_fqn = fqn system (o_schema ob) (o_name ob) in JObj
       [(''anchor'', JStr (anchor_id (o_schema ob) (o_name ob))), (''name'', JStr (cell (o_name ob))),
        (''fqn'', JStr member_fqn), (''kind'', JStr (o_kind ob)), (''namespace'', JStr (cell (o_schema ob))),
        (''fact_rows'', JList (fact_rows ob)), (''schema_hash'', JStr (o_schema_hash ob)),
        (''purpose'', JStr (purpose_cell (dict_get (fm_map human_fm ''object_purposes'') member_fqn) m)),
        (''description'', opt_str (o_description ob)),
        (''parameters'', column_rows (o_columns ob) None NoPurpose)])"

definition group_context :: "string \<Rightarrow> string \<Rightarrow> obj list \<Rightarrow> front_matter \<Rightarrow> mode \<Rightarrow> json" where
  "group_context system g members human_fm m = JObj
     [(''system'', JStr system), (''group'', JStr g), (''summary'', JStr (plural (length members) ''object'' @ ''.'')),
      (''members'', JList (map (group_member system human_fm m) members))]"

definition schema_row :: "human_reader \<Rightarrow> string \<Rightarrow> mode \<Rightarrow> obj \<Rightarrow> (bool \<times> json) fallible" where
  "schema_row h schema_dir m ob =
     (let stem = mangle (o_name ob) in
      res_bind (h (schema_dir @ ''/'' @ stem @ ''.md'')) (\<lambda>(there, fm). Inr (there, JObj
        [(''name'', JStr (cell (o_name ob))), (''kind'', JStr (o_kind ob)), (''machine'', JStr (stem @ ''.schema.md'')),
         (''human'', JStr (if there then ''['' @ stem @ ''.md]('' @ stem @ ''.md)'' else DASH)),
         (''status'', JStr (status_cell fm)), (''purpose'', JStr (purpose_cell (dict_get fm ''purpose'') m))])))"

definition schema_index_context ::
  "human_reader \<Rightarrow> string \<Rightarrow> string \<Rightarrow> obj list \<Rightarrow> string \<Rightarrow> mode \<Rightarrow> json fallible" where
  "schema_index_context h system schema members schema_dir m =
     res_bind (res_map (schema_row h schema_dir m) members) (\<lambda>rows. Inr (JObj
       [(''system'', JStr system), (''schema'', JStr (cell schema)),
        (''summary'', JStr (plural (length members) ''object'' @ '' '' @ [CHR 0xB7] @ '' ''
           @ show_nat (length (filter fst rows)) @ '' with human docs.'')),
        (''rows'', JList (map snd rows))]))"

text \<open>\<open>json.dumps(props, sort_keys=True, indent=2, ensure_ascii=False)\<close>\<close>

definition spaces :: "nat \<Rightarrow> string" where
  "spaces n = replicate n (CHR '' '')"

fun json_pretty :: "nat \<Rightarrow> json \<Rightarrow> string" where
  "json_pretty n JNull = ''null''"
| "json_pretty n (JBool b) = (if b then ''true'' else ''false'')"
| "json_pretty n (JInt i) = show_int i"
| "json_pretty n (JStr s) = json_str s"
| "json_pretty n (JList vs) =
     (if vs = [] then ''[]''
      else ''['' @ NL # spaces (n + 2) @ join ('','' @ NL # spaces (n + 2)) (map (json_pretty (n + 2)) vs)
        @ NL # spaces n @ '']'')"
| "json_pretty n (JObj kvs) =
     (if kvs = [] then ''{}''
      else ''{'' @ NL # spaces (n + 2)
        @ join ('','' @ NL # spaces (n + 2))
            (map (\<lambda>(k, t). json_str k @ '': '' @ t)
              (sort_key fst (map (\<lambda>(k, v). (k, json_pretty (n + 2) v)) kvs)))
        @ NL # spaces n @ ''}'')"

definition source_properties_json :: "snapshot \<Rightarrow> json" where
  "source_properties_json s =
     (case s_source_properties s of
        None \<Rightarrow> JNull
      | Some props \<Rightarrow> if props = [] then JNull else JStr (json_pretty 0 (JObj props)))"

definition count_human :: "human_reader \<Rightarrow> string \<Rightarrow> obj list \<Rightarrow> nat fallible" where
  "count_human h dir members =
     res_bind (res_map (\<lambda>ob. h (dir @ ''/'' @ mangle (o_name ob) @ ''.md'')) members)
       (\<lambda>is. Inr (length (filter fst is)))"

definition system_schema_row :: "human_reader \<Rightarrow> string \<Rightarrow> mode \<Rightarrow> string \<times> obj list \<Rightarrow> json fallible" where
  "system_schema_row h dir m = (\<lambda>(schema, members).
     res_bind (count_human h (dir @ ''/'' @ mangle schema) members) (\<lambda>n.
     res_bind (h (dir @ ''/'' @ mangle schema @ ''/_notes.md'')) (\<lambda>(_, notes_fm).
     Inr (JObj
       [(''schema'', JStr (cell schema)), (''count'', JInt (int (length members))), (''human_count'', JInt (int n)),
        (''href'', JStr (mangle schema @ ''/index.md'')),
        (''purpose'', JStr (purpose_cell (dict_get notes_fm ''purpose'') m))]))))"

definition system_group_row :: "human_reader \<Rightarrow> string \<Rightarrow> mode \<Rightarrow> string \<times> obj list \<Rightarrow> json fallible" where
  "system_group_row h dir m = (\<lambda>(g, members).
     res_bind (h (dir @ ''/'' @ g @ ''.md'')) (\<lambda>(there, group_fm).
     Inr (JObj
       [(''group'', JStr g), (''kind'', JStr (o_kind (hd members))), (''count'', JInt (int (length members))),
        (''machine'', JStr (g @ ''.schema.md'')),
        (''human'', JStr (if there then ''['' @ g @ ''.md]('' @ g @ ''.md)'' else DASH)),
        (''status'', JStr (status_cell group_fm)), (''purpose'', JStr (purpose_cell (dict_get group_fm ''purpose'') m))])))"

definition system_index_context :: "human_reader \<Rightarrow> snapshot \<Rightarrow> obj list \<Rightarrow> mode \<Rightarrow> json fallible" where
  "system_index_context h s known m =
     (let dir = sysdir (s_system s);
          parts = (if is_sql s then by_schema known else by_group known);
          row = (if is_sql s then system_schema_row else system_group_row)
      in res_bind (h (dir @ ''/_notes.md'')) (\<lambda>(has_notes, _).
         res_bind (res_map (row h dir m) (sort_key fst parts)) (\<lambda>rows.
         Inr (JObj
           [(''system'', JStr (s_system s)),
            (''summary'', JStr (plural (length known) ''object'' @ '' across ''
               @ plural (length parts) (if is_sql s then ''schema'' else ''group'') @ ''.'')),
            (''has_notes'', JBool has_notes), (''rows'', JList rows),
            (''source_properties'', source_properties_json s)]))))"

definition known_sql :: "snapshot \<Rightarrow> obj list" where
  "known_sql s = filter (\<lambda>ob. o_kind ob \<in> set SQL_KINDS) (ordered_objects s)"

definition base_name :: "string \<Rightarrow> string" where
  "base_name rel = last (split_on (CHR ''/'') rel)"

definition body_for :: "templates \<Rightarrow> human_reader \<Rightarrow> snapshot \<Rightarrow> string \<Rightarrow> doc_entry \<Rightarrow> mode \<Rightarrow> string fallible" where
  "body_for tmpl h s rel entry m =
     (let system = s_system s; dir = sysdir system in
      case entry of
        ObjectDoc ob \<Rightarrow>
          res_bind (h (dir @ ''/'' @ mangle (o_schema ob) @ ''/'' @ mangle (o_name ob) @ ''.md'')) (\<lambda>(_, human_fm).
          res_bind (sql_object_context system ob (known_sql s) human_fm m) (\<lambda>c.
          Inr (tmpl ''object_schema.md.j2'' (JObj [(''o'', c)]))))
      | GroupDoc members \<Rightarrow>
          (let g = removesuffix (base_name rel) ''.schema.md'' in
           res_bind (h (dir @ ''/'' @ g @ ''.md'')) (\<lambda>(_, human_fm).
           Inr (tmpl ''group_schema.md.j2'' (JObj [(''g'', group_context system g members human_fm m)]))))
      | SchemaIndex schema members \<Rightarrow>
          res_bind (schema_index_context h system schema members (dir @ ''/'' @ mangle schema) m) (\<lambda>c.
          Inr (tmpl ''index_schema.md.j2'' (JObj [(''i'', c)])))
      | SystemIndex known \<Rightarrow>
          res_bind (system_index_context h s known m) (\<lambda>c.
          Inr (tmpl (if is_sql s then ''index_system_sql.md.j2'' else ''index_system_api.md.j2'') (JObj [(''s'', c)]))))"

section \<open>Front matter\<close>

definition provenance :: "string \<Rightarrow> snapshot \<Rightarrow> fm_field list" where
  "provenance date s =
     [Field ''generated_at'' (FStr date), Field ''source_mode'' (FStr (s_source_mode s)),
      Field ''snapshot_version'' (FStr (s_version s)), Field ''status'' (FStr ''machine'')]"

definition roster_of :: "string \<Rightarrow> obj \<Rightarrow> roster_entry" where
  "roster_of system ob =
     \<lparr>r_object = fqn system (o_schema ob) (o_name ob), r_kind = o_kind ob, r_schema_hash = o_schema_hash ob\<rparr>"

definition doc_fields :: "snapshot \<Rightarrow> doc_entry \<Rightarrow> string \<Rightarrow> fm_field list" where
  "doc_fields s entry date =
     (let system = s_system s in
      (case entry of
         ObjectDoc ob \<Rightarrow>
           [Field ''doc_class'' (FStr ''machine-object''), Field ''object'' (FStr (fqn system (o_schema ob) (o_name ob))),
            Field ''kind'' (FStr (o_kind ob)), Field ''schema_hash'' (FStr (o_schema_hash ob))]
       | GroupDoc members \<Rightarrow> [Field ''doc_class'' (FStr ''machine-group''), Objects (map (roster_of system) members)]
       | SchemaIndex schema _ \<Rightarrow>
           [Field ''doc_class'' (FStr ''machine-index''), Field ''system'' (FStr system),
            Field ''scope'' (FStr ''schema''), Field ''schema'' (FStr schema)]
       | SystemIndex _ \<Rightarrow>
           [Field ''doc_class'' (FStr ''machine-index''), Field ''system'' (FStr system), Field ''scope'' (FStr ''system'')])
      @ provenance date s)"

section \<open>Writing and pruning\<close>

definition emit_doc :: "(string \<Rightarrow> fm_field list) \<Rightarrow> string \<Rightarrow> string \<Rightarrow> string" where
  "emit_doc fs date body = emit (fs date) @ [NL] @ body"

definition put_file :: "string \<Rightarrow> string \<Rightarrow> render_state \<Rightarrow> render_state" where
  "put_file rel bytes st = st\<lparr>rs_files := dict_set rel bytes (rs_files st), rs_written := rs_written st @ [rel]\<rparr>"

definition keep_file :: "string \<Rightarrow> render_state \<Rightarrow> render_state" where
  "keep_file rel st = st\<lparr>rs_unchanged := rs_unchanged st @ [rel]\<rparr>"

definition with_state :: "render_state \<Rightarrow> 'a fallible \<Rightarrow> (render_error \<times> render_state, 'a) result" where
  "with_state st r = (case r of Inl e \<Rightarrow> Inl (e, st) | Inr a \<Rightarrow> Inr a)"

text \<open>The stamp of the existing file, if it has one\<close>

definition old_stamp :: "front_matter option \<Rightarrow> string option" where
  "old_stamp fm =
     (case fm of
        None \<Rightarrow> None
      | Some d \<Rightarrow> (case dict_get d ''generated_at'' of
                   Some (JStr s) \<Rightarrow> if rx_dollar DATE s then Some s else None
                 | _ \<Rightarrow> None))"

definition write_machine ::
  "yaml_loader \<Rightarrow> string \<Rightarrow> (string \<Rightarrow> fm_field list) \<Rightarrow> (mode \<Rightarrow> string fallible) \<Rightarrow> string \<Rightarrow> render_state \<Rightarrow> outcome" where
  "write_machine load rel fs body_of new_date st =
     res_bind (with_state st (body_of Real)) (\<lambda>body.
     case dict_get (rs_files st) rel of
       None \<Rightarrow> Inr (put_file rel (emit_doc fs new_date body) st)
     | Some bytes \<Rightarrow>
         let old = universal_nl bytes in
         case split load old of
           Inl m \<Rightarrow> Inl (Crash m, st)
         | Inr (fm, _) \<Rightarrow>
             (case old_stamp fm of
                None \<Rightarrow> Inr (put_file rel (emit_doc fs new_date body) st)
              | Some old_date \<Rightarrow>
                  let head = emit (fs old_date) @ [NL] in
                  if head @ body = old then Inr (keep_file rel st)
                  else if startswith old head then
                    res_bind (with_state st (body_of NoPurpose)) (\<lambda>absent.
                    res_bind (with_state st (body_of Marker)) (\<lambda>marked.
                    Inr (put_file rel (emit_doc fs
                      (if purpose_confined (drop (length head) old) absent marked then old_date else new_date) body) st)))
                  else Inr (put_file rel (emit_doc fs new_date body) st)))"

definition is_machine_file :: "string \<Rightarrow> bool" where
  "is_machine_file rel \<longleftrightarrow> base_name rel = ''index.md'' \<or> endswith (base_name rel) ''.schema.md''"

definition in_dir :: "string \<Rightarrow> string \<Rightarrow> bool" where
  "in_dir dir rel \<longleftrightarrow> startswith rel (dir @ ''/'')"

definition gone :: "string \<Rightarrow> string list \<Rightarrow> string \<Rightarrow> bool" where
  "gone system keep rel \<longleftrightarrow> in_dir (sysdir system) rel \<and> is_machine_file rel \<and> rel \<notin> set keep"

definition prune_system :: "string \<Rightarrow> string list \<Rightarrow> render_state \<Rightarrow> render_state" where
  "prune_system system keep st =
     st\<lparr>rs_files := filter (\<lambda>(rel, _). \<not> gone system keep rel) (rs_files st),
        rs_deleted := rs_deleted st @ sort (filter (gone system keep) (dict_keys (rs_files st)))\<rparr>"

section \<open>The top level\<close>

definition render_doc :: "templates \<Rightarrow> yaml_loader \<Rightarrow> human_reader \<Rightarrow> snapshot \<Rightarrow> render_state \<Rightarrow> string \<times> doc_entry \<Rightarrow> outcome" where
  "render_doc tmpl load h s st = (\<lambda>(rel, entry).
     write_machine load rel (doc_fields s entry) (body_for tmpl h s rel entry) (take 10 (s_captured_at s)) st)"

definition render_system :: "templates \<Rightarrow> yaml_loader \<Rightarrow> render_state \<Rightarrow> snapshot \<Rightarrow> outcome" where
  "render_system tmpl load st s =
     res_bind (with_state st (expected_docs s)) (\<lambda>plan.
     res_bind (res_fold (render_doc tmpl load (human_info load (rs_files st)) s) st (sort_key fst plan)) (\<lambda>st'.
     Inr (prune_system (s_system s) (dict_keys plan) st')))"

definition root_context :: "(string, snapshot) dict \<Rightarrow> json" where
  "root_context by_system = JObj [(''systems'', JList (map (\<lambda>name. JObj
     [(''name'', JStr name), (''href'', JStr (sysdir name @ ''/index.md''))]) (sort (dict_keys by_system))))]"

definition bootstrap_file :: "string \<Rightarrow> string \<Rightarrow> render_state \<Rightarrow> render_state" where
  "bootstrap_file rel content st =
     (if dict_has (rs_files st) rel then st
      else st\<lparr>rs_files := dict_set rel content (rs_files st), rs_bootstrapped := rs_bootstrapped st @ [rel]\<rparr>)"

definition bootstrap :: "templates \<Rightarrow> (string, snapshot) dict \<Rightarrow> render_state \<Rightarrow> render_state" where
  "bootstrap tmpl by_system st =
     bootstrap_file ''conventions.md'' (tmpl ''conventions.md.j2'' (JObj []))
       (bootstrap_file ''index.md'' (tmpl ''root_index.md.j2'' (root_context by_system)) st)"

definition collect_snapshot ::
  "(snapshot \<Rightarrow> string list) \<Rightarrow> (string, snapshot) dict \<Rightarrow> snapshot \<Rightarrow> (string, snapshot) dict fallible" where
  "collect_snapshot sch by_system s =
     (let errors = fst (validate_snapshot sch (\<lambda>_. []) False s) in
      if errors \<noteq> [] then Inl (InvalidSnapshot (s_system s) errors)
      else if dict_has by_system (s_system s) then Inl (DuplicateSystem (s_system s))
      else Inr (dict_set (s_system s) s by_system))"

definition empty_result :: "kb_files \<Rightarrow> render_state" where
  "empty_result files =
     \<lparr>rs_files = files, rs_written = [], rs_unchanged = [], rs_deleted = [], rs_bootstrapped = []\<rparr>"

definition render_tree ::
  "templates \<Rightarrow> yaml_loader \<Rightarrow> (snapshot \<Rightarrow> string list) \<Rightarrow> snapshot list \<Rightarrow> kb_files \<Rightarrow> outcome" where
  "render_tree tmpl load sch snapshots files =
     (let st = empty_result files in
      res_bind (with_state st (res_fold (collect_snapshot sch) [] snapshots)) (\<lambda>by_system.
      res_bind (res_fold (render_system tmpl load) st (map snd (sort_key fst by_system))) (\<lambda>st'.
      let st'' = bootstrap tmpl by_system st' in
      Inr (st''\<lparr>rs_written := sort (rs_written st''), rs_unchanged := sort (rs_unchanged st''),
               rs_deleted := sort (rs_deleted st'')\<rparr>))))"

end
