(* ===== verification/Render_Safety.thy ===== *)
theory Render_Safety
  imports Render
begin

text \<open>
  What the renderer guarantees: which files it touches, which documents the tree holds afterwards, when a stamp is
  kept, and that a second run changes nothing.
\<close>

section \<open>Purpose slots\<close>

text \<open>A line of a body is a fact, or has one slot between two texts.\<close>

datatype slot_line = Fact string | Slot string string

fun fill :: "string \<Rightarrow> slot_line \<Rightarrow> string" where
  "fill x (Fact l) = l"
| "fill x (Slot a b) = a @ x @ b"

fun fits :: "slot_line \<Rightarrow> string \<Rightarrow> bool" where
  "fits (Fact l) lo \<longleftrightarrow> lo = l"
| "fits (Slot a b) lo \<longleftrightarrow> (\<exists>x. lo = a @ x @ b)"

definition slot_body :: "string \<Rightarrow> slot_line list \<Rightarrow> string" where
  "slot_body x ls = join [NL] (map (fill x) ls)"

lemma common_append: "common (a @ s) (a @ t) = length a + common s t"
  by (induction a) auto

lemma common_diff: "s = [] \<or> t = [] \<or> hd s \<noteq> hd t \<Longrightarrow> common s t = 0"
  by (cases s; cases t) auto

lemma slot_bounds:
  "common (a @ DASH @ b) (a @ MARKER @ b) = length a"
  "common (rev (DASH @ b)) (rev (MARKER @ b)) = length b"
  by (simp_all add: common_append DASH_def MARKER_def)

lemma between_iff:
  "length a + length b \<le> length lo \<and> take (length a) lo = a \<and> (b = [] \<or> drop (length lo - length b) lo = b)
   \<longleftrightarrow> (\<exists>x. lo = a @ x @ b)"
proof
  assume *: "length a + length b \<le> length lo \<and> take (length a) lo = a \<and> (b = [] \<or> drop (length lo - length b) lo = b)"
  then obtain r where r: "lo = a @ r" by (metis append_take_drop_id)
  with * have "length b \<le> length r" and "b = [] \<or> drop (length r - length b) r = b" by auto
  then have "\<exists>x. r = x @ b" by (metis append_Nil2 append_take_drop_id)
  with r show "\<exists>x. lo = a @ x @ b" by auto
qed auto

lemma line_confined_slot: "line_confined lo (a @ DASH @ b) (a @ MARKER @ b) \<longleftrightarrow> (\<exists>x. lo = a @ x @ b)"
proof -
  have ne: "a @ DASH @ b \<noteq> a @ MARKER @ b" by (simp add: DASH_def MARKER_def)
  have rv: "take (length (a @ d @ b) - length a) (rev (a @ d @ b)) = rev (d @ b)" for d :: string
    by simp
  have "drop (length (a @ DASH @ b) - length b) (a @ DASH @ b) = b" by simp
  then show ?thesis
    unfolding line_confined_def Let_def slot_bounds(1) rv slot_bounds(2)
    using ne between_iff [of a b lo] by simp
qed

lemma line_confined_fill: "line_confined lo (fill DASH l) (fill MARKER l) \<longleftrightarrow> fits l lo"
  by (cases l) (simp_all add: line_confined_slot line_confined_def [of _ _ "fill _ (Fact _)"], simp add: line_confined_def)

lemma split_on_join:
  "ls \<noteq> [] \<Longrightarrow> list_all (\<lambda>l. c \<notin> set l) ls \<Longrightarrow> split_on c (join [c] ls) = ls"
proof (induction "[c]" ls rule: join.induct)
  case (2 x)
  then have "c \<notin> set x" by simp
  then show ?case by (induction x) auto
next
  case (3 x y xs)
  have "split_on c (x @ c # t) = x # split_on c t" if "c \<notin> set x" for x t
    using that by (induction x) auto
  with 3 show ?case by simp
qed simp

text \<open>The date rule sees exactly the purpose slots (render.py \<open>_purpose_confined\<close>): for bodies whose absent and marked
  variants come from lines with at most one slot each, an existing body passes if and only if it has the same lines and differs
  from them only by what stands in the slots, whatever that is.\<close>

theorem purpose_confined_exact:
  assumes "ls \<noteq> []" and "list_all (\<lambda>l. NL \<notin> set (fill [] l)) ls"
  shows "purpose_confined old (slot_body DASH ls) (slot_body MARKER ls)
    \<longleftrightarrow> list_all2 fits ls (split_on NL old)"
proof -
  have nl: "list_all (\<lambda>l. NL \<notin> set l) (map (fill x) ls)" if "NL \<notin> set x" for x
  proof -
    have "NL \<notin> set (fill x l)" if "NL \<notin> set (fill [] l)" for l
      using that \<open>NL \<notin> set x\<close> by (cases l) auto
    then show ?thesis using assms(2) by (simp add: list_all_iff)
  qed
  have "NL \<notin> set DASH" "NL \<notin> set MARKER" by (simp_all add: DASH_def MARKER_def)
  then have lines: "split_on NL (slot_body DASH ls) = map (fill DASH) ls"
      "split_on NL (slot_body MARKER ls) = map (fill MARKER) ls"
    unfolding slot_body_def using nl assms(1) by (simp_all add: split_on_join)
  show ?thesis
    unfolding purpose_confined_def lines Let_def list_all2_conv_all_nth list_all_length
    using line_confined_fill by auto
qed

theorem purpose_confined_exact_witness:
  "purpose_confined (''# t'' @ [NL] @ ''| new |'') (slot_body DASH [Fact ''# t'', Slot ''| '' '' |''])
     (slot_body MARKER [Fact ''# t'', Slot ''| '' '' |''])"
proof -
  have "split_on NL (''# t'' @ [NL] @ ''| new |'') = [''# t'', ''| '' @ ''new'' @ '' |'']" by simp
  moreover have "\<exists>x. ''| '' @ ''new'' @ '' |'' = ''| '' @ x @ '' |''" by blast
  ultimately have "list_all2 fits [Fact ''# t'', Slot ''| '' '' |''] (split_on NL (''# t'' @ [NL] @ ''| new |''))"
    by (simp only: list_all2_Cons list_all2_Nil fits.simps simp_thms)
  moreover have "list_all (\<lambda>l. NL \<notin> set (fill [] l)) [Fact ''# t'', Slot ''| '' '' |'']" by simp
  ultimately show ?thesis
    using purpose_confined_exact [of "[Fact ''# t'', Slot ''| '' '' |'']" "''# t'' @ [NL] @ ''| new |''"] by blast
qed

section \<open>The plan\<close>

lemma add_docs:
  "res_fold (add_doc system) plan res =
     (if distinct (map fst res) \<and> fst ` set res \<inter> fst ` set plan = {} then Inr (plan @ res)
      else res_fold (add_doc system) plan res)"
proof -
  have "distinct (map fst res) \<Longrightarrow> fst ` set res \<inter> fst ` set plan = {} \<Longrightarrow>
      res_fold (add_doc system) plan res = Inr (plan @ res)" for plan
  proof (induction res arbitrary: plan)
    case (Cons re res)
    have "dict_set (fst re) (snd re) plan = plan @ [re]"
      using Cons.prems by (induction plan) auto
    moreover have "\<not> dict_has plan (fst re)" using Cons.prems(2) by (auto simp: dict_has_def map_of_eq_None_iff)
    moreover have "fst ` set res \<inter> fst ` set (plan @ [re]) = {}" using Cons.prems by auto
    ultimately show ?case using Cons.IH [of "plan @ [re]"] Cons.prems(1) by (simp add: add_doc_def)
  qed simp
  then show ?thesis by simp
qed

lemma add_docs_collision:
  "\<not> (distinct (map fst res) \<and> fst ` set res \<inter> fst ` set plan = {}) \<Longrightarrow>
   \<exists>p. res_fold (add_doc system) plan res = Inl (PathCollision p system)"
proof (induction res arbitrary: plan)
  case (Cons re res)
  show ?case
  proof (cases "dict_has plan (fst re)")
    case False
    have "set (dict_keys (dict_set (fst re) (snd re) plan)) = insert (fst re) (set (dict_keys plan))"
      by (rule alist.keys_put_set)
    then have k: "fst ` set (dict_set (fst re) (snd re) plan) = insert (fst re) (fst ` set plan)"
      by (simp add: dict_keys_def)
    have "\<not> (distinct (map fst res) \<and> fst ` set res \<inter> fst ` set (dict_set (fst re) (snd re) plan) = {})"
      using Cons.prems False unfolding k by (auto simp: dict_has_def map_of_eq_None_iff)
    from Cons.IH [OF this] False show ?thesis by (simp add: add_doc_def)
  qed (simp add: add_doc_def)
qed simp

lemma expected_docs_distinct:
  "distinct (map fst (planned_docs s)) \<Longrightarrow> expected_docs s = Inr (planned_docs s)"
  unfolding expected_docs_def by (subst add_docs) simp

lemma expected_docs_Inr:
  "expected_docs s = Inr plan \<longleftrightarrow> distinct (map fst (planned_docs s)) \<and> plan = planned_docs s"
proof (cases "distinct (map fst (planned_docs s))")
  case True
  with expected_docs_distinct [OF this] show ?thesis by auto
next
  case False
  with add_docs_collision [of "planned_docs s" "[]" "s_system s"] show ?thesis by (auto simp: expected_docs_def)
qed

lemma split_on_append: "split_on c (a @ c # b) = split_on c a @ split_on c b"
  by (induction a) (auto split: list.splits)

lemma base_name_append: "CHR ''/'' \<notin> set b \<Longrightarrow> base_name (a @ CHR ''/'' # b) = b"
proof -
  assume "CHR ''/'' \<notin> set b"
  then have "split_on (CHR ''/'') b = [b]" by (induction b) auto
  then show ?thesis by (simp add: base_name_def split_on_append)
qed

lemma dot_not_mangled: "a @ CHR ''.'' # b \<noteq> mangle x"
  using mangle_no_dot [of x] by (metis in_set_conv_decomp)

lemma group_of_known: "o_kind ob \<in> set (dict_keys KIND_GROUPS) \<Longrightarrow> group_of ob \<in> {''dimensions'', ''metrics'', ''events''}"
  by (auto simp: group_of_def KIND_GROUPS_def dict_keys_def)

lemma by_group_names:
  assumes "(g, obs) \<in> set (by_group (known_objects s))" and "\<not> is_sql s"
  shows "g \<in> {''dimensions'', ''metrics'', ''events''}"
proof -
  have "g \<in> set (dict_keys (by_group (known_objects s)))" using assms(1) by (force simp: dict_keys_def)
  then obtain ob where "ob \<in> set (known_objects s)" "g = group_of ob"
    unfolding by_group_def dict_group_keys by auto
  then show ?thesis using group_of_known assms(2) by (auto simp: known_objects_def family_def)
qed

lemma planned_cases:
  assumes "(rel, entry) \<in> set (planned_docs s)"
  obtains (object) ob where "is_sql s" "ob \<in> set (known_objects s)" "rel = object_path (s_system s) ob" "entry = ObjectDoc ob"
  | (schema) sch obs where "is_sql s" "rel = schema_index_path (s_system s) sch" "entry = SchemaIndex sch obs"
      "(sch, obs) \<in> set (by_schema (known_objects s))"
  | (groups) g obs where "\<not> is_sql s" "rel = group_path (s_system s) g" "entry = GroupDoc obs"
      "g \<in> {''dimensions'', ''metrics'', ''events''}" "(g, obs) \<in> set (by_group (known_objects s))"
  | (system) "rel = system_index_path (s_system s)" "entry = SystemIndex (known_objects s)"
proof -
  have "(\<exists>ob. is_sql s \<and> ob \<in> set (known_objects s) \<and> rel = object_path (s_system s) ob \<and> entry = ObjectDoc ob)
    \<or> (\<exists>sch obs. is_sql s \<and> (sch, obs) \<in> set (by_schema (known_objects s))
         \<and> rel = schema_index_path (s_system s) sch \<and> entry = SchemaIndex sch obs)
    \<or> (\<exists>g obs. \<not> is_sql s \<and> (g, obs) \<in> set (by_group (known_objects s))
         \<and> rel = group_path (s_system s) g \<and> entry = GroupDoc obs)
    \<or> rel = system_index_path (s_system s) \<and> entry = SystemIndex (known_objects s)"
    using assms by (cases "is_sql s") (auto simp: planned_docs_def Let_def)
  then show thesis using object schema groups by_group_names system by blast
qed

lemma in_dir_append [simp]: "in_dir d (d @ CHR ''/'' # r)"
  using startswith_append [of "d @ ''/''" r] by (simp add: in_dir_def)

lemma machine_names [simp]:
  "CHR ''/'' \<notin> set b \<Longrightarrow> is_machine_file (a @ CHR ''/'' # b @ ''.schema.md'')"
  "is_machine_file (a @ ''/index.md'')"
  using base_name_append [of "b @ ''.schema.md''" a] base_name_append [of "''index.md''" a]
  by (simp_all add: is_machine_file_def endswith_def)

lemma planned_machine:
  assumes "(rel, entry) \<in> set (planned_docs s)"
  shows "in_dir (sysdir (s_system s)) rel" and "is_machine_file rel"
proof -
  have "in_dir (sysdir (s_system s)) rel \<and> is_machine_file rel"
    using assms
  proof (cases rule: planned_cases)
    case (object ob)
    then show ?thesis
      using machine_names(1) [OF mangle_no_slash [of "o_name ob"], of "sysdir (s_system s) @ ''/'' @ mangle (o_schema ob)"]
      by (simp add: object_path_def)
  next
    case (schema sch obs)
    then show ?thesis
      using machine_names(2) [of "sysdir (s_system s) @ ''/'' @ mangle sch"] by (simp add: schema_index_path_def)
  next
    case (groups g obs)
    have "CHR ''/'' \<notin> set g" using groups(4) by auto
    then show ?thesis using groups machine_names(1) [of g "sysdir (s_system s)"] by (simp add: group_path_def)
  next
    case system
    then show ?thesis using machine_names(2) [of "sysdir (s_system s)"] by (simp add: system_index_path_def)
  qed
  then show "in_dir (sysdir (s_system s)) rel" and "is_machine_file rel" by auto
qed

section \<open>Bodies read human-owned files only\<close>

text \<open>Nothing has an empty name, as the schema of a snapshot demands, and no object has a human-owned sibling with the
  name of an index.\<close>

definition no_index :: "snapshot \<Rightarrow> bool" where
  "no_index s \<longleftrightarrow> s_system s \<noteq> []
     \<and> list_all (\<lambda>ob. o_schema ob \<noteq> [] \<and> o_name ob \<noteq> [] \<and> mangle (o_name ob) \<noteq> ''index'') (known_objects s)"

definition hidden :: "string \<Rightarrow> bool" where
  "hidden p = list_ex (\<lambda>part. startswith part ''.'') (split_on (CHR ''/'') p)"

definition human_path :: "string \<Rightarrow> bool" where
  "human_path p \<longleftrightarrow> startswith p ''systems/'' \<and> \<not> is_machine_file p \<and> \<not> hidden p"

definition same_humans :: "human_reader \<Rightarrow> human_reader \<Rightarrow> bool" where
  "same_humans h h' \<longleftrightarrow> (\<forall>p. human_path p \<longrightarrow> h p = h' p)"

lemma human_pathI:
  assumes "CHR ''/'' \<notin> set b" and "CHR ''.'' \<notin> set b" and "b \<noteq> ''index''" and "b \<noteq> []"
  shows "human_path (sysdir x @ CHR ''/'' # b @ ''.md'')"
    and "human_path (sysdir x @ CHR ''/'' # mangle a @ CHR ''/'' # b @ ''.md'')"
proof -
  have one: "split_on (CHR ''/'') t = [t]" if "CHR ''/'' \<notin> set t" for t using that by (induction t) auto
  have nd: "\<not> startswith t ''.''" if "CHR ''.'' \<notin> set t" for t using that by (cases t) (auto simp: startswith_def)
  have "\<not> startswith (b @ ''.md'') ''.''" using assms(2,4) by (cases b) (auto simp: startswith_def)
  moreover have "split_on (CHR ''/'') (b @ ''.md'') = [b @ ''.md'']" using assms(1) by (intro one) simp
  ultimately have hid: "\<not> hidden (sysdir x @ CHR ''/'' # b @ ''.md'')" "\<not> hidden (sysdir x @ CHR ''/'' # mangle a @ CHR ''/'' # b @ ''.md'')"
    using one [OF mangle_no_slash] nd [OF mangle_no_dot]
    by (simp_all add: hidden_def sysdir_def split_on_append) (simp_all add: startswith_def)
  have "b @ ''.md'' \<noteq> r @ ''.schema.md''" for r
  proof
    assume "b @ ''.md'' = r @ ''.schema.md''"
    then have "b @ ''.md'' = (r @ ''.schema'') @ ''.md''" by simp
    then have "b = r @ ''.schema''" by (simp only: append_same_eq)
    with assms(2) show False by simp
  qed
  moreover have "b @ ''.md'' \<noteq> ''index'' @ ''.md''" using assms(3) by (simp only: append_same_eq) simp
  ultimately have "\<not> is_machine_file (c @ CHR ''/'' # b @ ''.md'')" for c
    using base_name_append [of "b @ ''.md''" c] assms(1) by (auto simp: is_machine_file_def endswith_iff)
  from this [of "sysdir x"] this [of "sysdir x @ CHR ''/'' # mangle a"] hid
  show "human_path (sysdir x @ CHR ''/'' # b @ ''.md'')"
    "human_path (sysdir x @ CHR ''/'' # mangle a @ CHR ''/'' # b @ ''.md'')"
    by (simp_all add: human_path_def sysdir_def startswith_def)
qed

lemma human_paths:
  "human_path (sysdir x @ CHR ''/'' # ''_notes.md'')"
  "human_path (sysdir x @ CHR ''/'' # mangle sch @ CHR ''/'' # ''_notes.md'')"
  "mangle n \<noteq> ''index'' \<Longrightarrow> n \<noteq> [] \<Longrightarrow> human_path (sysdir x @ CHR ''/'' # mangle sch @ CHR ''/'' # mangle n @ ''.md'')"
  "g \<in> {''dimensions'', ''metrics'', ''events''} \<Longrightarrow> human_path (sysdir x @ CHR ''/'' # g @ ''.md'')"
  using human_pathI [of "''_notes''" x] human_pathI [of "mangle n" x] human_pathI [of g x] mangle_no_slash [of n] mangle_no_dot [of n]
    mangle_length [of n] by fastforce+

lemma res_map_cong: "(\<And>x. x \<in> set xs \<Longrightarrow> f x = g x) \<Longrightarrow> res_map f xs = res_map g xs"
  by (induction xs) auto

lemma group_members:
  assumes "(k, obs) \<in> set (dict_group f xs)"
  shows "obs = filter (\<lambda>x. f x = k) xs" and "obs \<noteq> []"
proof -
  have "map_of (dict_group f xs) k = Some obs" using assms by (simp add: dict_wf_get)
  then show "obs = filter (\<lambda>x. f x = k) xs" "obs \<noteq> []"
    by (auto simp: dict_group_get Let_def split: if_splits)
qed

lemma in_sorted: "x \<in> set (sort_key fst xs) \<longleftrightarrow> x \<in> set xs"
  by simp

lemma body_for_cong:
  assumes h: "same_humans h h'" and ni: "no_index s" and e: "(rel, entry) \<in> set (planned_docs s)"
  shows "body_for tmpl h s rel entry m = body_for tmpl h' s rel entry m"
proof -
  have hp: "h p = h' p" if "human_path p" for p using h that by (simp add: same_humans_def)
  have obj: "h (sysdir x @ ''/'' @ mangle sch @ ''/'' @ mangle (o_name ob) @ ''.md'') =
      h' (sysdir x @ ''/'' @ mangle sch @ ''/'' @ mangle (o_name ob) @ ''.md'')"
    if "ob \<in> set (known_objects s)" for ob x sch
    using hp human_paths(3) [of "o_name ob" x sch] ni that by (simp add: no_index_def list_all_iff)
  from e show ?thesis
  proof (cases rule: planned_cases)
    case (object ob)
    then show ?thesis using obj [of ob] by (simp add: body_for_def Let_def)
  next
    case (schema sch obs)
    have "ob \<in> set (known_objects s)" if "ob \<in> set obs" for ob
      using group_members(1) [OF schema(4) [unfolded by_schema_def]] that by simp
    then have "res_map (schema_row h (sysdir (s_system s) @ ''/'' @ mangle sch) m) obs =
        res_map (schema_row h' (sysdir (s_system s) @ ''/'' @ mangle sch) m) obs"
      using obj by (intro res_map_cong) (simp add: schema_row_def Let_def)
    then show ?thesis unfolding schema by (simp add: body_for_def schema_index_context_def Let_def)
  next
    case (groups g obs)
    have "removesuffix (base_name rel) ''.schema.md'' = g"
      using groups(4) base_name_append [of "g @ ''.schema.md''" "sysdir (s_system s)"] unfolding groups(2)
      by (auto simp: group_path_def removesuffix_def endswith_def)
    then show ?thesis
      using hp [OF human_paths(4) [OF groups(4)]] unfolding groups(3) by (simp add: body_for_def Let_def)
  next
    case system
    let ?d = "sysdir (s_system s)"
    have "res_map (system_schema_row h ?d m) (sort_key fst (by_schema (known_objects s))) =
        res_map (system_schema_row h' ?d m) (sort_key fst (by_schema (known_objects s)))"
    proof (rule res_map_cong)
      fix x
      assume "x \<in> set (sort_key fst (by_schema (known_objects s)))"
      then obtain sch obs where x: "x = (sch, obs)" "(sch, obs) \<in> set (by_schema (known_objects s))"
        unfolding in_sorted by (metis surj_pair)
      have "count_human h (?d @ ''/'' @ mangle sch) obs = count_human h' (?d @ ''/'' @ mangle sch) obs"
        unfolding count_human_def
        using obj group_members(1) [OF x(2) [unfolded by_schema_def]]
        by (intro arg_cong [where f = "\<lambda>r. res_bind r _"] res_map_cong) simp
      then show "system_schema_row h ?d m x = system_schema_row h' ?d m x"
        using hp [OF human_paths(2), of "s_system s" sch] by (simp add: x(1) system_schema_row_def)
    qed
    moreover have "res_map (system_group_row h ?d m) (sort_key fst (by_group (known_objects s))) =
        res_map (system_group_row h' ?d m) (sort_key fst (by_group (known_objects s)))" if "\<not> is_sql s"
      using by_group_names [OF _ that] hp [OF human_paths(4)]
      by (intro res_map_cong) (auto simp: system_group_row_def)
    ultimately show ?thesis
      unfolding system using hp [OF human_paths(1), of "s_system s"]
      by (simp add: body_for_def system_index_context_def Let_def)
  qed
qed

section \<open>Writing one document\<close>

definition outcome_state :: "outcome \<Rightarrow> render_state" where
  "outcome_state r = (case r of Inl (_, st) \<Rightarrow> st | Inr st \<Rightarrow> st)"

lemma outcome_state_simps [simp]: "outcome_state (Inl (e, st)) = st" "outcome_state (Inr st) = st"
  by (simp_all add: outcome_state_def)

lemma with_state_simps [simp]: "with_state st (Inl e) = Inl (e, st)" "with_state st (Inr a) = Inr a"
  by (simp_all add: with_state_def)

lemma put_file_simps [simp]:
  "rs_files (put_file rel x st) = dict_set rel x (rs_files st)" "rs_bootstrapped (put_file rel x st) = rs_bootstrapped st"
  "rs_files (keep_file rel st) = rs_files st" "rs_bootstrapped (keep_file rel st) = rs_bootstrapped st"
  by (simp_all add: put_file_def keep_file_def)

text \<open>What a call of \<open>write_machine\<close> can do\<close>

lemma write_machine_cases:
  obtains (failed) e where "write_machine load rel fs body_of nd st = Inl (e, st)"
  | (kept) b where "body_of Real = Inr b" "write_machine load rel fs body_of nd st = Inr (keep_file rel st)"
      "\<exists>bytes fm r d. dict_get (rs_files st) rel = Some bytes \<and> split load (universal_nl bytes) = Inr (fm, r)
         \<and> old_stamp fm = Some d \<and> emit_doc fs d b = universal_nl bytes"
  | (fresh) b where "body_of Real = Inr b"
      "write_machine load rel fs body_of nd st = Inr (put_file rel (emit_doc fs nd b) st)"
  | (restamped) b bytes fm r d x where "body_of Real = Inr b"
      "write_machine load rel fs body_of nd st = Inr (put_file rel (emit_doc fs d b) st)"
      "dict_get (rs_files st) rel = Some bytes" "split load (universal_nl bytes) = Inr (fm, r)"
      "old_stamp fm = Some d" "universal_nl bytes = emit (fs d) @ NL # x"
proof (cases "body_of Real")
  case (Inl e)
  then show thesis by (intro failed) (simp add: write_machine_def)
next
  case (Inr b)
  note b = Inr
  show thesis
  proof (cases "dict_get (rs_files st) rel")
    case None
    with b show thesis by (intro fresh) (simp_all add: write_machine_def)
  next
    case (Some bytes)
    note get = Some
    let ?old = "universal_nl bytes"
    show thesis
    proof (cases "split load ?old")
      case (Inl m)
      with b get show thesis by (intro failed) (simp add: write_machine_def)
    next
      case (Inr fr)
      obtain fm r where fr: "split load ?old = Inr (fm, r)" using Inr by (cases fr) auto
      show thesis
      proof (cases "old_stamp fm")
        case None
        with b get fr show thesis by (intro fresh) (simp_all add: write_machine_def)
      next
        case (Some d)
        note d = Some
        show thesis
        proof (cases "emit_doc fs d b = ?old")
          case True
          with b get fr d show thesis by (intro kept) (auto simp: write_machine_def emit_doc_def)
        next
          case False
          then have ne: "(emit (fs d) @ [NL]) @ b \<noteq> ?old" by (simp add: emit_doc_def)
          show thesis
          proof (cases "startswith ?old (emit (fs d) @ [NL])")
            case False
            with b get fr d ne show thesis by (intro fresh) (simp_all add: write_machine_def)
          next
            case True
            then obtain x where x: "?old = emit (fs d) @ NL # x" by (auto simp: startswith_iff)
            note ev = b get fr d ne True
            show thesis
            proof (cases "body_of NoPurpose")
              case (Inl e)
              with ev show thesis by (intro failed) (simp add: write_machine_def)
            next
              case (Inr absent)
              note absent = Inr
              show thesis
              proof (cases "body_of Marker")
                case (Inl e)
                with ev absent show thesis by (intro failed) (simp add: write_machine_def)
              next
                case (Inr marked)
                show thesis
                proof (cases "purpose_confined (drop (length (emit (fs d) @ [NL])) ?old) absent marked")
                  case True
                  with ev absent Inr x show thesis by (intro restamped) (simp_all add: write_machine_def)
                next
                  case False
                  with ev absent Inr show thesis by (intro fresh) (simp_all add: write_machine_def)
                qed
              qed
            qed
          qed
        qed
      qed
    qed
  qed
qed

text \<open>A document that the next run keeps\<close>

definition settled :: "yaml_loader \<Rightarrow> string \<Rightarrow> (string \<Rightarrow> fm_field list) \<Rightarrow> string \<Rightarrow> kb_files \<Rightarrow> bool" where
  "settled load rel fs b files \<longleftrightarrow>
     (\<exists>bytes fm r d. dict_get files rel = Some bytes \<and> split load (universal_nl bytes) = Inr (fm, r)
        \<and> old_stamp fm = Some d \<and> emit_doc fs d b = universal_nl bytes)"

lemma write_settled:
  "settled load rel fs b (rs_files st) \<Longrightarrow> body_of Real = Inr b \<Longrightarrow>
   write_machine load rel fs body_of nd st = Inr (keep_file rel st)"
  by (auto simp: settled_def write_machine_def emit_doc_def)

lemma find_text_append: "find_text q a = Some i \<Longrightarrow> find_text q (a @ y) = Some i"
proof (induction a arbitrary: i)
  case (Cons c a)
  show ?case
  proof (cases "startswith (c # a) q")
    case True
    then obtain r where "c # a = q @ r" by (auto simp: startswith_iff)
    then have "c # a @ y = q @ r @ y" by (metis append.assoc append_Cons)
    then have "startswith (c # a @ y) q" by (metis startswith_append)
    with True Cons.prems show ?thesis by simp
  next
    case False
    with Cons.prems obtain j where j: "find_text q a = Some j" "i = Suc j" by auto
    have "startswith (drop j a) q" using find_text_Some [OF j(1)] by simp
    then have "length q \<le> length a" by (auto simp: startswith_iff dest!: arg_cong [where f = length])
    then have "take (length q) ((c # a) @ y) = take (length q) (c # a)" unfolding take_append by simp
    then have "\<not> startswith (c # a @ y) q" using False by (simp add: startswith_def)
    with Cons.IH [OF j(1)] j(2) show ?thesis by simp
  qed
qed (cases y; simp add: startswith_def split: if_splits)

lemma find_text_contains: "\<exists>i. find_text q (a @ q @ b) = Some i"
proof (induction a)
  case Nil
  have "startswith (q @ b) q" by simp
  then show ?case by (cases "q @ b") auto
next
  case (Cons c a)
  then show ?case by auto
qed

lemma fence_end_append:
  assumes "fence_end p = Some e" and "3 \<le> length p"
  shows "fence_end (p @ y) = Some e" and "e + length CLOSING \<le> length p"
proof -
  have len: "length FENCE - 1 = 3" by (simp add: FENCE_def)
  obtain i where i: "find_text CLOSING (drop 3 p) = Some i" "e = i + 3"
    using assms(1) unfolding fence_end_def len by auto
  have "drop 3 (p @ y) = drop 3 p @ y" using assms(2) by simp
  then show "fence_end (p @ y) = Some e"
    using find_text_append [OF i(1), of y] i(2) unfolding fence_end_def len by simp
  have "startswith (drop i (drop 3 p)) CLOSING" using find_text_Some [OF i(1)] by simp
  then obtain r where "drop (i + 3) p = CLOSING @ r" by (auto simp: startswith_iff)
  then have "length p - (i + 3) = length CLOSING + length r" using arg_cong [of _ _ length] by (metis length_append length_drop)
  moreover have "length CLOSING = 5" by (simp add: CLOSING_def)
  ultimately show "e + length CLOSING \<le> length p" using i(2) by linarith
qed

lemma fence_end_emit: "\<exists>e. fence_end (emit fs) = Some e"
proof -
  obtain ls where b: "block fs = unlines ls" by (simp add: block_def)
  have "drop (length FENCE - 1) (emit fs) = (NL # block fs) @ FENCE" by (simp add: emit_block FENCE_def)
  also have "\<dots> = concat (map (\<lambda>l. NL # l) ls) @ CLOSING @ []"
    unfolding b concat_lines_shift by (simp add: CLOSING_def FENCE_def)
  finally show ?thesis
    unfolding fence_end_def using find_text_contains [of CLOSING "concat (map (\<lambda>l. NL # l) ls)" "[]"] by auto
qed

text \<open>The front matter of a text does not depend on what follows its fence.\<close>

lemma split_same_front:
  assumes "split load (emit fs @ x) = Inr (Some d, r)"
  shows "\<exists>r'. split load (emit fs @ y) = Inr (Some d, r')"
proof -
  obtain e where e: "fence_end (emit fs) = Some e" using fence_end_emit by blast
  have st: "startswith (emit fs @ z) FENCE" for z by (simp add: emit_block)
  have len: "3 \<le> length (emit fs)" by (simp add: emit_block FENCE_def)
  note fe = fence_end_append [OF e len]
  define raw where "raw = slice (length FENCE) (e + 1) (emit fs)"
  have sl: "slice (length FENCE) (e + 1) (emit fs @ z) = raw" for z
    unfolding raw_def using fe(2) len by (simp add: slice_def FENCE_def CLOSING_def)
  obtain kvs where "load raw = Inr (YMap kvs)" "d = map (\<lambda>(k, v). (k, normalize v)) kvs"
    using assms unfolding split_def fe(1) option.case sl
    by (auto simp: st split: sum.splits yaml_error.splits yaml.splits)
  then show ?thesis unfolding split_def fe(1) option.case sl by (simp add: st)
qed

lemma universal_nl_no_CR_append: "universal_nl bytes = a @ b \<Longrightarrow> CR \<notin> set a"
  using universal_nl_no_CR [of bytes] by auto

section \<open>A rendered document is settled\<close>

lemma settled_put:
  assumes "split load (emit_doc fs d b) = Inr (fm, r)" and "old_stamp fm = Some d" and "CR \<notin> set (emit (fs d))" and "CR \<notin> set b"
  shows "settled load rel fs b (dict_set rel (emit_doc fs d b) files)"
proof -
  have "universal_nl (emit_doc fs d b) = emit_doc fs d b"
    using assms(3,4) by (intro universal_nl_id) (simp add: emit_doc_def)
  then show ?thesis using assms(1,2) by (simp add: settled_def update_conv)
qed

lemma write_settles:
  assumes w: "write_machine load rel fs body_of nd st = Inr st'" and b: "body_of Real = Inr b" "CR \<notin> set b"
    and y: "yaml_reads load" "fields_ok (fs nd)" "old_stamp (Some (fields_dict (fs nd))) = Some nd"
  shows "settled load rel fs b (rs_files st')"
proof (cases rule: write_machine_cases [of load rel fs body_of nd st])
  case (kept b')
  then show ?thesis using w b by (auto simp: settled_def)
next
  case (fresh b')
  have "split load (emit_doc fs nd b) = Inr (Some (fields_dict (fs nd)), NL # b)"
    using split_emit [OF y(1,2), of "NL # b"] by (simp add: emit_doc_def)
  then have "settled load rel fs b (dict_set rel (emit_doc fs nd b) (rs_files st))"
    using y(2,3) b(2) emit_no_CR [of "fs nd"] by (intro settled_put) (auto simp: fields_ok_def)
  then show ?thesis using fresh w b(1) by auto
next
  case (restamped b' bytes fm r d x)
  obtain e where fm: "fm = Some e" using restamped(5) by (auto simp: old_stamp_def split: option.splits)
  then obtain r' where "split load (emit (fs d) @ NL # b) = Inr (fm, r')"
    using split_same_front [of load "fs d" "NL # x" e r] restamped(4,6) by auto
  then have "split load (emit_doc fs d b) = Inr (fm, r')" by (simp add: emit_doc_def)
  then have "settled load rel fs b (dict_set rel (emit_doc fs d b) (rs_files st))"
    using restamped(5) b(2) universal_nl_no_CR_append [OF restamped(6)] by (intro settled_put)
  then show ?thesis using restamped(1,2) w b(1) by auto
qed (use w in simp)

lemma write_machine_frame:
  assumes "p \<noteq> rel"
  shows "dict_get (rs_files (outcome_state (write_machine load rel fs body_of nd st))) p = dict_get (rs_files st) p"
  by (cases rule: write_machine_cases [of load rel fs body_of nd st]) (simp_all add: assms update_conv)

lemma write_machine_body: "write_machine load rel fs body_of nd st = Inr st' \<Longrightarrow> \<exists>b. body_of Real = Inr b"
  by (cases rule: write_machine_cases [of load rel fs body_of nd st]) auto

lemma settled_frame: "dict_get files rel = dict_get files' rel \<Longrightarrow> settled load rel fs b files = settled load rel fs b files'"
  by (simp add: settled_def)

section \<open>The documents of one system\<close>

abbreviation doc_body :: "templates \<Rightarrow> human_reader \<Rightarrow> snapshot \<Rightarrow> string \<times> doc_entry \<Rightarrow> string fallible" where
  "doc_body tmpl h s re \<equiv> body_for tmpl h s (fst re) (snd re) Real"

lemma render_docs_frame:
  "p \<notin> fst ` set docs \<Longrightarrow>
   dict_get (rs_files (outcome_state (res_fold (render_doc tmpl load h s) st docs))) p = dict_get (rs_files st) p"
proof (induction docs arbitrary: st)
  case (Cons re docs)
  let ?w = "render_doc tmpl load h s st re"
  have w: "dict_get (rs_files (outcome_state ?w)) p = dict_get (rs_files st) p"
    using Cons.prems by (simp add: render_doc_def split_beta write_machine_frame)
  show ?case
  proof (cases ?w)
    case (Inl es)
    then show ?thesis using w by simp
  next
    case (Inr st1)
    then show ?thesis using Cons w by simp
  qed
qed simp

definition stampable :: "snapshot \<Rightarrow> doc_entry \<Rightarrow> bool" where
  "stampable s entry \<longleftrightarrow> fields_ok (doc_fields s entry (take 10 (s_captured_at s)))"

lemma stamp_read_back:
  assumes "date_shape nd"
  shows "old_stamp (Some (fields_dict (doc_fields s entry nd))) = Some nd"
  using date_shape_rx [OF assms]
  by (cases entry) (auto simp: old_stamp_def fields_dict_def doc_fields_def provenance_def scalar_json_def Let_def)

lemma render_docs_settle:
  assumes "yaml_reads load" and "date_shape (take 10 (s_captured_at s))"
  shows "res_fold (render_doc tmpl load h s) st docs = Inr st' \<Longrightarrow> distinct (map fst docs) \<Longrightarrow>
    (\<And>re. re \<in> set docs \<Longrightarrow> stampable s (snd re)) \<Longrightarrow>
    (\<And>re b. re \<in> set docs \<Longrightarrow> doc_body tmpl h s re = Inr b \<Longrightarrow> CR \<notin> set b) \<Longrightarrow>
    re \<in> set docs \<Longrightarrow> \<exists>b. doc_body tmpl h s re = Inr b \<and> settled load (fst re) (doc_fields s (snd re)) b (rs_files st')"
proof (induction docs arbitrary: st)
  case (Cons x docs)
  obtain st1 where w: "render_doc tmpl load h s st x = Inr st1"
    and rest: "res_fold (render_doc tmpl load h s) st1 docs = Inr st'"
    using Cons.prems(1) by (auto simp: res_bind_Inr_iff)
  have wm: "write_machine load (fst x) (doc_fields s (snd x)) (body_for tmpl h s (fst x) (snd x))
      (take 10 (s_captured_at s)) st = Inr st1"
    using w by (simp add: render_doc_def split_beta)
  show ?case
  proof (cases "re = x")
    case True
    obtain b where b: "doc_body tmpl h s x = Inr b" using write_machine_body [OF wm] by blast
    have "settled load (fst x) (doc_fields s (snd x)) b (rs_files st1)"
      using wm b Cons.prems(4) [of x b] assms(1) Cons.prems(3) [of x] stamp_read_back [OF assms(2)]
      by (intro write_settles [OF wm b]) (auto simp: stampable_def)
    moreover have "dict_get (rs_files st') (fst x) = dict_get (rs_files st1) (fst x)"
      using render_docs_frame [of "fst x" docs tmpl load h s st1] rest Cons.prems(2) by simp
    ultimately show ?thesis using True b settled_frame by metis
  next
    case False
    show ?thesis
    proof (rule Cons.IH [OF rest])
      show "stampable s (snd q)" if "q \<in> set docs" for q using Cons.prems(3) that by (meson list.set_intros(2))
      show "CR \<notin> set b" if "q \<in> set docs" "doc_body tmpl h s q = Inr b" for q b
        using Cons.prems(4) that by (meson list.set_intros(2))
    qed (use Cons.prems False in simp_all)
  qed
qed simp

lemma render_docs_noop:
  "(\<And>re. re \<in> set docs \<Longrightarrow> \<exists>b. doc_body tmpl h s re = Inr b \<and> settled load (fst re) (doc_fields s (snd re)) b (rs_files st)) \<Longrightarrow>
   res_fold (render_doc tmpl load h s) st docs = Inr (st\<lparr>rs_unchanged := rs_unchanged st @ map fst docs\<rparr>)"
proof (induction docs arbitrary: st)
  case (Cons x docs)
  obtain b where b: "doc_body tmpl h s x = Inr b" "settled load (fst x) (doc_fields s (snd x)) b (rs_files st)"
    using Cons.prems [of x] by auto
  then have "render_doc tmpl load h s st x = Inr (keep_file (fst x) st)"
    by (simp add: render_doc_def split_beta write_settled)
  moreover have "res_fold (render_doc tmpl load h s) (keep_file (fst x) st) docs =
      Inr ((keep_file (fst x) st)\<lparr>rs_unchanged := rs_unchanged (keep_file (fst x) st) @ map fst docs\<rparr>)"
    by (rule Cons.IH) (use Cons.prems in auto)
  ultimately show ?case by (simp add: keep_file_def)
qed simp

section \<open>One system\<close>

definition owned :: "snapshot \<Rightarrow> string \<Rightarrow> bool" where
  "owned s p \<longleftrightarrow> in_dir (sysdir (s_system s)) p \<and> is_machine_file p"

definition doc_paths :: "snapshot \<Rightarrow> string list" where
  "doc_paths s = map fst (planned_docs s)"

text \<open>The system's part of the tree is what a render of the snapshot leaves.\<close>

definition settled_system :: "templates \<Rightarrow> yaml_loader \<Rightarrow> kb_files \<Rightarrow> snapshot \<Rightarrow> bool" where
  "settled_system tmpl load files s \<longleftrightarrow>
     distinct (doc_paths s)
     \<and> (\<forall>re \<in> set (planned_docs s). \<exists>b. doc_body tmpl (human_info load files) s re = Inr b
          \<and> settled load (fst re) (doc_fields s (snd re)) b files)
     \<and> (\<forall>p. owned s p \<and> dict_get files p \<noteq> None \<longrightarrow> p \<in> set (doc_paths s))"

definition renderable :: "snapshot \<Rightarrow> bool" where
  "renderable s \<longleftrightarrow> date_shape (take 10 (s_captured_at s)) \<and> no_index s \<and> list_all (\<lambda>(_, e). stampable s e) (planned_docs s)"

definition plain_bodies :: "templates \<Rightarrow> human_reader \<Rightarrow> snapshot \<Rightarrow> bool" where
  "plain_bodies tmpl h s \<longleftrightarrow>
     list_all (\<lambda>re. case doc_body tmpl h s re of Inr b \<Rightarrow> CR \<notin> set b | Inl _ \<Rightarrow> True) (planned_docs s)"

lemma human_not_owned: "human_path p \<Longrightarrow> \<not> owned s p"
  by (simp add: human_path_def owned_def)

lemma doc_paths_owned: "p \<in> set (doc_paths s) \<Longrightarrow> owned s p"
  using planned_machine by (fastforce simp: doc_paths_def owned_def)

lemma same_humans_files:
  "(\<And>p. human_path p \<Longrightarrow> dict_get files p = dict_get files' p) \<Longrightarrow> same_humans (human_info load files) (human_info load files')"
  by (simp add: same_humans_def human_info_def)

lemma doc_body_files:
  assumes "\<And>p. human_path p \<Longrightarrow> dict_get files p = dict_get files' p" and "no_index s" and "re \<in> set (planned_docs s)"
  shows "doc_body tmpl (human_info load files) s re = doc_body tmpl (human_info load files') s re"
  by (rule body_for_cong [OF same_humans_files [OF assms(1)] assms(2)]) (use assms(3) in simp_all)

lemma settled_system_frame:
  assumes "settled_system tmpl load files s" and "no_index s"
    and "\<And>p. human_path p \<or> owned s p \<Longrightarrow> dict_get files p = dict_get files' p"
  shows "settled_system tmpl load files' s"
proof -
  have "\<exists>b. doc_body tmpl (human_info load files') s re = Inr b \<and> settled load (fst re) (doc_fields s (snd re)) b files'"
    if re: "re \<in> set (planned_docs s)" for re
  proof -
    have "fst re \<in> set (doc_paths s)" using re by (simp add: doc_paths_def)
    then have "dict_get files (fst re) = dict_get files' (fst re)" using assms(3) doc_paths_owned by blast
    moreover obtain b where "doc_body tmpl (human_info load files) s re = Inr b"
      "settled load (fst re) (doc_fields s (snd re)) b files"
      using assms(1) re by (auto simp: settled_system_def)
    moreover have "doc_body tmpl (human_info load files) s re = doc_body tmpl (human_info load files') s re"
      using assms(3) by (intro doc_body_files [OF _ assms(2) re]) blast
    ultimately show ?thesis using settled_frame by metis
  qed
  moreover have "p \<in> set (doc_paths s)" if "owned s p" "dict_get files' p \<noteq> None" for p
    using assms(1,3) that by (auto simp: settled_system_def)
  ultimately show ?thesis using assms(1) unfolding settled_system_def by blast
qed

lemma prune_get:
  "dict_get (rs_files (prune_system system keep st)) p =
     (if in_dir (sysdir system) p \<and> is_machine_file p \<and> p \<notin> set keep then None else dict_get (rs_files st) p)"
  using map_of_filter_key [of "\<lambda>rel. \<not> gone system keep rel" "rs_files st" p]
  by (simp add: prune_system_def gone_def split: if_splits)

lemma expected_docs_sorted:
  assumes "expected_docs s = Inr plan"
  shows "distinct (doc_paths s)" and "plan = planned_docs s" and "dict_keys plan = doc_paths s"
  using assms by (auto simp: expected_docs_Inr doc_paths_def dict_keys_def)

lemma render_system_cases:
  obtains (failed) e where "expected_docs s = Inl e" "render_system tmpl load st s = Inl (e, st)"
  | (crashed) e st' where "distinct (doc_paths s)" "render_system tmpl load st s = Inl (e, st')"
      "res_fold (render_doc tmpl load (human_info load (rs_files st)) s) st (sort_key fst (planned_docs s)) = Inl (e, st')"
  | (rendered) st' where "distinct (doc_paths s)"
      "res_fold (render_doc tmpl load (human_info load (rs_files st)) s) st (sort_key fst (planned_docs s)) = Inr st'"
      "render_system tmpl load st s = Inr (prune_system (s_system s) (doc_paths s) st')"
proof (cases "expected_docs s")
  case (Inl e)
  then show thesis by (intro failed) (simp_all add: render_system_def)
next
  case (Inr plan)
  note pl = expected_docs_sorted [OF Inr]
  let ?f = "res_fold (render_doc tmpl load (human_info load (rs_files st)) s) st (sort_key fst (planned_docs s))"
  show thesis
  proof (cases ?f)
    case (Inl es)
    then show thesis using pl Inr by (cases es) (auto intro!: crashed simp: render_system_def)
  next
    case fold: (Inr st')
    then show thesis using pl Inr by (intro rendered) (simp_all add: render_system_def)
  qed
qed

lemma render_system_frame:
  assumes "\<not> owned s p"
  shows "dict_get (rs_files (outcome_state (render_system tmpl load st s))) p = dict_get (rs_files st) p"
proof -
  have "p \<notin> set (doc_paths s)" using assms doc_paths_owned by blast
  then have "p \<notin> fst ` set (sort_key fst (planned_docs s))" by (simp add: doc_paths_def)
  note fr = render_docs_frame [OF this, of tmpl load "human_info load (rs_files st)" s st]
  show ?thesis
  proof (cases rule: render_system_cases [of s tmpl load st])
    case (rendered st')
    then show ?thesis using fr assms by (auto simp: prune_get owned_def)
  qed (use fr in simp_all)
qed

lemma render_system_settles:
  assumes r: "render_system tmpl load st s = Inr st'" and "yaml_reads load" and ok: "renderable s"
    and pb: "plain_bodies tmpl (human_info load (rs_files st)) s"
  shows "settled_system tmpl load (rs_files st') s"
proof (cases rule: render_system_cases [of s tmpl load st])
  case (rendered st1)
  let ?h = "human_info load (rs_files st)"
  have st': "st' = prune_system (s_system s) (doc_paths s) st1" using rendered(3) r by simp
  have ni: "no_index s" using ok by (simp add: renderable_def)
  have human: "dict_get (rs_files st) p = dict_get (rs_files st') p" if "human_path p" for p
    using render_system_frame [where tmpl = tmpl and load = load and st = st and s = s, OF human_not_owned [OF that]] r
    by simp
  have "\<exists>b. doc_body tmpl (human_info load (rs_files st')) s re = Inr b
      \<and> settled load (fst re) (doc_fields s (snd re)) b (rs_files st')" if re: "re \<in> set (planned_docs s)" for re
  proof -
    have "\<exists>b. doc_body tmpl ?h s re = Inr b \<and> settled load (fst re) (doc_fields s (snd re)) b (rs_files st1)"
    proof (rule render_docs_settle [OF assms(2) _ rendered(2)])
      show "date_shape (take 10 (s_captured_at s))" using ok by (simp add: renderable_def)
      show "distinct (map fst (sort_key fst (planned_docs s)))" using rendered(1) unfolding doc_paths_def by (simp add: distinct_map)
      show "stampable s (snd q)" if "q \<in> set (sort_key fst (planned_docs s))" for q
        using ok that by (auto simp: renderable_def list_all_iff split_beta)
      show "CR \<notin> set b" if "q \<in> set (sort_key fst (planned_docs s))" "doc_body tmpl ?h s q = Inr b" for q b
        using pb that by (auto simp: plain_bodies_def list_all_iff)
    qed (use re in simp)
    then obtain b where b: "doc_body tmpl ?h s re = Inr b"
      "settled load (fst re) (doc_fields s (snd re)) b (rs_files st1)" by blast
    have "fst re \<in> set (doc_paths s)" using re by (simp add: doc_paths_def)
    then have "dict_get (rs_files st') (fst re) = dict_get (rs_files st1) (fst re)" by (simp add: st' prune_get)
    then have "settled load (fst re) (doc_fields s (snd re)) b (rs_files st')" using b(2) settled_frame by metis
    moreover have "doc_body tmpl (human_info load (rs_files st')) s re = Inr b"
      using b(1) doc_body_files [OF human ni re] by metis
    ultimately show ?thesis by blast
  qed
  moreover have "p \<in> set (doc_paths s)" if "owned s p" "dict_get (rs_files st') p \<noteq> None" for p
    using that by (simp add: st' prune_get owned_def split: if_splits)
  ultimately show ?thesis using rendered(1) unfolding settled_system_def by blast
qed (use r in simp_all)

lemma filter_keys_all: "(\<And>k v. (k, v) \<in> set d \<Longrightarrow> P k) \<Longrightarrow> filter (\<lambda>(k, _). P k) d = d"
  by (induction d) auto

lemma render_system_noop:
  assumes "settled_system tmpl load (rs_files st) s"
  shows "render_system tmpl load st s =
    Inr (st\<lparr>rs_unchanged := rs_unchanged st @ map fst (sort_key fst (planned_docs s))\<rparr>)"
proof -
  let ?gone = "gone (s_system s) (doc_paths s)"
  have d: "distinct (doc_paths s)" using assms by (simp add: settled_system_def)
  then have e: "expected_docs s = Inr (planned_docs s)" by (simp add: expected_docs_Inr doc_paths_def)
  have keep: "\<not> ?gone rel" if "rel \<in> fst ` set (rs_files st)" for rel
    using assms that by (auto simp: settled_system_def owned_def gone_def map_of_eq_None_iff)
  have f: "filter (\<lambda>(rel, _). \<not> ?gone rel) (rs_files st) = rs_files st"
    using keep by (intro filter_keys_all) force
  have g: "filter ?gone (dict_keys (rs_files st)) = []"
    using keep by (auto simp: filter_empty_conv dict_keys_def)
  have fold: "res_fold (render_doc tmpl load (human_info load (rs_files st)) s) st (sort_key fst (planned_docs s)) =
      Inr (st\<lparr>rs_unchanged := rs_unchanged st @ map fst (sort_key fst (planned_docs s))\<rparr>)"
    using assms by (intro render_docs_noop) (auto simp: settled_system_def)
  show ?thesis
    using e fold f g by (simp add: render_system_def prune_system_def dict_keys_def flip: doc_paths_def)
qed

section \<open>The tree\<close>

lemma owned_disjoint:
  assumes "owned s p" and "owned t p"
  shows "mangle (s_system s) = mangle (s_system t)"
proof -
  obtain a b where "p = ''systems/'' @ mangle (s_system s) @ CHR ''/'' # a" "p = ''systems/'' @ mangle (s_system t) @ CHR ''/'' # b"
    using assms by (auto simp: owned_def in_dir_def sysdir_def startswith_iff)
  then have "mangle (s_system s) @ CHR ''/'' # a = mangle (s_system t) @ CHR ''/'' # b" by simp
  from dot_split_unique [OF this mangle_no_slash mangle_no_slash] show ?thesis by simp
qed

lemma render_systems_frame:
  "(\<And>s. s \<in> set ss \<Longrightarrow> \<not> owned s p) \<Longrightarrow>
   dict_get (rs_files (outcome_state (res_fold (render_system tmpl load) st ss))) p = dict_get (rs_files st) p"
proof (induction ss arbitrary: st)
  case (Cons s ss)
  note w = render_system_frame [of s p tmpl load st, OF Cons.prems [of s]]
  show ?case
  proof (cases "render_system tmpl load st s")
    case (Inl es)
    then show ?thesis using w by simp
  next
    case (Inr st1)
    have "dict_get (rs_files (outcome_state (res_fold (render_system tmpl load) st1 ss))) p = dict_get (rs_files st1) p"
      by (rule Cons.IH) (use Cons.prems in simp)
    then show ?thesis using Inr w by simp
  qed
qed simp

lemma render_systems_settle:
  assumes "yaml_reads load"
  shows "res_fold (render_system tmpl load) st ss = Inr st' \<Longrightarrow> distinct (map (\<lambda>s. mangle (s_system s)) ss) \<Longrightarrow>
    (\<And>s. s \<in> set ss \<Longrightarrow> renderable s) \<Longrightarrow> (\<And>p. human_path p \<Longrightarrow> dict_get (rs_files st) p = dict_get files p) \<Longrightarrow>
    (\<And>s. s \<in> set ss \<Longrightarrow> plain_bodies tmpl (human_info load files) s) \<Longrightarrow>
    s \<in> set ss \<Longrightarrow> settled_system tmpl load (rs_files st') s"
proof (induction ss arbitrary: st)
  case (Cons t ss)
  obtain st1 where r: "render_system tmpl load st t = Inr st1" and rest: "res_fold (render_system tmpl load) st1 ss = Inr st'"
    using Cons.prems(1) by (auto simp: res_bind_Inr_iff)
  have human: "dict_get (rs_files st1) p = dict_get files p" if "human_path p" for p
    using render_system_frame [where tmpl = tmpl and load = load and st = st and s = t, OF human_not_owned [OF that]] r
      Cons.prems(4) [OF that] by simp
  show ?case
  proof (cases "s = t")
    case True
    have ok: "renderable t" using Cons.prems(3) by simp
    then have ni: "no_index t" by (simp add: renderable_def)
    have "plain_bodies tmpl (human_info load (rs_files st)) t"
      using Cons.prems(5) [of t] doc_body_files [OF Cons.prems(4) ni] by (simp add: plain_bodies_def list_all_iff)
    with r have "settled_system tmpl load (rs_files st1) t" by (rule render_system_settles [OF _ assms ok])
    moreover have "dict_get (rs_files st1) p = dict_get (rs_files st') p" if "human_path p \<or> owned t p" for p
    proof -
      have "\<not> owned u p" if "u \<in> set ss" for u
        using that \<open>human_path p \<or> owned t p\<close> human_not_owned owned_disjoint [of t p u] Cons.prems(2) by auto
      from render_systems_frame [of ss p tmpl load st1, OF this] rest show ?thesis by simp
    qed
    ultimately show ?thesis using True settled_system_frame [OF _ ni] by metis
  next
    case False
    show ?thesis
    proof (rule Cons.IH [OF rest _ _ human])
      show "distinct (map (\<lambda>s. mangle (s_system s)) ss)" using Cons.prems(2) by simp
    qed (use Cons.prems(3,5,6) False in simp_all)
  qed
qed simp

lemma render_systems_noop:
  "(\<And>s. s \<in> set ss \<Longrightarrow> settled_system tmpl load (rs_files st) s) \<Longrightarrow>
   res_fold (render_system tmpl load) st ss =
     Inr (st\<lparr>rs_unchanged := rs_unchanged st @ concat (map (\<lambda>s. map fst (sort_key fst (planned_docs s))) ss)\<rparr>)"
proof (induction ss arbitrary: st)
  case (Cons t ss)
  have "settled_system tmpl load (rs_files st) t" using Cons.prems by simp
  note n = render_system_noop [OF this]
  show ?case using Cons.IH [of "st\<lparr>rs_unchanged := rs_unchanged st @ map fst (sort_key fst (planned_docs t))\<rparr>"] Cons.prems
    by (simp add: n)
qed simp

text \<open>The snapshots by system\<close>

lemma collect_Inr:
  "res_fold (collect_snapshot sch) d snaps = Inr by_system \<Longrightarrow> dict_wf d \<Longrightarrow>
   by_system = d @ map (\<lambda>s. (s_system s, s)) snaps"
proof (induction snaps arbitrary: d)
  case (Cons s snaps)
  obtain d' where d': "collect_snapshot sch d s = Inr d'" and rest': "res_fold (collect_snapshot sch) d' snaps = Inr by_system"
    using Cons.prems(1) by (auto simp: res_bind_Inr_iff)
  have fresh: "\<not> dict_has d (s_system s)" and "d' = dict_set (s_system s) s d"
    using d' by (auto simp: collect_snapshot_def Let_def split: if_splits)
  then have rest: "res_fold (collect_snapshot sch) (dict_set (s_system s) s d) snaps = Inr by_system" using rest' by simp
  have "dict_set (s_system s) s d = d @ [(s_system s, s)]"
    using fresh by (induction d) (auto simp: dict_has_def split: if_splits)
  then show ?case using Cons.IH [OF rest alist.wf_put [OF Cons.prems(2)]] by simp
qed simp

definition sorted_snapshots :: "snapshot list \<Rightarrow> snapshot list" where
  "sorted_snapshots snaps = map snd (sort_key fst (map (\<lambda>s. (s_system s, s)) snaps))"

lemma sorted_snapshots_mset [simp]: "mset (sorted_snapshots snaps) = mset snaps"
  unfolding sorted_snapshots_def mset_map mset_sort by (simp add: image_mset.compositionality comp_def)

lemma sorted_snapshots_set [simp]: "set (sorted_snapshots snaps) = set snaps"
  by (metis set_mset_mset sorted_snapshots_mset)

lemma sorted_snapshots_distinct:
  "distinct (map f snaps) \<Longrightarrow> distinct (map f (sorted_snapshots snaps))"
  using mset_eq_imp_distinct_iff [of "map f (sorted_snapshots snaps)" "map f snaps"] by (simp add: mset_map)

lemma bootstrap_frame:
  "p \<noteq> ''index.md'' \<and> p \<noteq> ''conventions.md'' \<or> dict_get (rs_files st) p \<noteq> None \<Longrightarrow>
   dict_get (rs_files (bootstrap tmpl by_system st)) p = dict_get (rs_files st) p"
  by (auto simp: bootstrap_def bootstrap_file_def update_conv dict_has_def)

lemma bootstrap_there:
  "dict_get (rs_files (bootstrap tmpl by_system st)) ''index.md'' \<noteq> None"
  "dict_get (rs_files (bootstrap tmpl by_system st)) ''conventions.md'' \<noteq> None"
  by (auto simp: bootstrap_def bootstrap_file_def update_conv dict_has_def)

lemma bootstrap_noop:
  "dict_get (rs_files st) ''index.md'' \<noteq> None \<Longrightarrow> dict_get (rs_files st) ''conventions.md'' \<noteq> None \<Longrightarrow> bootstrap tmpl by_system st = st"
  by (simp add: bootstrap_def bootstrap_file_def dict_has_def)

lemma root_not_inside: "human_path p \<or> owned s p \<Longrightarrow> p \<noteq> ''index.md'' \<and> p \<noteq> ''conventions.md''"
  by (auto simp: human_path_def owned_def in_dir_def sysdir_def startswith_def)

lemma render_tree_cases:
  obtains (rejected) e where "res_fold (collect_snapshot sch) [] snaps = Inl e"
      "render_tree tmpl load sch snaps files = Inl (e, empty_result files)"
  | (crashed) e st where "render_tree tmpl load sch snaps files = Inl (e, st)"
      "res_fold (render_system tmpl load) (empty_result files) (sorted_snapshots snaps) = Inl (e, st)"
  | (rendered) st d where "res_fold (collect_snapshot sch) [] snaps = Inr d"
      "res_fold (render_system tmpl load) (empty_result files) (sorted_snapshots snaps) = Inr st"
      "render_tree tmpl load sch snaps files = Inr ((bootstrap tmpl d st)
         \<lparr>rs_written := sort (rs_written (bootstrap tmpl d st)), rs_unchanged := sort (rs_unchanged (bootstrap tmpl d st)),
          rs_deleted := sort (rs_deleted (bootstrap tmpl d st))\<rparr>)"
proof (cases "res_fold (collect_snapshot sch) [] snaps")
  case (Inl e)
  then show thesis by (intro rejected) (simp_all add: render_tree_def)
next
  case (Inr d)
  have d: "map snd (sort_key fst d) = sorted_snapshots snaps"
    using collect_Inr [OF Inr] by (simp add: sorted_snapshots_def dict_wf_def)
  show thesis
  proof (cases "res_fold (render_system tmpl load) (empty_result files) (sorted_snapshots snaps)")
    case (Inl es)
    with Inr d show thesis by (cases es) (auto intro!: crashed simp: render_tree_def)
  next
    case fold: (Inr st)
    with Inr d show thesis by (intro rendered) (simp_all add: render_tree_def Let_def)
  qed
qed

lemma empty_result_simps [simp]: "rs_files (empty_result files) = files" "rs_written (empty_result files) = []"
  "rs_unchanged (empty_result files) = []" "rs_deleted (empty_result files) = []" "rs_bootstrapped (empty_result files) = []"
  by (simp_all add: empty_result_def)

lemma render_tree_settles:
  assumes r: "render_tree tmpl load sch snaps files = Inr st" and y: "yaml_reads load"
    and d: "distinct (map (\<lambda>s. mangle (s_system s)) snaps)" and ok: "list_all renderable snaps"
    and pb: "list_all (plain_bodies tmpl (human_info load files)) snaps" and s: "s \<in> set snaps"
  shows "settled_system tmpl load (rs_files st) s"
proof (cases rule: render_tree_cases [of sch snaps tmpl load files])
  case (rendered st1 by_system)
  have "settled_system tmpl load (rs_files st1) s"
    by (rule render_systems_settle [OF y rendered(2) sorted_snapshots_distinct [OF d], of files])
       (use ok pb s in \<open>auto simp: list_all_iff\<close>)
  moreover have "no_index s" using ok s by (simp add: list_all_iff renderable_def)
  moreover have "dict_get (rs_files st1) p = dict_get (rs_files st) p" if "human_path p \<or> owned s p" for p
    using r rendered(3) bootstrap_frame [of p st1 tmpl by_system] root_not_inside [OF that] by auto
  ultimately show ?thesis using settled_system_frame by metis
qed (use r in simp_all)

text \<open>A tree that is settled for every snapshot is left as it is.\<close>

lemma render_tree_noop:
  assumes settles: "\<And>s. s \<in> set snaps \<Longrightarrow> settled_system tmpl load files s"
    and boot: "dict_get files ''index.md'' \<noteq> None" "dict_get files ''conventions.md'' \<noteq> None"
    and coll: "res_fold (collect_snapshot sch) [] snaps = Inr d"
  shows "render_tree tmpl load sch snaps files =
    Inr ((empty_result files)\<lparr>rs_unchanged := sort (concat (map doc_paths snaps))\<rparr>)"
proof -
  define st2 where "st2 = (empty_result files)
      \<lparr>rs_unchanged := concat (map (\<lambda>s. map fst (sort_key fst (planned_docs s))) (sorted_snapshots snaps))\<rparr>"
  have fold: "res_fold (render_system tmpl load) (empty_result files) (sorted_snapshots snaps) = Inr st2"
    using render_systems_noop [of "sorted_snapshots snaps" tmpl load "empty_result files"] settles by (simp add: st2_def)
  have b2: "bootstrap tmpl d' st2 = st2" for d' using boot by (intro bootstrap_noop) (simp_all add: st2_def)
  have "mset (concat (map (\<lambda>s. map fst (sort_key fst (planned_docs s))) (sorted_snapshots snaps))) = mset (concat (map doc_paths snaps))"
  proof -
    have "mset (map fst (sort_key fst (planned_docs s))) = mset (doc_paths s)" for s by (simp add: doc_paths_def)
    then have "mset (concat (map (\<lambda>s. map fst (sort_key fst (planned_docs s))) ss)) = mset (concat (map doc_paths ss))" for ss
      by (induction ss) simp_all
    moreover have "mset (concat (map doc_paths ss)) = \<Sum>\<^sub># (image_mset (\<lambda>s. mset (doc_paths s)) (mset ss))" for ss
      by (induction ss) simp_all
    ultimately show ?thesis by simp
  qed
  from sort_key_perm [OF this inj_on_id2] have "sort (rs_unchanged st2) = sort (concat (map doc_paths snaps))"
    by (simp add: st2_def)
  then have st2: "st2\<lparr>rs_written := sort (rs_written st2), rs_unchanged := sort (rs_unchanged st2), rs_deleted := sort (rs_deleted st2)\<rparr>
      = (empty_result files)\<lparr>rs_unchanged := sort (concat (map doc_paths snaps))\<rparr>"
    by (simp add: st2_def)
  show ?thesis
  proof (cases rule: render_tree_cases [of sch snaps tmpl load files])
    case (rejected e)
    then show ?thesis using coll by simp
  next
    case (rendered st3 d')
    then show ?thesis using fold b2 st2 by simp
  qed (use fold in simp)
qed

lemma render_tree_bootstraps:
  assumes "render_tree tmpl load sch snaps files = Inr st"
  shows "\<exists>d. res_fold (collect_snapshot sch) [] snaps = Inr d"
    and "dict_get (rs_files st) ''index.md'' \<noteq> None" and "dict_get (rs_files st) ''conventions.md'' \<noteq> None"
proof -
  obtain st1 d where coll: "res_fold (collect_snapshot sch) [] snaps = Inr d"
    and files: "rs_files st = rs_files (bootstrap tmpl d st1)"
    by (cases rule: render_tree_cases [of sch snaps tmpl load files]) (use assms in \<open>auto\<close>)
  then show "\<exists>d. res_fold (collect_snapshot sch) [] snaps = Inr d" by blast
  show "dict_get (rs_files st) ''index.md'' \<noteq> None" "dict_get (rs_files st) ''conventions.md'' \<noteq> None"
    unfolding files by (rule bootstrap_there)+
qed

section \<open>A sample run\<close>

definition sample_table :: obj where
  "sample_table = \<lparr>o_kind = ''table'', o_schema = ''public'', o_name = ''users'', o_description = None,
     o_schema_hash = ''sha256:0a'', o_columns = [], o_keys = \<lparr>k_primary = None, k_foreign = None, k_unique = None\<rparr>, o_stats = []\<rparr>"

definition sample_snapshot :: snapshot where
  "sample_snapshot = \<lparr>s_version = ''1'', s_system = ''crm'', s_system_class = ''sql'', s_source_mode = ''live'',
     s_captured_at = ''2024-02-29T10:00:00Z'', s_connector = (''pg'', ''1''), s_source_properties = None,
     s_objects = [sample_table]\<rparr>"

definition sample_templates :: templates where
  "sample_templates name c = name @ [NL]"

definition sample_files :: kb_files where
  "sample_files = [(''systems/crm/public/users.md'', FENCE @ ''status: draft'' @ [NL] @ FENCE @ ''Text''),
     (''systems/crm/old/index.md'', ''stale'')]"

lemma sample_renderable: "list_all renderable [sample_snapshot]"
  by code_simp

lemma sample_plain: "list_all (plain_bodies sample_templates (human_info simple_load sample_files)) [sample_snapshot]"
  by code_simp

definition sample_state :: render_state where
  "sample_state = outcome_state (render_tree sample_templates simple_load (\<lambda>_. []) [sample_snapshot] sample_files)"

lemma sample_render:
  "render_tree sample_templates simple_load (\<lambda>_. []) [sample_snapshot] sample_files = Inr sample_state"
proof -
  have "case render_tree sample_templates simple_load (\<lambda>_. []) [sample_snapshot] sample_files of Inr _ \<Rightarrow> True | Inl _ \<Rightarrow> False"
    by code_simp
  then show ?thesis by (auto simp: sample_state_def split: sum.splits)
qed

section \<open>Properties of a render\<close>

text \<open>C2. Rendering is idempotent (render.py \<open>render_tree\<close>): after a successful run over systems with different directories, whose
  fields YAML reads back, whose bodies have no carriage return and whose objects are not named like an index, a second
  run over the same snapshots leaves every file byte for byte as it is; it writes, deletes and bootstraps nothing and reports
  exactly the planned documents as unchanged, whatever the date of the snapshots.\<close>

theorem render_tree_idempotent:
  assumes "render_tree tmpl load sch snaps files = Inr st" and "yaml_reads load"
    and "distinct (map (\<lambda>s. mangle (s_system s)) snaps)" and "list_all renderable snaps"
    and "list_all (plain_bodies tmpl (human_info load files)) snaps"
  shows "render_tree tmpl load sch snaps (rs_files st) =
    Inr ((empty_result (rs_files st))\<lparr>rs_unchanged := sort (concat (map doc_paths snaps))\<rparr>)"
proof -
  obtain d where "res_fold (collect_snapshot sch) [] snaps = Inr d"
    using render_tree_bootstraps(1) [OF assms(1)] by blast
  with render_tree_settles [OF assms] render_tree_bootstraps(2,3) [OF assms(1)] show ?thesis
    by (rule render_tree_noop)
qed

theorem render_tree_idempotent_witness:
  "render_tree sample_templates simple_load (\<lambda>_. []) [sample_snapshot] (rs_files sample_state) =
    Inr ((empty_result (rs_files sample_state))\<lparr>rs_unchanged := sort (concat (map doc_paths [sample_snapshot]))\<rparr>)"
  by (rule render_tree_idempotent [OF sample_render simple_load_reads _ sample_renderable sample_plain]) simp

text \<open>C3. The renderer touches its own files only (render.py \<open>render_tree\<close>): whatever the outcome, a path has after the run what it
  had before, unless it is a machine file in the directory of a rendered system or a bootstrap file that did not exist.
  So human-owned files and systems that are not among the snapshots stay as they are, also when a run fails half way.\<close>

theorem render_tree_touches_own_files:
  "dict_get (rs_files (outcome_state (render_tree tmpl load sch snaps files))) p = dict_get files p
   \<or> (\<exists>s \<in> set snaps. in_dir (sysdir (s_system s)) p \<and> is_machine_file p)
   \<or> (p = ''index.md'' \<or> p = ''conventions.md'') \<and> dict_get files p = None"
proof (cases "\<exists>s \<in> set snaps. owned s p")
  case True
  then show ?thesis by (auto simp: owned_def)
next
  case False
  then have "\<not> owned s p" if "s \<in> set (sorted_snapshots snaps)" for s using that by auto
  from render_systems_frame [of "sorted_snapshots snaps" p tmpl load "empty_result files", OF this]
  have fr: "dict_get (rs_files (outcome_state (res_fold (render_system tmpl load) (empty_result files) (sorted_snapshots snaps)))) p
      = dict_get files p" by simp
  show ?thesis
  proof (cases rule: render_tree_cases [of sch snaps tmpl load files])
    case (rendered st d)
    have "dict_get (rs_files st) p = dict_get files p" using fr rendered(2) by simp
    then show ?thesis using rendered(3) bootstrap_frame [of p st tmpl d] by (cases "dict_get files p") auto
  qed (use fr in simp_all)
qed

text \<open>C4. The machine-owned file set is exactly what the snapshots define (render.py \<open>expected_docs\<close>, \<open>_prune_system\<close>): after a
  successful run, the machine files in a system's directory are the documents planned for it, no more and no fewer. It is
  assumed that the systems have different directories; that their dates have the shape of a date, their names are not empty, no
  object is named \<open>index\<close> and their stamps are values that are read back (\<open>renderable\<close>), by a reader that reads YAML's forms
  (\<open>yaml_reads\<close>); and that no rendered body has a carriage return (\<open>plain_bodies\<close>).\<close>

theorem render_tree_machine_set:
  assumes "render_tree tmpl load sch snaps files = Inr st" and "yaml_reads load"
    and "distinct (map (\<lambda>s. mangle (s_system s)) snaps)" and "list_all renderable snaps"
    and "list_all (plain_bodies tmpl (human_info load files)) snaps" and "s \<in> set snaps"
  shows "{p. dict_get (rs_files st) p \<noteq> None \<and> in_dir (sysdir (s_system s)) p \<and> is_machine_file p} = set (doc_paths s)"
proof -
  have ss: "settled_system tmpl load (rs_files st) s" by (rule render_tree_settles [OF assms])
  have "dict_get (rs_files st) p \<noteq> None" if p: "p \<in> set (doc_paths s)" for p
  proof -
    obtain re where "re \<in> set (planned_docs s)" "p = fst re" using p by (auto simp: doc_paths_def)
    then show ?thesis using ss by (auto simp: settled_system_def settled_def)
  qed
  moreover have "p \<in> set (doc_paths s)" if "owned s p" "dict_get (rs_files st) p \<noteq> None" for p
    using ss that by (simp add: settled_system_def)
  ultimately show ?thesis using doc_paths_owned [of _ s] unfolding owned_def by blast
qed

theorem render_tree_machine_set_witness:
  "{p. dict_get (rs_files sample_state) p \<noteq> None \<and> in_dir (sysdir (s_system sample_snapshot)) p \<and> is_machine_file p} =
    set (doc_paths sample_snapshot)"
  by (rule render_tree_machine_set [OF sample_render simple_load_reads _ sample_renderable sample_plain]) simp_all

text \<open>C5. When a stamp moves (render.py \<open>_write_machine\<close>, \<open>_purpose_confined\<close>): when the existing file is the document with an
  older stamp, which is read back from it, and some older body, the file is kept if the body is the new one, rewritten with its
  old stamp if it differs from the new render only in the purpose slots, and stamped with the snapshot's date otherwise. It is
  assumed that the existing file has no carriage return (a body with one is never found unchanged, see \<open>carriage_return_never_unchanged\<close>) and
  that the body is one of lines with at most one purpose slot each: the renders without purposes and with the marker are the
  same lines with the dash and the marker in the slots.\<close>

theorem write_machine_stamp_exact:
  assumes "dict_get (rs_files st) rel = Some (emit_doc fs od old_body)" and "CR \<notin> set (emit_doc fs od old_body)"
    and "split load (emit_doc fs od old_body) = Inr (fm, r)" and "old_stamp fm = Some od"
    and "body_of Real = Inr b" and "body_of NoPurpose = Inr (slot_body DASH ls)" and "body_of Marker = Inr (slot_body MARKER ls)"
    and "ls \<noteq> []" and "list_all (\<lambda>l. NL \<notin> set (fill [] l)) ls"
  shows "write_machine load rel fs body_of nd st = Inr
    (if b = old_body then keep_file rel st
     else put_file rel (emit_doc fs (if list_all2 fits ls (split_on NL old_body) then od else nd) b) st)"
proof -
  have u: "universal_nl (emit_doc fs od old_body) = emit_doc fs od old_body" by (rule universal_nl_id [OF assms(2)])
  have "startswith (emit_doc fs od old_body) (emit (fs od) @ [NL])" by (simp add: emit_doc_def startswith_iff)
  moreover have "drop (length (emit (fs od) @ [NL])) (emit_doc fs od old_body) = old_body" by (simp add: emit_doc_def)
  ultimately show ?thesis
    using assms(1,3-7) purpose_confined_exact [OF assms(8,9), of old_body]
    by (auto simp: write_machine_def u Let_def) (simp_all add: emit_doc_def)
qed

definition sample_index :: "string \<Rightarrow> fm_field list" where
  "sample_index date = doc_fields sample_snapshot (SystemIndex []) date"

definition sample_lines :: "slot_line list" where
  "sample_lines = [Fact ''# crm'', Slot ''| '' '' |'']"

theorem write_machine_stamp_exact_witness:
  "write_machine simple_load ''a/index.md'' sample_index
     (\<lambda>m. Inr (slot_body (case m of Real \<Rightarrow> ''new'' | NoPurpose \<Rightarrow> DASH | Marker \<Rightarrow> MARKER) sample_lines)) ''2024-02-29''
     (empty_result [(''a/index.md'', emit_doc sample_index ''2023-01-31'' (slot_body ''old'' sample_lines))]) =
   Inr (put_file ''a/index.md'' (emit_doc sample_index ''2023-01-31'' (slot_body ''new'' sample_lines))
     (empty_result [(''a/index.md'', emit_doc sample_index ''2023-01-31'' (slot_body ''old'' sample_lines))]))"
proof -
  let ?st = "empty_result [(''a/index.md'', emit_doc sample_index ''2023-01-31'' (slot_body ''old'' sample_lines))]"
  have ok: "fields_ok (sample_index ''2023-01-31'')" by code_simp
  have "split simple_load (emit_doc sample_index ''2023-01-31'' (slot_body ''old'' sample_lines)) =
      Inr (Some (fields_dict (sample_index ''2023-01-31'')), NL # slot_body ''old'' sample_lines)"
    using split_emit [OF simple_load_reads ok, of "NL # slot_body ''old'' sample_lines"] by (simp add: emit_doc_def)
  moreover have "old_stamp (Some (fields_dict (sample_index ''2023-01-31''))) = Some ''2023-01-31''" by code_simp
  moreover have "CR \<notin> set (emit_doc sample_index ''2023-01-31'' (slot_body ''old'' sample_lines))" by code_simp
  moreover have "list_all2 fits sample_lines (split_on NL (slot_body ''old'' sample_lines))"
  proof -
    have "split_on NL (slot_body ''old'' sample_lines) = map (fill ''old'') sample_lines"
      unfolding slot_body_def by (rule split_on_join) (simp_all add: sample_lines_def)
    moreover have "\<exists>x. ''| old |'' = ''| '' @ x @ '' |''" by (rule exI [of _ "''old''"]) simp
    ultimately show ?thesis by (simp add: sample_lines_def)
  qed
  moreover have "slot_body ''new'' sample_lines \<noteq> slot_body ''old'' sample_lines" by code_simp
  moreover have "list_all (\<lambda>l. NL \<notin> set (fill [] l)) sample_lines" "sample_lines \<noteq> []" by (simp_all add: sample_lines_def)
  ultimately show ?thesis
    using write_machine_stamp_exact [where st = ?st and rel = "''a/index.md''" and fs = sample_index and od = "''2023-01-31''"
        and old_body = "slot_body ''old'' sample_lines" and nd = "''2024-02-29''" and ls = sample_lines
        and body_of = "\<lambda>m. Inr (slot_body (case m of Real \<Rightarrow> ''new'' | NoPurpose \<Rightarrow> DASH | Marker \<Rightarrow> MARKER) sample_lines)"]
    by simp
qed

section \<open>Where the guarantees end\<close>

text \<open>Systems are told apart by their names, their directories are not: two names with one mangled form share one
  directory, and the second system's render prunes the documents of the first.\<close>

lemma systems_share_directory: "sysdir ''GA4'' = sysdir ''ga4''"
  by code_simp

lemma prune_takes_shared_files:
  "rs_files (prune_system ''ga4'' [] (empty_result [(''systems/ga4/metrics.schema.md'', [])])) = []"
  by code_simp

text \<open>The human-owned sibling of an object that is called index is the index of its schema.\<close>

lemma index_object_sibling:
  "mangle (o_name ob) = ''index'' \<Longrightarrow>
   sysdir system @ ''/'' @ mangle (o_schema ob) @ ''/'' @ mangle (o_name ob) @ ''.md'' = schema_index_path system (o_schema ob)"
  by (simp add: schema_index_path_def)

text \<open>A human-owned document whose front matter holds an impossible date ends the render.\<close>

lemma impossible_date_crashes:
  "dict_get files p = Some bytes \<Longrightarrow> split load (universal_nl bytes) = Inl m \<Longrightarrow> human_info load files p = Inl (Crash m)"
  by (simp add: human_info_def)

text \<open>A body with a carriage return is written with it and read without it, so that no later render finds it unchanged.\<close>

lemma carriage_return_never_unchanged: "CR \<in> set b \<Longrightarrow> emit_doc fs d b \<noteq> universal_nl bytes"
  using universal_nl_no_CR_append [of bytes "emit_doc fs d b" "[]"] by (auto simp: emit_doc_def)

end
