(* ===== verification/Kb_Validate.thy ===== *)
theory Kb_Validate
  imports Render
begin

text \<open>
  The knowledge base validation library, \<open>src/generator/validate.py\<close>: front matter and layout, links, the
  cross-check of machine documents against snapshots, render consistency and purpose keys.

  The package \<open>jsonschema\<close> is the parameter \<open>fm_errors\<close>: the messages for the front matter of a registered class, in
  the order of their paths. A Python exception that ends the run is an error of type \<open>render_error\<close>. The tree is a dict
  of files as in \<open>Render\<close>; a directory exists when a file lies below it. Long dashes in messages are hyphens.
\<close>

record finding =
  f_path :: string
  f_check :: string
  f_message :: string
  f_level :: string

definition fail :: "string \<Rightarrow> string \<Rightarrow> string \<Rightarrow> finding" where
  "fail path check message = \<lparr>f_path = path, f_check = check, f_message = message, f_level = ''error''\<rparr>"

definition warn :: "string \<Rightarrow> string \<Rightarrow> string \<Rightarrow> finding" where
  "warn path check message = \<lparr>f_path = path, f_check = check, f_message = message, f_level = ''warn''\<rparr>"

text \<open>\<open>repr(fm.get(key))\<close>\<close>

definition repr_get :: "front_matter \<Rightarrow> string \<Rightarrow> string" where
  "repr_get fm key = repr_json (py_get fm key)"

definition get_str :: "front_matter \<Rightarrow> string \<Rightarrow> string option" where
  "get_str fm key = (case dict_get fm key of Some (JStr s) \<Rightarrow> Some s | _ \<Rightarrow> None)"

section \<open>Front matter and layout\<close>

definition DOC_CLASSES :: "string list" where
  "DOC_CLASSES = [''machine-object'', ''machine-group'', ''machine-index'', ''human-object'', ''human-group'', ''human-notes'']"

type_synonym schema_check = "string \<Rightarrow> front_matter \<Rightarrow> string list"

definition validate_front_matter :: "schema_check \<Rightarrow> string \<Rightarrow> front_matter option \<Rightarrow> finding list" where
  "validate_front_matter fm_errors rel fm =
     (case fm of
        None \<Rightarrow> [fail rel ''KB-1'' ''no parseable front-matter block at byte 0'']
      | Some d \<Rightarrow>
          (case get_str d ''doc_class'' of
             Some c \<Rightarrow> if c \<in> set DOC_CLASSES then map (fail rel ''KB-1'') (fm_errors c d)
                       else [fail rel ''KB-1'' (''unregistered doc_class '' @ repr_get d ''doc_class'')]
           | None \<Rightarrow> [fail rel ''KB-1'' (''unregistered doc_class '' @ repr_get d ''doc_class'')]))"

definition expected_doc_class :: "string list \<Rightarrow> string option" where
  "expected_doc_class parts =
     (let name = last parts in
      if name = ''index.md'' then Some ''machine-index''
      else if endswith name ''.schema.md''
      then Some (if length parts = 3 then ''machine-group'' else ''machine-object'')
      else None)"

text \<open>\<open>obj.split(".", 2)\<close>\<close>

definition split_fqn :: "string \<Rightarrow> string list" where
  "split_fqn t =
     (case partition_at (CHR ''.'') t of (a, more_a, r) \<Rightarrow>
        if \<not> more_a then [a]
        else case partition_at (CHR ''.'') r of (b, more_b, c) \<Rightarrow> if \<not> more_b then [a, b] else [a, b, c])"

definition sys_mismatch :: "string \<Rightarrow> string option \<Rightarrow> bool" where
  "sys_mismatch sys_dir system = (case system of None \<Rightarrow> True | Some s \<Rightarrow> mangle s \<noteq> sys_dir)"

definition GROUP_STEMS :: "string list" where
  "GROUP_STEMS = map snd KIND_GROUPS"

definition object_consistency :: "string \<Rightarrow> string list \<Rightarrow> front_matter \<Rightarrow> finding list" where
  "object_consistency rel parts fm =
     (let ob = (case dict_get fm ''object'' of None \<Rightarrow> JStr [] | Some v \<Rightarrow> v);
          pieces = (case ob of JStr s \<Rightarrow> split_fqn s | _ \<Rightarrow> [])
      in (if length pieces \<noteq> 3
          then [fail rel ''layout'' (''object '' @ repr_json ob @ '' is not a system.schema.name FQN'')]
          else if sys_mismatch (parts ! 1) (Some (pieces ! 0))
            \<or> length parts = 4 \<and> (mangle (pieces ! 1) \<noteq> parts ! 2 \<or> mangle (pieces ! 2) @ ''.schema.md'' \<noteq> parts ! 3)
          then [fail rel ''layout'' (''object '' @ repr_json ob @ '' does not map to this path'')] else [])
         @ (if length parts \<noteq> 4
            then [fail rel ''layout'' ''machine-object docs live at systems/<system>/<schema>/<object>.schema.md''] else []))"

definition roster_kinds :: "string \<Rightarrow> string \<Rightarrow> string \<Rightarrow> json list \<Rightarrow> finding list" where
  "roster_kinds rel stem kind entries =
     concat (map (\<lambda>e. case e of
         JObj d \<Rightarrow> if py_get d ''kind'' \<noteq> JStr kind
                   then [fail rel ''layout'' (''roster kind '' @ repr_get d ''kind'' @ '' does not belong in group '' @ py_repr stem)]
                   else []
       | _ \<Rightarrow> []) entries)"

definition group_consistency :: "string \<Rightarrow> string list \<Rightarrow> front_matter \<Rightarrow> finding list" where
  "group_consistency rel parts fm =
     (let stem = removesuffix (last parts) ''.schema.md'' in
      if length parts \<noteq> 3 \<or> stem \<notin> set GROUP_STEMS
      then [fail rel ''layout'' ''machine-group docs live at systems/<system>/<kind-group>.schema.md'']
      else case List.find (\<lambda>kg. snd kg = stem) KIND_GROUPS of
        None \<Rightarrow> []
      | Some (kind, _) \<Rightarrow>
          roster_kinds rel stem kind (case dict_get fm ''objects'' of Some (JList es) \<Rightarrow> es | _ \<Rightarrow> []))"

definition index_consistency :: "string \<Rightarrow> string list \<Rightarrow> front_matter \<Rightarrow> finding list" where
  "index_consistency rel parts fm =
     (let scope = get_str fm ''scope'' in
      (if scope = Some ''system'' \<and> length parts \<noteq> 3
       then [fail rel ''layout'' ''system-scoped index must sit at systems/<system>/index.md''] else [])
      @ (if scope = Some ''schema''
         then (if length parts \<noteq> 4
               then [fail rel ''layout'' ''schema-scoped index must sit at systems/<system>/<schema>/index.md'']
               else case get_str fm ''schema'' of
                 Some s \<Rightarrow> if mangle s \<noteq> parts ! 2
                           then [fail rel ''layout'' (''schema '' @ py_repr s @ '' does not map to directory '' @ py_repr (parts ! 2))]
                           else []
               | None \<Rightarrow> [])
         else [])
      @ (if sys_mismatch (parts ! 1) (get_str fm ''system'')
         then [fail rel ''layout'' (''system '' @ repr_get fm ''system'' @ '' does not map to directory '' @ py_repr (parts ! 1))]
         else []))"

text \<open>Front matter that passed its schema has the members these read, so that their types are the schema's.\<close>

definition check_path_consistency :: "string \<Rightarrow> string list \<Rightarrow> front_matter \<Rightarrow> finding list" where
  "check_path_consistency rel parts fm =
     (case get_str fm ''doc_class'' of
        Some c \<Rightarrow>
          if c = ''machine-object'' then object_consistency rel parts fm
          else if c = ''machine-group'' then group_consistency rel parts fm
          else if c = ''machine-index'' then index_consistency rel parts fm
          else []
      | None \<Rightarrow> [])"

section \<open>Links and anchors\<close>

text \<open>\<open>[text](rest)\<close> at the head of the string: the pattern \<open>[^\]]*\<close> stops at the first bracket that closes.\<close>

definition link_label :: "string \<Rightarrow> (string \<times> string) option" where
  "link_label s =
     (if startswith s ''['' then
        case partition_at (CHR '']'') (tl s) of (label, closed, r) \<Rightarrow>
          if closed \<and> startswith r ''('' then Some (label, tl r) else None
      else None)"

text \<open>\<open>_LINK\<close> at the head of the string: its target and what follows. The target cannot hold a blank or a closing
  parenthesis and the title no quote, so that no shorter choice can match where the longest fails.\<close>

definition link_at :: "string \<Rightarrow> (string \<times> string) option" where
  "link_at s =
     (case link_label s of
        None \<Rightarrow> None
      | Some (_, r) \<Rightarrow>
          (let stop = \<lambda>c. c = CHR '')'' \<or> is_space c;
               target = takeWhile (\<lambda>c. \<not> stop c) r; r1 = dropWhile (\<lambda>c. \<not> stop c) r; r2 = lstrip_by is_space r1
           in if startswith r1 '')'' then Some (target, tl r1)
              else if r1 \<noteq> [] \<and> startswith r2 [CHR 0x22]
              then (case partition_at (CHR 0x22) (tl r2) of (_, closed, r3) \<Rightarrow>
                      if closed \<and> startswith r3 '')'' then Some (target, tl r3) else None)
              else None))"

function find_links :: "string \<Rightarrow> string list" where
  "find_links s =
     (case s of
        [] \<Rightarrow> []
      | c # r \<Rightarrow>
          (case link_at s of
             Some (target, r') \<Rightarrow> if length r' < length s then target # find_links r' else find_links r
           | None \<Rightarrow> find_links r))"
  by pat_completeness auto
termination
  by (relation "measure length") auto

declare find_links.simps [simp del]

lemma find_links_Cons [code]:
  "find_links [] = []"
  "find_links (c # r) =
     (case link_at (c # r) of
        Some (target, r') \<Rightarrow> if length r' < length (c # r) then target # find_links r' else find_links r
      | None \<Rightarrow> find_links r)"
  by (subst find_links.simps, simp)+

text \<open>\<open>_INLINE_LINK_TEXT.sub(r"\1", heading)\<close>\<close>

function link_texts :: "string \<Rightarrow> string" where
  "link_texts s =
     (case s of
        [] \<Rightarrow> []
      | c # r \<Rightarrow>
          (case link_label s of
             Some (label, r1) \<Rightarrow>
               (case partition_at (CHR '')'') r1 of (_, closed, r2) \<Rightarrow>
                  if closed \<and> length r2 < length s then label @ link_texts r2 else c # link_texts r)
           | None \<Rightarrow> c # link_texts r))"
  by pat_completeness auto
termination
  by (relation "measure length") auto

declare link_texts.simps [simp del]

lemma link_texts_Cons [code]:
  "link_texts [] = []"
  "link_texts (c # r) =
     (case link_label (c # r) of
        Some (label, r1) \<Rightarrow>
          (case partition_at (CHR '')'') r1 of (_, closed, r2) \<Rightarrow>
             if closed \<and> length r2 < length (c # r) then label @ link_texts r2 else c # link_texts r)
      | None \<Rightarrow> c # link_texts r)"
  by (subst link_texts.simps, simp)+

text \<open>\<open>str.lower()\<close> on the letters below 256\<close>

definition lower_latin :: "char \<Rightarrow> char" where
  "lower_latin c =
     (if is_upper c \<or> 0xc0 \<le> code c \<and> code c \<le> 0xde \<and> code c \<noteq> 0xd7 then char_of (code c + 32) else c)"

definition gfm_slug :: "string \<Rightarrow> string" where
  "gfm_slug heading =
     (let t = filter (\<lambda>c. c \<noteq> CHR ''`'') (link_texts heading);
          kept = filter (\<lambda>c. is_alnum c \<or> c \<in> set ''_- '') (map lower_latin t)
      in map (\<lambda>c. if c = CHR '' '' then CHR ''-'' else c) kept)"

definition indent_of :: "string \<Rightarrow> nat \<times> string" where
  "indent_of l = (length (takeWhile (\<lambda>c. c = CHR '' '') l), dropWhile (\<lambda>c. c = CHR '' '') l)"

text \<open>\<open>_FENCE_LINE.match(line)\<close>\<close>

definition fence_mark :: "string \<Rightarrow> string option" where
  "fence_mark l =
     (case indent_of l of (n, r) \<Rightarrow>
        if n \<le> 3 \<and> startswith r ''```'' then Some ''```''
        else if n \<le> 3 \<and> startswith r ''~~~'' then Some ''~~~'' else None)"

fun outside_fences :: "string option \<Rightarrow> string list \<Rightarrow> string list" where
  "outside_fences fence [] = []"
| "outside_fences fence (l # ls) =
     (case fence_mark l of
        Some m \<Rightarrow> outside_fences (if fence = None then Some m else if fence = Some m then None else fence) ls
      | None \<Rightarrow> if fence = None then l # outside_fences fence ls else outside_fences fence ls)"

definition body_lines :: "yaml_loader \<Rightarrow> string \<Rightarrow> string list fallible" where
  "body_lines load t =
     (case split load t of Inl m \<Rightarrow> Inl (Crash m) | Inr (_, body) \<Rightarrow> Inr (outside_fences None (splitlines body)))"

text \<open>\<open>_HEADING.match(line)\<close>: the shortest text that is followed by blanks, number signs and blanks only\<close>

definition heading_tail :: "string \<Rightarrow> bool" where
  "heading_tail r \<longleftrightarrow> lstrip_by is_space (lstrip_by (\<lambda>c. c = CHR ''#'') (lstrip_by is_space r)) = []"

fun heading_text :: "string \<Rightarrow> string" where
  "heading_text [] = []"
| "heading_text (c # s) = (if heading_tail (c # s) then [] else c # heading_text s)"

definition heading_of :: "string \<Rightarrow> string option" where
  "heading_of l =
     (case indent_of l of (n, r) \<Rightarrow>
        let k = length (takeWhile (\<lambda>c. c = CHR ''#'') r); t = drop k r
        in if n \<le> 3 \<and> 1 \<le> k \<and> k \<le> 6 \<and> t \<noteq> [] \<and> is_space (hd t)
           then Some (heading_text (lstrip_by is_space t)) else None)"

definition add_anchor :: "(string, nat) dict \<times> string list \<Rightarrow> string \<Rightarrow> (string, nat) dict \<times> string list" where
  "add_anchor st l =
     (case heading_of l of
        None \<Rightarrow> st
      | Some h \<Rightarrow>
          (let slug = gfm_slug h; seen = dict_get (fst st) slug;
               n = (case seen of None \<Rightarrow> 0 | Some k \<Rightarrow> k + 1)
           in (dict_set slug n (fst st), snd st @ [if seen = None then slug else slug @ ''-'' @ show_nat n])))"

definition anchors :: "yaml_loader \<Rightarrow> string \<Rightarrow> string list fallible" where
  "anchors load t = res_bind (body_lines load t) (\<lambda>ls. Inr (snd (fold (\<lambda>l st. add_anchor st l) ls ([], []))))"

subsection \<open>Targets and paths\<close>

definition hex_val :: "char \<Rightarrow> nat option" where
  "hex_val c =
     (if is_digit c then Some (code c - 48)
      else if CHR ''a'' \<le> c \<and> c \<le> CHR ''f'' then Some (code c - 87)
      else if CHR ''A'' \<le> c \<and> c \<le> CHR ''F'' then Some (code c - 55) else None)"

text \<open>\<open>urllib.parse.unquote\<close>: percent escapes are bytes of UTF-8. What does not decode to a character below 256 is one
  stand-in character, which names no file of the model.\<close>

definition STAND_IN :: char where
  "STAND_IN = CHR 0x1A"

datatype unit_of = Plain char | Byte nat

fun percent_units :: "string \<Rightarrow> unit_of list" where
  "percent_units (p # a # b # s) =
     (if p = CHR ''%'' then
        case (hex_val a, hex_val b) of
          (Some x, Some y) \<Rightarrow> Byte (16 * x + y) # percent_units s
        | _ \<Rightarrow> Plain p # percent_units (a # b # s)
      else Plain p # percent_units (a # b # s))"
| "percent_units s = map Plain s"

fun decode_units :: "unit_of list \<Rightarrow> string" where
  "decode_units [] = []"
| "decode_units (Plain c # us) = c # decode_units us"
| "decode_units (Byte n # Byte m # us) =
     (if n < 128 then char_of n # decode_units (Byte m # us)
      else if (n = 0xc2 \<or> n = 0xc3) \<and> 128 \<le> m \<and> m < 192 then char_of (64 * (n - 0xc0) + (m - 128)) # decode_units us
      else STAND_IN # decode_units (Byte m # us))"
| "decode_units (Byte n # us) = (if n < 128 then char_of n else STAND_IN) # decode_units us"

definition unquote_url :: "string \<Rightarrow> string" where
  "unquote_url s = decode_units (percent_units s)"

definition path_parts :: "string \<Rightarrow> string list" where
  "path_parts p = split_on (CHR ''/'') p"

text \<open>\<open>posixpath.dirname\<close> of a path without a leading slash, \<open>join\<close> and \<open>normpath\<close>\<close>

definition dirname :: "string \<Rightarrow> string" where
  "dirname p = join ''/'' (butlast (path_parts p))"

definition path_join :: "string \<Rightarrow> string \<Rightarrow> string" where
  "path_join a b = (if startswith b ''/'' then b else if a = [] \<or> endswith a ''/'' then a @ b else a @ ''/'' @ b)"

definition norm_step :: "bool \<Rightarrow> string list \<Rightarrow> string \<Rightarrow> string list" where
  "norm_step absolute comps c =
     (if c = [] \<or> c = ''.'' then comps
      else if c \<noteq> ''..'' \<or> \<not> absolute \<and> comps = [] \<or> comps \<noteq> [] \<and> last comps = ''..'' then comps @ [c]
      else if comps \<noteq> [] then butlast comps else comps)"

definition normpath :: "string \<Rightarrow> string" where
  "normpath p =
     (let slashes = (if startswith p ''/'' then (if startswith p ''//'' \<and> \<not> startswith p ''///'' then ''//'' else ''/'') else []);
          comps = fold (\<lambda>c cs. norm_step (slashes \<noteq> []) cs c) (path_parts p) [];
          t = slashes @ join ''/'' comps
      in if t = [] then ''.'' else t)"

definition is_dir :: "kb_files \<Rightarrow> string \<Rightarrow> bool" where
  "is_dir files p \<longleftrightarrow> p = ''.'' \<or> list_ex (in_dir p) (dict_keys files)"

text \<open>A path that starts with a slash leads out of the tree, where the model has no file.\<close>

definition exists_path :: "kb_files \<Rightarrow> string \<Rightarrow> bool" where
  "exists_path files p \<longleftrightarrow> dict_has files p \<or> is_dir files p"

text \<open>\<open>_SCHEME.match(target)\<close>\<close>

definition has_scheme :: "string \<Rightarrow> bool" where
  "has_scheme t \<longleftrightarrow> t \<noteq> [] \<and> is_alpha_ascii (hd t)
     \<and> startswith (dropWhile (\<lambda>c. is_alpha_ascii c \<or> is_digit c \<or> c \<in> set ''+.-'') t) '':''"

definition anchor_problem :: "yaml_loader \<Rightarrow> kb_files \<Rightarrow> string \<Rightarrow> string \<Rightarrow> string \<Rightarrow> string \<Rightarrow> finding list fallible" where
  "anchor_problem load files rel target dest_rel fragment =
     (case dict_get files dest_rel of
        Some bytes \<Rightarrow>
          if fragment \<noteq> [] \<and> endswith dest_rel ''.md'' \<and> base_name dest_rel \<noteq> ''.md'' then
            res_bind (anchors load (universal_nl bytes)) (\<lambda>as.
              Inr (if fragment \<in> set as then []
                   else [fail rel ''KB-5'' (''broken link '' @ py_repr target @ '': no such anchor in '' @ dest_rel)]))
          else Inr []
      | None \<Rightarrow> Inr [])"

definition link_problem :: "yaml_loader \<Rightarrow> kb_files \<Rightarrow> string \<Rightarrow> string \<Rightarrow> finding list fallible" where
  "link_problem load files rel target =
     (if has_scheme target \<or> startswith target ''//'' then Inr []
      else if target = [] then Inr [fail rel ''KB-5'' ''empty link target'']
      else if startswith target ''/''
      then Inr [fail rel ''KB-5'' (''absolute link '' @ py_repr target @ '' - intra-KB links are relative ('' @ [CHR 0xA7] @ ''8)'')]
      else case partition_at (CHR ''#'') target of (dest, _, frag) \<Rightarrow>
        let fragment = unquote_url frag in
        if dest = [] then anchor_problem load files rel target rel fragment
        else let dest_rel = normpath (path_join (dirname rel) (unquote_url dest)) in
          if hd (path_parts dest_rel) = ''..''
          then Inr [fail rel ''KB-5'' (''link '' @ py_repr target @ '' escapes the KB root'')]
          else if \<not> exists_path files dest_rel
          then Inr [fail rel ''KB-5'' (''broken link '' @ py_repr target @ '': no such file'')]
          else anchor_problem load files rel target dest_rel fragment)"

definition is_hidden :: "string \<Rightarrow> bool" where
  "is_hidden p = list_ex (\<lambda>part. startswith part ''.'') (path_parts p)"

text \<open>\<open>sorted(kb_dir.rglob("*.md"))\<close>: paths compare by their parts.\<close>

definition markdown_files :: "kb_files \<Rightarrow> (string \<times> string) list" where
  "markdown_files files = sort_key (\<lambda>f. path_parts (fst f)) (filter (\<lambda>f. endswith (fst f) ''.md'') files)"

definition file_links :: "yaml_loader \<Rightarrow> kb_files \<Rightarrow> string \<times> string \<Rightarrow> finding list fallible" where
  "file_links load files f =
     res_bind (body_lines load (universal_nl (snd f))) (\<lambda>ls.
     res_bind (res_map (link_problem load files (fst f)) (concat (map find_links ls))) (\<lambda>fs. Inr (concat fs)))"

definition check_links :: "yaml_loader \<Rightarrow> kb_files \<Rightarrow> finding list fallible" where
  "check_links load files =
     res_bind (res_map (file_links load files) (filter (\<lambda>f. \<not> is_hidden (fst f)) (markdown_files files)))
       (\<lambda>fs. Inr (concat fs))"

section \<open>The tree\<close>

record tree_scan =
  ts_findings :: "finding list"
  ts_machine :: "(string, front_matter) dict"

definition ROOT_EXEMPT :: "string list" where
  "ROOT_EXEMPT = [''index.md'', ''conventions.md'']"

definition split_file :: "yaml_loader \<Rightarrow> string \<Rightarrow> front_matter option fallible" where
  "split_file load bytes =
     (case split load (universal_nl bytes) of Inl m \<Rightarrow> Inl (Crash m) | Inr (fm, _) \<Rightarrow> Inr fm)"

definition notes_findings :: "schema_check \<Rightarrow> string \<Rightarrow> front_matter option \<Rightarrow> finding list" where
  "notes_findings fm_errors rel fm =
     (case fm of
        None \<Rightarrow> []
      | Some d \<Rightarrow> validate_front_matter fm_errors rel fm
          @ (if py_get d ''doc_class'' \<noteq> JStr ''human-notes''
             then [fail rel ''layout'' (''_notes.md front-matter must be doc_class human-notes ('' @ [CHR 0xA7] @ ''4.7)'')] else []))"

definition class_findings :: "string \<Rightarrow> string option \<Rightarrow> front_matter \<Rightarrow> finding list \<Rightarrow> finding list" where
  "class_findings rel implied d fm_findings =
     (case implied of
        Some c \<Rightarrow>
          if py_get d ''doc_class'' \<noteq> JStr c \<and> \<not> list_ex (\<lambda>f. f_check f = ''KB-1'') fm_findings
          then [fail rel ''layout'' (''path implies doc_class '' @ py_repr c @ '', front-matter says '' @ repr_get d ''doc_class'')]
          else []
      | None \<Rightarrow>
          (case get_str d ''doc_class'' of
             Some c \<Rightarrow> if startswith c ''machine-''
                       then [fail rel ''layout'' (c @ '' front-matter on a human-owned path (K-1)'')] else []
           | None \<Rightarrow> []))"

definition scan_file :: "schema_check \<Rightarrow> yaml_loader \<Rightarrow> tree_scan \<Rightarrow> string \<times> string \<Rightarrow> tree_scan fallible" where
  "scan_file fm_errors load ts f =
     (let rel = fst f; parts = path_parts rel; report = \<lambda>fs. ts\<lparr>ts_findings := ts_findings ts @ fs\<rparr> in
      if rel \<in> set ROOT_EXEMPT \<or> hd parts \<noteq> ''systems'' then Inr ts
      else if length parts < 3 \<or> 4 < length parts then Inr (report [fail rel ''layout'' ''unexpected nesting under systems/''])
      else res_bind (split_file load (snd f)) (\<lambda>fm.
        if last parts = ''_notes.md'' then Inr (report (notes_findings fm_errors rel fm))
        else
          (let fm_findings = validate_front_matter fm_errors rel fm; implied = expected_doc_class parts in
           case fm of
             None \<Rightarrow> Inr (report fm_findings)
           | Some d \<Rightarrow>
               Inr \<lparr>ts_findings = ts_findings ts @ fm_findings @ class_findings rel implied d fm_findings
                      @ (if fm_findings = [] \<and> implied \<noteq> None then check_path_consistency rel parts d else []),
                    ts_machine = (if implied \<noteq> None then dict_set rel d (ts_machine ts) else ts_machine ts)\<rparr>)))"

definition scan_tree :: "schema_check \<Rightarrow> yaml_loader \<Rightarrow> kb_files \<Rightarrow> tree_scan fallible" where
  "scan_tree fm_errors load files =
     res_fold (scan_file fm_errors load)
       \<lparr>ts_findings = (if is_dir files ''faults'' \<or> dict_has files ''faults''
                        then [fail ''faults'' ''layout'' (''faults/ must not exist - the fault ledger is Postgres, not git (KB '' @ [CHR 0xA7] @ ''3)'')] else []),
        ts_machine = []\<rparr> (markdown_files files)"

section \<open>Snapshots against the tree\<close>

definition PROVENANCE :: string where
  "PROVENANCE = ''provenance''"

definition ne_snapshot :: "string \<Rightarrow> front_matter \<Rightarrow> string \<Rightarrow> string \<Rightarrow> finding list" where
  "ne_snapshot rel fm key expected =
     (if py_get fm key \<noteq> JStr expected
      then [fail rel PROVENANCE (key @ '' '' @ repr_get fm key @ '' != snapshot '' @ py_repr expected)] else [])"

definition doc_provenance :: "snapshot \<Rightarrow> doc_entry \<Rightarrow> string \<Rightarrow> front_matter \<Rightarrow> finding list" where
  "doc_provenance s entry rel fm =
     ne_snapshot rel fm ''source_mode'' (s_source_mode s) @ ne_snapshot rel fm ''snapshot_version'' (s_version s)
     @ (case entry of
          ObjectDoc ob \<Rightarrow>
            ne_snapshot rel fm ''object'' (fqn (s_system s) (o_schema ob) (o_name ob))
            @ ne_snapshot rel fm ''kind'' (o_kind ob) @ ne_snapshot rel fm ''schema_hash'' (o_schema_hash ob)
        | GroupDoc members \<Rightarrow>
            if json_equal (py_get fm ''objects'') (JList (map (\<lambda>ob. roster_json (roster_of (s_system s) ob)) members)) then []
            else [fail rel PROVENANCE ''roster does not match the snapshot's objects for this group'']
        | _ \<Rightarrow> [])"

type_synonym expectations = "(string, snapshot \<times> doc_entry) dict"

text \<open>A path collision ends the whole validation: only the render check catches the error.\<close>

definition expect_snapshot :: "expectations \<Rightarrow> snapshot \<Rightarrow> expectations fallible" where
  "expect_snapshot expected s =
     res_bind (expected_docs s) (\<lambda>plan. Inr (fold (\<lambda>(rel, entry). dict_set rel (s, entry)) plan expected))"

definition cross_check :: "snapshot list \<Rightarrow> (string, front_matter) dict \<Rightarrow> finding list fallible" where
  "cross_check snapshots machine =
     res_bind (res_fold expect_snapshot [] snapshots) (\<lambda>expected.
       let missing = filter (\<lambda>rel. \<not> dict_has machine rel) (sort (dict_keys expected));
           orphans = filter (\<lambda>rel. \<not> dict_has expected rel \<and> path_parts rel ! 1 \<in> set (map (\<lambda>s. mangle (s_system s)) snapshots))
                       (sort (dict_keys machine));
           both = filter (dict_has machine) (sort (dict_keys expected))
       in Inr (map (\<lambda>rel. fail rel PROVENANCE ''machine doc missing for snapshot object (K-8)'') missing
          @ map (\<lambda>rel. fail rel PROVENANCE ''orphan machine doc - no such object in the snapshot'') orphans
          @ concat (map (\<lambda>rel. case (dict_get expected rel, dict_get machine rel) of
                (Some (s, entry), Some fm) \<Rightarrow> doc_provenance s entry rel fm
              | _ \<Rightarrow> []) both)))"

text \<open>The texts of \<open>snapshot/validate.py\<close>\<close>

definition problem_text :: "problem \<Rightarrow> string" where
  "problem_text p =
     (case p of
        SchemaError m \<Rightarrow> m
      | DuplicateIdentity i \<Rightarrow>
          (case i of (kind, schema, name) \<Rightarrow>
             ''duplicate object identity (kind='' @ kind @ '', schema='' @ schema @ '', name='' @ name
               @ '') - S-1 requires uniqueness'')
      | HashMismatch i stored recomputed \<Rightarrow>
          (case i of (kind, schema, name) \<Rightarrow>
             ''schema_hash mismatch for '' @ schema @ ''.'' @ name @ '' ('' @ kind @ ''): stored '' @ stored
               @ '', recomputed '' @ recomputed @ '' (C-4)''))"

definition error_text :: "render_error \<Rightarrow> string" where
  "error_text e =
     (case e of
        InvalidSnapshot system errors \<Rightarrow>
          ''invalid snapshot for system '' @ py_repr system @ '': '' @ join ''; '' (map problem_text errors)
      | DuplicateSystem system \<Rightarrow> ''duplicate system '' @ py_repr system @ '' in inputs''
      | PathCollision rel system \<Rightarrow>
          ''path collision after mangling: '' @ py_repr rel @ '' (system '' @ py_repr system
            @ '') - two source-native names map to one file''
      | Crash m \<Rightarrow> m)"

definition is_generator_error :: "render_error \<Rightarrow> bool" where
  "is_generator_error e = (case e of Crash _ \<Rightarrow> False | _ \<Rightarrow> True)"

definition stale_render :: "kb_files \<Rightarrow> kb_files \<Rightarrow> string \<Rightarrow> finding list" where
  "stale_render ours theirs rel =
     (case (dict_get ours rel, dict_get theirs rel) of
        (Some a, Some b) \<Rightarrow>
          if a \<noteq> b then [fail rel ''KB-8'' ''not the render of (latest accepted snapshot, HEAD enrichment) - regenerate'']
          else []
      | _ \<Rightarrow> [])"

text \<open>\<open>shutil.copytree(kb_dir, scratch, ignore=ignore_patterns(".*"))\<close>\<close>

definition scratch_copy :: "kb_files \<Rightarrow> kb_files" where
  "scratch_copy files = filter (\<lambda>(rel, _). \<not> is_hidden rel) files"

definition check_render ::
  "templates \<Rightarrow> yaml_loader \<Rightarrow> (snapshot \<Rightarrow> string list) \<Rightarrow> kb_files \<Rightarrow> snapshot list \<Rightarrow> finding list fallible" where
  "check_render tmpl load sch files snapshots =
     (if snapshots = [] then Inr []
      else case render_tree tmpl load sch snapshots (scratch_copy files) of
        Inl (e, _) \<Rightarrow>
          if is_generator_error e then Inr [fail ''<render>'' ''KB-8'' (''regeneration failed: '' @ error_text e)] else Inl e
      | Inr st \<Rightarrow>
          res_bind (res_map expected_docs snapshots) (\<lambda>plans.
            Inr (concat (map (stale_render files (rs_files st)) (concat (map dict_keys plans))))))"

section \<open>Purpose keys\<close>

definition columns_by_fqn :: "snapshot list \<Rightarrow> (string, string list) dict" where
  "columns_by_fqn snapshots =
     fold (\<lambda>s d. fold (\<lambda>ob. dict_set (fqn (s_system s) (o_schema ob) (o_name ob)) (map c_name (o_columns ob))) (s_objects s) d)
       snapshots []"

definition add_rosters :: "(string, string list) dict \<Rightarrow> snapshot \<Rightarrow> (string, string list) dict fallible" where
  "add_rosters rosters s =
     res_bind (expected_docs s) (\<lambda>plan. Inr (fold (\<lambda>(rel, entry) d.
       case entry of
         GroupDoc members \<Rightarrow> dict_set (removesuffix rel ''.schema.md'' @ ''.md'')
           (map (\<lambda>ob. fqn (s_system s) (o_schema ob) (o_name ob)) members) d
       | _ \<Rightarrow> d) plan rosters))"

definition dangling :: "string \<Rightarrow> string \<Rightarrow> string \<Rightarrow> string list \<Rightarrow> (string, json) dict \<Rightarrow> finding list" where
  "dangling rel field where_text known purposes =
     map (\<lambda>key. warn rel ''KB-10'' (field @ '' key '' @ py_repr key @ '' does not resolve against the current snapshot'' @ where_text))
       (filter (\<lambda>key. key \<notin> set known) (sort (dict_keys purposes)))"

definition get_map :: "front_matter \<Rightarrow> string \<Rightarrow> (string, json) dict option" where
  "get_map fm key = (case dict_get fm key of Some (JObj d) \<Rightarrow> Some d | _ \<Rightarrow> None)"

definition purpose_findings ::
  "snapshot list \<Rightarrow> (string, string list) dict \<Rightarrow> string \<Rightarrow> front_matter \<Rightarrow> finding list" where
  "purpose_findings snapshots rosters rel fm =
     (if get_str fm ''doc_class'' = Some ''human-object'' then
        (case (get_map fm ''column_purposes'', get_str fm ''object'') of
           (Some purposes, Some ob) \<Rightarrow>
             if fst (partition_at (CHR ''.'') ob) \<notin> set (map s_system snapshots) then []
             else dangling rel ''column_purposes'' ('' for '' @ py_repr ob)
               (case dict_get (columns_by_fqn snapshots) ob of Some cs \<Rightarrow> cs | None \<Rightarrow> []) purposes
         | _ \<Rightarrow> [])
      else if get_str fm ''doc_class'' = Some ''human-group'' then
        (case get_map fm ''object_purposes'' of
           Some purposes \<Rightarrow>
             let parts = path_parts rel in
             if length parts < 2 \<or> parts ! 1 \<notin> set (map (\<lambda>s. mangle (s_system s)) snapshots) then []
             else dangling rel ''object_purposes'' ([CHR 0x27] @ ''s group roster'')
               (case dict_get rosters rel of Some m \<Rightarrow> m | None \<Rightarrow> []) purposes
         | None \<Rightarrow> [])
      else [])"

definition purpose_doc :: "string \<Rightarrow> bool" where
  "purpose_doc rel \<longleftrightarrow> hd (path_parts rel) = ''systems'' \<and> \<not> is_hidden rel
     \<and> base_name rel \<notin> {''index.md'', ''_notes.md''} \<and> \<not> endswith (base_name rel) ''.schema.md''"

definition check_purpose_keys :: "yaml_loader \<Rightarrow> kb_files \<Rightarrow> snapshot list \<Rightarrow> finding list fallible" where
  "check_purpose_keys load files snapshots =
     res_bind (res_fold add_rosters [] snapshots) (\<lambda>rosters.
     res_bind (res_map (\<lambda>f. res_bind (split_file load (snd f)) (\<lambda>fm.
         Inr (case fm of None \<Rightarrow> [] | Some d \<Rightarrow> purpose_findings snapshots rosters (fst f) d)))
       (filter (\<lambda>f. purpose_doc (fst f)) (markdown_files files))) (\<lambda>fs. Inr (concat fs)))"

section \<open>All checks\<close>

definition snapshot_problem :: "(snapshot \<Rightarrow> string list) \<Rightarrow> snapshot \<Rightarrow> problem list" where
  "snapshot_problem sch s = fst (validate_snapshot sch (\<lambda>_. []) False s)"

definition validate_tree ::
  "schema_check \<Rightarrow> templates \<Rightarrow> yaml_loader \<Rightarrow> (snapshot \<Rightarrow> string list) \<Rightarrow> kb_files
     \<Rightarrow> snapshot list option \<Rightarrow> finding list fallible" where
  "validate_tree fm_errors tmpl load sch files snapshots =
     res_bind (scan_tree fm_errors load files) (\<lambda>ts.
     res_bind (check_links load files) (\<lambda>links.
     res_bind (case snapshots of
         None \<Rightarrow> Inr []
       | Some snaps \<Rightarrow>
           let bad = filter (\<lambda>s. snapshot_problem sch s \<noteq> []) snaps; valid = filter (\<lambda>s. snapshot_problem sch s = []) snaps in
           res_bind (cross_check valid (ts_machine ts)) (\<lambda>cross.
           res_bind (check_render tmpl load sch files valid) (\<lambda>render.
           res_bind (check_purpose_keys load files valid) (\<lambda>purposes.
           Inr (map (\<lambda>s. fail ''<snapshot>'' PROVENANCE
                 (''invalid snapshot for '' @ py_repr (s_system s) @ '': '' @ problem_text (hd (snapshot_problem sch s)))) bad
             @ cross @ render @ purposes))))) (\<lambda>more_findings.
     Inr (sort_key (\<lambda>f. (f_path f, f_check f, f_message f)) (ts_findings ts @ links @ more_findings)))))"

definition validate_exit :: "finding list \<Rightarrow> nat" where
  "validate_exit findings = (if list_ex (\<lambda>f. f_level f = ''error'') findings then 1 else 0)"

end
