(* ===== verification/Kb_Safety.thy ===== *)
theory Kb_Safety
  imports Render_Safety Kb_Validate
begin

text \<open>
  What the validation library guarantees, and that it accepts what the renderer writes: the composition of
  \<open>render_tree\<close> and \<open>validate_tree\<close>.
\<close>

section \<open>Planned paths\<close>

lemma hidden_is_hidden: "hidden p = is_hidden p"
  by (simp add: hidden_def is_hidden_def path_parts_def)

lemma path_one: "CHR ''/'' \<notin> set t \<Longrightarrow> path_parts t = [t]"
  unfolding path_parts_def by (induction t) auto

lemma path_cons: "CHR ''/'' \<notin> set a \<Longrightarrow> path_parts (a @ CHR ''/'' # b) = a # path_parts b"
  using path_one [of a] by (simp add: path_parts_def split_on_append)

lemma sysdir_parts:
  "path_parts (sysdir x @ CHR ''/'' # b) = ''systems'' # mangle x # path_parts b"
  using path_cons [of "''systems''" "mangle x @ CHR ''/'' # b"] path_cons [OF mangle_no_slash, of x b]
  by (simp add: sysdir_def)

lemma file_one: "CHR ''/'' \<notin> set t \<Longrightarrow> path_parts (t @ ''.schema.md'') = [t @ ''.schema.md'']"
  by (rule path_one) simp

lemma planned_parts:
  "path_parts (object_path x ob) = [''systems'', mangle x, mangle (o_schema ob), mangle (o_name ob) @ ''.schema.md'']"
  "path_parts (schema_index_path x sch) = [''systems'', mangle x, mangle sch, ''index.md'']"
  "CHR ''/'' \<notin> set g \<Longrightarrow> path_parts (group_path x g) = [''systems'', mangle x, g @ ''.schema.md'']"
  "path_parts (system_index_path x) = [''systems'', mangle x, ''index.md'']"
  using sysdir_parts [of x] path_cons [OF mangle_no_slash] file_one mangle_no_slash path_one [of "''index.md''"]
  by (simp_all add: object_path_def schema_index_path_def group_path_def system_index_path_def)

lemma mangle_not_dotted: "\<not> startswith (mangle n) ''.''"
  using mangle_no_dot [of n] by (cases "mangle n") (auto simp: startswith_def)

lemma mangle_empty: "mangle n = [] \<longleftrightarrow> n = []"
  using mangle_length [of n] by (metis length_0_conv)

lemma planned_not_hidden:
  assumes "no_index s" and "(rel, entry) \<in> set (planned_docs s)"
  shows "\<not> is_hidden rel"
  using assms(2)
proof (cases rule: planned_cases)
  case (object ob)
  have "o_name ob \<noteq> []" using assms(1) object(2) by (simp add: no_index_def list_all_iff)
  then obtain c r where "mangle (o_name ob) = c # r" using mangle_empty by (meson neq_Nil_conv)
  moreover from this have "c \<noteq> CHR ''.''" using mangle_no_dot [of "o_name ob"] by auto
  ultimately show ?thesis
    using object(3) mangle_not_dotted by (simp add: is_hidden_def planned_parts startswith_def)
next
  case (schema sch obs)
  then show ?thesis using mangle_not_dotted by (simp add: is_hidden_def planned_parts) (simp add: startswith_def)
next
  case (groups g obs)
  then show ?thesis using mangle_not_dotted by (auto simp: is_hidden_def planned_parts) (auto simp: startswith_def)
next
  case system
  then show ?thesis using mangle_not_dotted by (simp add: is_hidden_def planned_parts) (simp add: startswith_def)
qed

section \<open>The render check\<close>

lemma scratch_get: "dict_get (scratch_copy files) p = (if is_hidden p then None else dict_get files p)"
  using map_of_filter_key [of "\<lambda>rel. \<not> is_hidden rel" files p] by (simp add: scratch_copy_def split: if_splits)

lemma settled_scratch:
  assumes "settled_system tmpl load files s" and "no_index s"
  shows "settled_system tmpl load (scratch_copy files) s"
proof (rule settled_system_frame [OF assms])
  fix p
  assume p: "human_path p \<or> owned s p"
  show "dict_get files p = dict_get (scratch_copy files) p"
  proof (cases "is_hidden p")
    case True
    then have "p \<notin> set (doc_paths s)" using planned_not_hidden [OF assms(2)] by (auto simp: doc_paths_def)
    moreover have "owned s p" using p True by (auto simp: human_path_def hidden_is_hidden)
    ultimately have "dict_get files p = None" using assms(1) by (auto simp: settled_system_def)
    then show ?thesis by (simp add: scratch_get)
  qed (simp add: scratch_get)
qed

lemma stale_render_none:
  "(\<And>p. \<not> is_hidden p \<Longrightarrow> dict_get files p = dict_get files' p) \<Longrightarrow> \<not> is_hidden rel \<Longrightarrow> stale_render files files' rel = []"
  by (auto simp: stale_render_def split: option.splits)

lemma check_render_settled:
  assumes settles: "\<And>s. s \<in> set snaps \<Longrightarrow> settled_system tmpl load files s" and ni: "list_all no_index snaps"
    and boot: "dict_get files ''index.md'' \<noteq> None" "dict_get files ''conventions.md'' \<noteq> None"
    and coll: "res_fold (collect_snapshot sch) [] snaps = Inr d"
  shows "check_render tmpl load sch files snaps = Inr []"
proof -
  have "\<not> is_hidden ''index.md''" "\<not> is_hidden ''conventions.md''" by code_simp+
  then have r: "render_tree tmpl load sch snaps (scratch_copy files) =
      Inr ((empty_result (scratch_copy files))\<lparr>rs_unchanged := sort (concat (map doc_paths snaps))\<rparr>)"
    using settles ni boot settled_scratch
    by (intro render_tree_noop [OF _ _ _ coll]) (auto simp: scratch_get list_all_iff)
  have "expected_docs s = Inr (planned_docs s)" if "s \<in> set snaps" for s
    using settles [OF that] by (simp add: settled_system_def expected_docs_Inr doc_paths_def)
  then have plans: "res_map expected_docs snaps = Inr (map planned_docs snaps)"
    by (induction snaps) auto
  have "stale_render files (scratch_copy files) rel = []" if "s \<in> set snaps" "(rel, e) \<in> set (planned_docs s)" for s rel e
    using that ni planned_not_hidden [of s rel e] by (intro stale_render_none) (auto simp: scratch_get list_all_iff)
  then show ?thesis
    by (auto simp: check_render_def r plans dict_keys_def)
qed


section \<open>The machine documents a scan finds\<close>

lemma join_first: "join s ((c # x) # xs) = c # join s (x # xs)"
  by (cases xs) auto

lemma join_last: "xs \<noteq> [] \<Longrightarrow> \<exists>a. join s xs = a @ last xs"
proof (induction s xs rule: join.induct)
  case (3 s x y xs)
  then obtain a where "join s (y # xs) = a @ last (y # xs)" by blast
  then have "join s (x # y # xs) = (x @ s @ a) @ last (x # y # xs)" by simp
  then show ?case by blast
qed auto

lemma join_parts: "join ''/'' (path_parts p) = p"
proof -
  have "path_parts q \<noteq> []" for q unfolding path_parts_def by (cases q) (auto split: list.splits)
  then show ?thesis
    unfolding path_parts_def
  proof (induction p)
    case (Cons c p)
    then show ?case by (cases "split_on (CHR ''/'') p" rule: list.exhaust) (auto simp: join_first split: list.splits)
  qed simp
qed

definition machine_fm :: "yaml_loader \<Rightarrow> string \<Rightarrow> string \<Rightarrow> front_matter option" where
  "machine_fm load rel bytes =
     (if is_machine_file rel \<and> hd (path_parts rel) = ''systems'' \<and> 3 \<le> length (path_parts rel) \<and> length (path_parts rel) \<le> 4
      then case split_file load bytes of Inr fm \<Rightarrow> fm | Inl _ \<Rightarrow> None else None)"

lemma machine_file_class: "is_machine_file rel \<longleftrightarrow> expected_doc_class (path_parts rel) \<noteq> None"
  by (simp add: is_machine_file_def expected_doc_class_def base_name_def path_parts_def Let_def)

lemma notes_not_machine: "last (path_parts rel) = ''_notes.md'' \<Longrightarrow> \<not> is_machine_file rel"
  by (simp add: is_machine_file_def base_name_def path_parts_def endswith_def)

lemma root_exempt_class: "rel \<in> set ROOT_EXEMPT \<Longrightarrow> hd (path_parts rel) \<noteq> ''systems''"
  by (auto simp: ROOT_EXEMPT_def path_parts_def)

lemma scan_file_machine:
  assumes "scan_file fm_errors load ts (rel, bytes) = Inr ts'"
  shows "ts_machine ts' = (case machine_fm load rel bytes of Some d \<Rightarrow> dict_set rel d (ts_machine ts) | None \<Rightarrow> ts_machine ts)"
  using assms machine_file_class [of rel] notes_not_machine [of rel] root_exempt_class [of rel]
  by (auto simp: scan_file_def machine_fm_def Let_def res_bind_Inr_iff split: if_splits option.splits)

lemma scan_files_machine:
  "res_fold (scan_file fm_errors load) ts fs = Inr ts' \<Longrightarrow> distinct (map fst fs) \<Longrightarrow>
   dict_get (ts_machine ts') rel =
     (case Option.bind (map_of fs rel) (machine_fm load rel) of Some d \<Rightarrow> Some d | None \<Rightarrow> dict_get (ts_machine ts) rel)"
proof (induction fs arbitrary: ts)
  case (Cons f fs)
  obtain p bytes where f: "f = (p, bytes)" by fastforce
  obtain ts1 where s: "scan_file fm_errors load ts f = Inr ts1" and rest: "res_fold (scan_file fm_errors load) ts1 fs = Inr ts'"
    using Cons.prems(1) by (auto simp: res_bind_Inr_iff)
  note m = scan_file_machine [OF s [unfolded f]]
  have "map_of fs p = None" using Cons.prems(2) by (simp add: f map_of_eq_None_iff)
  then show ?case
    using Cons.IH [OF rest] Cons.prems(2) m by (auto simp: f update_conv split: option.splits)
qed simp

lemma markdown_get:
  assumes "dict_wf files"
  shows "map_of (markdown_files files) rel = (if endswith rel ''.md'' then dict_get files rel else None)"
    and "distinct (map fst (markdown_files files))"
proof -
  let ?md = "filter (\<lambda>f. endswith (fst f) ''.md'') files"
  have d: "distinct (map fst ?md)" using assms by (simp add: dict_wf_def distinct_filter_key)
  then show d': "distinct (map fst (markdown_files files))"
    using mset_eq_imp_distinct_iff [of "map fst (markdown_files files)" "map fst ?md"] by (simp add: markdown_files_def mset_map)
  have "map_of (markdown_files files) = map_of ?md"
    by (subst map_of_inject_set [OF d' d]) (simp add: markdown_files_def)
  then show "map_of (markdown_files files) rel = (if endswith rel ''.md'' then dict_get files rel else None)"
    using map_of_filter_key [of "\<lambda>p. endswith p ''.md''" files rel] by (simp add: case_prod_unfold)
qed

lemma machine_file_md: "is_machine_file rel \<Longrightarrow> endswith rel ''.md''"
proof -
  assume m: "is_machine_file rel"
  have "path_parts rel \<noteq> []" unfolding path_parts_def by (cases rel) (auto split: list.splits)
  then have "\<exists>a. rel = a @ base_name rel"
    using join_last [of "path_parts rel" "''/''"] join_parts [of rel] by (simp add: base_name_def path_parts_def)
  then show ?thesis using m by (auto simp: is_machine_file_def endswith_iff)
qed

lemma scan_machine:
  assumes "scan_tree fm_errors load files = Inr ts" and "dict_wf files"
  shows "dict_get (ts_machine ts) rel = Option.bind (dict_get files rel) (machine_fm load rel)"
proof -
  have "machine_fm load rel bytes = None" if "\<not> endswith rel ''.md''" for bytes
    using that machine_file_md by (auto simp: machine_fm_def)
  moreover have "dict_get (ts_machine ts) rel = Option.bind (map_of (markdown_files files) rel) (machine_fm load rel)"
    using scan_files_machine [OF assms(1) [unfolded scan_tree_def] markdown_get(2) [OF assms(2)], of rel]
    by (simp split: option.splits)
  ultimately show ?thesis
    by (cases "dict_get files rel") (simp_all add: markdown_get(1) [OF assms(2)])
qed

section \<open>The cross-check\<close>

text \<open>Every stamp in the tree is a date of the calendar.\<close>

definition stamps_real :: "yaml_loader \<Rightarrow> kb_files \<Rightarrow> bool" where
  "stamps_real load files = list_all (\<lambda>f. case split_file load (snd f) of
       Inr fm \<Rightarrow> (case old_stamp fm of Some d \<Rightarrow> calendar_date d | None \<Rightarrow> True) | Inl _ \<Rightarrow> True) files"

lemma stampable_date:
  assumes "stampable s e" and "calendar_date d"
  shows "fields_ok (doc_fields s e d)"
proof -
  have "scalar_ok (FStr d)" using assms(2) by (simp add: scalar_ok_def str_ok_def)
  then show ?thesis
    using assms(1) by (cases e) (simp_all add: stampable_def fields_ok_def doc_fields_def provenance_def Let_def)
qed

lemma settled_front_matter:
  assumes "settled load rel (doc_fields s e) b files" and "yaml_reads load" and "stamps_real load files" and "stampable s e"
  shows "\<exists>bytes d. dict_get files rel = Some bytes \<and> split_file load bytes = Inr (Some (fields_dict (doc_fields s e d)))"
proof -
  obtain bytes fm r d where get: "dict_get files rel = Some bytes" and sp: "split load (universal_nl bytes) = Inr (fm, r)"
    and old: "old_stamp fm = Some d" and em: "emit_doc (doc_fields s e) d b = universal_nl bytes"
    using assms(1) by (auto simp: settled_def)
  have sf: "split_file load bytes = Inr fm" by (simp add: split_file_def sp)
  have "(rel, bytes) \<in> set files" using get by (rule map_of_SomeD)
  then have "calendar_date d" using assms(3) sf old by (fastforce simp: stamps_real_def list_all_iff)
  with assms(4) have "fields_ok (doc_fields s e d)" by (rule stampable_date)
  from split_emit [OF assms(2) this, of "NL # b"] have "fm = Some (fields_dict (doc_fields s e d))"
    using sp em by (simp add: emit_doc_def)
  with get sf show ?thesis by blast
qed

lemma planned_length:
  assumes "(rel, entry) \<in> set (planned_docs s)"
  shows "hd (path_parts rel) = ''systems''" and "3 \<le> length (path_parts rel)" and "length (path_parts rel) \<le> 4"
  using assms by (cases rule: planned_cases, auto simp: planned_parts)+

lemma doc_provenance_none: "doc_provenance s e rel (fields_dict (doc_fields s e d)) = []"
  by (cases e) (simp_all add: doc_provenance_def ne_snapshot_def py_get_def fields_dict_def doc_fields_def provenance_def
      scalar_json_def Let_def comp_def json_equal_def)

lemma expect_plan_keys:
  "set (dict_keys (fold (\<lambda>(rel, d). dict_set rel (s, d)) plan m)) = set (dict_keys m) \<union> fst ` set plan"
proof (induction plan arbitrary: m)
  case (Cons x plan)
  have "set (dict_keys (dict_set (fst x) (s, snd x) m)) = insert (fst x) (set (dict_keys m))"
    by (rule alist.keys_put_set)
  with Cons show ?case by (simp add: case_prod_unfold)
qed simp

lemma expect_plan_get:
  "dict_get (fold (\<lambda>(rel, d). dict_set rel (s, d)) plan m) rel = Some (t, d) \<Longrightarrow>
   dict_get m rel = Some (t, d) \<or> t = s \<and> (rel, d) \<in> set plan"
proof (induction plan arbitrary: m)
  case (Cons x plan)
  then show ?case by (cases x) (fastforce simp: update_conv split: if_splits)
qed simp

lemma expect_fold:
  assumes "res_fold expect_snapshot expected snaps = Inr e"
  shows "set (dict_keys e) = set (dict_keys expected) \<union> (\<Union>s \<in> set snaps. set (doc_paths s))"
    and "dict_get e rel = Some (s, d) \<Longrightarrow> dict_get expected rel = Some (s, d) \<or> s \<in> set snaps \<and> (rel, d) \<in> set (planned_docs s)"
proof -
  show "set (dict_keys e) = set (dict_keys expected) \<union> (\<Union>s \<in> set snaps. set (doc_paths s))"
    using assms
  proof (induction snaps arbitrary: expected)
    case (Cons s snaps)
    then obtain m where m: "expect_snapshot expected s = Inr m" "res_fold expect_snapshot m snaps = Inr e"
      by (auto simp: res_bind_Inr_iff)
    have "set (dict_keys m) = set (dict_keys expected) \<union> set (doc_paths s)"
      using m(1) by (clarsimp simp: expect_snapshot_def res_bind_Inr_iff expected_docs_Inr) (simp add: expect_plan_keys doc_paths_def)
    then show ?case using Cons.IH [OF m(2)] by auto
  qed simp
  show "dict_get expected rel = Some (s, d) \<or> s \<in> set snaps \<and> (rel, d) \<in> set (planned_docs s)" if "dict_get e rel = Some (s, d)"
    using assms
  proof (induction snaps arbitrary: expected)
    case (Cons t snaps)
    then obtain m where m: "expect_snapshot expected t = Inr m" "res_fold expect_snapshot m snaps = Inr e"
      by (auto simp: res_bind_Inr_iff)
    have "dict_get m rel = Some (s, d) \<Longrightarrow> dict_get expected rel = Some (s, d) \<or> s = t \<and> (rel, d) \<in> set (planned_docs t)"
      using m(1) expect_plan_get [of t "planned_docs t" expected rel s d]
      by (clarsimp simp: expect_snapshot_def res_bind_Inr_iff expected_docs_Inr)
    then show ?case using Cons.IH [OF m(2)] by auto
  qed (use that in simp)
qed

lemma expect_fold_Inr:
  "(\<And>s. s \<in> set snaps \<Longrightarrow> distinct (doc_paths s)) \<Longrightarrow> \<exists>e. res_fold expect_snapshot m snaps = Inr e"
  by (induction snaps arbitrary: m) (simp_all add: expect_snapshot_def expected_docs_distinct doc_paths_def)


lemma cross_check_settled:
  assumes settles: "\<And>s. s \<in> set snaps \<Longrightarrow> settled_system tmpl load files s" and ok: "list_all renderable snaps"
    and y: "yaml_reads load" and real: "stamps_real load files"
    and machine: "\<And>rel. dict_get machine rel = Option.bind (dict_get files rel) (machine_fm load rel)"
  shows "cross_check snaps machine = Inr []"
proof -
  obtain e where e: "res_fold expect_snapshot [] snaps = Inr e"
    using expect_fold_Inr [of snaps "[]"] settles by (auto simp: settled_system_def)
  have keys: "dict_has e rel \<longleftrightarrow> (\<exists>s \<in> set snaps. rel \<in> set (doc_paths s))" for rel
    using expect_fold(1) [OF e] by (auto simp: dict_has_def dict_keys_def map_of_eq_None_iff image_iff)
  have there: "\<exists>d. dict_get machine rel = Some (fields_dict (doc_fields s entry d))"
    if s: "s \<in> set snaps" and p: "(rel, entry) \<in> set (planned_docs s)" for s rel entry
  proof -
    obtain b where "settled load rel (doc_fields s entry) b files"
      using settles [OF s] p by (fastforce simp: settled_system_def)
    moreover have "stampable s entry" using ok s p by (auto simp: list_all_iff renderable_def)
    ultimately obtain bytes d where "dict_get files rel = Some bytes"
      "split_file load bytes = Inr (Some (fields_dict (doc_fields s entry d)))"
      using settled_front_matter [OF _ y real] by blast
    then show ?thesis
      using planned_length [OF p] planned_machine(2) [OF p] by (auto simp: machine machine_fm_def)
  qed
  have "dict_has machine rel" if k: "dict_has e rel" for rel
  proof -
    obtain s entry where "s \<in> set snaps" "(rel, entry) \<in> set (planned_docs s)"
      using k unfolding keys by (auto simp: doc_paths_def)
    from there [OF this] show ?thesis by (auto simp: dict_has_def)
  qed
  moreover have "dict_has e rel" if m: "dict_has machine rel" and sys: "path_parts rel ! 1 = mangle (s_system s)" and s: "s \<in> set snaps" for rel s
  proof -
    have mach: "is_machine_file rel" "hd (path_parts rel) = ''systems''" "3 \<le> length (path_parts rel)" "dict_get files rel \<noteq> None"
      using m by (auto simp: dict_has_def machine machine_fm_def split: if_splits Option.bind_splits)
    then obtain y z where "path_parts rel = ''systems'' # mangle (s_system s) # y # z"
      using sys by (cases "path_parts rel"; cases "tl (path_parts rel)"; cases "tl (tl (path_parts rel))") auto
    then have "rel = sysdir (s_system s) @ ''/'' @ join ''/'' (y # z)"
      using join_parts [of rel] by (simp add: sysdir_def)
    then have "in_dir (sysdir (s_system s)) rel" by (metis append_Cons append_Nil in_dir_append)
    then have "owned s rel" using mach(1) by (simp add: owned_def)
    then show ?thesis using settles [OF s] mach(4) s unfolding keys by (auto simp: settled_system_def)
  qed
  moreover have "doc_provenance s d rel fm = []" if "dict_get e rel = Some (s, d)" "dict_get machine rel = Some fm" for rel s d fm
  proof -
    have "s \<in> set snaps" "(rel, d) \<in> set (planned_docs s)" using expect_fold(2) [OF e that(1)] by auto
    from there [OF this] that(2) show ?thesis using doc_provenance_none by auto
  qed
  ultimately show ?thesis
    by (fastforce simp: cross_check_def e Let_def filter_empty_conv dict_keys_def dict_has_def map_of_eq_None_iff split: option.splits)
qed


section \<open>The checks of the findings\<close>

definition checks_in :: "string list \<Rightarrow> finding list \<Rightarrow> bool" where
  "checks_in cs fs = list_all (\<lambda>f. f_check f \<in> set cs) fs"

lemma checks_in_simps [simp]:
  "checks_in cs []" "checks_in cs (f # fs) \<longleftrightarrow> f_check f \<in> set cs \<and> checks_in cs fs"
  "checks_in cs (fs @ gs) \<longleftrightarrow> checks_in cs fs \<and> checks_in cs gs"
  "checks_in cs (concat fss) \<longleftrightarrow> list_all (checks_in cs) fss"
  by (auto simp: checks_in_def list_all_iff)

lemma finding_simps [simp]: "f_check (fail p c m) = c" "f_check (warn p c m) = c"
    "f_level (fail p c m) = ''error''" "f_level (warn p c m) = ''warn''" "f_path (fail p c m) = p" "f_path (warn p c m) = p"
  by (simp_all add: fail_def warn_def)

lemma checks_in_map: "(\<And>x. x \<in> set xs \<Longrightarrow> f_check (g x) \<in> set cs) \<Longrightarrow> checks_in cs (map g xs)"
  by (auto simp: checks_in_def list_all_iff)

lemma front_matter_checks: "checks_in [''KB-1'', ''layout''] (validate_front_matter fm_errors rel fm)"
  by (auto simp: validate_front_matter_def intro!: checks_in_map split: option.splits)

lemma path_checks: "checks_in [''KB-1'', ''layout''] (check_path_consistency rel parts fm)"
proof -
  have "checks_in [''KB-1'', ''layout''] (object_consistency rel parts fm)" unfolding object_consistency_def Let_def by simp
  moreover have "checks_in [''KB-1'', ''layout''] (roster_kinds rel stem kind es)" for stem kind es
    by (auto simp: roster_kinds_def list_all_iff split: json.splits)
  then have "checks_in [''KB-1'', ''layout''] (group_consistency rel parts fm)"
    by (simp add: group_consistency_def Let_def split: option.split)
  moreover have "checks_in [''KB-1'', ''layout''] (index_consistency rel parts fm)"
    unfolding index_consistency_def Let_def by (simp split: option.split)
  ultimately show ?thesis by (simp add: check_path_consistency_def split: option.split)
qed

lemma scan_checks:
  assumes "scan_tree fm_errors load files = Inr ts"
  shows "checks_in [''KB-1'', ''layout''] (ts_findings ts)"
proof (rule res_fold_invariant [OF assms [unfolded scan_tree_def], where P = "\<lambda>ts. checks_in [''KB-1'', ''layout''] (ts_findings ts)"])
  show "checks_in [''KB-1'', ''layout''] (ts_findings ts')"
    if "checks_in [''KB-1'', ''layout''] (ts_findings ts)" "scan_file fm_errors load ts f = Inr ts'" for ts f ts'
    using that front_matter_checks path_checks
    by (auto simp: scan_file_def notes_findings_def class_findings_def Let_def res_bind_Inr_iff split: if_splits option.splits)
qed auto

lemma res_map_checks:
  "res_map f xs = Inr fss \<Longrightarrow> (\<And>x fs. f x = Inr fs \<Longrightarrow> checks_in cs fs) \<Longrightarrow> checks_in cs (concat fss)"
  by (induction xs arbitrary: fss) (auto simp: res_bind_Inr_iff)

lemma link_checks:
  assumes "check_links load files = Inr fs"
  shows "checks_in [''KB-5''] fs"
proof -
  have a: "anchor_problem load files rel target dest fr = Inr gs \<Longrightarrow> checks_in [''KB-5''] gs" for rel target dest fr gs
    by (auto simp: anchor_problem_def res_bind_Inr_iff split: option.splits if_splits)
  have l: "link_problem load files rel target = Inr gs \<Longrightarrow> checks_in [''KB-5''] gs" for rel target gs
    by (auto simp: link_problem_def Let_def a split: if_splits prod.splits)
  have "file_links load files f = Inr gs \<Longrightarrow> checks_in [''KB-5''] gs" for f gs
    using res_map_checks [of "link_problem load files (fst f)"] l by (auto simp: file_links_def res_bind_Inr_iff)
  then show ?thesis
    using assms res_map_checks [of "file_links load files"] by (auto simp: check_links_def res_bind_Inr_iff)
qed

lemma purpose_checks:
  assumes "check_purpose_keys load files snaps = Inr fs"
  shows "checks_in [''KB-10''] fs"
proof -
  have "checks_in [''KB-10''] (purpose_findings snaps rosters rel fm)" for rosters rel fm
    by (auto simp: purpose_findings_def dangling_def Let_def intro!: checks_in_map split: option.splits)
  then show ?thesis
    using assms by (auto simp: check_purpose_keys_def res_bind_Inr_iff intro!: res_map_checks split: option.splits)
qed


section \<open>Render, then validate\<close>

lemma collect_valid:
  assumes "res_fold (collect_snapshot sch) m snaps = Inr d" and "s \<in> set snaps"
  shows "snapshot_problem sch s = []"
  using assms
proof (induction snaps arbitrary: m)
  case (Cons t snaps)
  then obtain m' where "collect_snapshot sch m t = Inr m'" "res_fold (collect_snapshot sch) m' snaps = Inr d"
    by (auto simp: res_bind_Inr_iff)
  with Cons show ?case by (auto simp: collect_snapshot_def snapshot_problem_def Let_def split: if_splits)
qed simp

text \<open>Of a freshly rendered tree the checks against the snapshots are those of the purpose keys.\<close>

lemma validate_rendered:
  assumes "render_tree tmpl load sch snaps files = Inr st" and "yaml_reads load"
    and "distinct (map (\<lambda>s. mangle (s_system s)) snaps)" and "list_all renderable snaps"
    and "list_all (plain_bodies tmpl (human_info load files)) snaps"
    and "dict_wf (rs_files st)" and "stamps_real load (rs_files st)"
  shows "validate_tree fm_errors tmpl load sch (rs_files st) (Some snaps) =
    res_bind (scan_tree fm_errors load (rs_files st)) (\<lambda>ts.
    res_bind (check_links load (rs_files st)) (\<lambda>links.
    res_bind (check_purpose_keys load (rs_files st) snaps) (\<lambda>purposes.
    Inr (sort_key (\<lambda>f. (f_path f, f_check f, f_message f)) (ts_findings ts @ links @ purposes)))))"
proof (cases "scan_tree fm_errors load (rs_files st)")
  case (Inr ts)
  note settles = render_tree_settles [OF assms(1-5)]
  note boot = render_tree_bootstraps [OF assms(1)]
  obtain d where coll: "res_fold (collect_snapshot sch) [] snaps = Inr d" using boot(1) by blast
  have valid: "filter (\<lambda>s. snapshot_problem sch s = []) snaps = snaps" "filter (\<lambda>s. snapshot_problem sch s \<noteq> []) snaps = []"
    using collect_valid [OF coll] by (simp_all add: filter_id_conv filter_empty_conv)
  have "list_all no_index snaps" using assms(4) by (simp add: renderable_def list_all_iff)
  note render = check_render_settled [OF settles this boot(2,3) coll]
  note cross = cross_check_settled [OF settles assms(4,2,7) scan_machine [OF Inr assms(6)]]
  show ?thesis
    by (cases "check_links load (rs_files st)"; cases "check_purpose_keys load (rs_files st) snaps")
       (simp_all add: validate_tree_def Let_def Inr valid cross render)
qed (simp add: validate_tree_def)

text \<open>C1. The cross-checks of the validation library accept what the renderer writes (validate.py \<open>validate_tree\<close>, render.py
  \<open>render_tree\<close>): after a successful render, a validation against the same snapshots that returns has no provenance finding (no
  document is missing, orphaned or stamped otherwise) and no render finding (KB-8). What it can still report are findings of the checks
  of single documents: front matter (KB-1), layout, links (KB-5) and purpose keys (KB-10). These may concern rendered documents
  too; a system with a dot in its name, for one, is rendered to paths that the layout check rejects (\<open>dotted_system_rejected\<close>).

  It is assumed that the systems have different directories; that their dates have the shape of a date, their names are not
  empty, no object is named \<open>index\<close> and their stamps are values that are read back (\<open>renderable\<close>), by a reader that reads YAML's
  forms (\<open>yaml_reads\<close>); that no rendered body has a carriage return; and that after the render the tree has every path once and
  the stamps in it are calendar dates (\<open>stamps_real\<close>).\<close>

theorem render_validates:
  assumes "render_tree tmpl load sch snaps files = Inr st" and "yaml_reads load"
    and "distinct (map (\<lambda>s. mangle (s_system s)) snaps)" and "list_all renderable snaps"
    and "list_all (plain_bodies tmpl (human_info load files)) snaps"
    and "dict_wf (rs_files st)" and "stamps_real load (rs_files st)"
    and "validate_tree fm_errors tmpl load sch (rs_files st) (Some snaps) = Inr fs"
  shows "checks_in [''KB-1'', ''layout'', ''KB-5'', ''KB-10''] fs"
proof -
  obtain ts links purposes where ts: "scan_tree fm_errors load (rs_files st) = Inr ts"
    and links: "check_links load (rs_files st) = Inr links"
    and purposes: "check_purpose_keys load (rs_files st) snaps = Inr purposes"
    and fs: "set fs = set (ts_findings ts @ links @ purposes)"
    using assms(8) unfolding validate_rendered [OF assms(1-7)] by (auto simp: res_bind_Inr_iff)
  show ?thesis
    using scan_checks [OF ts] link_checks [OF links] purpose_checks [OF purposes]
    by (auto simp: checks_in_def list_all_iff fs)
qed

lemma sample_tree: "dict_wf (rs_files sample_state)" "stamps_real simple_load (rs_files sample_state)"
  by code_simp+

definition sample_findings :: "finding list" where
  "sample_findings = sort_key (\<lambda>f. (f_path f, f_check f, f_message f))
     (case scan_tree (\<lambda>_ _. []) simple_load (rs_files sample_state) of Inr ts \<Rightarrow> ts_findings ts | Inl _ \<Rightarrow> [])"

lemma sample_scan: "case scan_tree (\<lambda>_ _. []) simple_load (rs_files sample_state) of Inr _ \<Rightarrow> True | Inl _ \<Rightarrow> False"
  by code_simp

lemma sample_links: "check_links simple_load (rs_files sample_state) = Inr []"
  by code_simp

lemma sample_purposes: "check_purpose_keys simple_load (rs_files sample_state) [sample_snapshot] = Inr []"
  by code_simp

lemma sample_validates:
  "validate_tree (\<lambda>_ _. []) sample_templates simple_load (\<lambda>_. []) (rs_files sample_state) (Some [sample_snapshot]) =
    Inr sample_findings"
proof -
  have "distinct (map (\<lambda>s. mangle (s_system s)) [sample_snapshot])" by simp
  from validate_rendered [OF sample_render simple_load_reads this sample_renderable sample_plain sample_tree]
  show ?thesis using sample_scan sample_links sample_purposes
    by (auto simp: sample_findings_def split: sum.splits)
qed

theorem render_validates_witness: "checks_in [''KB-1'', ''layout'', ''KB-5'', ''KB-10''] sample_findings"
  by (rule render_validates [OF sample_render simple_load_reads _ sample_renderable sample_plain sample_tree sample_validates]) simp

section \<open>The layout of rendered documents\<close>

lemma split_fqn_parts:
  "CHR ''.'' \<notin> set a \<Longrightarrow> CHR ''.'' \<notin> set b \<Longrightarrow> split_fqn (a @ ''.'' @ b @ ''.'' @ c) = [a, b, c]"
  by (simp add: split_fqn_def partition_at_append)

lemma by_group_kind:
  assumes "(g, obs) \<in> set (by_group (known_objects s))" and "\<not> is_sql s" and "ob \<in> set obs"
  shows "dict_get KIND_GROUPS (o_kind ob) = Some g"
proof -
  have "ob \<in> set (known_objects s)" "group_of ob = g"
    using group_members(1) [OF assms(1) [unfolded by_group_def]] assms(3) by auto
  moreover have "o_kind ob \<in> set (dict_keys KIND_GROUPS)"
    using calculation(1) assms(2) by (simp add: known_objects_def family_def)
  ultimately show ?thesis
    by (auto simp: group_of_def dict_keys_def map_of_eq_None_iff split: option.splits)
qed

lemma group_stem:
  assumes "dict_get KIND_GROUPS kind = Some g"
  shows "List.find (\<lambda>kg. snd kg = g) KIND_GROUPS = Some (kind, g)"
proof -
  have "list_all (\<lambda>kg. List.find (\<lambda>kg'. snd kg' = snd kg) KIND_GROUPS = Some kg) KIND_GROUPS" by code_simp
  then show ?thesis using map_of_SomeD [OF assms] by (auto simp: list_all_iff)
qed

lemmas consistency_simps = check_path_consistency_def object_consistency_def group_consistency_def index_consistency_def
  get_str_def fields_dict_def doc_fields_def scalar_json_def sys_mismatch_def Let_def

text \<open>C6. The renderer's documents are where their front matter says (render.py \<open>expected_docs\<close>, validate.py
  \<open>_check_path_consistency\<close>): a document planned for a system without a dot in its name and its schemas passes the layout
  check at its path with its front matter, whatever its stamp.\<close>

theorem planned_layout_consistent:
  assumes "(rel, entry) \<in> set (planned_docs s)" and "CHR ''.'' \<notin> set (s_system s)"
    and "list_all (\<lambda>ob. CHR ''.'' \<notin> set (o_schema ob)) (known_objects s)"
  shows "check_path_consistency rel (path_parts rel) (fields_dict (doc_fields s entry date)) = []"
  using assms(1)
proof (cases rule: planned_cases)
  case (object ob)
  have "CHR ''.'' \<notin> set (o_schema ob)" using assms(3) object(2) by (simp add: list_all_iff)
  then have "split_fqn (fqn (s_system s) (o_schema ob) (o_name ob)) = [s_system s, o_schema ob, o_name ob]"
    unfolding fqn_def using split_fqn_parts [OF assms(2)] by simp
  then show ?thesis by (simp add: object planned_parts consistency_simps)
next
  case (schema sch obs)
  then show ?thesis by (simp add: planned_parts consistency_simps)
next
  case (groups g obs)
  have slash: "CHR ''/'' \<notin> set g" and stem: "removesuffix (g @ ''.schema.md'') ''.schema.md'' = g" "g \<in> set GROUP_STEMS"
    using groups(4) by (auto simp: removesuffix_def endswith_def GROUP_STEMS_def KIND_GROUPS_def)
  have "roster_kinds rel g kind (map (\<lambda>ob. roster_json (roster_of (s_system s) ob)) obs) = []"
    if f: "List.find (\<lambda>kg. snd kg = g) KIND_GROUPS = Some (kind, g')" for kind g'
  proof -
    have "o_kind ob = kind" if "ob \<in> set obs" for ob
      using group_stem [OF by_group_kind [OF groups(5,1) that]] f by simp
    then show ?thesis by (simp add: roster_kinds_def roster_json_def roster_of_def py_get_def)
  qed
  then show ?thesis
    using stem by (auto simp: groups planned_parts(3) [OF slash] consistency_simps comp_def split: option.splits)
next
  case system
  then show ?thesis by (simp add: planned_parts consistency_simps)
qed

theorem planned_layout_consistent_witness:
  "check_path_consistency ''systems/crm/public/users.schema.md'' (path_parts ''systems/crm/public/users.schema.md'')
     (fields_dict (doc_fields sample_snapshot (ObjectDoc (hd (known_objects sample_snapshot))) ''2024-02-29'')) = []"
  by (rule planned_layout_consistent) code_simp+

text \<open>A system with a dot in its name is rendered to documents that the layout check rejects.\<close>

lemma dotted_system_rejected:
  "map f_message (check_path_consistency ''systems/my-app/public/users.schema.md'' (path_parts ''systems/my-app/public/users.schema.md'')
     (fields_dict (doc_fields (sample_snapshot\<lparr>s_system := ''my.app''\<rparr>) (ObjectDoc sample_table) ''2024-02-29''))) =
   [''object '' @ py_repr ''my.app.public.users'' @ '' does not map to this path'']"
  by code_simp

section \<open>Where the guarantees end\<close>

text \<open>A path collision ends the whole validation: the cross-check computes the documents of every snapshot before the
  render check, the only place that turns the error into a finding.\<close>

lemma collision_ends_cross_check:
  assumes "expected_docs s = Inl e"
  shows "cross_check (s # snaps) machine = Inl e"
  by (simp add: cross_check_def expect_snapshot_def assms)

end
