(* ===== verification/Api_Io.thy ===== *)
theory Api_Io
  imports Sdk_Protocol
begin

text \<open>
  What the connectors to web services share: calls that read and change the world, the accessors of Python's dynamic
  values, and the loop that collects the rows of a paged result up to the cap.

  A failure is an error of the SDK's taxonomy, or any other exception by the name of its type. The world is a type
  variable: the services, the network and the clock are functions over it.
\<close>

section \<open>Calls\<close>

datatype failure = Raised connector_error | Escaping string

type_synonym 'a attempt = "(failure, 'a) result"

type_synonym ('w, 'a) io = "'w \<Rightarrow> 'a attempt \<times> 'w"

definition io_return :: "'a \<Rightarrow> ('w, 'a) io" where
  "io_return a w = (Inr a, w)"

definition io_raise :: "connector_error \<Rightarrow> ('w, 'a) io" where
  "io_raise e w = (Inl (Raised e), w)"

definition io_lift :: "'a attempt \<Rightarrow> ('w, 'a) io" where
  "io_lift r w = (r, w)"

definition io_bind :: "('w, 'a) io \<Rightarrow> ('a \<Rightarrow> ('w, 'b) io) \<Rightarrow> ('w, 'b) io" where
  "io_bind m f w = (case m w of (Inl e, w') \<Rightarrow> (Inl e, w') | (Inr a, w') \<Rightarrow> f a w')"

lemma io_simps [simp]:
  "io_return a w = (Inr a, w)" "io_raise e w = (Inl (Raised e), w)" "io_lift r w = (r, w)"
  by (simp_all add: io_return_def io_raise_def io_lift_def)

lemma io_bind_simps [simp]:
  "m w = (Inl e, w') \<Longrightarrow> io_bind m f w = (Inl e, w')"
  "m w = (Inr a, w') \<Longrightarrow> io_bind m f w = f a w'"
  by (simp_all add: io_bind_def)

lemma io_bind_Inr_iff: "io_bind m f w = (Inr b, w'') \<longleftrightarrow> (\<exists>a w'. m w = (Inr a, w') \<and> f a w' = (Inr b, w''))"
  by (auto simp: io_bind_def split: prod.splits sum.splits)

section \<open>Dynamic values\<close>

text \<open>\<open>for x in v\<close>, \<open>v.get(k, d)\<close> and \<open>v[k]\<close>\<close>

definition py_iter :: "json \<Rightarrow> json list attempt" where
  "py_iter v = (case list_of v of Some vs \<Rightarrow> Inr vs | None \<Rightarrow> Inl (Escaping ''TypeError''))"

definition get_or :: "json \<Rightarrow> string \<Rightarrow> json \<Rightarrow> json attempt" where
  "get_or v k d =
     (case v of
        JObj kvs \<Rightarrow> Inr (case dict_get kvs k of Some x \<Rightarrow> x | None \<Rightarrow> d)
      | _ \<Rightarrow> Inl (Escaping ''AttributeError''))"

definition py_item :: "json \<Rightarrow> string \<Rightarrow> json attempt" where
  "py_item v k =
     (case v of
        JObj kvs \<Rightarrow> (case dict_get kvs k of Some x \<Rightarrow> Inr x | None \<Rightarrow> Inl (Escaping ''KeyError''))
      | _ \<Rightarrow> Inl (Escaping ''TypeError''))"

lemma py_access_simps [simp]:
  "py_iter (JList vs) = Inr vs"
  "get_or (JObj kvs) k d = Inr (case dict_get kvs k of Some x \<Rightarrow> x | None \<Rightarrow> d)"
  "py_item (JObj kvs) k = (case dict_get kvs k of Some x \<Rightarrow> Inr x | None \<Rightarrow> Inl (Escaping ''KeyError''))"
  by (simp_all add: py_iter_def list_of_def get_or_def py_item_def)

definition is_py_int :: "json \<Rightarrow> bool" where
  "is_py_int v = (case v of JInt _ \<Rightarrow> True | JBool _ \<Rightarrow> True | _ \<Rightarrow> False)"

definition int_of :: "json \<Rightarrow> int" where
  "int_of v = (case v of JInt i \<Rightarrow> i | JBool b \<Rightarrow> of_bool b | _ \<Rightarrow> 0)"

text \<open>\<open>int(text)\<close>; \<open>None\<close> is the \<open>ValueError\<close>.\<close>

definition digit_value :: "string \<Rightarrow> nat" where
  "digit_value s = foldl (\<lambda>n c. 10 * n + (code c - 48)) 0 s"

definition py_int :: "string \<Rightarrow> int option" where
  "py_int s =
     (let t = strip s;
          signed = t \<noteq> [] \<and> (hd t = CHR ''-'' \<or> hd t = CHR ''+'');
          parts = split_on (CHR ''_'') (if signed then tl t else t)
      in if list_all (\<lambda>p. p \<noteq> [] \<and> list_all is_digit p) parts
         then Some ((if signed \<and> hd t = CHR ''-'' then - 1 else 1) * int (digit_value (concat parts)))
         else None)"

text \<open>\<open>d.get(k)\<close>, a string, a string that is not empty, and a \<open>ConfigError\<close>\<close>

abbreviation item :: "(string, json) dict \<Rightarrow> string \<Rightarrow> json" where
  "item \<equiv> Sdk_Providers.member"

definition as_string :: "json \<Rightarrow> string option" where
  "as_string v = (case v of JStr s \<Rightarrow> Some s | _ \<Rightarrow> None)"

definition named :: "json \<Rightarrow> string option" where
  "named v = (case v of JStr s \<Rightarrow> if s = [] then None else Some s | _ \<Rightarrow> None)"

definition refuse_config :: "string \<Rightarrow> 'a attempt" where
  "refuse_config msg = Inl (Raised (ConfigError msg []))"

lemma refuse_config_neq [simp]: "refuse_config msg \<noteq> Inr a" "Inr a \<noteq> refuse_config msg"
  by (simp_all add: refuse_config_def)

lemma named_iff [simp]: "named v = Some s \<longleftrightarrow> v = JStr s \<and> s \<noteq> []"
  by (auto simp: named_def split: json.splits)

lemma named_JStr [simp]: "s \<noteq> [] \<Longrightarrow> named (JStr s) = Some s"
  by simp

section \<open>Requests\<close>

record http_request =
  hr_method :: string
  hr_url :: string
  hr_params :: json
  hr_body :: json

text \<open>What a transport does with a request: it raises, or returns a status, the headers and the parsed body.\<close>

datatype http_answer = Refused connector_error | Answered int "(string \<times> string) list" json

type_synonym 'w transport = "http_request \<Rightarrow> 'w \<Rightarrow> http_answer \<times> 'w"

text \<open>\<open>urlsplit(url).path\<close> of a URL with a scheme and a host\<close>

definition url_path :: "string \<Rightarrow> string" where
  "url_path url =
     (let after = (case partition_at (CHR '':'') url of (_, _, r) \<Rightarrow> drop 2 r)
      in takeWhile (\<lambda>c. c \<noteq> CHR ''?'' \<and> c \<noteq> CHR ''#'') (dropWhile (\<lambda>c. c \<noteq> CHR ''/'' \<and> c \<noteq> CHR ''?'' \<and> c \<noteq> CHR ''#'') after))"

text \<open>\<open>urllib.parse.quote(text, safe="")\<close>\<close>

definition url_safe :: "char \<Rightarrow> bool" where
  "url_safe c \<longleftrightarrow> is_alpha_ascii c \<or> is_digit c \<or> c \<in> set ''_.-~''"

definition quote_url :: "string \<Rightarrow> string" where
  "quote_url s = concat (map (\<lambda>c. if url_safe c then [c]
     else concat (map (\<lambda>b. [CHR ''%'', upper_hex (b div 16), upper_hex (b mod 16)]) (utf8 c))) s)"

section \<open>Pages of rows\<close>

text \<open>The inner loop: rows are read and kept until the cap is reached; a row beyond it is not read and sets the flag.\<close>

fun take_rows :: "('i \<Rightarrow> 'r attempt) \<Rightarrow> nat \<Rightarrow> 'r list \<Rightarrow> 'i list \<Rightarrow> ('r list \<times> bool) attempt" where
  "take_rows read cap rows [] = Inr (rows, False)"
| "take_rows read cap rows (i # items) =
     (if cap \<le> length rows then Inr (rows, True)
      else res_bind (read i) (\<lambda>r. take_rows read cap (rows @ [r]) items))"

lemma take_rows_Inr:
  "take_rows read cap rows items = Inr (rows', t) \<Longrightarrow> length rows \<le> cap \<Longrightarrow>
   length rows' = min cap (length rows + length items) \<and> (t \<longleftrightarrow> cap < length rows + length items)"
proof (induction items arbitrary: rows)
  case (Cons i items)
  show ?case
  proof (cases "cap \<le> length rows")
    case False
    then obtain r where "take_rows read cap (rows @ [r]) items = Inr (rows', t)"
      using Cons.prems(1) by (auto simp: res_bind_Inr_iff)
    then show ?thesis using Cons.IH [of "rows @ [r]"] False by simp
  qed (use Cons.prems in auto)
qed auto

lemma take_rows_map:
  "res_map read items = Inr rs \<Longrightarrow> length rows \<le> cap \<Longrightarrow>
   take_rows read cap rows items = Inr (rows @ take (cap - length rows) rs, cap < length rows + length rs)"
proof (induction items arbitrary: rows rs)
  case (Cons i items)
  then obtain r rs' where rs: "read i = Inr r" "res_map read items = Inr rs'" "rs = r # rs'"
    by (auto simp: res_bind_Inr_iff)
  show ?case
  proof (cases "cap \<le> length rows")
    case False
    then have "take (cap - length rows) rs = r # take (cap - Suc (length rows)) rs'"
      unfolding rs by (metis Suc_diff_Suc not_le take_Suc_Cons)
    then show ?thesis using Cons.IH [OF rs(2), of "rows @ [r]"] False rs by simp
  qed (use Cons.prems rs in auto)
qed simp

lemma page_progress:
  "take_rows read cap rows page_rows = Inr (rows', False) \<Longrightarrow> \<not> cap \<le> length rows \<Longrightarrow> page_rows \<noteq> [] \<Longrightarrow>
   cap - length rows' < cap - length rows"
  using take_rows_Inr [of read cap rows page_rows rows' False] by (cases page_rows) auto

text \<open>The loop over the pages. \<open>fetch size offset\<close> is the request of one page, \<open>keep\<close> what is kept of a page besides its rows,
  \<open>read\<close> how one of them is read, and \<open>ended\<close> whether a page says that there are no rows beyond an offset. A page can hold
  \<open>max_size\<close> rows, at least one.\<close>

function page_loop ::
  "nat \<Rightarrow> (nat \<Rightarrow> nat \<Rightarrow> ('w, 'p) io) \<Rightarrow> ('p \<Rightarrow> 'i list attempt) \<Rightarrow> ('i \<Rightarrow> 'r attempt) \<Rightarrow> ('c \<Rightarrow> 'p \<Rightarrow> 'c attempt)
     \<Rightarrow> ('p \<Rightarrow> nat \<Rightarrow> bool) \<Rightarrow> nat \<Rightarrow> 'c \<Rightarrow> 'r list \<Rightarrow> nat \<Rightarrow> ('w, 'c \<times> 'r list \<times> bool) io" where
  "page_loop max_size fetch rows_of read keep ended cap c rows offset w =
     (if cap \<le> length rows \<or> max_size = 0 then (Inr (c, rows, False), w)
      else let size = min (cap - length rows + 1) max_size in
        case fetch size offset w of
          (Inl e, w') \<Rightarrow> (Inl e, w')
        | (Inr page, w') \<Rightarrow>
            (case keep c page of
               Inl e \<Rightarrow> (Inl e, w')
             | Inr c' \<Rightarrow>
                 (case rows_of page of
                    Inl e \<Rightarrow> (Inl e, w')
                  | Inr page_rows \<Rightarrow>
                      (case take_rows read cap rows page_rows of
                         Inl e \<Rightarrow> (Inl e, w')
                       | Inr (rows', truncated) \<Rightarrow>
                           if truncated \<or> length page_rows < size \<or> ended page (offset + length page_rows)
                           then (Inr (c', rows', truncated), w')
                           else page_loop max_size fetch rows_of read keep ended cap c' rows' (offset + length page_rows) w'))))"
  by pat_completeness auto
termination
proof (relation "measure (\<lambda>(max_size, fetch, rows_of, read, keep, ended, cap, c, rows, offset, w). cap - length rows)", goal_cases)
  case 2
  then show ?case unfolding in_measure prod.case by (intro page_progress) (auto simp: not_less dest: sym)
qed simp

declare page_loop.simps [simp del]

lemma page_loop_cases:
  assumes "page_loop max_size fetch rows_of read keep ended cap c rows offset w = (Inr (c', rows', t), w')"
  obtains (full) "cap \<le> length rows \<or> max_size = 0" "rows' = rows"
  | (last) page_rows where "\<not> cap \<le> length rows" "take_rows read cap rows page_rows = Inr (rows', t)"
  | (on) d kept page_rows w1 where "\<not> cap \<le> length rows" "take_rows read cap rows page_rows = Inr (kept, False)" "page_rows \<noteq> []"
      "page_loop max_size fetch rows_of read keep ended cap d kept (offset + length page_rows) w1 = (Inr (c', rows', t), w')"
proof (cases "cap \<le> length rows \<or> max_size = 0")
  case True
  then show thesis using trans [OF page_loop.simps [symmetric] assms] by (intro full) simp_all
next
  case False
  define size where "size = min (cap - length rows + 1) max_size"
  note run = trans [OF page_loop.simps [symmetric] assms, unfolded if_not_P [OF False] Let_def, folded size_def]
  obtain page w1 where f: "fetch size offset w = (Inr page, w1)"
    by (cases "fetch size offset w"; cases "fst (fetch size offset w)") (use run in simp_all)
  obtain d where d: "keep c page = Inr d" by (cases "keep c page") (use run f in simp_all)
  obtain page_rows where r: "rows_of page = Inr page_rows" by (cases "rows_of page") (use run f d in simp_all)
  obtain kept tr where k: "take_rows read cap rows page_rows = Inr (kept, tr)"
    by (cases "take_rows read cap rows page_rows") (use run f d r in auto)
  note go = run [unfolded f d r k prod.case sum.case]
  show thesis
  proof (cases "tr \<or> length page_rows < size \<or> ended page (offset + length page_rows)")
    case True
    then show thesis using go False k by (intro last [of page_rows]) simp_all
  next
    case stop: False
    have "page_rows \<noteq> []" using stop False by (auto simp: size_def)
    then show thesis using go False k stop by (intro on [of page_rows kept d w1]) simp_all
  qed
qed

lemma page_loop_cap:
  "page_loop max_size fetch rows_of read keep ended cap c rows offset w = (Inr (c', rows', t), w') \<Longrightarrow> length rows \<le> cap \<Longrightarrow>
   length rows' \<le> cap"
proof (induction "cap - length rows" arbitrary: c rows offset w rule: less_induct)
  case less
  from less.prems(1) show ?case
  proof (cases rule: page_loop_cases)
    case (on d kept page_rows w1)
    have "length kept \<le> cap" using take_rows_Inr [OF on(2) less.prems(2)] by simp
    with page_progress [OF on(2,1,3)] show ?thesis using less.hyps on(4) by blast
  next
    case (last page_rows)
    then show ?thesis using take_rows_Inr [OF last(2) less.prems(2)] by simp
  qed (use less.prems(2) in auto)
qed

text \<open>A source that serves the slices of a list of rows, of at most \<open>max_size\<close> rows: what the loop relies on\<close>

locale paged_source =
  fixes fetch :: "nat \<Rightarrow> nat \<Rightarrow> ('w, 'p) io" and rows_of :: "'p \<Rightarrow> 'i list attempt" and read :: "'i \<Rightarrow> 'r attempt"
    and keep :: "'c \<Rightarrow> 'p \<Rightarrow> 'c attempt" and ended :: "'p \<Rightarrow> nat \<Rightarrow> bool" and src :: "'r list" and up :: "'w \<Rightarrow> bool"
    and max_size :: nat
  assumes page: "up w \<Longrightarrow> 0 < k \<Longrightarrow> k \<le> max_size \<Longrightarrow> \<exists>p w' items. fetch k off w = (Inr p, w') \<and> up w'
    \<and> rows_of p = Inr items \<and> res_map read items = Inr (take k (drop off src))
    \<and> (\<forall>n. ended p n \<longrightarrow> length src \<le> n) \<and> (\<forall>c. \<exists>c'. keep c p = Inr c')"
begin

text \<open>The loop returns the rows up to the cap. It sees that there are more when the last page it asks for has room for one
  more row, that is unless the rows up to the cap fill whole pages.\<close>

lemma loop_exact:
  assumes "up w" and "0 < max_size" and "rows = take (length rows) src" and "length rows \<le> cap"
  shows "\<exists>c' w'. page_loop max_size fetch rows_of read keep ended cap c rows (length rows) w =
    (Inr (c', take cap src, cap < length src \<and> \<not> max_size dvd cap - length rows), w') \<and> up w'"
  using assms
proof (induction "cap - length rows" arbitrary: c rows w rule: less_induct)
  case less
  show ?case
  proof (cases "cap \<le> length rows")
    case True
    then have "cap = length rows" using less.prems(4) by simp
    then show ?thesis using less.prems by (simp add: page_loop.simps [of max_size fetch])
  next
    case False
    define size where "size = min (cap - length rows + 1) max_size"
    define fresh where "fresh = take size (drop (length rows) src)"
    have size: "0 < size" "size \<le> max_size" "size \<le> cap - length rows + 1" using less.prems(2) by (simp_all add: size_def)
    obtain p w' items where p: "fetch size (length rows) w = (Inr p, w')" "up w'" "rows_of p = Inr items"
      "res_map read items = Inr fresh" "\<And>n. ended p n \<Longrightarrow> length src \<le> n" "\<And>c. \<exists>c'. keep c p = Inr c'"
      using page [OF less.prems(1) size(1,2), of "length rows"] unfolding fresh_def by blast
    obtain c' where c': "keep c p = Inr c'" using p(6) by blast
    have items: "length items = length fresh" using res_map_Inr_length [OF p(4)] by simp
    have len: "length fresh = min size (length src - length rows)" by (simp add: fresh_def)
    have "length rows \<le> length src" using arg_cong [OF less.prems(3), of length] by simp
    define kept where "kept = rows @ take (cap - length rows) fresh"
    define t where "t \<longleftrightarrow> cap < length rows + length fresh"
    have take_rows: "take_rows read cap rows items = Inr (kept, t)"
      using take_rows_map [OF p(4) less.prems(4)] by (simp add: kept_def t_def)
    note step = page_loop.simps [of max_size fetch rows_of read keep ended cap c rows "length rows" w]
    have body: "page_loop max_size fetch rows_of read keep ended cap c rows (length rows) w =
        (if t \<or> length fresh < size \<or> ended p (length rows + length fresh) then (Inr (c', kept, t), w')
         else page_loop max_size fetch rows_of read keep ended cap c' kept (length rows + length fresh) w')"
      using False less.prems(2)
      by (intro trans [OF step]) (simp add: Let_def p(1,3) c' take_rows items flip: size_def [simplified])
    have src: "kept = take (min cap (length rows + length fresh)) src"
    proof -
      have "kept = take (length rows) src @ take (min (cap - length rows) size) (drop (length rows) src)"
        using less.prems(3) by (simp add: kept_def fresh_def)
      also have "\<dots> = take (length rows + min (cap - length rows) size) src" by (simp add: take_add)
      finally have "kept = take (length rows + min (cap - length rows) size) src" .
      moreover have "min cap (length rows + length fresh) = min (length rows + min (cap - length rows) size) (length src)"
        using less.prems(4) \<open>length rows \<le> length src\<close> len by linarith
      moreover have "take (min n (length src)) src = take n src" for n by (simp add: min_def)
      ultimately show ?thesis by simp
    qed
    show ?thesis
    proof (cases "cap - length rows < max_size")
      case True
      then have s: "size = cap - length rows + 1" by (simp add: size_def)
      have "\<not> max_size dvd cap - length rows" using True False by (auto dest: dvd_imp_le)
      moreover have "t \<longleftrightarrow> cap < length src" using len s False less.prems(4) by (auto simp: t_def)
      moreover have "t \<or> length fresh < size" using len s False by (auto simp: t_def)
      moreover have "take (min cap (length rows + length fresh)) src = take cap src"
        using len s \<open>length rows \<le> length src\<close> by (cases "cap \<le> length src") (auto simp: min_def)
      ultimately show ?thesis using body p(2) src by auto
    next
      case full: False
      then have s: "size = max_size" by (simp add: size_def)
      have le: "length rows + length fresh \<le> cap" using len s full False by linarith
      then have nt: "\<not> t" by (simp add: t_def)
      have kept: "kept = take (length kept) src" "length kept = length rows + length fresh" "length kept \<le> cap"
        using src le len \<open>length rows \<le> length src\<close> by simp_all
      show ?thesis
      proof (cases "length fresh < size \<or> ended p (length rows + length fresh)")
        case True
        then have "length src \<le> length rows + length fresh" using p(5) len by auto
        then have "\<not> cap < length src" "kept = take cap src" using le kept src by simp_all
        then show ?thesis using body p(2) True nt by auto
      next
        case go: False
        have dvd: "max_size dvd cap - length kept \<longleftrightarrow> max_size dvd cap - length rows"
        proof -
          have "cap - length rows = cap - length kept + max_size" using kept len s go full by auto
          then show ?thesis by simp
        qed
        have "cap - length kept < cap - length rows" using kept go size(1) False by auto
        from less.hyps [OF this p(2) less.prems(2) kept(1,3), of c'] show ?thesis
          using body nt go unfolding kept(2) dvd [unfolded kept(2)] by auto
      qed
    qed
  qed
qed

end

end
