(* ===== verification/Google_Api.thy ===== *)
theory Google_Api
  imports Api_Io
begin

text \<open>
  The Google connectors: the clients of \<open>src/connectors/ga4/client.py\<close> and \<open>gsc/api.py\<close> with their status mapping, the
  query executors \<open>ga4/executor.py\<close> and \<open>gsc/executor.py\<close>, the metadata of \<open>ga4/mapping.py\<close>, \<open>ga4/connector.py\<close> and
  \<open>gsc/connector.py\<close>.

  The transport is a function from requests to answers; \<open>authorized_send\<close> makes one from the session of \<open>google-auth\<close>, a
  parameter. Sleeping and the pacing by the token bucket of \<open>Sdk_Quota\<close> do not change results and are not modelled;
  \<open>delays\<close> is the list \<open>backoff_delays\<close> gives, of which only the length matters. The collection of rows is the loop of
  \<open>Api_Io\<close>; the locale \<open>paged_source\<close> is interpreted here on the two fetches against a service that serves a table.
\<close>

section \<open>The status mapping\<close>

definition api_status :: "json \<Rightarrow> json attempt" where
  "api_status body =
     (case body of
        JObj kvs \<Rightarrow> get_or (case dict_get kvs ''error'' of Some e \<Rightarrow> e | None \<Rightarrow> JObj []) ''status'' (JStr [])
      | _ \<Rightarrow> Inr (JStr []))"

definition retry_after_s :: "(string \<times> string) list \<Rightarrow> int option" where
  "retry_after_s headers =
     (case List.find (\<lambda>h. map to_lower (fst h) = ''retry-after'') headers of
        None \<Rightarrow> None
      | Some (_, value) \<Rightarrow> map_option (max 0) (py_int value))"

text \<open>The texts in which the two clients differ\<close>

record api_texts =
  at_quota :: string
  at_error :: string
  at_denied :: string
  at_denied_hint :: string
  at_rejected :: string
  at_rejected_hint :: string
  at_credentials :: string
  at_unreachable :: string

definition ga4_texts :: api_texts where
  "ga4_texts = \<lparr>at_quota = ''GA4 quota exhausted at '', at_error = ''GA4 API error at '',
     at_denied = ''GA4 API denied access at '', at_denied_hint = ''check the service account's read access to the property'',
     at_rejected = ''GA4 API rejected the request at '', at_rejected_hint = ''check property_id'',
     at_credentials = ''GA4 credentials rejected while calling '', at_unreachable = ''cannot reach GA4 API at ''\<rparr>"

definition gsc_texts :: api_texts where
  "gsc_texts = \<lparr>at_quota = ''GSC quota exhausted at '', at_error = ''Search Console API error at '',
     at_denied = ''Search Console denied access at '',
     at_denied_hint = ''check the service-account key and that the account is a user of the property'',
     at_rejected = ''Search Console rejected the request at '',
     at_rejected_hint = ''check config.site_url matches the property exactly as registered'',
     at_credentials = ''GSC credentials rejected while calling '', at_unreachable = ''cannot reach the Search Console API at ''\<rparr>"

text \<open>What an answer means: the call ends, or it is tried again and ends with the error when the schedule is used up.\<close>

datatype verdict = Stop "(string, json) dict attempt" | Again connector_error

definition status_text :: "int \<Rightarrow> json \<Rightarrow> string \<Rightarrow> string" where
  "status_text status st fallback = '' ('' @ show_int status @ '' '' @ str_json (or_else st (JStr fallback)) @ '')''"

definition judge :: "api_texts \<Rightarrow> int \<Rightarrow> string \<Rightarrow> http_answer \<Rightarrow> verdict" where
  "judge tx default_retry url answer =
     (case answer of
        Refused e \<Rightarrow> Stop (Inl (Raised e))
      | Answered status headers body \<Rightarrow>
          (case api_status body of
             Inl f \<Rightarrow> Stop (Inl f)
           | Inr st \<Rightarrow>
               let path = url_path url in
               if status = 200 then
                 (case body of
                    JObj kvs \<Rightarrow> Stop (Inr kvs)
                  | _ \<Rightarrow> Stop (Inl (Raised (SourceUnavailable (''malformed (non-JSON) 200 response from '' @ path) []))))
               else if status = 429 \<or> status = 403 \<and> st = JStr ''RESOURCE_EXHAUSTED'' then
                 Again (QuotaExceeded (at_quota tx @ path @ status_text status st ''throttled'')
                   (case retry_after_s headers of Some n \<Rightarrow> n | None \<Rightarrow> default_retry)
                   [(''endpoint'', JStr path), (''http_status'', JInt status)])
               else if 500 \<le> status \<and> status \<le> 599 then
                 Again (SourceUnavailable (at_error tx @ path @ status_text status st ''server error'' @ '' after backoff retries'') [])
               else if status = 401 \<or> status = 403 then
                 Stop (Inl (Raised (AuthError (at_denied tx @ path @ status_text status st ''denied'' @ ''; '' @ at_denied_hint tx) [])))
               else if status = 400 \<or> status = 404 then
                 Stop (Inl (Raised (ConfigError
                   (at_rejected tx @ path @ status_text status st ''bad request'' @ ''; '' @ at_rejected_hint tx) [])))
               else Stop (Inl (Raised (SourceUnavailable (''unexpected '' @ show_int status @ '' response from '' @ path) [])))))"

fun json_call ::
  "api_texts \<Rightarrow> int \<Rightarrow> ('w \<Rightarrow> http_answer \<times> 'w) \<Rightarrow> string \<Rightarrow> 'd list \<Rightarrow> ('w, (string, json) dict) io" where
  "json_call tx default_retry send url delays w =
     (case send w of (answer, w') \<Rightarrow>
        (case judge tx default_retry url answer of
           Stop r \<Rightarrow> (r, w')
         | Again e \<Rightarrow>
             (case delays of
                [] \<Rightarrow> (Inl (Raised e), w')
              | d # ds \<Rightarrow> json_call tx default_retry send url ds w')))"

declare json_call.simps [simp del]

section \<open>The transport and the credentials\<close>

text \<open>What the session of \<open>google-auth\<close> gives for a request: a failure of the token, a failure of the network, or a response
  whose body may not be JSON.\<close>

datatype session_answer =
    TokenFailed string
  | NetworkFailed string
  | Response int "(string \<times> string) list" "json option"

definition authorized_send :: "api_texts \<Rightarrow> (http_request \<Rightarrow> 'w \<Rightarrow> session_answer \<times> 'w) \<Rightarrow> 'w transport" where
  "authorized_send tx session request w =
     (case session request w of
        (TokenFailed type_name, w') \<Rightarrow>
          (Refused (AuthError (at_credentials tx @ url_path (hr_url request) @ '': '' @ type_name) []), w')
      | (NetworkFailed type_name, w') \<Rightarrow>
          (Refused (SourceUnavailable (at_unreachable tx @ url_path (hr_url request) @ '': '' @ type_name) []), w')
      | (Response status headers body, w') \<Rightarrow>
          (Answered status headers (case body of Some v \<Rightarrow> v | None \<Rightarrow> JNull), w'))"

text \<open>\<open>_credentials\<close>. A path is given with its normal form; \<open>key_file\<close> is \<open>None\<close> when there is no such file. \<open>parse\<close> is the
  parser of the library, which raises \<open>ValueError\<close> or \<open>KeyError\<close> (\<open>None\<close>) on a key it cannot use.\<close>

definition credentials ::
  "(string \<Rightarrow> string) \<Rightarrow> (string \<Rightarrow> string option) \<Rightarrow> (string \<Rightarrow> string option) \<Rightarrow> (string \<Rightarrow> 'k option) \<Rightarrow> json \<Rightarrow> 'k attempt" where
  "credentials norm_path key_file environ parse config =
     (case config of
        JObj kvs \<Rightarrow>
          (case dict_get kvs ''credentials_file'' of
             Some (JStr given) \<Rightarrow>
               let path = norm_path given in
               (case key_file path of
                  None \<Rightarrow> Inl (Raised (ConfigError (''service-account key file not found: '' @ path) []))
                | Some contents \<Rightarrow>
                    (case parse contents of
                       Some k \<Rightarrow> Inr k
                     | None \<Rightarrow> Inl (Raised (ConfigError (''service-account key file '' @ path
                         @ '' could not be parsed (contents not echoed; check the key)'') []))))
           | Some _ \<Rightarrow> Inl (Escaping ''TypeError'')
           | None \<Rightarrow>
               res_bind (py_item config ''credentials_env'') (\<lambda>env_var.
                 case env_var of
                   JStr name \<Rightarrow>
                     (case environ name of
                        Some (c # cs) \<Rightarrow>
                          (case parse (c # cs) of
                             Some k \<Rightarrow> Inr k
                           | None \<Rightarrow> Inl (Raised (ConfigError (''service-account key in $'' @ name
                               @ '' could not be parsed (contents not echoed; check the key)'') [])))
                      | _ \<Rightarrow> Inl (Raised (ConfigError (''environment variable '' @ py_repr name
                               @ '' (config.credentials_env) is unset or empty'') [])))
                 | _ \<Rightarrow> Inl (Escaping ''TypeError'')))
      | _ \<Rightarrow> Inl (Escaping ''TypeError''))"

section \<open>The clients\<close>

text \<open>A client is its transport with the backoff schedule and the default retry time of the manifest.\<close>

record ('w, 'd) api_client =
  ac_transport :: "'w transport"
  ac_delays :: "'d list"
  ac_default_retry :: int
  ac_texts :: api_texts

definition request_of :: "string \<Rightarrow> string \<Rightarrow> json \<Rightarrow> json \<Rightarrow> http_request" where
  "request_of http_method url params body = \<lparr>hr_method = http_method, hr_url = url, hr_params = params, hr_body = body\<rparr>"

definition get_json :: "('w, 'd) api_client \<Rightarrow> string \<Rightarrow> json \<Rightarrow> ('w, (string, json) dict) io" where
  "get_json cl url params =
     json_call (ac_texts cl) (ac_default_retry cl) (ac_transport cl (request_of ''GET'' url params JNull)) url (ac_delays cl)"

definition post_json :: "('w, 'd) api_client \<Rightarrow> string \<Rightarrow> (string, json) dict \<Rightarrow> ('w, (string, json) dict) io" where
  "post_json cl url body =
     json_call (ac_texts cl) (ac_default_retry cl) (ac_transport cl (request_of ''POST'' url JNull (JObj body))) url (ac_delays cl)"

text \<open>\<open>paginate\<close> follows the tokens as long as the service hands them out.\<close>

partial_function (option) paginate_from ::
  "('w, 'd) api_client \<Rightarrow> string \<Rightarrow> string \<Rightarrow> int \<Rightarrow> json \<Rightarrow> json list \<Rightarrow> 'w \<Rightarrow> (json list attempt \<times> 'w) option" where
  "paginate_from cl url items_key page_size params items w =
     (case get_json cl url params w of
        (Inl e, w') \<Rightarrow> Some (Inl e, w')
      | (Inr page, w') \<Rightarrow>
          (case py_iter (case dict_get page items_key of Some v \<Rightarrow> v | None \<Rightarrow> JList []) of
             Inl e \<Rightarrow> Some (Inl e, w')
           | Inr more_items \<Rightarrow>
               let token = member page ''nextPageToken'' in
               if \<not> truthy token then Some (Inr (items @ more_items), w')
               else paginate_from cl url items_key page_size
                      (JObj [(''pageSize'', JInt page_size), (''pageToken'', token)]) (items @ more_items) w'))"

definition paginate :: "('w, 'd) api_client \<Rightarrow> string \<Rightarrow> string \<Rightarrow> 'w \<Rightarrow> (json list attempt \<times> 'w) option" where
  "paginate cl url items_key = paginate_from cl url items_key 200 (JObj [(''pageSize'', JInt 200)]) []"

section \<open>The executor of GA4\<close>

definition DATA_API :: string where
  "DATA_API = ''https://analyticsdata.googleapis.com''"

definition ADMIN_API :: string where
  "ADMIN_API = ''https://analyticsadmin.googleapis.com''"

definition GA4_OPERATIONS :: "string list" where
  "GA4_OPERATIONS = [''runReport'']"

definition GA4_PAGE_SIZE :: nat where
  "GA4_PAGE_SIZE = 100000"

definition ga4_preflight :: "json \<Rightarrow> json attempt" where
  "ga4_preflight config =
     res_bind (get_or config ''property_id'' JNull) (\<lambda>pid.
       if truthy pid then Inr (JObj [(''property_id'', pid)])
       else Inl (Raised (ConfigError ''ga4 execution requires config.property_id'' [])))"

definition header_columns :: "(string, json) dict \<Rightarrow> string \<Rightarrow> (json \<Rightarrow> json attempt) \<Rightarrow> json list attempt" where
  "header_columns page key type_of =
     res_bind (py_iter (case dict_get page key of Some v \<Rightarrow> v | None \<Rightarrow> JList [])) (res_map (\<lambda>header.
       res_bind (get_or header ''name'' (JStr [])) (\<lambda>name.
       res_bind (type_of header) (\<lambda>ty. Inr (JObj [(''name'', name), (''type'', ty)])))))"

definition ga4_columns :: "(string, json) dict \<Rightarrow> json list attempt" where
  "ga4_columns page =
     res_bind (header_columns page ''dimensionHeaders'' (\<lambda>_. Inr (JStr ''string''))) (\<lambda>dims.
     res_bind (header_columns page ''metricHeaders'' (\<lambda>h. get_or h ''type'' (JStr ''metric''))) (\<lambda>metrics.
     Inr (dims @ metrics)))"

definition cell_values :: "json \<Rightarrow> string \<Rightarrow> json list attempt" where
  "cell_values row key =
     res_bind (get_or row key (JList [])) (\<lambda>cells.
     res_bind (py_iter cells) (res_map (\<lambda>v. get_or v ''value'' JNull)))"

definition ga4_row :: "json \<Rightarrow> json list attempt" where
  "ga4_row row =
     res_bind (cell_values row ''dimensionValues'') (\<lambda>dims.
     res_bind (cell_values row ''metricValues'') (\<lambda>metrics. Inr (dims @ metrics)))"

definition ga4_rows :: "(string, json) dict \<Rightarrow> json list list attempt" where
  "ga4_rows page = res_bind (py_iter (case dict_get page ''rows'' of Some v \<Rightarrow> v | None \<Rightarrow> JList [])) (res_map ga4_row)"

text \<open>The error of a rejected request is a guardrail's.\<close>

definition run_report :: "('w, 'd) api_client \<Rightarrow> string \<Rightarrow> (string, json) dict \<Rightarrow> ('w, (string, json) dict) io" where
  "run_report cl url body w =
     (case post_json cl url body w of
        (Inl (Raised (ConfigError msg d)), w') \<Rightarrow>
          (Inl (Raised (GuardrailViolation (''GA4 rejected the request (an undocumented or unavailable dimension/metric, or an ''
             @ ''invalid date range): '' @ msg) ''schema_mismatch'' [])), w')
      | r \<Rightarrow> r)"

definition ga4_ended :: "(string, json) dict \<Rightarrow> nat \<Rightarrow> bool" where
  "ga4_ended page offset = (let total = member page ''rowCount'' in is_py_int total \<and> int_of total \<le> int offset)"

definition ga4_fetch :: "('w, 'd) api_client \<Rightarrow> string \<Rightarrow> (string, json) dict \<Rightarrow> nat \<Rightarrow> nat \<Rightarrow> ('w, (string, json) dict) io" where
  "ga4_fetch cl url body page_size offset =
     run_report cl url (dict_set ''offset'' (JInt (int offset)) (dict_set ''limit'' (JInt (int page_size)) body))"

definition keep_columns :: "json list \<Rightarrow> (string, json) dict \<Rightarrow> json list attempt" where
  "keep_columns columns page = (if columns = [] then ga4_columns page else Inr columns)"

definition api_result :: "string \<Rightarrow> int \<Rightarrow> json list \<Rightarrow> json list list \<Rightarrow> bool \<Rightarrow> execute_result" where
  "api_result engine duration columns rows truncated =
     \<lparr>xr_columns = columns, xr_rows = map (map of_json) rows, xr_row_count = int (length rows), xr_truncated = truncated,
      xr_duration_ms = duration, xr_source = [(''executed_on'', JStr ''api''), (''engine_version'', JStr engine)]\<rparr>"

definition undocumented_operation :: "string \<Rightarrow> string list \<Rightarrow> json \<Rightarrow> connector_error" where
  "undocumented_operation connector_name documented operation =
     GuardrailViolation (''operation '' @ repr_json operation @ '' is not documented for '' @ connector_name @ '' (documented: ''
       @ join '', '' documented @ '')'') ''schema_mismatch'' []"

definition is_documented :: "string list \<Rightarrow> json \<Rightarrow> bool" where
  "is_documented documented operation = (case operation of JStr s \<Rightarrow> s \<in> set documented | _ \<Rightarrow> False)"

definition request_body :: "execute_request \<Rightarrow> (string, json) dict" where
  "request_body request = (case er_body request of Some kvs \<Rightarrow> kvs | None \<Rightarrow> [])"

definition ga4_execute ::
  "('w, 'd) api_client \<Rightarrow> int \<Rightarrow> json \<Rightarrow> execute_request \<Rightarrow> guardrails \<Rightarrow> ('w, execute_result) io" where
  "ga4_execute cl duration config request limits =
     (let body = request_body request in
      if er_dialect request \<noteq> ''api''
      then io_raise (ConfigError (''ga4 executes the api dialect, got '' @ py_repr (er_dialect request)) [])
      else if \<not> is_documented GA4_OPERATIONS (er_operation request)
      then io_raise (undocumented_operation ''ga4'' GA4_OPERATIONS (er_operation request))
      else if \<not> truthy (member body ''metrics'') \<and> \<not> truthy (member body ''dimensions'')
      then io_raise (GuardrailViolation ''runReport requires at least one dimension or metric'' ''syntax_error'' [])
      else io_bind (io_lift (py_item config ''property_id'')) (\<lambda>pid.
        let url = DATA_API @ ''/v1beta/properties/'' @ str_json pid @ '':runReport'' in
        io_bind (page_loop GA4_PAGE_SIZE (ga4_fetch cl url body) ga4_rows Inr keep_columns ga4_ended (nat (g_row_cap limits)) [] [] 0)
          (\<lambda>(columns, rows, truncated). io_return (api_result ''ga4-data-v1beta'' duration columns rows truncated))))"

section \<open>The executor of GSC\<close>

definition API_BASE :: string where
  "API_BASE = ''https://searchconsole.googleapis.com/webmasters/v3''"

definition FIXED_DIMENSIONS :: "string list" where
  "FIXED_DIMENSIONS = [''query'', ''page'', ''country'', ''device'', ''date'', ''searchAppearance'']"

definition FIXED_METRICS :: "(string \<times> string) list" where
  "FIXED_METRICS = [(''clicks'', ''integer''), (''impressions'', ''integer''), (''ctr'', ''double''), (''position'', ''double'')]"

definition DATA_STATES :: "string list" where
  "DATA_STATES = [''all'', ''final'']"

definition GSC_OPERATIONS :: "string list" where
  "GSC_OPERATIONS = [''searchAnalytics.query'']"

definition GSC_PAGE_SIZE :: nat where
  "GSC_PAGE_SIZE = 25000"

text \<open>The URL of the configured property: \<open>quote\<close> takes text only.\<close>

definition site_path :: "json \<Rightarrow> string attempt" where
  "site_path config =
     res_bind (py_item config ''site_url'') (\<lambda>site.
       case site of JStr s \<Rightarrow> Inr (API_BASE @ ''/sites/'' @ quote_url s) | _ \<Rightarrow> Inl (Escaping ''TypeError''))"

definition gsc_preflight :: "json \<Rightarrow> json attempt" where
  "gsc_preflight config =
     res_bind (get_or config ''site_url'' JNull) (\<lambda>url.
       if truthy url then Inr (JObj [(''site_url'', url)])
       else Inl (Raised (ConfigError ''gsc execution requires config.site_url'' [])))"

definition gsc_row :: "json \<Rightarrow> json list attempt" where
  "gsc_row row =
     res_bind (get_or row ''keys'' JNull) (\<lambda>keys.
     res_bind (py_iter (or_else keys (JList []))) (\<lambda>ks.
     res_bind (res_map (\<lambda>m. get_or row (fst m) JNull) FIXED_METRICS) (\<lambda>ms. Inr (ks @ ms))))"

definition gsc_items :: "(string, json) dict \<Rightarrow> json list attempt" where
  "gsc_items page = py_iter (or_else (member page ''rows'') (JList []))"

definition gsc_fetch :: "('w, 'd) api_client \<Rightarrow> string \<Rightarrow> (string, json) dict \<Rightarrow> nat \<Rightarrow> nat \<Rightarrow> ('w, (string, json) dict) io" where
  "gsc_fetch cl url body page_size start_row =
     post_json cl url (dict_set ''startRow'' (JInt (int start_row)) (dict_set ''rowLimit'' (JInt (int page_size)) body))"

text \<open>The names of the undocumented dimensions; a value that is not a string fails in \<open>sorted\<close> or in \<open>join\<close>, whether it is
  hashed or compared.\<close>

definition undocumented_dimensions :: "json list \<Rightarrow> json list" where
  "undocumented_dimensions dims = filter (\<lambda>d. case d of JStr s \<Rightarrow> s \<notin> set FIXED_DIMENSIONS | _ \<Rightarrow> True) dims"

definition refuse_dimensions :: "json list \<Rightarrow> failure" where
  "refuse_dimensions undocumented =
     (case string_items undocumented of
        None \<Rightarrow> Escaping ''TypeError''
      | Some names \<Rightarrow>
          Raised (GuardrailViolation (''dimension(s) '' @ join '', '' (sort names) @ '' are not in the documented Search Console surface ''
            @ ''(documented: '' @ join '', '' FIXED_DIMENSIONS @ '')'') ''schema_mismatch''
            [(''undocumented_dimensions'', JList (map JStr (sort names)))]))"

definition gsc_columns :: "json list \<Rightarrow> json list" where
  "gsc_columns dims = map (\<lambda>d. JObj [(''name'', d), (''type'', JStr ''string'')]) dims
     @ map (\<lambda>(name, data_type). JObj [(''name'', JStr name), (''type'', JStr data_type)]) FIXED_METRICS"

definition gsc_execute ::
  "('w, 'd) api_client \<Rightarrow> int \<Rightarrow> json \<Rightarrow> execute_request \<Rightarrow> guardrails \<Rightarrow> ('w, execute_result) io" where
  "gsc_execute cl duration config request limits =
     (let body = request_body request in
      if er_dialect request \<noteq> ''api''
      then io_raise (ConfigError (''gsc executes the api dialect, got '' @ py_repr (er_dialect request)) [])
      else if \<not> is_documented GSC_OPERATIONS (er_operation request)
      then io_raise (undocumented_operation ''gsc'' GSC_OPERATIONS (er_operation request))
      else io_bind (io_lift (py_iter (or_else (member body ''dimensions'') (JList [])))) (\<lambda>dims.
        if undocumented_dimensions dims \<noteq> [] then io_lift (Inl (refuse_dimensions (undocumented_dimensions dims)))
        else if \<not> truthy (member body ''startDate'') \<or> \<not> truthy (member body ''endDate'')
        then io_raise (GuardrailViolation ''searchAnalytics.query requires startDate and endDate'' ''syntax_error'' [])
        else io_bind (io_lift (site_path config)) (\<lambda>site.
          let url = site @ ''/searchAnalytics/query'' in
          io_bind (page_loop GSC_PAGE_SIZE (gsc_fetch cl url body) gsc_items gsc_row (\<lambda>c _. Inr c) (\<lambda>_ _. False)
              (nat (g_row_cap limits)) () [] 0)
            (\<lambda>(_, rows, truncated). io_return (api_result ''searchconsole-v3'' duration (gsc_columns dims) rows truncated)))))"

section \<open>What the executors return\<close>

text \<open>A service that answers a report request within the limits with the rows asked for, as the Data API documents it: \<open>limit\<close> rows
  from \<open>offset\<close>, or those that are left, for a limit from one to the most rows of a request, and the number of all rows in
  \<open>rowCount\<close>.\<close>

definition report_page :: "json list list \<Rightarrow> nat \<Rightarrow> nat \<Rightarrow> (string, json) dict \<Rightarrow> bool" where
  "report_page src k off page \<longleftrightarrow>
     dict_get page ''error'' = None \<and> ga4_rows page = Inr (take k (drop off src))
     \<and> dict_get page ''rowCount'' = Some (JInt (int (length src))) \<and> (\<exists>cs. ga4_columns page = Inr cs)"

definition serves_reports ::
  "('w, 'd) api_client \<Rightarrow> string \<Rightarrow> (string, json) dict \<Rightarrow> json list list \<Rightarrow> ('w \<Rightarrow> bool) \<Rightarrow> bool" where
  "serves_reports cl url body src up \<longleftrightarrow>
     (\<forall>w k off. up w \<and> 0 < k \<and> k \<le> GA4_PAGE_SIZE \<longrightarrow> (\<exists>headers page w'.
        ac_transport cl (request_of ''POST'' url JNull
          (JObj (dict_set ''offset'' (JInt (int off)) (dict_set ''limit'' (JInt (int k)) body)))) w
          = (Answered 200 headers (JObj page), w')
        \<and> up w' \<and> report_page src k off page))"

lemma json_call_ok:
  assumes "send w = (Answered 200 headers (JObj page), w')" and "dict_get page ''error'' = None"
  shows "json_call tx default_retry send url delays w = (Inr page, w')"
  using assms by (simp add: json_call.simps judge_def api_status_def get_or_def Let_def)

lemma res_map_Inr [simp]: "res_map Inr xs = Inr xs"
  by (induction xs) simp_all

lemma ga4_fetch_paged:
  assumes "serves_reports cl url body src up"
  shows "paged_source (ga4_fetch cl url body) ga4_rows Inr keep_columns ga4_ended src up GA4_PAGE_SIZE"
proof
  fix w k off assume "up w" "0 < k" "k \<le> GA4_PAGE_SIZE"
  then obtain headers page w' where t:
    "ac_transport cl (request_of ''POST'' url JNull
       (JObj (dict_set ''offset'' (JInt (int off)) (dict_set ''limit'' (JInt (int k)) body)))) w
       = (Answered 200 headers (JObj page), w')" "up w'" "report_page src k off page"
    using assms unfolding serves_reports_def by meson
  have "ga4_fetch cl url body k off w = (Inr page, w')"
    unfolding ga4_fetch_def run_report_def post_json_def
    using t(3) by (simp add: report_page_def json_call_ok [where send = "ac_transport cl _", OF t(1)])
  moreover have "\<forall>n. ga4_ended page n \<longrightarrow> length src \<le> n"
    using t(3) by (simp add: report_page_def ga4_ended_def Sdk_Providers.member_def int_of_def Let_def)
  moreover have "\<forall>c. \<exists>c'. keep_columns c page = Inr c'"
    using t(3) by (auto simp: report_page_def keep_columns_def)
  ultimately show "\<exists>p w' items. ga4_fetch cl url body k off w = (Inr p, w') \<and> up w'
      \<and> ga4_rows p = Inr items \<and> res_map Inr items = Inr (take k (drop off src))
      \<and> (\<forall>n. ga4_ended p n \<longrightarrow> length src \<le> n) \<and> (\<forall>c. \<exists>c'. keep_columns c p = Inr c')"
    using t(2,3) by (auto simp: report_page_def)
qed


definition country_report :: execute_request where
  "country_report = \<lparr>er_dialect = ''api'', er_statement = JNull, er_params = [], er_operation = JStr ''runReport'',
     er_body = Some [(''dimensions'', JList [JObj [(''name'', JStr ''country'')]])]\<rparr>"

text \<open>C12. For a service that answers a request of \<open>1\<close> to \<open>100000\<close> rows, the most that the Data API serves at once, with the rows asked for
  and the number of all rows, \<open>runReport\<close> with a dimension or a metric returns the rows of the report up to the cap, in order. The
  result says that it is truncated when there are more, unless the cap is a multiple of the largest page.\<close>
theorem ga4_execute_exact:
  assumes "er_dialect request = ''api''" and "er_operation request = JStr ''runReport''"
    and "truthy (member (request_body request) ''metrics'') \<or> truthy (member (request_body request) ''dimensions'')"
    and "dict_get config ''property_id'' = Some pid"
    and "serves_reports cl (DATA_API @ ''/v1beta/properties/'' @ str_json pid @ '':runReport'') (request_body request) src up"
    and "up w"
  shows "\<exists>columns w'. ga4_execute cl duration (JObj config) request limits w =
    (Inr (api_result ''ga4-data-v1beta'' duration columns (take (nat (g_row_cap limits)) src)
       (nat (g_row_cap limits) < length src \<and> \<not> GA4_PAGE_SIZE dvd nat (g_row_cap limits))), w')"
proof -
  note loop = paged_source.loop_exact [OF ga4_fetch_paged [OF assms(5)] assms(6), of "[]" "nat (g_row_cap limits)" "[]"]
  show ?thesis
    using loop assms(1-4)
    by (auto simp: ga4_execute_def is_documented_def GA4_OPERATIONS_def py_item_def GA4_PAGE_SIZE_def)
qed


text \<open>Such a service over a fixed table\<close>

definition report_service :: "json list list \<Rightarrow> unit transport" where
  "report_service src request w =
     (let body = (case hr_body request of JObj kvs \<Rightarrow> kvs | _ \<Rightarrow> []);
          served = take (nat (int_of (member body ''limit''))) (drop (nat (int_of (member body ''offset''))) src)
      in (Answered 200 [] (JObj [(''dimensionHeaders'', JList [JObj [(''name'', JStr ''country'')]]), (''metricHeaders'', JList []),
            (''rows'', JList (map (\<lambda>row. JObj [(''dimensionValues'', JList (map (\<lambda>v. JObj [(''value'', v)]) row))]) served)),
            (''rowCount'', JInt (int (length src)))]), w))"

definition report_client :: "json list list \<Rightarrow> (unit, nat) api_client" where
  "report_client src = \<lparr>ac_transport = report_service src, ac_delays = [1, 2], ac_default_retry = 60, ac_texts = ga4_texts\<rparr>"

lemma ga4_rows_served:
  "res_map ga4_row (map (\<lambda>row. JObj [(''dimensionValues'', JList (map (\<lambda>v. JObj [(''value'', v)]) row))]) rows) = Inr rows"
proof -
  have "res_map (\<lambda>v. get_or v ''value'' JNull) (map (\<lambda>v. JObj [(''value'', v)]) row) = Inr row" for row
    by (induction row) simp_all
  then have "ga4_row (JObj [(''dimensionValues'', JList (map (\<lambda>v. JObj [(''value'', v)]) row))]) = Inr row" for row
    by (simp add: ga4_row_def cell_values_def)
  then show ?thesis by (induction rows) simp_all
qed

lemma report_service_serves: "serves_reports (report_client src) url body src (\<lambda>_. True)"
  by (auto simp: serves_reports_def report_client_def report_service_def request_of_def Let_def report_page_def ga4_rows_def
      ga4_rows_served Sdk_Providers.member_def int_of_def AList.update_conv ga4_columns_def header_columns_def)

interpretation reports: paged_source "ga4_fetch (report_client src) url body" ga4_rows Inr keep_columns ga4_ended src "\<lambda>_. True" GA4_PAGE_SIZE
  for src url body
  by (rule ga4_fetch_paged [OF report_service_serves])


theorem ga4_execute_exact_witness:
  "\<exists>columns w'. ga4_execute (report_client [[JStr ''TR''], [JStr ''DE'']]) 5 (JObj [(''property_id'', JStr ''42'')])
     country_report (default_guardrails\<lparr>g_row_cap := 1\<rparr>) () =
    (Inr (api_result ''ga4-data-v1beta'' 5 columns [[JStr ''TR'']] True), w')"
  using ga4_execute_exact [OF _ _ _ _ report_service_serves,
      of country_report "[(''property_id'', JStr ''42'')]" "JStr ''42''" "[[JStr ''TR''], [JStr ''DE'']]" 5
        "default_guardrails\<lparr>g_row_cap := 1\<rparr>"]
  by (simp add: country_report_def request_body_def Sdk_Providers.member_def default_guardrails_def GA4_PAGE_SIZE_def)

text \<open>The same for Search Console, whose pages carry the keys of a row and its four metrics\<close>

definition analytics_page :: "json list list \<Rightarrow> nat \<Rightarrow> nat \<Rightarrow> (string, json) dict \<Rightarrow> bool" where
  "analytics_page src k off page \<longleftrightarrow>
     dict_get page ''error'' = None \<and> (\<exists>items. gsc_items page = Inr items \<and> res_map gsc_row items = Inr (take k (drop off src)))"

definition serves_analytics ::
  "('w, 'd) api_client \<Rightarrow> string \<Rightarrow> (string, json) dict \<Rightarrow> json list list \<Rightarrow> ('w \<Rightarrow> bool) \<Rightarrow> bool" where
  "serves_analytics cl url body src up \<longleftrightarrow>
     (\<forall>w k off. up w \<and> 0 < k \<and> k \<le> GSC_PAGE_SIZE \<longrightarrow> (\<exists>headers page w'.
        ac_transport cl (request_of ''POST'' url JNull
          (JObj (dict_set ''startRow'' (JInt (int off)) (dict_set ''rowLimit'' (JInt (int k)) body)))) w
          = (Answered 200 headers (JObj page), w')
        \<and> up w' \<and> analytics_page src k off page))"

lemma gsc_fetch_paged:
  assumes "serves_analytics cl url body src up"
  shows "paged_source (gsc_fetch cl url body) gsc_items gsc_row (\<lambda>c _. Inr c) (\<lambda>_ _. False) src up GSC_PAGE_SIZE"
proof
  fix w k off assume "up w" "0 < k" "k \<le> GSC_PAGE_SIZE"
  then obtain headers page w' where t:
    "ac_transport cl (request_of ''POST'' url JNull
       (JObj (dict_set ''startRow'' (JInt (int off)) (dict_set ''rowLimit'' (JInt (int k)) body)))) w
       = (Answered 200 headers (JObj page), w')" "up w'" "analytics_page src k off page"
    using assms unfolding serves_analytics_def by meson
  have "gsc_fetch cl url body k off w = (Inr page, w')"
    unfolding gsc_fetch_def post_json_def
    using t(3) by (simp add: analytics_page_def json_call_ok [where send = "ac_transport cl _", OF t(1)])
  then show "\<exists>p w' items. gsc_fetch cl url body k off w = (Inr p, w') \<and> up w'
      \<and> gsc_items p = Inr items \<and> res_map gsc_row items = Inr (take k (drop off src))
      \<and> (\<forall>n. False \<longrightarrow> length src \<le> n) \<and> (\<forall>c. \<exists>c'. Inr c = Inr c')"
    using t(2,3) by (auto simp: analytics_page_def)
qed


text \<open>For a service that answers with the rows asked for, \<open>searchAnalytics.query\<close> with documented dimensions returns the rows up
  to the cap, in order, under the columns of the dimensions and the four metrics. The result says that it is truncated when
  there are more, unless the cap is a multiple of the largest page.\<close>
theorem gsc_execute_exact:
  assumes "er_dialect request = ''api''" and "er_operation request = JStr ''searchAnalytics.query''"
    and "dict_get (request_body request) ''dimensions'' = Some (JList (map JStr dims))" and "set dims \<subseteq> set FIXED_DIMENSIONS"
    and "truthy (member (request_body request) ''startDate'')" and "truthy (member (request_body request) ''endDate'')"
    and "site_path config = Inr site"
    and "serves_analytics cl (site @ ''/searchAnalytics/query'') (request_body request) src up" and "up w"
  shows "\<exists>w'. gsc_execute cl duration config request limits w =
    (Inr (api_result ''searchconsole-v3'' duration (gsc_columns (map JStr dims)) (take (nat (g_row_cap limits)) src)
       (nat (g_row_cap limits) < length src \<and> \<not> GSC_PAGE_SIZE dvd nat (g_row_cap limits))), w')"
proof -
  have dims: "undocumented_dimensions (map JStr dims) = []"
    using assms(4) by (auto simp: undocumented_dimensions_def filter_empty_conv)
  have list: "py_iter (or_else (member (request_body request) ''dimensions'') (JList [])) = Inr (map JStr dims)"
    using assms(3) by (cases dims) (simp_all add: Sdk_Providers.member_def or_else_def)
  obtain w' where "page_loop GSC_PAGE_SIZE (gsc_fetch cl (site @ ''/searchAnalytics/query'') (request_body request)) gsc_items gsc_row
      (\<lambda>c _. Inr c) (\<lambda>_ _. False) (nat (g_row_cap limits)) () [] 0 w =
    (Inr ((), take (nat (g_row_cap limits)) src,
       nat (g_row_cap limits) < length src \<and> \<not> GSC_PAGE_SIZE dvd nat (g_row_cap limits)), w')"
    using paged_source.loop_exact [OF gsc_fetch_paged [OF assms(8)] assms(9), of "[]" "nat (g_row_cap limits)" "()"]
    by (auto simp: GSC_PAGE_SIZE_def)
  then show ?thesis
    using assms(1,2,5-7) by (simp add: gsc_execute_def is_documented_def GSC_OPERATIONS_def Let_def list dims)
qed

definition analytics_service :: "json list list \<Rightarrow> unit transport" where
  "analytics_service src request w =
     (let body = (case hr_body request of JObj kvs \<Rightarrow> kvs | _ \<Rightarrow> []);
          served = take (nat (int_of (member body ''rowLimit''))) (drop (nat (int_of (member body ''startRow''))) src)
      in (Answered 200 [] (JObj [(''rows'', JList (map (\<lambda>row. JObj ((''keys'', JList (take (length row - 4) row))
            # zip (map fst FIXED_METRICS) (drop (length row - 4) row))) served))]), w))"

definition analytics_client :: "json list list \<Rightarrow> (unit, nat) api_client" where
  "analytics_client src =
     \<lparr>ac_transport = analytics_service src, ac_delays = [1], ac_default_retry = 60, ac_texts = gsc_texts\<rparr>"

definition analytics_row :: "json list \<Rightarrow> bool" where
  "analytics_row row \<longleftrightarrow> 4 \<le> length row"

lemma gsc_row_served:
  assumes "analytics_row row"
  shows "gsc_row (JObj ((''keys'', JList (take (length row - 4) row)) # zip (map fst FIXED_METRICS) (drop (length row - 4) row))) = Inr row"
proof -
  have len: "length (drop (length row - 4) row) = 4" using assms by (simp add: analytics_row_def)
  obtain a b c d where d: "drop (length row - 4) row = [a, b, c, d]"
    using len by (cases "drop (length row - 4) row" rule: remdups_adj.cases;
      cases "tl (tl (drop (length row - 4) row))" rule: remdups_adj.cases) simp_all
  have "row = take (length row - 4) row @ [a, b, c, d]" using append_take_drop_id [of "length row - 4" row] d by simp
  then show ?thesis unfolding d by (auto simp: gsc_row_def FIXED_METRICS_def or_else_def split: if_splits)
qed


lemma analytics_service_serves:
  assumes "list_all analytics_row src"
  shows "serves_analytics (analytics_client src) url body src (\<lambda>_. True)"
proof -
  have rows: "res_map gsc_row (map (\<lambda>row. JObj ((''keys'', JList (take (length row - 4) row))
      # zip (map fst FIXED_METRICS) (drop (length row - 4) row))) rows) = Inr rows" if "list_all analytics_row rows" for rows
    using that by (induction rows) (simp_all add: gsc_row_served del: take_Cons' drop_Cons')
  have "list_all analytics_row (take k (drop off src))" for k off
    using assms by (auto simp: list_all_iff dest: in_set_takeD in_set_dropD)
  note slice = rows [OF this]
  have items: "gsc_items [(''rows'', JList xs)] = Inr xs" for xs
    by (cases xs) (simp_all add: gsc_items_def Sdk_Providers.member_def or_else_def)
  show ?thesis
    by (auto simp: serves_analytics_def analytics_client_def analytics_service_def request_of_def Let_def analytics_page_def
        items slice Sdk_Providers.member_def int_of_def AList.update_conv)
qed

interpretation analytics: paged_source "gsc_fetch (analytics_client (filter analytics_row src)) url body" gsc_items gsc_row
    "\<lambda>c _. Inr c" "\<lambda>_ _. False" "filter analytics_row src" "\<lambda>_. True" GSC_PAGE_SIZE
  for src url body
  by (rule gsc_fetch_paged [OF analytics_service_serves]) (simp add: list_all_iff)

definition query_analytics :: execute_request where
  "query_analytics = \<lparr>er_dialect = ''api'', er_statement = JNull, er_params = [], er_operation = JStr ''searchAnalytics.query'',
     er_body = Some [(''dimensions'', JList [JStr ''query'']), (''startDate'', JStr ''2026-01-01''), (''endDate'', JStr ''2026-01-31'')]\<rparr>"

theorem gsc_execute_exact_witness:
  "\<exists>w'. gsc_execute (analytics_client [[JStr ''shoes'', JInt 3, JInt 40, JInt 0, JInt 2]]) 5
     (JObj [(''site_url'', JStr ''sc-domain:a.io'')]) query_analytics default_guardrails () =
    (Inr (api_result ''searchconsole-v3'' 5 (gsc_columns [JStr ''query'']) [[JStr ''shoes'', JInt 3, JInt 40, JInt 0, JInt 2]] False), w')"
  using gsc_execute_exact [OF _ _ _ _ _ _ _ analytics_service_serves,
      of query_analytics "[''query'']" "JObj [(''site_url'', JStr ''sc-domain:a.io'')]" _ "[[JStr ''shoes'', JInt 3, JInt 40, JInt 0, JInt 2]]"
        5 default_guardrails]
  by (simp add: query_analytics_def request_body_def Sdk_Providers.member_def default_guardrails_def GSC_PAGE_SIZE_def site_path_def
      FIXED_DIMENSIONS_def analytics_row_def)


section \<open>The requests a call makes\<close>

text \<open>The world after \<open>n\<close> requests, the answers to them, and whether an answer is tried again\<close>

definition world_after :: "('w \<Rightarrow> http_answer \<times> 'w) \<Rightarrow> nat \<Rightarrow> 'w \<Rightarrow> 'w" where
  "world_after send n = (snd \<circ> send) ^^ n"

definition answers :: "('w \<Rightarrow> http_answer \<times> 'w) \<Rightarrow> nat \<Rightarrow> 'w \<Rightarrow> http_answer list" where
  "answers send n w = map (\<lambda>i. fst (send (world_after send i w))) [0..<n]"

definition retried :: "api_texts \<Rightarrow> int \<Rightarrow> string \<Rightarrow> http_answer \<Rightarrow> bool" where
  "retried tx default_retry url answer = (case judge tx default_retry url answer of Again _ \<Rightarrow> True | Stop _ \<Rightarrow> False)"

definition final_result :: "api_texts \<Rightarrow> int \<Rightarrow> string \<Rightarrow> http_answer \<Rightarrow> (string, json) dict attempt" where
  "final_result tx default_retry url answer =
     (case judge tx default_retry url answer of Again e \<Rightarrow> Inl (Raised e) | Stop r \<Rightarrow> r)"

lemma world_after_simps [simp]: "world_after send 0 w = w" "world_after send (Suc n) w = world_after send n (snd (send w))"
  by (simp_all add: world_after_def funpow_swap1)

lemma answers_Suc: "answers send (Suc n) w = fst (send w) # answers send n (snd (send w))"
  by (simp add: answers_def map_upt_Suc del: upt_Suc)

text \<open>A call makes one request, and one more for every throttled or failed answer as long as the schedule has delays. Its result is
  what the last answer means, and an answer that is worth a retry ends the call only when the schedule is used up.\<close>
theorem json_call_exact:
  "\<exists>n last. n \<le> length delays \<and> answers send (Suc n) w = answers send n w @ [last]
     \<and> list_all (retried tx default_retry url) (answers send n w)
     \<and> (if n < length delays then \<not> retried tx default_retry url last else n = length delays)
     \<and> json_call tx default_retry send url delays w = (final_result tx default_retry url last, world_after send (Suc n) w)"
proof (induction delays arbitrary: w)
  case Nil
  show ?case
    by (intro exI [of _ 0] exI [of _ "fst (send w)"])
      (auto simp: json_call.simps answers_Suc final_result_def answers_def split: prod.splits verdict.splits)
next
  case (Cons d delays)
  obtain answer w' where s: "send w = (answer, w')" by fastforce
  show ?case
  proof (cases "judge tx default_retry url answer")
    case (Stop r)
    then show ?thesis
      by (intro exI [of _ 0] exI [of _ answer])
        (simp add: s json_call.simps answers_Suc final_result_def retried_def, simp add: answers_def)
  next
    case (Again e)
    obtain n last where n: "n \<le> length delays" "answers send (Suc n) w' = answers send n w' @ [last]"
      "list_all (retried tx default_retry url) (answers send n w')"
      "if n < length delays then \<not> retried tx default_retry url last else n = length delays"
      "json_call tx default_retry send url delays w' = (final_result tx default_retry url last, world_after send (Suc n) w')"
      using Cons.IH by blast
    have "json_call tx default_retry send url (d # delays) w = json_call tx default_retry send url delays w'"
      by (simp add: json_call.simps [of _ _ _ _ "d # delays"] s Again)
    moreover have "answers send (Suc (Suc n)) w = answers send (Suc n) w @ [last]"
      using n(2) by (simp add: answers_Suc s)
    moreover have "retried tx default_retry url answer" by (simp add: retried_def Again)
    ultimately show ?thesis
      using n(1,3-5) by (intro exI [of _ "Suc n"] exI [of _ last]) (simp add: answers_Suc s)
  qed
qed

text \<open>A request for Search Console with an operation or a dimension outside the documented surface never reaches the wire: it
  fails, and the world is as before.\<close>
theorem gsc_undocumented_stays_local:
  assumes "er_operation request \<noteq> JStr ''searchAnalytics.query''
    \<or> member (request_body request) ''dimensions'' = JList dims \<and> d \<in> set dims \<and> d \<notin> JStr ` set FIXED_DIMENSIONS"
  shows "\<exists>e. gsc_execute cl duration config request limits w = (Inl e, w)"
proof (cases "er_dialect request = ''api'' \<and> er_operation request = JStr ''searchAnalytics.query''")
  case True
  then have d: "member (request_body request) ''dimensions'' = JList dims" "d \<in> set dims" "d \<notin> JStr ` set FIXED_DIMENSIONS"
    using assms by auto
  have "py_iter (or_else (JList dims) (JList [])) = Inr dims" using d(2) by (simp add: or_else_def)
  moreover have "d \<in> set (undocumented_dimensions dims)"
    using d(2,3) by (auto simp: undocumented_dimensions_def split: json.splits)
  then have "undocumented_dimensions dims \<noteq> []" by auto
  ultimately show ?thesis
    using True d(1) by (simp add: gsc_execute_def Let_def is_documented_def GSC_OPERATIONS_def refuse_dimensions_def)
next
  case False
  then show ?thesis
    by (auto simp: gsc_execute_def Let_def is_documented_def GSC_OPERATIONS_def split: json.splits)
qed

theorem gsc_undocumented_stays_local_witness:
  "\<exists>e. gsc_execute (analytics_client []) 5 (JObj []) (query_analytics\<lparr>er_body := Some [(''dimensions'', JList [JStr ''hostname''])]\<rparr>)
     default_guardrails () = (Inl e, ())"
  by (rule gsc_undocumented_stays_local [of _ "[JStr ''hostname'']" "JStr ''hostname''"])
    (simp add: query_analytics_def request_body_def Sdk_Providers.member_def FIXED_DIMENSIONS_def)

end
