(* ===== verification/Google_Metadata.thy ===== *)
theory Google_Metadata
  imports Google_Api
begin

text \<open>
  The metadata side of the Google connectors: the pure mapping of \<open>src/connectors/ga4/mapping.py\<close> from the two surfaces of
  GA4 to snapshot objects, the fixed schema of Search Console, and the \<open>preflight\<close> and \<open>introspect\<close> of
  \<open>ga4/connector.py\<close> and \<open>gsc/connector.py\<close>. Objects are the dicts the connectors hand to the SDK.
\<close>

section \<open>The mapping of GA4 (mapping.py)\<close>

definition DIMENSION_SCOPE_PREFIXES :: "(string, string) dict" where
  "DIMENSION_SCOPE_PREFIXES = [(''EVENT'', ''customEvent:''), (''USER'', ''customUser:''), (''ITEM'', ''customItem:'')]"

definition METRIC_SCOPE_PREFIXES :: "(string, string) dict" where
  "METRIC_SCOPE_PREFIXES = [(''EVENT'', ''customEvent:'')]"

definition CALCULATED_PREFIX :: string where
  "CALCULATED_PREFIX = ''calcMetric:''"

definition DIMENSION_DATA_TYPE :: string where
  "DIMENSION_DATA_TYPE = ''string''"

definition description_of :: "json \<Rightarrow> json attempt" where
  "description_of entry = res_bind (get_or entry ''description'' JNull) (\<lambda>d. Inr (or_else d JNull))"

definition api_object :: "string \<Rightarrow> string \<Rightarrow> json \<Rightarrow> json \<Rightarrow> (string, json) dict \<Rightarrow> json" where
  "api_object kind sch name description stats =
     JObj [(''kind'', JStr kind), (''schema'', JStr sch), (''name'', name), (''description'', description),
           (''columns'', JList []), (''keys'', JObj []), (''stats'', JObj stats)]"

definition origin :: "bool \<Rightarrow> string" where
  "origin custom = (if custom then ''custom'' else ''standard'')"

text \<open>\<open>prefix + value\<close> with a prefix that is text\<close>

definition prefixed :: "string \<Rightarrow> json \<Rightarrow> string attempt" where
  "prefixed prefix v = (case v of JStr s \<Rightarrow> Inr (prefix @ s) | _ \<Rightarrow> Inl (Escaping ''TypeError''))"

definition unrecognized_scope :: "string \<Rightarrow> json \<Rightarrow> json \<Rightarrow> failure" where
  "unrecognized_scope what scope param =
     Raised (ConnectorError (''unrecognized '' @ what @ '' scope '' @ repr_json scope @ '' for parameter '' @ repr_json param
       @ '' -- API surface changed beyond this connector version'') [])"

definition hashable :: "json \<Rightarrow> bool" where
  "hashable v = (case v of JList _ \<Rightarrow> False | JObj _ \<Rightarrow> False | _ \<Rightarrow> True)"

definition admin_api_name :: "(string, string) dict \<Rightarrow> string \<Rightarrow> json \<Rightarrow> string attempt" where
  "admin_api_name prefixes what row =
     res_bind (get_or row ''scope'' JNull) (\<lambda>scope.
       if \<not> hashable scope then Inl (Escaping ''TypeError'')
       else case (case scope of JStr s \<Rightarrow> dict_get prefixes s | _ \<Rightarrow> None) of
         None \<Rightarrow> res_bind (get_or row ''parameterName'' JNull) (\<lambda>param. Inl (unrecognized_scope what scope param))
       | Some prefix \<Rightarrow> res_bind (py_item row ''parameterName'') (prefixed prefix))"

definition by_name :: "(json \<Rightarrow> string attempt) \<Rightarrow> json list \<Rightarrow> (string, json) dict attempt" where
  "by_name name_of rows =
     res_bind (res_map (\<lambda>row. res_bind (name_of row) (\<lambda>name. Inr (name, row))) rows) (\<lambda>named. Inr (dict_of named))"

text \<open>What one entry of the metadata contributes besides its object: nothing, the custom definition it matches, or the
  disagreement of the two surfaces. The dash in the messages of the source is written \<open>--\<close>.\<close>

datatype surface = Dimensions | Metrics | Calculated

datatype sighting = Standard | Matched surface string | Torn string

fun surface_name :: "surface \<Rightarrow> string" where
  "surface_name Dimensions = ''customDimensions''"
| "surface_name Metrics = ''customMetrics''"
| "surface_name Calculated = ''calculatedMetrics''"

definition sight :: "surface \<Rightarrow> (string, json) dict \<Rightarrow> string \<Rightarrow> json \<Rightarrow> sighting" where
  "sight surf admin what name =
     (let torn = Torn (what @ '' '' @ str_json name @ '' is in Data API metadata but not Admin '' @ surface_name surf)
      in case name of JStr n \<Rightarrow> if dict_has admin n then Matched surf n else torn | _ \<Rightarrow> torn)"

definition read_dimension :: "(string, json) dict \<Rightarrow> json \<Rightarrow> (json \<times> sighting) attempt" where
  "read_dimension admin_dims entry =
     res_bind (py_item entry ''apiName'') (\<lambda>name.
     res_bind (get_or entry ''customDefinition'' JNull) (\<lambda>flag.
       let custom = truthy flag in
       if custom \<and> \<not> hashable name then Inl (Escaping ''TypeError'')
       else res_bind (description_of entry) (\<lambda>d.
         Inr (api_object ''api_dimension'' (origin custom) name d [(''data_type'', JStr DIMENSION_DATA_TYPE)],
              if custom then sight Dimensions admin_dims ''dimension'' name else Standard))))"

text \<open>A custom metric takes its formula or its scope from the definition it matches.\<close>

definition decorate :: "surface \<Rightarrow> (string, json) dict \<Rightarrow> string \<Rightarrow> string \<Rightarrow> ((string, json) dict \<times> sighting) attempt" where
  "decorate surf admin field name =
     (case dict_get admin name of
        None \<Rightarrow> Inr ([], sight surf admin ''metric'' (JStr name))
      | Some row \<Rightarrow> res_bind (py_item row field) (\<lambda>v. Inr ([(field, v)], sight surf admin ''metric'' (JStr name))))"

definition read_metric :: "(string, json) dict \<Rightarrow> (string, json) dict \<Rightarrow> json \<Rightarrow> (json \<times> sighting) attempt" where
  "read_metric admin_metrics admin_calcs metric =
     res_bind (py_item metric ''apiName'') (\<lambda>name.
     res_bind (get_or metric ''customDefinition'' JNull) (\<lambda>flag.
     res_bind (py_item metric ''type'') (\<lambda>ty.
     res_bind
       (if \<not> truthy flag then Inr ([], Standard)
        else case name of
          JStr n \<Rightarrow>
            if startswith n CALCULATED_PREFIX then decorate Calculated admin_calcs ''formula'' n
            else decorate Metrics admin_metrics ''scope'' n
        | _ \<Rightarrow> Inl (Escaping ''AttributeError'')) (\<lambda>(stats, s).
     res_bind (description_of metric) (\<lambda>d.
       Inr (api_object ''api_metric'' (origin (truthy flag)) name d ((''data_type'', ty) # stats), s))))))"

definition read_event :: "json \<Rightarrow> json attempt" where
  "read_event event =
     res_bind (get_or event ''custom'' JNull) (\<lambda>flag.
     res_bind (py_item event ''eventName'') (\<lambda>name.
       Inr (api_object ''api_event'' (origin (truthy flag)) name JNull [(''is_key_event'', JBool True)])))"

definition torn_of :: "sighting list \<Rightarrow> string list" where
  "torn_of ss = concat (map (\<lambda>s. case s of Torn msg \<Rightarrow> [msg] | _ \<Rightarrow> []) ss)"

definition seen_on :: "surface \<Rightarrow> sighting list \<Rightarrow> string list" where
  "seen_on surf ss = concat (map (\<lambda>s. case s of Matched u n \<Rightarrow> if u = surf then [n] else [] | _ \<Rightarrow> []) ss)"

definition unseen :: "surface \<Rightarrow> string \<Rightarrow> (string, json) dict \<Rightarrow> sighting list \<Rightarrow> string list" where
  "unseen surf what admin ss =
     map (\<lambda>name. what @ '' '' @ name @ '' is in Admin '' @ surface_name surf @ '' but not Data API metadata'')
       (sort (filter (\<lambda>name. name \<notin> set (seen_on surf ss)) (dict_keys admin)))"

definition entries_of :: "(string, json) dict \<Rightarrow> string \<Rightarrow> json list attempt" where
  "entries_of metadata k = py_iter (case dict_get metadata k of Some v \<Rightarrow> v | None \<Rightarrow> JList [])"

definition calculated_name :: "json \<Rightarrow> string attempt" where
  "calculated_name row = res_bind (py_item row ''calculatedMetricId'') (prefixed CALCULATED_PREFIX)"

definition build_objects ::
  "(string, json) dict \<Rightarrow> json list \<Rightarrow> json list \<Rightarrow> json list \<Rightarrow> json list \<Rightarrow> json list attempt" where
  "build_objects metadata custom_dimensions custom_metrics calculated_metrics key_events =
     res_bind (by_name (admin_api_name DIMENSION_SCOPE_PREFIXES ''custom-dimension'') custom_dimensions) (\<lambda>admin_dims.
     res_bind (by_name (admin_api_name METRIC_SCOPE_PREFIXES ''custom-metric'') custom_metrics) (\<lambda>admin_metrics.
     res_bind (by_name calculated_name calculated_metrics) (\<lambda>admin_calcs.
     res_bind (entries_of metadata ''dimensions'') (\<lambda>dims.
     res_bind (res_map (read_dimension admin_dims) dims) (\<lambda>read_dims.
     res_bind (entries_of metadata ''metrics'') (\<lambda>metrics.
     res_bind (res_map (read_metric admin_metrics admin_calcs) metrics) (\<lambda>read_metrics.
       let sightings = map snd (read_dims @ read_metrics);
           torn = torn_of sightings @ unseen Dimensions ''custom dimension'' admin_dims sightings
             @ unseen Metrics ''custom metric'' admin_metrics sightings
             @ unseen Calculated ''calculated metric'' admin_calcs sightings
       in if torn \<noteq> []
          then Inl (Raised (SourceUnavailable (''GA4 surfaces disagree (torn read across non-atomic API calls; ''
            @ ''retry will re-read both): '' @ join ''; '' torn) []))
          else res_bind (res_map read_event key_events) (\<lambda>events.
            Inr (map fst (read_dims @ read_metrics) @ events)))))))))"

definition source_properties :: "(string, json) dict \<Rightarrow> (string, json) dict attempt" where
  "source_properties property_resource =
     res_bind (py_item (JObj property_resource) ''name'') (\<lambda>name.
       Inr [(''property_id'', name), (''display_name'', member property_resource ''displayName''),
            (''time_zone'', member property_resource ''timeZone''), (''currency_code'', member property_resource ''currencyCode'')])"

section \<open>The metadata provider of GA4 (connector.py)\<close>

record api_introspection =
  ai_system_class :: string
  ai_objects :: "json list"
  ai_source_properties :: "(string, json) dict"

text \<open>Calls that may not return are of type \<open>option\<close>: following page tokens ends only when the service stops handing them out.\<close>

definition maybe_bind ::
  "('w \<Rightarrow> ('a attempt \<times> 'w) option) \<Rightarrow> ('a \<Rightarrow> 'w \<Rightarrow> ('b attempt \<times> 'w) option) \<Rightarrow> 'w \<Rightarrow> ('b attempt \<times> 'w) option" where
  "maybe_bind m f w =
     (case m w of
        None \<Rightarrow> None
      | Some (Inl e, w') \<Rightarrow> Some (Inl e, w')
      | Some (Inr a, w') \<Rightarrow> f a w')"

definition property_url :: "string \<Rightarrow> string \<Rightarrow> json \<Rightarrow> string" where
  "property_url base version pid = base @ ''/'' @ version @ ''/properties/'' @ str_json pid"

definition ga4_probe :: "('w, 'd) api_client \<Rightarrow> json \<Rightarrow> ('w, json) io" where
  "ga4_probe cl config =
     io_bind (io_lift (py_item config ''property_id'')) (\<lambda>pid.
     io_bind (get_json cl (property_url ADMIN_API ''v1beta'' pid) JNull) (\<lambda>prop.
       io_return (JObj [(''probed'', JBool True), (''credential_tested'', JBool True), (''property_id'', pid),
         (''display_name'', member prop ''displayName''), (''time_zone'', member prop ''timeZone'')])))"

definition ga4_introspect :: "('w, 'd) api_client \<Rightarrow> json \<Rightarrow> 'w \<Rightarrow> (api_introspection attempt \<times> 'w) option" where
  "ga4_introspect cl config =
     maybe_bind (Some \<circ> io_lift (py_item config ''property_id'')) (\<lambda>pid.
     maybe_bind (Some \<circ> get_json cl (property_url ADMIN_API ''v1beta'' pid) JNull) (\<lambda>prop.
     maybe_bind (Some \<circ> get_json cl (property_url DATA_API ''v1beta'' pid @ ''/metadata'') JNull) (\<lambda>metadata.
     maybe_bind (paginate cl (property_url ADMIN_API ''v1beta'' pid @ ''/customDimensions'') ''customDimensions'') (\<lambda>dims.
     maybe_bind (paginate cl (property_url ADMIN_API ''v1beta'' pid @ ''/customMetrics'') ''customMetrics'') (\<lambda>metrics.
     maybe_bind (paginate cl (property_url ADMIN_API ''v1alpha'' pid @ ''/calculatedMetrics'') ''calculatedMetrics'') (\<lambda>calcs.
     maybe_bind (paginate cl (property_url ADMIN_API ''v1beta'' pid @ ''/keyEvents'') ''keyEvents'') (\<lambda>events.
     maybe_bind (Some \<circ> io_lift (build_objects metadata dims metrics calcs events)) (\<lambda>objects.
     maybe_bind (Some \<circ> io_lift (source_properties prop)) (\<lambda>props.
       Some \<circ> io_return \<lparr>ai_system_class = ''api'', ai_objects = objects, ai_source_properties = props\<rparr>)))))))))"

section \<open>The metadata provider of Search Console (connector.py)\<close>

definition UNVERIFIED :: string where
  "UNVERIFIED = ''siteUnverifiedUser''"

definition fixed_schema_objects :: "json list" where
  "fixed_schema_objects =
     map (\<lambda>name. api_object ''api_dimension'' ''standard'' (JStr name) JNull [(''data_type'', JStr ''string'')]) FIXED_DIMENSIONS
     @ map (\<lambda>(name, data_type). api_object ''api_metric'' ''standard'' (JStr name) JNull [(''data_type'', JStr data_type)]) FIXED_METRICS"

definition unverified :: "json \<Rightarrow> failure" where
  "unverified site = Raised (SourceUnavailable (''property '' @ repr_json site
     @ '' is not verified for this service account; verify it in Search Console and retry'') [])"

definition unexpected_site :: "json \<Rightarrow> string \<Rightarrow> failure" where
  "unexpected_site site_url missing =
     Raised (SourceUnavailable (''sites.get returned an unexpected shape for '' @ repr_json site_url @ '' (missing '' @ missing @ '')'') [])"

definition is_text :: "json \<Rightarrow> bool" where
  "is_text v = (case v of JStr _ \<Rightarrow> True | _ \<Rightarrow> False)"

definition get_site :: "('w, 'd) api_client \<Rightarrow> json \<Rightarrow> ('w, json \<times> (string, json) dict) io" where
  "get_site cl config =
     io_bind (io_lift (py_item config ''site_url'')) (\<lambda>site_url.
     io_bind (io_lift (site_path config)) (\<lambda>url.
     io_bind (get_json cl url JNull) (\<lambda>site. io_return (site_url, site))))"

definition gsc_probe :: "('w, 'd) api_client \<Rightarrow> json \<Rightarrow> ('w, json) io" where
  "gsc_probe cl config =
     io_bind (get_site cl config) (\<lambda>(site_url, site).
       let permission = member site ''permissionLevel'';
           shown = (case dict_get site ''siteUrl'' of Some u \<Rightarrow> u | None \<Rightarrow> site_url) in
       if \<not> is_text permission then io_lift (Inl (unexpected_site site_url ''permissionLevel''))
       else if permission = JStr UNVERIFIED then io_lift (Inl (unverified shown))
       else io_return (JObj [(''probed'', JBool True), (''credential_tested'', JBool True), (''site_url'', shown),
         (''permission_level'', permission), (''verified'', JBool True)]))"

definition gsc_introspect :: "('w, 'd) api_client \<Rightarrow> json \<Rightarrow> ('w, api_introspection) io" where
  "gsc_introspect cl config =
     io_bind (get_site cl config) (\<lambda>(site_url, site).
       let permission = member site ''permissionLevel''; shown = member site ''siteUrl'' in
       if \<not> is_text shown \<or> \<not> is_text permission
       then io_lift (Inl (unexpected_site site_url ''siteUrl/permissionLevel''))
       else if permission = JStr UNVERIFIED then io_lift (Inl (unverified shown))
       else io_return \<lparr>ai_system_class = ''api'', ai_objects = fixed_schema_objects,
         ai_source_properties =
           [(''properties'', JList [JObj [(''site_url'', shown), (''permission_level'', permission),
               (''verified'', JBool (permission \<noteq> JStr UNVERIFIED))]]),
            (''data_freshness'', JObj [(''data_states'', JList (map JStr DATA_STATES))])]\<rparr>)"

section \<open>Following page tokens\<close>

text \<open>The pages a service hands out from a request on, with the world after the last one\<close>

inductive page_chain ::
  "('w, 'd) api_client \<Rightarrow> string \<Rightarrow> string \<Rightarrow> int \<Rightarrow> json \<Rightarrow> 'w \<Rightarrow> json list list \<Rightarrow> 'w \<Rightarrow> bool"
  for cl url items_key page_size where
  last_page: "get_json cl url params w = (Inr page, w') \<Longrightarrow> entries_of page items_key = Inr items \<Longrightarrow>
    \<not> truthy (member page ''nextPageToken'') \<Longrightarrow> page_chain cl url items_key page_size params w [items] w'"
| next_page: "get_json cl url params w = (Inr page, w') \<Longrightarrow> entries_of page items_key = Inr items \<Longrightarrow>
    truthy (member page ''nextPageToken'') \<Longrightarrow>
    page_chain cl url items_key page_size
      (JObj [(''pageSize'', JInt page_size), (''pageToken'', member page ''nextPageToken'')]) w' pages w'' \<Longrightarrow>
    page_chain cl url items_key page_size params w (items # pages) w''"

lemma paginate_from_chain:
  "page_chain cl url items_key page_size params w pages w' \<Longrightarrow>
   paginate_from cl url items_key page_size params items w = Some (Inr (items @ concat pages), w')"
proof (induction arbitrary: items rule: page_chain.induct)
  case last_page
  then show ?case by (subst paginate_from.simps) (simp add: entries_of_def Let_def)
next
  case next_page
  then show ?case by (subst paginate_from.simps) (simp add: entries_of_def Let_def)
qed

lemma chain_of_paginate:
  fixes cl :: "('w, 'd) api_client"
  assumes "paginate_from cl url items_key page_size params items w = Some (Inr result, w')"
  shows "\<exists>pages. page_chain cl url items_key page_size params w pages w' \<and> result = items @ concat pages"
proof -
  define P where "P cl url items_key page_size params items w r \<longleftrightarrow> (\<forall>result w'. r = (Inr result, w') \<longrightarrow>
      (\<exists>pages. page_chain cl url items_key page_size params w pages w' \<and> result = items @ concat pages))"
    for cl :: "('w, 'd) api_client" and url items_key page_size params items w and r :: "json list attempt \<times> 'w"
  have "P cl url items_key page_size params items w (Inr result, w')"
  proof (rule paginate_from.raw_induct [OF _ assms])
    fix continue :: "('w, 'd) api_client \<Rightarrow> string \<Rightarrow> string \<Rightarrow> int \<Rightarrow> json \<Rightarrow> json list \<Rightarrow> 'w \<Rightarrow> (json list attempt \<times> 'w) option"
    fix cl url items_key page_size params items w r
    assume IH: "\<And>cl url items_key page_size params items w r.
        continue cl url items_key page_size params items w = Some r \<Longrightarrow> P cl url items_key page_size params items w r"
      and body: "(case get_json cl url params w of (Inl e, w') \<Rightarrow> Some (Inl e, w')
      | (Inr page, w') \<Rightarrow>
          (case py_iter (case dict_get page items_key of None \<Rightarrow> JList [] | Some v \<Rightarrow> v) of
             Inl e \<Rightarrow> Some (Inl e, w')
           | Inr more_items \<Rightarrow>
               let token = member page ''nextPageToken'' in
               if \<not> truthy token then Some (Inr (items @ more_items), w')
               else continue cl url items_key page_size
                      (JObj [(''pageSize'', JInt page_size), (''pageToken'', token)]) (items @ more_items) w')) = Some r"
    show "P cl url items_key page_size params items w r" unfolding P_def
    proof (intro allI impI)
      fix result w' assume r: "r = (Inr result, w')"
      obtain page w1 where g: "get_json cl url params w = (Inr page, w1)"
        by (cases "get_json cl url params w"; cases "fst (get_json cl url params w)") (use body r in auto)
      obtain its where its: "entries_of page items_key = Inr its"
        by (cases "entries_of page items_key") (use body r g in \<open>auto simp: entries_of_def\<close>)
      note run = body [unfolded g prod.case sum.case its [unfolded entries_of_def] Let_def]
      show "\<exists>pages. page_chain cl url items_key page_size params w pages w' \<and> result = items @ concat pages"
      proof (cases "truthy (member page ''nextPageToken'')")
        case True
        obtain pages where pages: "page_chain cl url items_key page_size
            (JObj [(''pageSize'', JInt page_size), (''pageToken'', member page ''nextPageToken'')]) w1 pages w'"
          "result = (items @ its) @ concat pages"
          using IH [of cl url items_key page_size _ "items @ its" w1 r] run True r unfolding P_def by force
        show ?thesis by (rule exI [of _ "its # pages"]) (simp add: page_chain.next_page [OF g its True pages(1)] pages(2))
      next
        case False
        then show ?thesis using run r page_chain.last_page [OF g its False] by (intro exI [of _ "[its]"]) simp
      qed
    qed
  qed
  then show ?thesis unfolding P_def by blast
qed

text \<open>Following the page tokens returns a list exactly when the service hands out finitely many pages, and the list is the entries of
  those pages in order, the first one asked for without a token and each other one with the token of the page before.\<close>
theorem paginate_exact:
  "paginate cl url items_key w = Some (Inr items, w') \<longleftrightarrow>
   (\<exists>pages. page_chain cl url items_key 200 (JObj [(''pageSize'', JInt 200)]) w pages w' \<and> items = concat pages)"
  using chain_of_paginate [of cl url items_key 200 "JObj [(''pageSize'', JInt 200)]" "[]" w items w']
    paginate_from_chain [of cl url items_key 200 "JObj [(''pageSize'', JInt 200)]" w _ w' "[]"]
  by (auto simp: paginate_def)


section \<open>The two surfaces agree\<close>

text \<open>The names the custom entries of the metadata have, and the names the Admin API gives its definitions\<close>

definition custom_names :: "json list \<Rightarrow> json list" where
  "custom_names entries = concat (map (\<lambda>e. case e of
     JObj kvs \<Rightarrow> if truthy (member kvs ''customDefinition'') then [member kvs ''apiName''] else [] | _ \<Rightarrow> []) entries)"

definition is_calculated :: "json \<Rightarrow> bool" where
  "is_calculated name = (case name of JStr n \<Rightarrow> startswith n CALCULATED_PREFIX | _ \<Rightarrow> False)"

definition registered :: "(json \<Rightarrow> string attempt) \<Rightarrow> json list \<Rightarrow> json list" where
  "registered name_of rows = concat (map (\<lambda>row. case name_of row of Inr n \<Rightarrow> [JStr n] | Inl _ \<Rightarrow> []) rows)"

definition object_name :: "json \<Rightarrow> json" where
  "object_name v = (case v of JObj kvs \<Rightarrow> member kvs ''name'' | _ \<Rightarrow> JNull)"

definition entry_name :: "string \<Rightarrow> json \<Rightarrow> json" where
  "entry_name k v = (case v of JObj kvs \<Rightarrow> member kvs k | _ \<Rightarrow> JNull)"

lemma by_name_keys:
  assumes "by_name name_of rows = Inr admin"
  shows "JStr ` set (dict_keys admin) = set (registered name_of rows)"
proof -
  obtain named where named: "res_map (\<lambda>row. res_bind (name_of row) (\<lambda>name. Inr (name, row))) rows = Inr named" "admin = dict_of named"
    using assms by (auto simp: by_name_def res_bind_Inr_iff)
  have "fst ` set named = {n. \<exists>row\<in>set rows. name_of row = Inr n}"
    using named(1)
  proof (induction rows arbitrary: named)
    case (Cons row rows)
    then obtain n rest where "name_of row = Inr n" "named = (n, row) # rest"
      "res_map (\<lambda>row. res_bind (name_of row) (\<lambda>name. Inr (name, row))) rows = Inr rest"
      by (auto simp: res_bind_Inr_iff)
    with Cons.IH show ?case by auto
  qed simp
  moreover have "set (registered name_of rows) = JStr ` {n. \<exists>row\<in>set rows. name_of row = Inr n}"
    by (auto simp: registered_def split: sum.splits) force
  ultimately show ?thesis by (simp add: named(2) dict_of_keys_set)
qed

lemma object_name_api [simp]: "object_name (api_object kind sch name d stats) = name"
  by (simp add: object_name_def api_object_def Sdk_Providers.member_def)

lemma get_or_Inr: "get_or v k d = Inr x \<longleftrightarrow> (\<exists>kvs. v = JObj kvs \<and> x = (case dict_get kvs k of Some y \<Rightarrow> y | None \<Rightarrow> d))"
  by (cases v) (auto simp: get_or_def)

lemma py_item_Inr: "py_item v k = Inr x \<longleftrightarrow> (\<exists>kvs. v = JObj kvs \<and> dict_get kvs k = Some x)"
  by (cases v) (auto simp: py_item_def split: option.splits)

lemmas access_Inr = get_or_Inr py_item_Inr res_bind_Inr_iff

lemma sight_not_torn:
  "sight surf admin what name = Standard \<longleftrightarrow> False"
  "sight surf admin what name = Matched u n \<longleftrightarrow> u = surf \<and> name = JStr n \<and> dict_has admin n"
  by (auto simp: sight_def Let_def split: json.splits)

definition good_sight :: "surface \<Rightarrow> (string, json) dict \<Rightarrow> json \<Rightarrow> sighting \<Rightarrow> bool" where
  "good_sight surf admin name s \<longleftrightarrow> (case s of Torn _ \<Rightarrow> True | Matched u n \<Rightarrow> u = surf \<and> name = JStr n \<and> dict_has admin n | Standard \<Rightarrow> False)"

lemma read_dimension_Inr:
  assumes "read_dimension admin entry = Inr (ob, s)"
  shows "object_name ob = entry_name ''apiName'' entry
    \<and> (if custom_names [entry] = [] then s = Standard else custom_names [entry] = [object_name ob] \<and> good_sight Dimensions admin (object_name ob) s)"
  using assms
  by (auto simp: read_dimension_def access_Inr Let_def custom_names_def entry_name_def Sdk_Providers.member_def good_sight_def sight_def
      split: if_splits option.splits json.splits)

lemma decorate_good: "decorate surf admin field n = Inr (stats, s) \<Longrightarrow> good_sight surf admin (JStr n) s"
  by (auto simp: decorate_def res_bind_Inr_iff good_sight_def sight_def split: option.splits)

lemma read_metric_Inr:
  assumes "read_metric metrics calcs entry = Inr (ob, s)"
  shows "object_name ob = entry_name ''apiName'' entry
    \<and> (if custom_names [entry] = [] then s = Standard
       else custom_names [entry] = [object_name ob]
         \<and> good_sight (if is_calculated (object_name ob) then Calculated else Metrics)
             (if is_calculated (object_name ob) then calcs else metrics) (object_name ob) s)"
proof -
  obtain name flag ty stats d where r: "py_item entry ''apiName'' = Inr name" "get_or entry ''customDefinition'' JNull = Inr flag"
    "(if \<not> truthy flag then Inr ([], Standard)
      else case name of
        JStr n \<Rightarrow> if startswith n CALCULATED_PREFIX then decorate Calculated calcs ''formula'' n else decorate Metrics metrics ''scope'' n
      | _ \<Rightarrow> Inl (Escaping ''AttributeError'')) = Inr (stats, s)"
    "ob = api_object ''api_metric'' (origin (truthy flag)) name d ((''data_type'', ty) # stats)"
    using assms unfolding read_metric_def res_bind_Inr_iff by (auto simp: res_bind_Inr_iff simp del: not_None_eq)
  obtain kvs where e: "entry = JObj kvs" "dict_get kvs ''apiName'' = Some name" using r(1) by (auto simp: py_item_Inr)
  have flag: "flag = member kvs ''customDefinition''" using r(2) e(1) by (simp add: Sdk_Providers.member_def split: option.splits)
  have name: "object_name ob = name" by (simp add: r(4))
  show ?thesis
  proof (cases "truthy flag")
    case True
    then have "custom_names [entry] = [name]" using e flag by (simp add: custom_names_def Sdk_Providers.member_def)
    moreover obtain n where "name = JStr n" using r(3) True by (cases name) auto
    ultimately show ?thesis
      using r(3) True e name by (auto simp: is_calculated_def entry_name_def Sdk_Providers.member_def dest: decorate_good split: if_splits)
  next
    case False
    then show ?thesis using r(3) e flag name by (simp add: custom_names_def entry_name_def Sdk_Providers.member_def)
  qed
qed

lemma read_event_Inr: "read_event e = Inr ob \<Longrightarrow> object_name ob = entry_name ''eventName'' e"
  by (auto simp: read_event_def access_Inr entry_name_def Sdk_Providers.member_def)


lemma custom_names_Cons: "custom_names (e # es) = custom_names [e] @ custom_names es"
  by (simp add: custom_names_def)

lemma reads_agree:
  assumes step: "\<And>e ob s. read e = Inr (ob, s) \<Longrightarrow> object_name ob = entry_name ''apiName'' e
      \<and> (if custom_names [e] = [] then s = Standard
         else custom_names [e] = [object_name ob] \<and> good_sight (surf (object_name ob)) (admin (surf (object_name ob))) (object_name ob) s)"
    and reads: "res_map read entries = Inr reads" and "torn_of (map snd reads) = []"
  shows "map (\<lambda>r. object_name (fst r)) reads = map (entry_name ''apiName'') entries
    \<and> JStr ` set (seen_on u (map snd reads)) = {n \<in> set (custom_names entries). surf n = u}
    \<and> list_all (dict_has (admin u)) (seen_on u (map snd reads))"
  using assms(2,3)
proof (induction entries arbitrary: reads)
  case Nil
  then show ?case by (simp add: seen_on_def custom_names_def)
next
  case (Cons e entries)
  obtain ob s rest where r: "read e = Inr (ob, s)" "res_map read entries = Inr rest" "reads = (ob, s) # rest"
    using Cons.prems(1) by (auto simp: res_bind_Inr_iff)
  have t: "torn_of (map snd rest) = []" "\<And>msg. s \<noteq> Torn msg"
    using Cons.prems(2) r(3) by (auto simp: torn_of_def)
  note IH = Cons.IH [OF r(2) t(1)] and head = step [OF r(1)]
  show ?case
  proof (cases "custom_names [e] = []")
    case True
    then show ?thesis using IH head r(3) by (simp add: seen_on_def custom_names_Cons [of e entries])
  next
    case False
    then obtain n where s: "s = Matched (surf (object_name ob)) n" "object_name ob = JStr n" "dict_has (admin (surf (object_name ob))) n"
      "custom_names [e] = [object_name ob]"
      using head t(2) by (cases s) (auto simp: good_sight_def)
    have "seen_on u (map snd reads) = (if surf (JStr n) = u then [n] else []) @ seen_on u (map snd rest)"
      using s(2) by (simp add: r(3) s(1) seen_on_def)
    then show ?thesis using IH head s by (auto simp: r(3) custom_names_Cons [of e entries])
  qed
qed

lemma seen_on_append: "seen_on u (xs @ ys) = seen_on u xs @ seen_on u ys"
  by (simp add: seen_on_def)

lemma torn_of_append: "torn_of (xs @ ys) = torn_of xs @ torn_of ys"
  by (simp add: torn_of_def)

lemma dict_has_key: "dict_has d k \<longleftrightarrow> k \<in> set (dict_keys d)"
  by (simp add: dict_has_def dict_keys_def map_of_eq_None_iff)

lemma unseen_Nil: "unseen u what admin ss = [] \<longleftrightarrow> set (dict_keys admin) \<subseteq> set (seen_on u ss)"
proof -
  have "sort xs = [] \<longleftrightarrow> xs = []" for xs :: "string list" by (metis length_0_conv length_sort)
  then show ?thesis by (simp add: unseen_def filter_empty_conv subset_iff Ball_def)
qed

lemma build_objects_Inr:
  assumes "build_objects metadata cds cms ccs events = Inr objects"
    and "entries_of metadata ''dimensions'' = Inr dims" and "entries_of metadata ''metrics'' = Inr metrics"
  shows "\<exists>admin_dims admin_metrics admin_calcs read_dims read_metrics built.
    by_name (admin_api_name DIMENSION_SCOPE_PREFIXES ''custom-dimension'') cds = Inr admin_dims
    \<and> by_name (admin_api_name METRIC_SCOPE_PREFIXES ''custom-metric'') cms = Inr admin_metrics
    \<and> by_name calculated_name ccs = Inr admin_calcs
    \<and> res_map (read_dimension admin_dims) dims = Inr read_dims
    \<and> res_map (read_metric admin_metrics admin_calcs) metrics = Inr read_metrics
    \<and> torn_of (map snd read_dims @ map snd read_metrics) = []
    \<and> unseen Dimensions ''custom dimension'' admin_dims (map snd read_dims @ map snd read_metrics) = []
    \<and> unseen Metrics ''custom metric'' admin_metrics (map snd read_dims @ map snd read_metrics) = []
    \<and> unseen Calculated ''calculated metric'' admin_calcs (map snd read_dims @ map snd read_metrics) = []
    \<and> res_map read_event events = Inr built \<and> objects = map fst (read_dims @ read_metrics) @ built"
proof -
  note run = assms(1) [unfolded build_objects_def assms(2,3) res_bind_simps]
  obtain admin_dims where 1: "by_name (admin_api_name DIMENSION_SCOPE_PREFIXES ''custom-dimension'') cds = Inr admin_dims"
    using run by (cases "by_name (admin_api_name DIMENSION_SCOPE_PREFIXES ''custom-dimension'') cds") simp_all
  note run = run [unfolded 1 res_bind_simps]
  obtain admin_metrics where 2: "by_name (admin_api_name METRIC_SCOPE_PREFIXES ''custom-metric'') cms = Inr admin_metrics"
    using run by (cases "by_name (admin_api_name METRIC_SCOPE_PREFIXES ''custom-metric'') cms") simp_all
  note run = run [unfolded 2 res_bind_simps]
  obtain admin_calcs where 3: "by_name calculated_name ccs = Inr admin_calcs"
    using run by (cases "by_name calculated_name ccs") simp_all
  note run = run [unfolded 3 res_bind_simps]
  obtain read_dims where 4: "res_map (read_dimension admin_dims) dims = Inr read_dims"
    using run by (cases "res_map (read_dimension admin_dims) dims") simp_all
  note run = run [unfolded 4 res_bind_simps]
  obtain read_metrics where 5: "res_map (read_metric admin_metrics admin_calcs) metrics = Inr read_metrics"
    using run by (cases "res_map (read_metric admin_metrics admin_calcs) metrics") simp_all
  note run = run [unfolded 5 res_bind_simps Let_def map_append]
  obtain built where 6: "res_map read_event events = Inr built"
    using run by (cases "res_map read_event events") (simp_all split: if_splits)
  note run = run [unfolded 6 res_bind_simps]
  show ?thesis
    by (rule exI [of _ admin_dims], rule exI [of _ admin_metrics], rule exI [of _ admin_calcs], rule exI [of _ read_dims],
        rule exI [of _ read_metrics], rule exI [of _ built])
      (use run in \<open>simp add: 1 2 3 4 5 6 split: if_splits\<close>)
qed

definition on_surface :: "'a \<Rightarrow> 'a \<Rightarrow> 'a \<Rightarrow> surface \<Rightarrow> 'a" where
  "on_surface dims metrics calcs u = (case u of Dimensions \<Rightarrow> dims | Metrics \<Rightarrow> metrics | Calculated \<Rightarrow> calcs)"

lemma surfaces_agree:
  assumes reads: "res_map (read_dimension admin_dims) dims = Inr read_dims"
      "res_map (read_metric admin_metrics admin_calcs) metrics = Inr read_metrics"
    and torn: "torn_of (map snd read_dims @ map snd read_metrics) = []"
    and unseen: "unseen Dimensions what1 admin_dims (map snd read_dims @ map snd read_metrics) = []"
      "unseen Metrics what2 admin_metrics (map snd read_dims @ map snd read_metrics) = []"
      "unseen Calculated what3 admin_calcs (map snd read_dims @ map snd read_metrics) = []"
  shows "JStr ` set (dict_keys (on_surface admin_dims admin_metrics admin_calcs u)) = {n \<in> set (custom_names dims). Dimensions = u}
      \<union> {n \<in> set (custom_names metrics). (if is_calculated n then Calculated else Metrics) = u}"
    and "map object_name (map fst (read_dims @ read_metrics)) = map (entry_name ''apiName'') (dims @ metrics)"
proof -
  define admin where "admin = on_surface admin_dims admin_metrics admin_calcs"
  have t: "torn_of (map snd read_dims) = []" "torn_of (map snd read_metrics) = []" using torn by (simp_all add: torn_of_append)
  note d = reads_agree [where surf = "\<lambda>_. Dimensions" and admin = admin, OF _ reads(1) t(1)]
    and m = reads_agree [where surf = "\<lambda>n. if is_calculated n then Calculated else Metrics" and admin = admin, OF _ reads(2) t(2)]
  have D: "map (\<lambda>r. object_name (fst r)) read_dims = map (entry_name ''apiName'') dims
    \<and> JStr ` set (seen_on u (map snd read_dims)) = {n \<in> set (custom_names dims). Dimensions = u}
    \<and> list_all (dict_has (admin u)) (seen_on u (map snd read_dims))" for u
    by (rule d) (drule read_dimension_Inr, auto simp: admin_def on_surface_def split: if_splits)
  have admin_if: "(if c then admin_calcs else admin_metrics) = admin (if c then Calculated else Metrics)" for c
    by (simp add: admin_def on_surface_def)
  have M: "map (\<lambda>r. object_name (fst r)) read_metrics = map (entry_name ''apiName'') metrics
    \<and> JStr ` set (seen_on u (map snd read_metrics)) = {n \<in> set (custom_names metrics). (if is_calculated n then Calculated else Metrics) = u}
    \<and> list_all (dict_has (admin u)) (seen_on u (map snd read_metrics))" for u
    by (rule m) (drule read_metric_Inr, unfold admin_if, assumption)
  have "set (dict_keys (admin u)) \<subseteq> set (seen_on u (map snd read_dims)) \<union> set (seen_on u (map snd read_metrics))"
    using unseen by (cases u) (simp_all add: admin_def on_surface_def unseen_Nil seen_on_append)
  moreover have "list_all (dict_has (admin u)) (seen_on u (map snd read_dims) @ seen_on u (map snd read_metrics))"
    using D [of u] M [of u] by simp
  then have "set (seen_on u (map snd read_dims)) \<union> set (seen_on u (map snd read_metrics)) \<subseteq> set (dict_keys (admin u))"
    by (auto simp: list_all_iff dict_has_key)
  ultimately show "JStr ` set (dict_keys (on_surface admin_dims admin_metrics admin_calcs u)) = {n \<in> set (custom_names dims). Dimensions = u}
      \<union> {n \<in> set (custom_names metrics). (if is_calculated n then Calculated else Metrics) = u}"
    using D [of u] M [of u] unfolding admin_def [symmetric] by (metis image_Un subset_antisym)
  show "map object_name (map fst (read_dims @ read_metrics)) = map (entry_name ''apiName'') (dims @ metrics)"
    using D M by (simp add: o_def)
qed

text \<open>C14. Objects are built from the two surfaces of GA4 only when they agree: the custom dimensions, the custom metrics and the calculated
  metrics of the metadata are the ones the Admin API has registered. The objects are then one for each dimension, each metric
  and each key event, in that order and under its name.\<close>
theorem build_objects_agree:
  assumes "build_objects metadata cds cms ccs events = Inr objects"
    and "entries_of metadata ''dimensions'' = Inr dims" and "entries_of metadata ''metrics'' = Inr metrics"
  shows "set (custom_names dims) = set (registered (admin_api_name DIMENSION_SCOPE_PREFIXES ''custom-dimension'') cds)
    \<and> set (filter is_calculated (custom_names metrics)) = set (registered calculated_name ccs)
    \<and> set (filter (\<lambda>n. \<not> is_calculated n) (custom_names metrics))
        = set (registered (admin_api_name METRIC_SCOPE_PREFIXES ''custom-metric'') cms)
    \<and> map object_name objects = map (entry_name ''apiName'') (dims @ metrics) @ map (entry_name ''eventName'') events"
proof -
  from build_objects_Inr [OF assms]
  obtain admin_dims admin_metrics admin_calcs read_dims read_metrics built where b:
    "by_name (admin_api_name DIMENSION_SCOPE_PREFIXES ''custom-dimension'') cds = Inr admin_dims"
    "by_name (admin_api_name METRIC_SCOPE_PREFIXES ''custom-metric'') cms = Inr admin_metrics"
    "by_name calculated_name ccs = Inr admin_calcs"
    "res_map (read_dimension admin_dims) dims = Inr read_dims"
    "res_map (read_metric admin_metrics admin_calcs) metrics = Inr read_metrics"
    "torn_of (map snd read_dims @ map snd read_metrics) = []"
    "unseen Dimensions ''custom dimension'' admin_dims (map snd read_dims @ map snd read_metrics) = []"
    "unseen Metrics ''custom metric'' admin_metrics (map snd read_dims @ map snd read_metrics) = []"
    "unseen Calculated ''calculated metric'' admin_calcs (map snd read_dims @ map snd read_metrics) = []"
    and events: "res_map read_event events = Inr built" and objects: "objects = map fst (read_dims @ read_metrics) @ built"
    by (elim exE conjE) (rule that)
  note agree = surfaces_agree [OF b(4-9)]
  have surfaces: "(if c then Calculated else Metrics) = Calculated \<longleftrightarrow> c" "(if c then Calculated else Metrics) = Metrics \<longleftrightarrow> \<not> c"
    "(if c then Calculated else Metrics) \<noteq> Dimensions" for c
    by simp_all
  have "map object_name built = map (entry_name ''eventName'') events"
    using events by (induction events arbitrary: built) (auto simp: res_bind_Inr_iff dest: read_event_Inr)
  then show ?thesis
    using agree(1) [of Dimensions] agree(1) [of Metrics] agree(1) [of Calculated] agree(2)
    by (simp add: objects on_surface_def surfaces by_name_keys [OF b(1)] by_name_keys [OF b(2)] by_name_keys [OF b(3)])
qed


theorem build_objects_agree_witness:
  "set (custom_names [JObj [(''apiName'', JStr ''customEvent:plan''), (''customDefinition'', JBool True)], JObj [(''apiName'', JStr ''city'')]])
      = set (registered (admin_api_name DIMENSION_SCOPE_PREFIXES ''custom-dimension'')
          [JObj [(''scope'', JStr ''EVENT''), (''parameterName'', JStr ''plan'')]])"
proof -
  have "build_objects
      [(''dimensions'', JList [JObj [(''apiName'', JStr ''customEvent:plan''), (''customDefinition'', JBool True)], JObj [(''apiName'', JStr ''city'')]])]
      [JObj [(''scope'', JStr ''EVENT''), (''parameterName'', JStr ''plan'')]] [] [] [] =
    Inr [api_object ''api_dimension'' ''custom'' (JStr ''customEvent:plan'') JNull [(''data_type'', JStr ''string'')],
         api_object ''api_dimension'' ''standard'' (JStr ''city'') JNull [(''data_type'', JStr ''string'')]]"
    by code_simp
  from build_objects_agree [OF this] show ?thesis by (simp add: entries_of_def)
qed

end
