(* ===== verification/Pg_Executor.thy ===== *)
theory Pg_Executor
  imports Api_Io
begin

text \<open>
  The query executor of Postgres (\<open>src/connectors/postgres/executor.py\<close>): the choice of the execution DSN, the check that its role
  can write nothing, the text of intervals and arrays, the stream of rows up to the cap, and \<open>execute\<close> with its four walls.

  The database is a parameter: a record of functions that answer each call, given the calls made before it. The history of calls
  is the state, so a property can say what was asked before a statement is opened. Whatever the database answers, an error has
  its class and message. The refusal set of \<open>src/sqlval\<close> rests on sqlglot's parser and is a function from a statement to its findings.
\<close>

section \<open>The database\<close>

datatype pg_class =
    QueryCanceled | InsufficientPrivilege | ReadOnlySqlTransaction | UndefinedTable | UndefinedColumn | UndefinedFunction
  | SqlSyntaxError | OperationalError | OtherDbError string

record pg_error =
  pe_class :: pg_class
  pe_message :: string

datatype connect_failure = ProgrammingError | ConnectError string

datatype pg_call =
    Connect string int
  | ReadRole
  | ReadWriteGrants "string list" "string list"
  | ReadCreatable "string list"
  | ReadVersion
  | BeginReadOnly
  | SetTimeout int
  | PinReadOnly
  | OpenCursor string "json list"
  | Fetch nat
  | Rollback

text \<open>The row of \<open>pg_roles\<close>: the name and the attributes superuser, createdb, createrole, bypassrls\<close>

record pg_role =
  ro_name :: string
  ro_super :: bool
  ro_createdb :: bool
  ro_createrole :: bool
  ro_bypassrls :: bool

record pg_server =
  sv_connect :: "pg_call list \<Rightarrow> string \<Rightarrow> int \<Rightarrow> connect_failure option"
  sv_role :: "pg_call list \<Rightarrow> pg_error + pg_role option"
  sv_grants :: "pg_call list \<Rightarrow> pg_error + (string \<times> string \<times> string) list"
  sv_creatable :: "pg_call list \<Rightarrow> pg_error + string list"
  sv_version :: "pg_call list \<Rightarrow> pg_error + string"
  sv_set :: "pg_call list \<Rightarrow> pg_call \<Rightarrow> pg_error + unit"
  sv_open :: "pg_call list \<Rightarrow> string \<Rightarrow> json list \<Rightarrow> pg_error + (string \<times> int) list"
  sv_fetch :: "pg_call list \<Rightarrow> nat \<Rightarrow> pg_error + source_value list list"

type_synonym 'a db = "pg_call list \<Rightarrow> (pg_error + 'a) \<times> pg_call list"

definition ask :: "(pg_call list \<Rightarrow> pg_error + 'a) \<Rightarrow> pg_call \<Rightarrow> 'a db" where
  "ask answer call h = (answer h, h @ [call])"

definition db_return :: "'a \<Rightarrow> 'a db" where
  "db_return a h = (Inr a, h)"

definition db_bind :: "'a db \<Rightarrow> ('a \<Rightarrow> 'b db) \<Rightarrow> 'b db" where
  "db_bind m f h = (case m h of (Inl e, h') \<Rightarrow> (Inl e, h') | (Inr a, h') \<Rightarrow> f a h')"

section \<open>Connections and the role wall\<close>

definition SYSTEM_SCHEMAS :: "string list" where
  "SYSTEM_SCHEMAS = [''pg_catalog'', ''information_schema'', ''pg_toast'']"

definition WRITE_PRIVILEGES :: "string list" where
  "WRITE_PRIVILEGES = [''INSERT'', ''UPDATE'', ''DELETE'', ''TRUNCATE'', ''REFERENCES'', ''TRIGGER'']"

definition FETCH_BATCH :: nat where
  "FETCH_BATCH = 500"

definition connect_error :: "connect_failure \<Rightarrow> connector_error" where
  "connect_error e =
     (case e of
        ProgrammingError \<Rightarrow> ConfigError ''invalid postgres execution DSN (not echoed; check the config)'' []
      | ConnectError message \<Rightarrow>
          if contains_text ''password'' message \<or> contains_text ''authentication'' message
          then AuthError (''postgres authentication failed for the execution role ''
            @ ''(check the read-only execution role credentials)'') []
          else SourceUnavailable (''cannot reach postgres for execution: '' @ message) [])"

definition pg_connect :: "pg_server \<Rightarrow> string \<Rightarrow> int \<Rightarrow> (pg_call list, unit) io" where
  "pg_connect sv dsn timeout_s h =
     (let t = max 1 (min timeout_s 15) in
      (case sv_connect sv h dsn t of None \<Rightarrow> Inr () | Some e \<Rightarrow> Inl (Raised (connect_error e)), h @ [Connect dsn t]))"

definition execution_dsn :: "(string \<Rightarrow> string option) \<Rightarrow> (string, json) dict \<Rightarrow> string attempt" where
  "execution_dsn environ config =
     (case dict_get config ''execute_dsn'' of
        Some (JStr dsn) \<Rightarrow> Inr dsn
      | Some _ \<Rightarrow> Inl (Escaping ''TypeError'')
      | None \<Rightarrow>
          let env_var = member config ''execute_dsn_env'' in
          if \<not> truthy env_var
          then Inl (Raised (ConfigError (''postgres execution requires config.execute_dsn or config.execute_dsn_env ''
            @ ''(a dedicated read-only role, distinct from the introspection DSN -- see ''
            @ ''deploy/execution-role.sql)'') []))
          else case env_var of
            JStr name \<Rightarrow>
              (case environ name of
                 Some (c # cs) \<Rightarrow> Inr (c # cs)
               | _ \<Rightarrow> Inl (Raised (ConfigError (''environment variable '' @ py_repr name
                   @ '' (config.execute_dsn_env) is unset or empty'') [])))
          | _ \<Rightarrow> Inl (Escaping ''TypeError''))"

definition held_attributes :: "pg_role \<Rightarrow> string list" where
  "held_attributes r = map fst (filter snd [(''SUPERUSER'', ro_super r), (''CREATEDB'', ro_createdb r),
     (''CREATEROLE'', ro_createrole r), (''BYPASSRLS'', ro_bypassrls r)])"

text \<open>What the check finds; \<open>Refuse\<close> is \<open>RoleCheckFailed\<close>, a \<open>ConfigError\<close>.\<close>

datatype role_verdict = Refuse string | ReadOnlyRole string string

definition check_role_is_readonly :: "pg_server \<Rightarrow> role_verdict db" where
  "check_role_is_readonly sv =
     db_bind (ask (sv_role sv) ReadRole) (\<lambda>row.
       case row of
         None \<Rightarrow> db_return (Refuse ''cannot read pg_roles for the current execution role'')
       | Some r \<Rightarrow>
           let role = py_repr (ro_name r) in
           if held_attributes r \<noteq> []
           then db_return (Refuse (''execution role '' @ role @ '' holds '' @ join '', '' (held_attributes r)
             @ ''; execution requires a role with none of these (G3). Refusing to serve execution.''))
           else db_bind (ask (sv_grants sv) (ReadWriteGrants SYSTEM_SCHEMAS WRITE_PRIVILEGES)) (\<lambda>offending.
             if offending \<noteq> []
             then db_return (Refuse (''execution role '' @ role @ '' holds write grants (''
               @ join '', '' (map (\<lambda>(s, t, p). p @ '' on '' @ s @ ''.'' @ t) offending)
               @ ''); execution requires a role with SELECT only (G3). Refusing to serve execution.''))
             else db_bind (ask (sv_creatable sv) (ReadCreatable SYSTEM_SCHEMAS)) (\<lambda>creatable.
               if creatable \<noteq> []
               then db_return (Refuse (''execution role '' @ role @ '' holds CREATE on schema(s) '' @ join '', '' creatable
                 @ ''; execution requires a role that cannot create objects (G3). Refusing to serve execution.''))
               else db_bind (ask (sv_version sv) ReadVersion) (\<lambda>version. db_return (ReadOnlyRole (ro_name r) version)))))"

definition pg_class_name :: "pg_class \<Rightarrow> string" where
  "pg_class_name c =
     (case c of
        QueryCanceled \<Rightarrow> ''QueryCanceled'' | InsufficientPrivilege \<Rightarrow> ''InsufficientPrivilege''
      | ReadOnlySqlTransaction \<Rightarrow> ''ReadOnlySqlTransaction'' | UndefinedTable \<Rightarrow> ''UndefinedTable''
      | UndefinedColumn \<Rightarrow> ''UndefinedColumn'' | UndefinedFunction \<Rightarrow> ''UndefinedFunction''
      | SqlSyntaxError \<Rightarrow> ''SyntaxError'' | OperationalError \<Rightarrow> ''OperationalError'' | OtherDbError n \<Rightarrow> n)"

text \<open>The check as a call of its own: its database errors are not mapped.\<close>

definition role_facts :: "pg_server \<Rightarrow> (pg_call list, string \<times> string) io" where
  "role_facts sv h =
     (case check_role_is_readonly sv h of
        (Inl e, h') \<Rightarrow> (Inl (Escaping (pg_class_name (pe_class e))), h')
      | (Inr (Refuse msg), h') \<Rightarrow> (Inl (Raised (ConfigError msg [])), h')
      | (Inr (ReadOnlyRole role version), h') \<Rightarrow> (Inr (role, version), h'))"

definition pg_preflight :: "pg_server \<Rightarrow> (string \<Rightarrow> string option) \<Rightarrow> (string, json) dict \<Rightarrow> (pg_call list, json) io" where
  "pg_preflight sv environ config =
     io_bind (io_lift (execution_dsn environ config)) (\<lambda>dsn.
     io_bind (pg_connect sv dsn 10) (\<lambda>_.
     io_bind (role_facts sv) (\<lambda>(role, version).
       io_return (JObj [(''role'', JStr role), (''engine_version'', JStr version)]))))"

section \<open>The text of intervals and arrays\<close>

definition pg_interval :: "int \<Rightarrow> string" where
  "pg_interval us =
     (let sgn = (if us < 0 then ''-'' else []); n = nat \<bar>us\<bar>;
          days = n div 86400000000; rest = n mod 86400000000; secs = rest div 1000000; micros = rest mod 1000000;
          day_part = (if days = 0 then [] else [sgn @ show_nat days @ '' day'' @ (if days \<noteq> 1 then ''s'' else [])]);
          clock = sgn @ zero_padded 2 (secs div 3600) @ '':'' @ zero_padded 2 (secs mod 3600 div 60) @ '':'' @ zero_padded 2 (secs mod 60)
            @ (if micros = 0 then [] else rev (dropWhile (\<lambda>c. c = CHR ''0'') (rev (''.'' @ zero_padded 6 micros))))
      in join '' '' (day_part @ (if rest \<noteq> 0 \<or> day_part = [] then [clock] else [])))"

definition array_quotes :: "string \<Rightarrow> bool" where
  "array_quotes s \<longleftrightarrow> s = [] \<or> map to_lower s = ''null'' \<or> (\<exists>c\<in>set s. c \<in> set [CHR ''{'', CHR ''}'', CHR '','', CHR 0x22, CHR 0x5c, CHR '' ''])"

definition array_escape :: "string \<Rightarrow> string" where
  "array_escape s = concat (map (\<lambda>c. if c = CHR 0x22 \<or> c = CHR 0x5c then [CHR 0x5c, c] else [c]) s)"

fun pg_item :: "source_value \<Rightarrow> string" where
  "pg_item VNone = ''NULL''"
| "pg_item (VList vs) = ''{'' @ join '','' (map pg_item vs) @ ''}''"
| "pg_item (VTuple vs) = ''{'' @ join '','' (map pg_item vs) @ ''}''"
| "pg_item v = (let s = str_json (json_value v) in if array_quotes s then CHR 0x22 # array_escape s @ [CHR 0x22] else s)"

definition PASSTHROUGH_TYPES :: "string list" where
  "PASSTHROUGH_TYPES = [''json'', ''jsonb'']"

definition encode_value :: "bool \<Rightarrow> source_value \<Rightarrow> json" where
  "encode_value native v =
     (if native then json_value v
      else case v of
        VList _ \<Rightarrow> JStr (pg_item v)
      | VTuple _ \<Rightarrow> JStr (pg_item v)
      | VInterval us \<Rightarrow> JStr (pg_interval us)
      | _ \<Rightarrow> json_value v)"

definition encode_row :: "bool list \<Rightarrow> source_value list \<Rightarrow> json list" where
  "encode_row native record = map2 encode_value native record"

section \<open>The stream of rows\<close>

definition type_name :: "(int \<Rightarrow> string option) \<Rightarrow> int \<Rightarrow> string" where
  "type_name registry oid = (case registry oid of Some n \<Rightarrow> n | None \<Rightarrow> ''oid:'' @ show_int oid)"

fun take_batch :: "('i \<Rightarrow> 'r) \<Rightarrow> nat \<Rightarrow> 'r list \<Rightarrow> 'i list \<Rightarrow> 'r list \<times> bool" where
  "take_batch enc cap rows [] = (rows, False)"
| "take_batch enc cap rows (i # items) =
     (if cap \<le> length rows then (rows, True) else take_batch enc cap (rows @ [enc i]) items)"

lemma take_batch_eq:
  "length rows \<le> cap \<Longrightarrow>
   take_batch enc cap rows items = (rows @ map enc (take (cap - length rows) items), cap < length rows + length items)"
proof (induction items arbitrary: rows)
  case (Cons i items)
  show ?case
  proof (cases "cap \<le> length rows")
    case False
    then have "take (cap - length rows) (i # items) = i # take (cap - Suc (length rows)) items"
      by (metis Suc_diff_Suc not_le take_Suc_Cons)
    then show ?thesis using Cons.IH [of "rows @ [enc i]"] False by simp
  qed (use Cons.prems in auto)
qed simp

lemma batch_progress:
  "take_batch enc cap rows items = (rows', False) \<Longrightarrow> items \<noteq> [] \<Longrightarrow> length rows \<le> cap \<Longrightarrow>
   cap - length rows' < cap - length rows"
  by (simp add: take_batch_eq) (cases items, auto)

text \<open>The loop asks for one row beyond the cap; when it comes it is dropped and sets the flag.\<close>

function stream_rows :: "pg_server \<Rightarrow> bool list \<Rightarrow> nat \<Rightarrow> json list list \<Rightarrow> (json list list \<times> bool) db" where
  "stream_rows sv native cap rows h =
     (if cap < length rows then (Inr (rows, False), h)
      else let n = min FETCH_BATCH (cap + 1 - length rows) in
        case ask (\<lambda>h. sv_fetch sv h n) (Fetch n) h of
          (Inl e, h') \<Rightarrow> (Inl e, h')
        | (Inr batch, h') \<Rightarrow>
            if batch = [] then (Inr (rows, False), h')
            else case take_batch (encode_row native) cap rows batch of (rows', truncated) \<Rightarrow>
              if truncated then (Inr (rows', True), h') else stream_rows sv native cap rows' h')"
  by pat_completeness auto
termination
proof (relation "measure (\<lambda>(sv, native, cap, rows, h). cap - length rows)", goal_cases)
  case 2
  then show ?case unfolding in_measure prod.case by (intro batch_progress) (auto dest: sym)
qed simp

declare stream_rows.simps [simp del]

definition stream ::
  "pg_server \<Rightarrow> (int \<Rightarrow> string option) \<Rightarrow> string \<Rightarrow> json list \<Rightarrow> nat \<Rightarrow> (json list \<times> json list list \<times> bool) db" where
  "stream sv registry statement params cap =
     db_bind (ask (\<lambda>h. sv_open sv h statement params) (OpenCursor statement params)) (\<lambda>description.
       let types = map (\<lambda>(_, oid). type_name registry oid) description;
           columns = map2 (\<lambda>(name, _) ty. JObj [(''name'', JStr name), (''type'', JStr ty)]) description types
       in db_bind (stream_rows sv (map (\<lambda>ty. ty \<in> set PASSTHROUGH_TYPES) types) cap []) (\<lambda>(rows, truncated).
            db_return (columns, rows, truncated)))"

section \<open>Execution\<close>

definition guarded_stream ::
  "pg_server \<Rightarrow> (int \<Rightarrow> string option) \<Rightarrow> string \<Rightarrow> json list \<Rightarrow> guardrails \<Rightarrow> (json list \<times> json list list \<times> bool) db" where
  "guarded_stream sv registry tagged params limits =
     (let seconds = g_timeout_s limits in
      db_bind (ask (\<lambda>h. sv_set sv h BeginReadOnly) BeginReadOnly) (\<lambda>_.
      db_bind (ask (\<lambda>h. sv_set sv h (SetTimeout (seconds * 1000))) (SetTimeout (seconds * 1000))) (\<lambda>_.
      db_bind (ask (\<lambda>h. sv_set sv h PinReadOnly) PinReadOnly) (\<lambda>_.
      db_bind (stream sv registry tagged params (nat (g_row_cap limits))) (\<lambda>result h.
        (Inr result, h @ [Rollback]))))))"

definition text_or_none :: "string option \<Rightarrow> json" where
  "text_or_none v = (case v of Some s \<Rightarrow> JStr s | None \<Rightarrow> JNull)"

text \<open>The mapping of the handlers. A lost connection is not rolled back, and an error no handler names leaves the frame.\<close>

definition execution_failure :: "guardrails \<Rightarrow> pg_error \<Rightarrow> failure" where
  "execution_failure limits e =
     (let msg = pe_message e in
      case pe_class e of
        QueryCanceled \<Rightarrow> Raised (GuardrailViolation (''query exceeded the '' @ show_int (g_timeout_s limits) @ ''s statement timeout'')
          ''timeout'' [(''timeout_s'', JInt (g_timeout_s limits))])
      | InsufficientPrivilege \<Rightarrow> Raised (GuardrailViolation
          (''the execution role is not permitted to run this statement: '' @ msg) ''permission_denied_at_source'' [])
      | ReadOnlySqlTransaction \<Rightarrow> Raised (GuardrailViolation
          (''write attempted on the read-only execution surface: '' @ msg) ''permission_denied_at_source'' [])
      | SqlSyntaxError \<Rightarrow> Raised (GuardrailViolation (''postgres rejected the statement: '' @ msg) ''syntax_error'' [])
      | OperationalError \<Rightarrow> Raised (SourceUnavailable (''lost postgres connection mid-execution: '' @ msg) [])
      | OtherDbError n \<Rightarrow> Escaping n
      | _ \<Rightarrow> Raised (GuardrailViolation (''statement references an object the live schema lacks: '' @ msg) ''schema_mismatch''
          [(''validated_against'', text_or_none (g_validated_against limits))]))"

definition rolls_back :: "pg_class \<Rightarrow> bool" where
  "rolls_back c = (case c of OperationalError \<Rightarrow> False | OtherDbError _ \<Rightarrow> False | _ \<Rightarrow> True)"

definition handled ::
  "guardrails \<Rightarrow> 'a db \<Rightarrow> (pg_call list, 'a) io" where
  "handled limits m h =
     (case m h of
        (Inr a, h') \<Rightarrow> (Inr a, h')
      | (Inl e, h') \<Rightarrow>
          (Inl (execution_failure limits e), if rolls_back (pe_class e) then h' @ [Rollback] else h'))"

text \<open>\<open>refusals\<close> gives the findings of \<open>check_statement_class\<close>.\<close>

definition pg_execute ::
  "pg_server \<Rightarrow> (int \<Rightarrow> string option) \<Rightarrow> (string \<Rightarrow> json list) \<Rightarrow> (string \<Rightarrow> string) \<Rightarrow> (string \<Rightarrow> string option) \<Rightarrow> int
     \<Rightarrow> (string, json) dict \<Rightarrow> execute_request \<Rightarrow> guardrails \<Rightarrow> caller \<Rightarrow> (pg_call list, execute_result) io" where
  "pg_execute sv registry refusals sha environ duration config request limits identity =
     (if er_dialect request \<noteq> ''sql''
      then io_raise (ConfigError (''postgres executes the sql dialect, got '' @ py_repr (er_dialect request)) [])
      else case er_statement request of
        JStr statement \<Rightarrow>
          if strip statement = []
          then io_raise (ConfigError ''request.statement (non-empty string) required'' [])
          else (case refusals statement of
            first # rest \<Rightarrow>
              io_bind (io_lift (py_item first ''message'')) (\<lambda>message.
                io_raise (GuardrailViolation (''statement refused by the executor's local check: '' @ str_json message)
                  ''statement_class'' [(''findings'', JList (first # rest))]))
          | [] \<Rightarrow>
              io_bind (io_lift (execution_dsn environ config)) (\<lambda>dsn.
              io_bind (io_lift (case comment_tag sha identity of Some t \<Rightarrow> Inr t | None \<Rightarrow> Inl (Escaping ''TypeError''))) (\<lambda>tag.
              io_bind (pg_connect sv dsn (g_timeout_s limits)) (\<lambda>_.
              io_bind (role_facts sv) (\<lambda>(role, version).
              io_bind (handled limits (guarded_stream sv registry (tag @ CHR 0x0a # statement) (er_params request) limits))
                (\<lambda>(columns, rows, truncated).
                  io_return \<lparr>xr_columns = columns, xr_rows = map (map of_json) rows, xr_row_count = int (length rows),
                    xr_truncated = truncated, xr_duration_ms = duration,
                    xr_source = [(''executed_on'', JStr ''primary''), (''engine_version'', JStr version), (''role'', JStr role)]\<rparr>))))))
      | _ \<Rightarrow> io_raise (ConfigError ''request.statement (non-empty string) required'' []))"


section \<open>Rows up to the cap\<close>

text \<open>How many rows have been asked for since the cursor was opened. A server-side cursor over \<open>src\<close> answers with the next rows.\<close>

definition asked :: "pg_call list \<Rightarrow> nat" where
  "asked h = foldl (\<lambda>k call. case call of OpenCursor _ _ \<Rightarrow> 0 | Fetch n \<Rightarrow> k + n | _ \<Rightarrow> k) 0 h"

definition cursor_over :: "pg_server \<Rightarrow> source_value list list \<Rightarrow> bool" where
  "cursor_over sv src \<longleftrightarrow> (\<forall>h n. sv_fetch sv h n = Inr (take n (drop (asked h) src)))"

lemma asked_simps [simp]:
  "asked (h @ [Fetch n]) = asked h + n" "asked (h @ [OpenCursor s ps]) = 0" "asked [] = 0"
  by (simp_all add: asked_def)

lemma stream_rows_exact:
  assumes "cursor_over sv src" and "rows = map (encode_row native) (take (length rows) src)"
    and "min (asked h) (length src) = length rows" and "length rows \<le> cap"
  shows "\<exists>h'. stream_rows sv native cap rows h = (Inr (map (encode_row native) (take cap src), cap < length src), h')"
  using assms
proof (induction "cap - length rows" arbitrary: rows h rule: less_induct)
  case less
  define n where "n = min FETCH_BATCH (cap + 1 - length rows)"
  define batch where "batch = take n (drop (length rows) src)"
  have n: "0 < n" "n \<le> cap + 1 - length rows" using less.prems(4) by (auto simp: n_def FETCH_BATCH_def)
  have le: "length rows \<le> length src" using less.prems(3) by simp
  have "drop (asked h) src = drop (length rows) src"
    using less.prems(3) by (cases "asked h \<le> length src") (simp_all add: min_def split: if_splits)
  then have fetch: "sv_fetch sv h n = Inr batch" using less.prems(1) by (simp add: cursor_over_def batch_def)
  have len: "length batch = min n (length src - length rows)" by (simp add: batch_def)
  define kept where "kept = rows @ map (encode_row native) (take (cap - length rows) batch)"
  have step: "stream_rows sv native cap rows h =
      (if batch = [] then (Inr (rows, False), h @ [Fetch n])
       else if cap < length rows + length batch then (Inr (kept, True), h @ [Fetch n])
       else stream_rows sv native cap kept (h @ [Fetch n]))"
    using less.prems(4)
    by (intro trans [OF stream_rows.simps])
      (simp add: ask_def Let_def fetch take_batch_eq kept_def flip: n_def [simplified])
  have kept: "kept = map (encode_row native) (take (min cap (length rows + length batch)) src)"
  proof -
    have "kept = map (encode_row native) (take (length rows) src @ take (cap - length rows) batch)"
      using less.prems(2) by (simp add: kept_def)
    also have "take (cap - length rows) batch = take (min (cap - length rows) (length batch)) (drop (length rows) src)"
      using len by (simp add: batch_def min_def)
    also have "take (length rows) src @ \<dots> = take (length rows + min (cap - length rows) (length batch)) src" by (simp add: take_add)
    finally show ?thesis using less.prems(4) by (simp add: min_add_distrib_right)
  qed
  consider (none) "batch = []" | (cut) "cap < length rows + length batch" | (go) "batch \<noteq> []" "length rows + length batch \<le> cap"
    by fastforce
  then show ?case
  proof cases
    case none
    then have l: "length src = length rows" using len n le by simp
    then have "rows = map (encode_row native) (take cap src)" using less.prems(2,4) by (metis le_refl order.trans take_all)
    moreover have "\<not> cap < length src" using l less.prems(4) by simp
    ultimately show ?thesis unfolding step if_P [OF none] by (intro exI [of _ "h @ [Fetch n]"]) (simp only: simp_thms)
  next
    case cut
    then have "batch \<noteq> []" using less.prems(4) by auto
    moreover have "cap < length src" "kept = map (encode_row native) (take cap src)" using cut kept len le by simp_all
    ultimately show ?thesis using step cut by simp
  next
    case go
    have kl: "length kept = length rows + length batch" using kept go len le by simp
    have "min (asked (h @ [Fetch n])) (length src) = length kept"
      using less.prems(3) len kl le by auto
    moreover have "kept = map (encode_row native) (take (length kept) src)" using kept kl go by simp
    ultimately show ?thesis
      using less.hyps [of kept "h @ [Fetch n]"] less.prems(1) go kl step by (cases batch) auto
  qed
qed


section \<open>The four walls\<close>

lemma stream_rows_history:
  "\<exists>sizes. snd (stream_rows sv native cap rows h) = h @ map Fetch sizes"
proof (induction "cap - length rows" arbitrary: rows h rule: less_induct)
  case less
  define n where "n = min FETCH_BATCH (cap + 1 - length rows)"
  consider (over) "cap < length rows" | (failed) e where "\<not> cap < length rows" "sv_fetch sv h n = Inl e"
    | (last) "\<not> cap < length rows" "sv_fetch sv h n = Inr []"
    | (batch) batch rows' truncated where "\<not> cap < length rows" "sv_fetch sv h n = Inr batch" "batch \<noteq> []"
        "take_batch (encode_row native) cap rows batch = (rows', truncated)"
    by (metis sum.exhaust surj_pair)
  then show ?case
  proof cases
    case batch
    note run = stream_rows.simps [of sv native cap rows h]
    show ?thesis
    proof (cases truncated)
      case True
      then show ?thesis using batch
        by (simp add: run ask_def Let_def flip: n_def [simplified]) (metis list.simps(8,9))
    next
      case False
      obtain sizes where "snd (stream_rows sv native cap rows' (h @ [Fetch n])) = (h @ [Fetch n]) @ map Fetch sizes"
        using less [OF batch_progress [OF _ batch(3)]] batch(1,4) False by (metis (full_types) not_less)
      then show ?thesis using batch False
        by (intro exI [of _ "n # sizes"]) (simp add: run ask_def Let_def flip: n_def [simplified])
    qed
  next
    case over
    then show ?thesis by (intro exI [of _ "[]"]) (simp add: stream_rows.simps [of sv native cap rows h])
  qed (intro exI [of _ "[n]"]; simp add: stream_rows.simps [of sv native cap rows h] ask_def Let_def flip: n_def [simplified])+
qed

text \<open>The calls that lead to a statement, in order\<close>

definition walls :: "string \<Rightarrow> guardrails \<Rightarrow> pg_call list" where
  "walls dsn limits =
     [Connect dsn (max 1 (min (g_timeout_s limits) 15)), ReadRole, ReadWriteGrants SYSTEM_SCHEMAS WRITE_PRIVILEGES,
      ReadCreatable SYSTEM_SCHEMAS, ReadVersion, BeginReadOnly, SetTimeout (g_timeout_s limits * 1000), PinReadOnly]"

definition is_open :: "pg_call \<Rightarrow> bool" where
  "is_open call = (case call of OpenCursor _ _ \<Rightarrow> True | _ \<Rightarrow> False)"

definition read_only_role :: "pg_server \<Rightarrow> string \<Rightarrow> guardrails \<Rightarrow> bool" where
  "read_only_role sv dsn limits \<longleftrightarrow>
     (\<exists>r. sv_role sv (take 1 (walls dsn limits)) = Inr (Some r) \<and> held_attributes r = [])
     \<and> sv_grants sv (take 2 (walls dsn limits)) = Inr [] \<and> sv_creatable sv (take 3 (walls dsn limits)) = Inr []"

lemma role_facts_walls:
  assumes "role_facts sv [Connect dsn t] = (Inr facts, h)"
  shows "h = [Connect dsn t, ReadRole, ReadWriteGrants SYSTEM_SCHEMAS WRITE_PRIVILEGES, ReadCreatable SYSTEM_SCHEMAS, ReadVersion]
    \<and> (\<exists>r. sv_role sv [Connect dsn t] = Inr (Some r) \<and> held_attributes r = [] \<and> fst facts = ro_name r)
    \<and> sv_grants sv [Connect dsn t, ReadRole] = Inr []
    \<and> sv_creatable sv [Connect dsn t, ReadRole, ReadWriteGrants SYSTEM_SCHEMAS WRITE_PRIVILEGES] = Inr []"
  using assms
  by (auto simp: role_facts_def check_role_is_readonly_def db_bind_def db_return_def ask_def Let_def
      split: prod.splits sum.splits option.splits role_verdict.splits if_splits)

lemma role_facts_no_open: "filter is_open (snd (role_facts sv h)) = filter is_open h"
  by (auto simp: role_facts_def check_role_is_readonly_def db_bind_def db_return_def ask_def Let_def is_open_def
      split: prod.splits sum.splits option.splits role_verdict.splits if_splits)


lemma stream_history:
  "\<exists>sizes. snd (stream sv registry st ps cap h) = h @ OpenCursor st ps # map Fetch sizes"
proof (cases "sv_open sv h st ps")
  case (Inl e)
  then show ?thesis by (intro exI [of _ "[]"]) (simp add: stream_def db_bind_def ask_def)
next
  case (Inr description)
  define native where "native = map (\<lambda>ty. ty \<in> set PASSTHROUGH_TYPES) (map (\<lambda>(_, oid). type_name registry oid) description)"
  obtain sizes where s: "snd (stream_rows sv native cap [] (h @ [OpenCursor st ps])) = (h @ [OpenCursor st ps]) @ map Fetch sizes"
    using stream_rows_history by blast
  have "snd (stream sv registry st ps cap h) = snd (stream_rows sv native cap [] (h @ [OpenCursor st ps]))"
    by (simp add: stream_def db_bind_def ask_def Inr Let_def db_return_def flip: native_def [simplified] split: prod.splits sum.splits)
  then show ?thesis using s by auto
qed

lemma guarded_stream_history:
  assumes "OpenCursor st ps \<in> set (snd (guarded_stream sv registry tagged params limits h)) - set h"
  shows "st = tagged \<and> ps = params \<and> (\<exists>sizes rest. snd (guarded_stream sv registry tagged params limits h) =
    h @ [BeginReadOnly, SetTimeout (g_timeout_s limits * 1000), PinReadOnly] @ OpenCursor tagged params # map Fetch sizes @ rest
    \<and> (case fst (guarded_stream sv registry tagged params limits h) of Inl _ \<Rightarrow> rest = [] | Inr _ \<Rightarrow> rest = [Rollback]))"
proof -
  define h3 where "h3 = h @ [BeginReadOnly, SetTimeout (g_timeout_s limits * 1000), PinReadOnly]"
  obtain sizes where s: "snd (stream sv registry tagged params (nat (g_row_cap limits)) h3) = h3 @ OpenCursor tagged params # map Fetch sizes"
    using stream_history by blast
  have "guarded_stream sv registry tagged params limits h =
      (case stream sv registry tagged params (nat (g_row_cap limits)) h3 of
         (Inl e, h') \<Rightarrow> (Inl e, h') | (Inr x, h') \<Rightarrow> (Inr x, h' @ [Rollback]))"
    using assms
    by (auto simp: guarded_stream_def db_bind_def ask_def Let_def h3_def split: sum.splits if_splits)
  then show ?thesis using s assms
    by (auto simp: h3_def split: prod.splits sum.splits)
qed

lemma pg_execute_reaches:
  assumes "pg_execute sv registry refusals sha environ duration config request limits identity [] = (r, h)"
    and "OpenCursor st ps \<in> set h"
  obtains statement dsn tag t facts h1 gs where
    "er_statement request = JStr statement" "refusals statement = []" "execution_dsn environ config = Inr dsn"
    "comment_tag sha identity = Some tag" "t = max 1 (min (g_timeout_s limits) 15)"
    "role_facts sv [Connect dsn t] = (Inr facts, h1)"
    "gs = guarded_stream sv registry (tag @ CHR 0x0a # statement) (er_params request) limits h1"
    "h = (case gs of (Inr _, h') \<Rightarrow> h' | (Inl e, h') \<Rightarrow> if rolls_back (pe_class e) then h' @ [Rollback] else h')"
    "OpenCursor st ps \<in> set (snd gs) - set h1"
proof -
  note run = assms(1) [unfolded pg_execute_def]
  obtain statement where st: "er_dialect request = ''sql''" "er_statement request = JStr statement" "strip statement \<noteq> []"
    by (cases "er_statement request") (use run assms(2) in \<open>auto split: if_splits\<close>)
  note run = run [unfolded st(2) json.case, unfolded if_not_P [OF st(3)], simplified st(1), simplified]
  have clean: "refusals statement = []"
    by (cases "refusals statement") (use run assms(2) in \<open>auto simp: io_bind_def split: sum.splits\<close>)
  note run = run [unfolded clean list.case]
  obtain dsn where dsn: "execution_dsn environ config = Inr dsn"
    by (cases "execution_dsn environ config") (use run assms(2) in auto)
  obtain tag where tag: "comment_tag sha identity = Some tag"
    by (cases "comment_tag sha identity") (use run assms(2) dsn in auto)
  define t where "t = max 1 (min (g_timeout_s limits) 15)"
  have conn: "pg_connect sv dsn (g_timeout_s limits) [] = (Inr (), [Connect dsn t])"
    using run assms(2) dsn tag by (cases "sv_connect sv [] dsn t") (auto simp: pg_connect_def t_def io_bind_def)
  note run = run [unfolded dsn tag option.case, simplified, unfolded io_bind_simps(2) [where m = "pg_connect sv dsn (g_timeout_s limits)", OF conn]]
  have no_open: "OpenCursor st ps \<notin> set (snd (role_facts sv [Connect dsn t]))"
    using role_facts_no_open [of sv "[Connect dsn t]"] by (auto simp: is_open_def filter_empty_conv)
  obtain facts h1 where facts: "role_facts sv [Connect dsn t] = (Inr facts, h1)"
    by (cases "role_facts sv [Connect dsn t]"; cases "fst (role_facts sv [Connect dsn t])")
      (use run assms(2) no_open in \<open>auto simp: io_bind_def\<close>)
  obtain role version where "facts = (role, version)" by fastforce
  define gs where "gs = guarded_stream sv registry (tag @ CHR 0x0a # statement) (er_params request) limits h1"
  have h: "h = (case gs of (Inr _, h') \<Rightarrow> h' | (Inl e, h') \<Rightarrow> if rolls_back (pe_class e) then h' @ [Rollback] else h')"
    using run facts by (auto simp: io_bind_def handled_def gs_def split: prod.splits sum.splits)
  have opened: "OpenCursor st ps \<in> set (snd gs) - set h1"
    using h assms(2) no_open facts by (auto split: prod.splits sum.splits if_splits)
  show thesis by (rule that [OF st(2) clean dsn tag t_def facts gs_def h opened])
qed

text \<open>C10. Whatever the database answers, a statement is opened only after the walls, and each of them has held: it is the request's own
  statement under the caller's tag, with its parameters bound by the driver; the refusal set finds nothing in it; the role of the execution
  DSN has none of the four attributes, no write grant and no schema to create in; the transaction is read only and the
  timeout is the guardrail's. Nothing follows but fetches and the roll back.\<close>
theorem pg_execute_walls:
  assumes "pg_execute sv registry refusals sha environ duration config request limits identity [] = (r, h)"
    and "OpenCursor st ps \<in> set h"
  shows "\<exists>statement tag dsn sizes rest.
    er_statement request = JStr statement \<and> refusals statement = [] \<and> comment_tag sha identity = Some tag
    \<and> st = tag @ CHR 0x0a # statement \<and> ps = er_params request
    \<and> execution_dsn environ config = Inr dsn \<and> read_only_role sv dsn limits
    \<and> h = walls dsn limits @ OpenCursor st ps # map Fetch sizes @ rest \<and> rest \<in> {[], [Rollback]}"
proof -
  from assms obtain statement dsn tag t facts h1 gs where s: "er_statement request = JStr statement" "refusals statement = []"
      "execution_dsn environ config = Inr dsn" "comment_tag sha identity = Some tag" "t = max 1 (min (g_timeout_s limits) 15)"
    and facts: "role_facts sv [Connect dsn t] = (Inr facts, h1)"
    and gs: "gs = guarded_stream sv registry (tag @ CHR 0x0a # statement) (er_params request) limits h1"
    and h: "h = (case gs of (Inr _, h') \<Rightarrow> h' | (Inl e, h') \<Rightarrow> if rolls_back (pe_class e) then h' @ [Rollback] else h')"
    and opened: "OpenCursor st ps \<in> set (snd gs) - set h1"
    by (rule pg_execute_reaches)
  note h1 = role_facts_walls [OF facts]
  from guarded_stream_history [OF opened [unfolded gs]]
  obtain sizes rest where g: "st = tag @ CHR 0x0a # statement" "ps = er_params request"
    "snd gs = h1 @ [BeginReadOnly, SetTimeout (g_timeout_s limits * 1000), PinReadOnly] @ OpenCursor st ps # map Fetch sizes @ rest"
    "case fst gs of Inl _ \<Rightarrow> rest = [] | Inr _ \<Rightarrow> rest = [Rollback]"
    unfolding gs by auto
  have "\<exists>rest. h = walls dsn limits @ OpenCursor st ps # map Fetch sizes @ rest \<and> rest \<in> {[], [Rollback]}"
    using h g(3,4) h1 by (cases gs) (auto simp: walls_def s(5) split: sum.splits if_splits)
  moreover have "read_only_role sv dsn limits" using h1 by (auto simp: read_only_role_def walls_def s(5))
  ultimately show ?thesis using s(1-4) g(1,2) by blast
qed


text \<open>A database that lets the role in and runs the statement\<close>

definition admits :: "pg_server \<Rightarrow> string \<Rightarrow> pg_role \<Rightarrow> string \<Rightarrow> (string \<times> int) list \<Rightarrow> bool" where
  "admits sv dsn r version description \<longleftrightarrow>
     (\<forall>h t. sv_connect sv h dsn t = None) \<and> (\<forall>h. sv_role sv h = Inr (Some r)) \<and> held_attributes r = []
     \<and> (\<forall>h. sv_grants sv h = Inr [] \<and> sv_creatable sv h = Inr [] \<and> sv_version sv h = Inr version)
     \<and> (\<forall>h call. sv_set sv h call = Inr ()) \<and> (\<forall>h st ps. sv_open sv h st ps = Inr description)"

definition column_types :: "(int \<Rightarrow> string option) \<Rightarrow> (string \<times> int) list \<Rightarrow> string list" where
  "column_types registry description = map (\<lambda>(_, oid). type_name registry oid) description"

definition encoded :: "(int \<Rightarrow> string option) \<Rightarrow> (string \<times> int) list \<Rightarrow> source_value list list \<Rightarrow> source_value list list" where
  "encoded registry description rows =
     map (\<lambda>row. map of_json (encode_row (map (\<lambda>ty. ty \<in> set PASSTHROUGH_TYPES) (column_types registry description)) row)) rows"

text \<open>C13. For a database that admits the role and a cursor that yields the rows of the statement in turn, the result is the rows up to the
  cap, encoded, and it says that it is truncated exactly when there are more rows than the cap.\<close>
theorem pg_execute_exact:
  assumes "er_dialect request = ''sql''" and "er_statement request = JStr statement" and "strip statement \<noteq> []"
    and "refusals statement = []" and "execution_dsn environ config = Inr dsn" and "comment_tag sha identity = Some tag"
    and "admits sv dsn r version description" and "cursor_over sv src"
  shows "\<exists>columns h'. pg_execute sv registry refusals sha environ duration config request limits identity h =
    (Inr \<lparr>xr_columns = columns, xr_rows = encoded registry description (take (nat (g_row_cap limits)) src),
       xr_row_count = int (min (nat (g_row_cap limits)) (length src)), xr_truncated = nat (g_row_cap limits) < length src,
       xr_duration_ms = duration,
       xr_source = [(''executed_on'', JStr ''primary''), (''engine_version'', JStr version), (''role'', JStr (ro_name r))]\<rparr>, h')"
proof -
  define cap where "cap = nat (g_row_cap limits)"
  define native where "native = map (\<lambda>ty. ty \<in> set PASSTHROUGH_TYPES) (column_types registry description)"
  define t where "t = max 1 (min (g_timeout_s limits) 15)"
  have a: "sv_connect sv h dsn t = None" "sv_role sv h = Inr (Some r)" "held_attributes r = []" "sv_grants sv h = Inr []"
    "sv_creatable sv h = Inr []" "sv_version sv h = Inr version" "sv_set sv h call = Inr ()" "sv_open sv h st ps = Inr description"
    for h call st ps t using assms(7) by (simp_all add: admits_def)
  have conn: "pg_connect sv dsn (g_timeout_s limits) h = (Inr (), h @ [Connect dsn t])"
    by (simp add: pg_connect_def a t_def)
  obtain h1 where facts: "role_facts sv (h @ [Connect dsn t]) = (Inr (ro_name r, version), h1)"
    by (simp add: role_facts_def check_role_is_readonly_def db_bind_def db_return_def ask_def Let_def a)
  define h3 where "h3 = h1 @ [BeginReadOnly, SetTimeout (g_timeout_s limits * 1000), PinReadOnly]"
  define st where "st = tag @ CHR 0x0a # statement"
  obtain h4 where rows: "stream_rows sv native cap [] (h3 @ [OpenCursor st (er_params request)])
      = (Inr (map (encode_row native) (take cap src), cap < length src), h4)"
    using stream_rows_exact [OF assms(8), of "[]" native "h3 @ [OpenCursor st (er_params request)]" cap] by auto
  obtain columns where stream: "stream sv registry st (er_params request) cap h3
      = (Inr (columns, map (encode_row native) (take cap src), cap < length src), h4)"
    using rows by (simp add: stream_def db_bind_def ask_def a Let_def db_return_def native_def column_types_def)
  have run: "handled limits (guarded_stream sv registry st (er_params request) limits) h1
      = (Inr (columns, map (encode_row native) (take cap src), cap < length src), h4 @ [Rollback])"
    using stream by (simp add: handled_def guarded_stream_def db_bind_def ask_def a Let_def h3_def cap_def)
  show ?thesis
    by (simp add: pg_execute_def assms(1-6) io_bind_simps(2) [where m = "pg_connect sv dsn (g_timeout_s limits)", OF conn]
        io_bind_simps(2) [where m = "role_facts sv", OF facts] io_bind_simps(2) [where m = "handled limits _", OF run [unfolded st_def]]
        encoded_def min_def not_less flip: cap_def native_def)
qed

text \<open>A database with one read-only role and one table\<close>

definition table_server :: "source_value list list \<Rightarrow> pg_server" where
  "table_server src =
     \<lparr>sv_connect = \<lambda>_ _ _. None, sv_role = \<lambda>_. Inr (Some \<lparr>ro_name = ''reader'', ro_super = False, ro_createdb = False,
        ro_createrole = False, ro_bypassrls = False\<rparr>), sv_grants = \<lambda>_. Inr [], sv_creatable = \<lambda>_. Inr [],
      sv_version = \<lambda>_. Inr ''16.2'', sv_set = \<lambda>_ _. Inr (), sv_open = \<lambda>_ _ _. Inr [(''n'', 23)],
      sv_fetch = \<lambda>h n. Inr (take n (drop (asked h) src))\<rparr>"

definition count_request :: execute_request where
  "count_request = \<lparr>er_dialect = ''sql'', er_statement = JStr ''select 1'', er_params = [], er_operation = JNull, er_body = None\<rparr>"

theorem pg_execute_exact_witness:
  "\<exists>columns h'. pg_execute (table_server [[VInt 1], [VInt 2], [VInt 3]]) (\<lambda>_. Some ''int4'') (\<lambda>_. []) (\<lambda>_. []) (\<lambda>_. None) 7
     [(''execute_dsn'', JStr ''host=db'')] count_request (default_guardrails\<lparr>g_row_cap := 2\<rparr>) default_caller [] =
    (Inr \<lparr>xr_columns = columns, xr_rows = [[VInt 1], [VInt 2]], xr_row_count = 2, xr_truncated = True, xr_duration_ms = 7,
       xr_source = [(''executed_on'', JStr ''primary''), (''engine_version'', JStr ''16.2''), (''role'', JStr ''reader'')]\<rparr>, h')"
proof -
  let ?src = "[[VInt 1], [VInt 2], [VInt 3]]" and ?limits = "default_guardrails\<lparr>g_row_cap := 2\<rparr>"
  have a: "admits (table_server ?src) ''host=db'' \<lparr>ro_name = ''reader'', ro_super = False, ro_createdb = False,
      ro_createrole = False, ro_bypassrls = False\<rparr> ''16.2'' [(''n'', 23)]"
    by (simp add: admits_def table_server_def held_attributes_def)
  have c: "cursor_over (table_server ?src) ?src" by (simp add: cursor_over_def table_server_def)
  have "comment_tag (\<lambda>_. []) default_caller \<noteq> None" by code_simp
  then obtain tag where tag: "comment_tag (\<lambda>_. []) default_caller = Some tag" by blast
  have s: "strip ''select 1'' \<noteq> []" by code_simp
  have e: "encoded (\<lambda>_. Some ''int4'') [(''n'', 23)] [[VInt 1], [VInt 2]] = [[VInt 1], [VInt 2]]"
    by (simp add: encoded_def column_types_def type_name_def PASSTHROUGH_TYPES_def encode_row_def
        encode_value_def JSON_SAFE_INT_MAX_def)
  have r: "er_dialect count_request = ''sql''" "er_statement count_request = JStr ''select 1''"
    by (simp_all add: count_request_def)
  have d: "execution_dsn (\<lambda>_. None) [(''execute_dsn'', JStr ''host=db'')] = Inr ''host=db''" by (simp add: execution_dsn_def)
  have g: "nat (g_row_cap ?limits) = 2" by (simp add: default_guardrails_def)
  show ?thesis
    using pg_execute_exact [OF r s _ d tag a c, of "\<lambda>_. []" "\<lambda>_. Some ''int4''" 7 ?limits "[]", unfolded g] by (simp add: e)
qed

theorem pg_execute_walls_witness:
  "\<exists>tag dsn sizes rest. comment_tag (\<lambda>_. []) default_caller = Some tag \<and> read_only_role (table_server [[VInt 1]]) dsn default_guardrails
    \<and> snd (pg_execute (table_server [[VInt 1]]) (\<lambda>_. None) (\<lambda>_. []) (\<lambda>_. []) (\<lambda>_. None) 7
        [(''execute_dsn'', JStr ''host=db'')] count_request default_guardrails default_caller []) =
      walls dsn default_guardrails @ OpenCursor (tag @ CHR 0x0a # ''select 1'') [] # map Fetch sizes @ rest \<and> rest \<in> {[], [Rollback]}"
proof -
  define out where "out = pg_execute (table_server [[VInt 1]]) (\<lambda>_. None) (\<lambda>_. []) (\<lambda>_. []) (\<lambda>_. None) 7
        [(''execute_dsn'', JStr ''host=db'')] count_request default_guardrails default_caller []"
  have "list_ex is_open (snd out)" unfolding out_def by code_simp
  then obtain call where "call \<in> set (snd out)" "is_open call" by (auto simp: list_ex_iff)
  then obtain st ps where "OpenCursor st ps \<in> set (snd out)" by (cases call rule: pg_call.exhaust) (auto simp: is_open_def)
  from pg_execute_walls [OF _ this, of "table_server [[VInt 1]]" "\<lambda>_. None" "\<lambda>_. []" "\<lambda>_. []" "\<lambda>_. None" 7
      "[(''execute_dsn'', JStr ''host=db'')]" count_request default_guardrails default_caller "fst out"]
  show ?thesis by (auto simp: out_def count_request_def)
qed

end
