(* ===== verification/Pg_Catalog.thy ===== *)
theory Pg_Catalog
  imports Pg_Executor
begin

text \<open>
  Introspection of Postgres: the assembly of the catalog's rows into snapshot objects (\<open>src/connectors/postgres/catalog.py\<close>)
  and the metadata provider around it (\<open>connector.py\<close>), with the role check of the introspection role.

  The queries are calls of a record, each with its own type of rows, and may raise. The objects are those of \<open>Snapshot\<close>,
  without a hash; the main lemmas say that they do not depend on the order in which the database returns its rows.
\<close>

section \<open>Rows of the catalog\<close>

record rel_row =
  rr_oid :: int
  rr_schema :: string
  rr_name :: string
  rr_kind :: string
  rr_estimate :: "int option"
  rr_description :: "string option"
  rr_definition :: "string option"

record col_row =
  cr_rel :: int
  cr_num :: int
  cr_name :: string
  cr_type :: string
  cr_nullable :: bool
  cr_default :: "string option"
  cr_description :: "string option"

record con_row =
  co_rel :: int
  co_type :: string
  co_key :: "int list"
  co_frel :: int
  co_fkey :: "int list"

definition quoted :: "string \<Rightarrow> string" where
  "quoted s = CHR 0x27 # s @ [CHR 0x27]"

definition SESSION_SETUP :: "string list" where
  "SESSION_SETUP =
     [''SELECT pg_catalog.set_config('' @ quoted ''search_path'' @ '', '' @ quoted [] @ '', false)'',
      ''SET default_transaction_read_only = on'', ''SET statement_timeout = '' @ quoted ''60s'']"

definition KIND_BY_RELKIND :: "(string, string) dict" where
  "KIND_BY_RELKIND = [(''r'', ''table''), (''p'', ''table''), (''v'', ''view''), (''m'', ''materialized_view'')]"

definition py_key :: "('k, 'v) dict \<Rightarrow> 'k \<Rightarrow> 'v attempt" where
  "py_key d k = (case dict_get d k of Some v \<Rightarrow> Inr v | None \<Rightarrow> Inl (Escaping ''KeyError''))"

section \<open>Columns, keys, indexes and checks by relation\<close>

definition numbered :: "col_row list \<Rightarrow> column list" where
  "numbered rows =
     map2 (\<lambda>i r. \<lparr>c_name = cr_name r, c_type = cr_type r, c_nullable = cr_nullable r, c_default = cr_default r,
        c_ordinal = int i, c_description = cr_description r\<rparr>) [1..<Suc (length rows)] (sort_key cr_num rows)"

definition columns_by_rel :: "col_row list \<Rightarrow> (int, column list) dict" where
  "columns_by_rel rows = map (\<lambda>(rel, rs). (rel, numbered rs)) (dict_group cr_rel rows)"

text \<open>A constraint with the names its numbers stand for\<close>

datatype named_key = PrimaryKey "string list" | UniqueKey "string list" | ForeignKey fkey

definition attribute_names :: "(int \<times> int, string) dict \<Rightarrow> int \<Rightarrow> int list \<Rightarrow> string list attempt" where
  "attribute_names attnames rel nums = res_map (\<lambda>n. py_key attnames (rel, n)) nums"

definition name_constraint :: "(int, string) dict \<Rightarrow> (int \<times> int, string) dict \<Rightarrow> con_row \<Rightarrow> (int \<times> named_key option) attempt" where
  "name_constraint rel_names attnames con =
     res_bind (attribute_names attnames (co_rel con) (co_key con)) (\<lambda>names.
       if co_type con = ''p'' then Inr (co_rel con, Some (PrimaryKey names))
       else if co_type con = ''u'' then Inr (co_rel con, Some (UniqueKey names))
       else if co_type con = ''f'' then
         res_bind (py_key rel_names (co_frel con)) (\<lambda>ref.
         res_bind (attribute_names attnames (co_frel con) (co_fkey con)) (\<lambda>refs.
           Inr (co_rel con, Some (ForeignKey \<lparr>fk_columns = names, fk_ref = ref, fk_ref_columns = refs\<rparr>))))
       else Inr (co_rel con, None))"

definition primary_keys :: "named_key list \<Rightarrow> string list list" where
  "primary_keys ks = concat (map (\<lambda>k. case k of PrimaryKey ns \<Rightarrow> [ns] | _ \<Rightarrow> []) ks)"

definition unique_keys :: "named_key list \<Rightarrow> string list list" where
  "unique_keys ks = concat (map (\<lambda>k. case k of UniqueKey ns \<Rightarrow> [ns] | _ \<Rightarrow> []) ks)"

definition foreign_keys :: "named_key list \<Rightarrow> fkey list" where
  "foreign_keys ks = concat (map (\<lambda>k. case k of ForeignKey fk \<Rightarrow> [fk] | _ \<Rightarrow> []) ks)"

definition fk_order :: "fkey \<Rightarrow> string list \<times> string \<times> string list" where
  "fk_order fk = (fk_columns fk, fk_ref fk, fk_ref_columns fk)"

definition if_any :: "'a list \<Rightarrow> 'a list option" where
  "if_any xs = (if xs = [] then None else Some xs)"

text \<open>The last primary key counts; empty members are left out.\<close>

definition table_keys :: "named_key list \<Rightarrow> obj_keys" where
  "table_keys ks =
     \<lparr>k_primary = (case primary_keys ks of [] \<Rightarrow> None | ps \<Rightarrow> if_any (last ps)),
      k_foreign = if_any (sort_key fk_order (foreign_keys ks)),
      k_unique = if_any (sort (unique_keys ks))\<rparr>"

definition no_keys :: obj_keys where
  "no_keys = \<lparr>k_primary = None, k_foreign = None, k_unique = None\<rparr>"

definition keys_by_rel ::
  "con_row list \<Rightarrow> (int \<times> string) list \<Rightarrow> ((int \<times> int) \<times> string) list \<Rightarrow> (int, obj_keys) dict attempt" where
  "keys_by_rel cons rel_rows att_rows =
     res_bind (res_map (name_constraint (dict_of rel_rows) (dict_of att_rows)) cons) (\<lambda>named_keys.
       Inr (map (\<lambda>(rel, ks). (rel, table_keys (concat (map (\<lambda>(_, k). case k of Some x \<Rightarrow> [x] | None \<Rightarrow> []) ks))))
         (dict_group fst named_keys)))"

definition texts_by_rel :: "(int \<times> string) list \<Rightarrow> (int, string list) dict" where
  "texts_by_rel rows = map (\<lambda>(rel, rs). (rel, sort (map snd rs))) (dict_group fst rows)"

section \<open>Objects\<close>

definition rel_stats :: "(int, string list) dict \<Rightarrow> (int, string list) dict \<Rightarrow> string \<Rightarrow> rel_row \<Rightarrow> (string, json) dict" where
  "rel_stats indexes checks kind r =
     (case rr_definition r of Some d \<Rightarrow> [(''definition'', JStr d)] | None \<Rightarrow> [])
     @ (if kind = ''table'' \<or> kind = ''materialized_view''
        then (case rr_estimate r of Some n \<Rightarrow> [(''row_estimate'', JInt n)] | None \<Rightarrow> [])
          @ (case dict_get indexes (rr_oid r) of Some ds \<Rightarrow> [(''indexes'', str_list ds)] | None \<Rightarrow> [])
        else [])
     @ (if kind = ''table'' then (case dict_get checks (rr_oid r) of Some ds \<Rightarrow> [(''checks'', str_list ds)] | None \<Rightarrow> []) else [])"

definition rel_object ::
  "(int, column list) dict \<Rightarrow> (int, obj_keys) dict \<Rightarrow> (int, string list) dict \<Rightarrow> (int, string list) dict \<Rightarrow> rel_row \<Rightarrow> obj attempt" where
  "rel_object columns keys indexes checks r =
     res_bind (py_key KIND_BY_RELKIND (rr_kind r)) (\<lambda>kind.
       Inr \<lparr>o_kind = kind, o_schema = rr_schema r, o_name = rr_name r, o_description = rr_description r, o_schema_hash = [],
         o_columns = (case dict_get columns (rr_oid r) of Some cs \<Rightarrow> cs | None \<Rightarrow> []),
         o_keys = (case dict_get keys (rr_oid r) of Some k \<Rightarrow> k | None \<Rightarrow> no_keys),
         o_stats = rel_stats indexes checks kind r\<rparr>)"

text \<open>The rows of all queries, and their assembly\<close>

record catalog_rows =
  ca_rels :: "rel_row list"
  ca_columns :: "col_row list"
  ca_constraints :: "con_row list"
  ca_rel_names :: "(int \<times> string) list"
  ca_attnames :: "((int \<times> int) \<times> string) list"
  ca_indexes :: "(int \<times> string) list"
  ca_checks :: "(int \<times> string) list"

definition assemble :: "catalog_rows \<Rightarrow> obj list attempt" where
  "assemble ca =
     res_bind (keys_by_rel (ca_constraints ca) (ca_rel_names ca) (ca_attnames ca)) (\<lambda>keys.
       res_map (rel_object (columns_by_rel (ca_columns ca)) keys (texts_by_rel (ca_indexes ca)) (texts_by_rel (ca_checks ca)))
         (ca_rels ca))"

section \<open>The order of the rows does not matter\<close>

lemma res_map_Inr_iff: "res_map f xs = Inr ys \<longleftrightarrow> list_all2 (\<lambda>x y. f x = Inr y) xs ys"
proof (induction xs arbitrary: ys)
  case (Cons x xs)
  then show ?case by (cases ys) (simp_all add: res_bind_Inr_iff)
next
  case Nil
  then show ?case by (cases ys) simp_all
qed

lemma res_map_perm:
  assumes "res_map f xs = Inr ys" and "mset xs' = mset xs"
  shows "\<exists>ys'. res_map f xs' = Inr ys' \<and> mset ys' = mset ys"
proof -
  have "list_all2 (\<lambda>x y. f x = Inr y) xs ys" using assms(1) by (simp add: res_map_Inr_iff)
  from list_all2_reorder_left_invariance [OF this] assms(2)
  obtain ys' where "list_all2 (\<lambda>x y. f x = Inr y) xs' ys'" "mset ys' = mset ys" by metis
  then show ?thesis by (auto simp: res_map_Inr_iff)
qed

lemma group_perm_get:
  assumes "mset xs = mset ys"
  shows "(dict_get (dict_group f xs) k = None) = (dict_get (dict_group f ys) k = None)"
    and "dict_get (dict_group f xs) k = Some as \<Longrightarrow> \<exists>bs. dict_get (dict_group f ys) k = Some bs \<and> mset as = mset bs"
proof -
  have m: "mset (filter (\<lambda>x. f x = k) xs) = mset (filter (\<lambda>x. f x = k) ys)" using assms by (simp add: mset_filter)
  then have e: "filter (\<lambda>x. f x = k) xs = [] \<longleftrightarrow> filter (\<lambda>x. f x = k) ys = []" by (metis mset_zero_iff)
  show "(dict_get (dict_group f xs) k = None) = (dict_get (dict_group f ys) k = None)"
    using e by (simp add: dict_group_get Let_def)
  show "dict_get (dict_group f xs) k = Some as \<Longrightarrow> \<exists>bs. dict_get (dict_group f ys) k = Some bs \<and> mset as = mset bs"
    using e m by (auto simp: dict_group_get Let_def split: if_splits)
qed

text \<open>A table built from groups is the same when what it keeps of a group does not depend on the group's order.\<close>

lemma grouped_perm:
  assumes "mset xs = mset ys" and "\<And>as bs. set as \<subseteq> set xs \<Longrightarrow> mset as = mset bs \<Longrightarrow> g as = g bs"
  shows "dict_get (map (\<lambda>(k, as). (k, g as)) (dict_group f xs)) k = dict_get (map (\<lambda>(k, as). (k, g as)) (dict_group f ys)) k"
proof (cases "dict_get (dict_group f xs) k")
  case None
  then show ?thesis using group_perm_get(1) [OF assms(1), of f k] by (simp add: map_of_map_snd)
next
  case (Some as)
  then obtain bs where "dict_get (dict_group f ys) k = Some bs" "mset as = mset bs"
    using group_perm_get(2) [OF assms(1)] by metis
  moreover have "set as \<subseteq> set xs" using Some by (auto simp: dict_group_get Let_def split: if_splits)
  ultimately show ?thesis using Some assms(2) [of as bs] by (simp add: map_of_map_snd)
qed

lemma numbered_perm:
  assumes "mset as = mset bs" and "inj_on cr_num (set as)"
  shows "numbered as = numbered bs"
  using sort_key_perm [OF assms] mset_eq_length [OF assms(1)] by (simp add: numbered_def)

lemma concat_map_perm: "mset xs = mset ys \<Longrightarrow> mset (concat (map f xs)) = mset (concat (map f ys))"
proof -
  have "mset (concat (map f zs)) = sum_mset (image_mset (\<lambda>x. mset (f x)) (mset zs))" for zs by (induction zs) simp_all
  then show "mset xs = mset ys \<Longrightarrow> ?thesis" by simp
qed

lemma last_single: "mset xs = mset ys \<Longrightarrow> length xs \<le> 1 \<Longrightarrow> xs = ys"
proof (cases xs)
  case (Cons x zs)
  then show "mset xs = mset ys \<Longrightarrow> length xs \<le> 1 \<Longrightarrow> ?thesis" by (cases zs) (auto simp: mset_single_iff_right)
qed simp

lemma table_keys_perm:
  assumes "mset ks = mset ks'" and "length (primary_keys ks) \<le> 1"
  shows "table_keys ks = table_keys ks'"
proof -
  have "primary_keys ks = primary_keys ks'"
    using assms(2) concat_map_perm [OF assms(1)] unfolding primary_keys_def by (intro last_single)
  moreover have "sort (unique_keys ks) = sort (unique_keys ks')"
    using concat_map_perm [OF assms(1)] by (intro sort_perm) (simp add: unique_keys_def)
  moreover have "sort_key fk_order (foreign_keys ks) = sort_key fk_order (foreign_keys ks')"
    using concat_map_perm [OF assms(1)] by (intro sort_key_perm) (auto simp: foreign_keys_def fk_order_def inj_on_def)
  ultimately show ?thesis by (simp add: table_keys_def)
qed

lemma dict_of_perm:
  assumes "mset xs = mset ys" and "distinct (map fst xs)"
  shows "dict_get (dict_of xs) = dict_get (dict_of ys)"
proof -
  have "mset (map fst xs) = mset (map fst ys)" using assms(1) by simp
  then have "distinct (map fst ys)" using assms(2) by (metis mset_eq_imp_distinct_iff)
  then have "map_of xs = map_of ys" using assms by (metis map_of_inject_set mset_eq_setD)
  then show ?thesis using assms(2) \<open>distinct (map fst ys)\<close> by (auto simp: dict_of_get map_of_rev_distinct)
qed


definition same_rows :: "catalog_rows \<Rightarrow> catalog_rows \<Rightarrow> bool" where
  "same_rows a b \<longleftrightarrow>
     mset (ca_rels a) = mset (ca_rels b) \<and> mset (ca_columns a) = mset (ca_columns b)
     \<and> mset (ca_constraints a) = mset (ca_constraints b) \<and> mset (ca_rel_names a) = mset (ca_rel_names b)
     \<and> mset (ca_attnames a) = mset (ca_attnames b) \<and> mset (ca_indexes a) = mset (ca_indexes b) \<and> mset (ca_checks a) = mset (ca_checks b)"

text \<open>What Postgres guarantees: the columns of a relation differ in number, a relation has one primary key at most, and names are
  looked up by a key.\<close>

definition catalog_wf :: "catalog_rows \<Rightarrow> bool" where
  "catalog_wf a \<longleftrightarrow>
     distinct (map (\<lambda>r. (cr_rel r, cr_num r)) (ca_columns a))
     \<and> distinct (map co_rel (filter (\<lambda>c. co_type c = ''p'') (ca_constraints a)))
     \<and> distinct (map fst (ca_rel_names a)) \<and> distinct (map fst (ca_attnames a))"

lemma columns_by_rel_perm:
  assumes "mset xs = mset ys" and "distinct (map (\<lambda>r. (cr_rel r, cr_num r)) xs)"
  shows "dict_get (columns_by_rel xs) = dict_get (columns_by_rel ys)"
proof
  fix k
  have one: "numbered (filter (\<lambda>r. cr_rel r = k) xs) = numbered (filter (\<lambda>r. cr_rel r = k) ys)"
  proof (rule numbered_perm)
    show "mset (filter (\<lambda>r. cr_rel r = k) xs) = mset (filter (\<lambda>r. cr_rel r = k) ys)" using assms(1) by (simp add: mset_filter)
    show "inj_on cr_num (set (filter (\<lambda>r. cr_rel r = k) xs))"
      using assms(2) by (auto simp: distinct_map inj_on_def)
  qed
  have "filter (\<lambda>r. cr_rel r = k) xs = [] \<longleftrightarrow> filter (\<lambda>r. cr_rel r = k) ys = []"
    using assms(1) by (metis mset_filter mset_zero_iff)
  then show "dict_get (columns_by_rel xs) k = dict_get (columns_by_rel ys) k"
    using one by (simp add: columns_by_rel_def map_of_map_snd dict_group_get Let_def)
qed

lemma texts_by_rel_perm:
  assumes "mset xs = mset ys"
  shows "dict_get (texts_by_rel xs) = dict_get (texts_by_rel ys)"
proof
  fix k
  have "sort (map snd as) = sort (map snd bs)" if "mset as = mset bs" for as bs :: "(int \<times> string) list"
    using that by (intro sort_perm) simp
  then show "dict_get (texts_by_rel xs) k = dict_get (texts_by_rel ys) k"
    unfolding texts_by_rel_def by (intro grouped_perm [OF assms]) blast
qed

lemma primary_keys_append: "primary_keys (xs @ ys) = primary_keys xs @ primary_keys ys"
  by (simp add: primary_keys_def)

lemma primary_of_group:
  assumes "res_map (name_constraint rels atts) cons = Inr named_keys"
  shows "length (primary_keys (concat (map (\<lambda>(_, k). case k of Some x \<Rightarrow> [x] | None \<Rightarrow> []) (filter (\<lambda>n. fst n = rel) named_keys))))
    = length (filter (\<lambda>c. co_type c = ''p'' \<and> co_rel c = rel) cons)"
  using assms
proof (induction cons arbitrary: named_keys)
  case (Cons c cons)
  then obtain n rest where "name_constraint rels atts c = Inr n" "res_map (name_constraint rels atts) cons = Inr rest" "named_keys = n # rest"
    by (auto simp: res_bind_Inr_iff)
  moreover from this(1) have "fst n = co_rel c
      \<and> length (primary_keys (case snd n of Some x \<Rightarrow> [x] | None \<Rightarrow> [])) = (if co_type c = ''p'' then 1 else 0)"
    by (auto simp: name_constraint_def primary_keys_def res_bind_Inr_iff split: if_splits)
  ultimately show ?case using Cons.IH [of rest] by (simp add: primary_keys_append case_prod_unfold)
qed (simp add: primary_keys_def)

lemma distinct_filter_eq: "distinct xs \<Longrightarrow> length (filter (\<lambda>x. x = a) xs) \<le> 1"
  by (induction xs) (auto simp: filter_empty_conv)

lemma keys_by_rel_perm:
  assumes "keys_by_rel cons rels atts = Inr keys"
    and "mset cons = mset cons'" and "mset rels = mset rels'" and "mset atts = mset atts'"
    and "distinct (map fst rels)" and "distinct (map fst atts)"
    and "distinct (map co_rel (filter (\<lambda>c. co_type c = ''p'') cons))"
  shows "\<exists>keys'. keys_by_rel cons' rels' atts' = Inr keys' \<and> dict_get keys' = dict_get keys"
proof -
  obtain named_keys where named_keys: "res_map (name_constraint (dict_of rels) (dict_of atts)) cons = Inr named_keys"
    "keys = map (\<lambda>(rel, ks). (rel, table_keys (concat (map (\<lambda>(_, k). case k of Some x \<Rightarrow> [x] | None \<Rightarrow> []) ks)))) (dict_group fst named_keys)"
    using assms(1) by (auto simp: keys_by_rel_def res_bind_Inr_iff)
  have "py_key (dict_of rels) = py_key (dict_of rels')" "attribute_names (dict_of atts) = attribute_names (dict_of atts')"
    using dict_of_perm [OF assms(3,5)] dict_of_perm [OF assms(4,6)]
    by (auto simp: fun_eq_iff attribute_names_def py_key_def)
  then have "name_constraint (dict_of rels) (dict_of atts) = name_constraint (dict_of rels') (dict_of atts')"
    by (intro ext) (simp add: name_constraint_def cong: if_cong)
  then obtain named_keys' where named_keys': "res_map (name_constraint (dict_of rels') (dict_of atts')) cons' = Inr named_keys'" "mset named_keys' = mset named_keys"
    using res_map_perm [OF named_keys(1) assms(2) [symmetric]] by auto
  define g where "g ks = table_keys (concat (map (\<lambda>(_, k). case k of Some x \<Rightarrow> [x] | None \<Rightarrow> []) ks))" for ks :: "(int \<times> named_key option) list"
  have "dict_get (map (\<lambda>(rel, ks). (rel, g ks)) (dict_group fst named_keys')) rel = dict_get (map (\<lambda>(rel, ks). (rel, g ks)) (dict_group fst named_keys)) rel" for rel
  proof (cases "dict_get (dict_group fst named_keys) rel")
    case None
    then show ?thesis using group_perm_get(1) [OF named_keys'(2), of fst rel] by (simp add: map_of_map_snd)
  next
    case (Some as)
    then obtain bs where bs: "dict_get (dict_group fst named_keys') rel = Some bs" "mset as = mset bs"
      using group_perm_get(2) [OF named_keys'(2) [symmetric]] by metis
    have "as = filter (\<lambda>n. fst n = rel) named_keys" using Some by (auto simp: dict_group_get Let_def split: if_splits)
    then have "length (primary_keys (concat (map (\<lambda>(_, k). case k of Some x \<Rightarrow> [x] | None \<Rightarrow> []) as)))
        = length (filter (\<lambda>c. co_type c = ''p'' \<and> co_rel c = rel) cons)"
      using primary_of_group [OF named_keys(1)] by simp
    also have "\<dots> = length (filter (\<lambda>r. r = rel) (map co_rel (filter (\<lambda>c. co_type c = ''p'') cons)))"
      by (simp add: filter_map o_def conj_commute)
    also have "\<dots> \<le> 1" using assms(7) by (rule distinct_filter_eq)
    finally have "g as = g bs" unfolding g_def by (intro table_keys_perm concat_map_perm bs(2))
    then show ?thesis using Some bs(1) by (simp add: map_of_map_snd)
  qed
  then show ?thesis unfolding keys_by_rel_def using named_keys' by (auto simp: named_keys(2) g_def fun_eq_iff)
qed


section \<open>What an object says\<close>

text \<open>The object of a relation, read off the rows: the columns by their numbers, the columns of a key in the order in which the
  constraint declares them, the keys, indexes and checks sorted\<close>

definition constraints_of :: "catalog_rows \<Rightarrow> string \<Rightarrow> int \<Rightarrow> con_row list" where
  "constraints_of a t rel = filter (\<lambda>c. co_rel c = rel \<and> co_type c = t) (ca_constraints a)"

definition key_columns :: "catalog_rows \<Rightarrow> int \<Rightarrow> int list \<Rightarrow> string list" where
  "key_columns a rel nums = map (\<lambda>n. the (dict_get (dict_of (ca_attnames a)) (rel, n))) nums"

definition declared_key :: "catalog_rows \<Rightarrow> con_row \<Rightarrow> string list" where
  "declared_key a c = key_columns a (co_rel c) (co_key c)"

definition declared_foreign :: "catalog_rows \<Rightarrow> con_row \<Rightarrow> fkey" where
  "declared_foreign a c = \<lparr>fk_columns = declared_key a c, fk_ref = the (dict_get (dict_of (ca_rel_names a)) (co_frel c)),
     fk_ref_columns = key_columns a (co_frel c) (co_fkey c)\<rparr>"

definition declared_keys :: "catalog_rows \<Rightarrow> int \<Rightarrow> obj_keys" where
  "declared_keys a rel =
     \<lparr>k_primary = (case constraints_of a ''p'' rel of [] \<Rightarrow> None | cs \<Rightarrow> if_any (declared_key a (last cs))),
      k_foreign = if_any (sort_key fk_order (map (declared_foreign a) (constraints_of a ''f'' rel))),
      k_unique = if_any (sort (map (declared_key a) (constraints_of a ''u'' rel)))\<rparr>"

definition numbered_columns :: "catalog_rows \<Rightarrow> int \<Rightarrow> column list \<Rightarrow> bool" where
  "numbered_columns a rel cs \<longleftrightarrow>
     (\<exists>rows. mset rows = mset (filter (\<lambda>r. cr_rel r = rel) (ca_columns a)) \<and> sorted (map cr_num rows)
        \<and> map (\<lambda>c. (c_name c, c_type c, c_nullable c, c_default c, c_description c)) cs
            = map (\<lambda>r. (cr_name r, cr_type r, cr_nullable r, cr_default r, cr_description r)) rows
        \<and> map c_ordinal cs = map int [1..<Suc (length rows)])"

definition sorted_texts :: "(int \<times> string) list \<Rightarrow> int \<Rightarrow> json option" where
  "sorted_texts rows rel =
     (let ds = map snd (filter (\<lambda>r. fst r = rel) rows) in if ds = [] then None else Some (str_list (sort ds)))"

definition catalog_object :: "catalog_rows \<Rightarrow> rel_row \<Rightarrow> obj \<Rightarrow> bool" where
  "catalog_object a r ob \<longleftrightarrow>
     dict_get KIND_BY_RELKIND (rr_kind r) = Some (o_kind ob) \<and> o_schema ob = rr_schema r \<and> o_name ob = rr_name r
     \<and> o_description ob = rr_description r \<and> numbered_columns a (rr_oid r) (o_columns ob)
     \<and> o_keys ob = declared_keys a (rr_oid r)
     \<and> dict_get (o_stats ob) ''indexes'' =
         (if o_kind ob \<in> {''table'', ''materialized_view''} then sorted_texts (ca_indexes a) (rr_oid r) else None)
     \<and> dict_get (o_stats ob) ''checks'' = (if o_kind ob = ''table'' then sorted_texts (ca_checks a) (rr_oid r) else None)"

lemma numbered_columns_by_rel:
  "numbered_columns a rel (case dict_get (columns_by_rel (ca_columns a)) rel of Some cs \<Rightarrow> cs | None \<Rightarrow> [])"
proof -
  let ?rows = "filter (\<lambda>r. cr_rel r = rel) (ca_columns a)"
  have "(case dict_get (columns_by_rel (ca_columns a)) rel of Some cs \<Rightarrow> cs | None \<Rightarrow> []) = numbered ?rows"
    by (simp add: columns_by_rel_def map_of_map_snd dict_group_get Let_def numbered_def)
  moreover have "map (\<lambda>c. (c_name c, c_type c, c_nullable c, c_default c, c_description c)) (numbered ?rows)
      = map (\<lambda>r. (cr_name r, cr_type r, cr_nullable r, cr_default r, cr_description r)) (sort_key cr_num ?rows)"
    by (rule nth_equalityI) (simp_all add: numbered_def del: upt_Suc)
  moreover have "map c_ordinal (numbered ?rows) = map int [1..<Suc (length (sort_key cr_num ?rows))]"
    by (rule nth_equalityI) (simp_all add: numbered_def del: upt_Suc)
  ultimately show ?thesis
    unfolding numbered_columns_def by (intro exI [of _ "sort_key cr_num ?rows"]) simp
qed

lemma attribute_names_Inr:
  "attribute_names (dict_of (ca_attnames a)) rel nums = Inr ns \<Longrightarrow> ns = key_columns a rel nums"
  unfolding attribute_names_def res_map_Inr_iff key_columns_def
  by (induction rule: list_all2_induct) (auto simp: py_key_def split: option.splits)

lemma name_constraint_Inr:
  assumes "name_constraint (dict_of (ca_rel_names a)) (dict_of (ca_attnames a)) c = Inr n"
  shows "n = (co_rel c, if co_type c = ''p'' then Some (PrimaryKey (declared_key a c))
     else if co_type c = ''u'' then Some (UniqueKey (declared_key a c))
     else if co_type c = ''f'' then Some (ForeignKey (declared_foreign a c)) else None)"
  using assms
  by (auto simp: name_constraint_def res_bind_Inr_iff declared_key_def declared_foreign_def py_key_def
      dest!: attribute_names_Inr split: if_splits option.splits)

definition keys_of_group :: "(int \<times> named_key option) list \<Rightarrow> named_key list" where
  "keys_of_group ks = concat (map (\<lambda>(_, k). case k of Some x \<Rightarrow> [x] | None \<Rightarrow> []) ks)"

lemma keys_of_group_names:
  assumes "res_map (name_constraint (dict_of (ca_rel_names a)) (dict_of (ca_attnames a))) cons = Inr ns"
  shows "primary_keys (keys_of_group (filter (\<lambda>n. fst n = rel) ns))
      = map (declared_key a) (filter (\<lambda>c. co_rel c = rel \<and> co_type c = ''p'') cons)"
    and "unique_keys (keys_of_group (filter (\<lambda>n. fst n = rel) ns))
      = map (declared_key a) (filter (\<lambda>c. co_rel c = rel \<and> co_type c = ''u'') cons)"
    and "foreign_keys (keys_of_group (filter (\<lambda>n. fst n = rel) ns))
      = map (declared_foreign a) (filter (\<lambda>c. co_rel c = rel \<and> co_type c = ''f'') cons)"
  using assms unfolding res_map_Inr_iff
  by (induction cons ns rule: list_all2_induct)
    (auto dest!: name_constraint_Inr simp: keys_of_group_def primary_keys_def unique_keys_def foreign_keys_def split: if_splits)

lemma keys_by_rel_declared:
  assumes "keys_by_rel (ca_constraints a) (ca_rel_names a) (ca_attnames a) = Inr keys"
  shows "(case dict_get keys rel of Some k \<Rightarrow> k | None \<Rightarrow> no_keys) = declared_keys a rel"
proof -
  obtain ns where ns: "res_map (name_constraint (dict_of (ca_rel_names a)) (dict_of (ca_attnames a))) (ca_constraints a) = Inr ns"
    and keys: "keys = map (\<lambda>(rel, ks). (rel, table_keys (keys_of_group ks))) (dict_group fst ns)"
    using assms by (auto simp: keys_by_rel_def res_bind_Inr_iff keys_of_group_def)
  have "(case dict_get keys rel of Some k \<Rightarrow> k | None \<Rightarrow> no_keys) = table_keys (keys_of_group (filter (\<lambda>n. fst n = rel) ns))"
    by (simp add: keys map_of_map_snd dict_group_get Let_def keys_of_group_def table_keys_def no_keys_def if_any_def
        primary_keys_def unique_keys_def foreign_keys_def)
  also have "\<dots> = declared_keys a rel"
    by (simp add: table_keys_def declared_keys_def constraints_of_def keys_of_group_names [OF ns] last_map split: list.split)
  finally show ?thesis .
qed

lemma texts_by_rel_sorted:
  "dict_get (texts_by_rel rows) rel = map_option (\<lambda>_. sort (map snd (filter (\<lambda>r. fst r = rel) rows))) (sorted_texts rows rel)"
  "sorted_texts rows rel = map_option str_list (dict_get (texts_by_rel rows) rel)"
  by (simp_all add: texts_by_rel_def sorted_texts_def map_of_map_snd dict_group_get Let_def)

lemma rel_object_catalog:
  assumes "keys_by_rel (ca_constraints a) (ca_rel_names a) (ca_attnames a) = Inr keys"
    and "rel_object (columns_by_rel (ca_columns a)) keys (texts_by_rel (ca_indexes a)) (texts_by_rel (ca_checks a)) r = Inr ob"
  shows "catalog_object a r ob"
proof -
  obtain kind where kind: "dict_get KIND_BY_RELKIND (rr_kind r) = Some kind" and ob: "ob =
     \<lparr>o_kind = kind, o_schema = rr_schema r, o_name = rr_name r, o_description = rr_description r, o_schema_hash = [],
         o_columns = (case dict_get (columns_by_rel (ca_columns a)) (rr_oid r) of Some cs \<Rightarrow> cs | None \<Rightarrow> []),
         o_keys = declared_keys a (rr_oid r),
         o_stats = rel_stats (texts_by_rel (ca_indexes a)) (texts_by_rel (ca_checks a)) kind r\<rparr>"
    using assms(2) keys_by_rel_declared [OF assms(1), of "rr_oid r"]
    by (auto simp: rel_object_def res_bind_Inr_iff py_key_def split: option.splits)
  show ?thesis
    by (auto simp: catalog_object_def ob kind numbered_columns_by_rel rel_stats_def texts_by_rel_sorted(2) split: option.split)
qed

text \<open>C11. The objects of a Postgres catalog, for rows in which the columns of a relation differ in number, a relation has one primary key
  at most and the names are looked up by a key (\<open>catalog_wf\<close>). They do not depend on the order in which the queries return their
  rows: the same rows in another order give the same objects, in another order. And each object is that of its relation: columns
  are numbered from one in the order of the attribute numbers, the columns of a key keep the order of the constraint, and unique
  keys, foreign keys, indexes and checks are sorted.\<close>
theorem assemble_order_invariant:
  assumes "assemble a = Inr objects" and "same_rows a b" and "catalog_wf a"
  shows "(\<exists>objects'. assemble b = Inr objects' \<and> mset objects' = mset objects) \<and> list_all2 (catalog_object a) (ca_rels a) objects"
proof
  note m = assms(2) [unfolded same_rows_def] and wf = assms(3) [unfolded catalog_wf_def]
  obtain keys where keys: "keys_by_rel (ca_constraints a) (ca_rel_names a) (ca_attnames a) = Inr keys"
    and objects: "res_map (rel_object (columns_by_rel (ca_columns a)) keys (texts_by_rel (ca_indexes a)) (texts_by_rel (ca_checks a)))
      (ca_rels a) = Inr objects"
    using assms(1) by (auto simp: assemble_def res_bind_Inr_iff)
  show "list_all2 (catalog_object a) (ca_rels a) objects"
    using objects rel_object_catalog [OF keys] unfolding res_map_Inr_iff by (rule list.rel_mono_strong)
  obtain keys' where keys': "keys_by_rel (ca_constraints b) (ca_rel_names b) (ca_attnames b) = Inr keys'" "dict_get keys' = dict_get keys"
    using keys_by_rel_perm [OF keys] m wf by meson
  have eqs: "dict_get (columns_by_rel (ca_columns a)) = dict_get (columns_by_rel (ca_columns b))"
    "dict_get (texts_by_rel (ca_indexes a)) = dict_get (texts_by_rel (ca_indexes b))"
    "dict_get (texts_by_rel (ca_checks a)) = dict_get (texts_by_rel (ca_checks b))"
    using m wf columns_by_rel_perm texts_by_rel_perm by blast+
  have "rel_object (columns_by_rel (ca_columns b)) keys' (texts_by_rel (ca_indexes b)) (texts_by_rel (ca_checks b))
      = rel_object (columns_by_rel (ca_columns a)) keys (texts_by_rel (ca_indexes a)) (texts_by_rel (ca_checks a))"
    by (intro ext) (simp add: rel_object_def rel_stats_def eqs keys'(2) cong: if_cong)
  then show "\<exists>objects'. assemble b = Inr objects' \<and> mset objects' = mset objects"
    using res_map_perm [OF objects, of "ca_rels b"] m by (simp add: assemble_def keys'(1))
qed

definition two_columns :: catalog_rows where
  "two_columns = \<lparr>ca_rels = [\<lparr>rr_oid = 7, rr_schema = ''public'', rr_name = ''t'', rr_kind = ''r'', rr_estimate = None,
       rr_description = None, rr_definition = None\<rparr>],
     ca_columns = [\<lparr>cr_rel = 7, cr_num = 1, cr_name = ''id'', cr_type = ''integer'', cr_nullable = False, cr_default = None, cr_description = None\<rparr>,
       \<lparr>cr_rel = 7, cr_num = 3, cr_name = ''n'', cr_type = ''text'', cr_nullable = True, cr_default = None, cr_description = None\<rparr>],
     ca_constraints = [\<lparr>co_rel = 7, co_type = ''p'', co_key = [1], co_frel = 0, co_fkey = []\<rparr>],
     ca_rel_names = [(7, ''public.t'')], ca_attnames = [((7, 1), ''id''), ((7, 3), ''n'')],
     ca_indexes = [(7, ''b''), (7, ''a'')], ca_checks = []\<rparr>"

theorem assemble_order_invariant_witness:
  "\<exists>objects. assemble (two_columns\<lparr>ca_columns := rev (ca_columns two_columns), ca_indexes := [(7, ''a''), (7, ''b'')]\<rparr>) = Inr objects
    \<and> mset objects = {#\<lparr>o_kind = ''table'', o_schema = ''public'', o_name = ''t'', o_description = None, o_schema_hash = [],
      o_columns = [\<lparr>c_name = ''id'', c_type = ''integer'', c_nullable = False, c_default = None, c_ordinal = 1, c_description = None\<rparr>,
        \<lparr>c_name = ''n'', c_type = ''text'', c_nullable = True, c_default = None, c_ordinal = 2, c_description = None\<rparr>],
      o_keys = \<lparr>k_primary = Some [''id''], k_foreign = None, k_unique = None\<rparr>,
      o_stats = [(''indexes'', JList [JStr ''a'', JStr ''b''])]\<rparr>#}"
proof -
  have "assemble two_columns = Inr [\<lparr>o_kind = ''table'', o_schema = ''public'', o_name = ''t'', o_description = None, o_schema_hash = [],
      o_columns = [\<lparr>c_name = ''id'', c_type = ''integer'', c_nullable = False, c_default = None, c_ordinal = 1, c_description = None\<rparr>,
        \<lparr>c_name = ''n'', c_type = ''text'', c_nullable = True, c_default = None, c_ordinal = 2, c_description = None\<rparr>],
      o_keys = \<lparr>k_primary = Some [''id''], k_foreign = None, k_unique = None\<rparr>,
      o_stats = [(''indexes'', JList [JStr ''a'', JStr ''b''])]\<rparr>]"
    by code_simp
  moreover have "same_rows two_columns (two_columns\<lparr>ca_columns := rev (ca_columns two_columns), ca_indexes := [(7, ''a''), (7, ''b'')]\<rparr>)"
    by (simp add: same_rows_def two_columns_def)
  moreover have "catalog_wf two_columns" by (simp add: catalog_wf_def two_columns_def)
  ultimately show ?thesis using assemble_order_invariant by force
qed

section \<open>The connection (catalog.py)\<close>

text \<open>The queries over an open connection. A query may raise; each reads the catalog at its own moment.\<close>

record 'w pg_catalog =
  qc_setup :: "string \<Rightarrow> 'w \<Rightarrow> (pg_error + unit) \<times> 'w"
  qc_rels :: "json \<Rightarrow> 'w \<Rightarrow> (pg_error + rel_row list) \<times> 'w"
  qc_columns :: "int list \<Rightarrow> 'w \<Rightarrow> (pg_error + col_row list) \<times> 'w"
  qc_constraints :: "int list \<Rightarrow> 'w \<Rightarrow> (pg_error + con_row list) \<times> 'w"
  qc_rel_names :: "int list \<Rightarrow> 'w \<Rightarrow> (pg_error + (int \<times> string) list) \<times> 'w"
  qc_attnames :: "int list \<Rightarrow> 'w \<Rightarrow> (pg_error + ((int \<times> int) \<times> string) list) \<times> 'w"
  qc_indexes :: "int list \<Rightarrow> 'w \<Rightarrow> (pg_error + (int \<times> string) list) \<times> 'w"
  qc_checks :: "int list \<Rightarrow> 'w \<Rightarrow> (pg_error + (int \<times> string) list) \<times> 'w"
  qc_version :: "'w \<Rightarrow> (pg_error + int) \<times> 'w"
  qc_role :: "'w \<Rightarrow> (pg_error + (string \<times> bool \<times> bool) option) \<times> 'w"

text \<open>A lost connection is \<open>SourceUnavailable\<close>; any other database error leaves the frame.\<close>

definition catalog_failure :: "pg_error \<Rightarrow> failure" where
  "catalog_failure e =
     (if pe_class e = OperationalError \<or> pe_class e = QueryCanceled
      then Raised (SourceUnavailable (''lost postgres connection mid-introspection: '' @ pe_message e) [])
      else Escaping (pg_class_name (pe_class e)))"

definition query :: "('w \<Rightarrow> (pg_error + 'a) \<times> 'w) \<Rightarrow> ('w, 'a) io" where
  "query q w = (case q w of (Inl e, w') \<Rightarrow> (Inl (catalog_failure e), w') | (Inr a, w') \<Rightarrow> (Inr a, w'))"

fun run_setup :: "'w pg_catalog \<Rightarrow> string list \<Rightarrow> ('w, unit) io" where
  "run_setup cat [] = io_return ()"
| "run_setup cat (s # ss) = io_bind (query (qc_setup cat s)) (\<lambda>_. run_setup cat ss)"

text \<open>Without relations no query is made.\<close>

definition if_rels :: "int list \<Rightarrow> (int list \<Rightarrow> ('w, 'a list) io) \<Rightarrow> ('w, 'a list) io" where
  "if_rels relids q = (if relids = [] then io_return [] else q relids)"

definition lookup_ids :: "int list \<Rightarrow> con_row list \<Rightarrow> int list" where
  "lookup_ids relids cons = sort (remdups (relids @ map co_frel (filter (\<lambda>c. co_type c = ''f'') cons)))"

definition introspect_connection :: "'w pg_catalog \<Rightarrow> json \<Rightarrow> ('w, obj list \<times> (string, json) dict) io" where
  "introspect_connection cat schemas =
     io_bind (run_setup cat SESSION_SETUP) (\<lambda>_.
     io_bind (query (qc_rels cat schemas)) (\<lambda>rels. let relids = map rr_oid rels in
     io_bind (if_rels relids (query \<circ> qc_columns cat)) (\<lambda>cols.
     io_bind (if_rels relids (query \<circ> qc_constraints cat)) (\<lambda>cons.
     io_bind (if_rels relids (\<lambda>_. query (qc_rel_names cat (lookup_ids relids cons)))) (\<lambda>names.
     io_bind (if_rels relids (\<lambda>_. query (qc_attnames cat (lookup_ids relids cons)))) (\<lambda>atts.
     io_bind (io_lift (keys_by_rel cons names atts)) (\<lambda>keys.
     io_bind (if_rels relids (query \<circ> qc_indexes cat)) (\<lambda>idx.
     io_bind (if_rels relids (query \<circ> qc_checks cat)) (\<lambda>chk.
     io_bind (io_lift (res_map (rel_object (columns_by_rel cols) keys (texts_by_rel idx) (texts_by_rel chk)) rels)) (\<lambda>objects.
     io_bind (query (qc_version cat)) (\<lambda>n.
       io_return (objects, [(''server_version'', JStr (show_int (n div 10000) @ ''.'' @ show_int (n mod 100)))]))))))))))))"


section \<open>The metadata provider (connector.py)\<close>

definition metadata_connect_error :: "connect_failure \<Rightarrow> connector_error" where
  "metadata_connect_error e =
     (case e of
        ProgrammingError \<Rightarrow> ConfigError ''invalid postgres DSN (not echoed; check the config)'' []
      | ConnectError message \<Rightarrow>
          if contains_text ''password'' message \<or> contains_text ''authentication'' message
          then AuthError ''postgres authentication failed (check the read-only role credentials)'' []
          else SourceUnavailable (''cannot reach postgres: '' @ message) [])"

text \<open>What the provider reaches: databases by their DSN, and files with a normal form of their paths\<close>

record 'w pg_reach =
  pr_connect :: "string \<Rightarrow> 'w \<Rightarrow> connect_failure option \<times> 'w"
  pr_catalog :: "string \<Rightarrow> 'w pg_catalog"
  pr_is_file :: "string \<Rightarrow> bool"
  pr_path :: "string \<Rightarrow> string"

definition metadata_connect :: "'w pg_reach \<Rightarrow> string \<Rightarrow> ('w, unit) io" where
  "metadata_connect reach dsn w =
     (case pr_connect reach dsn w of
        (None, w') \<Rightarrow> (Inr (), w')
      | (Some e, w') \<Rightarrow> (Inl (Raised (metadata_connect_error e)), w'))"

text \<open>A database error of the role check is not mapped.\<close>

definition check_introspection_role :: "'w pg_catalog \<Rightarrow> ('w, (string, json) dict) io" where
  "check_introspection_role cat w =
     (case qc_role cat w of
        (Inl e, w') \<Rightarrow> (Inl (Escaping (pg_class_name (pe_class e))), w')
      | (Inr None, w') \<Rightarrow> (Inl (Raised (ConfigError ''cannot read pg_roles for the current introspection role'' [])), w')
      | (Inr (Some (role, super, bypass)), w') \<Rightarrow>
          let held = map fst (filter snd [(''SUPERUSER'', super), (''BYPASSRLS'', bypass)]) in
          if held \<noteq> []
          then (Inl (Raised (ConfigError (''introspection role '' @ py_repr role @ '' holds '' @ join '', '' held
            @ ''; introspection reads pg_catalog and requires neither (D-71.2). Provision the dedicated role with ''
            @ ''deploy/introspection-role.sql and point config.dsn/dsn_env at it. Refusing to introspect.'') [])), w')
          else (Inr [(''role'', JStr role), (''superuser'', JBool super), (''bypassrls'', JBool bypass)], w'))"

definition live_dsn :: "(string \<Rightarrow> string option) \<Rightarrow> (string, json) dict \<Rightarrow> string attempt" where
  "live_dsn environ config =
     (case dict_get config ''dsn'' of
        Some (JStr dsn) \<Rightarrow> Inr dsn
      | Some _ \<Rightarrow> Inl (Escaping ''TypeError'')
      | None \<Rightarrow>
          res_bind (py_item (JObj config) ''dsn_env'') (\<lambda>env_var.
            case env_var of
              JStr name \<Rightarrow>
                (case environ name of
                   Some (c # cs) \<Rightarrow> Inr (c # cs)
                 | _ \<Rightarrow> Inl (Raised (ConfigError (''environment variable '' @ py_repr name @ '' (config.dsn_env) is unset or empty'') [])))
            | _ \<Rightarrow> Inl (Escaping ''TypeError'')))"

definition ddl_paths :: "'w pg_reach \<Rightarrow> json \<Rightarrow> string list attempt" where
  "ddl_paths reach v =
     res_bind (py_iter v) (res_map (\<lambda>p. case p of JStr s \<Rightarrow> Inr (pr_path reach s) | _ \<Rightarrow> Inl (Escaping ''TypeError'')))"

definition missing_files :: "'w pg_reach \<Rightarrow> string list \<Rightarrow> unit attempt" where
  "missing_files reach files =
     (let missing = filter (\<lambda>p. \<not> pr_is_file reach p) files in
      if missing \<noteq> [] then Inl (Raised (ConfigError (''DDL files not found: '' @ join '', '' missing) [])) else Inr ())"

definition metadata_preflight ::
  "'w pg_reach \<Rightarrow> (string \<Rightarrow> string option) \<Rightarrow> (string, json) dict \<Rightarrow> ('w, json) io" where
  "metadata_preflight reach environ config =
     (if member config ''mode'' = JStr ''ddl-file''
      then io_bind (io_lift (ddl_paths reach (or_else (member config ''ddl_files'') (JList [])))) (\<lambda>files.
           io_bind (io_lift (missing_files reach files)) (\<lambda>_.
             io_return (JObj [(''probed'', JBool True), (''mode'', JStr ''ddl-file''), (''ddl_files'', JInt (int (length files))),
               (''credential_tested'', JBool False),
               (''note'', JStr ''ddl-file mode reads local files; no source credential exists to test'')])))
      else io_bind (io_lift (live_dsn environ config)) (\<lambda>dsn.
           io_bind (metadata_connect reach dsn) (\<lambda>_.
           io_bind (check_introspection_role (pr_catalog reach dsn)) (\<lambda>facts.
             io_return (JObj (fold (\<lambda>(k, v). dict_set k v) facts
               [(''probed'', JBool True), (''mode'', JStr ''live''), (''credential_tested'', JBool True)]))))))"

definition introspect_dsn ::
  "'w pg_reach \<Rightarrow> string \<Rightarrow> json \<Rightarrow> bool \<Rightarrow> ('w, obj list \<times> (string, json) dict) io" where
  "introspect_dsn reach dsn schemas check_role =
     io_bind (metadata_connect reach dsn) (\<lambda>_.
     io_bind (if check_role then check_introspection_role (pr_catalog reach dsn) else io_return []) (\<lambda>_.
       introspect_connection (pr_catalog reach dsn) schemas))"

section \<open>The ephemeral container (ephemeral.py)\<close>

datatype docker_call = RunContainer string string | PortOf string | AwaitReady string | Psql string string | RemoveContainer string

text \<open>\<open>subprocess.run\<close>: no binary, a timeout, or an exit with its output and its errors. The polling of \<open>_wait_ready\<close> is one call, that
  exits with 0 when the database is ready before the deadline.\<close>

datatype docker_answer = NoBinary | TimedOut | Exited int string string

type_synonym 'w docker = "docker_call \<Rightarrow> 'w \<Rightarrow> docker_answer \<times> 'w"

definition CONTAINER_PREFIX :: string where
  "CONTAINER_PREFIX = ''ctxlayer-pg-''"

definition tail_text :: "string \<Rightarrow> string" where
  "tail_text s = strip (drop (length s - 2000) s)"

definition escaping_answer :: "docker_answer \<Rightarrow> failure" where
  "escaping_answer a = Escaping (case a of NoBinary \<Rightarrow> ''FileNotFoundError'' | _ \<Rightarrow> ''TimeoutExpired'')"

definition docker_run :: "'w docker \<Rightarrow> string \<Rightarrow> string \<Rightarrow> ('w, unit) io" where
  "docker_run dk name img w =
     (case dk (RunContainer name img) w of
        (NoBinary, w') \<Rightarrow> (Inl (Raised (SourceUnavailable ''docker binary not found; ddl-file mode needs Docker'' [])), w')
      | (TimedOut, w') \<Rightarrow>
          (Inl (Raised (SourceUnavailable (''docker run '' @ py_repr img @ '' timed out (image pull?)'') [])), w')
      | (Exited status out err, w') \<Rightarrow>
          (if status \<noteq> 0
           then Inl (Raised (SourceUnavailable (''cannot start postgres container from image '' @ py_repr img @ '': '' @ tail_text err) []))
           else Inr (), w'))"

definition mapped_port :: "'w docker \<Rightarrow> string \<Rightarrow> ('w, string) io" where
  "mapped_port dk name w =
     (case dk (PortOf name) w of
        (Exited status out err, w') \<Rightarrow>
          (if status \<noteq> 0 \<or> strip out = []
           then Inl (Raised (SourceUnavailable (''cannot resolve mapped port for container '' @ name @ '': '' @ tail_text err) []))
           else let line = hd (splitlines out) in
             if CHR '':'' \<in> set line then Inr (strip (rev (takeWhile (\<lambda>c. c \<noteq> CHR '':'') (rev line))))
             else Inl (Escaping ''IndexError''), w')
      | (a, w') \<Rightarrow> (Inl (escaping_answer a), w'))"

definition await_ready :: "'w docker \<Rightarrow> string \<Rightarrow> ('w, unit) io" where
  "await_ready dk dsn w =
     (case dk (AwaitReady dsn) w of
        (Exited status _ _, w') \<Rightarrow>
          (if status = 0 then Inr ()
           else Inl (Raised (SourceUnavailable ''ephemeral postgres did not become ready within 120s'' [])), w')
      | (a, w') \<Rightarrow> (Inl (escaping_answer a), w'))"

text \<open>The context manager around what is done with the container: the \<open>finally\<close> covers everything after a successful start.\<close>

definition removing :: "'w docker \<Rightarrow> string \<Rightarrow> ('w, 'a) io \<Rightarrow> ('w, 'a) io" where
  "removing dk name m w =
     (case m w of (r, w') \<Rightarrow>
        (case dk (RemoveContainer name) w' of
           (Exited _ _ _, w'') \<Rightarrow> (r, w'')
         | (a, w'') \<Rightarrow> (Inl (escaping_answer a), w'')))"

definition in_container :: "'w docker \<Rightarrow> string \<Rightarrow> (string \<Rightarrow> string \<Rightarrow> ('w, 'a) io) \<Rightarrow> ('w, 'a) io" where
  "in_container dk name body =
     io_bind (mapped_port dk name) (\<lambda>port.
       let dsn = ''postgresql://postgres@127.0.0.1:'' @ port @ ''/postgres'' in
       io_bind (await_ready dk dsn) (\<lambda>_. body name dsn))"

definition ephemeral_postgres :: "'w docker \<Rightarrow> string \<Rightarrow> string \<Rightarrow> (string \<Rightarrow> string \<Rightarrow> ('w, 'a) io) \<Rightarrow> ('w, 'a) io" where
  "ephemeral_postgres dk uuid img body =
     (let name = CONTAINER_PREFIX @ take 12 uuid in
      io_bind (docker_run dk name img) (\<lambda>_. removing dk name (in_container dk name body)))"

fun apply_ddl :: "'w docker \<Rightarrow> string \<Rightarrow> string list \<Rightarrow> ('w, unit) io" where
  "apply_ddl dk name [] = io_return ()"
| "apply_ddl dk name (path # paths) =
     (\<lambda>w. case dk (Psql name path) w of
        (Exited status _ err, w') \<Rightarrow>
          if status \<noteq> 0 then (Inl (Raised (ConfigError (''DDL file '' @ path @ '' rejected by postgres: '' @ tail_text err) [])), w')
          else apply_ddl dk name paths w'
      | (a, w') \<Rightarrow> (Inl (escaping_answer a), w'))"

definition metadata_introspect ::
  "'w pg_reach \<Rightarrow> 'w docker \<Rightarrow> string \<Rightarrow> (string \<Rightarrow> string option) \<Rightarrow> (string, json) dict \<Rightarrow> ('w, introspection) io" where
  "metadata_introspect reach dk uuid environ config =
     io_bind (io_lift (py_item (JObj config) ''mode'')) (\<lambda>mode.
     io_bind
       (if mode = JStr ''live''
        then io_bind (io_lift (live_dsn environ config)) (\<lambda>dsn. introspect_dsn reach dsn (member config ''schemas'') True)
        else io_bind (io_lift (res_bind (py_item (JObj config) ''ddl_files'') (ddl_paths reach))) (\<lambda>files.
             io_bind (io_lift (missing_files reach files)) (\<lambda>_.
             io_bind (io_lift (py_item (JObj config) ''image'')) (\<lambda>img.
               ephemeral_postgres dk uuid (str_json img) (\<lambda>name dsn.
                 io_bind (apply_ddl dk name files) (\<lambda>_. introspect_dsn reach dsn (member config ''schemas'') False))))))
       (\<lambda>(objects, props).
         io_return \<lparr>in_objects = map (\<lambda>ob. RawObject ob None) objects, in_system_class = ''sql'', in_source_properties = Some props\<rparr>))"

text \<open>A container that has been started is removed, whatever happens in it: with a record of the docker calls, the last call of a run
  that started one is its removal.\<close>
theorem container_removed:
  assumes "\<And>call w. calls_of (snd (dk call w)) = calls_of w @ [call]" and "name = CONTAINER_PREFIX @ take 12 uuid"
    and "dk (RunContainer name img) w = (Exited 0 out err, w1)"
  shows "\<exists>calls. calls_of (snd (ephemeral_postgres dk uuid img body w)) = calls @ [RemoveContainer name]"
proof -
  have run: "docker_run dk name img w = (Inr (), w1)" by (simp add: docker_run_def assms(3))
  define m where "m = in_container dk name body"
  have "snd (removing dk name m w1) = snd (dk (RemoveContainer name) (snd (m w1)))"
    by (auto simp: removing_def split: prod.splits docker_answer.splits)
  moreover have "ephemeral_postgres dk uuid img body w = removing dk name m w1"
    unfolding ephemeral_postgres_def Let_def assms(2) [symmetric] m_def
    by (rule io_bind_simps(2) [where m = "docker_run dk name img", OF run])
  ultimately show ?thesis using assms(1) by auto
qed

theorem container_removed_witness:
  "\<exists>calls. snd (ephemeral_postgres (\<lambda>call calls. (Exited 0 ''127.0.0.1:5433'' [], calls @ [call])) ''c0ffee'' ''postgres:16''
     (\<lambda>_ _. io_raise (SourceUnavailable ''lost'' [])) []) = calls @ [RemoveContainer ''ctxlayer-pg-c0ffee'']"
  by (rule container_removed [of "\<lambda>calls. calls" _ _ _ _ _ "''127.0.0.1:5433''" "[]" "[RunContainer ''ctxlayer-pg-c0ffee'' ''postgres:16'']"])
    (simp_all add: CONTAINER_PREFIX_def)

end
