(* ===== verification/Pbi_Reference.thy ===== *)
theory Pbi_Reference
  imports Api_Io
begin

text \<open>
  The pinned surface of Power BI (\<open>src/connectors/powerbi/reference.py\<close>): the endpoints as data, the construction of a URL from a pinned
  template, the gate every outgoing request passes, the field sets of request bodies and the map of column types. The reference
  pages themselves are documentation and are left out, but for the key an endpoint names. The dash of the messages is written \<open>--\<close>.
\<close>

section \<open>The pinned surface\<close>

record reference_page =
  rf_url :: string
  rf_retrieved :: string

definition REFERENCES :: "(string, reference_page) dict" where
  "REFERENCES =
     [
      (''entra-client-credentials'', \<lparr>rf_url = ''https://learn.microsoft.com/en-us/entra/identity-platform/v2-oauth2-client-creds-grant-flow'', rf_retrieved = ''2026-07-29''\<rparr>),
      (''pbi-sp-scope'', \<lparr>rf_url = ''https://learn.microsoft.com/en-us/power-bi/developer/embedded/embed-service-principal-certificate'', rf_retrieved = ''2026-07-29''\<rparr>),
      (''pbi-service-principal'', \<lparr>rf_url = ''https://learn.microsoft.com/en-us/power-bi/developer/embedded/embed-service-principal'', rf_retrieved = ''2026-07-29''\<rparr>),
      (''push-datasets-index'', \<lparr>rf_url = ''https://learn.microsoft.com/en-us/rest/api/power-bi/push-datasets'', rf_retrieved = ''2026-07-29''\<rparr>),
      (''push-post-dataset-in-group'', \<lparr>rf_url = ''https://learn.microsoft.com/en-us/rest/api/power-bi/push-datasets/datasets-post-dataset-in-group'', rf_retrieved = ''2026-07-29''\<rparr>),
      (''push-post-rows-in-group'', \<lparr>rf_url = ''https://learn.microsoft.com/en-us/rest/api/power-bi/push-datasets/datasets-post-rows-in-group'', rf_retrieved = ''2026-07-29''\<rparr>),
      (''push-delete-rows-in-group'', \<lparr>rf_url = ''https://learn.microsoft.com/en-us/rest/api/power-bi/push-datasets/datasets-delete-rows-in-group'', rf_retrieved = ''2026-07-29''\<rparr>),
      (''push-put-table-in-group'', \<lparr>rf_url = ''https://learn.microsoft.com/en-us/rest/api/power-bi/push-datasets/datasets-put-table-in-group'', rf_retrieved = ''2026-07-29''\<rparr>),
      (''push-get-tables-in-group'', \<lparr>rf_url = ''https://learn.microsoft.com/en-us/rest/api/power-bi/push-datasets/datasets-get-tables-in-group'', rf_retrieved = ''2026-07-29''\<rparr>),
      (''push-limitations'', \<lparr>rf_url = ''https://learn.microsoft.com/en-us/power-bi/developer/embedded/push-datasets-limitations'', rf_retrieved = ''2026-07-29''\<rparr>),
      (''pbi-datatype-enum'', \<lparr>rf_url = ''https://learn.microsoft.com/en-us/powershell/module/microsoftpowerbimgmt.data/new-powerbicolumn?view=powerbi-ps'', rf_retrieved = ''2026-07-29''\<rparr>),
      (''datasets-get-in-group'', \<lparr>rf_url = ''https://learn.microsoft.com/en-us/rest/api/power-bi/datasets/get-datasets-in-group'', rf_retrieved = ''2026-07-29''\<rparr>),
      (''datasets-delete-in-group'', \<lparr>rf_url = ''https://learn.microsoft.com/en-us/rest/api/power-bi/datasets/delete-dataset-in-group'', rf_retrieved = ''2026-07-29''\<rparr>),
      (''groups-get-groups'', \<lparr>rf_url = ''https://learn.microsoft.com/en-us/rest/api/power-bi/groups/get-groups'', rf_retrieved = ''2026-07-29''\<rparr>),
      (''users-refresh-permissions'', \<lparr>rf_url = ''https://learn.microsoft.com/en-us/rest/api/power-bi/users/refresh-user-permissions'', rf_retrieved = ''2026-07-29''\<rparr>),
      (''reports-get-in-group'', \<lparr>rf_url = ''https://learn.microsoft.com/en-us/rest/api/power-bi/reports/get-report-in-group'', rf_retrieved = ''2026-07-29''\<rparr>),
      (''fabric-create-report'', \<lparr>rf_url = ''https://learn.microsoft.com/en-us/rest/api/fabric/report/items/create-report'', rf_retrieved = ''2026-07-29''\<rparr>),
      (''fabric-update-report-definition'', \<lparr>rf_url = ''https://learn.microsoft.com/en-us/rest/api/fabric/report/items/update-report-definition'', rf_retrieved = ''2026-07-29''\<rparr>),
      (''fabric-get-report-definition'', \<lparr>rf_url = ''https://learn.microsoft.com/en-us/rest/api/fabric/report/items/get-report-definition'', rf_retrieved = ''2026-07-29''\<rparr>),
      (''fabric-list-reports'', \<lparr>rf_url = ''https://learn.microsoft.com/en-us/rest/api/fabric/report/items/list-reports'', rf_retrieved = ''2026-07-29''\<rparr>),
      (''fabric-lro'', \<lparr>rf_url = ''https://learn.microsoft.com/en-us/rest/api/fabric/articles/long-running-operation'', rf_retrieved = ''2026-07-29''\<rparr>),
      (''fabric-report-definition'', \<lparr>rf_url = ''https://learn.microsoft.com/en-us/rest/api/fabric/articles/item-management/definitions/report-definition'', rf_retrieved = ''2026-07-29''\<rparr>),
      (''realtime-retirement'', \<lparr>rf_url = ''https://learn.microsoft.com/en-us/power-bi/connect-data/service-real-time-streaming'', rf_retrieved = ''2026-07-29''\<rparr>)]"

record endpoint =
  ep_method :: string
  ep_template :: string
  ep_ref :: string

definition LOGIN_BASE :: string where
  "LOGIN_BASE = ''https://login.microsoftonline.com''"

definition PBI_API_BASE :: string where
  "PBI_API_BASE = ''https://api.powerbi.com/v1.0/myorg''"

definition FABRIC_API_BASE :: string where
  "FABRIC_API_BASE = ''https://api.fabric.microsoft.com/v1''"

definition REPORT_WEB_BASE :: string where
  "REPORT_WEB_BASE = ''https://app.powerbi.com''"

definition PBI_SCOPE :: string where
  "PBI_SCOPE = ''https://analysis.windows.net/powerbi/api/.default''"

definition FABRIC_SCOPE :: string where
  "FABRIC_SCOPE = ''https://api.fabric.microsoft.com/.default''"

definition ENDPOINTS :: "(string, endpoint) dict" where
  "ENDPOINTS =
     [
      (''token'', \<lparr>ep_method = ''POST'', ep_template = LOGIN_BASE @ ''/{tenantId}/oauth2/v2.0/token'',
        ep_ref = ''entra-client-credentials''\<rparr>),
      (''groups.list'', \<lparr>ep_method = ''GET'', ep_template = PBI_API_BASE @ ''/groups'',
        ep_ref = ''groups-get-groups''\<rparr>),
      (''users.refresh_permissions'', \<lparr>ep_method = ''POST'', ep_template = PBI_API_BASE @ ''/RefreshUserPermissions'',
        ep_ref = ''users-refresh-permissions''\<rparr>),
      (''datasets.list_in_group'', \<lparr>ep_method = ''GET'', ep_template = PBI_API_BASE @ ''/groups/{groupId}/datasets'',
        ep_ref = ''datasets-get-in-group''\<rparr>),
      (''push.create_dataset'', \<lparr>ep_method = ''POST'', ep_template = PBI_API_BASE @ ''/groups/{groupId}/datasets'',
        ep_ref = ''push-post-dataset-in-group''\<rparr>),
      (''push.get_tables'', \<lparr>ep_method = ''GET'', ep_template = PBI_API_BASE @ ''/groups/{groupId}/datasets/{datasetId}/tables'',
        ep_ref = ''push-get-tables-in-group''\<rparr>),
      (''push.put_table'', \<lparr>ep_method = ''PUT'', ep_template = PBI_API_BASE @ ''/groups/{groupId}/datasets/{datasetId}/tables/{tableName}'',
        ep_ref = ''push-put-table-in-group''\<rparr>),
      (''push.post_rows'', \<lparr>ep_method = ''POST'', ep_template = PBI_API_BASE @ ''/groups/{groupId}/datasets/{datasetId}/tables/{tableName}/rows'',
        ep_ref = ''push-post-rows-in-group''\<rparr>),
      (''push.delete_rows'', \<lparr>ep_method = ''DELETE'', ep_template = PBI_API_BASE @ ''/groups/{groupId}/datasets/{datasetId}/tables/{tableName}/rows'',
        ep_ref = ''push-delete-rows-in-group''\<rparr>),
      (''datasets.delete'', \<lparr>ep_method = ''DELETE'', ep_template = PBI_API_BASE @ ''/groups/{groupId}/datasets/{datasetId}'',
        ep_ref = ''datasets-delete-in-group''\<rparr>),
      (''reports.get_in_group'', \<lparr>ep_method = ''GET'', ep_template = PBI_API_BASE @ ''/groups/{groupId}/reports/{reportId}'',
        ep_ref = ''reports-get-in-group''\<rparr>),
      (''fabric.list_reports'', \<lparr>ep_method = ''GET'', ep_template = FABRIC_API_BASE @ ''/workspaces/{workspaceId}/reports'',
        ep_ref = ''fabric-list-reports''\<rparr>),
      (''fabric.create_report'', \<lparr>ep_method = ''POST'', ep_template = FABRIC_API_BASE @ ''/workspaces/{workspaceId}/reports'',
        ep_ref = ''fabric-create-report''\<rparr>),
      (''fabric.update_report_definition'', \<lparr>ep_method = ''POST'', ep_template = FABRIC_API_BASE @ ''/workspaces/{workspaceId}/reports/{reportId}/updateDefinition'',
        ep_ref = ''fabric-update-report-definition''\<rparr>),
      (''fabric.get_report_definition'', \<lparr>ep_method = ''POST'', ep_template = FABRIC_API_BASE @ ''/workspaces/{workspaceId}/reports/{reportId}/getDefinition'',
        ep_ref = ''fabric-get-report-definition''\<rparr>),
      (''fabric.operation_state'', \<lparr>ep_method = ''GET'', ep_template = FABRIC_API_BASE @ ''/operations/{operationId}'',
        ep_ref = ''fabric-lro''\<rparr>),
      (''fabric.operation_result'', \<lparr>ep_method = ''GET'', ep_template = FABRIC_API_BASE @ ''/operations/{operationId}/result'',
        ep_ref = ''fabric-lro''\<rparr>)]"

definition ENDPOINT_QUERY_PARAMS :: "(string, string list) dict" where
  "ENDPOINT_QUERY_PARAMS =
     [(''push.create_dataset'', [''defaultRetentionPolicy'']),
      (''groups.list'', [''$filter'', ''$skip'', ''$top'']),
      (''fabric.update_report_definition'', [''updateMetadata'']),
      (''fabric.get_report_definition'', [''format'']),
      (''fabric.list_reports'', [''continuationToken'', ''recursive'', ''rootFolderId''])]"

definition EMITTABLE_FIELDS :: "(string, string list) dict" where
  "EMITTABLE_FIELDS =
     [(''create_dataset'', [''defaultMode'', ''name'', ''relationships'', ''tables'']),
      (''table'', [''columns'', ''measures'', ''name'']),
      (''column'', [''dataType'', ''formatString'', ''name'']),
      (''measure'', [''expression'', ''formatString'', ''name'']),
      (''relationship'', [''crossFilteringBehavior'', ''fromColumn'', ''fromTable'', ''name'', ''toColumn'', ''toTable'']),
      (''post_rows'', [''rows'']),
      (''fabric_create_report'', [''definition'', ''description'', ''displayName'']),
      (''fabric_update_definition'', [''definition'']),
      (''fabric_definition'', [''format'', ''parts'']),
      (''fabric_definition_part'', [''path'', ''payload'', ''payloadType''])]"

definition PBI_DATA_TYPES :: "string list" where
  "PBI_DATA_TYPES = [''Int64'', ''Double'', ''Boolean'', ''DateTime'', ''String'']"

definition REPORT_WEB_URL_TEMPLATE :: string where
  "REPORT_WEB_URL_TEMPLATE = REPORT_WEB_BASE @ ''/groups/{groupId}/reports/{reportId}''"

definition PUSH_LIMITS :: "(string, nat) dict" where
  "PUSH_LIMITS =
     [(''max_tables'', 75), (''max_columns_per_table'', 75), (''max_relationships'', 75), (''max_rows_per_post'', 10000),
      (''max_rows_per_hour'', 1000000), (''max_pending_post_requests'', 5), (''max_post_requests_per_minute'', 120),
      (''max_rows_per_table_none_retention'', 5000000), (''max_string_value_chars'', 4000)]"

definition push_limit_of :: "string \<Rightarrow> nat" where
  "push_limit_of k = the (dict_get PUSH_LIMITS k)"

section \<open>Templates\<close>

text \<open>A template as its characters and its placeholders \<open>{name}\<close>, with a name of letters\<close>

datatype part = Chr char | Hole string

function template_parts :: "string \<Rightarrow> part list" where
  "template_parts [] = []"
| "template_parts (c # s) =
     (if c = CHR ''{'' \<and> takeWhile is_alpha_ascii s \<noteq> [] \<and> take 1 (dropWhile is_alpha_ascii s) = ''}''
      then Hole (takeWhile is_alpha_ascii s) # template_parts (tl (dropWhile is_alpha_ascii s))
      else Chr c # template_parts s)"
  by pat_completeness auto
termination
  by (relation "measure length") (auto intro!: le_imp_less_Suc order_trans [OF diff_le_self] simp: length_dropWhile_le)

definition holes :: "part list \<Rightarrow> string list" where
  "holes ps = concat (map (\<lambda>p. case p of Hole n \<Rightarrow> [n] | Chr _ \<Rightarrow> []) ps)"

definition fill_parts :: "(string \<Rightarrow> string) \<Rightarrow> part list \<Rightarrow> string" where
  "fill_parts f ps = concat (map (\<lambda>p. case p of Chr c \<Rightarrow> [c] | Hole n \<Rightarrow> f n) ps)"

text \<open>The alphabet of parameter values\<close>

definition safe_char :: "char \<Rightarrow> bool" where
  "safe_char c \<longleftrightarrow> is_alpha_ascii c \<or> is_digit c \<or> c \<in> set ''-_.''"

definition safe_value :: "string \<Rightarrow> bool" where
  "safe_value v \<longleftrightarrow> v \<noteq> [] \<and> list_all safe_char v"

section \<open>The gates\<close>

definition sorted_names :: "string list \<Rightarrow> string" where
  "sorted_names ns = join '', '' (sort (remdups ns))"

definition none_if_empty :: "string \<Rightarrow> string" where
  "none_if_empty s = (if s = [] then ''none'' else s)"

definition unpinned_endpoint :: "string \<Rightarrow> connector_error" where
  "unpinned_endpoint name =
     ConfigError (''endpoint '' @ py_repr name @ '' is not in the pinned Microsoft surface (known: '' @ sorted_names (dict_keys ENDPOINTS)
       @ ''). Pin it in connectors/powerbi/reference.py with its reference URL and ''
       @ ''retrieval date before emitting it (report-authoring spec '' @ CHR 0xa7 # ''9).'') []"

definition parameter_mismatch :: "string \<Rightarrow> string list \<Rightarrow> string list \<Rightarrow> connector_error" where
  "parameter_mismatch name needed given =
     ConfigError (''endpoint '' @ py_repr name @ '' takes parameters ['' @ sorted_names needed @ ''] -- missing: ''
       @ none_if_empty (sorted_names (filter (\<lambda>k. k \<notin> set given) needed)) @ ''; unexpected: ''
       @ none_if_empty (sorted_names (filter (\<lambda>k. k \<notin> set needed) given))) []"

definition unsafe_parameter :: "string \<Rightarrow> string \<Rightarrow> string \<Rightarrow> connector_error" where
  "unsafe_parameter name key value =
     ConfigError (''endpoint '' @ py_repr name @ '' parameter '' @ key @ ''='' @ py_repr value
       @ '' contains characters outside the pinned id/name alphabet; refusing to build a URL whose ''
       @ ''shape the reference does not document'') []"

definition pinned_endpoint :: "string \<Rightarrow> (string, string) dict \<Rightarrow> (connector_error, string \<times> string) result" where
  "pinned_endpoint name params =
     (case dict_get ENDPOINTS name of
        None \<Rightarrow> Inl (unpinned_endpoint name)
      | Some entry \<Rightarrow>
          let ps = template_parts (ep_template entry) in
          if set (holes ps) \<noteq> set (dict_keys params) then Inl (parameter_mismatch name (holes ps) (dict_keys params))
          else (case List.find (\<lambda>(_, value). \<not> safe_value value) params of
                  Some (key, value) \<Rightarrow> Inl (unsafe_parameter name key value)
                | None \<Rightarrow> Inr (ep_method entry, fill_parts (\<lambda>n. the (dict_get params n)) ps)))"

definition repr_names :: "string list \<Rightarrow> string" where
  "repr_names ns = repr_json (JList (map JStr (sort (remdups ns))))"

definition pinned_query_params :: "string \<Rightarrow> (string, string) dict \<Rightarrow> (connector_error, unit) result" where
  "pinned_query_params name params =
     (let allowed = (case dict_get ENDPOINT_QUERY_PARAMS name of Some ns \<Rightarrow> ns | None \<Rightarrow> []);
          unknown = filter (\<lambda>k. k \<notin> set allowed) (dict_keys params)
      in if unknown \<noteq> []
         then Inl (ConfigError (''endpoint '' @ py_repr name @ '' documents query parameters '' @ repr_names allowed @ ''; ''
           @ repr_names unknown @ '' is outside the pinned set (report-authoring spec '' @ CHR 0xa7 # ''9)'') [])
         else Inr ())"

text \<open>\<open>re.fullmatch\<close> of the pattern of a template: a placeholder stands for a part of one or more safe characters.\<close>

fun fits_template :: "part list \<Rightarrow> string \<Rightarrow> bool" where
  "fits_template [] s \<longleftrightarrow> s = []"
| "fits_template (Chr c # ps) s \<longleftrightarrow> s \<noteq> [] \<and> hd s = c \<and> fits_template ps (tl s)"
| "fits_template (Hole _ # ps) s \<longleftrightarrow> list_ex (\<lambda>n. safe_value (take n s) \<and> fits_template ps (drop n s)) [1..<Suc (length s)]"

definition bare_url :: "string \<Rightarrow> string" where
  "bare_url url = takeWhile (\<lambda>c. c \<noteq> CHR ''?'') url"

definition pinned_request :: "string \<Rightarrow> string \<Rightarrow> (connector_error, string) result" where
  "pinned_request http_method url =
     (case List.find (\<lambda>(_, e). ep_method e = http_method \<and> fits_template (template_parts (ep_template e)) (bare_url url)) ENDPOINTS of
        Some (name, _) \<Rightarrow> Inr name
      | None \<Rightarrow> Inl (ConfigError (http_method @ '' '' @ bare_url url @ '' matches no pinned Microsoft endpoint ''
          @ ''(connectors/powerbi/reference.py). Refusing to emit a request the ''
          @ ''pinned reference set does not document (report-authoring spec '' @ CHR 0xa7 # ''9 / D-89).'') []))"

definition assert_emitted_fields :: "string \<Rightarrow> string list \<Rightarrow> (connector_error, unit) result" where
  "assert_emitted_fields kind fields_given =
     (case dict_get EMITTABLE_FIELDS kind of
        None \<Rightarrow> Inl (ConfigError (''body kind '' @ py_repr kind @ '' has no pinned field set (known: ''
          @ sorted_names (dict_keys EMITTABLE_FIELDS) @ '')'') [])
      | Some allowed \<Rightarrow>
          let unknown = filter (\<lambda>k. k \<notin> set allowed) fields_given in
          if unknown \<noteq> []
          then Inl (ConfigError (kind @ '' body carries fields outside the pinned '' @ repr_names allowed @ '': '' @ repr_names unknown
            @ ''. Pin new fields with their reference before emitting them (report-authoring spec '' @ CHR 0xa7 # ''9).'') [])
          else Inr ())"

section \<open>The map of types\<close>

definition INT_TYPES :: "string list" where
  "INT_TYPES = [''int2'', ''int4'', ''int8'', ''smallint'', ''integer'', ''bigint'']"

definition FLOAT_TYPES :: "string list" where
  "FLOAT_TYPES = [''float4'', ''float8'', ''real'', ''double precision'']"

definition NUMERIC_TYPES :: "string list" where
  "NUMERIC_TYPES = [''numeric'', ''decimal'']"

definition BOOL_TYPES :: "string list" where
  "BOOL_TYPES = [''bool'', ''boolean'']"

definition TEMPORAL_TYPES :: "string list" where
  "TEMPORAL_TYPES = [''date'', ''timestamp'', ''timestamptz'', ''timestamp with time zone'', ''timestamp without time zone'', ''datetime'']"

definition qe5_to_pbi_type :: "string \<Rightarrow> string \<times> string option" where
  "qe5_to_pbi_type source_type =
     (let lowered = strip (map to_lower source_type) in
      if lowered \<in> set INT_TYPES then (''Int64'', None)
      else if lowered \<in> set FLOAT_TYPES then (''Double'', None)
      else if lowered \<in> set NUMERIC_TYPES then
        (''Double'', Some (''source '' @ source_type @ '' delivered as Double (the pinned Power BI type set ''
          @ ''has no Decimal); values beyond IEEE-754 float64 exact range lose ''
          @ ''precision -- QE-5 kept the exact string, this model column does not''))
      else if lowered \<in> set BOOL_TYPES then (''Boolean'', None)
      else if lowered \<in> set TEMPORAL_TYPES then (''DateTime'', None)
      else (''String'', None))"

section \<open>What the gates admit\<close>

text \<open>Everything pinned names a retrieved page, and the map of types stays in the published set.\<close>

lemma endpoints_referenced: "list_all (\<lambda>(_, e). dict_has REFERENCES (ep_ref e)) ENDPOINTS"
  by code_simp

lemma pbi_type_published: "fst (qe5_to_pbi_type t) \<in> set PBI_DATA_TYPES"
  by (simp add: qe5_to_pbi_type_def PBI_DATA_TYPES_def Let_def)

lemma parts_simps [simp]:
  "holes [] = []" "holes (Chr c # ps) = holes ps" "holes (Hole n # ps) = n # holes ps"
  "fill_parts f [] = []" "fill_parts f (Chr c # ps) = c # fill_parts f ps" "fill_parts f (Hole n # ps) = f n @ fill_parts f ps"
  by (simp_all add: holes_def fill_parts_def)

lemma fill_parts_cong: "(\<And>n. n \<in> set (holes ps) \<Longrightarrow> f n = g n) \<Longrightarrow> fill_parts f ps = fill_parts g ps"
proof (induction ps)
  case (Cons p ps)
  then show ?case by (cases p) simp_all
qed simp

lemma fits_fill: "list_all (\<lambda>n. safe_value (f n)) (holes ps) \<Longrightarrow> fits_template ps (fill_parts f ps)"
proof (induction ps)
  case (Cons p ps)
  then show ?case
    by (cases p) (auto simp: list_ex_iff safe_value_def Suc_le_eq intro!: bexI [of _ "length (f _)"])
qed simp

lemma fits_iff_fill:
  "distinct (holes ps) \<Longrightarrow> fits_template ps s \<longleftrightarrow> (\<exists>f. s = fill_parts f ps \<and> list_all (\<lambda>n. safe_value (f n)) (holes ps))"
proof (induction ps arbitrary: s)
  case (Cons p ps)
  show ?case
  proof (cases p)
    case (Chr c)
    then show ?thesis using Cons by (cases s) auto
  next
    case (Hole h)
    have "\<exists>f. s = fill_parts f (p # ps) \<and> list_all (\<lambda>n. safe_value (f n)) (holes (p # ps))"
      if t: "safe_value (take n s)" "fits_template ps (drop n s)" for n
    proof -
      obtain f where f: "drop n s = fill_parts f ps" "list_all (\<lambda>n. safe_value (f n)) (holes ps)"
        using Cons t(2) Hole by auto
      have "fill_parts (f(h := take n s)) ps = fill_parts f ps"
        using Cons.prems Hole by (intro fill_parts_cong) auto
      then have "s = fill_parts (f(h := take n s)) (p # ps)" using f(1) Hole by (metis append_take_drop_id fun_upd_same parts_simps(6))
      moreover have "list_all (\<lambda>m. safe_value ((f(h := take n s)) m)) (holes (p # ps))"
        using f(2) t(1) Hole by (auto simp: list_all_iff)
      ultimately show ?thesis by blast
    qed
    then show ?thesis using fits_fill [of _ "p # ps"] by (auto simp: Hole list_ex_iff)
  qed
qed auto

text \<open>A template whose placeholders end where the safe alphabet ends is matched in one way.\<close>

fun tidy :: "part list \<Rightarrow> bool" where
  "tidy [] \<longleftrightarrow> True"
| "tidy (Chr c # ps) \<longleftrightarrow> tidy ps"
| "tidy (Hole n # ps) \<longleftrightarrow> (case ps of [] \<Rightarrow> True | Chr c # _ \<Rightarrow> \<not> safe_char c | Hole _ # _ \<Rightarrow> False) \<and> tidy ps"

lemma fits_Hole:
  assumes "tidy (Hole n # ps)"
  shows "fits_template (Hole n # ps) s \<longleftrightarrow> takeWhile safe_char s \<noteq> [] \<and> fits_template ps (dropWhile safe_char s)"
proof -
  have one: "takeWhile safe_char s = take k s \<and> dropWhile safe_char s = drop k s"
    if "safe_value (take k s)" "fits_template ps (drop k s)" for k
  proof -
    have "drop k s = [] \<or> \<not> safe_char (hd (drop k s))"
      using assms that(2) by (cases ps) (auto split: part.splits)
    then have "takeWhile safe_char (drop k s) = []" "dropWhile safe_char (drop k s) = drop k s"
      by (cases "drop k s"; simp)+
    moreover have "\<forall>c\<in>set (take k s). safe_char c" using that(1) by (simp add: safe_value_def list_all_iff)
    ultimately show ?thesis
      using takeWhile_append2 [of "take k s" safe_char "drop k s"] dropWhile_append2 [of "take k s" safe_char "drop k s"] by simp
  qed
  have some: "\<exists>k. 1 \<le> k \<and> k \<le> length s \<and> safe_value (take k s) \<and> fits_template ps (drop k s)"
    if "takeWhile safe_char s \<noteq> []" "fits_template ps (dropWhile safe_char s)"
  proof (intro exI conjI)
    let ?k = "length (takeWhile safe_char s)"
    show "1 \<le> ?k" using that(1) by (simp add: Suc_le_eq)
    show "?k \<le> length s" by (rule length_takeWhile_le)
    show "safe_value (take ?k s)" "fits_template ps (drop ?k s)"
      using that by (auto simp: safe_value_def list_all_iff dropWhile_eq_drop simp flip: takeWhile_eq_take dest: set_takeWhileD)
  qed
  have "fits_template (Hole n # ps) s \<longleftrightarrow> (\<exists>k. 1 \<le> k \<and> k \<le> length s \<and> safe_value (take k s) \<and> fits_template ps (drop k s))"
    by (auto simp: list_ex_iff Suc_le_eq less_Suc_eq_le)
  moreover have "takeWhile safe_char s \<noteq> []" if "safe_value (take k s)" "fits_template ps (drop k s)" for k
    using one [OF that] that(1) by (simp add: safe_value_def)
  ultimately show ?thesis using one some by metis
qed

lemma tidy_tl: "tidy (p # ps) \<Longrightarrow> tidy ps"
  by (cases p) auto


text \<open>A check that no URL has the shape of two templates; \<open>False\<close> says nothing.\<close>

fun safe_run :: "part list \<Rightarrow> part list option" where
  "safe_run [] = Some []"
| "safe_run (Chr c # ps) = (if safe_char c then safe_run ps else Some (Chr c # ps))"
| "safe_run (Hole n # ps) = None"

lemma safe_run_length: "safe_run ps = Some qs \<Longrightarrow> length qs \<le> length ps"
  by (induction ps rule: safe_run.induct) (auto split: if_splits)

lemma safe_run_tidy: "safe_run ps = Some qs \<Longrightarrow> tidy ps \<Longrightarrow> tidy qs"
  by (induction ps rule: safe_run.induct) (auto split: if_splits)

lemma fits_safe_run: "safe_run ps = Some qs \<Longrightarrow> fits_template ps s \<Longrightarrow> fits_template qs (dropWhile safe_char s)"
proof (induction ps arbitrary: s rule: safe_run.induct)
  case (2 c ps)
  then show ?case by (cases s) (auto split: if_splits)
qed auto

function clash :: "part list \<Rightarrow> part list \<Rightarrow> bool" where
  "clash [] [] = False"
| "clash [] (q # qs) = True"
| "clash (p # ps) [] = True"
| "clash (Chr c # ps) (Chr d # qs) = (c \<noteq> d \<or> clash ps qs)"
| "clash (Hole m # ps) (Hole n # qs) = clash ps qs"
| "clash (Hole m # ps) (Chr d # qs) = (case safe_run (Chr d # qs) of None \<Rightarrow> False | Some rest \<Rightarrow> clash ps rest)"
| "clash (Chr c # ps) (Hole n # qs) = (case safe_run (Chr c # ps) of None \<Rightarrow> False | Some rest \<Rightarrow> clash rest qs)"
  by pat_completeness auto
termination
  by (relation "measure (\<lambda>(ps, qs). length ps + length qs)") (auto dest!: safe_run_length split: if_splits)

lemma fits_nonempty: "fits_template (p # ps) s \<Longrightarrow> s \<noteq> []"
  by (cases p) (auto simp: list_ex_iff)

lemma clash_sound: "clash ps qs \<Longrightarrow> tidy ps \<Longrightarrow> tidy qs \<Longrightarrow> fits_template ps s \<Longrightarrow> fits_template qs s \<Longrightarrow> False"
proof (induction ps qs arbitrary: s rule: clash.induct)
  case (4 c ps d qs)
  then show ?case by (cases s) auto
next
  case (5 m ps n qs)
  then show ?case using fits_Hole [of m ps s] fits_Hole [of n qs s] tidy_tl by (metis clash.simps(5))
next
  case (6 m ps d qs)
  obtain rest where r: "safe_run (Chr d # qs) = Some rest" "clash ps rest" using 6(2) by (auto split: option.splits if_splits)
  show ?case
    using 6(1) [OF r(1,2)] 6(3-6) fits_Hole [OF 6(3)] fits_safe_run [OF r(1) 6(6)] safe_run_tidy [OF r(1) 6(4)] tidy_tl [OF 6(3)] by blast
next
  case (7 c ps n qs)
  obtain rest where r: "safe_run (Chr c # ps) = Some rest" "clash rest qs" using 7(2) by (auto split: option.splits if_splits)
  show ?case
    using 7(1) [OF r(1,2)] 7(3-6) fits_Hole [OF 7(4)] fits_safe_run [OF r(1) 7(5)] safe_run_tidy [OF r(1) 7(3)] tidy_tl [OF 7(4)] by blast
qed (auto dest: fits_nonempty)


text \<open>The pinned templates are of this form, and those of one method clash.\<close>

definition endpoint_parts :: "endpoint \<Rightarrow> part list" where
  "endpoint_parts e = template_parts (ep_template e)"

lemma endpoints_tidy: "list_all (\<lambda>(_, e). tidy (endpoint_parts e) \<and> distinct (holes (endpoint_parts e))) ENDPOINTS"
  by code_simp

lemma endpoints_clash:
  "sorted_wrt (\<lambda>(m, ps) (m', ps'). m \<noteq> m' \<or> clash ps ps') (map (\<lambda>(n, e). (ep_method e, endpoint_parts e)) ENDPOINTS)"
  by code_simp

lemma endpoint_names: "distinct (map fst ENDPOINTS)"
  by code_simp


definition shape_of :: "string \<Rightarrow> string \<times> endpoint \<Rightarrow> string \<Rightarrow> bool" where
  "shape_of http_method entry s \<longleftrightarrow> ep_method (snd entry) = http_method \<and> fits_template (endpoint_parts (snd entry)) s"

lemma endpoint_shape_unique:
  assumes "x \<in> set ENDPOINTS" and "y \<in> set ENDPOINTS" and "shape_of m x s" and "shape_of m y s"
  shows "x = y"
proof (rule ccontr)
  assume "x \<noteq> y"
  have no: "\<not> (\<exists>i j. i < j \<and> j < length ENDPOINTS \<and> shape_of m (ENDPOINTS ! i) s \<and> shape_of m (ENDPOINTS ! j) s)"
  proof clarify
    fix i j assume ij: "i < j" "j < length ENDPOINTS" and fit: "shape_of m (ENDPOINTS ! i) s" "shape_of m (ENDPOINTS ! j) s"
    have "clash (endpoint_parts (snd (ENDPOINTS ! i))) (endpoint_parts (snd (ENDPOINTS ! j)))"
      using sorted_wrt_nth_less [OF endpoints_clash, of i j] ij fit by (simp add: shape_of_def case_prod_beta)
    moreover have "tidy (endpoint_parts (snd (ENDPOINTS ! k)))" if "k < length ENDPOINTS" for k
      using endpoints_tidy that by (auto simp: list_all_length case_prod_beta)
    ultimately show False using clash_sound fit ij by (fastforce simp: shape_of_def)
  qed
  obtain i j where "i < length ENDPOINTS" "j < length ENDPOINTS" "ENDPOINTS ! i = x" "ENDPOINTS ! j = y"
    using assms(1,2) by (auto simp: in_set_conv_nth)
  then show False using no assms(3,4) \<open>x \<noteq> y\<close> by (metis linorder_neqE_nat)
qed

lemma pinned_request_iff:
  "pinned_request m url = Inr name \<longleftrightarrow> (\<exists>e. dict_get ENDPOINTS name = Some e \<and> shape_of m (name, e) (bare_url url))"
proof -
  have find: "List.find (\<lambda>(_, e). ep_method e = m \<and> fits_template (template_parts (ep_template e)) (bare_url url)) ENDPOINTS =
      List.find (\<lambda>x. shape_of m x (bare_url url)) ENDPOINTS"
    by (simp add: shape_of_def endpoint_parts_def case_prod_beta')
  have get: "dict_get ENDPOINTS name = Some e \<longleftrightarrow> (name, e) \<in> set ENDPOINTS" for e
    using endpoint_names by simp
  show ?thesis
  proof (cases "List.find (\<lambda>x. shape_of m x (bare_url url)) ENDPOINTS")
    case None
    then have "pinned_request m url \<noteq> Inr name" unfolding pinned_request_def find None by simp
    then show ?thesis using None get by (auto simp: find_None_iff)
  next
    case (Some x)
    obtain n e where x: "x = (n, e)" by (cases x)
    have there: "(n, e) \<in> set ENDPOINTS \<and> shape_of m (n, e) (bare_url url)"
      using Some unfolding x by (metis find_Some_iff nth_mem)
    have "pinned_request m url = Inr name \<longleftrightarrow> n = name" unfolding pinned_request_def find Some x by simp
    then show ?thesis unfolding get using there endpoint_shape_unique by blast
  qed
qed

lemma endpoint_facts:
  assumes "dict_get ENDPOINTS name = Some e"
  shows "distinct (holes (endpoint_parts e))" "tidy (endpoint_parts e)"
  using endpoints_tidy map_of_SomeD [OF assms] by (auto simp: list_all_iff)

text \<open>The gate before the wire admits a request exactly if the URL, without its query, is the template of an endpoint of that
  method with values of the safe alphabet in place of the parameters, and it returns the name of that endpoint.\<close>
theorem pinned_request_exact:
  "pinned_request m url = Inr name \<longleftrightarrow>
     (\<exists>e f. dict_get ENDPOINTS name = Some e \<and> ep_method e = m
        \<and> bare_url url = fill_parts f (template_parts (ep_template e))
        \<and> list_all (\<lambda>n. safe_value (f n)) (holes (template_parts (ep_template e))))"
  unfolding pinned_request_iff shape_of_def
  using endpoint_facts(1) by (auto simp: fits_iff_fill endpoint_parts_def)

lemma fill_chars: "c \<in> set (fill_parts f ps) \<Longrightarrow> Chr c \<in> set ps \<or> (\<exists>n\<in>set (holes ps). c \<in> set (f n))"
proof (induction ps)
  case (Cons p ps)
  then show ?case by (cases p) auto
qed simp

lemma endpoints_no_query: "list_all (\<lambda>(_, e). Chr (CHR ''?'') \<notin> set (endpoint_parts e)) ENDPOINTS"
  by code_simp

lemma pinned_endpoint_Inr:
  "pinned_endpoint name params = Inr (m, url) \<longleftrightarrow>
     (\<exists>e. dict_get ENDPOINTS name = Some e \<and> m = ep_method e \<and> set (holes (endpoint_parts e)) = set (dict_keys params)
        \<and> list_all (\<lambda>(_, v). safe_value v) params \<and> url = fill_parts (\<lambda>n. the (dict_get params n)) (endpoint_parts e))"
proof -
  have "List.find (\<lambda>(_, v). \<not> safe_value v) params = None \<longleftrightarrow> list_all (\<lambda>(_, v). safe_value v) params"
    by (auto simp: find_None_iff list_all_iff)
  then show ?thesis
    by (auto simp: pinned_endpoint_def endpoint_parts_def Let_def split: option.splits if_splits)
qed

lemma pinned_values:
  assumes "set (holes ps) = set (dict_keys params)" and "list_all (\<lambda>(_, v). safe_value v) params"
  shows "list_all (\<lambda>n. safe_value (the (dict_get params n))) (holes ps)"
proof -
  have "safe_value (the (dict_get params n))" if n: "n \<in> fst ` set params" for n
  proof -
    obtain v where v: "dict_get params n = Some v" using n by (metis domD dom_map_of_conv_image_fst)
    then show ?thesis using map_of_SomeD [OF v] assms(2) by (auto simp: list_all_iff)
  qed
  then show ?thesis using assms(1) by (auto simp: list_all_iff dict_keys_def)
qed

lemma safe_value_chars: "safe_value v \<Longrightarrow> c \<in> set v \<Longrightarrow> c \<noteq> CHR ''?'' \<and> c \<noteq> CHR ''/'' \<and> c \<noteq> CHR ''#'' \<and> c \<noteq> CHR ''%''"
  by (auto simp: safe_value_def list_all_iff safe_char_def is_alpha_ascii_def is_digit_def is_upper_def is_lower_def)

lemma pinned_endpoint_gate:
  assumes "pinned_endpoint name params = Inr (m, url)"
  shows "pinned_request m url = Inr name"
proof -
  obtain e where e: "dict_get ENDPOINTS name = Some e" "m = ep_method e" "set (holes (endpoint_parts e)) = set (dict_keys params)"
    "list_all (\<lambda>(_, v). safe_value v) params" "url = fill_parts (\<lambda>n. the (dict_get params n)) (endpoint_parts e)"
    using assms unfolding pinned_endpoint_Inr by blast
  note safe = pinned_values [OF e(3,4)]
  have "(name, e) \<in> set ENDPOINTS" using e(1) by (rule map_of_SomeD)
  then have "Chr (CHR ''?'') \<notin> set (endpoint_parts e)" using endpoints_no_query by (auto simp: list_all_iff)
  then have "CHR ''?'' \<notin> set url" using safe safe_value_chars unfolding e(5) by (fastforce simp: list_all_iff dest!: fill_chars)
  then have "bare_url url = url" by (auto simp: bare_url_def takeWhile_eq_all_conv)
  then show ?thesis using e safe by (auto simp: pinned_request_iff shape_of_def fits_fill)
qed


text \<open>The segments of a template, and of what it becomes when the placeholders are filled\<close>

fun segments :: "part list \<Rightarrow> part list list" where
  "segments [] = [[]]"
| "segments (p # ps) =
     (if p = Chr (CHR ''/'') then [] # segments ps
      else case segments ps of [] \<Rightarrow> [[p]] | q # qs \<Rightarrow> (p # q) # qs)"

lemma segments_Cons: "\<exists>q qs. segments ps = q # qs"
  by (induction ps) (auto split: list.split)

lemma split_on_prefix:
  "c \<notin> set v \<Longrightarrow> split_on c s = y # ys \<Longrightarrow> split_on c (v @ s) = (v @ y) # ys"
  by (induction v) auto

lemma split_fill:
  "list_all (\<lambda>n. CHR ''/'' \<notin> set (f n)) (holes ps) \<Longrightarrow> split_on (CHR ''/'') (fill_parts f ps) = map (fill_parts f) (segments ps)"
proof (induction ps)
  case (Cons p ps)
  obtain q qs where q: "segments ps = q # qs" using segments_Cons by blast
  show ?case
  proof (cases p)
    case (Chr c)
    then show ?thesis using Cons q by simp
  next
    case (Hole n)
    then have "split_on (CHR ''/'') (fill_parts f ps) = map (fill_parts f) (q # qs)" using Cons q by simp
    then show ?thesis using Hole Cons.prems q split_on_prefix [of "CHR ''/''" "f n" "fill_parts f ps" "fill_parts f q"] by simp
  qed
qed simp

lemma segment_parts: "seg \<in> set (segments ps) \<Longrightarrow> set seg \<subseteq> set ps"
proof (induction ps arbitrary: seg)
  case (Cons p ps)
  obtain q qs where "segments ps = q # qs" using segments_Cons by blast
  then show ?case using Cons by (auto split: if_splits) blast+
qed simp

lemma holes_iff: "n \<in> set (holes ps) \<longleftrightarrow> Hole n \<in> set ps"
  by (induction ps) (auto simp: holes_def split: part.splits)

lemma hole_of_segment: "[Hole n] \<in> set (segments ps) \<Longrightarrow> n \<in> set (holes ps)"
  using segment_parts [of "[Hole n]" ps] by (simp add: holes_iff)

definition dot_segments :: "string list" where
  "dot_segments = [''.'', ''..'']"

lemma endpoint_segments:
  "list_all (\<lambda>(_, e). list_all (\<lambda>seg. case seg of [Hole _] \<Rightarrow> True
      | _ \<Rightarrow> holes seg = [] \<and> fill_parts (\<lambda>_. []) seg \<notin> set dot_segments) (segments (endpoint_parts e))) ENDPOINTS"
  by code_simp

lemma pinned_endpoint_segments:
  assumes "pinned_endpoint name params = Inr (m, url)" and "seg \<in> set (split_on (CHR ''/'') url)" and "seg \<in> set dot_segments"
  shows "seg \<in> set (map snd params)"
proof -
  obtain e where e: "dict_get ENDPOINTS name = Some e" "set (holes (endpoint_parts e)) = set (dict_keys params)"
    "list_all (\<lambda>(_, v). safe_value v) params" "url = fill_parts (\<lambda>n. the (dict_get params n)) (endpoint_parts e)"
    using assms(1) unfolding pinned_endpoint_Inr by blast
  let ?f = "\<lambda>n. the (dict_get params n)"
  have "list_all (\<lambda>n. CHR ''/'' \<notin> set (?f n)) (holes (endpoint_parts e))"
    using pinned_values [OF e(2,3)] safe_value_chars by (fastforce simp: list_all_iff)
  then obtain ps where ps: "ps \<in> set (segments (endpoint_parts e))" "seg = fill_parts ?f ps"
    using assms(2) split_fill unfolding e(4) by auto
  have shape: "case ps of [Hole _] \<Rightarrow> True | _ \<Rightarrow> holes ps = [] \<and> fill_parts (\<lambda>_. []) ps \<notin> set dot_segments"
    using endpoint_segments map_of_SomeD [OF e(1)] ps(1) by (fastforce simp: list_all_iff)
  have "\<exists>n. ps = [Hole n]"
  proof (rule ccontr)
    assume "\<nexists>n. ps = [Hole n]"
    then have "holes ps = []" "fill_parts (\<lambda>_. []) ps \<notin> set dot_segments"
      using shape by (auto split: list.splits part.splits)
    then show False using assms(3) ps(2) fill_parts_cong [of ps ?f "\<lambda>_. []"] by simp
  qed
  then obtain n where n: "ps = [Hole n]" by blast
  have "n \<in> set (holes (endpoint_parts e))" using ps(1) unfolding n by (rule hole_of_segment)
  then have "n \<in> fst ` set params" using e(2) by (simp add: dict_keys_def)
  then obtain v where "dict_get params n = Some v" by (metis domD dom_map_of_conv_image_fst)
  then show ?thesis using ps(2) n by (auto dest!: map_of_SomeD intro: rev_image_eqI)
qed

text \<open>C20. A URL built for a pinned endpoint passes the gate before the wire, under the name of that endpoint. The gate is one of text: a
  value may be \<open>.\<close> or \<open>..\<close>, which clients and servers resolve. These are the only dot segments that a URL can have: one that is in
  the URL is the value of a parameter, so without such a value the path is the one of the template.\<close>
theorem pinned_endpoint_admitted:
  assumes "pinned_endpoint name params = Inr (m, url)"
  shows "pinned_request m url = Inr name \<and> set (split_on (CHR ''/'') url) \<inter> set dot_segments \<subseteq> set (map snd params)"
  using pinned_endpoint_gate [OF assms] pinned_endpoint_segments [OF assms] by blast

definition rows_of_sales :: "(string, string) dict" where
  "rows_of_sales = [(''groupId'', ''g-1''), (''datasetId'', ''d-1''), (''tableName'', ''sales'')]"

theorem pinned_endpoint_admitted_witness:
  "pinned_request ''POST'' (PBI_API_BASE @ ''/groups/g-1/datasets/d-1/tables/sales/rows'') = Inr ''push.post_rows''
    \<and> set (split_on (CHR ''/'') (PBI_API_BASE @ ''/groups/g-1/datasets/d-1/tables/sales/rows'')) \<inter> {''.'', ''..''} = {}"
proof -
  have "pinned_endpoint ''push.post_rows'' rows_of_sales = Inr (''POST'', PBI_API_BASE @ ''/groups/g-1/datasets/d-1/tables/sales/rows'')"
    by code_simp
  from pinned_endpoint_admitted [OF this] show ?thesis by (auto simp: dot_segments_def rows_of_sales_def)
qed

text \<open>The alphabet of values has the dot, so a value can be a dot segment, which clients and servers resolve.\<close>

lemma pinned_dot_segment:
  "pinned_endpoint ''push.delete_rows'' [(''groupId'', ''g-1''), (''datasetId'', ''d-1''), (''tableName'', ''..'')] =
   Inr (''DELETE'', PBI_API_BASE @ ''/groups/g-1/datasets/d-1/tables/../rows'')"
  by code_simp

end
