(* ===== verification/Pbi_Client.thy ===== *)
theory Pbi_Client
  imports Pbi_Reference
begin

text \<open>
  The client of the Power BI and Fabric services (\<open>src/connectors/powerbi/client.py\<close>): the token of a scope with its cache, the one
  exit of requests with its retries and its map of statuses, and the wait for a Fabric operation.

  The world is a type variable. The transport, the clock and the sleeper are functions on it; a transport may fail with any
  exception, since \<open>RequestsTransport\<close> lets the exceptions of \<open>requests\<close> through. The cache of tokens is state beside the
  world. Times are in milliseconds; \<open>read_ms\<close> stands for \<open>float(text)\<close> of a delay, \<open>None\<close> for its \<open>ValueError\<close>.
\<close>

section \<open>Requests and answers\<close>

record pbi_request =
  pq_method :: string
  pq_url :: string
  pq_headers :: "(string, string) dict"
  pq_body :: "json option"
  pq_form :: "(string, string) dict option"

type_synonym headers = "(string, string) dict"
type_synonym pbi_answer = "int \<times> headers \<times> json"
type_synonym 'w pbi_transport = "pbi_request \<Rightarrow> ('w, pbi_answer) io"
type_synonym token_cache = "(string, string \<times> int) dict"

record 'w pbi_client =
  bc_tenant :: string
  bc_id :: string
  bc_secret :: string
  bc_overrides :: "(string, string) dict"
  bc_transport :: "'w pbi_transport"
  bc_now :: "'w \<Rightarrow> int"
  bc_sleep :: "int \<Rightarrow> 'w \<Rightarrow> 'w"
  bc_read_ms :: "string \<Rightarrow> int option"

type_synonym 'w pbi_state = "'w \<times> token_cache"
type_synonym ('w, 'a) pbi_io = "('w pbi_state, 'a) io"

definition send_request :: "'w pbi_client \<Rightarrow> pbi_request \<Rightarrow> ('w, pbi_answer) pbi_io" where
  "send_request cl request s = (case bc_transport cl request (fst s) of (r, w') \<Rightarrow> (r, (w', snd s)))"

definition sleep_ms :: "'w pbi_client \<Rightarrow> int \<Rightarrow> ('w, unit) pbi_io" where
  "sleep_ms cl ms s = (if ms < 0 then (Inl (Escaping ''ValueError''), s) else (Inr (), (bc_sleep cl ms (fst s), snd s)))"

definition io_pinned :: "(connector_error, 'a) result \<Rightarrow> 'a attempt" where
  "io_pinned r = (case r of Inl e \<Rightarrow> Inl (Raised e) | Inr a \<Rightarrow> Inr a)"

lemma io_pinned_simps [simp]: "io_pinned (Inl e) = Inl (Raised e)" "io_pinned (Inr a) = Inr a"
  by (simp_all add: io_pinned_def)

section \<open>Headers and error codes\<close>

definition header_text :: "headers \<Rightarrow> string \<Rightarrow> string" where
  "header_text headers name =
     (case List.find (\<lambda>(k, _). map to_lower k = map to_lower name) headers of Some (_, v) \<Rightarrow> v | None \<Rightarrow> [])"

definition retry_after_ms :: "(string \<Rightarrow> int option) \<Rightarrow> headers \<Rightarrow> int option" where
  "retry_after_ms read headers =
     (let raw = header_text headers ''Retry-After'' in if raw \<noteq> [] then read raw else None)"

definition body_error_code :: "json \<Rightarrow> string" where
  "body_error_code body =
     (case body of
        JObj kvs \<Rightarrow>
          (case dict_get kvs ''error'' of
             Some (JObj err) \<Rightarrow>
               (case dict_get err ''code'' of
                  Some (JStr c) \<Rightarrow> c
                | _ \<Rightarrow> (case dict_get kvs ''errorCode'' of Some (JStr c) \<Rightarrow> c | _ \<Rightarrow> []))
           | _ \<Rightarrow> (case dict_get kvs ''errorCode'' of Some (JStr c) \<Rightarrow> c | _ \<Rightarrow> []))
      | _ \<Rightarrow> [])"

definition code_suffix :: "string \<Rightarrow> string" where
  "code_suffix c = (if c = [] then [] else '' ['' @ c @ '']'')"

section \<open>Tokens\<close>

definition rewrite_host :: "'w pbi_client \<Rightarrow> string \<Rightarrow> string" where
  "rewrite_host cl url =
     (case List.find (\<lambda>(canonical, _). startswith url canonical) (bc_overrides cl) of
        Some (canonical, replacement) \<Rightarrow> replacement @ drop (length canonical) url
      | None \<Rightarrow> url)"

text \<open>\<open>str((body or {}).get("error_description", "")).split("\n")[0]\<close>; a body that is a list has no \<open>get\<close>.\<close>

definition token_refusal :: "string \<Rightarrow> int \<Rightarrow> json \<Rightarrow> failure" where
  "token_refusal scope status body =
     (case get_or (or_else body (JObj [])) ''error_description'' (JStr []) of
        Inl f \<Rightarrow> f
      | Inr d \<Rightarrow>
          let description = takeWhile (\<lambda>c. c \<noteq> CHR 0x0a) (str_json d) in
          Raised (AuthError (''token acquisition for scope '' @ scope @ '' failed (HTTP '' @ show_int status @ '')''
            @ (if description = [] then [] else '': '' @ description)) []))"

definition token_form :: "'w pbi_client \<Rightarrow> string \<Rightarrow> (string, string) dict" where
  "token_form cl scope =
     [(''grant_type'', ''client_credentials''), (''client_id'', bc_id cl), (''client_secret'', bc_secret cl), (''scope'', scope)]"

definition keep_token :: "'w pbi_client \<Rightarrow> string \<Rightarrow> pbi_answer \<Rightarrow> ('w, string) pbi_io" where
  "keep_token cl scope answer s =
     (case answer of (status, _, body) \<Rightarrow>
       (case body of
          JObj kvs \<Rightarrow>
            if status = 200 \<and> truthy (Sdk_Providers.member kvs ''access_token'') then
              let token = str_json (Sdk_Providers.member kvs ''access_token'');
                  ttl = (if is_py_int (Sdk_Providers.member kvs ''expires_in'') then 1000 * int_of (Sdk_Providers.member kvs ''expires_in'') else 600000)
              in (Inr token, (fst s, dict_set scope (token, bc_now cl (fst s) + ttl) (snd s)))
            else (Inl (token_refusal scope status body), s)
        | _ \<Rightarrow> (Inl (token_refusal scope status body), s)))"

definition fetch_token :: "'w pbi_client \<Rightarrow> string \<Rightarrow> ('w, string) pbi_io" where
  "fetch_token cl scope =
     io_bind (io_lift (io_pinned (pinned_endpoint ''token'' [(''tenantId'', bc_tenant cl)]))) (\<lambda>(http_method, url).
     io_bind (io_lift (io_pinned (pinned_request http_method url))) (\<lambda>_.
     io_bind (send_request cl \<lparr>pq_method = http_method, pq_url = rewrite_host cl url,
         pq_headers = [(''Content-Type'', ''application/x-www-form-urlencoded'')], pq_body = None, pq_form = Some (token_form cl scope)\<rparr>)
       (keep_token cl scope)))"

definition token_for :: "'w pbi_client \<Rightarrow> string \<Rightarrow> ('w, string) pbi_io" where
  "token_for cl scope s =
     (case dict_get (snd s) scope of
        Some (token, expires) \<Rightarrow> if expires > bc_now cl (fst s) + 60000 then (Inr token, s) else fetch_token cl scope s
      | None \<Rightarrow> fetch_token cl scope s)"

section \<open>The one exit\<close>

definition RETRY_SCHEDULE_MS :: "int list" where
  "RETRY_SCHEDULE_MS = [1000, 2000, 4000]"

fun exchange ::
  "'w pbi_client \<Rightarrow> string \<Rightarrow> pbi_request \<Rightarrow> int list \<Rightarrow> nat \<Rightarrow> int list \<Rightarrow> ('w, pbi_answer) pbi_io" where
  "exchange cl endpoint request expect attempts schedule s =
     (case send_request cl request s of
        (Inl f, s') \<Rightarrow> (Inl f, s')
      | (Inr (status, headers, body), s') \<Rightarrow>
          if status \<in> set expect then (Inr (status, headers, body), s')
          else if status = 429 then
            let retry_after = (case retry_after_ms (bc_read_ms cl) headers of Some ms \<Rightarrow> ms | None \<Rightarrow> 0) in
            (case schedule of
               delay # later \<Rightarrow>
                 (case sleep_ms cl (if retry_after \<noteq> 0 then retry_after else delay) s' of
                    (Inl f, s'') \<Rightarrow> (Inl f, s'')
                  | (Inr _, s'') \<Rightarrow> exchange cl endpoint request expect (Suc attempts) later s'')
             | [] \<Rightarrow> (Inl (Raised (QuotaExceeded (endpoint @ '' throttled (HTTP 429) after '' @ show_nat attempts @ '' retries'')
                      (if retry_after \<noteq> 0 then (if retry_after < 0 then - ((- retry_after) div 1000) else retry_after div 1000) else 60)
                      [])), s'))
          else if 500 \<le> status \<and> status \<le> 599 then
            (case schedule of
               delay # later \<Rightarrow>
                 (case sleep_ms cl delay s' of
                    (Inl f, s'') \<Rightarrow> (Inl f, s'')
                  | (Inr _, s'') \<Rightarrow> exchange cl endpoint request expect (Suc attempts) later s'')
             | [] \<Rightarrow> (Inl (Raised (SourceUnavailable
                      (endpoint @ '' failed (HTTP '' @ show_int status @ '') after '' @ show_nat attempts @ '' retries'') [])), s'))
          else
            let suffix = code_suffix (body_error_code body) in
            if status = 401 \<or> status = 403
            then (Inl (Raised (AuthError (endpoint @ '' refused (HTTP '' @ show_int status @ '')'' @ suffix) [])), s')
            else (Inl (Raised (ConfigError (endpoint @ '' rejected (HTTP '' @ show_int status @ '')'' @ suffix) [])), s'))"

declare exchange.simps [simp del]

text \<open>\<open>urlencode\<close>: blanks of names and values become \<open>+\<close>\<close>

definition quote_plus :: "string \<Rightarrow> string" where
  "quote_plus s = join ''+'' (map quote_url (split_on (CHR '' '') s))"

definition urlencode :: "(string, string) dict \<Rightarrow> string" where
  "urlencode query = join ''&'' (map (\<lambda>(k, v). quote_plus k @ ''='' @ quote_plus v) query)"

definition request_headers :: "string \<Rightarrow> json option \<Rightarrow> headers" where
  "request_headers token body =
     (''Authorization'', ''Bearer '' @ token) # (if body \<noteq> None then [(''Content-Type'', ''application/json'')] else [])"

definition call_endpoint ::
  "'w pbi_client \<Rightarrow> string \<Rightarrow> (string, string) dict \<Rightarrow> (string, string) dict \<Rightarrow> json option \<Rightarrow> string \<Rightarrow> int list
     \<Rightarrow> ('w, pbi_answer) pbi_io" where
  "call_endpoint cl endpoint params query body scope expect =
     io_bind (io_lift (io_pinned (pinned_endpoint endpoint params))) (\<lambda>(http_method, url).
     io_bind (io_lift (io_pinned (pinned_request http_method url))) (\<lambda>_.
     io_bind (io_lift (if query = [] then Inr () else io_pinned (pinned_query_params endpoint query))) (\<lambda>_.
     io_bind (token_for cl scope) (\<lambda>token.
       exchange cl endpoint
         \<lparr>pq_method = http_method, pq_url = rewrite_host cl (url @ (if query = [] then [] else ''?'' @ urlencode query)),
           pq_headers = request_headers token body, pq_body = body, pq_form = None\<rparr>
         expect 0 RETRY_SCHEDULE_MS))))"

section \<open>Fabric operations\<close>

definition operation_status :: "json \<Rightarrow> string" where
  "operation_status body =
     (case body of JObj kvs \<Rightarrow> str_json (case dict_get kvs ''status'' of Some v \<Rightarrow> v | None \<Rightarrow> JStr []) | _ \<Rightarrow> [])"

definition operation_failure :: "string \<Rightarrow> json \<Rightarrow> failure" where
  "operation_failure op body =
     (let err = (case body of JObj kvs \<Rightarrow> Sdk_Providers.member kvs ''error'' | _ \<Rightarrow> JNull) in
      Raised (SourceUnavailable (''Fabric operation '' @ op @ '' failed''
        @ (if truthy err then '' ['' @ body_error_code (JObj [(''error'', err)]) @ '']'' else [])) []))"

text \<open>The delay before the next poll: what the service asks for, up to what is left of the wait, and a second when nothing is left\<close>

definition poll_delay :: "'w pbi_client \<Rightarrow> headers \<Rightarrow> int \<Rightarrow> int \<Rightarrow> int option" where
  "poll_delay cl headers max_wait waited =
     (let raw = header_text headers ''Retry-After'' in
      map_option (\<lambda>wish. let capped = min wish (max 0 (max_wait - waited)) in if capped = 0 then 1000 else capped)
        (if raw = [] then Some 2000 else bc_read_ms cl raw))"

lemma poll_delay_nonzero: "poll_delay cl headers max_wait waited = Some delay \<Longrightarrow> delay \<noteq> 0"
  by (auto simp: poll_delay_def Let_def split: if_splits)

function poll_operation ::
  "'w pbi_client \<Rightarrow> string \<Rightarrow> string \<Rightarrow> int \<Rightarrow> headers \<Rightarrow> int \<Rightarrow> ('w, unit) pbi_io" where
  "poll_operation cl scope op max_wait headers waited s =
     (case poll_delay cl headers max_wait waited of
        None \<Rightarrow> (Inl (Escaping ''ValueError''), s)
      | Some delay \<Rightarrow>
          if delay < 0 then (Inl (Escaping ''ValueError''), s)
          else
            (case call_endpoint cl ''fabric.operation_state'' [(''operationId'', op)] [] None scope [200]
                    (bc_sleep cl delay (fst s), snd s) of
               (Inl f, s') \<Rightarrow> (Inl f, s')
             | (Inr (_, headers', body), s') \<Rightarrow>
                 let status = operation_status body in
                 if status = ''Succeeded'' then (Inr (), s')
                 else if status = ''Failed'' then (Inl (operation_failure op body), s')
                 else if max_wait \<le> waited + delay
                   then (Inl (Raised (SourceUnavailable (''Fabric operation '' @ op @ '' still ''
                     @ (if status = [] then ''running'' else status) @ '' after '' @ show_int ((waited + delay) div 1000) @ ''s'') [])), s')
                   else poll_operation cl scope op max_wait headers' (waited + delay) s'))"
  by pat_completeness auto
termination
  by (relation "measure (\<lambda>(cl, scope, op, max_wait, headers, waited, s). nat (max_wait - waited))") (auto dest: poll_delay_nonzero)

declare poll_operation.simps [simp del]

definition await_operation :: "'w pbi_client \<Rightarrow> headers \<Rightarrow> string \<Rightarrow> int \<Rightarrow> ('w, unit) pbi_io" where
  "await_operation cl headers scope max_wait s =
     (let op = header_text headers ''x-ms-operation-id'' in
      if op = [] then (Inl (Raised (SourceUnavailable ''Fabric 202 carried no x-ms-operation-id header'' [])), s)
      else poll_operation cl scope op max_wait headers 0 s)"


section \<open>What is sent\<close>

text \<open>A request that the gate admits, on the host the client is configured with\<close>

definition documented :: "'w pbi_client \<Rightarrow> pbi_request \<Rightarrow> bool" where
  "documented cl r \<longleftrightarrow> (\<exists>url name. pinned_request (pq_method r) url = Inr name \<and> pq_url r = rewrite_host cl url)"

definition keeps :: "('s \<Rightarrow> bool) \<Rightarrow> ('s, 'a) io \<Rightarrow> bool" where
  "keeps I m \<longleftrightarrow> (\<forall>s. I s \<longrightarrow> I (snd (m s)))"

named_theorems keeps_intros

lemma keepsI: "(\<And>s r s'. I s \<Longrightarrow> m s = (r, s') \<Longrightarrow> I s') \<Longrightarrow> keeps I m"
  unfolding keeps_def by (metis prod.collapse)

lemma keepsD: "keeps I m \<Longrightarrow> m s = (r, s') \<Longrightarrow> I s \<Longrightarrow> I s'"
  unfolding keeps_def by (metis snd_conv)

lemma keeps_lift [keeps_intros]: "keeps I (io_lift r)"
  and keeps_return [keeps_intros]: "keeps I (io_return a)"
  and keeps_raise [keeps_intros]: "keeps I (io_raise e)"
  by (simp_all add: keeps_def)

lemma keeps_bind [keeps_intros]:
  assumes "keeps I m" and "\<And>a. keeps I (f a)"
  shows "keeps I (io_bind m f)"
  using assms by (intro keepsI) (auto simp: io_bind_def split: prod.splits sum.splits dest: keepsD)

lemma keeps_bind_checked:
  assumes "\<And>a. r = Inr a \<Longrightarrow> keeps I (f a)"
  shows "keeps I (io_bind (io_lift r) f)"
  using assms by (cases r) (simp_all add: keeps_def)

lemma io_pinned_Inr_iff [simp]: "io_pinned r = Inr a \<longleftrightarrow> r = Inr a"
  by (cases r) simp_all

lemma bare_url_query: "bare_url (url @ (if query = [] then [] else ''?'' @ text)) = bare_url url"
  by (induction url) (simp_all add: bare_url_def)

lemma pinned_request_query:
  "pinned_request m url = Inr name \<Longrightarrow> pinned_request m (url @ (if query = [] then [] else ''?'' @ text)) = Inr name"
  by (simp only: pinned_request_iff bare_url_query)

text \<open>An invariant of the world that documented requests and sleeping keep\<close>

locale gate_invariant =
  fixes cl :: "'w pbi_client" and I :: "'w \<Rightarrow> bool"
  assumes sends: "documented cl r \<Longrightarrow> I w \<Longrightarrow> I (snd (bc_transport cl r w))"
    and sleeps: "I w \<Longrightarrow> I (bc_sleep cl ms w)"
begin

abbreviation J :: "'w pbi_state \<Rightarrow> bool" where
  "J s \<equiv> I (fst s)"

lemma send_keeps: "documented cl r \<Longrightarrow> keeps J (send_request cl r)"
  using sends by (fastforce simp: keeps_def send_request_def split: prod.splits)

lemma sleep_keeps: "keeps J (sleep_ms cl ms)"
  using sleeps by (simp add: keeps_def sleep_ms_def)

lemma fetch_token_keeps: "keeps J (fetch_token cl scope)"
  unfolding fetch_token_def
proof (intro keeps_bind_checked, clarsimp simp only: io_pinned_Inr_iff prod.case, intro keeps_bind_checked keeps_bind send_keeps)
  fix m url name
  assume "io_pinned (pinned_request m url) = Inr name"
  then show "documented cl \<lparr>pq_method = m, pq_url = rewrite_host cl url,
      pq_headers = [(''Content-Type'', ''application/x-www-form-urlencoded'')], pq_body = None, pq_form = Some (token_form cl scope)\<rparr>"
    by (auto simp: documented_def)
next
  show "keeps J (keep_token cl scope answer)" for answer
    by (auto simp: keeps_def keep_token_def Let_def split: json.splits prod.splits)
qed

lemma token_keeps: "keeps J (token_for cl scope)"
  using fetch_token_keeps [of scope] by (auto simp: keeps_def token_for_def split: option.splits)

lemma exchange_keeps: "documented cl r \<Longrightarrow> keeps J (exchange cl endpoint r expect attempts schedule)"
proof (induction schedule arbitrary: attempts)
  case Nil
  then show ?case
    using keepsD [OF send_keeps [OF Nil]]
    by (intro keepsI) (auto simp: exchange.simps [of cl endpoint r expect attempts "[]"] Let_def split: prod.splits sum.splits if_splits)
next
  case (Cons d ds)
  show ?case
  proof (rule keepsI)
    fix s q s' assume "J s" and run: "exchange cl endpoint r expect attempts (d # ds) s = (q, s')"
    obtain a s1 where send: "send_request cl r s = (a, s1)" by (cases "send_request cl r s")
    have "J s1" by (rule keepsD [OF send_keeps [OF Cons.prems] send \<open>J s\<close>])
    with run consider "s' = s1"
      | ms where "(case sleep_ms cl ms s1 of (Inl f, s'') \<Rightarrow> (Inl f, s'')
          | (Inr _, s'') \<Rightarrow> exchange cl endpoint r expect (Suc attempts) ds s'') = (q, s')"
      by (auto simp: exchange.simps [of cl endpoint r expect attempts "d # ds"] send Let_def split: sum.splits if_splits)
    then show "J s'"
    proof cases
      case 2
      then show ?thesis
        using keepsD [OF sleep_keeps _ \<open>J s1\<close>] keepsD [OF Cons.IH [OF Cons.prems]]
        by (auto split: prod.splits sum.splits)
    qed (use \<open>J s1\<close> in simp)
  qed
qed

lemma call_keeps: "keeps J (call_endpoint cl endpoint params query body scope expect)"
  unfolding call_endpoint_def
proof (intro keeps_bind_checked, clarsimp simp only: io_pinned_Inr_iff prod.case, intro keeps_bind_checked keeps_bind token_keeps exchange_keeps)
  fix m url name
  assume "io_pinned (pinned_request m url) = Inr name"
  then show "documented cl \<lparr>pq_method = m, pq_url = rewrite_host cl (url @ (if query = [] then [] else ''?'' @ urlencode query)),
      pq_headers = request_headers token body, pq_body = body, pq_form = None\<rparr>" for token
    unfolding documented_def by (intro exI [of _ "url @ (if query = [] then [] else ''?'' @ urlencode query)"] exI [of _ name])
      (simp add: pinned_request_query del: if_split)
qed

lemma poll_keeps: "keeps J (poll_operation cl scope op max_wait headers waited)"
proof (induction "nat (max_wait - waited)" arbitrary: headers waited rule: less_induct)
  case less
  show ?case
  proof (rule keepsI)
    fix s q s' assume "J s" and run: "poll_operation cl scope op max_wait headers waited s = (q, s')"
    note step = trans [OF poll_operation.simps [symmetric] run]
    show "J s'"
    proof (cases "poll_delay cl headers max_wait waited")
      case (Some delay)
      obtain a s1 where call: "call_endpoint cl ''fabric.operation_state'' [(''operationId'', op)] [] None scope [200]
          (bc_sleep cl delay (fst s), snd s) = (a, s1)" using prod.exhaust by blast
      have s1: "J s1" using keepsD [OF call_keeps call] sleeps \<open>J s\<close> by simp
      have "nat (max_wait - (waited + delay)) < nat (max_wait - waited)" if "\<not> delay < 0" "\<not> max_wait \<le> waited + delay"
        using that poll_delay_nonzero [OF Some] by auto
      note later = keepsD [OF less.hyps [OF this]]
      show ?thesis
        using step [unfolded Some option.case call] s1 \<open>J s\<close> later
        by (auto simp: Let_def split: if_splits sum.splits prod.splits)
    qed (use step \<open>J s\<close> in simp)
  qed
qed

lemma await_keeps: "keeps J (await_operation cl headers scope max_wait)"
  using poll_keeps by (auto simp: keeps_def await_operation_def Let_def)

end

text \<open>A client that keeps the list of its requests\<close>

definition logged :: "'w pbi_client \<Rightarrow> (pbi_request list \<times> 'w) pbi_client" where
  "logged cl = \<lparr>bc_tenant = bc_tenant cl, bc_id = bc_id cl, bc_secret = bc_secret cl, bc_overrides = bc_overrides cl,
     bc_transport = (\<lambda>r (sent, w). case bc_transport cl r w of (a, w') \<Rightarrow> (a, (sent @ [r], w'))),
     bc_now = (\<lambda>w. bc_now cl (snd w)), bc_sleep = (\<lambda>ms (sent, w). (sent, bc_sleep cl ms w)), bc_read_ms = bc_read_ms cl\<rparr>"

lemma documented_logged [simp]: "documented (logged cl) r \<longleftrightarrow> documented cl r"
  by (simp add: documented_def rewrite_host_def logged_def)

lemma logged_simps [simp]:
  "bc_transport (logged cl) r w = (case bc_transport cl r (snd w) of (a, w') \<Rightarrow> (a, (fst w @ [r], w')))"
  "bc_sleep (logged cl) ms w = (fst w, bc_sleep cl ms (snd w))"
  by (simp_all add: logged_def case_prod_beta)

interpretation logged: gate_invariant "logged cl" "\<lambda>w. list_all (documented cl) (fst w)" for cl
  by unfold_locales (auto split: prod.splits)

definition sent_in :: "'a attempt \<times> (pbi_request list \<times> 'w) pbi_state \<Rightarrow> pbi_request list" where
  "sent_in result = fst (fst (snd result))"

abbreviation sent_so_far :: "(pbi_request list \<times> 'w) pbi_state \<Rightarrow> pbi_request list" where
  "sent_so_far s \<equiv> fst (fst s)"

definition adds :: "nat \<Rightarrow> ((pbi_request list \<times> 'w) pbi_state, 'a) io \<Rightarrow> bool" where
  "adds n m \<longleftrightarrow> (\<forall>s q s'. m s = (q, s') \<longrightarrow> (\<exists>rs. sent_so_far s' = sent_so_far s @ rs \<and> length rs \<le> n))"

lemma addsD: "adds n m \<Longrightarrow> m s = (q, s') \<Longrightarrow> \<exists>rs. sent_so_far s' = sent_so_far s @ rs \<and> length rs \<le> n"
  unfolding adds_def by blast

lemma adds_bind_checked: "(\<And>a. r = Inr a \<Longrightarrow> adds n (f a)) \<Longrightarrow> adds n (io_bind (io_lift r) f)"
  by (cases r) (auto simp: adds_def)

lemma adds_bind:
  assumes "adds k m" and "\<And>a. adds n (f a)"
  shows "adds (k + n) (io_bind m f)"
  unfolding adds_def
proof (intro allI impI)
  fix s q s' assume run: "io_bind m f s = (q, s')"
  obtain a s1 where m: "m s = (a, s1)" using prod.exhaust by blast
  obtain rs where rs: "sent_so_far s1 = sent_so_far s @ rs" "length rs \<le> k" using addsD [OF assms(1) m] by blast
  show "\<exists>rs. sent_so_far s' = sent_so_far s @ rs \<and> length rs \<le> k + n"
  proof (cases a)
    case (Inr b)
    then have "f b s1 = (q, s')" using run m by simp
    then obtain rs' where "sent_so_far s' = sent_so_far s1 @ rs'" "length rs' \<le> n" using addsD [OF assms(2)] by blast
    then show ?thesis using rs by (intro exI [of _ "rs @ rs'"]) simp
  qed (use run m rs in auto)
qed

lemma adds_send: "adds 1 (send_request (logged cl) r)"
  by (auto simp: adds_def send_request_def split: prod.splits)

lemma adds_sleep: "adds 0 (sleep_ms (logged cl) ms)"
  by (auto simp: adds_def sleep_ms_def)

lemma adds_exchange: "adds (Suc (length schedule)) (exchange (logged cl) endpoint r expect attempts schedule)"
proof (induction schedule arbitrary: attempts)
  case Nil
  show ?case
    using addsD [OF adds_send]
    by (fastforce simp: adds_def exchange.simps [of "logged cl" endpoint r expect attempts "[]"] Let_def split: prod.splits sum.splits if_splits)
next
  case (Cons d ds)
  define onward where "onward ms = io_bind (sleep_ms (logged cl) ms) (\<lambda>_. exchange (logged cl) endpoint r expect (Suc attempts) ds)" for ms
  have onward: "adds (Suc (length ds)) (onward ms)" for ms
    unfolding onward_def using adds_bind [OF adds_sleep Cons.IH] by simp
  show ?case
    unfolding adds_def
  proof (intro allI impI)
    fix s q s' assume run: "exchange (logged cl) endpoint r expect attempts (d # ds) s = (q, s')"
    obtain a s1 where send: "send_request (logged cl) r s = (a, s1)" using prod.exhaust by blast
    obtain rs where rs: "sent_so_far s1 = sent_so_far s @ rs" "length rs \<le> 1" using addsD [OF adds_send send] by blast
    from run consider "s' = s1" | ms where "onward ms s1 = (q, s')"
      by (auto simp: exchange.simps [of "logged cl" endpoint r expect attempts "d # ds"] send Let_def onward_def io_bind_def
          split: sum.splits if_splits)
    then show "\<exists>rs. sent_so_far s' = sent_so_far s @ rs \<and> length rs \<le> Suc (length (d # ds))"
    proof cases
      case (2 ms)
      obtain rs' where "sent_so_far s' = sent_so_far s1 @ rs'" "length rs' \<le> Suc (length ds)" using addsD [OF onward 2] by blast
      then show ?thesis using rs by (intro exI [of _ "rs @ rs'"]) simp
    qed (use rs in auto)
  qed
qed

lemma adds_token: "adds 1 (token_for (logged cl) scope)"
proof -
  have "adds 0 (keep_token (logged cl) scope answer)" for answer
    by (auto simp: adds_def keep_token_def Let_def split: json.splits if_splits prod.splits)
  then have "adds (1 + 0) (fetch_token (logged cl) scope)"
    unfolding fetch_token_def
    by (intro adds_bind_checked, clarsimp simp only: prod.case, intro adds_bind_checked adds_bind adds_send)
  then show ?thesis
    by (fastforce simp: adds_def token_for_def split: option.splits if_splits prod.splits)
qed

lemma adds_call: "adds 5 (call_endpoint (logged cl) endpoint params query body scope expect)"
proof -
  have "adds (1 + Suc (length RETRY_SCHEDULE_MS)) (call_endpoint (logged cl) endpoint params query body scope expect)"
    unfolding call_endpoint_def
    by (intro adds_bind_checked, clarsimp simp only: prod.case, intro adds_bind_checked adds_bind adds_token adds_exchange)
  then show ?thesis by (simp add: RETRY_SCHEDULE_MS_def eval_nat_numeral)
qed

text \<open>Whatever the answers, a call sends at most five requests, one of them for a token, and each of them is a request that the
  gate admits, on the host the client is configured with.\<close>
theorem call_sends_documented:
  "list_all (documented cl) (sent_in (call_endpoint (logged cl) endpoint params query body scope expect (([], w), tokens)))
   \<and> length (sent_in (call_endpoint (logged cl) endpoint params query body scope expect (([], w), tokens))) \<le> 5"
proof -
  obtain q s' where call: "call_endpoint (logged cl) endpoint params query body scope expect (([], w), tokens) = (q, s')"
    using prod.exhaust by blast
  then show ?thesis
    using keepsD [OF logged.call_keeps call] addsD [OF adds_call call] by (auto simp: sent_in_def)
qed


section \<open>What a call returns\<close>

lemma exchange_expected: "exchange cl endpoint r expect attempts schedule s = (Inr (status, headers, body), s') \<Longrightarrow> status \<in> set expect"
proof (induction schedule arbitrary: attempts s)
  case Nil
  then show ?case
    by (auto simp: exchange.simps [of cl endpoint r expect attempts "[]"] Let_def split: prod.splits sum.splits if_splits)
next
  case (Cons d ds)
  then show ?case
    by (auto simp: exchange.simps [of cl endpoint r expect attempts "d # ds"] Let_def split: prod.splits sum.splits if_splits)
qed

lemma call_expected:
  "call_endpoint cl endpoint params query body scope expect s = (Inr (status, headers, answer), s') \<Longrightarrow> status \<in> set expect"
  by (auto simp: call_endpoint_def io_bind_Inr_iff dest!: exchange_expected)

text \<open>An answer with an expected status is the result of the call, and no request follows.\<close>

lemma exchange_ok:
  "send_request cl r s = (Inr (status, headers, body), s') \<Longrightarrow> status \<in> set expect \<Longrightarrow>
   exchange cl endpoint r expect attempts schedule s = (Inr (status, headers, body), s')"
  by (simp add: exchange.simps)

text \<open>A token that does not expire within the minute is used again, without a request.\<close>

lemma keep_token_kept: "keep_token cl scope answer s = (Inr token, s') \<Longrightarrow> \<exists>expires. dict_get (snd s') scope = Some (token, expires)"
  by (auto simp: keep_token_def Let_def AList.update_conv split: json.splits if_splits prod.splits)

lemma token_kept: "token_for cl scope s = (Inr token, s') \<Longrightarrow> \<exists>expires. dict_get (snd s') scope = Some (token, expires)"
  by (auto simp: token_for_def fetch_token_def io_bind_Inr_iff split: option.splits if_splits dest: keep_token_kept)

lemma token_reused:
  "dict_get (snd s) scope = Some (token, expires) \<Longrightarrow> bc_now cl (fst s) + 60000 < expires \<Longrightarrow> token_for cl scope s = (Inr token, s)"
  by (simp add: token_for_def)

text \<open>A wait that succeeds has seen \<open>Succeeded\<close> in its last poll. An HTTP date as delay ends it with a \<open>ValueError\<close>.\<close>

lemma poll_succeeded:
  "poll_operation cl scope op max_wait headers waited s = (Inr (), s') \<Longrightarrow>
   \<exists>s1 status hs body. call_endpoint cl ''fabric.operation_state'' [(''operationId'', op)] [] None scope [200] s1 = (Inr (status, hs, body), s')
     \<and> operation_status body = ''Succeeded''"
proof (induction "nat (max_wait - waited)" arbitrary: headers waited s rule: less_induct)
  case less
  note step = trans [OF poll_operation.simps [symmetric] less.prems]
  obtain delay where d: "poll_delay cl headers max_wait waited = Some delay" "\<not> delay < 0"
    using step by (auto split: option.splits if_splits)
  obtain a s1 where call: "call_endpoint cl ''fabric.operation_state'' [(''operationId'', op)] [] None scope [200]
      (bc_sleep cl delay (fst s), snd s) = (a, s1)" using prod.exhaust by blast
  obtain status hs body where a: "a = Inr (status, hs, body)"
    using step d call by (cases a) auto
  show ?case
  proof (cases "operation_status body = ''Succeeded''")
    case True
    then have "s1 = s'" using step d call a by simp
    then show ?thesis using call a True by blast
  next
    case False
    then have "poll_operation cl scope op max_wait hs (waited + delay) s1 = (Inr (), s') \<and> \<not> max_wait \<le> waited + delay"
      using step d call a by (auto simp: Let_def split: if_splits)
    moreover from this have "nat (max_wait - (waited + delay)) < nat (max_wait - waited)"
      using d poll_delay_nonzero [OF d(1)] by auto
    ultimately show ?thesis using less.hyps by blast
  qed
qed

text \<open>The wait for a Fabric operation succeeds only after a poll, as its last request, that reports the operation as succeeded.\<close>
theorem await_succeeded:
  assumes "await_operation cl headers scope max_wait s = (Inr (), s')"
  shows "\<exists>s1 status hs body. call_endpoint cl ''fabric.operation_state''
      [(''operationId'', header_text headers ''x-ms-operation-id'')] [] None scope [200] s1 = (Inr (status, hs, body), s')
    \<and> status = 200 \<and> operation_status body = ''Succeeded''"
proof -
  have "poll_operation cl scope (header_text headers ''x-ms-operation-id'') max_wait headers 0 s = (Inr (), s')"
    using assms by (simp add: await_operation_def Let_def split: if_splits)
  from poll_succeeded [OF this] obtain s1 status hs body where call: "call_endpoint cl ''fabric.operation_state''
      [(''operationId'', header_text headers ''x-ms-operation-id'')] [] None scope [200] s1 = (Inr (status, hs, body), s')"
    and st: "operation_status body = ''Succeeded''" by blast
  have "status = 200" using call_expected [OF call] by simp
  with call st show ?thesis by blast
qed

lemma await_http_date:
  assumes "header_text headers ''x-ms-operation-id'' \<noteq> []" and "header_text headers ''Retry-After'' \<noteq> []"
    and "bc_read_ms cl (header_text headers ''Retry-After'') = None"
  shows "await_operation cl headers scope max_wait s = (Inl (Escaping ''ValueError''), s)"
  using assms by (simp add: await_operation_def poll_operation.simps [of cl scope _ max_wait headers 0 s] poll_delay_def Let_def)

end
