(* ===== verification/Pbi_Plan.thy ===== *)
theory Pbi_Plan
  imports Pbi_Client
begin

text \<open>
  The planning half of the Power BI publisher (\<open>src/connectors/powerbi/publisher.py\<close>): everything that is checked before the first
  request. The tables with their encoded rows, the relationships, the limits, the name of the dataset and the entries of the
  backing views.

  The values of the model have no floating point numbers: \<open>to_float\<close> stands for \<open>float(value)\<close>, and gives the value as it is
  sent or the name of the exception. The multiplication sign and the section sign of the messages are the characters
  \<open>0xD7\<close> and \<open>0xA7\<close>.
\<close>

section \<open>Names and limits\<close>

definition dataset_name :: "string \<Rightarrow> string attempt" where
  "dataset_name artifact_id =
     (let short = take 12 (filter is_alnum (if startswith artifact_id ''ra-'' then drop 3 artifact_id else artifact_id)) in
      if short = [] then refuse_config (''artifact id '' @ py_repr artifact_id @ '' yields no dataset short name'') else Inr (''cl-'' @ short))"

definition RA6_ESCALATION :: string where
  "RA6_ESCALATION = ''the RA-6 escalation is the Fabric lakehouse/DirectLake leg ''
     @ ''(report-authoring spec '' @ CHR 0xa7 # ''2 RA-6) -- a register decision, not a workaround''"

definition limit_error :: "string \<Rightarrow> nat \<Rightarrow> nat \<Rightarrow> string \<Rightarrow> connector_error" where
  "limit_error name measured limit at_place =
     GuardrailViolation (''push-model limit exceeded at '' @ at_place @ '': '' @ name @ '' is '' @ show_nat measured @ '', the pinned ''
       @ ''Power BI limit is '' @ show_nat limit @ '' (reference.PUSH_LIMITS); '' @ RA6_ESCALATION) ''push_limit_exceeded''
       [(''limit'', JStr name), (''measured'', JInt (int measured)), (''allowed'', JInt (int limit))]"

definition limited :: "string \<Rightarrow> nat \<Rightarrow> string \<Rightarrow> string \<Rightarrow> unit attempt" where
  "limited name measured key at_place =
     (if measured > push_limit_of key then Inl (Raised (limit_error name measured (push_limit_of key) at_place)) else Inr ())"

definition limit_proximity :: "(string \<times> nat \<times> nat \<times> string) list \<Rightarrow> json list" where
  "limit_proximity counts =
     map (\<lambda>(name, measured, allowed, at_place). JObj [(''limit'', JStr name), (''measured'', JInt (int measured)),
         (''allowed'', JInt (int allowed)), (''at'', JStr at_place)])
       (filter (\<lambda>(_, measured, allowed, _). allowed * 4 \<le> measured * 5) counts)"

section \<open>Rows\<close>

text \<open>\<open>json.dumps(v, separators=(",", ":"), sort_keys=True)\<close>\<close>

fun dumps_compact :: "json \<Rightarrow> string" where
  "dumps_compact JNull = ''null''"
| "dumps_compact (JBool b) = (if b then ''true'' else ''false'')"
| "dumps_compact (JInt i) = show_int i"
| "dumps_compact (JStr s) = dumps_str s"
| "dumps_compact (JList vs) = ''['' @ join '','' (map dumps_compact vs) @ '']''"
| "dumps_compact (JObj kvs) = ''{'' @ join '','' (map (\<lambda>(k, v). dumps_str k @ '':'' @ dumps_compact v) kvs) @ ''}''"

text \<open>A value in its column type, or the name of the exception\<close>

type_synonym to_float = "json \<Rightarrow> (string, json) result"

definition convert :: "to_float \<Rightarrow> string \<Rightarrow> json \<Rightarrow> (string, json) result" where
  "convert to_float pbi_type v =
     (if pbi_type = ''Int64'' then
        (case v of
           JStr s \<Rightarrow> (case py_int s of Some i \<Rightarrow> Inr (JInt i) | None \<Rightarrow> Inl ''ValueError'')
         | _ \<Rightarrow> if is_py_int v then Inr (JInt (int_of v)) else Inl ''TypeError'')
      else if pbi_type = ''Double'' then to_float v
      else if pbi_type = ''Boolean'' then Inr (JBool (truthy v))
      else if pbi_type = ''DateTime'' then Inr (JStr (str_json v))
      else (case v of
              JList _ \<Rightarrow> Inr (JStr (dumps_compact (sort_json v)))
            | JObj _ \<Rightarrow> Inr (JStr (dumps_compact (sort_json v)))
            | _ \<Rightarrow> Inr (JStr (str_json v))))"

definition at_column :: "string \<Rightarrow> string \<Rightarrow> string" where
  "at_column table cname = ''table '' @ py_repr table @ '' column '' @ py_repr cname"

definition pbi_value :: "to_float \<Rightarrow> string \<Rightarrow> string \<Rightarrow> string \<Rightarrow> json \<Rightarrow> json attempt" where
  "pbi_value to_float table pbi_type cname v =
     (if v = JNull then Inr JNull
      else (case convert to_float pbi_type v of
              Inl exc \<Rightarrow>
                if exc = ''TypeError'' \<or> exc = ''ValueError'' then
                  refuse_config (at_column table cname @ '': value cannot encode as '' @ pbi_type
                    @ '' ('' @ exc @ '') -- the QE-5 result and the pinned type map ''
                    @ ''disagree; this is our defect, not the source's'')
                else Inl (Escaping exc)
            | Inr (JStr s) \<Rightarrow>
                res_bind (limited ''string value length'' (length s) ''max_string_value_chars'' (at_column table cname)) (\<lambda>_. Inr (JStr s))
            | Inr c \<Rightarrow> Inr c))"

type_synonym typed_column = "string \<times> string"  \<comment> \<open>the column type and the name, as in \<open>converters\<close>\<close>

definition pbi_row :: "to_float \<Rightarrow> string \<Rightarrow> typed_column list \<Rightarrow> json \<Rightarrow> json attempt" where
  "pbi_row to_float table converters row =
     (case row of
        JList vs \<Rightarrow>
          if length vs = length converters then
            res_bind (res_fold (\<lambda>enc ((pbi_type, cname), v).
                res_bind (pbi_value to_float table pbi_type cname v) (\<lambda>c. Inr (dict_set cname c enc))) [] (zip converters vs))
              (\<lambda>enc. Inr (JObj enc))
          else refuse_config (''table '' @ py_repr table @ '': a result row has '' @ show_nat (length vs)
            @ '' values for '' @ show_nat (length converters) @ '' columns'')
      | _ \<Rightarrow> refuse_config (''table '' @ py_repr table @ '': a result row has no values for ''
            @ show_nat (length converters) @ '' columns''))"

section \<open>Tables\<close>

record table_plan =
  tp_name :: string
  tp_columns :: "typed_column list"
  tp_rows :: "json list"
  tp_notes :: "string list"
  tp_meta :: "json list"

definition column_body :: "typed_column \<Rightarrow> json" where
  "column_body c = JObj [(''name'', JStr (snd c)), (''dataType'', JStr (fst c))]"

text \<open>One column of a result: its converter, its entry in the description of the delivery and its note\<close>

definition plan_column :: "string \<Rightarrow> json \<Rightarrow> (typed_column \<times> json \<times> string list) attempt" where
  "plan_column qname column =
     (let kvs = (case column of JObj kvs \<Rightarrow> kvs | _ \<Rightarrow> []) in
      case named (item kvs ''name'') of
        None \<Rightarrow> refuse_config (''query '' @ py_repr qname @ '': a result column has no name'')
      | Some cname \<Rightarrow>
          let source_type = (case item kvs ''type'' of JStr t \<Rightarrow> t | _ \<Rightarrow> []);
              (pbi_type, note) = qe5_to_pbi_type source_type
          in res_bind (io_pinned (assert_emitted_fields ''column'' [''name'', ''dataType''])) (\<lambda>_.
             Inr ((pbi_type, cname),
               JObj ([(''name'', JStr cname), (''type'', JStr pbi_type), (''source_type'', JStr source_type)]
                 @ (case note of Some n \<Rightarrow> [(''note'', JStr n)] | None \<Rightarrow> [])),
               case note of Some n \<Rightarrow> [qname @ ''.'' @ cname @ '': '' @ n] | None \<Rightarrow> [])))"

definition plan_table :: "to_float \<Rightarrow> (string, json) dict \<Rightarrow> json \<Rightarrow> table_plan attempt" where
  "plan_table to_float results query =
     (case named (case query of JObj kvs \<Rightarrow> item kvs ''name'' | _ \<Rightarrow> JNull) of
        None \<Rightarrow> refuse_config (''every artifact query needs a name (formats '' @ CHR 0xa7 # ''4.2)'')
      | Some qname \<Rightarrow>
          (case item results qname of
             JObj result \<Rightarrow>
               if item result ''truncated'' = JBool True then
                 Inl (Raised (GuardrailViolation (''result for query '' @ py_repr qname @ '' is truncated; a capped result ''
                   @ ''must never quietly become the model (CI-7)'') ''row_cap'' []))
               else
                 (case item result ''columns'' of
                    JList (c # cs) \<Rightarrow>
                      (case item result ''rows'' of
                         JList rows \<Rightarrow>
                           res_bind (limited ''columns'' (length (c # cs)) ''max_columns_per_table'' (''table '' @ py_repr qname)) (\<lambda>_.
                           res_bind (limited ''rows'' (length rows) ''max_rows_per_table_none_retention'' (''table '' @ py_repr qname)) (\<lambda>_.
                           res_bind (res_map (plan_column qname) (c # cs)) (\<lambda>columns.
                           res_bind (res_map (pbi_row to_float qname (map fst columns)) rows) (\<lambda>encoded.
                             Inr \<lparr>tp_name = qname, tp_columns = map fst columns, tp_rows = encoded,
                               tp_notes = concat (map (\<lambda>(_, _, n). n) columns), tp_meta = map (\<lambda>(_, m, _). m) columns\<rparr>))))
                       | _ \<Rightarrow> refuse_config (''result for query '' @ py_repr qname @ '' carries no rows array''))
                  | _ \<Rightarrow> refuse_config (''result for query '' @ py_repr qname @ '' carries no columns''))
           | _ \<Rightarrow> refuse_config (''deliver_model payload carries no result for query '' @ py_repr qname
               @ '' -- every artifact query must arrive gateway-executed (RA-2)'')))"

definition plan_tables :: "to_float \<Rightarrow> (string, json) dict \<Rightarrow> (string, json) dict \<Rightarrow> table_plan list attempt" where
  "plan_tables to_float artifact results =
     (case item artifact ''queries'' of
        JList (q # qs) \<Rightarrow>
          res_bind (limited ''tables'' (length (q # qs)) ''max_tables'' ''model'') (\<lambda>_. res_map (plan_table to_float results) (q # qs))
      | _ \<Rightarrow> refuse_config ''artifact carries no queries; nothing to deliver'')"

text \<open>Every value has a truth value, so a boolean column takes any text.\<close>

lemma boolean_text: "convert to_float ''Boolean'' (JStr ''false'') = Inr (JBool True)"
  by (simp add: convert_def)

section \<open>Relationships\<close>

definition plan_names :: "table_plan list \<Rightarrow> string list" where
  "plan_names plans = map tp_name plans"

text \<open>\<open>columns_by_table[t]\<close>: the names of the columns of the last plan of that name\<close>

definition columns_of :: "table_plan list \<Rightarrow> string \<Rightarrow> string list" where
  "columns_of plans t = (case dict_get (dict_of (map (\<lambda>p. (tp_name p, map snd (tp_columns p))) plans)) t of Some cs \<Rightarrow> cs | None \<Rightarrow> [])"

definition relationship_fields :: "string list" where
  "relationship_fields = [''name'', ''fromTable'', ''fromColumn'', ''toTable'', ''toColumn'', ''crossFilteringBehavior'']"

definition plan_relationship :: "table_plan list \<Rightarrow> string \<Rightarrow> string \<Rightarrow> string \<Rightarrow> string \<Rightarrow> nat \<times> json \<Rightarrow> json attempt" where
  "plan_relationship plans left right from_table to_table ik =
     (let keys = (case snd ik of JObj kvs \<Rightarrow> kvs | _ \<Rightarrow> []); index = show_nat (fst ik) in
      if \<not> truthy (item keys ''entity_ref'') then
        refuse_config (''every blend key needs entity_ref -- blend keys come from the ''
          @ ''entity doc's documented mappings, never improvised (formats '' @ CHR 0xa7 # ''4.5)'')
      else (case (as_string (item keys ''left_column''), as_string (item keys ''right_column'')) of
          (Some left_column, Some right_column) \<Rightarrow>
            let from_column = (if from_table = left then left_column else right_column);
                to_column = (if to_table = right then right_column else left_column) in
            if from_column \<notin> set (columns_of plans from_table) then
              refuse_config (''blend key column '' @ py_repr from_column @ '' is not in the delivered schema of '' @ py_repr from_table)
            else if to_column \<notin> set (columns_of plans to_table) then
              refuse_config (''blend key column '' @ py_repr to_column @ '' is not in the delivered schema of '' @ py_repr to_table)
            else res_bind (io_pinned (assert_emitted_fields ''relationship'' relationship_fields)) (\<lambda>_.
              Inr (JObj (zip relationship_fields
                (map JStr [take 100 (''rel-'' @ index @ ''-'' @ from_table @ ''-'' @ to_table), from_table, from_column, to_table, to_column,
                   ''OneDirection'']))))
        | _ \<Rightarrow> refuse_config (''blend.keys['' @ index @ ''] needs left_column and right_column'')))"

text \<open>\<open>name in table_names\<close> of any value: a list or an object cannot be hashed.\<close>

definition in_names :: "string list \<Rightarrow> json \<Rightarrow> bool attempt" where
  "in_names names v =
     (case v of JStr s \<Rightarrow> Inr (s \<in> set names) | JList _ \<Rightarrow> Inl (Escaping ''TypeError'') | JObj _ \<Rightarrow> Inl (Escaping ''TypeError'')
      | _ \<Rightarrow> Inr False)"

definition plan_relationships :: "(string, json) dict \<Rightarrow> table_plan list \<Rightarrow> json list attempt" where
  "plan_relationships artifact plans =
     (case item artifact ''blend'' of
        JNull \<Rightarrow> Inr []
      | JObj blend \<Rightarrow>
          (case item blend ''keys'' of
             JList (k # ks) \<Rightarrow>
               let left = item blend ''left''; right = item blend ''right'' in
               res_bind (in_names (plan_names plans) left) (\<lambda>has_left.
               res_bind (if has_left then in_names (plan_names plans) right else Inr False) (\<lambda>has_both.
                 if \<not> has_both then
                   refuse_config (''blend names queries '' @ repr_json left @ '' '' @ CHR 0xd7 # '' '' @ repr_json right
                     @ '' but the delivered tables are '' @ repr_names (plan_names plans))
                 else
                   let l = str_json left; r = str_json right;
                       (from_table, to_table) = (if item blend ''join'' \<noteq> JStr ''right'' then (l, r) else (r, l))
                   in res_bind (res_map (plan_relationship plans l r from_table to_table) (enumerate 0 (k # ks))) (\<lambda>relationships.
                      res_bind (limited ''relationships'' (length relationships) ''max_relationships'' ''model'') (\<lambda>_.
                        Inr relationships))))
           | _ \<Rightarrow> refuse_config (''artifact.blend.keys must be a non-empty list (formats '' @ CHR 0xa7 # ''4.5)''))
      | _ \<Rightarrow> refuse_config ''artifact.blend must be an object when present'')"

section \<open>Backing views and shapes\<close>

definition backing_entry :: "json \<Rightarrow> json option" where
  "backing_entry query =
     (case query of
        JObj kvs \<Rightarrow>
          (case item kvs ''backing'' of
             JObj info \<Rightarrow>
               if item info ''mode'' = JStr ''reporting_view''
               then Some (JObj [(''type'', JStr ''reporting_view''),
                 (''ref'', JStr (case dict_get info ''ref'' of Some v \<Rightarrow> str_json v | None \<Rightarrow> []))])
               else None
           | _ \<Rightarrow> None)
      | _ \<Rightarrow> None)"

definition backing_entries :: "(string, json) dict \<Rightarrow> json list attempt" where
  "backing_entries artifact =
     res_bind (py_iter (or_else (item artifact ''queries'') (JList []))) (\<lambda>queries.
       Inr (foldl (\<lambda>backing e. if e \<in> set backing then backing else backing @ [e]) [] (List.map_filter backing_entry queries)))"

definition sha256_shaped :: "string \<Rightarrow> bool" where
  "sha256_shaped s \<longleftrightarrow> startswith s ''sha256:'' \<and> length (drop 7 s) = 64 \<and> list_all (\<lambda>c. c \<in> set ''0123456789abcdef'') (drop 7 s)"

text \<open>\<open>_find_dataset\<close>, the counts that are compared with the limits, and the plan as a whole\<close>

definition find_dataset :: "json \<Rightarrow> string \<Rightarrow> (string, json) dict option attempt" where
  "find_dataset listing name =
     (case listing of
        JObj kvs \<Rightarrow>
          res_bind (py_iter (or_else (item kvs ''value'') (JList []))) (\<lambda>datasets.
            Inr (case List.find (\<lambda>d. case d of JObj ds \<Rightarrow> item ds ''name'' = JStr name | _ \<Rightarrow> False) datasets of
                   Some (JObj ds) \<Rightarrow> Some ds | _ \<Rightarrow> None))
      | _ \<Rightarrow> Inr None)"

definition model_counts :: "table_plan list \<Rightarrow> json list \<Rightarrow> (string \<times> nat \<times> nat \<times> string) list" where
  "model_counts plans relationships =
     [(''tables'', length plans, push_limit_of ''max_tables'', ''model''),
      (''relationships'', length relationships, push_limit_of ''max_relationships'', ''model'')]
     @ concat (map (\<lambda>p. [(''columns'', length (tp_columns p), push_limit_of ''max_columns_per_table'', ''table '' @ py_repr (tp_name p)),
          (''rows'', length (tp_rows p), push_limit_of ''max_rows_per_table_none_retention'', ''table '' @ py_repr (tp_name p))]) plans)"


section \<open>What a plan guarantees\<close>

lemma limited_Inr [simp]: "limited name measured key at_place = Inr u \<longleftrightarrow> measured \<le> push_limit_of key"
  by (simp add: limited_def)

definition short_text :: "json \<Rightarrow> bool" where
  "short_text v = (case v of JStr s \<Rightarrow> length s \<le> 4000 | _ \<Rightarrow> True)"

lemma pbi_value_short: "pbi_value to_float table pbi_type cname v = Inr c \<Longrightarrow> short_text c"
  by (auto simp: pbi_value_def short_text_def res_bind_Inr_iff push_limit_of_def PUSH_LIMITS_def refuse_config_def
      split: if_splits sum.splits json.splits)

text \<open>A value of a row under its column\<close>

definition encodes_cell :: "to_float \<Rightarrow> string \<Rightarrow> typed_column \<Rightarrow> json \<Rightarrow> json \<Rightarrow> bool" where
  "encodes_cell to_float table column v c \<longleftrightarrow>
     pbi_value to_float table (fst column) (snd column) v = Inr c \<and> short_text c"

lemma dict_set_new: "k \<notin> fst ` set d \<Longrightarrow> dict_set k v d = d @ [(k, v)]"
  by (induction d) auto

lemma encode_cells:
  assumes "res_fold (\<lambda>enc ((pbi_type, cname), v).
      res_bind (pbi_value to_float table pbi_type cname v) (\<lambda>c. Inr (dict_set cname c enc))) acc (zip columns vs) = Inr enc"
    and "length vs = length columns" and "distinct (map fst acc @ map snd columns)"
  shows "\<exists>cs. enc = acc @ zip (map snd columns) cs \<and> length cs = length columns
    \<and> list_all2 (\<lambda>(column, v) c. encodes_cell to_float table column v c) (zip columns vs) cs"
  using assms
proof (induction columns arbitrary: vs acc)
  case (Cons col columns)
  obtain v vs' where vs: "vs = v # vs'" using Cons.prems(2) by (cases vs) auto
  obtain ty cname where col: "col = (ty, cname)" by (cases col)
  obtain c where c: "pbi_value to_float table ty cname v = Inr c"
    and rest: "res_fold (\<lambda>enc ((pbi_type, cname), v).
      res_bind (pbi_value to_float table pbi_type cname v) (\<lambda>c. Inr (dict_set cname c enc))) (dict_set cname c acc) (zip columns vs') = Inr enc"
    using Cons.prems(1) by (auto simp: vs col res_bind_Inr_iff)
  have fresh: "dict_set cname c acc = acc @ [(cname, c)]"
    using Cons.prems(3) by (intro dict_set_new) (auto simp: col)
  have "length vs' = length columns" "distinct (map fst (acc @ [(cname, c)]) @ map snd columns)"
    using Cons.prems(2,3) by (auto simp: vs col)
  from Cons.IH [OF rest [unfolded fresh] this] obtain cs where cs: "enc = (acc @ [(cname, c)]) @ zip (map snd columns) cs"
    "length cs = length columns" "list_all2 (\<lambda>(column, v) c. encodes_cell to_float table column v c) (zip columns vs') cs" by blast
  then show ?case using c by (intro exI [of _ "c # cs"]) (simp add: vs col encodes_cell_def pbi_value_short)
qed simp


definition encodes_row :: "to_float \<Rightarrow> string \<Rightarrow> typed_column list \<Rightarrow> json \<Rightarrow> json \<Rightarrow> bool" where
  "encodes_row to_float table columns row enc \<longleftrightarrow>
     (\<exists>vs cs. row = JList vs \<and> length vs = length columns \<and> enc = JObj (zip (map snd columns) cs) \<and> length cs = length columns
        \<and> list_all2 (\<lambda>(column, v) c. encodes_cell to_float table column v c) (zip columns vs) cs)"

lemma pbi_row_encodes:
  assumes "pbi_row to_float table columns row = Inr enc" and "distinct (map snd columns)"
  shows "encodes_row to_float table columns row enc"
proof -
  obtain vs where vs: "row = JList vs" "length vs = length columns"
    using assms(1) by (auto simp: pbi_row_def split: json.splits if_splits)
  obtain kvs where "res_fold (\<lambda>enc ((pbi_type, cname), v).
      res_bind (pbi_value to_float table pbi_type cname v) (\<lambda>c. Inr (dict_set cname c enc))) [] (zip columns vs) = Inr kvs"
    and "enc = JObj kvs"
    using assms(1) vs by (auto simp: pbi_row_def res_bind_Inr_iff)
  then show ?thesis
    using encode_cells [of to_float table "[]" columns vs kvs] vs assms(2) by (auto simp: encodes_row_def)
qed

text \<open>A column of the plan has the name of the column of the result and the type of the map.\<close>

definition types_column :: "json \<Rightarrow> typed_column \<Rightarrow> bool" where
  "types_column column col \<longleftrightarrow>
     (\<exists>kvs. column = JObj kvs \<and> item kvs ''name'' = JStr (snd col) \<and> snd col \<noteq> []
        \<and> fst col = fst (qe5_to_pbi_type (case item kvs ''type'' of JStr t \<Rightarrow> t | _ \<Rightarrow> [])))"

lemma plan_column_types: "plan_column qname column = Inr r \<Longrightarrow> types_column column (fst r)"
  by (cases column)
    (auto simp: plan_column_def types_column_def res_bind_Inr_iff Let_def Sdk_Providers.member_def split: option.splits prod.splits)

text \<open>What a table of the plan is to the query and its result\<close>

definition delivers :: "to_float \<Rightarrow> (string, json) dict \<Rightarrow> json \<Rightarrow> table_plan \<Rightarrow> bool" where
  "delivers to_float results query p \<longleftrightarrow>
     (\<exists>kvs result cols rows. query = JObj kvs \<and> item kvs ''name'' = JStr (tp_name p) \<and> tp_name p \<noteq> []
        \<and> item results (tp_name p) = JObj result \<and> item result ''truncated'' \<noteq> JBool True
        \<and> item result ''columns'' = JList cols \<and> 0 < length cols \<and> length cols \<le> 75 \<and> list_all2 types_column cols (tp_columns p)
        \<and> item result ''rows'' = JList rows \<and> length rows \<le> 5000000 \<and> length (tp_rows p) = length rows
        \<and> (if distinct (map snd (tp_columns p))
           then list_all2 (encodes_row to_float (tp_name p) (tp_columns p)) rows (tp_rows p) else True))"

lemma res_map_related: "res_map f xs = Inr ys \<Longrightarrow> (\<And>x y. f x = Inr y \<Longrightarrow> P x y) \<Longrightarrow> list_all2 P xs ys"
  by (induction xs arbitrary: ys) (auto simp: res_bind_Inr_iff)

lemma plan_table_delivers:
  assumes "plan_table to_float results query = Inr p"
  shows "delivers to_float results query p"
proof -
  obtain kvs qname where q: "query = JObj kvs" "item kvs ''name'' = JStr qname" "qname \<noteq> []"
    using assms by (auto simp: plan_table_def split: option.splits json.splits)
  obtain result where r: "item results qname = JObj result" "item result ''truncated'' \<noteq> JBool True"
    using assms q by (auto simp: plan_table_def split: json.splits if_splits)
  obtain c cs where cols: "item result ''columns'' = JList (c # cs)"
    using assms q r by (auto simp: plan_table_def split: json.splits list.splits)
  obtain rows where rows: "item result ''rows'' = JList rows"
    using assms q r cols by (auto simp: plan_table_def split: json.splits)
  obtain columns encoded where plan: "length (c # cs) \<le> push_limit_of ''max_columns_per_table''"
    "length rows \<le> push_limit_of ''max_rows_per_table_none_retention''"
    "res_map (plan_column qname) (c # cs) = Inr columns" "res_map (pbi_row to_float qname (map fst columns)) rows = Inr encoded"
    "p = \<lparr>tp_name = qname, tp_columns = map fst columns, tp_rows = encoded,
       tp_notes = concat (map (\<lambda>(_, _, n). n) columns), tp_meta = map (\<lambda>(_, m, _). m) columns\<rparr>"
    using assms q r cols rows by (auto simp: plan_table_def res_bind_Inr_iff simp del: res_map.simps split: if_splits)
  have "list_all2 types_column (c # cs) (map fst columns)"
    unfolding list.rel_map by (rule res_map_related [OF plan(3)]) (rule plan_column_types)
  moreover have "length encoded = length rows" using res_map_Inr_length [OF plan(4)] by simp
  moreover have "list_all2 (encodes_row to_float qname (map fst columns)) rows encoded" if "distinct (map snd (map fst columns))"
    by (rule res_map_related [OF plan(4)]) (rule pbi_row_encodes [OF _ that])
  ultimately show ?thesis
    using q r cols rows plan(1,2) unfolding delivers_def plan(5)
    by (simp add: push_limit_of_def PUSH_LIMITS_def)
qed


text \<open>C17. What reaches the wire: a plan has a table for each query of the artifact, at most 75, in order and under its name. Each comes
  from a result that is not truncated and has at most 75 columns and five million rows; its columns have the names of the
  result and the types of the map, and where these names differ from each other its rows are the rows of the result, value by
  value, with texts of at most 4000 characters.\<close>
theorem plan_tables_deliver:
  assumes "plan_tables to_float artifact results = Inr plans"
  shows "\<exists>queries. item artifact ''queries'' = JList queries \<and> 0 < length queries \<and> length queries \<le> 75
    \<and> list_all2 (delivers to_float results) queries plans"
proof -
  obtain q qs where q: "item artifact ''queries'' = JList (q # qs)"
    using assms by (auto simp: plan_tables_def split: json.splits list.splits)
  then have "length (q # qs) \<le> push_limit_of ''max_tables''" "res_map (plan_table to_float results) (q # qs) = Inr plans"
    using assms by (auto simp: plan_tables_def res_bind_Inr_iff simp del: res_map.simps)
  then show ?thesis
    using q by (auto simp: push_limit_of_def PUSH_LIMITS_def simp del: res_map.simps dest: res_map_related [OF _ plan_table_delivers])
qed

definition sales_result :: json where
  "sales_result = JObj [(''columns'', JList [JObj [(''name'', JStr ''day''), (''type'', JStr ''date'')],
       JObj [(''name'', JStr ''orders''), (''type'', JStr ''bigint'')]]),
     (''rows'', JList [JList [JStr ''2026-01-01'', JInt 4], JList [JStr ''2026-01-02'', JStr ''12'']]),
     (''truncated'', JBool False)]"

definition sales_artifact :: "(string, json) dict" where
  "sales_artifact = [(''id'', JStr ''ra-0a1b2c3d''), (''queries'', JList [JObj [(''name'', JStr ''sales'')]])]"

definition sales_plan :: table_plan where
  "sales_plan = \<lparr>tp_name = ''sales'', tp_columns = [(''DateTime'', ''day''), (''Int64'', ''orders'')],
     tp_rows = [JObj [(''day'', JStr ''2026-01-01''), (''orders'', JInt 4)],
       JObj [(''day'', JStr ''2026-01-02''), (''orders'', JInt 12)]],
     tp_notes = [],
     tp_meta = [JObj [(''name'', JStr ''day''), (''type'', JStr ''DateTime''), (''source_type'', JStr ''date'')],
       JObj [(''name'', JStr ''orders''), (''type'', JStr ''Int64''), (''source_type'', JStr ''bigint'')]]\<rparr>"

definition no_floats :: to_float where
  "no_floats v = Inl ''TypeError''"

lemma push_limits: "push_limit_of ''max_tables'' = 75" "push_limit_of ''max_columns_per_table'' = 75"
  "push_limit_of ''max_relationships'' = 75" "push_limit_of ''max_rows_per_table_none_retention'' = 5000000"
  "push_limit_of ''max_string_value_chars'' = 4000" "push_limit_of ''max_rows_per_post'' = 10000"
  by (simp_all add: push_limit_of_def PUSH_LIMITS_def)

lemma limited_ok: "measured \<le> push_limit_of key \<Longrightarrow> limited name measured key at_place = Inr ()"
  by (simp add: limited_def)

lemma sales_planned: "plan_tables no_floats sales_artifact [(''sales'', sales_result)] = Inr [sales_plan]"
proof -
  have int: "py_int ''12'' = Some 12" by code_simp
  have types: "qe5_to_pbi_type ''date'' = (''DateTime'', None)" "qe5_to_pbi_type ''bigint'' = (''Int64'', None)" by code_simp+
  have fields: "assert_emitted_fields ''column'' [''name'', ''dataType''] = Inr ()" by code_simp
  show ?thesis
    by (simp add: plan_tables_def sales_artifact_def sales_result_def sales_plan_def plan_table_def plan_column_def types fields
        pbi_row_def pbi_value_def convert_def int is_py_int_def int_of_def str_json_def
        Sdk_Providers.member_def limited_ok push_limits)
qed

theorem plan_tables_deliver_witness:
  "\<exists>queries. item sales_artifact ''queries'' = JList queries \<and> 0 < length queries \<and> length queries \<le> 75
    \<and> list_all2 (delivers no_floats [(''sales'', sales_result)]) queries [sales_plan]"
  by (rule plan_tables_deliver [OF sales_planned])

definition joins_delivered :: "table_plan list \<Rightarrow> json \<Rightarrow> json \<Rightarrow> json \<Rightarrow> bool" where
  "joins_delivered plans from_table to_table r \<longleftrightarrow>
     (\<exists>kvs ft fc tt tc. r = JObj kvs \<and> from_table = JStr ft \<and> to_table = JStr tt \<and> ft \<in> set (plan_names plans) \<and> tt \<in> set (plan_names plans)
        \<and> item kvs ''fromTable'' = JStr ft \<and> item kvs ''fromColumn'' = JStr fc \<and> fc \<in> set (columns_of plans ft)
        \<and> item kvs ''toTable'' = JStr tt \<and> item kvs ''toColumn'' = JStr tc \<and> tc \<in> set (columns_of plans tt)
        \<and> item kvs ''crossFilteringBehavior'' = JStr ''OneDirection'')"

lemma plan_relationship_joins:
  assumes "plan_relationship plans l r ft tt ik = Inr rel" and "ft \<in> set (plan_names plans)" and "tt \<in> set (plan_names plans)"
  shows "joins_delivered plans (JStr ft) (JStr tt) rel"
proof -
  obtain fc tc name where "fc \<in> set (columns_of plans ft)" "tc \<in> set (columns_of plans tt)"
    "rel = JObj (zip relationship_fields (map JStr [name, ft, fc, tt, tc, ''OneDirection'']))"
    using assms(1) unfolding plan_relationship_def Let_def
    by (auto simp: res_bind_Inr_iff simp del: zip_Cons_Cons list.map split: if_splits option.splits)
  then show ?thesis
    using assms(2,3) by (simp add: joins_delivered_def relationship_fields_def Sdk_Providers.member_def)
qed

lemma in_names_True: "in_names names v = Inr True \<longleftrightarrow> (\<exists>s. v = JStr s \<and> s \<in> set names)"
  by (cases v) (simp_all add: in_names_def)

text \<open>The relationships of a plan come from the blend of the artifact alone. There is at least one and at most 75, each points
  from a column of the preserved table to a column of the other, the right table being preserved exactly if the join says
  so, and both columns are delivered.\<close>
theorem relationships_join_delivered:
  assumes "plan_relationships artifact plans = Inr rels" and "item artifact ''blend'' \<noteq> JNull"
  shows "\<exists>blend. item artifact ''blend'' = JObj blend \<and> 0 < length rels \<and> length rels \<le> 75
    \<and> list_all (joins_delivered plans
        (item blend (if item blend ''join'' = JStr ''right'' then ''right'' else ''left''))
        (item blend (if item blend ''join'' = JStr ''right'' then ''left'' else ''right''))) rels"
proof -
  obtain blend where b: "item artifact ''blend'' = JObj blend"
    using assms by (auto simp: plan_relationships_def split: json.splits)
  obtain k ks where k: "item blend ''keys'' = JList (k # ks)"
    using assms(1) b by (auto simp: plan_relationships_def split: json.splits list.splits)
  obtain l r where lr: "item blend ''left'' = JStr l" "item blend ''right'' = JStr r" "l \<in> set (plan_names plans)" "r \<in> set (plan_names plans)"
    using assms(1) b k
    by (auto simp: plan_relationships_def res_bind_Inr_iff Let_def in_names_True split: if_splits)
  define right where "right \<longleftrightarrow> item blend ''join'' = JStr ''right''"
  have m: "res_map (plan_relationship plans l r (if right then r else l) (if right then l else r)) (enumerate 0 (k # ks)) = Inr rels"
    and n: "length rels \<le> push_limit_of ''max_relationships''"
    using assms(1) b k lr
    by (auto simp: plan_relationships_def res_bind_Inr_iff Let_def in_names_True str_json_def right_def
        simp del: res_map.simps enumerate_simps split: if_splits)
  have "list_all2 (\<lambda>_. joins_delivered plans (JStr (if right then r else l)) (JStr (if right then l else r))) (enumerate 0 (k # ks)) rels"
    by (rule res_map_related [OF m], rule plan_relationship_joins) (use lr in auto)
  then have "list_all (joins_delivered plans (JStr (if right then r else l)) (JStr (if right then l else r))) rels"
    by (auto simp: list_all2_conv_all_nth list_all_length)
  moreover have "0 < length rels" using res_map_Inr_length [OF m] by simp
  ultimately show ?thesis
    using b lr n by (intro exI [of _ blend]) (simp add: right_def push_limit_of_def PUSH_LIMITS_def split: if_splits)
qed


definition spend_plan :: table_plan where
  "spend_plan = \<lparr>tp_name = ''spend'', tp_columns = [(''DateTime'', ''date''), (''Double'', ''cost'')], tp_rows = [], tp_notes = [], tp_meta = []\<rparr>"

definition blend_artifact :: "(string, json) dict" where
  "blend_artifact = [(''blend'', JObj [(''left'', JStr ''sales''), (''right'', JStr ''spend''), (''join'', JStr ''right''),
     (''keys'', JList [JObj [(''entity_ref'', JStr ''date''), (''left_column'', JStr ''day''), (''right_column'', JStr ''date'')]])])]"

definition blend_relationship :: json where
  "blend_relationship = JObj [(''name'', JStr ''rel-0-spend-sales''), (''fromTable'', JStr ''spend''), (''fromColumn'', JStr ''date''),
     (''toTable'', JStr ''sales''), (''toColumn'', JStr ''day''), (''crossFilteringBehavior'', JStr ''OneDirection'')]"

theorem relationships_join_delivered_witness:
  "\<exists>blend. item blend_artifact ''blend'' = JObj blend \<and> 0 < length [blend_relationship] \<and> length [blend_relationship] \<le> 75
    \<and> list_all (joins_delivered [sales_plan, spend_plan]
        (item blend (if item blend ''join'' = JStr ''right'' then ''right'' else ''left''))
        (item blend (if item blend ''join'' = JStr ''right'' then ''left'' else ''right''))) [blend_relationship]"
proof (rule relationships_join_delivered)
  have rel: "plan_relationship [sales_plan, spend_plan] ''sales'' ''spend'' ''spend'' ''sales''
      (0, JObj [(''entity_ref'', JStr ''date''), (''left_column'', JStr ''day''), (''right_column'', JStr ''date'')]) = Inr blend_relationship"
    by code_simp
  show "plan_relationships blend_artifact [sales_plan, spend_plan] = Inr [blend_relationship]"
    by (simp add: plan_relationships_def blend_artifact_def Sdk_Providers.member_def plan_names_def sales_plan_def spend_plan_def
        in_names_def str_json_def limited_ok push_limits rel [unfolded sales_plan_def spend_plan_def])
  show "item blend_artifact ''blend'' \<noteq> JNull" by (simp add: blend_artifact_def Sdk_Providers.member_def)
qed

end
