(* ===== verification/Pbi_Publisher.thy ===== *)
theory Pbi_Publisher
  imports Pbi_Plan
begin

text \<open>
  The wire half of the Power BI publisher (\<open>src/connectors/powerbi/publisher.py\<close>): the creation of a dataset with its clean-up,
  the revision of one with the restoration of the tables replaced so far, the batches of rows, and \<open>publish\<close> itself.

  \<open>environ\<close> is the environment of the process; \<open>services\<close> is a client of which \<open>_client\<close> replaces the identity, the secret
  and the hosts.
\<close>

section \<open>Rows\<close>

definition dataset_params :: "string \<Rightarrow> string \<Rightarrow> (string, string) dict" where
  "dataset_params ws ds = [(''groupId'', ws), (''datasetId'', ds)]"

definition table_params :: "string \<Rightarrow> string \<Rightarrow> string \<Rightarrow> (string, string) dict" where
  "table_params ws ds table = [(''groupId'', ws), (''datasetId'', ds), (''tableName'', table)]"

definition delete_rows :: "'w pbi_client \<Rightarrow> string \<Rightarrow> string \<Rightarrow> string \<Rightarrow> ('w, pbi_answer) pbi_io" where
  "delete_rows cl ws ds table = call_endpoint cl ''push.delete_rows'' (table_params ws ds table) [] None PBI_SCOPE [200]"

definition post_rows :: "'w pbi_client \<Rightarrow> string \<Rightarrow> string \<Rightarrow> string \<Rightarrow> json list \<Rightarrow> ('w, pbi_answer) pbi_io" where
  "post_rows cl ws ds table batch =
     io_bind (io_lift (io_pinned (assert_emitted_fields ''post_rows'' [''rows'']))) (\<lambda>_.
       call_endpoint cl ''push.post_rows'' (table_params ws ds table) [] (Some (JObj [(''rows'', JList batch)])) PBI_SCOPE [200])"

function push_batches :: "nat \<Rightarrow> (json list \<Rightarrow> ('s, 'a) io) \<Rightarrow> json list \<Rightarrow> ('s, unit) io" where
  "push_batches n post rows =
     (if rows = [] \<or> n = 0 then io_return () else io_bind (post (take n rows)) (\<lambda>_. push_batches n post (drop n rows)))"
  by pat_completeness auto
termination
  by (relation "measure (\<lambda>(n, post, rows). length rows)") auto

declare push_batches.simps [simp del]

definition push_rows :: "'w pbi_client \<Rightarrow> string \<Rightarrow> string \<Rightarrow> table_plan \<Rightarrow> ('w, unit) pbi_io" where
  "push_rows cl ws ds plan = push_batches (push_limit_of ''max_rows_per_post'') (post_rows cl ws ds (tp_name plan)) (tp_rows plan)"

definition replace_rows :: "'w pbi_client \<Rightarrow> string \<Rightarrow> string \<Rightarrow> table_plan \<Rightarrow> ('w, unit) pbi_io" where
  "replace_rows cl ws ds plan = io_bind (delete_rows cl ws ds (tp_name plan)) (\<lambda>_. push_rows cl ws ds plan)"

text \<open>\<open>for x in xs: act(x)\<close>\<close>

fun each :: "('x \<Rightarrow> ('s, unit) io) \<Rightarrow> 'x list \<Rightarrow> ('s, unit) io" where
  "each act [] = io_return ()"
| "each act (x # xs) = io_bind (act x) (\<lambda>_. each act xs)"

section \<open>A new dataset\<close>

definition table_body :: "table_plan \<Rightarrow> json" where
  "table_body plan = JObj [(''name'', JStr (tp_name plan)), (''columns'', JList (map column_body (tp_columns plan)))]"

definition dataset_fields :: "string \<Rightarrow> table_plan list \<Rightarrow> json list \<Rightarrow> (string, json) dict" where
  "dataset_fields name plans relationships =
     [(''name'', JStr name), (''defaultMode'', JStr ''Push''), (''tables'', JList (map table_body plans))]
     @ (if relationships = [] then [] else [(''relationships'', JList relationships)])"

definition checked_fields :: "string \<Rightarrow> string list \<Rightarrow> ('s, unit) io" where
  "checked_fields kind fields_given = io_lift (io_pinned (assert_emitted_fields kind fields_given))"

definition cleanup_failed :: "string \<Rightarrow> string \<Rightarrow> connector_error \<Rightarrow> connector_error \<Rightarrow> connector_error" where
  "cleanup_failed name ds exc cleanup_exc =
     SourceUnavailable (''model delivery failed AND the created dataset could not be removed -- the workspace holds a partial model ''
       @ py_repr name @ '' (dataset '' @ ds @ ''); delete it manually. Delivery error: '' @ error_message exc
       @ ''; cleanup error: '' @ error_message cleanup_exc)
       [(''capability_code'', JStr ''delivery_state_inconsistent''), (''dataset_id'', JStr ds)]"

definition fill_dataset :: "'w pbi_client \<Rightarrow> string \<Rightarrow> string \<Rightarrow> string \<Rightarrow> table_plan list \<Rightarrow> ('w, unit) pbi_io" where
  "fill_dataset cl ws name ds plans s =
     (case each (push_rows cl ws ds) plans s of
        (Inl (Raised exc), s') \<Rightarrow>
          (case call_endpoint cl ''datasets.delete'' (dataset_params ws ds) [] None PBI_SCOPE [200] s' of
             (Inr _, s'') \<Rightarrow> (Inl (Raised exc), s'')
           | (Inl (Raised cleanup_exc), s'') \<Rightarrow> (Inl (Raised (cleanup_failed name ds exc cleanup_exc)), s'')
           | (Inl (Escaping x), s'') \<Rightarrow> (Inl (Escaping x), s''))
      | other \<Rightarrow> other)"

definition list_datasets :: "'w pbi_client \<Rightarrow> string \<Rightarrow> string \<Rightarrow> ('w, (string, json) dict option) pbi_io" where
  "list_datasets cl ws name =
     io_bind (call_endpoint cl ''datasets.list_in_group'' [(''groupId'', ws)] [] None PBI_SCOPE [200])
       (\<lambda>(_, _, listing). io_lift (find_dataset listing name))"

definition web_url_of :: "(string, json) dict \<Rightarrow> string" where
  "web_url_of found = str_json (or_else (item found ''webUrl'') (JStr []))"

definition new_dataset :: "'w pbi_client \<Rightarrow> string \<Rightarrow> string \<Rightarrow> table_plan list \<Rightarrow> json list \<Rightarrow> ('w, string) pbi_io" where
  "new_dataset cl ws name plans relationships =
     io_bind (each (\<lambda>_. checked_fields ''table'' [''name'', ''columns'']) plans) (\<lambda>_.
     io_bind (checked_fields ''create_dataset'' (dict_keys (dataset_fields name plans relationships))) (\<lambda>_.
     io_bind (call_endpoint cl ''push.create_dataset'' [(''groupId'', ws)] [(''defaultRetentionPolicy'', ''None'')]
         (Some (JObj (dataset_fields name plans relationships))) PBI_SCOPE [201, 202]) (\<lambda>(_, _, created).
       let ds = (case created of JObj kvs \<Rightarrow> (case dict_get kvs ''id'' of Some v \<Rightarrow> str_json v | None \<Rightarrow> []) | _ \<Rightarrow> []) in
       if ds = [] then io_raise (SourceUnavailable ''dataset creation returned no id'' []) else io_return ds)))"

definition create_dataset ::
  "'w pbi_client \<Rightarrow> string \<Rightarrow> string \<Rightarrow> table_plan list \<Rightarrow> json list \<Rightarrow> ('w, string \<times> string) pbi_io" where
  "create_dataset cl ws name plans relationships =
     io_bind (new_dataset cl ws name plans relationships) (\<lambda>ds.
     io_bind (fill_dataset cl ws name ds plans) (\<lambda>_.
     io_bind (list_datasets cl ws name) (\<lambda>found.
       io_return (ds, case found of Some d \<Rightarrow> web_url_of d | None \<Rightarrow> []))))"

section \<open>A revision\<close>

definition prior_result :: "(string, json) dict option \<Rightarrow> string \<Rightarrow> (json list \<times> json list) option" where
  "prior_result previous table =
     (case previous of
        None \<Rightarrow> None
      | Some kvs \<Rightarrow>
          (case item kvs table of
             JObj prior \<Rightarrow>
               (case (item prior ''rows'', item prior ''columns'') of
                  (JList rows, JList columns) \<Rightarrow> Some (rows, columns)
                | _ \<Rightarrow> None)
           | _ \<Rightarrow> None))"

definition prior_converters :: "json list \<Rightarrow> typed_column list" where
  "prior_converters columns =
     List.map_filter (\<lambda>c. case c of
        JObj kvs \<Rightarrow> Some (fst (qe5_to_pbi_type (case dict_get kvs ''type'' of Some v \<Rightarrow> str_json v | None \<Rightarrow> [])), str_json (item kvs ''name''))
      | _ \<Rightarrow> None) columns"

definition restore_table ::
  "to_float \<Rightarrow> 'w pbi_client \<Rightarrow> string \<Rightarrow> string \<Rightarrow> string \<Rightarrow> json list \<times> json list \<Rightarrow> ('w, unit) pbi_io" where
  "restore_table to_float cl ws ds table prior =
     io_bind (io_lift (res_map (pbi_row to_float table (prior_converters (snd prior))) (fst prior))) (\<lambda>encoded.
       replace_rows cl ws ds \<lparr>tp_name = table, tp_columns = prior_converters (snd prior), tp_rows = encoded, tp_notes = [], tp_meta = []\<rparr>)"

text \<open>The loop over the replaced tables: what became of each, and whether all were put back\<close>

fun restore_tables ::
  "to_float \<Rightarrow> 'w pbi_client \<Rightarrow> string \<Rightarrow> string \<Rightarrow> (string, json) dict option \<Rightarrow> string list \<Rightarrow> (string, string) dict \<times> bool
     \<Rightarrow> ('w, (string, string) dict \<times> bool) pbi_io" where
  "restore_tables to_float cl ws ds previous [] (states, sound) s = (Inr (states, sound), s)"
| "restore_tables to_float cl ws ds previous (table # tables) (states, sound) s =
     (case prior_result previous table of
        None \<Rightarrow> restore_tables to_float cl ws ds previous tables
                  (dict_set table ''new-rows (no previous results to restore from)'' states, False) s
      | Some prior \<Rightarrow>
          (case restore_table to_float cl ws ds table prior s of
             (Inr _, s') \<Rightarrow> restore_tables to_float cl ws ds previous tables (dict_set table ''restored-previous'' states, sound) s'
           | (Inl (Raised _), s') \<Rightarrow>
               restore_tables to_float cl ws ds previous tables (dict_set table ''unknown (restore failed)'' states, False) s'
           | (Inl (Escaping x), s') \<Rightarrow> (Inl (Escaping x), s')))"

definition restore_failed :: "(string, string) dict \<Rightarrow> connector_error \<Rightarrow> connector_error" where
  "restore_failed states original =
     (let st = JObj (map (\<lambda>(t, x). (t, JStr x)) states) in
      SourceUnavailable (''model delivery failed mid-replacement AND restore could not return every table to the previous revision -- table states: ''
        @ repr_json st @ ''. Re-delivering this revision will converge the model. Original delivery error: '' @ error_message original)
        [(''capability_code'', JStr ''delivery_state_inconsistent''), (''tables'', st)])"

definition restore ::
  "to_float \<Rightarrow> 'w pbi_client \<Rightarrow> string \<Rightarrow> string \<Rightarrow> string list \<Rightarrow> (string, json) dict option \<Rightarrow> connector_error \<Rightarrow> ('w, unit) pbi_io" where
  "restore to_float cl ws ds replaced previous original =
     (if replaced = [] then io_return ()
      else io_bind (restore_tables to_float cl ws ds previous replaced ([], True)) (\<lambda>(states, sound).
             if sound then io_return () else io_raise (restore_failed states original)))"

fun replace_tables ::
  "to_float \<Rightarrow> 'w pbi_client \<Rightarrow> string \<Rightarrow> string \<Rightarrow> (string, json) dict option \<Rightarrow> string list \<Rightarrow> table_plan list \<Rightarrow> ('w, unit) pbi_io" where
  "replace_tables to_float cl ws ds previous replaced [] s = (Inr (), s)"
| "replace_tables to_float cl ws ds previous replaced (plan # plans) s =
     (case replace_rows cl ws ds plan s of
        (Inr _, s') \<Rightarrow> replace_tables to_float cl ws ds previous (replaced @ [tp_name plan]) plans s'
      | (Inl (Raised exc), s') \<Rightarrow>
          (case restore to_float cl ws ds replaced previous exc s' of
             (Inl f, s'') \<Rightarrow> (Inl f, s'')
           | (Inr _, s'') \<Rightarrow> (Inl (Raised exc), s''))
      | (Inl (Escaping x), s') \<Rightarrow> (Inl (Escaping x), s'))"

text \<open>The tables of the model by their names, and the columns of one\<close>

definition tables_by_name :: "json \<Rightarrow> (string, (string, json) dict) dict attempt" where
  "tables_by_name listing =
     res_bind (get_or (or_else listing (JObj [])) ''value'' JNull) (\<lambda>v.
     res_bind (py_iter (or_else v (JList []))) (\<lambda>tables.
       Inr (dict_of (List.map_filter (\<lambda>t. case t of
          JObj kvs \<Rightarrow> Some (str_json (item kvs ''name''), kvs) | _ \<Rightarrow> None) tables))))"

definition current_columns :: "(string, json) dict \<Rightarrow> typed_column list attempt" where
  "current_columns table =
     res_bind (py_iter (or_else (item table ''columns'') (JList []))) (\<lambda>columns.
       Inr (List.map_filter (\<lambda>c. case c of
          JObj kvs \<Rightarrow> Some (str_json (item kvs ''dataType''), str_json (item kvs ''name'')) | _ \<Rightarrow> None) columns))"

definition put_schema :: "'w pbi_client \<Rightarrow> string \<Rightarrow> string \<Rightarrow> (string, (string, json) dict) dict \<Rightarrow> table_plan \<Rightarrow> ('w, unit) pbi_io" where
  "put_schema cl ws ds existing plan =
     io_bind (io_lift (current_columns (case dict_get existing (tp_name plan) of Some t \<Rightarrow> t | None \<Rightarrow> []))) (\<lambda>current.
       if current = tp_columns plan then io_return ()
       else
         io_bind (checked_fields ''table'' [''name'', ''columns'']) (\<lambda>_.
         io_bind (call_endpoint cl ''push.put_table'' (table_params ws ds (tp_name plan)) [] (Some (table_body plan)) PBI_SCOPE [200])
           (\<lambda>_. io_return ())))"

definition changed_tables :: "string list \<Rightarrow> string list \<Rightarrow> connector_error" where
  "changed_tables existing names =
     ConfigError (''revision changes the table set: model has '' @ repr_names existing @ '', artifact delivers '' @ repr_names names
       @ ''. The push surface cannot add or remove tables of an existing model in place; either keep the ''
       @ ''result-set aliases stable across revisions (RA-8) or retire this ''
       @ ''report (deletion is a human/workspace act, report-authoring '' @ CHR 0xa7 # ''8) and mint a new artifact id.'') []"

definition revise ::
  "to_float \<Rightarrow> 'w pbi_client \<Rightarrow> string \<Rightarrow> string \<Rightarrow> table_plan list \<Rightarrow> (string, json) dict option \<Rightarrow> ('w, unit) pbi_io" where
  "revise to_float cl ws ds plans previous =
     io_bind (call_endpoint cl ''push.get_tables'' (dataset_params ws ds) [] None PBI_SCOPE [200]) (\<lambda>(_, _, listing).
     io_bind (io_lift (tables_by_name listing)) (\<lambda>existing.
       if set (dict_keys existing) \<noteq> set (plan_names plans)
       then io_raise (changed_tables (dict_keys existing) (plan_names plans))
       else
         io_bind (each (put_schema cl ws ds existing) plans) (\<lambda>_.
           replace_tables to_float cl ws ds previous [] plans)))"

section \<open>Publishing\<close>

definition attest :: "string \<Rightarrow> publish_request \<Rightarrow> publish_result attempt" where
  "attest ws request =
     (let att = (case pr_attestation request of Some kvs \<Rightarrow> kvs | None \<Rightarrow> []) in
      case named (item att ''report_id'') of
        None \<Rightarrow> refuse_config ''attest requires attestation.report_id''
      | Some report_id \<Rightarrow>
          (case as_string (item att ''definition_hash'') of
             Some h \<Rightarrow>
               if sha256_shaped h then
                 let url = fill_parts (\<lambda>n. if n = ''groupId'' then ws else report_id) (template_parts REPORT_WEB_URL_TEMPLATE) in
                 Inr \<lparr>pb_mode = ''attest'',
                   pb_created = [JObj [(''type'', JStr ''report''), (''id'', JStr report_id), (''url'', JStr url)]],
                   pb_pending_human_steps = [], pb_backing = [],
                   pb_detail = [(''attested'', JObj [(''artifact_id'', item (pr_artifact request) ''id''), (''workspace_id'', JStr ws),
                     (''report_id'', JStr report_id), (''definition_hash'', JStr h)])]\<rparr>
               else refuse_config ''attest requires a well-formed attestation.definition_hash ('sha256:' + 64 lowercase hex)''
           | None \<Rightarrow> refuse_config ''attest requires a well-formed attestation.definition_hash ('sha256:' + 64 lowercase hex)''))"

definition host_overrides :: "(string, json) dict \<Rightarrow> (string, string) dict" where
  "host_overrides config =
     List.map_filter (\<lambda>(canonical, key). case named (item config key) of
         Some s \<Rightarrow> Some (canonical, rstrip_by (\<lambda>c. c = CHR ''/'') s) | None \<Rightarrow> None)
       [(PBI_API_BASE, ''api_base_override''), (LOGIN_BASE, ''login_base_override''), (FABRIC_API_BASE, ''fabric_base_override'')]"

definition required :: "(string, json) dict \<Rightarrow> string \<Rightarrow> string \<Rightarrow> string attempt" where
  "required config key msg = (case named (item config key) of Some s \<Rightarrow> Inr s | None \<Rightarrow> refuse_config msg)"

definition client_of :: "(string \<Rightarrow> string option) \<Rightarrow> 'w pbi_client \<Rightarrow> (string, json) dict \<Rightarrow> 'w pbi_client attempt" where
  "client_of environ services config =
     res_bind (required config ''tenant_id'' ''config.tenant_id is required'') (\<lambda>tenant.
     res_bind (required config ''client_id'' ''config.client_id is required'') (\<lambda>cid.
     res_bind (required config ''client_secret_env'' (''config.client_secret_env is required -- the runner resolves the ''
         @ ''client_secret credential reference into it (J-4)'')) (\<lambda>env.
       case environ env of
         Some (c # cs) \<Rightarrow> Inr (services\<lparr>bc_tenant := tenant, bc_id := cid, bc_secret := c # cs, bc_overrides := host_overrides config\<rparr>)
       | _ \<Rightarrow> refuse_config (''client secret env '' @ env @ '' is empty -- the registration must carry credentials: [{key: ''
           @ CHR 0x22 # ''client_secret'' @ CHR 0x22 # '', ref: '' @ CHR 0x22 # ''env://...'' @ CHR 0x22 # '', required_for: [''
           @ CHR 0x22 # ''publish'' @ CHR 0x22 # '']}]''))))"

text \<open>The client and its cache live as long as one delivery.\<close>

definition with_client :: "('w, 'a) pbi_io \<Rightarrow> ('w, 'a) io" where
  "with_client m w = (case m (w, []) of (r, s) \<Rightarrow> (r, fst s))"

definition delivery_result :: "string \<Rightarrow> string \<Rightarrow> string \<Rightarrow> string \<Rightarrow> table_plan list \<Rightarrow> json list \<Rightarrow> json list \<Rightarrow> publish_result" where
  "delivery_result name ws ds web_url plans proximity backing =
     (let notes = concat (map tp_notes plans) in
      \<lparr>pb_mode = ''deliver_model'',
        pb_created = [JObj [(''type'', JStr ''dataset''), (''id'', JStr ds), (''url'', JStr web_url)]],
        pb_pending_human_steps = [], pb_backing = backing,
        pb_detail = [(''dataset_name'', JStr name),
          (''delivered'', JObj [(''workspace_id'', JStr ws), (''dataset_id'', JStr ds),
            (''tables'', JList (map (\<lambda>p. JObj [(''name'', JStr (tp_name p)), (''columns'', JList (tp_meta p)),
               (''rows_delivered'', JInt (int (length (tp_rows p))))]) plans))])]
          @ (if notes = [] then [] else [(''precision_notes'', JList (map JStr notes))])
          @ (if proximity = [] then [] else [(''limit_proximity'', JList proximity)])\<rparr>)"

definition ship ::
  "to_float \<Rightarrow> 'w pbi_client \<Rightarrow> string \<Rightarrow> string \<Rightarrow> table_plan list \<Rightarrow> json list \<Rightarrow> (string, json) dict option \<Rightarrow> ('w, string \<times> string) pbi_io" where
  "ship to_float cl ws name plans relationships previous =
     io_bind (list_datasets cl ws name) (\<lambda>existing.
       case existing of
         None \<Rightarrow> create_dataset cl ws name plans relationships
       | Some found \<Rightarrow>
           let ds = str_json (item found ''id'') in
           io_bind (revise to_float cl ws ds plans previous) (\<lambda>_. io_return (ds, web_url_of found)))"

definition deliver_model ::
  "to_float \<Rightarrow> (string \<Rightarrow> string option) \<Rightarrow> 'w pbi_client \<Rightarrow> (string, json) dict \<Rightarrow> string \<Rightarrow> string \<Rightarrow> publish_request
     \<Rightarrow> ('w, publish_result) io" where
  "deliver_model to_float environ services config ws artifact_id request =
     (case pr_results request of
        Some (r # rs) \<Rightarrow>
          io_bind (io_lift (plan_tables to_float (pr_artifact request) (r # rs))) (\<lambda>plans.
          io_bind (io_lift (plan_relationships (pr_artifact request) plans)) (\<lambda>relationships.
          io_bind (io_lift (client_of environ services config)) (\<lambda>cl.
          io_bind (io_lift (dataset_name artifact_id)) (\<lambda>name.
          io_bind (with_client (ship to_float cl ws name plans relationships (pr_previous request))) (\<lambda>(ds, web_url).
          io_bind (io_lift (backing_entries (pr_artifact request))) (\<lambda>backing.
            io_return (delivery_result name ws ds web_url plans (limit_proximity (model_counts plans relationships)) backing)))))))
      | _ \<Rightarrow> io_lift (refuse_config (''deliver_model requires payload.results -- the gateway-executed ''
            @ ''result per artifact query (RA-2); nothing else may feed a model'')))"

definition publish ::
  "to_float \<Rightarrow> (string \<Rightarrow> string option) \<Rightarrow> 'w pbi_client \<Rightarrow> (string, json) dict \<Rightarrow> publish_request \<Rightarrow> (string, json) dict
     \<Rightarrow> ('w, publish_result) io" where
  "publish to_float environ services config request flags =
     (if item flags ''create_report'' \<noteq> JStr ''api'' then
        io_lift (refuse_config (''powerbi publishes via the api two-call contract only; effective create_report=''
          @ repr_json (item flags ''create_report'') @ '' cannot be honored (PB-1)''))
      else if pr_mode request \<noteq> Some ''deliver_model'' \<and> pr_mode request \<noteq> Some ''attest'' then
        io_lift (refuse_config (''powerbi requires payload.mode 'deliver_model' or 'attest' (got ''
          @ repr_json (case pr_mode request of Some m \<Rightarrow> JStr m | None \<Rightarrow> JNull) @ '') -- capability '' @ CHR 0xa7 # ''8.2 amendment''))
      else
        io_bind (io_lift (required config ''workspace_id'' ''config.workspace_id is required'')) (\<lambda>ws.
        io_bind (io_lift (required (pr_artifact request) ''id''
            (''artifact.id (stable UUID, formats '' @ CHR 0xa7 # ''4.1) is required''))) (\<lambda>artifact_id.
          if pr_mode request = Some ''attest'' then io_lift (attest ws request)
          else deliver_model to_float environ services config ws artifact_id request)))"


section \<open>Every request is documented\<close>

lemma keeps_each: "(\<And>x. keeps I (act x)) \<Longrightarrow> keeps I (each act xs)"
  by (induction xs) (auto intro: keeps_intros)

lemma keeps_push_batches:
  assumes "\<And>b. keeps I (post b)"
  shows "keeps I (push_batches n post rows)"
proof (induction rows rule: measure_induct_rule [of length])
  case (less rows)
  show ?case
  proof (cases "rows = [] \<or> n = 0")
    case True
    then show ?thesis by (simp add: keeps_def push_batches.simps)
  next
    case False
    then have "push_batches n post rows = io_bind (post (take n rows)) (\<lambda>_. push_batches n post (drop n rows))"
      by (intro trans [OF push_batches.simps]) simp
    moreover have "keeps I (push_batches n post (drop n rows))" using False by (intro less.IH) simp
    ultimately show ?thesis using assms by (simp add: keeps_bind)
  qed
qed

context gate_invariant
begin

lemma delete_rows_keeps: "keeps J (delete_rows cl ws ds table)"
  unfolding delete_rows_def by (rule call_keeps)

lemma post_rows_keeps: "keeps J (post_rows cl ws ds table batch)"
  unfolding post_rows_def by (intro keeps_intros call_keeps)

lemma push_rows_keeps: "keeps J (push_rows cl ws ds plan)"
  unfolding push_rows_def by (intro keeps_push_batches post_rows_keeps)

lemma replace_rows_keeps: "keeps J (replace_rows cl ws ds plan)"
  unfolding replace_rows_def by (intro keeps_intros delete_rows_keeps push_rows_keeps)

lemma list_datasets_keeps: "keeps J (list_datasets cl ws name)"
  unfolding list_datasets_def by (intro keeps_bind call_keeps) (simp add: keeps_lift split: prod.split)

lemma fill_dataset_keeps: "keeps J (fill_dataset cl ws name ds plans)"
proof (rule keepsI)
  fix s r s' assume "J s" and run: "fill_dataset cl ws name ds plans s = (r, s')"
  obtain q s1 where push: "each (push_rows cl ws ds) plans s = (q, s1)" using prod.exhaust by blast
  obtain d s2 where delete: "call_endpoint cl ''datasets.delete'' (dataset_params ws ds) [] None PBI_SCOPE [200] s1 = (d, s2)"
    using prod.exhaust by blast
  have "keeps J (each (push_rows cl ws ds) plans)" by (intro keeps_each push_rows_keeps)
  then have "J s1" using push \<open>J s\<close> by (rule keepsD)
  moreover from this have "J s2" by (rule keepsD [OF call_keeps delete])
  ultimately show "J s'"
    using run by (auto simp: fill_dataset_def push delete split: sum.splits failure.splits)
qed

lemma new_dataset_keeps: "keeps J (new_dataset cl ws name plans relationships)"
  unfolding new_dataset_def checked_fields_def Let_def
  by (intro keeps_intros keeps_each call_keeps) (auto intro!: keeps_intros split: prod.split)

lemma create_dataset_keeps: "keeps J (create_dataset cl ws name plans relationships)"
  unfolding create_dataset_def by (intro keeps_intros new_dataset_keeps fill_dataset_keeps list_datasets_keeps)

lemma restore_table_keeps: "keeps J (restore_table to_float cl ws ds table prior)"
  unfolding restore_table_def by (intro keeps_intros replace_rows_keeps)

lemma restore_tables_keeps: "keeps J (restore_tables to_float cl ws ds previous tables acc)"
proof (induction tables arbitrary: acc)
  case (Cons t ts)
  show ?case
  proof (rule keepsI)
    fix s r s' assume "J s" and run: "restore_tables to_float cl ws ds previous (t # ts) acc s = (r, s')"
    show "J s'"
    proof (cases "prior_result previous t")
      case None
      then show ?thesis using run keepsD [OF Cons.IH _ \<open>J s\<close>] by (cases acc) auto
    next
      case (Some prior)
      obtain q s1 where one: "restore_table to_float cl ws ds t prior s = (q, s1)" using prod.exhaust by blast
      have "J s1" by (rule keepsD [OF restore_table_keeps one \<open>J s\<close>])
      then show ?thesis
        using run Some one keepsD [OF Cons.IH _ \<open>J s1\<close>] by (cases acc) (auto split: sum.splits failure.splits)
    qed
  qed
next
  case Nil
  show ?case by (cases acc) (simp add: keeps_def)
qed

lemma restore_keeps: "keeps J (restore to_float cl ws ds replaced previous original)"
  unfolding restore_def by (auto intro!: keeps_intros restore_tables_keeps split: prod.split)

lemma replace_tables_keeps: "keeps J (replace_tables to_float cl ws ds previous replaced plans)"
proof (induction plans arbitrary: replaced)
  case (Cons p ps)
  show ?case
  proof (rule keepsI)
    fix s r s' assume "J s" and run: "replace_tables to_float cl ws ds previous replaced (p # ps) s = (r, s')"
    obtain q s1 where one: "replace_rows cl ws ds p s = (q, s1)" using prod.exhaust by blast
    have "J s1" by (rule keepsD [OF replace_rows_keeps one \<open>J s\<close>])
    then show "J s'"
      using run one keepsD [OF Cons.IH _ \<open>J s1\<close>] keepsD [OF restore_keeps _ \<open>J s1\<close>]
      by (auto split: sum.splits failure.splits prod.splits)
  qed
qed (simp add: keeps_def)

lemma put_schema_keeps: "keeps J (put_schema cl ws ds existing plan)"
  unfolding put_schema_def checked_fields_def by (auto intro!: keeps_intros call_keeps)

lemma revise_keeps: "keeps J (revise to_float cl ws ds plans previous)"
  unfolding revise_def
  by (intro keeps_bind call_keeps) (auto intro!: keeps_intros keeps_each put_schema_keeps replace_tables_keeps split: prod.split)

lemma ship_keeps: "keeps J (ship to_float cl ws name plans relationships previous)"
  unfolding ship_def Let_def
  by (intro keeps_bind list_datasets_keeps) (auto intro!: keeps_intros create_dataset_keeps revise_keeps split: option.split)

end


lemma client_of_Inr:
  assumes "client_of environ services config = Inr cl"
  shows "\<exists>tenant cid secret. cl = services\<lparr>bc_tenant := tenant, bc_id := cid, bc_secret := secret, bc_overrides := host_overrides config\<rparr>"
proof -
  obtain tenant cid env where "(case environ env of
         Some (c # cs) \<Rightarrow> Inr (services\<lparr>bc_tenant := tenant, bc_id := cid, bc_secret := c # cs, bc_overrides := host_overrides config\<rparr>)
       | _ \<Rightarrow> refuse_config (''client secret env '' @ env @ '' is empty -- the registration must carry credentials: [{key: ''
           @ CHR 0x22 # ''client_secret'' @ CHR 0x22 # '', ref: '' @ CHR 0x22 # ''env://...'' @ CHR 0x22 # '', required_for: [''
           @ CHR 0x22 # ''publish'' @ CHR 0x22 # '']}]'')) = Inr cl"
    using assms unfolding client_of_def res_bind_Inr_iff by blast
  then show ?thesis by (cases "environ env"; cases "the (environ env)") auto
qed

text \<open>C15. Whatever the service answers, every request of a publication is one that the gate admits, on the configured host.\<close>
theorem publish_sends_documented:
  "list_all (documented (services\<lparr>bc_overrides := host_overrides config\<rparr>))
     (fst (snd (publish to_float environ (logged services) config request flags ([], w))))"
proof -
  let ?P = "\<lambda>v. list_all (documented (services\<lparr>bc_overrides := host_overrides config\<rparr>)) (fst v)"
  have client: "keeps ?P (with_client (ship to_float cl ws name plans relationships previous))"
    if made: "client_of environ (logged services) config = Inr cl" for cl ws name plans relationships previous
  proof -
    obtain tenant cid secret where "cl = logged (services\<lparr>bc_tenant := tenant, bc_id := cid, bc_secret := secret,
        bc_overrides := host_overrides config\<rparr>)"
      using client_of_Inr [OF made] by (auto simp: logged_def)
    moreover have "documented (services\<lparr>bc_tenant := tenant, bc_id := cid, bc_secret := secret, bc_overrides := host_overrides config\<rparr>)
        = documented (services\<lparr>bc_overrides := host_overrides config\<rparr>)"
      by (simp add: fun_eq_iff documented_def rewrite_host_def)
    ultimately show ?thesis
      using logged.ship_keeps [of "services\<lparr>bc_tenant := tenant, bc_id := cid, bc_secret := secret, bc_overrides := host_overrides config\<rparr>"]
      by (auto simp: keeps_def with_client_def split: prod.splits) (metis fst_conv snd_conv)
  qed
  have deliver: "keeps ?P (deliver_model to_float environ (logged services) config ws artifact_id request)" for ws artifact_id
    unfolding deliver_model_def
    by (auto intro!: keeps_bind_checked keeps_bind client keeps_lift keeps_return split: option.split list.split prod.split)
  have "keeps ?P (publish to_float environ (logged services) config request flags)"
    unfolding publish_def by (auto intro!: keeps_bind_checked deliver keeps_lift)
  then show ?thesis by (auto simp: keeps_def)
qed

end
