(* ===== verification/Pbi_Delivery.thy ===== *)
theory Pbi_Delivery
  imports Pbi_Publisher
begin

text \<open>
  What a Power BI delivery does to the rows of the service. The locales state what the publisher relies on: \<open>row_sink\<close> how a call
  that returns changes the rows, \<open>live_row_sink\<close> that calls return, \<open>row_delivery\<close> the same of a transport, from which \<open>row_sink\<close>
  follows. They are interpreted on the calls of the model's client against a reference service.
\<close>

section \<open>What a successful delivery leaves\<close>

text \<open>A batch is sent again after an answer \<open>5xx\<close>, at most as often as the schedule says, and what the failed attempts have left
  stays before it. \<open>batches_left n rows out k\<close>: of rows sent in batches of \<open>n\<close>, with \<open>k\<close> failed attempts, \<open>out\<close> is what the table has
  received.\<close>

inductive batches_left :: "nat \<Rightarrow> json list \<Rightarrow> json list \<Rightarrow> nat \<Rightarrow> bool" for n where
  no_rows: "batches_left n [] [] 0"
| batch: "rows \<noteq> [] \<Longrightarrow> set extra \<subseteq> set (take n rows) \<Longrightarrow> k \<le> length RETRY_SCHEDULE_MS \<Longrightarrow> (k = 0 \<Longrightarrow> extra = []) \<Longrightarrow>
    batches_left n (drop n rows) out f \<Longrightarrow> batches_left n rows (extra @ take n rows @ out) (k + f)"

text \<open>The tables are replaced one after the other.\<close>

inductive tables_left :: "nat \<Rightarrow> (string \<times> json list) list \<Rightarrow> (string \<Rightarrow> json list) \<Rightarrow> (string \<Rightarrow> json list) \<Rightarrow> nat \<Rightarrow> bool" for n where
  no_tables: "tables_left n [] rows rows 0"
| table: "batches_left n sent out k \<Longrightarrow> tables_left n ts (rows(t := out)) rows' f \<Longrightarrow> tables_left n ((t, sent) # ts) rows rows' (k + f)"

lemma batches_left_once:
  assumes "batches_left n rows out k" and "k = 0"
  shows "out = rows"
  using assms by (induction rule: batches_left.induct) simp_all

lemma batches_left_rows: "batches_left n rows out k \<Longrightarrow> set out = set rows"
proof (induction rule: batches_left.induct)
  case (batch rows extra k out f)
  moreover have "set rows = set (take n rows) \<union> set (drop n rows)" by (metis append_take_drop_id set_append)
  ultimately show ?case by auto
qed simp

lemma tables_left_once:
  assumes "tables_left n ts rows rows' f" and "f = 0"
  shows "rows' = foldl (\<lambda>rows (t, sent). rows(t := sent)) rows ts"
  using assms by (induction rule: tables_left.induct) (auto dest: batches_left_once [OF _ refl])

lemma tables_left_frame: "tables_left n ts rows rows' f \<Longrightarrow> t \<notin> fst ` set ts \<Longrightarrow> rows' t = rows t"
  by (induction rule: tables_left.induct) simp_all

text \<open>What the publisher relies on in the service: how the rows of the tables change when a call returns, and how many answers
  \<open>5xx\<close> there have been\<close>

locale row_sink =
  fixes clear :: "string \<Rightarrow> ('s, 'a) io" and post :: "string \<Rightarrow> json list \<Rightarrow> ('s, 'a) io" and rows_in :: "'s \<Rightarrow> string \<Rightarrow> json list"
    and faults :: "'s \<Rightarrow> nat"
  assumes clear_effect: "clear t s = (Inr a, s') \<Longrightarrow> rows_in s' = (rows_in s)(t := []) \<and> faults s \<le> faults s'"
    and post_effect: "post t b s = (Inr a, s') \<Longrightarrow> \<exists>k extra. k \<le> length RETRY_SCHEDULE_MS \<and> faults s + k \<le> faults s' \<and> set extra \<subseteq> set b
      \<and> (k = 0 \<longrightarrow> extra = []) \<and> rows_in s' = (rows_in s)(t := rows_in s t @ extra @ b)"
begin

lemma push_effect:
  "0 < n \<Longrightarrow> push_batches n (post t) rows s = (Inr (), s') \<Longrightarrow>
   \<exists>out k. batches_left n rows out k \<and> faults s + k \<le> faults s' \<and> rows_in s' = (rows_in s)(t := rows_in s t @ out)"
proof (induction rows arbitrary: s rule: measure_induct_rule [of length])
  case (less rows)
  show ?case
  proof (cases "rows = []")
    case True
    then show ?thesis using less.prems(2) by (auto simp: push_batches.simps intro!: exI [of _ "[]"] no_rows)
  next
    case False
    then have "io_bind (post t (take n rows)) (\<lambda>_. push_batches n (post t) (drop n rows)) s = (Inr (), s')"
      using less.prems by (simp add: push_batches.simps [of n "post t" rows])
    then obtain a s1 where one: "post t (take n rows) s = (Inr a, s1)" "push_batches n (post t) (drop n rows) s1 = (Inr (), s')"
      by (auto simp: io_bind_Inr_iff)
    obtain k extra where sent: "k \<le> length RETRY_SCHEDULE_MS" "faults s + k \<le> faults s1" "set extra \<subseteq> set (take n rows)"
      "k = 0 \<longrightarrow> extra = []" "rows_in s1 = (rows_in s)(t := rows_in s t @ extra @ take n rows)"
      using post_effect [OF one(1)] by blast
    have "length (drop n rows) < length rows" using False less.prems(1) by simp
    from less.IH [OF this less.prems(1) one(2)] obtain out f where rest: "batches_left n (drop n rows) out f"
      "faults s1 + f \<le> faults s'" "rows_in s' = (rows_in s1)(t := rows_in s1 t @ out)" by blast
    have "batches_left n rows (extra @ take n rows @ out) (k + f)" using False sent rest(1) by (intro batch) simp_all
    then show ?thesis using sent(2,5) rest(2,3) by (intro exI [of _ "extra @ take n rows @ out"] exI [of _ "k + f"]) simp
  qed
qed

lemma replace_effect:
  assumes "0 < n" and "io_bind (clear t) (\<lambda>_. push_batches n (post t) rows) s = (Inr (), s')"
  shows "\<exists>out k. batches_left n rows out k \<and> faults s + k \<le> faults s' \<and> rows_in s' = (rows_in s)(t := out)"
proof -
  obtain a s1 where clear: "clear t s = (Inr a, s1)" and push: "push_batches n (post t) rows s1 = (Inr (), s')"
    using assms(2) by (auto simp: io_bind_Inr_iff)
  from push_effect [OF assms(1) push] obtain out k where "batches_left n rows out k" "faults s1 + k \<le> faults s'"
    "rows_in s' = (rows_in s1)(t := rows_in s1 t @ out)" by blast
  then show ?thesis using clear_effect [OF clear] by (intro exI [of _ out] exI [of _ k]) simp
qed

end

text \<open>A service that answers every call, while it is up\<close>

locale live_row_sink = row_sink +
  fixes up :: "'s \<Rightarrow> bool" and takes :: "string \<Rightarrow> bool"
  assumes clear_live: "up s \<Longrightarrow> takes t \<Longrightarrow> \<exists>a s'. clear t s = (Inr a, s') \<and> up s'"
    and post_live: "up s \<Longrightarrow> takes t \<Longrightarrow> \<exists>a s'. post t b s = (Inr a, s') \<and> up s'"
begin

lemma push_live: "up s \<Longrightarrow> takes t \<Longrightarrow> 0 < n \<Longrightarrow> \<exists>s'. push_batches n (post t) rows s = (Inr (), s') \<and> up s'"
proof (induction rows arbitrary: s rule: measure_induct_rule [of length])
  case (less rows)
  show ?case
  proof (cases "rows = []")
    case True
    then show ?thesis using less.prems(1) by (simp add: push_batches.simps)
  next
    case False
    obtain a s1 where "post t (take n rows) s = (Inr a, s1)" "up s1" using post_live [OF less.prems(1,2)] by blast
    then show ?thesis
      using False less.prems(2,3) less.IH [of "drop n rows" s1]
      by (simp add: push_batches.simps [of n "post t" rows] io_bind_simps(2) [where m = "post t (take n rows)"])
  qed
qed

lemma replace_live:
  assumes "up s" and "takes t" and "0 < n"
  shows "\<exists>s'. io_bind (clear t) (\<lambda>_. push_batches n (post t) rows) s = (Inr (), s') \<and> up s'"
proof -
  obtain a s1 where clear: "clear t s = (Inr a, s1)" "up s1" using clear_live [OF assms(1,2)] by blast
  obtain s2 where "push_batches n (post t) rows s1 = (Inr (), s2)" "up s2" using push_live [OF clear(2) assms(2,3)] by blast
  then show ?thesis by (simp add: io_bind_simps(2) [where m = "clear t", OF clear(1)])
qed

end


text \<open>The URL of the rows of a table\<close>

definition rows_url :: "string \<Rightarrow> string \<Rightarrow> string \<Rightarrow> string" where
  "rows_url ws ds table = PBI_API_BASE @ ''/groups/'' @ ws @ ''/datasets/'' @ ds @ ''/tables/'' @ table @ ''/rows''"

lemma fill_parts_append: "fill_parts f (ps @ qs) = fill_parts f ps @ fill_parts f qs"
  by (simp add: fill_parts_def)

lemma fill_parts_Chr: "fill_parts f (map Chr s) = s"
  by (induction s) simp_all

lemma rows_template:
  "template_parts (PBI_API_BASE @ ''/groups/{groupId}/datasets/{datasetId}/tables/{tableName}/rows'') =
   map Chr (PBI_API_BASE @ ''/groups/'') @ [Hole ''groupId''] @ map Chr ''/datasets/'' @ [Hole ''datasetId'']
     @ map Chr ''/tables/'' @ [Hole ''tableName''] @ map Chr ''/rows''"
  by code_simp

lemma rows_endpoint:
  assumes "dict_get ENDPOINTS name = Some \<lparr>ep_method = http_method, ep_template = PBI_API_BASE
      @ ''/groups/{groupId}/datasets/{datasetId}/tables/{tableName}/rows'', ep_ref = key\<rparr>"
  shows "pinned_endpoint name (table_params ws ds t) = Inr (m, url) \<longleftrightarrow>
    m = http_method \<and> url = rows_url ws ds t \<and> safe_value ws \<and> safe_value ds \<and> safe_value t"
  unfolding pinned_endpoint_Inr using assms
  by (auto simp: endpoint_parts_def rows_template fill_parts_append fill_parts_Chr table_params_def rows_url_def dict_keys_def
      holes_def)

lemma row_entries:
  "dict_get ENDPOINTS ''push.delete_rows'' = Some \<lparr>ep_method = ''DELETE'', ep_template = PBI_API_BASE
      @ ''/groups/{groupId}/datasets/{datasetId}/tables/{tableName}/rows'', ep_ref = ''push-delete-rows-in-group''\<rparr>"
  "dict_get ENDPOINTS ''push.post_rows'' = Some \<lparr>ep_method = ''POST'', ep_template = PBI_API_BASE
      @ ''/groups/{groupId}/datasets/{datasetId}/tables/{tableName}/rows'', ep_ref = ''push-post-rows-in-group''\<rparr>"
  by (simp_all add: ENDPOINTS_def)

lemmas row_endpoints = row_entries [THEN rows_endpoint]

definition row_request :: "'w pbi_client \<Rightarrow> string \<Rightarrow> string \<Rightarrow> string \<Rightarrow> string \<Rightarrow> string \<Rightarrow> json option \<Rightarrow> pbi_request" where
  "row_request cl ws ds t token http_method body = \<lparr>pq_method = http_method, pq_url = rewrite_host cl (rows_url ws ds t),
     pq_headers = request_headers token body, pq_body = body, pq_form = None\<rparr>"

lemma call_Inr:
  "call_endpoint cl endpoint params [] body scope expect s = (Inr a, s') \<longleftrightarrow>
     (\<exists>m url token s1. pinned_endpoint endpoint params = Inr (m, url) \<and> token_for cl scope s = (Inr token, s1)
        \<and> exchange cl endpoint \<lparr>pq_method = m, pq_url = rewrite_host cl url, pq_headers = request_headers token body, pq_body = body,
             pq_form = None\<rparr> expect 0 RETRY_SCHEDULE_MS s1 = (Inr a, s'))"
  by (auto simp: call_endpoint_def io_bind_Inr_iff) (blast dest: pinned_endpoint_gate)

lemma delete_rows_Inr:
  "delete_rows cl ws ds t s = (Inr a, s') \<longleftrightarrow> safe_value ws \<and> safe_value ds \<and> safe_value t \<and>
     (\<exists>token s1. token_for cl PBI_SCOPE s = (Inr token, s1) \<and>
        exchange cl ''push.delete_rows'' (row_request cl ws ds t token ''DELETE'' None) [200] 0 RETRY_SCHEDULE_MS s1 = (Inr a, s'))"
  by (auto simp: delete_rows_def call_Inr row_endpoints row_request_def)

lemma rows_field: "assert_emitted_fields ''post_rows'' [''rows''] = Inr ()"
  by code_simp

lemma post_rows_Inr:
  "post_rows cl ws ds t b s = (Inr a, s') \<longleftrightarrow> safe_value ws \<and> safe_value ds \<and> safe_value t \<and>
     (\<exists>token s1. token_for cl PBI_SCOPE s = (Inr token, s1) \<and>
        exchange cl ''push.post_rows'' (row_request cl ws ds t token ''POST'' (Some (JObj [(''rows'', JList b)]))) [200] 0 RETRY_SCHEDULE_MS s1
          = (Inr a, s'))"
  by (auto simp: post_rows_def io_bind_Inr_iff rows_field call_Inr row_endpoints row_request_def)


text \<open>The hypothesis on the service. Requests for tokens, reads and updates of the schema leave the rows alone, and so does a request
  that is throttled (\<open>429\<close>). The answer \<open>200\<close> to a deletion says that the table is empty, to a post that the batch is appended. An
  answer \<open>5xx\<close> says nothing: the deletion may have removed anything of its table, the post may have added any of its rows. Of
  other answers, and of dropped connections, nothing is assumed. \<open>faults\<close> counts the answers \<open>5xx\<close>.\<close>

definition server_error :: "int \<Rightarrow> bool" where
  "server_error status \<longleftrightarrow> 500 \<le> status \<and> status \<le> 599"

definition deletion_leaves :: "int \<Rightarrow> string \<Rightarrow> (string \<Rightarrow> json list) \<Rightarrow> (string \<Rightarrow> json list) \<Rightarrow> bool" where
  "deletion_leaves status t rows rows' \<longleftrightarrow>
     (status = 200 \<longrightarrow> rows' = rows(t := [])) \<and> (server_error status \<longrightarrow> (\<exists>x. rows' = rows(t := x)))"

definition post_leaves :: "int \<Rightarrow> string \<Rightarrow> json list \<Rightarrow> (string \<Rightarrow> json list) \<Rightarrow> (string \<Rightarrow> json list) \<Rightarrow> bool" where
  "post_leaves status t b rows rows' \<longleftrightarrow>
     (status = 200 \<longrightarrow> rows' = rows(t := rows t @ b)) \<and>
     (server_error status \<longrightarrow> (\<exists>x. set x \<subseteq> set b \<and> rows' = rows(t := rows t @ x)))"

definition row_service :: "'w pbi_client \<Rightarrow> string \<Rightarrow> string \<Rightarrow> ('w \<Rightarrow> string \<Rightarrow> json list) \<Rightarrow> ('w \<Rightarrow> nat) \<Rightarrow> bool" where
  "row_service cl ws ds rows_in faults \<longleftrightarrow>
     (\<forall>ms w. rows_in (bc_sleep cl ms w) = rows_in w \<and> faults (bc_sleep cl ms w) = faults w) \<and>
     (\<forall>r w status headers body w'. bc_transport cl r w = (Inr (status, headers, body), w') \<longrightarrow>
        faults w' = (if server_error status then Suc (faults w) else faults w) \<and>
        (pq_form r \<noteq> None \<or> pq_method r \<in> {''GET'', ''PUT''} \<or> status = 429 \<longrightarrow> rows_in w' = rows_in w) \<and>
        (\<forall>t. pq_form r = None \<and> pq_url r = rewrite_host cl (rows_url ws ds t) \<and> safe_value t \<longrightarrow>
           (pq_method r = ''DELETE'' \<longrightarrow> deletion_leaves status t (rows_in w) (rows_in w'))
           \<and> (\<forall>b. pq_method r = ''POST'' \<and> pq_body r = Some (JObj [(''rows'', JList b)]) \<longrightarrow>
                post_leaves status t b (rows_in w) (rows_in w'))))"

text \<open>An exchange that returns: what holds of the service with the number of \<open>5xx\<close> answers so far\<close>

lemma exchange_reaches:
  assumes throttled: "\<And>k w headers body w'. I k w \<Longrightarrow> bc_transport cl r w = (Inr (429, headers, body), w') \<Longrightarrow> I k w'"
    and failed: "\<And>k w status headers body w'. I k w \<Longrightarrow> bc_transport cl r w = (Inr (status, headers, body), w') \<Longrightarrow> server_error status
      \<Longrightarrow> I (Suc k) w'"
    and slept: "\<And>k ms w. I k w \<Longrightarrow> I k (bc_sleep cl ms w)"
    and answered: "\<And>k w status headers body w'. I k w \<Longrightarrow> bc_transport cl r w = (Inr (status, headers, body), w') \<Longrightarrow> status \<in> set expect
      \<Longrightarrow> Q k w'"
  shows "exchange cl endpoint r expect attempts schedule s = (Inr a, s') \<Longrightarrow> I k (fst s) \<Longrightarrow> \<exists>j \<le> k + length schedule. Q j (fst s')"
proof (induction schedule arbitrary: attempts s k)
  case Nil
  obtain q w1 where send: "bc_transport cl r (fst s) = (q, w1)" by (rule prod.exhaust)
  obtain status headers body where q: "q = Inr (status, headers, body)"
    using Nil.prems send by (cases q) (auto simp: exchange.simps [of cl endpoint r expect attempts "[]"] send_request_def)
  have "status \<in> set expect" "fst s' = w1"
    using Nil.prems(1) send q
    by (auto simp: exchange.simps [of cl endpoint r expect attempts "[]"] send_request_def Let_def split: if_splits)
  then show ?case using answered [OF Nil.prems(2) send [unfolded q]] by auto
next
  case (Cons d ds)
  obtain q w1 where send: "bc_transport cl r (fst s) = (q, w1)" by (rule prod.exhaust)
  obtain status headers body where q: "q = Inr (status, headers, body)"
    using Cons.prems send by (cases q) (auto simp: exchange.simps [of cl endpoint r expect attempts "d # ds"] send_request_def)
  note send = send [unfolded q]
  show ?case
  proof (cases "status \<in> set expect")
    case True
    then have "fst s' = w1"
      using Cons.prems(1) send by (auto simp: exchange.simps [of cl endpoint r expect attempts "d # ds"] send_request_def)
    then show ?thesis using answered [OF Cons.prems(2) send True] by (auto intro!: exI [of _ k])
  next
    case False
    then obtain ms where more: "exchange cl endpoint r expect (Suc attempts) ds (bc_sleep cl ms w1, snd s) = (Inr a, s')"
        "status = 429 \<or> server_error status"
      using Cons.prems(1) send
      by (auto simp: exchange.simps [of cl endpoint r expect attempts "d # ds"] send_request_def sleep_ms_def Let_def server_error_def
          split: sum.splits if_splits prod.splits)
    from more(2) show ?thesis
    proof
      assume "status = 429"
      then have "I k (bc_sleep cl ms w1)" using throttled [OF Cons.prems(2)] send slept by blast
      then obtain j where "j \<le> k + length ds" "Q j (fst s')" using Cons.IH [OF more(1), of k] by auto
      then show ?thesis by (intro exI [of _ j]) simp
    next
      assume "server_error status"
      then have "I (Suc k) (bc_sleep cl ms w1)" using failed [OF Cons.prems(2) send] slept by blast
      then obtain j where "j \<le> Suc k + length ds" "Q j (fst s')" using Cons.IH [OF more(1), of "Suc k"] by auto
      then show ?thesis by (intro exI [of _ j]) simp
    qed
  qed
qed

lemma row_serviceD:
  assumes "row_service cl ws ds rows_in faults"
  shows "rows_in (bc_sleep cl ms w) = rows_in w" "faults (bc_sleep cl ms w) = faults w"
    and "bc_transport cl r w = (Inr (status, headers, body), w') \<Longrightarrow> faults w' = (if server_error status then Suc (faults w) else faults w)"
    and "bc_transport cl r w = (Inr (status, headers, body), w') \<Longrightarrow> pq_form r \<noteq> None \<or> pq_method r \<in> {''GET'', ''PUT''} \<or> status = 429 \<Longrightarrow>
      rows_in w' = rows_in w"
    and "bc_transport cl (row_request cl ws ds t token ''DELETE'' None) w = (Inr (status, headers, body), w') \<Longrightarrow> safe_value t \<Longrightarrow>
      deletion_leaves status t (rows_in w) (rows_in w')"
    and "bc_transport cl (row_request cl ws ds t token ''POST'' (Some (JObj [(''rows'', JList b)]))) w = (Inr (status, headers, body), w') \<Longrightarrow>
      safe_value t \<Longrightarrow> post_leaves status t b (rows_in w) (rows_in w')"
proof -
  note service = assms [unfolded row_service_def]
  show "rows_in (bc_sleep cl ms w) = rows_in w" "faults (bc_sleep cl ms w) = faults w" using service by blast+
  show "bc_transport cl r w = (Inr (status, headers, body), w') \<Longrightarrow> faults w' = (if server_error status then Suc (faults w) else faults w)"
    using service by blast
  show "bc_transport cl r w = (Inr (status, headers, body), w') \<Longrightarrow> pq_form r \<noteq> None \<or> pq_method r \<in> {''GET'', ''PUT''} \<or> status = 429 \<Longrightarrow>
      rows_in w' = rows_in w" using service by blast
  show "bc_transport cl (row_request cl ws ds t token ''DELETE'' None) w = (Inr (status, headers, body), w') \<Longrightarrow> safe_value t \<Longrightarrow>
      deletion_leaves status t (rows_in w) (rows_in w')"
    using service by (fastforce simp: row_request_def)
  show "bc_transport cl (row_request cl ws ds t token ''POST'' (Some (JObj [(''rows'', JList b)]))) w = (Inr (status, headers, body), w') \<Longrightarrow>
      safe_value t \<Longrightarrow> post_leaves status t b (rows_in w) (rows_in w')"
    using service by (fastforce simp: row_request_def)
qed

lemma token_effect:
  assumes "row_service cl ws ds rows_in faults" and "token_for cl scope s = (Inr token, s')"
  shows "rows_in (fst s') = rows_in (fst s) \<and> faults (fst s) \<le> faults (fst s')"
proof (cases "s' = s")
  case False
  then have "fetch_token cl scope s = (Inr token, s')" using assms(2) by (auto simp: token_for_def split: option.splits if_splits)
  then obtain m url answer s1 where send: "send_request cl \<lparr>pq_method = m, pq_url = rewrite_host cl url,
      pq_headers = [(''Content-Type'', ''application/x-www-form-urlencoded'')], pq_body = None, pq_form = Some (token_form cl scope)\<rparr> s
        = (Inr answer, s1)"
    and keep: "keep_token cl scope answer s1 = (Inr token, s')"
    by (auto simp: fetch_token_def io_bind_Inr_iff)
  have same: "fst s' = fst s1" using keep by (auto simp: keep_token_def Let_def split: prod.splits json.splits if_splits)
  obtain status headers body where "answer = (status, headers, body)" by (rule prod_cases3)
  then have "bc_transport cl \<lparr>pq_method = m, pq_url = rewrite_host cl url,
      pq_headers = [(''Content-Type'', ''application/x-www-form-urlencoded'')], pq_body = None, pq_form = Some (token_form cl scope)\<rparr> (fst s)
        = (Inr (status, headers, body), fst s1)"
    using send by (auto simp: send_request_def split: prod.splits)
  from row_serviceD(3,4) [OF assms(1) this] show ?thesis by (simp add: same)
qed simp

lemma delete_rows_effect:
  assumes service: "row_service cl ws ds rows_in faults" and "delete_rows cl ws ds t s = (Inr a, s')"
  shows "rows_in (fst s') = (rows_in (fst s))(t := []) \<and> faults (fst s) \<le> faults (fst s')"
proof -
  obtain token s1 where t: "safe_value t" "token_for cl PBI_SCOPE s = (Inr token, s1)"
    "exchange cl ''push.delete_rows'' (row_request cl ws ds t token ''DELETE'' None) [200] 0 RETRY_SCHEDULE_MS s1 = (Inr a, s')"
    using assms(2) unfolding delete_rows_Inr by blast
  let ?rows = "rows_in (fst s1)" and ?f = "faults (fst s1)"
  have "\<exists>j \<le> 0 + length RETRY_SCHEDULE_MS. rows_in (fst s') = ?rows(t := []) \<and> ?f \<le> faults (fst s')"
  proof (rule exchange_reaches [OF _ _ _ _ t(3), where I = "\<lambda>k w. (\<exists>x. rows_in w = ?rows(t := x)) \<and> ?f \<le> faults w"
        and Q = "\<lambda>k w. rows_in w = ?rows(t := []) \<and> ?f \<le> faults w"], goal_cases)
    case (1 k w headers body w')
    from row_serviceD(3,4) [OF service this(2)] this(1) show ?case by (simp add: server_error_def)
  next
    case (2 k w status headers body w')
    from row_serviceD(3,5) [OF service this(2)] this(1,3) t(1) show ?case by (auto simp: deletion_leaves_def)
  next
    case (4 k w status headers body w')
    from row_serviceD(3,5) [OF service this(2)] this(1,3) t(1) show ?case by (auto simp: deletion_leaves_def server_error_def)
  qed (auto simp: row_serviceD [OF service] intro: exI [of _ "?rows t"])
  then show ?thesis using token_effect [OF service t(2)] by auto
qed

lemma post_rows_effect:
  assumes service: "row_service cl ws ds rows_in faults" and "post_rows cl ws ds t b s = (Inr a, s')"
  shows "\<exists>k extra. k \<le> length RETRY_SCHEDULE_MS \<and> faults (fst s) + k \<le> faults (fst s') \<and> set extra \<subseteq> set b \<and> (k = 0 \<longrightarrow> extra = [])
    \<and> rows_in (fst s') = (rows_in (fst s))(t := rows_in (fst s) t @ extra @ b)"
proof -
  obtain token s1 where t: "safe_value t" "token_for cl PBI_SCOPE s = (Inr token, s1)"
    "exchange cl ''push.post_rows'' (row_request cl ws ds t token ''POST'' (Some (JObj [(''rows'', JList b)]))) [200] 0 RETRY_SCHEDULE_MS s1
       = (Inr a, s')"
    using assms(2) unfolding post_rows_Inr by blast
  let ?rows = "rows_in (fst s1)" and ?f = "faults (fst s1)"
  let ?extra = "\<lambda>k extra. set extra \<subseteq> set b \<and> (k = (0::nat) \<longrightarrow> extra = [])"
  have "\<exists>j \<le> 0 + length RETRY_SCHEDULE_MS. \<exists>extra. ?extra j extra \<and> rows_in (fst s') = ?rows(t := ?rows t @ extra @ b) \<and> ?f + j \<le> faults (fst s')"
  proof (rule exchange_reaches [OF _ _ _ _ t(3),
        where I = "\<lambda>k w. \<exists>extra. ?extra k extra \<and> rows_in w = ?rows(t := ?rows t @ extra) \<and> ?f + k \<le> faults w"
        and Q = "\<lambda>k w. \<exists>extra. ?extra k extra \<and> rows_in w = ?rows(t := ?rows t @ extra @ b) \<and> ?f + k \<le> faults w"], goal_cases)
    case (1 k w headers body w')
    from row_serviceD(3,4) [OF service this(2)] this(1) show ?case by (simp add: server_error_def)
  next
    case (2 k w status headers body w')
    then obtain extra where "set extra \<subseteq> set b" "rows_in w = ?rows(t := ?rows t @ extra)" "?f + k \<le> faults w" by blast
    moreover obtain x where "set x \<subseteq> set b" "rows_in w' = (rows_in w)(t := rows_in w t @ x)"
      using row_serviceD(6) [OF service 2(2) t(1)] 2(3) unfolding post_leaves_def by blast
    ultimately show ?case using row_serviceD(3) [OF service 2(2)] 2(3) by (intro exI [of _ "extra @ x"]) simp
  next
    case (4 k w status headers body w')
    from row_serviceD(3,6) [OF service this(2)] this(1,3) t(1) show ?case by (auto simp: post_leaves_def server_error_def)
  qed (auto simp: row_serviceD [OF service])
  then obtain j extra where "j \<le> length RETRY_SCHEDULE_MS" "?extra j extra" "rows_in (fst s') = ?rows(t := ?rows t @ extra @ b)"
    "?f + j \<le> faults (fst s')" by auto
  then show ?thesis using token_effect [OF service t(2)] by (intro exI [of _ j] exI [of _ extra]) simp
qed

lemma row_service_sink:
  "row_service cl ws ds rows_in faults \<Longrightarrow>
   row_sink (delete_rows cl ws ds) (post_rows cl ws ds) (\<lambda>s. rows_in (fst s)) (\<lambda>s. faults (fst s))"
  by unfold_locales (rule delete_rows_effect post_rows_effect; assumption)+

lemma call_reads:
  assumes service: "row_service cl ws ds rows_in faults" and "dict_get ENDPOINTS endpoint = Some e" and "ep_method e \<in> {''GET'', ''PUT''}"
    and "call_endpoint cl endpoint params [] body scope expect s = (Inr a, s')"
  shows "rows_in (fst s') = rows_in (fst s) \<and> faults (fst s) \<le> faults (fst s')"
proof -
  obtain url token s1 where c: "token_for cl scope s = (Inr token, s1)"
    "exchange cl endpoint \<lparr>pq_method = ep_method e, pq_url = rewrite_host cl url, pq_headers = request_headers token body, pq_body = body,
       pq_form = None\<rparr> expect 0 RETRY_SCHEDULE_MS s1 = (Inr a, s')"
    using assms(2,4) unfolding call_Inr pinned_endpoint_Inr by auto
  have kept: "rows_in w' = rows_in w \<and> faults w \<le> faults w'"
    if "bc_transport cl \<lparr>pq_method = ep_method e, pq_url = rewrite_host cl url, pq_headers = request_headers token body, pq_body = body,
       pq_form = None\<rparr> w = (Inr (status, headers, answer), w')" for w status headers answer w'
    using row_serviceD(3,4) [OF service that] assms(3) by auto
  have "\<exists>j \<le> 0 + length RETRY_SCHEDULE_MS. rows_in (fst s') = rows_in (fst s1) \<and> faults (fst s1) \<le> faults (fst s')"
    by (rule exchange_reaches [OF _ _ _ _ c(2), where I = "\<lambda>_ w. rows_in w = rows_in (fst s1) \<and> faults (fst s1) \<le> faults w"])
      (auto simp: row_serviceD [OF service] dest!: kept)
  then show ?thesis using token_effect [OF service c(1)] by auto
qed

section \<open>Replacing the tables\<close>

definition rows_replaced :: "table_plan list \<Rightarrow> (string \<Rightarrow> json list) \<Rightarrow> string \<Rightarrow> json list" where
  "rows_replaced plans rows = foldl (\<lambda>rows p. rows(tp_name p := tp_rows p)) rows plans"

definition planned_rows :: "table_plan list \<Rightarrow> (string \<times> json list) list" where
  "planned_rows = map (\<lambda>p. (tp_name p, tp_rows p))"

definition restored_rows :: "to_float \<Rightarrow> (string, json) dict option \<Rightarrow> string \<Rightarrow> json list" where
  "restored_rows to_float previous table =
     (case prior_result previous table of
        Some prior \<Rightarrow> (case res_map (pbi_row to_float table (prior_converters (snd prior))) (fst prior) of Inr enc \<Rightarrow> enc | Inl _ \<Rightarrow> [])
      | None \<Rightarrow> [])"

lemma rows_replaced_planned: "foldl (\<lambda>rows (t, sent). rows(t := sent)) rows (planned_rows plans) = rows_replaced plans rows"
  by (simp add: rows_replaced_def planned_rows_def foldl_map)

abbreviation post_batch :: nat where
  "post_batch \<equiv> push_limit_of ''max_rows_per_post''"

text \<open>A delivery to one dataset of such a service\<close>

locale row_delivery =
  fixes cl :: "'w pbi_client" and ws ds :: string and rows_in :: "'w \<Rightarrow> string \<Rightarrow> json list" and faults :: "'w \<Rightarrow> nat"
  assumes service: "row_service cl ws ds rows_in faults"

sublocale row_delivery \<subseteq> row_sink "delete_rows cl ws ds" "post_rows cl ws ds" "\<lambda>s. rows_in (fst s)" "\<lambda>s. faults (fst s)"
  by (rule row_service_sink [OF service])

context row_delivery
begin

lemma replace_rows_effect:
  "replace_rows cl ws ds p s = (Inr (), s') \<Longrightarrow> \<exists>out k. batches_left post_batch (tp_rows p) out k \<and> faults (fst s) + k \<le> faults (fst s')
     \<and> rows_in (fst s') = (rows_in (fst s))(tp_name p := out)"
  unfolding replace_rows_def push_rows_def by (rule replace_effect) (simp_all add: push_limits)

lemma replace_tables_effect:
  "replace_tables to_float cl ws ds previous replaced plans s = (Inr (), s') \<Longrightarrow>
   \<exists>f. tables_left post_batch (planned_rows plans) (rows_in (fst s)) (rows_in (fst s')) f \<and> faults (fst s) + f \<le> faults (fst s')"
proof (induction plans arbitrary: s replaced)
  case Nil
  then show ?case by (auto simp: planned_rows_def intro!: exI [of _ 0] no_tables)
next
  case (Cons p ps)
  obtain q s1 where one: "replace_rows cl ws ds p s = (q, s1)" by (rule prod.exhaust)
  have q: "q = Inr ()" using Cons.prems one by (auto split: sum.splits failure.splits prod.splits)
  then have more: "replace_tables to_float cl ws ds previous (replaced @ [tp_name p]) ps s1 = (Inr (), s')"
    using Cons.prems one by simp
  obtain out k where out: "batches_left post_batch (tp_rows p) out k" "faults (fst s) + k \<le> faults (fst s1)"
    "rows_in (fst s1) = (rows_in (fst s))(tp_name p := out)"
    using replace_rows_effect one q by blast
  obtain f where "tables_left post_batch (planned_rows ps) (rows_in (fst s1)) (rows_in (fst s')) f" "faults (fst s1) + f \<le> faults (fst s')"
    using Cons.IH [OF more] by blast
  then show ?case
    using table [OF out(1), of "planned_rows ps" "rows_in (fst s)" "tp_name p" "rows_in (fst s')" f] out(2,3)
    by (intro exI [of _ "k + f"]) (simp add: planned_rows_def)
qed

text \<open>What the restoration writes when it puts every table back\<close>

lemma restore_tables_unsound:
  "restore_tables to_float cl ws ds previous tables (states, False) s = (Inr (states', sound), s') \<Longrightarrow> \<not> sound"
  by (induction tables arbitrary: states s) (auto split: option.splits sum.splits failure.splits prod.splits)

lemma restore_table_effect:
  assumes "restore_table to_float cl ws ds table prior s = (Inr (), s')" and "prior_result previous table = Some prior"
  shows "\<exists>out k. batches_left post_batch (restored_rows to_float previous table) out k \<and> faults (fst s) + k \<le> faults (fst s')
    \<and> rows_in (fst s') = (rows_in (fst s))(table := out)"
proof -
  obtain enc where enc: "res_map (pbi_row to_float table (prior_converters (snd prior))) (fst prior) = Inr enc"
    "replace_rows cl ws ds \<lparr>tp_name = table, tp_columns = prior_converters (snd prior), tp_rows = enc, tp_notes = [], tp_meta = []\<rparr> s
      = (Inr (), s')"
    using assms(1) by (auto simp: restore_table_def io_bind_Inr_iff)
  then show ?thesis using replace_rows_effect [OF enc(2)] assms(2) by (simp add: restored_rows_def)
qed

lemma restore_tables_effect:
  "restore_tables to_float cl ws ds previous tables (states, sound) s = (Inr (states', True), s') \<Longrightarrow>
   \<exists>f. tables_left post_batch (map (\<lambda>t. (t, restored_rows to_float previous t)) tables) (rows_in (fst s)) (rows_in (fst s')) f
     \<and> faults (fst s) + f \<le> faults (fst s')"
proof (induction tables arbitrary: states sound s)
  case Nil
  then show ?case by (auto intro!: exI [of _ 0] no_tables)
next
  case (Cons t ts)
  obtain prior where prior: "prior_result previous t = Some prior"
    using Cons.prems by (cases "prior_result previous t") (auto dest: restore_tables_unsound)
  obtain q s1 where one: "restore_table to_float cl ws ds t prior s = (q, s1)" by (rule prod.exhaust)
  have q: "q = Inr ()"
    using Cons.prems prior one by (auto split: sum.splits failure.splits dest: restore_tables_unsound)
  then have more: "restore_tables to_float cl ws ds previous ts (dict_set t ''restored-previous'' states, sound) s1 = (Inr (states', True), s')"
    using Cons.prems prior one by simp
  obtain out k where out: "batches_left post_batch (restored_rows to_float previous t) out k" "faults (fst s) + k \<le> faults (fst s1)"
    "rows_in (fst s1) = (rows_in (fst s))(t := out)"
    using restore_table_effect [OF one [unfolded q] prior] by blast
  obtain f where "tables_left post_batch (map (\<lambda>t. (t, restored_rows to_float previous t)) ts) (rows_in (fst s1)) (rows_in (fst s')) f"
    "faults (fst s1) + f \<le> faults (fst s')"
    using Cons.IH [OF more] by blast
  then show ?case
    using table [OF out(1), of "map (\<lambda>t. (t, restored_rows to_float previous t)) ts" "rows_in (fst s)" t "rows_in (fst s')" f] out(2,3)
    by (intro exI [of _ "k + f"]) simp
qed

lemma put_schema_effect:
  assumes "put_schema cl ws ds existing p s = (Inr (), s')"
  shows "rows_in (fst s') = rows_in (fst s) \<and> faults (fst s) \<le> faults (fst s')"
proof -
  obtain e where e: "dict_get ENDPOINTS ''push.put_table'' = Some e" "ep_method e = ''PUT''" by (simp add: ENDPOINTS_def)
  consider "s' = s" | a where "call_endpoint cl ''push.put_table'' (table_params ws ds (tp_name p)) [] (Some (table_body p)) PBI_SCOPE [200] s
      = (Inr a, s')"
    using assms by (auto simp: put_schema_def checked_fields_def io_bind_Inr_iff split: if_splits)
  then show ?thesis
  proof cases
    case (2 a)
    then show ?thesis by (intro call_reads [OF service e(1)]) (simp_all add: e(2))
  qed simp
qed

lemma put_schemas_effect:
  "each (put_schema cl ws ds existing) plans s = (Inr (), s') \<Longrightarrow>
   rows_in (fst s') = rows_in (fst s) \<and> faults (fst s) \<le> faults (fst s')"
proof (induction plans arbitrary: s)
  case (Cons p ps)
  then obtain s1 where one: "put_schema cl ws ds existing p s = (Inr (), s1)" and more: "each (put_schema cl ws ds existing) ps s1 = (Inr (), s')"
    by (auto simp: io_bind_Inr_iff)
  from put_schema_effect [OF one] Cons.IH [OF more] show ?case by simp
qed simp

lemma revise_effect:
  assumes "revise to_float cl ws ds plans previous s = (Inr (), s')"
  shows "\<exists>f. tables_left post_batch (planned_rows plans) (rows_in (fst s)) (rows_in (fst s')) f \<and> faults (fst s) + f \<le> faults (fst s')"
proof -
  obtain a s1 existing s2 where r: "call_endpoint cl ''push.get_tables'' (dataset_params ws ds) [] None PBI_SCOPE [200] s = (Inr a, s1)"
    "each (put_schema cl ws ds existing) plans s1 = (Inr (), s2)"
    "replace_tables to_float cl ws ds previous [] plans s2 = (Inr (), s')"
    using assms by (auto simp: revise_def io_bind_Inr_iff split: if_splits)
  obtain e where e: "dict_get ENDPOINTS ''push.get_tables'' = Some e" "ep_method e = ''GET''" by (simp add: ENDPOINTS_def)
  have "rows_in (fst s1) = rows_in (fst s) \<and> faults (fst s) \<le> faults (fst s1)"
    using r(1) by (intro call_reads [OF service e(1)]) (simp_all add: e(2))
  then show ?thesis using put_schemas_effect [OF r(2)] replace_tables_effect [OF r(3)] by fastforce
qed

end

text \<open>A service of this kind with one dataset, which a creation returns, with the status it gives to posts of rows, by the number of failures so far, and the bodies it gives to reads; a post
  that it answers with \<open>5xx\<close> has taken effect. It answers every call.\<close>

definition ref_prefix :: string where
  "ref_prefix = PBI_API_BASE @ ''/groups/g-1/datasets/d-1/tables/''"

definition ref_table :: "string \<Rightarrow> string" where
  "ref_table url = takeWhile (\<lambda>c. c \<noteq> CHR ''/'') (drop (length ref_prefix) url)"

type_synonym ref_world = "(string \<Rightarrow> json list) \<times> nat"

definition ref_service :: "(nat \<Rightarrow> int) \<Rightarrow> (string \<Rightarrow> json) \<Rightarrow> ref_world pbi_transport" where
  "ref_service post_status reads r w =
     (if pq_form r \<noteq> None then (Inr (200, [], JObj [(''access_token'', JStr ''t''), (''expires_in'', JInt 3600)]), w)
      else if pq_method r = ''DELETE'' then (Inr (200, [], JNull), ((fst w)(ref_table (pq_url r) := []), snd w))
      else if pq_method r = ''POST'' \<and> \<not> startswith (pq_url r) ref_prefix then (Inr (201, [], JObj [(''id'', JStr ''d-1'')]), w)
      else if pq_method r = ''POST'' then
        (let status = post_status (snd w); t = ref_table (pq_url r) in
         (Inr (status, [], JNull),
           (if status = 200 \<or> server_error status
            then (fst w)(t := fst w t @ (case pq_body r of Some (JObj [(k, JList b)]) \<Rightarrow> b | _ \<Rightarrow> []))
            else fst w,
            if server_error status then Suc (snd w) else snd w)))
      else (Inr (200, [], reads (pq_url r)), w))"

definition ref_client :: "(nat \<Rightarrow> int) \<Rightarrow> (string \<Rightarrow> json) \<Rightarrow> ref_world pbi_client" where
  "ref_client post_status reads = \<lparr>bc_tenant = ''t-1'', bc_id = ''c-1'', bc_secret = ''s'', bc_overrides = [],
     bc_transport = ref_service post_status reads, bc_now = (\<lambda>_. 0), bc_sleep = (\<lambda>_ w. w), bc_read_ms = (\<lambda>_. None)\<rparr>"

lemma ref_table_url: "safe_value t \<Longrightarrow> ref_table (rows_url ''g-1'' ''d-1'' t) = t"
proof -
  assume safe: "safe_value t"
  have "rows_url ''g-1'' ''d-1'' t = ref_prefix @ t @ ''/rows''" by (simp add: rows_url_def ref_prefix_def)
  moreover have "takeWhile (\<lambda>c. c \<noteq> CHR ''/'') (t @ ''/rows'') = t"
    using safe safe_value_chars by (subst takeWhile_append2) auto
  ultimately show ?thesis by (simp add: ref_table_def)
qed

lemma not_server_error [simp]: "\<not> server_error 200" "\<not> server_error 400"
  by (simp_all add: server_error_def)

lemma rows_url_prefix [simp]: "startswith (rows_url ''g-1'' ''d-1'' t) ref_prefix"
  by (auto simp: startswith_iff rows_url_def ref_prefix_def)

lemma ref_rewrite [simp]: "rewrite_host (ref_client post_status reads) u = u"
  by (simp add: ref_client_def rewrite_host_def)

lemma ref_answers:
  "ref_service post_status reads \<lparr>pq_method = ''DELETE'', pq_url = u, pq_headers = h, pq_body = None, pq_form = None\<rparr> w =
     (Inr (200, [], JNull), ((fst w)(ref_table u := []), snd w))"
  "post_status (snd w) = 200 \<Longrightarrow> startswith u ref_prefix \<Longrightarrow>
   ref_service post_status reads \<lparr>pq_method = ''POST'', pq_url = u, pq_headers = h, pq_body = Some (JObj [(''rows'', JList b)]), pq_form = None\<rparr> w =
     (Inr (200, [], JNull), ((fst w)(ref_table u := fst w (ref_table u) @ b), snd w))"
  "post_status (snd w) = 400 \<Longrightarrow> startswith u ref_prefix \<Longrightarrow>
   ref_service post_status reads \<lparr>pq_method = ''POST'', pq_url = u, pq_headers = h, pq_body = Some (JObj [(''rows'', JList b)]), pq_form = None\<rparr> w =
     (Inr (400, [], JNull), w)"
  "server_error (post_status (snd w)) \<Longrightarrow> startswith u ref_prefix \<Longrightarrow>
   ref_service post_status reads \<lparr>pq_method = ''POST'', pq_url = u, pq_headers = h, pq_body = Some (JObj [(''rows'', JList b)]), pq_form = None\<rparr> w =
     (Inr (post_status (snd w), [], JNull), ((fst w)(ref_table u := fst w (ref_table u) @ b), Suc (snd w)))"
  "\<not> startswith u ref_prefix \<Longrightarrow>
   ref_service post_status reads \<lparr>pq_method = ''POST'', pq_url = u, pq_headers = h, pq_body = body, pq_form = None\<rparr> w =
     (Inr (201, [], JObj [(''id'', JStr ''d-1'')]), w)"
  by (simp_all add: ref_service_def Let_def)

lemma ref_row_service: "row_service (ref_client post_status reads) ''g-1'' ''d-1'' fst snd"
proof -
  show ?thesis
    by (auto simp: row_service_def ref_client_def ref_service_def rewrite_host_def ref_table_url deletion_leaves_def post_leaves_def Let_def
        server_error_def split: if_splits)
qed

interpretation ref: row_delivery "ref_client post_status reads" "''g-1''" "''d-1''" fst snd for post_status reads
  by unfold_locales (rule ref_row_service)


text \<open>Every table, and the entry under the empty name, which stands for the dataset, has one row.\<close>

definition one_row :: ref_world where
  "one_row = (\<lambda>_. [JInt 0], 0)"

lemma ref_token: "\<exists>token s'. token_for (ref_client post_status reads) PBI_SCOPE s = (Inr token, s') \<and> fst s' = fst s"
proof -
  have url: "pinned_endpoint ''token'' [(''tenantId'', ''t-1'')] = Inr (''POST'', LOGIN_BASE @ ''/t-1/oauth2/v2.0/token'')" by code_simp
  have "\<exists>token s'. fetch_token (ref_client post_status reads) PBI_SCOPE s = (Inr token, s') \<and> fst s' = fst s"
    unfolding fetch_token_def
    by (simp add: io_bind_def url pinned_endpoint_gate [OF url] send_request_def keep_token_def ref_service_def Sdk_Providers.member_def
        ref_client_def Let_def)
  then obtain token s' where fetched: "fetch_token (ref_client post_status reads) PBI_SCOPE s = (Inr token, s')" "fst s' = fst s" by blast
  show ?thesis
  proof (cases "dict_get (snd s) PBI_SCOPE")
    case (Some c)
    obtain t expires where "c = (t, expires)" by (rule prod.exhaust)
    with Some fetched show ?thesis
      by (cases "expires > bc_now (ref_client post_status reads) (fst s) + 60000") (simp_all add: token_for_def del: split_paired_Ex)
  qed (simp add: token_for_def fetched del: split_paired_Ex)
qed

lemma ref_call:
  assumes "pinned_endpoint endpoint params = Inr (m, url)" and "ref_service post_status reads
      \<lparr>pq_method = m, pq_url = url, pq_headers = request_headers token body, pq_body = body, pq_form = None\<rparr> w = (Inr (200, hs, answer), w')"
    and "token_for (ref_client post_status reads) PBI_SCOPE s = (Inr token, s1)" and "fst s1 = w"
  shows "call_endpoint (ref_client post_status reads) endpoint params [] body PBI_SCOPE [200] s = (Inr (200, hs, answer), (w', snd s1))"
proof -
  have "send_request (ref_client post_status reads) \<lparr>pq_method = m, pq_url = rewrite_host (ref_client post_status reads) url,
      pq_headers = request_headers token body, pq_body = body, pq_form = None\<rparr> s1 = (Inr (200, hs, answer), (w', snd s1))"
    using assms(2,4) by (simp add: send_request_def ref_client_def rewrite_host_def)
  then show ?thesis unfolding call_Inr using assms(1,3) by (fastforce intro: exchange_ok)
qed

lemma ref_delete:
  assumes "safe_value t"
  shows "\<exists>a s'. delete_rows (ref_client post_status reads) ''g-1'' ''d-1'' t s = (Inr a, s') \<and> snd (fst s') = snd (fst s)"
proof -
  have "safe_value ''g-1''" "safe_value ''d-1''" by code_simp+
  then have url: "pinned_endpoint ''push.delete_rows'' (table_params ''g-1'' ''d-1'' t) = Inr (''DELETE'', rows_url ''g-1'' ''d-1'' t)"
    using assms by (simp add: row_endpoints)
  obtain token s1 where token: "token_for (ref_client post_status reads) PBI_SCOPE s = (Inr token, s1)" "fst s1 = fst s" using ref_token by blast
  show ?thesis
    unfolding delete_rows_def by (intro exI conjI, rule ref_call [OF url ref_answers(1) token]) simp
qed

lemma ref_post:
  assumes "safe_value t"
  shows "\<exists>a s'. post_rows (ref_client (\<lambda>_. 200) reads) ''g-1'' ''d-1'' t b s = (Inr a, s') \<and> snd (fst s') = snd (fst s)"
proof -
  have "safe_value ''g-1''" "safe_value ''d-1''" by code_simp+
  then have url: "pinned_endpoint ''push.post_rows'' (table_params ''g-1'' ''d-1'' t) = Inr (''POST'', rows_url ''g-1'' ''d-1'' t)"
    using assms by (simp add: row_endpoints)
  obtain token s1 where token: "token_for (ref_client (\<lambda>_. 200) reads) PBI_SCOPE s = (Inr token, s1)" "fst s1 = fst s" using ref_token by blast
  show ?thesis
    unfolding post_rows_def
    by (subst io_bind_def, simp add: rows_field del: split_paired_Ex, intro exI conjI,
        rule ref_call [OF url ref_answers(2) [OF refl rows_url_prefix] token]) simp
qed

interpretation ref_live: live_row_sink "delete_rows (ref_client (\<lambda>_. 200) reads) ''g-1'' ''d-1''"
  "post_rows (ref_client (\<lambda>_. 200) reads) ''g-1'' ''d-1''" "\<lambda>s. fst (fst s)" "\<lambda>s. snd (fst s)" "\<lambda>s. snd (fst s) = 0" safe_value for reads
proof unfold_locales
  fix s :: "ref_world \<times> token_cache" and t b assume up: "snd (fst s) = 0" and t: "safe_value t"
  show "\<exists>a s'. delete_rows (ref_client (\<lambda>_. 200) reads) ''g-1'' ''d-1'' t s = (Inr a, s') \<and> snd (fst s') = 0"
    using ref_delete [OF t] up by metis
  show "\<exists>a s'. post_rows (ref_client (\<lambda>_. 200) reads) ''g-1'' ''d-1'' t b s = (Inr a, s') \<and> snd (fst s') = 0"
    using ref_post [OF t] up by metis
qed

lemma ref_replace:
  assumes "safe_value (tp_name p)" and "snd (fst s) = 0"
  shows "\<exists>s'. replace_rows (ref_client (\<lambda>_. 200) reads) ''g-1'' ''d-1'' p s = (Inr (), s') \<and> snd (fst s') = 0"
proof -
  have "0 < push_limit_of ''max_rows_per_post''" by (simp add: push_limits)
  from ref_live.replace_live [OF assms(2,1) this] show ?thesis
    unfolding replace_rows_def push_rows_def by blast
qed

text \<open>The rows of the model after the sales were delivered\<close>

definition sales_listing :: "string \<Rightarrow> json" where
  "sales_listing url = JObj [(''value'', JList [JObj [(''name'', JStr ''sales''), (''columns'', JList (map column_body (tp_columns sales_plan)))]])]"

definition sales_table :: "(string, json) dict" where
  "sales_table = [(''name'', JStr ''sales''), (''columns'', JList (map column_body (tp_columns sales_plan)))]"

lemma sales_tables: "tables_by_name (sales_listing url) = Inr [(''sales'', sales_table)]"
  "current_columns sales_table = Inr (tp_columns sales_plan)"
  by (simp_all add: tables_by_name_def sales_listing_def sales_table_def or_else_def current_columns_def Sdk_Providers.member_def
      str_json_def dict_of_def column_body_def sales_plan_def List.map_filter_def)

lemma schemas_unchanged:
  "set (plan_names plans) \<subseteq> {''sales''} \<Longrightarrow> list_all (\<lambda>p. tp_columns p = tp_columns sales_plan) plans \<Longrightarrow>
   each (put_schema cl ws ds [(''sales'', sales_table)]) plans s = (Inr (), s)"
  by (induction plans) (simp_all add: put_schema_def sales_tables plan_names_def)

lemma ref_revise:
  assumes "set (plan_names plans) = {''sales''}" and "list_all (\<lambda>p. tp_columns p = tp_columns sales_plan) plans"
  shows "\<exists>s1. fst s1 = fst s \<and> revise to_float (ref_client post_status sales_listing) ''g-1'' ''d-1'' plans previous s =
    replace_tables to_float (ref_client post_status sales_listing) ''g-1'' ''d-1'' previous [] plans s1"
proof -
  obtain token s1 where token: "token_for (ref_client post_status sales_listing) PBI_SCOPE s = (Inr token, s1)" and rows: "fst s1 = fst s"
    using ref_token by blast
  have "pinned_endpoint ''push.get_tables'' (dataset_params ''g-1'' ''d-1'') = Inr (''GET'', PBI_API_BASE @ ''/groups/g-1/datasets/d-1/tables'')"
    by code_simp
  from ref_call [OF this _ token rows] have
    "call_endpoint (ref_client post_status sales_listing) ''push.get_tables'' (dataset_params ''g-1'' ''d-1'') [] None PBI_SCOPE [200] s =
     (Inr (200, [], sales_listing (PBI_API_BASE @ ''/groups/g-1/datasets/d-1/tables'')), s1)"
    using rows by (cases s1) (simp add: ref_service_def)
  then show ?thesis
    using rows assms by (intro exI [of _ s1])
      (simp add: revise_def io_bind_simps(2) [where m = "call_endpoint _ _ _ _ _ _ _"] sales_tables schemas_unchanged dict_keys_def)
qed

text \<open>C16. The service is assumed to do what \<open>row_service\<close> says: an answer \<open>200\<close> to a deletion or a post of rows means that it took
  effect; token requests, reads, updates of the schema and throttled requests (\<open>429\<close>) leave the rows alone; a deletion or post answered
  \<open>5xx\<close> may have taken effect in part or not at all; other answers may do anything. Then a revision that returns has replaced the rows of exactly the planned tables, in order, each by
  the batches of the rows of its plan in order, whatever the tables held before; the other tables keep their rows. Each batch arrives
  in full, and before it stands at most what its own failed attempts left: attempts answered \<open>5xx\<close>, at most three for a batch and
  no more in all than the service has given such answers. So without a \<open>5xx\<close> the tables hold the rows of the plans, each once.\<close>
theorem revise_exact:
  assumes "row_service cl ws ds rows_in faults" and "revise to_float cl ws ds plans previous s = (Inr (), s')"
  shows "(\<exists>f. tables_left post_batch (planned_rows plans) (rows_in (fst s)) (rows_in (fst s')) f \<and> faults (fst s) + f \<le> faults (fst s'))
    \<and> (faults (fst s') = faults (fst s) \<longrightarrow> rows_in (fst s') = rows_replaced plans (rows_in (fst s)))"
proof -
  obtain f where f: "tables_left post_batch (planned_rows plans) (rows_in (fst s)) (rows_in (fst s')) f" "faults (fst s) + f \<le> faults (fst s')"
    using row_delivery.revise_effect [OF row_delivery.intro [OF assms(1)] assms(2)] by blast
  then show ?thesis using tables_left_once [OF f(1)] by (auto simp: rows_replaced_planned)
qed

theorem revise_exact_witness:
  "\<exists>s'. revise no_floats (ref_client (\<lambda>_. 200) sales_listing) ''g-1'' ''d-1'' [sales_plan] None (one_row, []) = (Inr (), s')
     \<and> fst (fst s') ''sales'' = tp_rows sales_plan \<and> fst (fst s') ''spend'' = [JInt 0]"
proof -
  obtain s1 where s1: "revise no_floats (ref_client (\<lambda>_. 200) sales_listing) ''g-1'' ''d-1'' [sales_plan] None (one_row, []) =
      replace_tables no_floats (ref_client (\<lambda>_. 200) sales_listing) ''g-1'' ''d-1'' None [] [sales_plan] s1" "snd (fst s1) = 0"
  proof -
    have "set (plan_names [sales_plan]) = {''sales''}" "list_all (\<lambda>p. tp_columns p = tp_columns sales_plan) [sales_plan]"
      by (simp_all add: plan_names_def sales_plan_def)
    from ref_revise [OF this, of "(one_row, [])" no_floats "\<lambda>_. 200" None] obtain s1 where "fst s1 = one_row"
      "revise no_floats (ref_client (\<lambda>_. 200) sales_listing) ''g-1'' ''d-1'' [sales_plan] None (one_row, []) =
        replace_tables no_floats (ref_client (\<lambda>_. 200) sales_listing) ''g-1'' ''d-1'' None [] [sales_plan] s1"
      unfolding fst_conv by blast
    then show thesis using that [of s1] by (simp add: one_row_def)
  qed
  have "safe_value (tp_name sales_plan)" by code_simp
  from ref_replace [OF this s1(2)] obtain s' where
    "replace_rows (ref_client (\<lambda>_. 200) sales_listing) ''g-1'' ''d-1'' sales_plan s1 = (Inr (), s')" and quiet: "snd (fst s') = 0"
    by blast
  then have run: "revise no_floats (ref_client (\<lambda>_. 200) sales_listing) ''g-1'' ''d-1'' [sales_plan] None (one_row, []) = (Inr (), s')"
    unfolding s1(1) by simp
  have "fst (fst s') = rows_replaced [sales_plan] (fst one_row)"
    using revise_exact [OF ref_row_service run] quiet by (simp add: one_row_def)
  then show ?thesis using run by (intro exI [of _ s']) (simp add: rows_replaced_def sales_plan_def one_row_def)
qed


text \<open>C19. When a restoration returns, for a service as in \<open>row_service\<close> (\<open>200\<close> means done, throttled requests and those for tokens leave the
  rows alone, \<open>5xx\<close> may have taken effect in part), every table that had been replaced has been emptied and has received
  the rows of the previous delivery, encoded as at that delivery, batch by batch in order; no other table is touched. Before a batch
  stands at most what its own attempts answered \<open>5xx\<close> left, so without a \<open>5xx\<close> the tables hold those rows, each once.\<close>
theorem restore_exact:
  assumes "row_service cl ws ds rows_in faults" and "restore to_float cl ws ds replaced previous original s = (Inr (), s')"
  shows "(\<exists>f. tables_left post_batch (map (\<lambda>t. (t, restored_rows to_float previous t)) replaced) (rows_in (fst s)) (rows_in (fst s')) f
      \<and> faults (fst s) + f \<le> faults (fst s'))
    \<and> (faults (fst s') = faults (fst s) \<longrightarrow>
        rows_in (fst s') = foldl (\<lambda>rows t. rows(t := restored_rows to_float previous t)) (rows_in (fst s)) replaced)"
proof -
  obtain f where f: "tables_left post_batch (map (\<lambda>t. (t, restored_rows to_float previous t)) replaced) (rows_in (fst s)) (rows_in (fst s')) f"
    "faults (fst s) + f \<le> faults (fst s')"
  proof (cases "replaced = []")
    case True
    then show thesis using assms(2) that [of 0] by (simp add: restore_def no_tables)
  next
    case False
    then obtain states s1 where "restore_tables to_float cl ws ds previous replaced ([], True) s = (Inr (states, True), s1)" "s' = s1"
      using assms(2) by (auto simp: restore_def io_bind_Inr_iff split: if_splits)
    then show thesis using that row_delivery.restore_tables_effect [OF row_delivery.intro [OF assms(1)]] by blast
  qed
  then show ?thesis using tables_left_once [OF f(1)] by (auto simp: foldl_map)
qed

theorem restore_exact_witness:
  "\<exists>s'. restore no_floats (ref_client (\<lambda>_. 200) sales_listing) ''g-1'' ''d-1'' [''sales''] (Some [(''sales'', sales_result)])
      (ConfigError [] []) (one_row, []) = (Inr (), s') \<and> fst (fst s') ''sales'' = tp_rows sales_plan \<and> fst (fst s') ''spend'' = [JInt 0]"
proof -
  have types: "qe5_to_pbi_type ''date'' = (''DateTime'', None)" "qe5_to_pbi_type ''bigint'' = (''Int64'', None)" by code_simp+
  obtain prior where prior: "prior_result (Some [(''sales'', sales_result)]) ''sales'' = Some prior"
    "prior_converters (snd prior) = tp_columns sales_plan"
    "fst prior = [JList [JStr ''2026-01-01'', JInt 4], JList [JStr ''2026-01-02'', JStr ''12'']]"
    by (simp add: prior_result_def sales_result_def Sdk_Providers.member_def prior_converters_def List.map_filter_def types str_json_def
        sales_plan_def)
  have int: "py_int ''12'' = Some 12" by code_simp
  have enc: "res_map (pbi_row no_floats ''sales'' (prior_converters (snd prior))) (fst prior) = Inr (tp_rows sales_plan)"
    unfolding prior(2,3)
    by (simp add: sales_plan_def pbi_row_def pbi_value_def convert_def int is_py_int_def int_of_def str_json_def limited_ok push_limits)
  let ?p = "\<lparr>tp_name = ''sales'', tp_columns = prior_converters (snd prior), tp_rows = tp_rows sales_plan, tp_notes = [], tp_meta = []\<rparr>"
  have "safe_value (tp_name ?p)" by code_simp
  from ref_replace [OF this, of "(one_row, [])" sales_listing] obtain s' where
    "replace_rows (ref_client (\<lambda>_. 200) sales_listing) ''g-1'' ''d-1'' ?p (one_row, []) = (Inr (), s')" and quiet: "snd (fst s') = 0"
    by (auto simp: one_row_def)
  then have run: "restore no_floats (ref_client (\<lambda>_. 200) sales_listing) ''g-1'' ''d-1'' [''sales''] (Some [(''sales'', sales_result)])
      (ConfigError [] []) (one_row, []) = (Inr (), s')"
    by (simp add: restore_def prior(1) restore_table_def io_bind_def enc)
  have "restored_rows no_floats (Some [(''sales'', sales_result)]) ''sales'' = tp_rows sales_plan"
    by (simp only: restored_rows_def prior(1) enc option.case sum.case)
  moreover have "fst (fst s') = foldl (\<lambda>rows t. rows(t := restored_rows no_floats (Some [(''sales'', sales_result)]) t)) (fst one_row) [''sales'']"
    using restore_exact [OF ref_row_service run] quiet by (simp add: one_row_def)
  ultimately show ?thesis using run by (intro exI [of _ s']) (simp add: one_row_def)
qed

lemma call_run:
  "pinned_endpoint endpoint params = Inr (m, url) \<Longrightarrow> token_for cl scope s = (Inr token, s1) \<Longrightarrow>
   call_endpoint cl endpoint params [] body scope expect s =
     exchange cl endpoint \<lparr>pq_method = m, pq_url = rewrite_host cl url, pq_headers = request_headers token body, pq_body = body,
       pq_form = None\<rparr> expect 0 RETRY_SCHEDULE_MS s1"
  by (simp add: call_endpoint_def io_bind_def pinned_endpoint_gate)

lemma ref_client_transport: "bc_transport (ref_client post_status reads) = ref_service post_status reads"
  by (simp add: ref_client_def)

text \<open>A batch whose post is answered \<open>503\<close> although it took effect is there twice after the call, which returns.\<close>

lemma resent_batch_twice:
  assumes "safe_value t" and "snd (fst s) = 0"
  shows "\<exists>a s'. post_rows (ref_client (\<lambda>n. if n = 0 then 503 else 200) reads) ''g-1'' ''d-1'' t b s = (Inr a, s')
    \<and> fst (fst s') t = fst (fst s) t @ b @ b"
proof -
  let ?cl = "ref_client (\<lambda>n. if n = 0 then 503 else 200) reads"
  obtain token s1 where token: "token_for ?cl PBI_SCOPE s = (Inr token, s1)" and same: "fst s1 = fst s"
    using ref_token by blast
  have "safe_value ''g-1''" "safe_value ''d-1''" by code_simp+
  then have "pinned_endpoint ''push.post_rows'' (table_params ''g-1'' ''d-1'' t) = Inr (''POST'', rows_url ''g-1'' ''d-1'' t)"
    using assms(1) by (simp add: row_endpoints)
  note run = call_run [OF this token]
  let ?r = "row_request ?cl ''g-1'' ''d-1'' t token ''POST'' (Some (JObj [(''rows'', JList b)]))"
  let ?w = "((fst (fst s))(t := fst (fst s) t @ b), Suc 0)"
  have "server_error 503" by (simp add: server_error_def)
  then have first: "bc_transport ?cl ?r (fst s1) = (Inr (503, [], JNull), ?w)"
    using assms same by (simp add: ref_client_transport row_request_def ref_answers(4) ref_table_url)
  have second: "bc_transport ?cl ?r ?w = (Inr (200, [], JNull), (fst ?w)(t := fst ?w t @ b), Suc 0)"
    using assms by (simp add: ref_client_transport row_request_def ref_answers(2) ref_table_url)
  have sleep: "bc_sleep ?cl ms w = w" for ms w by (simp add: ref_client_def)
  have "exchange ?cl ''push.post_rows'' ?r [200] 0 RETRY_SCHEDULE_MS s1 = (Inr (200, [], JNull), ((fst ?w)(t := fst ?w t @ b), Suc 0), snd s1)"
    by (simp add: exchange.simps send_request_def first second sleep_ms_def sleep RETRY_SCHEDULE_MS_def)
  then show ?thesis by (simp add: post_rows_def rows_field io_bind_def run row_request_def)
qed

text \<open>C21. A table whose rows are deleted and whose new rows the service then refuses is not restored: when it is the first one, the
  revision ends with the error of the service in the very state of the failure, whatever the previous delivery was.\<close>
theorem failing_table_not_restored:
  assumes "delete_rows cl ws ds (tp_name p) s = (Inr a, s1)" and "push_rows cl ws ds p s1 = (Inl (Raised e), s2)"
  shows "replace_tables to_float cl ws ds previous [] (p # ps) s = (Inl (Raised e), s2)"
proof -
  have "replace_rows cl ws ds p s = (Inl (Raised e), s2)"
    using assms by (simp add: replace_rows_def io_bind_def)
  then show ?thesis by (simp add: restore_def)
qed

lemma ref_post_refused:
  assumes "safe_value t"
  shows "\<exists>s1. fst s1 = fst s \<and> post_rows (ref_client (\<lambda>_. 400) reads) ''g-1'' ''d-1'' t b s =
    (Inl (Raised (ConfigError ''push.post_rows rejected (HTTP 400)'' [])), s1)"
proof -
  obtain token s1 where token: "token_for (ref_client (\<lambda>_. 400) reads) PBI_SCOPE s = (Inr token, s1)" and same: "fst s1 = fst s"
    using ref_token by blast
  have "safe_value ''g-1''" "safe_value ''d-1''" by code_simp+
  then have "pinned_endpoint ''push.post_rows'' (table_params ''g-1'' ''d-1'' t) = Inr (''POST'', rows_url ''g-1'' ''d-1'' t)"
    using assms by (simp add: row_endpoints)
  note run = call_run [OF this token]
  have "show_int 400 = ''400''" by code_simp
  then have "post_rows (ref_client (\<lambda>_. 400) reads) ''g-1'' ''d-1'' t b s = (Inl (Raised (ConfigError
      ''push.post_rows rejected (HTTP 400)'' [])), s1)"
    by (cases s1) (simp add: post_rows_def rows_field io_bind_def run exchange.simps send_request_def ref_client_transport ref_answers(3)
        body_error_code_def code_suffix_def Let_def)
  then show ?thesis using same by blast
qed

lemma ref_push_refused:
  "\<exists>s2. fst s2 = fst s \<and> push_rows (ref_client (\<lambda>_. 400) reads) ''g-1'' ''d-1'' sales_plan s =
    (Inl (Raised (ConfigError ''push.post_rows rejected (HTTP 400)'' [])), s2)"
proof -
  have "safe_value ''sales''" by code_simp
  then obtain s2 where s2: "fst s2 = fst s" "post_rows (ref_client (\<lambda>_. 400) reads) ''g-1'' ''d-1'' ''sales'' (tp_rows sales_plan) s =
      (Inl (Raised (ConfigError ''push.post_rows rejected (HTTP 400)'' [])), s2)"
    using ref_post_refused by blast
  have "tp_rows sales_plan \<noteq> []" "take 10000 (tp_rows sales_plan) = tp_rows sales_plan" "tp_name sales_plan = ''sales''"
    by (simp_all add: sales_plan_def)
  then have "push_rows (ref_client (\<lambda>_. 400) reads) ''g-1'' ''d-1'' sales_plan s =
      (Inl (Raised (ConfigError ''push.post_rows rejected (HTTP 400)'' [])), s2)"
    using s2(2) unfolding push_rows_def push_limits by (subst push_batches.simps) (simp add: io_bind_def)
  then show ?thesis using s2(1) by blast
qed

theorem failing_table_not_restored_witness:
  "\<exists>s2. replace_tables no_floats (ref_client (\<lambda>_. 400) sales_listing) ''g-1'' ''d-1'' (Some [(''sales'', sales_result)]) [] [sales_plan]
      (one_row, []) = (Inl (Raised (ConfigError ''push.post_rows rejected (HTTP 400)'' [])), s2) \<and> fst (fst s2) ''sales'' = []"
proof -
  have name: "tp_name sales_plan = ''sales''" by (simp add: sales_plan_def)
  have safe: "safe_value ''sales''" by code_simp
  obtain a s1 where clear: "delete_rows (ref_client (\<lambda>_. 400) sales_listing) ''g-1'' ''d-1'' ''sales'' (one_row, []) = (Inr a, s1)"
    using ref_delete [OF safe] by blast
  have empty: "fst (fst s1) ''sales'' = []" using row_sink.clear_effect [OF row_service_sink [OF ref_row_service] clear] by simp
  obtain s2 where s2: "fst s2 = fst s1" "push_rows (ref_client (\<lambda>_. 400) sales_listing) ''g-1'' ''d-1'' sales_plan s1 =
      (Inl (Raised (ConfigError ''push.post_rows rejected (HTTP 400)'' [])), s2)"
    using ref_push_refused by blast
  from failing_table_not_restored [where p = sales_plan and ps = "[]", unfolded name, OF clear s2(2)] s2(1) empty
  show ?thesis by (intro exI [of _ s2]) simp
qed


lemma exchange_last:
  "exchange cl endpoint r expect attempts schedule s = (Inr (status, headers, body), s') \<Longrightarrow>
   \<exists>w. bc_transport cl r w = (Inr (status, headers, body), fst s') \<and> status \<in> set expect"
proof (induction schedule arbitrary: attempts s)
  case Nil
  then show ?case
    by (auto simp: exchange.simps [of cl endpoint r expect attempts "[]"] send_request_def Let_def split: prod.splits sum.splits if_splits)
next
  case (Cons d ds)
  then show ?case
    by (auto simp: exchange.simps [of cl endpoint r expect attempts "d # ds"] send_request_def Let_def
        split: prod.splits sum.splits if_splits)
qed

definition dataset_url :: "string \<Rightarrow> string \<Rightarrow> string" where
  "dataset_url ws ds = PBI_API_BASE @ ''/groups/'' @ ws @ ''/datasets/'' @ ds"

lemma dataset_template:
  "template_parts (PBI_API_BASE @ ''/groups/{groupId}/datasets/{datasetId}'') =
   map Chr (PBI_API_BASE @ ''/groups/'') @ [Hole ''groupId''] @ map Chr ''/datasets/'' @ [Hole ''datasetId'']"
  by code_simp

lemma dataset_endpoint:
  "pinned_endpoint ''datasets.delete'' (dataset_params ws ds) = Inr (m, url) \<longleftrightarrow>
   m = ''DELETE'' \<and> url = dataset_url ws ds \<and> safe_value ws \<and> safe_value ds"
proof -
  have "dict_get ENDPOINTS ''datasets.delete'' = Some \<lparr>ep_method = ''DELETE'', ep_template = PBI_API_BASE
      @ ''/groups/{groupId}/datasets/{datasetId}'', ep_ref = ''datasets-delete-in-group''\<rparr>"
    by (simp add: ENDPOINTS_def)
  then show ?thesis
    unfolding pinned_endpoint_Inr
    by (auto simp: endpoint_parts_def dataset_template fill_parts_append fill_parts_Chr dataset_params_def dataset_url_def dict_keys_def
        holes_def)
qed

text \<open>What the clean-up relies on: a dataset whose deletion was answered with \<open>200\<close> is not there.\<close>

definition deletes_dataset :: "'w pbi_client \<Rightarrow> string \<Rightarrow> string \<Rightarrow> ('w \<Rightarrow> bool) \<Rightarrow> bool" where
  "deletes_dataset cl ws ds present \<longleftrightarrow>
     (\<forall>r w headers body w'. pq_method r = ''DELETE'' \<and> pq_form r = None \<and> pq_url r = rewrite_host cl (dataset_url ws ds) \<and>
        bc_transport cl r w = (Inr (200, headers, body), w') \<longrightarrow> \<not> present w')"

lemma deletes_datasetD:
  "deletes_dataset cl ws ds present \<Longrightarrow> bc_transport cl r w = (Inr (200, headers, body), w') \<Longrightarrow> pq_method r = ''DELETE'' \<Longrightarrow>
   pq_form r = None \<Longrightarrow> pq_url r = rewrite_host cl (dataset_url ws ds) \<Longrightarrow> \<not> present w'"
  unfolding deletes_dataset_def by blast

lemma fill_dataset_raised:
  assumes "fill_dataset cl ws name ds plans s = (Inl (Raised e), s')"
  obtains (removed) a s1 where
      "call_endpoint cl ''datasets.delete'' (dataset_params ws ds) [] None PBI_SCOPE [200] s1 = (Inr a, s')"
    | (kept) exc cleanup_exc where "e = cleanup_failed name ds exc cleanup_exc"
proof -
  obtain r s1 where push: "each (push_rows cl ws ds) plans s = (r, s1)" by (rule prod.exhaust)
  obtain d s2 where del: "call_endpoint cl ''datasets.delete'' (dataset_params ws ds) [] None PBI_SCOPE [200] s1 = (d, s2)"
    by (rule prod.exhaust)
  from assms obtain exc where r: "r = Inl (Raised exc)"
    by (cases r) (auto simp only: fill_dataset_def push prod.case sum.case Pair_inject sum.inject sum.simps split: failure.splits)
  show thesis
  proof (cases d)
    case (Inr a)
    with assms del have "s2 = s'" by (simp add: fill_dataset_def push r)
    with removed Inr del show thesis by blast
  next
    case (Inl f)
    then show thesis
    proof (cases f)
      case (Raised cleanup_exc)
      with assms Inl del have "e = cleanup_failed name ds exc cleanup_exc" by (simp add: fill_dataset_def push r)
      then show thesis by (rule kept)
    next
      case (Escaping x)
      with assms Inl del show thesis by (simp add: fill_dataset_def push r)
    qed
  qed
qed

lemma deleted_dataset_gone:
  assumes "deletes_dataset cl ws ds present"
    and "call_endpoint cl ''datasets.delete'' (dataset_params ws ds) [] None PBI_SCOPE [200] s = (Inr a, s')"
  shows "\<not> present (fst s')"
proof -
  obtain status headers body where a: "a = (status, headers, body)" by (rule prod_cases3)
  from assms(2) obtain token s1 where "exchange cl ''datasets.delete'' \<lparr>pq_method = ''DELETE'', pq_url = rewrite_host cl (dataset_url ws ds),
      pq_headers = request_headers token None, pq_body = None, pq_form = None\<rparr> [200] 0 RETRY_SCHEDULE_MS s1 = (Inr a, s')"
    unfolding call_Inr dataset_endpoint by blast
  from exchange_last [OF this [unfolded a]] obtain w where
    "bc_transport cl \<lparr>pq_method = ''DELETE'', pq_url = rewrite_host cl (dataset_url ws ds),
        pq_headers = request_headers token None, pq_body = None, pq_form = None\<rparr> w = (Inr (200, headers, body), fst s')"
    by (auto simp only: list.set singleton_iff)
  then show ?thesis by (rule deletes_datasetD [OF assms(1)]) simp_all
qed

lemma cleanup_failed_code:
  "dict_get (error_detail (cleanup_failed name ds exc cleanup_exc)) ''capability_code'' = Some (JStr ''delivery_state_inconsistent'')"
  by (simp add: cleanup_failed_def)

lemma filling_cleaned:
  assumes "deletes_dataset cl ws ds present" and "fill_dataset cl ws name ds plans s = (Inl (Raised e), s')"
  shows "\<not> present (fst s') \<or> dict_get (error_detail e) ''capability_code'' = Some (JStr ''delivery_state_inconsistent'')"
  using assms(2)
proof (cases rule: fill_dataset_raised)
  case (removed a s1)
  have "\<not> present (fst s')" by (rule deleted_dataset_gone [OF assms(1) removed])
  then show ?thesis by simp
qed (simp add: cleanup_failed_code)

lemma create_dataset_cases:
  assumes "create_dataset cl ws name plans relationships s = (Inl f, s')"
  obtains (no_dataset) "new_dataset cl ws name plans relationships s = (Inl f, s')"
    | (filling) ds s1 where "new_dataset cl ws name plans relationships s = (Inr ds, s1)" "fill_dataset cl ws name ds plans s1 = (Inl f, s')"
    | (listing) ds s1 s2 where "new_dataset cl ws name plans relationships s = (Inr ds, s1)" "fill_dataset cl ws name ds plans s1 = (Inr (), s2)"
        "list_datasets cl ws name s2 = (Inl f, s')"
proof -
  obtain r s1 where new: "new_dataset cl ws name plans relationships s = (r, s1)" by (rule prod.exhaust)
  show thesis
  proof (cases r)
    case Inl
    then show thesis using assms no_dataset new by (simp add: create_dataset_def io_bind_def)
  next
    case (Inr ds)
    obtain r2 s2 where fill: "fill_dataset cl ws name ds plans s1 = (r2, s2)" by (rule prod.exhaust)
    show thesis
    proof (cases r2)
      case Inl
      then show thesis using assms filling new fill Inr by (simp add: create_dataset_def io_bind_def)
    next
      case (Inr u)
      obtain r3 s3 where "list_datasets cl ws name s2 = (r3, s3)" by (rule prod.exhaust)
      then show thesis
        using assms listing new fill Inr \<open>r = Inr ds\<close> by (cases r3) (simp_all add: create_dataset_def io_bind_def io_return_def)
    qed
  qed
qed

lemma fill_dataset_returned:
  assumes "fill_dataset cl ws name ds plans s = (Inr u, s')"
  shows "each (push_rows cl ws ds) plans s = (Inr (), s')"
proof -
  obtain r s1 where push: "each (push_rows cl ws ds) plans s = (r, s1)" by (rule prod.exhaust)
  show ?thesis
  proof (cases r)
    case (Inl f)
    obtain d s2 where "call_endpoint cl ''datasets.delete'' (dataset_params ws ds) [] None PBI_SCOPE [200] s1 = (d, s2)" by (rule prod.exhaust)
    then show ?thesis
      using assms push Inl by (cases f; cases d) (auto simp: fill_dataset_def split: failure.splits)
  next
    case (Inr v)
    then show ?thesis using assms push by (simp add: fill_dataset_def)
  qed
qed

text \<open>C18. How a first delivery ends with an error of the taxonomy. Either the creation was refused or gave no id, and nothing is cleaned up,
  since no id is known; or the rows could not be delivered, and then the dataset created is gone or the error carries the code
  \<open>delivery_state_inconsistent\<close>; or every row was delivered and it is the listing after them that failed, in which case the dataset
  stays. A deletion answered \<open>200\<close> is assumed to remove the dataset.\<close>
theorem failed_creation_cleaned:
  assumes "\<And>ds. deletes_dataset cl ws ds (present ds)"
    and "create_dataset cl ws name plans relationships s = (Inl (Raised e), s')"
  shows "new_dataset cl ws name plans relationships s = (Inl (Raised e), s')
    \<or> (\<exists>ds s1. new_dataset cl ws name plans relationships s = (Inr ds, s1)
        \<and> (\<not> present ds (fst s')
          \<or> dict_get (error_detail e) ''capability_code'' = Some (JStr ''delivery_state_inconsistent'')
          \<or> (\<exists>s2. each (push_rows cl ws ds) plans s1 = (Inr (), s2) \<and> list_datasets cl ws name s2 = (Inl (Raised e), s'))))"
  using assms(2)
proof (cases rule: create_dataset_cases)
  case (filling ds s1)
  then show ?thesis using filling_cleaned [OF assms(1) filling(2)] by blast
next
  case (listing ds s1 s2)
  then show ?thesis using fill_dataset_returned [OF listing(2)] by blast
qed simp

text \<open>In the reference service the entry under the empty name marks the dataset, which a deletion outside its tables removes.\<close>

lemma ref_deletes_dataset: "deletes_dataset (ref_client post_status reads) ''g-1'' ''d-1'' (\<lambda>w. fst w [] \<noteq> [])"
proof -
  have "ref_table (dataset_url ''g-1'' ''d-1'') = []" by (simp add: ref_table_def ref_prefix_def dataset_url_def)
  then show ?thesis
    by (auto simp: deletes_dataset_def ref_client_def ref_service_def rewrite_host_def split: if_splits)
qed

lemma ref_new_dataset:
  "\<exists>s'. new_dataset (ref_client post_status reads) ''g-1'' name [sales_plan] [] s = (Inr ''d-1'', s') \<and> fst s' = fst s"
proof -
  let ?cl = "ref_client post_status reads"
  obtain token s1 where token: "token_for ?cl PBI_SCOPE s = (Inr token, s1)" "fst s1 = fst s" using ref_token by blast
  have url: "pinned_endpoint ''push.create_dataset'' [(''groupId'', ''g-1'')] = Inr (''POST'', PBI_API_BASE @ ''/groups/g-1/datasets'')"
    "pinned_query_params ''push.create_dataset'' [(''defaultRetentionPolicy'', ''None'')] = Inr ()"
    "\<not> startswith (PBI_API_BASE @ ''/groups/g-1/datasets?'' @ urlencode [(''defaultRetentionPolicy'', ''None'')]) ref_prefix"
    "assert_emitted_fields ''table'' [''name'', ''columns''] = Inr ()"
    "assert_emitted_fields ''create_dataset'' [''name'', ''defaultMode'', ''tables''] = Inr ()"
    by code_simp+
  have "call_endpoint ?cl ''push.create_dataset'' [(''groupId'', ''g-1'')] [(''defaultRetentionPolicy'', ''None'')]
      (Some (JObj (dataset_fields name [sales_plan] []))) PBI_SCOPE [201, 202] s = (Inr (201, [], JObj [(''id'', JStr ''d-1'')]), s1)"
    using token url(1-3) exchange_ok
    by (cases s1) (simp add: call_endpoint_def io_bind_def pinned_endpoint_gate exchange.simps send_request_def ref_client_transport ref_answers(5))
  moreover have "dict_keys (dataset_fields name [sales_plan] []) = [''name'', ''defaultMode'', ''tables'']"
    by (simp add: dataset_fields_def dict_keys_def)
  ultimately show ?thesis
    using token(2) url(4,5) by (simp add: new_dataset_def io_bind_def checked_fields_def Let_def io_return_def str_json_def del: split_paired_Ex)
qed

lemma ref_fill_refused:
  "\<exists>s'. fill_dataset (ref_client (\<lambda>_. 400) reads) ''g-1'' name ''d-1'' [sales_plan] s =
      (Inl (Raised (ConfigError ''push.post_rows rejected (HTTP 400)'' [])), s')"
proof -
  obtain s1 where push: "push_rows (ref_client (\<lambda>_. 400) reads) ''g-1'' ''d-1'' sales_plan s =
      (Inl (Raised (ConfigError ''push.post_rows rejected (HTTP 400)'' [])), s1)"
    using ref_push_refused by blast
  obtain token s2 where token: "token_for (ref_client (\<lambda>_. 400) reads) PBI_SCOPE s1 = (Inr token, s2)" using ref_token by blast
  have "safe_value ''g-1''" "safe_value ''d-1''" by code_simp+
  then have url: "pinned_endpoint ''datasets.delete'' (dataset_params ''g-1'' ''d-1'') = Inr (''DELETE'', dataset_url ''g-1'' ''d-1'')"
    by (simp add: dataset_endpoint)
  obtain s' where "call_endpoint (ref_client (\<lambda>_. 400) reads) ''datasets.delete'' (dataset_params ''g-1'' ''d-1'') [] None PBI_SCOPE [200] s1
      = (Inr (200, [], JNull), s')"
    using ref_call [OF url ref_answers(1) token refl] by blast
  then show ?thesis using push by (simp add: fill_dataset_def io_bind_def)
qed

theorem failed_creation_cleaned_witness:
  "\<exists>s'. create_dataset (ref_client (\<lambda>_. 400) sales_listing) ''g-1'' ''cl-0a1b2c3d'' [sales_plan] [] (one_row, []) =
      (Inl (Raised (ConfigError ''push.post_rows rejected (HTTP 400)'' [])), s') \<and> fst (fst s') [] = []"
proof -
  let ?cl = "ref_client (\<lambda>_. 400) sales_listing" and ?e = "ConfigError ''push.post_rows rejected (HTTP 400)'' []"
  obtain s1 where new: "new_dataset ?cl ''g-1'' ''cl-0a1b2c3d'' [sales_plan] [] (one_row, []) = (Inr ''d-1'', s1)" "fst s1 = one_row"
    using ref_new_dataset [of "\<lambda>_. 400" sales_listing "''cl-0a1b2c3d''" "(one_row, [])"] unfolding fst_conv by blast
  obtain s' where "fill_dataset ?cl ''g-1'' ''cl-0a1b2c3d'' ''d-1'' [sales_plan] s1 = (Inl (Raised ?e), s')"
    using ref_fill_refused by blast
  then have run: "create_dataset ?cl ''g-1'' ''cl-0a1b2c3d'' [sales_plan] [] (one_row, []) = (Inl (Raised ?e), s')"
    using new by (simp add: create_dataset_def io_bind_def)
  obtain s2 where "push_rows ?cl ''g-1'' ''d-1'' sales_plan s1 = (Inl (Raised ?e), s2)" using ref_push_refused by blast
  then have refused: "each (push_rows ?cl ''g-1'' ''d-1'') [sales_plan] s1 = (Inl (Raised ?e), s2)" by (simp add: io_bind_def)
  have "deletes_dataset ?cl ''g-1'' ds (\<lambda>w. ds = ''d-1'' \<and> fst w [] \<noteq> [])" for ds
    using ref_deletes_dataset [of "\<lambda>_. 400" sales_listing] by (cases "ds = ''d-1''") (simp_all add: deletes_dataset_def)
  from failed_creation_cleaned [OF this run] have "fst (fst s') [] = []" using new refused by auto
  then show ?thesis using run by blast
qed

text \<open>The clean-up is for errors of the taxonomy: an exception of the transport, such as a dropped connection, passes, and the
  dataset stays as it is.\<close>

lemma dropped_connection_not_cleaned:
  "each (push_rows cl ws ds) plans s = (Inl (Escaping exc), s1) \<Longrightarrow> fill_dataset cl ws name ds plans s = (Inl (Escaping exc), s1)"
  "replace_rows cl ws ds p s = (Inl (Escaping exc), s1) \<Longrightarrow>
   replace_tables to_float cl ws ds previous replaced (p # ps) s = (Inl (Escaping exc), s1)"
  by (simp_all add: fill_dataset_def)

end
