(* ===== verification/Pbi_Preflight.thy ===== *)
theory Pbi_Preflight
  imports Pbi_Client
begin

text \<open>
  The preflight command of the Power BI connector (\<open>src/connectors/powerbi/preflight.py\<close>) and the environment file it reads
  (\<open>config.py\<close>). What is printed is left out, except for the messages of the checks; the exit status is kept.

  The transport of the command returns no headers; the one of the client is used and its headers are ignored. Arrows and
  ellipses of the messages are written \<open>->\<close> and \<open>...\<close>.
\<close>

section \<open>The environment file\<close>

record pbi_env =
  pe_tenant :: string
  pe_client :: string
  pe_secret :: string
  pe_workspace :: string
  pe_source :: string

definition is_hex :: "char \<Rightarrow> bool" where
  "is_hex c \<longleftrightarrow> c \<in> set ''0123456789abcdefABCDEF''"

text \<open>\<open>_UUID.match\<close>; its \<open>$\<close> also matches before a final newline.\<close>

definition uuid_text :: "string \<Rightarrow> bool" where
  "uuid_text s \<longleftrightarrow> map length (split_on (CHR ''-'') s) = [8, 4, 4, 4, 12] \<and> list_all (list_all is_hex) (split_on (CHR ''-'') s)"

definition is_uuid :: "string \<Rightarrow> bool" where
  "is_uuid s \<longleftrightarrow> uuid_text s \<or> s \<noteq> [] \<and> last s = CHR 0x0a \<and> uuid_text (butlast s)"

definition REQUIRED_KEYS :: "(string, bool \<times> string) dict" where
  "REQUIRED_KEYS =
     [(''POWERBI_TENANT_ID'', True, ''Entra admin center -> Overview -> 'Tenant ID' (a UUID). This is the ''
        @ ''directory the app registration lives in.''),
      (''POWERBI_CLIENT_ID'', True, ''Entra admin center -> App registrations -> your app -> Overview -> ''
        @ '''Application (client) ID' (a UUID -- NOT the object ID).''),
      (''POWERBI_CLIENT_SECRET'', False, ''Entra admin center -> App registrations -> your app -> Certificates & ''
        @ ''secrets -> New client secret -> copy the secret VALUE immediately ''
        @ ''(it is shown once). Paste the value, not the secret ID.''),
      (''POWERBI_WORKSPACE_ID'', True, ''Power BI service -> open the target workspace -> the UUID in the ''
        @ ''browser URL after /groups/. The service principal must be a Member ''
        @ ''or Admin of this workspace.'')]"

definition env_problem :: "(string, string) dict \<Rightarrow> string \<times> bool \<times> string \<Rightarrow> string option" where
  "env_problem vals entry =
     (case entry of (key, uuid_shaped, instruction) \<Rightarrow>
       let v = (case dict_get vals key of Some v \<Rightarrow> v | None \<Rightarrow> []); fill = CHR 0x0a # ''    Fill: '' @ instruction in
       if v = [] then Some (key @ '' is not set.'' @ fill)
       else if uuid_shaped \<and> \<not> is_uuid v then Some (key @ '' is set but is not a UUID.'' @ fill)
       else None)"

text \<open>\<open>file\<close> is what \<open>load_env_file\<close> makes of the file, \<open>None\<close> when there is no such file.\<close>

definition load_powerbi_env :: "string \<Rightarrow> (connector_error, (string, string) dict) result option \<Rightarrow> (connector_error, pbi_env) result" where
  "load_powerbi_env path file =
     (case file of
        None \<Rightarrow> Inl (ConfigError (path @ '' does not exist. Create it from the commented template ''
          @ ''(committed scaffold writes one) and fill the four POWERBI_* keys; ''
          @ ''the file is git-ignored and never leaves this machine (JC-8).'') [])
      | Some (Inl e) \<Rightarrow> Inl e
      | Some (Inr vals) \<Rightarrow>
          let problems = List.map_filter (env_problem vals) REQUIRED_KEYS; get = (\<lambda>k. case dict_get vals k of Some v \<Rightarrow> v | None \<Rightarrow> []) in
          if problems \<noteq> []
          then Inl (ConfigError (path @ '' is incomplete:'' @ [CHR 0x0a, CHR 0x0a] @ ''- '' @ join (CHR 0x0a # ''- '') problems) [])
          else Inr \<lparr>pe_tenant = get ''POWERBI_TENANT_ID'', pe_client = get ''POWERBI_CLIENT_ID'', pe_secret = get ''POWERBI_CLIENT_SECRET'',
            pe_workspace = get ''POWERBI_WORKSPACE_ID'', pe_source = path\<rparr>)"

section \<open>The checks\<close>

record check =
  ck_name :: string
  ck_ok :: bool
  ck_message :: string
  ck_advisory :: bool

definition check_of :: "string \<Rightarrow> bool \<Rightarrow> string \<Rightarrow> check" where
  "check_of name ok msg = \<lparr>ck_name = name, ck_ok = ok, ck_message = msg, ck_advisory = False\<rparr>"

definition AADSTS_HINTS :: "(string, string) dict" where
  "AADSTS_HINTS =
     [(''AADSTS700016'', ''the POWERBI_CLIENT_ID is not an app in this tenant -- re-check the Application (client) ID and the tenant.''),
      (''AADSTS7000215'', ''the POWERBI_CLIENT_SECRET is wrong or expired -- mint a new secret and paste its VALUE (not the secret ID).''),
      (''AADSTS90002'', ''the POWERBI_TENANT_ID names no tenant -- re-check the Tenant ID.''),
      (''AADSTS7000222'', ''the client secret has expired -- mint a new one.''),
      (''AADSTS500011'', ''the resource scope was not found in the tenant -- this is unexpected for the pinned Power BI/Fabric scopes; re-check the tenant.'')]"

definition pinned_send ::
  "'w pbi_transport \<Rightarrow> string \<Rightarrow> (string, string) dict \<Rightarrow> headers \<Rightarrow> (string, string) dict option \<Rightarrow> ('w, int \<times> json) io" where
  "pinned_send transport endpoint params hs form =
     io_bind (io_lift (io_pinned (pinned_endpoint endpoint params))) (\<lambda>(http_method, url).
     io_bind (io_lift (io_pinned (pinned_request http_method url))) (\<lambda>_.
     io_bind (transport \<lparr>pq_method = http_method, pq_url = url, pq_headers = hs, pq_body = None, pq_form = form\<rparr>) (\<lambda>(status, _, body).
       io_return (status, body))))"

text \<open>\<open>_acquire_token\<close>: the token, if any, and the message\<close>

definition token_answer :: "string \<Rightarrow> int \<Rightarrow> json \<Rightarrow> (string option \<times> string) attempt" where
  "token_answer scope status body =
     (let refused =
        res_bind (get_or (or_else body (JObj [])) ''error_description'' (JStr [])) (\<lambda>d.
          let description = takeWhile (\<lambda>c. c \<noteq> CHR 0x0a) (str_json d);
              hint = (case List.find (\<lambda>(c, _). contains_text c description) AADSTS_HINTS of Some (_, h) \<Rightarrow> '' -> '' @ h | None \<Rightarrow> [])
          in Inr (None, ''token request for scope '' @ scope @ '' failed (HTTP '' @ show_int status @ '')''
               @ (if description = [] then [] else '': '' @ description) @ hint))
      in if status = 200 \<and> truthy body then
           res_bind (get_or body ''access_token'' JNull) (\<lambda>t.
             if truthy t then Inr (Some (str_json t), ''token acquired'') else refused)
         else refused)"

definition acquire_token :: "'w pbi_transport \<Rightarrow> pbi_env \<Rightarrow> string \<Rightarrow> ('w, string option \<times> string) io" where
  "acquire_token transport env scope =
     io_bind (pinned_send transport ''token'' [(''tenantId'', pe_tenant env)]
         [(''Content-Type'', ''application/x-www-form-urlencoded'')]
         (Some [(''grant_type'', ''client_credentials''), (''client_id'', pe_client env), (''client_secret'', pe_secret env), (''scope'', scope)]))
       (\<lambda>(status, body). io_lift (token_answer scope status body))"

definition get_pinned :: "'w pbi_transport \<Rightarrow> string \<Rightarrow> string \<Rightarrow> (string, string) dict \<Rightarrow> ('w, int \<times> json) io" where
  "get_pinned transport endpoint token params =
     pinned_send transport endpoint params [(''Authorization'', ''Bearer '' @ token)] None"

definition workspace_ids :: "json \<Rightarrow> string list attempt" where
  "workspace_ids body =
     res_bind (get_or (or_else body (JObj [])) ''value'' (JList [])) (\<lambda>v.
     res_bind (py_iter v) (\<lambda>gs.
     res_bind (res_map (\<lambda>g. get_or g ''id'' (JStr [])) gs) (\<lambda>ids. Inr (remdups (map (map to_lower \<circ> str_json) ids)))))"

definition visible_workspaces :: "'w pbi_transport \<Rightarrow> string \<Rightarrow> ('w, int \<times> string list) io" where
  "visible_workspaces transport token =
     io_bind (get_pinned transport ''groups.list'' token []) (\<lambda>(status, body).
     io_bind (io_lift (workspace_ids body)) (\<lambda>ids. io_return (status, ids)))"

definition membership_check :: "pbi_env \<Rightarrow> string list \<Rightarrow> bool \<Rightarrow> bool \<Rightarrow> check" where
  "membership_check env ids in_workspace refreshed =
     check_of ''workspace-membership'' in_workspace
       (if in_workspace then ''service principal is a member of the target workspace''
        else ''workspace '' @ pe_workspace env @ '' is not among the '' @ show_nat (length ids) @ '' workspace(s) the SP can see''
          @ (if refreshed then '' (after a permissions refresh + re-check)'' else [])
          @ '' -- add the SP (or its security group) as a MEMBER of the workspace (workspace -> Manage access), ''
          @ ''re-check POWERBI_WORKSPACE_ID, then re-run.'')"

definition scope_check :: "pbi_env \<Rightarrow> string list \<Rightarrow> check" where
  "scope_check env ids =
     (let extra = sort (filter (\<lambda>i. i \<noteq> map to_lower (pe_workspace env)) ids) in
      \<lparr>ck_name = ''sp-scope'', ck_ok = (extra = []),
        ck_message = (if extra = [] then ''service principal sees only the designated workspace (RA-10)''
          else ''RA-10 advisory: the SP can see '' @ show_nat (length ids) @ '' workspaces, '' @ show_nat (length extra)
            @ '' beyond the designated one -- '' @ join '', '' (take 5 extra) @ (if length extra > 5 then '', ...'' else [])
            @ ''. Delivered data is exec-role aggregates, so ''
            @ ''this does not gate the demo; but least privilege for this SP is a human promise ''
            @ ''until the extra memberships are removed (each workspace -> Manage access) or ''
            @ ''accepted on the record.''),
        ck_advisory = (extra \<noteq> [])\<rparr>)"

definition push_api_check :: "int \<Rightarrow> check" where
  "push_api_check status =
     check_of ''push-api'' (status = 200)
       (if status = 200 then ''push/dataset API reachable in the workspace''
        else ''GET /groups/{workspaceId}/datasets returned HTTP '' @ show_int status @ '' -- the SP can see ''
          @ ''the workspace but not read its datasets; confirm the SP's role is Member or Admin (not Viewer).'')"

definition fabric_check :: "int \<Rightarrow> check" where
  "fabric_check status =
     check_of ''fabric-api'' (status = 200)
       (if status = 200 then ''Fabric report API reachable in the workspace''
        else ''GET /workspaces/{workspaceId}/reports returned HTTP '' @ show_int status @ '' -- if 401/403, ''
          @ ''the Fabric-side SP setting ('Service principals can call Fabric public APIs') or ''
          @ ''workspace role is missing; if the body names licensing, the workspace needs a ''
          @ ''license/capacity that permits report items (Fabric license types).'')"

definition blocked_checks :: "string \<Rightarrow> check \<Rightarrow> check list" where
  "blocked_checks why membership =
     [membership, \<lparr>ck_name = ''sp-scope'', ck_ok = False, ck_message = why, ck_advisory = True\<rparr>, check_of ''push-api'' False why]"

definition recheck ::
  "'w pbi_transport \<Rightarrow> (int \<Rightarrow> 'w \<Rightarrow> 'w) \<Rightarrow> pbi_env \<Rightarrow> string \<Rightarrow> string list \<Rightarrow> ('w, string list \<times> bool \<times> bool) io" where
  "recheck transport sleep env token ids =
     (if map to_lower (pe_workspace env) \<in> set ids then io_return (ids, True, False)
      else
        io_bind (get_pinned transport ''users.refresh_permissions'' token []) (\<lambda>_.
        io_bind (\<lambda>w. visible_workspaces transport token (sleep 120000 w)) (\<lambda>(status, ids').
          io_return (ids', status = 200 \<and> map to_lower (pe_workspace env) \<in> set ids', True))))"

definition workspace_checks :: "'w pbi_transport \<Rightarrow> (int \<Rightarrow> 'w \<Rightarrow> 'w) \<Rightarrow> pbi_env \<Rightarrow> string \<Rightarrow> ('w, check list) io" where
  "workspace_checks transport sleep env token =
     io_bind (visible_workspaces transport token) (\<lambda>(status, ids).
       if status \<noteq> 200 then
         io_return (blocked_checks ''blocked: workspace listing failed''
           (check_of ''workspace-membership'' False (''GET /groups returned HTTP '' @ show_int status @ '' -- if 401/403, enable the tenant ''
             @ ''setting 'Allow service principals to use Power BI APIs' (Admin portal -> ''
             @ ''Tenant settings -> Developer settings) for the SP's security group, then wait a few minutes and re-run.'')))
       else
         io_bind (recheck transport sleep env token ids) (\<lambda>(ids', in_workspace, refreshed).
         io_bind (get_pinned transport ''datasets.list_in_group'' token [(''groupId'', pe_workspace env)]) (\<lambda>(push_status, _).
           io_return [membership_check env ids' in_workspace refreshed, scope_check env ids', push_api_check push_status])))"

definition power_bi_checks :: "'w pbi_transport \<Rightarrow> (int \<Rightarrow> 'w \<Rightarrow> 'w) \<Rightarrow> pbi_env \<Rightarrow> string option \<Rightarrow> ('w, check list) io" where
  "power_bi_checks transport sleep env token =
     (case token of
        None \<Rightarrow> (let skip = ''blocked: no Power BI token (fix the token check first)'' in
          io_return (blocked_checks skip (check_of ''workspace-membership'' False skip)))
      | Some t \<Rightarrow> workspace_checks transport sleep env t)"

definition fabric_api_check :: "'w pbi_transport \<Rightarrow> pbi_env \<Rightarrow> string option \<Rightarrow> ('w, check) io" where
  "fabric_api_check transport env token =
     (case token of
        None \<Rightarrow> io_return (check_of ''fabric-api'' False ''blocked: no Fabric token (fix the token check first)'')
      | Some t \<Rightarrow>
          io_bind (get_pinned transport ''fabric.list_reports'' t [(''workspaceId'', pe_workspace env)]) (\<lambda>(status, _).
            io_return (fabric_check status)))"

definition run_preflight :: "'w pbi_transport \<Rightarrow> (int \<Rightarrow> 'w \<Rightarrow> 'w) \<Rightarrow> pbi_env \<Rightarrow> ('w, check list) io" where
  "run_preflight transport sleep env =
     io_bind (acquire_token transport env PBI_SCOPE) (\<lambda>(pbi_token, pbi_message).
     io_bind (acquire_token transport env FABRIC_SCOPE) (\<lambda>(fabric_token, fabric_message).
     io_bind (power_bi_checks transport sleep env pbi_token) (\<lambda>checks.
     io_bind (fabric_api_check transport env fabric_token) (\<lambda>fabric.
       io_return ([check_of ''token:powerbi'' (pbi_token \<noteq> None) pbi_message, check_of ''token:fabric'' (fabric_token \<noteq> None) fabric_message]
         @ checks @ [fabric])))))"

text \<open>The exit status of \<open>main\<close>: 2 when the file is not usable, 3 when a check that is not advisory failed\<close>

definition failed_checks :: "check list \<Rightarrow> check list" where
  "failed_checks checks = filter (\<lambda>c. \<not> ck_ok c \<and> \<not> ck_advisory c) checks"

definition preflight_main ::
  "'w pbi_transport \<Rightarrow> (int \<Rightarrow> 'w \<Rightarrow> 'w) \<Rightarrow> bool \<Rightarrow> (connector_error, pbi_env) result \<Rightarrow> ('w, int) io" where
  "preflight_main transport sleep offline loaded =
     (case loaded of
        Inl (ConfigError _ _) \<Rightarrow> io_return 2
      | Inl e \<Rightarrow> io_raise e
      | Inr env \<Rightarrow>
          if offline then io_return 0
          else io_bind (run_preflight transport sleep env) (\<lambda>checks. io_return (if failed_checks checks \<noteq> [] then 3 else 0)))"

section \<open>What a cleared preflight means\<close>

lemma check_of_simps [simp]: "ck_name (check_of n ok msg) = n" "ck_ok (check_of n ok msg) = ok" "ck_advisory (check_of n ok msg) = False"
  by (simp_all add: check_of_def)

lemma check_simps [simp]:
  "ck_name (membership_check env ids m r) = ''workspace-membership''" "ck_advisory (membership_check env ids m r) = False"
  "ck_name (scope_check env ids) = ''sp-scope''"
  "ck_name (push_api_check status) = ''push-api''" "ck_advisory (push_api_check status) = False"
  "ck_name (fabric_check status) = ''fabric-api''" "ck_advisory (fabric_check status) = False"
  by (simp_all add: membership_check_def scope_check_def push_api_check_def fabric_check_def Let_def)

definition advisory_ok :: "check \<Rightarrow> bool" where
  "advisory_ok c \<longleftrightarrow> (if ck_advisory c then ck_name c = ''sp-scope'' else True)"

lemma advisory_ok_check [simp]: "advisory_ok (check_of n ok msg)"
  by (simp add: advisory_ok_def)

lemma blocked_names:
  "map ck_name (blocked_checks why m) = [ck_name m, ''sp-scope'', ''push-api''] \<and> (advisory_ok m \<longrightarrow> list_all advisory_ok (blocked_checks why m))"
  by (simp add: blocked_checks_def advisory_ok_def)

lemma workspace_check_names:
  assumes "workspace_checks transport sleep env token w = (Inr checks, w')"
  shows "map ck_name checks = [''workspace-membership'', ''sp-scope'', ''push-api''] \<and> list_all advisory_ok checks"
proof -
  from assms consider msg where "checks = blocked_checks ''blocked: workspace listing failed'' (check_of ''workspace-membership'' False msg)"
    | ids m r status where "checks = [membership_check env ids m r, scope_check env ids, push_api_check status]"
    unfolding workspace_checks_def by (auto simp: io_bind_Inr_iff split: if_splits prod.splits)
  then show ?thesis
  proof cases
    case (1 msg)
    then show ?thesis using blocked_names by simp
  qed (simp add: advisory_ok_def)
qed

lemma run_preflight_names:
  assumes "run_preflight transport sleep env w = (Inr checks, w')"
  shows "map ck_name checks = [''token:powerbi'', ''token:fabric'', ''workspace-membership'', ''sp-scope'', ''push-api'', ''fabric-api'']
    \<and> list_all advisory_ok checks"
proof -
  obtain pbi fab middle fabric w1 w2 w3 m1 m2 where m: "power_bi_checks transport sleep env pbi w1 = (Inr middle, w2)"
    and f: "fabric_api_check transport env fab w2 = (Inr fabric, w3)"
    and c: "checks = [check_of ''token:powerbi'' (pbi \<noteq> None) m1, check_of ''token:fabric'' (fab \<noteq> None) m2] @ middle @ [fabric]"
    using assms by (auto simp: run_preflight_def io_bind_Inr_iff)
  have "map ck_name middle = [''workspace-membership'', ''sp-scope'', ''push-api''] \<and> list_all advisory_ok middle"
    using m blocked_names by (cases pbi) (auto simp: power_bi_checks_def Let_def dest: workspace_check_names)
  moreover have "ck_name fabric = ''fabric-api'' \<and> advisory_ok fabric"
    using f by (cases fab) (auto simp: fabric_api_check_def io_bind_Inr_iff advisory_ok_def)
  ultimately show ?thesis unfolding c by simp
qed

text \<open>The command ends with status 0, when it is not offline, only after all six checks were made, in this order, and each but the one
  on the scope of the service principal succeeded.\<close>
theorem preflight_cleared:
  assumes "preflight_main transport sleep False (Inr env) w = (Inr 0, w')"
  shows "\<exists>checks. run_preflight transport sleep env w = (Inr checks, w')
    \<and> map ck_name checks = [''token:powerbi'', ''token:fabric'', ''workspace-membership'', ''sp-scope'', ''push-api'', ''fabric-api'']
    \<and> list_all (\<lambda>c. ck_ok c \<or> ck_name c = ''sp-scope'') checks"
proof -
  obtain checks where c: "run_preflight transport sleep env w = (Inr checks, w')" and failed: "failed_checks checks = []"
    using assms by (auto simp: preflight_main_def io_bind_Inr_iff split: if_splits)
  note names = run_preflight_names [OF c]
  have "list_all (\<lambda>c. ck_ok c \<or> ck_name c = ''sp-scope'') checks"
    unfolding list_all_iff
  proof
    fix x assume x: "x \<in> set checks"
    have "ck_ok x \<or> ck_advisory x" using failed x unfolding failed_checks_def filter_empty_conv by blast
    moreover have "advisory_ok x" using names x unfolding list_all_iff by blast
    ultimately show "ck_ok x \<or> ck_name x = ''sp-scope''" unfolding advisory_ok_def by presburger
  qed
  then show ?thesis using c names by (intro exI [of _ checks]) simp
qed

text \<open>The check on the scope also succeeds when no workspace is visible at all, also because the second listing failed: it then says
  that only the designated workspace is seen.\<close>

lemma scope_check_vacuous: "ck_ok (scope_check env [])"
  by (simp add: scope_check_def)

end
