(* ===== verification/Looker_Publisher.thy ===== *)
theory Looker_Publisher
  imports Api_Io
begin

text \<open>
  The Looker Studio publisher (\<open>src/connectors/looker_studio/publisher.py\<close>): the link that creates a report from a template, and
  the steps that are left to a person. It calls no service. \<open>sha\<close> is the hexadecimal SHA-256 of a text; dashes and arrows of the
  messages are written \<open>--\<close> and \<open>->\<close>.
\<close>

section \<open>The pinned parameters\<close>

definition LINKING_BASE :: string where
  "LINKING_BASE = ''https://lookerstudio.google.com/reporting/create''"

definition VISUAL_KINDS :: "string list" where
  "VISUAL_KINDS = [''table'', ''line'', ''bar'', ''scorecard'', ''pivot'']"

definition LINKING_API_CONNECTOR_IDS :: "string list" where
  "LINKING_API_CONNECTOR_IDS = [''bigQuery'', ''cloudSpanner'', ''community'', ''googleAnalytics'', ''googleCloudStorage'',
     ''googleSheets'', ''looker'', ''searchConsole'']"

definition LINKING_API_CONNECTORS :: "(string, (string, string) dict) dict" where
  "LINKING_API_CONNECTORS =
     [(''ga4'', [(''connector'', ''googleAnalytics''), (''property_id'', ''propertyId'')]),
      (''gsc'', [(''connector'', ''searchConsole''), (''site_url'', ''siteUrl''), (''table_type'', ''tableType'')])]"

definition MANUAL_WIRING_KINDS :: "string list" where
  "MANUAL_WIRING_KINDS = [''postgres'']"

definition stable_id :: "(string \<Rightarrow> string) \<Rightarrow> string \<Rightarrow> string \<Rightarrow> string" where
  "stable_id sha artifact_id target = ''tl-'' @ take 16 (sha (artifact_id @ CHR 0x0a # target))"

section \<open>Wiring\<close>

record wiring =
  wi_params :: "(string, string) dict"
  wi_backing :: "json list"
  wi_unwired :: "string list"
  wi_systems :: "string list"
  wi_manual :: "(string \<times> string) list"

definition no_wiring :: wiring where
  "no_wiring = \<lparr>wi_params = [], wi_backing = [], wi_unwired = [], wi_systems = [], wi_manual = []\<rparr>"

text \<open>The kind of a source; a list or an object cannot be looked up.\<close>

datatype source_kind = Manual | Linked string "(string, string) dict"

definition quoted_name :: "(string, json) dict \<Rightarrow> string" where
  "quoted_name query = repr_json (item query ''name'')"

definition unsupported_kind :: "string \<Rightarrow> json \<Rightarrow> 'a attempt" where
  "unsupported_kind system kind =
     refuse_config (''config.sources['' @ py_repr system @ ''].kind '' @ repr_json kind @ '' is not supported by this adapter (supported: ''
       @ join '', '' (sort (dict_keys LINKING_API_CONNECTORS @ MANUAL_WIRING_KINDS)) @ ''). Refusing rather than guessing a ''
       @ ''Linking API connector id -- an id Looker Studio does not know fails ''
       @ ''report creation outright instead of degrading to a manual step.'')"

definition kind_of :: "string \<Rightarrow> json \<Rightarrow> source_kind attempt" where
  "kind_of system kind =
     (case kind of
        JList _ \<Rightarrow> Inl (Escaping ''TypeError'')
      | JObj _ \<Rightarrow> Inl (Escaping ''TypeError'')
      | JStr k \<Rightarrow>
          (case dict_get LINKING_API_CONNECTORS k of
             Some params \<Rightarrow> Inr (Linked k params)
           | None \<Rightarrow> if k \<in> set MANUAL_WIRING_KINDS then Inr Manual else unsupported_kind system kind)
      | _ \<Rightarrow> unsupported_kind system kind)"

definition add_backing :: "string \<Rightarrow> wiring \<Rightarrow> wiring" where
  "add_backing ref st =
     (let entry = JObj [(''type'', JStr ''reporting_view''), (''ref'', JStr ref)] in
      if entry \<in> set (wi_backing st) then st else st\<lparr>wi_backing := wi_backing st @ [entry]\<rparr>)"

definition wire_view :: "(string, json) dict \<Rightarrow> string \<Rightarrow> string \<Rightarrow> wiring \<Rightarrow> wiring attempt" where
  "wire_view query system alias st =
     (let backing = (case item query ''backing'' of JObj kvs \<Rightarrow> kvs | _ \<Rightarrow> []) in
      if item backing ''mode'' \<noteq> JStr ''reporting_view'' then
        refuse_config (''query '' @ quoted_name query @ '' has backing.mode='' @ repr_json (item backing ''mode'')
          @ ''; this adapter is sql_backing: views -- recurring SQL reaches Looker Studio only through a reporting view ''
          @ ''(formats '' @ CHR 0xa7 # ''4.2 / skill SK-6). Produce the view, re-point the query at it, and re-validate.'')
      else (case named (item backing ''ref'') of
          None \<Rightarrow> refuse_config (''query '' @ quoted_name query @ '': backing.mode=reporting_view needs backing.ref'')
        | Some ref \<Rightarrow>
            let st = add_backing ref st in
            if system \<in> set (wi_systems st) then
              Inr (if (alias, ref) \<in> set (wi_manual st) then st else st\<lparr>wi_unwired := wi_unwired st @ [ref]\<rparr>)
            else Inr (st\<lparr>wi_manual := wi_manual st @ [(alias, ref)], wi_systems := wi_systems st @ [system]\<rparr>)))"

definition ds_key :: "string \<Rightarrow> string \<Rightarrow> string" where
  "ds_key alias p = ''ds.'' @ alias @ ''.'' @ p"

definition wire_params :: "(string, json) dict \<Rightarrow> string \<Rightarrow> (string, string) dict \<Rightarrow> (string, string) dict \<Rightarrow> (string, string) dict" where
  "wire_params source alias params ds =
     foldl (\<lambda>ds (config_key, wire_key).
         if config_key = ''connector'' then ds
         else (case item source config_key of JNull \<Rightarrow> ds | v \<Rightarrow> dict_set (ds_key alias wire_key) (str_json v) ds)) ds params"

definition wire_link ::
  "(string, json) dict \<Rightarrow> (string, json) dict \<Rightarrow> string \<Rightarrow> string \<Rightarrow> string \<Rightarrow> (string, string) dict \<Rightarrow> json \<Rightarrow> wiring \<Rightarrow> wiring attempt" where
  "wire_link query source system alias kind params request_dialect st =
     (if request_dialect \<noteq> JNull \<and> request_dialect \<noteq> JStr ''api'' then
        refuse_config (''query '' @ quoted_name query @ '': system '' @ py_repr system @ '' is wired as '' @ py_repr kind
          @ '' but the query dialect is '' @ repr_json request_dialect)
      else if system \<in> set (wi_systems st) then Inr st
      else
        let connector_id = the (dict_get params ''connector'') in
        if connector_id \<notin> set LINKING_API_CONNECTOR_IDS then
          refuse_config (''connector id '' @ py_repr connector_id @ '' for source kind '' @ py_repr kind @ '' is not a ''
            @ ''Linking API connector (see the pinned reference in this module). ''
            @ ''Refusing to emit a parameter Looker Studio will reject.'')
        else Inr (st\<lparr>wi_params := wire_params source alias params (dict_set (ds_key alias ''connector'') connector_id (wi_params st)),
               wi_systems := wi_systems st @ [system]\<rparr>))"

definition wire_query :: "(string, json) dict \<Rightarrow> wiring \<Rightarrow> json \<Rightarrow> wiring attempt" where
  "wire_query sources st query =
     (case query of
        JObj q \<Rightarrow>
          (case named (item q ''system'') of
             None \<Rightarrow> refuse_config ''every artifact query needs a system''
           | Some system \<Rightarrow>
               (case item sources system of
                  JObj source \<Rightarrow>
                    res_bind (kind_of system (item source ''kind'')) (\<lambda>kind.
                    (case named (item source ''alias'') of
                       None \<Rightarrow> refuse_config (''config.sources['' @ py_repr system @ ''].alias is required'')
                     | Some alias \<Rightarrow>
                         res_bind (get_or (or_else (item q ''request'') (JObj [])) ''dialect'' JNull) (\<lambda>request_dialect.
                           case kind of
                             Manual \<Rightarrow> wire_view q system alias st
                           | Linked k params \<Rightarrow> wire_link q source system alias k params request_dialect st)))
                | _ \<Rightarrow> refuse_config (''artifact query '' @ quoted_name q @ '' targets system '' @ py_repr system
                    @ '' but config.sources has no wiring for it'')))
      | _ \<Rightarrow> refuse_config ''artifact.queries entries must be objects'')"

section \<open>Visuals and the blend\<close>

definition exercised_kinds :: "(string, json) dict \<Rightarrow> string list" where
  "exercised_kinds config =
     (case item config ''template_visual_kinds'' of
        JList ks \<Rightarrow> List.map_filter (\<lambda>k. case k of JStr s \<Rightarrow> if s \<in> set VISUAL_KINDS then Some s else None | _ \<Rightarrow> None) ks
      | _ \<Rightarrow> VISUAL_KINDS)"

definition substitution :: "string \<Rightarrow> json" where
  "substitution kind = JObj [(''kind'', JStr kind), (''substituted_with'', JStr ''template default''),
     (''note'', JStr (''the linked template does not exercise '' @ py_repr kind
        @ ''; pick the chart in the Looker Studio editor after creating the report''))]"

definition substitutions :: "(string, json) dict \<Rightarrow> (string, json) dict \<Rightarrow> json list attempt" where
  "substitutions config artifact =
     res_fold (\<lambda>subs visual.
         case (case visual of JObj kvs \<Rightarrow> item kvs ''kind'' | _ \<Rightarrow> JNull) of
           JStr kind \<Rightarrow>
             if kind \<notin> set VISUAL_KINDS then
               refuse_config (''visual kind '' @ py_repr kind @ '' is outside the formats '' @ CHR 0xa7 # ''4.4 registry (''
                 @ join '', '' VISUAL_KINDS @ '')'')
             else Inr (if kind \<in> set (exercised_kinds config) then subs else subs @ [substitution kind])
         | _ \<Rightarrow> Inr subs)
       [] (case item artifact ''visuals'' of JList vs \<Rightarrow> vs | _ \<Rightarrow> [])"

definition check_blend :: "(string, json) dict \<Rightarrow> (string, json) dict \<Rightarrow> json list attempt" where
  "check_blend flags artifact =
     (if item artifact ''blend'' = JNull then Inr []
      else if item flags ''cross_source'' \<noteq> JStr ''blending'' then
        refuse_config (''artifact carries a blend but effective cross_source is '' @ repr_json (item flags ''cross_source''))
      else (case (case item artifact ''blend'' of JObj kvs \<Rightarrow> item kvs ''keys'' | _ \<Rightarrow> JNull) of
          JList (k # ks) \<Rightarrow>
            if list_all (\<lambda>e. case e of JObj kvs \<Rightarrow> truthy (item kvs ''entity_ref'') | _ \<Rightarrow> False) (k # ks) then Inr (k # ks)
            else refuse_config (''every blend key needs entity_ref -- blend keys come from the ''
              @ ''entity doc's documented mappings, never improvised (formats '' @ CHR 0xa7 # ''4.5)'')
        | _ \<Rightarrow> refuse_config (''artifact.blend.keys must be a non-empty list (formats '' @ CHR 0xa7 # ''4.5)'')))"

section \<open>The link and the steps\<close>

definition link_url :: "string \<Rightarrow> string \<Rightarrow> (string, string) dict \<Rightarrow> string" where
  "link_url template_id report_name ds =
     LINKING_BASE @ ''?'' @ join ''&'' (map (\<lambda>(k, v). quote_url k @ ''='' @ quote_url v)
       ([(''c.reportId'', template_id), (''r.reportName'', report_name)] @ sort_key fst ds))"

definition manual_step :: "string \<times> string \<Rightarrow> string" where
  "manual_step ar = ''Point the '' @ fst ar @ '' data source at '' @ snd ar
     @ '' in the editor (Resource -> manage added data sources), entering the reporting-role ''
     @ ''password when prompted and enabling SSL -- credentials never ride the ''
     @ ''link, and a database source cannot be prefilled by it either.''"

definition unwired_step :: "string \<Rightarrow> string" where
  "unwired_step ref = ''Add a data source for '' @ ref @ '' in the editor -- the template exposes one ''
     @ ''data source per system and it is already used.''"

definition blend_step :: "json list \<Rightarrow> string" where
  "blend_step keys =
     ''Verify the blend join ('' @ join '', '' (List.map_filter (\<lambda>k. case k of
          JObj kvs \<Rightarrow> Some (str_json (item kvs ''left_column'') @ CHR 0xd7 # str_json (item kvs ''right_column'') @ '' per ''
            @ str_json (item kvs ''entity_ref''))
        | _ \<Rightarrow> None) keys) @ '') matches the template's blend setup.''"

definition human_steps :: "json list \<Rightarrow> wiring \<Rightarrow> string list" where
  "human_steps blend_keys st =
     [''Open the template link and review the prefilled data sources.'']
     @ map manual_step (wi_manual st)
     @ (if blend_keys = [] then [] else [blend_step blend_keys])
     @ map unwired_step (wi_unwired st)
     @ [''Click '' @ CHR 0x22 # ''Edit and share'' @ CHR 0x22 # '' to create your copy of the report. A revised ''
        @ ''version of this report publishes as a new link and therefore a new copy -- ''
        @ ''the copy you save now is never updated in place.'']"

definition report_name :: "(string, json) dict \<Rightarrow> (string, json) dict \<Rightarrow> string" where
  "report_name config artifact =
     (let title = (case item artifact ''title'' of JStr s \<Rightarrow> s | _ \<Rightarrow> ''Context Layer report'') in
      case named (item config ''report_name_prefix'') of Some prefix \<Rightarrow> prefix @ title | None \<Rightarrow> title)"

definition non_empty_list :: "json \<Rightarrow> string \<Rightarrow> json list attempt" where
  "non_empty_list v msg = (case v of JList (x # xs) \<Rightarrow> Inr (x # xs) | _ \<Rightarrow> refuse_config msg)"

definition some_name :: "json \<Rightarrow> string \<Rightarrow> string attempt" where
  "some_name v msg = (case named v of Some s \<Rightarrow> Inr s | None \<Rightarrow> refuse_config msg)"

definition looker_publish ::
  "(string \<Rightarrow> string) \<Rightarrow> (string, json) dict \<Rightarrow> publish_request \<Rightarrow> (string, json) dict \<Rightarrow> publish_result attempt" where
  "looker_publish sha config request flags =
     (let artifact = pr_artifact request in
      if item flags ''create_report'' \<noteq> JStr ''template_link'' then
        refuse_config (''looker_studio publishes via template_link only; effective create_report=''
          @ repr_json (item flags ''create_report'') @ '' cannot be honored (PB-1)'')
      else
        res_bind (some_name (item artifact ''id'') (''artifact.id (stable UUID, formats '' @ CHR 0xa7 # ''4.1) is required -- ''
          @ ''publish identity and idempotency key off it (F-5/PB-2)'')) (\<lambda>artifact_id.
        res_bind (non_empty_list (item artifact ''queries'') ''artifact carries no queries; nothing to wire'') (\<lambda>queries.
        res_bind (some_name (item config ''template_report_id'') ''config.template_report_id is required for template_link'') (\<lambda>template_id.
        res_bind (case item config ''sources'' of JObj (kv # kvs) \<Rightarrow> Inr (kv # kvs)
          | _ \<Rightarrow> refuse_config ''config.sources must map artifact systems to template aliases'') (\<lambda>sources.
        res_bind (check_blend flags artifact) (\<lambda>blend_keys.
        res_bind (res_fold (wire_query sources) no_wiring queries) (\<lambda>st.
        res_bind (substitutions config artifact) (\<lambda>subs.
          Inr \<lparr>pb_mode = ''template_link'',
            pb_created = [JObj [(''type'', JStr ''template_link''), (''id'', JStr (stable_id sha artifact_id (pr_target request))),
              (''url'', JStr (link_url template_id (report_name config artifact) (wi_params st)))]],
            pb_pending_human_steps = human_steps blend_keys st,
            pb_backing = wi_backing st,
            pb_detail = [(''template_report_id'', JStr template_id), (''visual_substitutions'', JList subs)]
              @ (if wi_unwired st = [] then [] else [(''unwired_backings'', JList (map JStr (wi_unwired st)))])\<rparr>))))))))"

section \<open>What rides the link, and what is left to a person\<close>

text \<open>A parameter of the link names a data source, and is a pinned connector or one of the three documented fields.\<close>

definition link_param :: "string \<times> string \<Rightarrow> bool" where
  "link_param kv \<longleftrightarrow>
     (\<exists>alias. fst kv = ds_key alias ''connector'' \<and> snd kv \<in> {''googleAnalytics'', ''searchConsole''}
        \<or> fst kv \<in> ds_key alias ` {''propertyId'', ''siteUrl'', ''tableType''})"

text \<open>A view that backs a query is pointed at in the editor, or added there.\<close>

definition view_entry :: "string \<Rightarrow> json" where
  "view_entry ref = JObj [(''type'', JStr ''reporting_view''), (''ref'', JStr ref)]"

definition views_named :: "wiring \<Rightarrow> bool" where
  "views_named st \<longleftrightarrow>
     list_all (\<lambda>b. \<exists>ref. b = view_entry ref \<and> (ref \<in> snd ` set (wi_manual st) \<or> ref \<in> set (wi_unwired st))) (wi_backing st)"

lemma dict_set_mem: "x \<in> set (dict_set k v d) \<Longrightarrow> x = (k, v) \<or> x \<in> set d"
  by (induction d) (auto split: if_splits)

lemma link_param_set:
  assumes "list_all link_param ds" and "link_param (k, v)"
  shows "list_all link_param (dict_set k v ds)"
  using assms dict_set_mem [of _ k v ds] by (fastforce simp: list_all_iff)

lemma link_params:
  "w \<in> {''propertyId'', ''siteUrl'', ''tableType''} \<Longrightarrow> link_param (ds_key alias w, v)"
  "c \<in> {''googleAnalytics'', ''searchConsole''} \<Longrightarrow> link_param (ds_key alias ''connector'', c)"
  by (auto simp: link_param_def)

lemma wire_params_link:
  assumes "list_all link_param ds" and "list_all (\<lambda>(c, w). c = ''connector'' \<or> w \<in> {''propertyId'', ''siteUrl'', ''tableType''}) params"
  shows "list_all link_param (wire_params source alias params ds)"
  using assms unfolding wire_params_def
proof (induction params arbitrary: ds)
  case (Cons p params)
  have set_ok: "list_all link_param (dict_set (ds_key alias w) v ds)" if "w \<in> {''propertyId'', ''siteUrl'', ''tableType''}" for w v
    using Cons.prems(1) link_params(1) [OF that] by (rule link_param_set)
  obtain c w where p: "p = (c, w)" by (rule prod.exhaust)
  let ?step = "if c = ''connector'' then ds else (case item source c of JNull \<Rightarrow> ds | v \<Rightarrow> dict_set (ds_key alias w) (str_json v) ds)"
  have "list_all link_param ?step"
    using Cons.prems set_ok [of w] by (cases "c = ''connector''"; cases "item source c") (simp_all add: p)
  then show ?case using Cons.IH [of ?step] Cons.prems(2) by (simp add: p)
qed simp

definition pinned_source :: "(string, string) dict \<Rightarrow> bool" where
  "pinned_source params \<longleftrightarrow> the (dict_get params ''connector'') \<in> {''googleAnalytics'', ''searchConsole''}
     \<and> list_all (\<lambda>(c, w). c = ''connector'' \<or> w \<in> {''propertyId'', ''siteUrl'', ''tableType''}) params"

lemma list_all_mem: "list_all P xs \<Longrightarrow> x \<in> set xs \<Longrightarrow> P x"
  by (simp add: list_all_iff)

lemma connectors_pinned: "dict_get LINKING_API_CONNECTORS k = Some params \<Longrightarrow> pinned_source params"
proof -
  have "list_all (\<lambda>kp. pinned_source (snd kp)) LINKING_API_CONNECTORS" by code_simp
  then show "dict_get LINKING_API_CONNECTORS k = Some params \<Longrightarrow> ?thesis"
    using list_all_mem [of "\<lambda>kp. pinned_source (snd kp)" LINKING_API_CONNECTORS "(k, params)"] map_of_SomeD by fastforce
qed

lemma wire_link_params:
  assumes "wire_link query source system alias k params dialect st = Inr st'" and "dict_get LINKING_API_CONNECTORS k = Some params"
    and "list_all link_param (wi_params st)"
  shows "list_all link_param (wi_params st')" "wi_backing st' = wi_backing st" "wi_manual st' = wi_manual st" "wi_unwired st' = wi_unwired st"
proof -
  have "list_all link_param (dict_set (ds_key alias ''connector'') (the (dict_get params ''connector'')) (wi_params st))"
    using assms(3) connectors_pinned [OF assms(2)] by (intro link_param_set link_params(2)) (simp_all add: pinned_source_def)
  then have "list_all link_param (wire_params source alias params
      (dict_set (ds_key alias ''connector'') (the (dict_get params ''connector'')) (wi_params st)))"
    using connectors_pinned [OF assms(2)] by (intro wire_params_link) (simp_all add: pinned_source_def)
  then show "list_all link_param (wi_params st')" "wi_backing st' = wi_backing st" "wi_manual st' = wi_manual st" "wi_unwired st' = wi_unwired st"
    using assms(1,3) by (auto simp: wire_link_def Let_def refuse_config_neq split: if_splits)
qed

definition note_view :: "string \<Rightarrow> string \<Rightarrow> string \<Rightarrow> wiring \<Rightarrow> wiring" where
  "note_view system alias ref st =
     (if system \<in> set (wi_systems st)
      then (if (alias, ref) \<in> set (wi_manual st) then st else st\<lparr>wi_unwired := wi_unwired st @ [ref]\<rparr>)
      else st\<lparr>wi_manual := wi_manual st @ [(alias, ref)], wi_systems := wi_systems st @ [system]\<rparr>)"

lemma wire_view_Inr:
  assumes "wire_view query system alias st = Inr st'"
  obtains ref where "st' = note_view system alias ref (add_backing ref st)"
proof -
  define backing where "backing = (case item query ''backing'' of JObj kvs \<Rightarrow> kvs | _ \<Rightarrow> [])"
  note run = assms [unfolded wire_view_def Let_def, folded backing_def]
  have mode: "item backing ''mode'' = JStr ''reporting_view''"
    by (rule ccontr) (use run in \<open>simp only: not_False_eq_True if_True refuse_config_neq\<close>)
  show thesis
  proof (cases "named (item backing ''ref'')")
    case None
    then show thesis using run mode by simp
  next
    case (Some ref)
    then have "st' = note_view system alias ref (add_backing ref st)" using run mode by (simp add: note_view_def split: if_splits)
    then show thesis by (rule that)
  qed
qed

lemma wire_view_views:
  assumes "wire_view query system alias st = Inr st'" and "views_named st"
  shows "views_named st'" "wi_params st' = wi_params st"
proof -
  obtain ref where st': "st' = note_view system alias ref (add_backing ref st)" using wire_view_Inr [OF assms(1)] by blast
  have "wi_manual (add_backing ref st) = wi_manual st" "wi_unwired (add_backing ref st) = wi_unwired st"
    "wi_params (add_backing ref st) = wi_params st" "set (wi_backing (add_backing ref st)) = insert (view_entry ref) (set (wi_backing st))"
    by (auto simp: add_backing_def view_entry_def Let_def)
  then show "views_named st'" "wi_params st' = wi_params st"
    using assms(2) by (auto simp: st' note_view_def views_named_def list_all_iff rev_image_eqI) blast+
qed

lemma kind_of_Linked: "kind_of system kind = Inr (Linked k params) \<Longrightarrow> dict_get LINKING_API_CONNECTORS k = Some params"
  by (auto simp: kind_of_def unsupported_kind_def refuse_config_neq split: json.splits option.splits if_splits)

definition sound_wiring :: "wiring \<Rightarrow> bool" where
  "sound_wiring st \<longleftrightarrow> list_all link_param (wi_params st) \<and> views_named st"

lemma wire_query_Inr:
  assumes "wire_query sources st query = Inr st'"
  obtains (view) q system ali where "wire_view q system ali st = Inr st'"
    | (link) q source system ali k params dialect where "wire_link q source system ali k params dialect st = Inr st'"
        "dict_get LINKING_API_CONNECTORS k = Some params"
proof -
  obtain q where q: "query = JObj q" using assms by (cases query) (simp_all add: wire_query_def)
  obtain system where system: "named (item q ''system'') = Some system"
    using assms by (cases "named (item q ''system'')") (simp_all add: wire_query_def q)
  obtain source where source: "item sources system = JObj source"
    using assms by (cases "item sources system") (simp_all add: wire_query_def q system)
  obtain kind where kind: "kind_of system (item source ''kind'') = Inr kind"
    using assms by (cases "kind_of system (item source ''kind'')") (simp_all add: wire_query_def q system source)
  obtain ali where ali: "named (item source ''alias'') = Some ali"
    using assms by (cases "named (item source ''alias'')") (simp_all add: wire_query_def q system source kind)
  obtain dialect where "get_or (or_else (item q ''request'') (JObj [])) ''dialect'' JNull = Inr dialect"
    using assms by (cases "get_or (or_else (item q ''request'') (JObj [])) ''dialect'' JNull") (simp_all add: wire_query_def q system source kind ali)
  note run = assms [unfolded wire_query_def q json.case system option.case source kind ali this res_bind_simps]
  show thesis
  proof (cases kind)
    case Manual
    then show thesis using run view by simp
  next
    case (Linked k params)
    then show thesis using run link kind_of_Linked kind by simp
  qed
qed

lemma wire_query_sound:
  assumes "wire_query sources st query = Inr st'" and "sound_wiring st"
  shows "sound_wiring st'"
  using assms(1)
proof (cases rule: wire_query_Inr)
  case (view q system ali)
  then show ?thesis using wire_view_views [OF view] assms(2) by (simp add: sound_wiring_def)
next
  case (link q source system ali k params dialect)
  then show ?thesis using wire_link_params [OF link] assms(2) by (simp add: sound_wiring_def views_named_def)
qed

lemma wired_sound:
  assumes "res_fold (wire_query sources) no_wiring queries = Inr st"
  shows "sound_wiring st"
proof -
  have "sound_wiring no_wiring" by (simp add: sound_wiring_def no_wiring_def views_named_def)
  then show ?thesis using wire_query_sound by (rule res_fold_invariant [OF assms])
qed

lemma looker_publish_Inr:
  assumes "looker_publish sha config request flags = Inr r"
  obtains artifact_id template_id sources queries st blend where "res_fold (wire_query sources) no_wiring queries = Inr st"
    "pb_created r = [JObj [(''type'', JStr ''template_link''), (''id'', JStr (stable_id sha artifact_id (pr_target request))),
       (''url'', JStr (link_url template_id (report_name config (pr_artifact request)) (wi_params st)))]]"
    "pb_pending_human_steps r = human_steps blend st" "pb_backing r = wi_backing st"
proof -
  note run = assms [unfolded looker_publish_def Let_def]
  have "item flags ''create_report'' = JStr ''template_link''"
    by (rule ccontr) (use run in \<open>simp only: not_False_eq_True if_True refuse_config_neq\<close>)
  note run = run [unfolded this, simplified if_False not_True_eq_False simp_thms, unfolded res_bind_Inr_iff]
  from run that show thesis by fastforce
qed

text \<open>A link that is published carries, besides the template and the name, only documented parameters: the pinned connectors of
  the data sources and the property, site and table type of them; there is no parameter for a host, a database or a password.\<close>
theorem looker_link_documented:
  assumes "looker_publish sha config request flags = Inr r"
  shows "\<exists>artifact_id template_id name ds. list_all link_param ds \<and>
    pb_created r = [JObj [(''type'', JStr ''template_link''), (''id'', JStr (stable_id sha artifact_id (pr_target request))),
      (''url'', JStr (link_url template_id name ds))]]"
  using assms
proof (cases rule: looker_publish_Inr)
  case (1 artifact_id template_id sources queries st blend)
  then show ?thesis using wired_sound [OF 1(1)] unfolding sound_wiring_def by blast
qed

lemma human_steps_manual: "x \<in> set (wi_manual st) \<Longrightarrow> manual_step x \<in> set (human_steps blend st)"
  unfolding human_steps_def set_append set_map by blast

lemma human_steps_unwired: "x \<in> set (wi_unwired st) \<Longrightarrow> unwired_step x \<in> set (human_steps blend st)"
  unfolding human_steps_def set_append set_map by blast

text \<open>Every reporting view that backs a published report is one that a human step names: the data source is pointed at it, or added
  for it.\<close>
theorem looker_views_named:
  assumes "looker_publish sha config request flags = Inr r" and "b \<in> set (pb_backing r)"
  shows "\<exists>ref. b = view_entry ref \<and>
    (unwired_step ref \<in> set (pb_pending_human_steps r) \<or> (\<exists>source. manual_step (source, ref) \<in> set (pb_pending_human_steps r)))"
  using assms(1)
proof (cases rule: looker_publish_Inr)
  case (1 artifact_id template_id sources queries st blend)
  have "views_named st" "b \<in> set (wi_backing st)" using wired_sound [OF 1(1)] assms(2) by (simp_all add: sound_wiring_def 1(4))
  then obtain ref where ref: "b = view_entry ref" "ref \<in> snd ` set (wi_manual st) \<or> ref \<in> set (wi_unwired st)"
    unfolding views_named_def list_all_iff by blast
  from ref(2) show ?thesis
  proof
    assume "ref \<in> snd ` set (wi_manual st)"
    then obtain source where "(source, ref) \<in> set (wi_manual st)" by auto
    then show ?thesis using ref(1) human_steps_manual 1(3) by metis
  next
    assume "ref \<in> set (wi_unwired st)"
    then show ?thesis using ref(1) human_steps_unwired 1(3) by metis
  qed
qed

text \<open>Two systems with the same alias of different kinds: the link of the second replaces the connector of the first, silently.\<close>

lemma shared_alias_overwritten:
  "res_fold (wire_query [(''a'', JObj [(''kind'', JStr ''ga4''), (''alias'', JStr ''web''), (''property_id'', JStr ''7'')]),
       (''b'', JObj [(''kind'', JStr ''gsc''), (''alias'', JStr ''web''), (''site_url'', JStr ''x'')])])
     no_wiring [JObj [(''system'', JStr ''a'')], JObj [(''system'', JStr ''b'')]] =
   Inr (no_wiring\<lparr>wi_params := [(''ds.web.connector'', ''searchConsole''), (''ds.web.propertyId'', ''7''), (''ds.web.siteUrl'', ''x'')],
     wi_systems := [''a'', ''b'']\<rparr>)"
  by code_simp

end
