(* ===== verification/Spec2Isabelle.thy ===== *)
theory Spec2Isabelle
  imports Prelude Json Snapshot Delivery Diff Naming Lineage_Graph Search Lineage_Walk
    Lineage_Severity Lineage_Scan Text_Match Sdk_Errors Sdk_Emission Sdk_Quota Sdk_Providers Sdk_Vault
    Sdk_Runner Sdk_Protocol Sdk_Service Sdk_Safety Front_Matter Statuses Render Render_Safety Kb_Validate Kb_Safety Api_Io
    Google_Api Google_Metadata Pg_Executor Pg_Catalog Pbi_Reference Pbi_Client Pbi_Plan Pbi_Publisher Pbi_Delivery Pbi_Preflight
    Looker_Publisher
begin

text \<open>
  A verification library for the context layer (Python, under \<open>src/\<close>): the platform that takes schema snapshots of
  source systems, compares them, follows their lineage, renders and checks the documents of a knowledge base, flags those a
  change contaminates, and runs the connector jobs that deliver snapshots, execute queries and publish reports.

  \<^bold>\<open>How the parts interact.\<close> A connector (\<open>src/connectors/sdk\<close>) introspects a source; the SDK emits a canonical snapshot, and a runner
  delivers it to the core, whose gate (\<open>src/snapshot/accept.py\<close>) validates and stores it. The diff engine (\<open>src/snapshot/diff.py\<close>)
  compares two stored snapshots. The lineage graph (\<open>src/lineage/graph.py\<close>) merges what several sources attest about
  the flow of data between objects; severity finalization (\<open>severity.py\<close>) raises a change to breaking where a
  downstream object depends on it; the scan (\<open>scan.py\<close>) walks the graph from the breaking objects and reports the
  documents that depend on them. The renderer (\<open>src/generator/render.py\<close>) writes the machine-owned documents of the snapshots, status
  writes (\<open>statuses.py\<close>) are the only edits of human-owned ones, and the validation library (\<open>validate.py\<close>) checks the tree. The
  connectors (\<open>src/connectors/postgres\<close>, \<open>ga4\<close>, \<open>gsc\<close>, \<open>powerbi\<close>, \<open>looker_studio\<close>) are the handlers the runner hosts: metadata, query execution and
  publishing against a database or a web service.

  \<^bold>\<open>Theories.\<close>
  \<^item> \<open>Prelude\<close>: results that may be errors, dicts (locale \<open>py_dict\<close>, interpreted on association lists), stable sorting,
    strings. \<open>Text_Match\<close>: Python's character classes and string methods, and regular expressions with the priorities
    of the backtracking matcher.
  \<^item> \<open>Json\<close>: JSON values and \<open>canonical_json\<close> (\<open>snapshot/canonical.py\<close>); its text determines the value.
  \<^item> \<open>Snapshot\<close>: the snapshot data model, the kind registry (\<open>registry.py\<close>), canonical order and body (\<open>canonical.py\<close>), the
    structural hash (\<open>hashing.py\<close>). \<open>Delivery\<close>: \<open>validate.py\<close> and \<open>accept.py\<close>. \<open>Diff\<close>: \<open>diff.py\<close>. \<open>Naming\<close>: \<open>generator/naming.py\<close>.
  \<^item> \<open>Lineage_Graph\<close>: \<open>lineage/graph.py\<close>. \<open>Search\<close>: breadth-first search as a locale (\<open>bfs_run\<close>) over a step function, with the
    distance each node is reached at. \<open>Lineage_Walk\<close>: \<open>walk.py\<close>, interpreting it, and the cycle search. \<open>Lineage_Severity\<close>:
    \<open>severity.py\<close>. \<open>Lineage_Scan\<close>: \<open>scan.py\<close>, interpreting the search again.
  \<^item> \<open>Sdk_Errors\<close>: \<open>errors.py\<close>, \<open>redact.py\<close>. \<open>Sdk_Emission\<close>: \<open>manifest.py\<close>, \<open>emission.py\<close>. \<open>Sdk_Quota\<close>: \<open>quota.py\<close>. \<open>Sdk_Providers\<close>: \<open>providers.py\<close>,
    \<open>encoding.py\<close>, \<open>connector.py\<close>. \<open>Sdk_Vault\<close>: \<open>vault.py\<close>, with what a resolver promises as the locale \<open>credential_resolver\<close>, interpreted on the
    environment and the Vault backend. \<open>Sdk_Runner\<close>: \<open>runner.py\<close>, \<open>local.py\<close>. \<open>Sdk_Protocol\<close>: \<open>protocol.py\<close>. \<open>Sdk_Service\<close>: \<open>service.py\<close>. \<open>Sdk_Safety\<close>:
    what the runner guarantees.
  \<^item> \<open>Front_Matter\<close>: \<open>generator/frontmatter.py\<close>. \<open>Statuses\<close>: \<open>statuses.py\<close>, with the replacement templates of \<open>re\<close>. \<open>Render\<close>: \<open>render.py\<close> over a
    tree of files as a dict of paths; \<open>Render_Safety\<close>: what it touches, what the tree holds, when stamps move, that a second run
    changes nothing. \<open>Kb_Validate\<close>: \<open>validate.py\<close>; \<open>Kb_Safety\<close>: that it accepts what the renderer writes.
  \<^item> \<open>Api_Io\<close>: calls over a world, Python's accessors of dynamic values, the loop over pages, and what a paged service promises as the
    locale \<open>paged_source\<close>. \<open>Google_Api\<close>: \<open>ga4/client.py\<close> and the executors of \<open>ga4\<close> and \<open>gsc\<close>, each interpreting \<open>paged_source\<close> on its fetch.
    \<open>Google_Metadata\<close>: \<open>ga4/mapping.py\<close> and the metadata providers. \<open>Pg_Executor\<close>: \<open>postgres/executor.py\<close>. \<open>Pg_Catalog\<close>: \<open>catalog.py\<close>,
    \<open>connector.py\<close>, \<open>ephemeral.py\<close>.
  \<^item> \<open>Pbi_Reference\<close>: \<open>powerbi/reference.py\<close>, the endpoints that may be called and the gate of text before the wire. \<open>Pbi_Client\<close>: \<open>client.py\<close>, with
    the locale \<open>gate_invariant\<close>: what holds of the world if every request that passes the gate keeps it, interpreted on the log of
    requests. \<open>Pbi_Plan\<close> and \<open>Pbi_Publisher\<close>: the two halves of \<open>publisher.py\<close>. \<open>Pbi_Delivery\<close>: what a delivery leaves in the service; the locale
    \<open>row_sink\<close> has how calls change the rows, \<open>live_row_sink\<close> that they return, and \<open>row_delivery\<close>, a sublocale, what an HTTP service must
    do for that. \<open>Pbi_Preflight\<close>: \<open>preflight.py\<close>, \<open>config.py\<close>. \<open>Looker_Publisher\<close>: \<open>looker_studio/publisher.py\<close>.

  \<^bold>\<open>How code becomes definitions.\<close> A dataclass is a record, an enumeration or an exception hierarchy a datatype; a dict is an
  association list in insertion order; a function that raises returns a sum with the error on the left; an error whose text has
  characters above 255 is a constructor with the data of its message. State is passed explicitly: the token cache
  of the Vault client, the process environment of the runner, the tree of files, and for the connectors a world of any type,
  which a transport, a database or a clock read and change. Loops are folds or recursion with a measure; the threads of
  a running job are the step relation \<open>sup_step\<close>, and its guarantees are invariants of the reachable states.

  \<^bold>\<open>What comes from outside\<close> is a parameter: SHA-256 (\<open>sha\<close>), JSON Schema validation, YAML, the SQL parser, the
  clock, HTTP exchanges, \<open>uuid4\<close>, \<open>json.loads\<close>, the iteration order of Python sets, and the handlers of a connector; \<open>yaml.safe_load\<close>
  (\<open>load\<close>), the Jinja2 templates (\<open>tmpl\<close>) and the schemas of front matter (\<open>sch\<close>, \<open>fm_errors\<close>); the transports of the services (the records
  \<open>api_client\<close> and \<open>pbi_client\<close>), the database (\<open>pg_server\<close>, \<open>pg_catalog\<close>), docker, the refusals of the SQL check, \<open>float()\<close>. A theorem that needs
  a law of one of them has it as a premise, and its witness instantiates the parameter. The laws are what the services
  document: \<open>yaml_reads\<close> says that YAML reads the emitted forms, \<open>serves_reports\<close> that a page within the API's limit has the rows
  asked for, \<open>row_service\<close> what the answers \<open>200\<close> and \<open>429\<close> of the push API mean and that an answer \<open>5xx\<close> may leave some of the rows.

  \<^bold>\<open>What is shown.\<close>
  \<^item> Snapshots: equality of canonical bytes is equality of JSON values; canonical bodies do not depend on the order of arrival; two
    objects have the same hash text exactly when they agree structurally; the gate accepts exactly the valid
    documents, storing is idempotent, and nothing invalid is written.
  \<^item> Diffs: the identities are partitioned into added, removed, changed and unchanged; a diff is empty exactly when the
    objects have the same canonical bytes; the severity of a change is characterized; the exact error condition.
  \<^item> Lineage: merged edges and their tiers are exact and do not depend on the order of attestations; a walk returns exactly the
    nodes within the distance; the cycles are exact; finalized breaking changes, contaminated and stale documents
    are characterized, with shortest paths.
  \<^item> Connector SDK: emission succeeds exactly on clean objects and what it emits the core accepts; outcomes have one of three shapes;
    limits bound every execution; probes and publishing report honestly; credential URIs and resolved secrets do not leave in texts;
    references and env files round-trip; resolved secrets are current and stale tokens recover; the execution
    gate never fails open; the process environment is restored, except after a failed injection; at most one terminal call is
    made; the supervision is sound under every interleaving; the runner serves on, up to a claim that raises outside the protocol.
  \<^item> Knowledge base: front matter round-trips; a status write edits exactly its lines, and a run of them is all or nothing; the
    renderer touches its own files only, the machine-owned files are exactly the planned ones, a second run changes nothing,
    and the cross-checks of the validation accept the result.
  \<^item> Connectors: Postgres executes no query before its walls have held, and executors return exactly the rows up to the cap;
    the objects of a catalog are exact and do not depend on the order of its rows; the two surfaces of GA4 must agree. Every
    request to Power BI is a documented one; plans respect the limits; a revision or restoration that returns has replaced
    exactly its tables, with what failed attempts can leave bounded; a failed first delivery is cleaned up or says so, with the
    exceptions stated. The Looker Studio link has documented parameters only.

  \<^bold>\<open>Bounds and fuel.\<close> The searches recur on the finite set of nodes not yet visited, the retry ladder on the attempts left,
  the matcher's repetition on the length of the text, which bounds the rounds since an empty round is not repeated. The page loop
  recurs on the rows still missing, \<open>push_batches\<close> on the rows left, \<open>exchange\<close> on the schedule of retries, the wait for a Fabric
  operation on the time left.
  No definition needs fuel that a caller chooses.

  \<^bold>\<open>Not modelled.\<close> The SQL parser and SQL validation, which walk the syntax trees of the package sqlglot; the benchmark, whose
  scores are floats and whose runs are those of a language model; the command-line scripts of the tools and skills; the demo
  connector, which is sample data; the TypeScript core. Floating point numbers in JSON, code points above 255, locks, log lines,
  sleeping where it changes no result, argument parsing, printing and file access are outside the model.
\<close>

end
